(* ===== verification/Factum_Prelude.thy ===== *)
theory Factum_Prelude
  imports Main "HOL-Library.Word"
begin

text \<open>
  Shared vocabulary of the development: byte strings, results of fallible Go functions, Go's
  early-return sequencing, big-endian numbers, and generic list lemmas.

  A Go function that returns \<open>(T, error)\<close> is a function into \<open>'e + 'a\<close>, with \<open>Inl\<close> for a
  non-nil error. The statement sequence
  \<^verbatim>\<open>x, err := f(); if err != nil { return err }; rest\<close> is \<open>res_bind f (\<lambda>x. rest)\<close>.
\<close>

named_theorems codec_simps
  \<open>rewrite rules that evaluate the wire decoders on encoder output\<close>

named_theorems netip_simps
  \<open>rewrite rules on addresses and CIDR prefixes\<close>

named_theorems db_run
named_theorems db_intros
  \<open>introduction rules that carry an invariant through database programs\<close>

type_synonym byte = "8 word"
type_synonym bytes = "8 word list"

text \<open>The conversions \<^verbatim>\<open>[]byte(s)\<close> and \<^verbatim>\<open>string(b)\<close>: the same bytes.\<close>

definition bytes_of :: "string \<Rightarrow> bytes" where
  "bytes_of s = map (\<lambda>c. of_nat (of_char c)) s"

definition string_of :: "bytes \<Rightarrow> string" where
  "string_of bs = map (\<lambda>b. char_of (unat b)) bs"

subsection \<open>Results\<close>

definition res_bind :: "'e + 'a \<Rightarrow> ('a \<Rightarrow> 'e + 'b) \<Rightarrow> 'e + 'b" where
  "res_bind r f = (case r of Inl e \<Rightarrow> Inl e | Inr a \<Rightarrow> f a)"

lemma res_bind_simps [simp]:
  "res_bind (Inl e) f = Inl e"
  "res_bind (Inr a) f = f a"
  by (simp_all add: res_bind_def)

lemma res_bind_cong [fundef_cong]:
  assumes "r = r'" and "\<And>a. r' = Inr a \<Longrightarrow> f a = g a"
  shows "res_bind r f = res_bind r' g"
  using assms by (cases r') auto

lemma res_bind_eq_Inr:
  "res_bind r f = Inr b \<longleftrightarrow> (\<exists>a. r = Inr a \<and> f a = Inr b)"
  by (cases r) auto

lemma res_bind_eq_Inl:
  "res_bind r f = Inl e \<longleftrightarrow> r = Inl e \<or> (\<exists>a. r = Inr a \<and> f a = Inl e)"
  by (cases r) auto

definition check :: "'e \<Rightarrow> bool \<Rightarrow> 'e + unit" where
  "check e ok = (if ok then Inr () else Inl e)"

lemma check_simps [simp]:
  "check e True = Inr ()"
  "check e False = Inl e"
  "check e ok = Inr u \<longleftrightarrow> ok"
  "check e ok = Inl e' \<longleftrightarrow> \<not> ok \<and> e' = e"
  by (auto simp: check_def)

text \<open>A Go \<open>for\<close> loop that appends one converted element per turn and returns at the first error.\<close>

fun res_map :: "('a \<Rightarrow> 'e + 'b) \<Rightarrow> 'a list \<Rightarrow> 'e + 'b list" where
  "res_map f [] = Inr []"
| "res_map f (x # xs) = res_bind (f x) (\<lambda>y. res_bind (res_map f xs) (\<lambda>ys. Inr (y # ys)))"

lemma res_map_cong [fundef_cong]:
  assumes "xs = ys" and "\<And>x. x \<in> set ys \<Longrightarrow> f x = g x"
  shows "res_map f xs = res_map g ys"
  using assms(2) unfolding assms(1) by (induction ys) auto

lemma res_map_Inr_length: "res_map f xs = Inr ys \<Longrightarrow> length ys = length xs"
  by (induction xs arbitrary: ys) (auto simp: res_bind_eq_Inr)

lemma res_map_Inr_nth:
  "res_map f xs = Inr ys \<longleftrightarrow> list_all2 (\<lambda>x y. f x = Inr y) xs ys"
  by (induction xs arbitrary: ys) (auto simp: res_bind_eq_Inr list_all2_Cons1)

text \<open>A Go loop that skips (\<^verbatim>\<open>continue\<close>) the elements whose conversion fails.\<close>

definition res_filter :: "('a \<Rightarrow> 'e + 'b) \<Rightarrow> 'a list \<Rightarrow> 'b list" where
  "res_filter f xs = concat (map (\<lambda>x. case f x of Inl _ \<Rightarrow> [] | Inr y \<Rightarrow> [y]) xs)"

lemma res_filter_simps [simp]:
  "res_filter f [] = []"
  "res_filter f (x # xs) = (case f x of Inl _ \<Rightarrow> [] | Inr y \<Rightarrow> [y]) @ res_filter f xs"
  "res_filter f (xs @ ys) = res_filter f xs @ res_filter f ys"
  by (simp_all add: res_filter_def)

lemma set_res_filter: "set (res_filter f xs) = {y. \<exists>x \<in> set xs. f x = Inr y}"
  by (induction xs) (auto split: sum.splits)

subsection \<open>Big-endian numbers\<close>

text \<open>
  The loop \<^verbatim>\<open>for _, c := range buf { l = l<<8 | int(c) }\<close> over an unbounded \<open>int\<close>: the
  shifted value has eight zero bits below, so the \<open>or\<close> is an addition.
\<close>

definition be_nat :: "bytes \<Rightarrow> nat" where
  "be_nat bs = fold (\<lambda>c l. l * 256 + unat c) bs 0"

lemma fold_be_nat: "fold (\<lambda>c l. l * 256 + unat c) bs l = l * 256 ^ length bs + be_nat bs"
proof (induction bs arbitrary: l)
  case Nil
  then show ?case by (simp add: be_nat_def)
next
  case (Cons b bs)
  have "be_nat (b # bs) = unat b * 256 ^ length bs + be_nat bs"
    by (simp add: be_nat_def Cons.IH[of "unat b"])
  moreover have "fold (\<lambda>c l. l * 256 + unat c) (b # bs) l
      = (l * 256 + unat b) * 256 ^ length bs + be_nat bs"
    using Cons.IH[of "l * 256 + unat b"] by simp
  ultimately show ?case by (simp add: algebra_simps)
qed

lemma be_nat_simps [simp]:
  "be_nat [] = 0"
  "be_nat (b # bs) = unat b * 256 ^ length bs + be_nat bs"
  by (simp_all add: be_nat_def fold_be_nat[of bs "unat b", unfolded be_nat_def])

lemma unat_byte_less [simp]: "unat (b :: byte) < 256"
  using unsigned_less[of b] by simp

lemma unat_byte_le [simp]: "unat (b :: byte) \<le> 255"
  using unat_byte_less[of b] by linarith

lemma be_nat_less: "be_nat bs < 256 ^ length bs"
proof (induction bs)
  case Nil
  then show ?case by simp
next
  case (Cons b bs)
  have "unat b * 256 ^ length bs + be_nat bs < (unat b + 1) * 256 ^ length bs"
    using Cons by simp
  also have "\<dots> \<le> 256 * 256 ^ length bs"
    using unat_byte_less[of b] by (intro mult_le_mono1) linarith
  finally show ?case by simp
qed

lemma be_nat_append: "be_nat (xs @ ys) = be_nat xs * 256 ^ length ys + be_nat ys"
  by (induction xs) (simp_all add: power_add algebra_simps)

text \<open>\<open>binary.BigEndian.PutUint\<close>: the low \<open>k\<close> bytes of a number, most significant first.\<close>

fun put_be :: "nat \<Rightarrow> nat \<Rightarrow> bytes" where
  "put_be 0 n = []"
| "put_be (Suc k) n = put_be k (n div 256) @ [of_nat n]"

lemma length_put_be [simp]: "length (put_be k n) = k"
  by (induction k arbitrary: n) auto

lemma put_be_Cons: "put_be (Suc k) n = of_nat (n div 256 ^ k) # put_be k n"
  by (induction k arbitrary: n) (simp_all add: div_mult2_eq)

lemma unat_of_nat_byte: "unat (of_nat n :: byte) = n mod 256"
  by (simp add: unat_of_nat)

lemma be_nat_put_be: "be_nat (put_be k n) = n mod 256 ^ k"
proof (induction k arbitrary: n)
  case 0
  then show ?case by simp
next
  case (Suc k)
  have "n mod (256 * 256 ^ k) = 256 * (n div 256 mod 256 ^ k) + n mod 256"
    by (rule mod_mult2_eq)
  then show ?case
    by (simp add: be_nat_append Suc.IH unat_of_nat_byte algebra_simps)
qed

subsection \<open>Lists\<close>

lemma length_dropWhile_less_Suc [termination_simp]: "length (dropWhile P xs) < Suc (length xs)"
  using length_dropWhile_le[of P xs] by simp

lemma find_Some_iff_first:
  "find P xs = Some x \<Longrightarrow> P x \<and> x \<in> set xs"
  by (induction xs) (auto split: if_splits)

lemma find_None_iff_none: "find P xs = None \<longleftrightarrow> (\<forall>x \<in> set xs. \<not> P x)"
  by (induction xs) auto


text \<open>
  The measure of a search that marks what it has visited: how many of the keys are not yet in \<open>seen\<close>.
\<close>

definition unseen :: "'k list \<Rightarrow> 'k list \<Rightarrow> nat" where
  "unseen keys seen = length (filter (\<lambda>k. k \<notin> set seen) keys)"

lemma unseen_mono: "set seen \<subseteq> set seen' \<Longrightarrow> unseen keys seen' \<le> unseen keys seen"
  unfolding unseen_def by (induction keys) auto

lemma unseen_Cons: "k \<in> set keys \<Longrightarrow> k \<notin> set seen \<Longrightarrow> unseen keys (k # seen) < unseen keys seen"
proof (induction keys)
  case (Cons a keys)
  have "unseen keys (k # seen) \<le> unseen keys seen" by (rule unseen_mono) auto
  with Cons show ?case by (cases "a = k") (auto simp: unseen_def)
qed simp

lemma unseen_map_of [termination_simp]:
  "map_of m k = Some v \<Longrightarrow> k \<notin> set seen \<Longrightarrow> unseen (map fst m) (k # seen) < unseen (map fst m) seen"
  by (rule unseen_Cons) (force dest: map_of_SomeD, assumption)

subsection \<open>The interface of a wire codec\<close>

text \<open>
  A decoder that takes one item from the front of its input and returns what is left, and an
  encoder whose output it reads back whatever follows. Clients get that encodings are prefix-free
  and that a sequence of items is read back in order.
\<close>

fun decode_seq :: "('b list \<Rightarrow> 'e + 'a \<times> 'b list) \<Rightarrow> nat \<Rightarrow> 'b list \<Rightarrow> 'e + 'a list \<times> 'b list" where
  "decode_seq dec 0 bs = Inr ([], bs)"
| "decode_seq dec (Suc n) bs =
     res_bind (dec bs) (\<lambda>(x, r). res_bind (decode_seq dec n r) (\<lambda>(xs, r'). Inr (x # xs, r')))"

locale wire_codec =
  fixes encode :: "'a \<Rightarrow> 'b list"
    and decode :: "'b list \<Rightarrow> 'e + 'a \<times> 'b list"
    and ok :: "'a \<Rightarrow> bool"
  assumes decode_encode: "ok x \<Longrightarrow> decode (encode x @ rest) = Inr (x, rest)"
begin

lemma prefix_free:
  assumes "ok x" and "ok y" and "encode x @ r = encode y @ s"
  shows "x = y \<and> r = s"
  using decode_encode[OF assms(1), of r] decode_encode[OF assms(2), of s] assms(3)
  by (metis prod.inject sum.inject(2))

lemma decode_seq_concat:
  "list_all ok xs \<Longrightarrow> decode_seq decode (length xs) (concat (map encode xs) @ rest) = Inr (xs, rest)"
  by (induction xs) (simp_all add: decode_encode)

end

end
