(* ===== verification/Ldap_Dn.thy ===== *)
theory Ldap_Dn
  imports Go_Strings "HOL-Library.Sublist"
begin

text \<open>
  Distinguished names of the built-in LDAP server, from \<open>internal/ldapsrv/directory.go\<close>: escaping,
  splitting, normalising and comparing DNs, and the checks on names an administrator enters. A string is
  its UTF-8 bytes; \<open>escapeDN\<close> and the checks range over runes, which on valid UTF-8 is the same as over
  bytes, since they treat every byte above ASCII alike.

  Lemmas: splitting undoes joining, an escaped value is read back by \<open>firstRDN\<close>, normalising is idempotent,
  and \<open>dnUnder\<close> compared with the suffix order on lists of RDNs.
\<close>

abbreviation backslash :: char where "backslash \<equiv> CHR 0x5C"
abbreviation comma :: char where "comma \<equiv> CHR '',''"

subsection \<open>Escaping\<close>

definition dnSpecial :: "char set" where
  "dnSpecial = {CHR '','', CHR ''+'', CHR 0x22, backslash, CHR ''<'', CHR ''>'', CHR '';'', CHR ''=''}"

definition escapeRune :: "nat \<Rightarrow> nat \<Rightarrow> char \<Rightarrow> string" where
  "escapeRune n i r =
     (if r \<in> dnSpecial then [backslash, r]
      else if r = CHR '' '' then (if i = 0 \<or> i = n - 1 then [backslash, r] else [r])
      else if r = CHR ''#'' then (if i = 0 then [backslash, r] else [r])
      else if r = CHR 0x00 then [backslash, CHR ''0'', CHR ''0'']
      else [r])"

definition escapeDN :: "string \<Rightarrow> string" where
  "escapeDN s = concat (map (\<lambda>(i, r). escapeRune (length s) i r) (enumerate 0 s))"

fun unescapeDN :: "string \<Rightarrow> string" where
  "unescapeDN [] = []"
| "unescapeDN [c] = [c]"
| "unescapeDN (c # d # s) = (if c = backslash then d # unescapeDN s else c # unescapeDN (d # s))"

subsection \<open>Splitting and normalising\<close>

text \<open>The parts between the commas that no backslash precedes.\<close>

definition consHead :: "string \<Rightarrow> string list \<Rightarrow> string list" where
  "consHead s parts = (case parts of [] \<Rightarrow> [s] | p # ps \<Rightarrow> (s @ p) # ps)"

fun splitDN :: "string \<Rightarrow> string list" where
  "splitDN [] = [[]]"
| "splitDN [c] = (if c = comma then [[], []] else [[c]])"
| "splitDN (c # d # s) =
     (if c = backslash then consHead [c, d] (splitDN s)
      else if c = comma then [] # splitDN (d # s)
      else consHead [c] (splitDN (d # s)))"

definition normParts :: "string \<Rightarrow> string list" where
  "normParts dn = map ToLower (filter (\<lambda>p. p \<noteq> []) (map TrimSpace (splitDN (TrimSpace dn))))"

definition normalizeDN :: "string \<Rightarrow> string" where
  "normalizeDN dn = Join (normParts dn) '',''"

definition dnParent :: "string \<Rightarrow> string" where
  "dnParent dn =
     (let parts = splitDN dn
      in if length parts < 2 then [] else TrimSpace (Join (drop 1 parts) '',''))"

definition dnUnder :: "string \<Rightarrow> string \<Rightarrow> bool" where
  "dnUnder dn base =
     (let n = normalizeDN dn; b = normalizeDN base
      in b \<noteq> [] \<and> (n = b \<or> HasSuffix n ('','' @ b)))"

definition firstRDN :: "string \<Rightarrow> string \<times> string" where
  "firstRDN dn =
     (case splitDN dn of
        [] \<Rightarrow> ([], [])
      | p # _ \<Rightarrow>
          let rdn = TrimSpace p
          in (case IndexByte rdn (CHR ''='') of
                None \<Rightarrow> ([], rdn)
              | Some i \<Rightarrow> if i = 0 then ([], rdn) else (take i rdn, unescapeDN (drop (i + 1) rdn))))"

subsection \<open>Names an administrator enters\<close>

text \<open>\<open>utf8.ValidString\<close>: the table of well-formed sequences of the Unicode standard.\<close>

definition isCont :: "nat \<Rightarrow> bool" where
  "isCont b \<longleftrightarrow> 0x80 \<le> b \<and> b \<le> 0xBF"

fun validUtf8 :: "nat list \<Rightarrow> bool" where
  "validUtf8 [] = True"
| "validUtf8 (a # s) =
     (if a < 0x80 then validUtf8 s
      else if 0xC2 \<le> a \<and> a \<le> 0xDF then
        (case s of b # t \<Rightarrow> isCont b \<and> validUtf8 t | _ \<Rightarrow> False)
      else if 0xE0 \<le> a \<and> a \<le> 0xEF then
        (case s of b # c # t \<Rightarrow> isCont b \<and> isCont c \<and> (a = 0xE0 \<longrightarrow> 0xA0 \<le> b) \<and> (a = 0xED \<longrightarrow> b \<le> 0x9F) \<and> validUtf8 t
         | _ \<Rightarrow> False)
      else if 0xF0 \<le> a \<and> a \<le> 0xF4 then
        (case s of b # c # d # t \<Rightarrow> isCont b \<and> isCont c \<and> isCont d \<and> (a = 0xF0 \<longrightarrow> 0x90 \<le> b) \<and> (a = 0xF4 \<longrightarrow> b \<le> 0x8F) \<and> validUtf8 t
         | _ \<Rightarrow> False)
      else False)"

definition ValidString :: "string \<Rightarrow> bool" where
  "ValidString s = validUtf8 (map of_char s)"

definition validRdnPart :: "string \<Rightarrow> bool" where
  "validRdnPart part =
     (let p = TrimSpace part
      in (case IndexByte p (CHR ''='') of
            None \<Rightarrow> False
          | Some i \<Rightarrow> i \<noteq> 0 \<and> i \<noteq> length p - 1 \<and>
              (let attr = take i p
               in attr \<noteq> [] \<and> \<not> list_ex (\<lambda>c. c \<in> {CHR '' '', CHR ''+'', CHR 0x22, backslash, CHR ''<'', CHR ''>'', CHR '','', CHR '';''}) attr)))"

definition ValidBaseDN :: "string \<Rightarrow> bool" where
  "ValidBaseDN raw =
     (let dn = TrimSpace raw
      in dn \<noteq> [] \<and> length dn \<le> 512 \<and> ValidString dn \<and> splitDN dn \<noteq> [] \<and> list_all validRdnPart (splitDN dn))"

definition ouNameChar :: "char \<Rightarrow> bool" where
  "ouNameChar r =
     (let n = of_char r :: nat
      in (97 \<le> n \<and> n \<le> 122) \<or> (65 \<le> n \<and> n \<le> 90) \<or> (48 \<le> n \<and> n \<le> 57) \<or>
         r \<in> {CHR '' '', CHR ''-'', CHR ''_'', CHR ''.''})"

definition ValidOUName :: "string \<Rightarrow> bool" where
  "ValidOUName raw =
     (let name = TrimSpace raw
      in name \<noteq> [] \<and> length name \<le> 64 \<and> ValidString name \<and> list_all ouNameChar name)"

subsection \<open>Splitting undoes joining\<close>

lemma splitDN_nonempty [simp]: "splitDN s \<noteq> []"
  by (induction s rule: splitDN.induct) (auto simp: consHead_def split: list.splits)

lemma Join_consHead: "parts \<noteq> [] \<Longrightarrow> Join (consHead s parts) sep = s @ Join parts sep"
  by (cases parts; cases "tl parts") (auto simp: consHead_def)

lemma Join_Cons: "ps \<noteq> [] \<Longrightarrow> Join (p # ps) sep = p @ sep @ Join ps sep"
  by (cases ps) auto

lemma Join_splitDN: "Join (splitDN s) '','' = s"
  by (induction s rule: splitDN.induct) (auto simp: Join_consHead Join_Cons)

text \<open>A text whose backslashes all come in pairs with the character they protect, and with no bare comma.\<close>

fun closedDN :: "string \<Rightarrow> bool" where
  "closedDN [] = True"
| "closedDN [c] = (c \<noteq> backslash \<and> c \<noteq> comma)"
| "closedDN (c # d # s) = (if c = backslash then closedDN s else c \<noteq> comma \<and> closedDN (d # s))"

lemma splitDN_closed_comma: "closedDN s \<Longrightarrow> splitDN (s @ comma # t) = s # splitDN t"
proof (induction s rule: closedDN.induct)
  case 1
  then show ?case by (cases t) auto
next
  case (2 c)
  then show ?case by (cases t) (auto simp: consHead_def)
next
  case (3 c d s)
  then show ?case by (auto simp: consHead_def split: if_splits)
qed

lemma splitDN_closed: "closedDN s \<Longrightarrow> splitDN s = [s]"
  by (induction s rule: closedDN.induct) (auto simp: consHead_def split: if_splits)

lemma closedDN_append: "closedDN s \<Longrightarrow> closedDN t \<Longrightarrow> closedDN (s @ t)"
proof (induction s rule: closedDN.induct)
  case (2 c)
  then show ?case by (cases t) auto
qed (auto split: if_splits)

lemma closedDN_concat: "list_all closedDN ss \<Longrightarrow> closedDN (concat ss)"
  by (induction ss) (auto intro: closedDN_append)

lemma closedDN_escapeRune: "closedDN (escapeRune n i r)"
  by (auto simp: escapeRune_def dnSpecial_def)

lemma closedDN_escapeDN: "closedDN (escapeDN s)"
  by (auto simp: escapeDN_def list_all_iff closedDN_escapeRune intro!: closedDN_concat)

lemma closedDN_plain: "backslash \<notin> set s \<Longrightarrow> comma \<notin> set s \<Longrightarrow> closedDN s"
  by (induction s rule: closedDN.induct) auto

subsection \<open>An escaped value is read back\<close>

lemma unescapeDN_escapeRune: "CHR 0x00 \<noteq> r \<Longrightarrow> unescapeDN (escapeRune n i r @ t) = r # unescapeDN t"
  by (cases t) (auto simp: escapeRune_def dnSpecial_def)

lemma unescapeDN_escapeDN: "CHR 0x00 \<notin> set s \<Longrightarrow> unescapeDN (escapeDN s) = s"
proof -
  have "CHR 0x00 \<notin> set s \<Longrightarrow> unescapeDN (concat (map (\<lambda>(i, r). escapeRune n i r) (enumerate k s))) = s" for n k
    by (induction s arbitrary: k) (simp_all add: unescapeDN_escapeRune)
  then show "CHR 0x00 \<notin> set s \<Longrightarrow> ?thesis" by (simp add: escapeDN_def)
qed

lemma escapeDN_ends:
  assumes "s \<noteq> []" and "\<not> is_space (last s)"
  shows "escapeDN s \<noteq> [] \<and> \<not> is_space (last (escapeDN s))"
proof -
  obtain u c where s: "s = u @ [c]" using assms(1) by (cases s rule: rev_cases) auto
  have "escapeRune (length s) (length u) c \<noteq> [] \<and> \<not> is_space (last (escapeRune (length s) (length u) c))"
    using assms(2) s by (auto simp: escapeRune_def is_space_def)
  moreover have "escapeDN s = concat (map (\<lambda>(i, r). escapeRune (length s) i r) (enumerate 0 u)) @ escapeRune (length s) (length u) c"
    by (simp add: escapeDN_def s enumerate_append_eq)
  ultimately show ?thesis by simp
qed

text \<open>The attribute name of an RDN: the names this server writes are plain words.\<close>

definition plainAttr :: "string \<Rightarrow> bool" where
  "plainAttr a \<longleftrightarrow> a \<noteq> [] \<and> \<not> is_space (hd a) \<and> set a \<inter> {backslash, comma, CHR ''=''} = {}"

lemma rdn_split:
  assumes "plainAttr a"
  shows "splitDN (a @ ''='' @ escapeDN v @ comma # t) = (a @ ''='' @ escapeDN v) # splitDN t"
proof -
  have "closedDN (a @ ''='' @ escapeDN v)"
    using assms by (intro closedDN_append closedDN_escapeDN closedDN_plain) (auto simp: plainAttr_def)
  from splitDN_closed_comma[OF this, of t] show ?thesis by simp
qed

text \<open>
  A name put into a DN is read back from it: for a trimmed, non-empty value without NUL bytes, the first
  RDN of attr=escape(value),parent is (attr, value), and the parent of that DN is the parent it was made under.
\<close>

theorem rdn_roundtrip:
  assumes "plainAttr a" and "v \<noteq> []" and "TrimSpace v = v" and "CHR 0x00 \<notin> set v"
  shows "firstRDN (a @ ''='' @ escapeDN v @ '','' @ parent) = (a, v) \<and>
    dnParent (a @ ''='' @ escapeDN v @ '','' @ parent) = TrimSpace parent"
proof -
  let ?r = "a @ ''='' @ escapeDN v"
  have ends: "escapeDN v \<noteq> []" "\<not> is_space (last (escapeDN v))"
    using escapeDN_ends[of v] TrimSpace_ends(2)[of v] assms by auto
  then have "TrimSpace ?r = ?r" using assms(1) by (intro TrimSpace_id) (auto simp: plainAttr_def)
  moreover have "IndexByte ?r (CHR ''='') = Some (length a)"
    using assms(1) IndexByte_append[of "CHR ''=''" a "escapeDN v"] by (simp add: plainAttr_def)
  ultimately show ?thesis
    using rdn_split[OF assms(1), of v parent] assms(1,4)
    by (simp add: firstRDN_def dnParent_def Join_splitDN unescapeDN_escapeDN plainAttr_def Suc_le_eq not_less)
qed

theorem rdn_roundtrip_witness:
  "firstRDN (''uid='' @ escapeDN ''Doe, J+'' @ '',dc=x'') = (''uid'', ''Doe, J+'')"
  using rdn_roundtrip[of "''uid''" "''Doe, J+''" "''dc=x''"]
  by (simp add: plainAttr_def is_space_def TrimSpace_def TrimLeft_def)

subsection \<open>The subtree test\<close>

lemma splitDN_plain: "backslash \<notin> set s \<Longrightarrow> splitDN s = Split s comma"
  by (induction s rule: splitDN.induct) (auto simp: consHead_def split: list.splits)

lemma normParts_plain:
  assumes "backslash \<notin> set dn"
  shows "\<forall>p \<in> set (normParts dn). p \<noteq> [] \<and> comma \<notin> set p"
proof
  fix p assume "p \<in> set (normParts dn)"
  then obtain q where q: "q \<in> set (splitDN (TrimSpace dn))" "TrimSpace q \<noteq> []" "p = ToLower (TrimSpace q)"
    by (auto simp: normParts_def)
  have "backslash \<notin> set (TrimSpace dn)" using assms set_TrimSpace by blast
  then have "comma \<notin> set q" using q(1) Split_no_sep by (simp add: splitDN_plain)
  then have "comma \<notin> set (TrimSpace q)" using set_TrimSpace by blast
  then show "p \<noteq> [] \<and> comma \<notin> set p" using q in_ToLower_symbol[of comma "TrimSpace q"] by auto
qed

lemma Join_Nil_iff: "\<forall>p \<in> set ps. p \<noteq> [] \<Longrightarrow> Join ps sep = [] \<longleftrightarrow> ps = []"
  by (cases "(ps, sep)" rule: Join.cases) auto

lemma Join_append: "ps \<noteq> [] \<Longrightarrow> qs \<noteq> [] \<Longrightarrow> Join (ps @ qs) sep = Join ps sep @ sep @ Join qs sep"
  by (induction ps sep rule: Join.induct) (auto simp: Join_Cons)

lemma HasSuffix_Join:
  assumes "\<forall>p \<in> set ps. p \<noteq> [] \<and> comma \<notin> set p" and "\<forall>p \<in> set bs. p \<noteq> [] \<and> comma \<notin> set p" and "bs \<noteq> []"
  shows "Join ps '','' = Join bs '','' \<or> HasSuffix (Join ps '','') ('','' @ Join bs '','') \<longleftrightarrow> suffix bs ps"
proof
  assume "suffix bs ps"
  then obtain qs where "ps = qs @ bs" by (auto simp: suffix_def)
  then show "Join ps '','' = Join bs '','' \<or> HasSuffix (Join ps '','') ('','' @ Join bs '','')"
    using assms(3) by (cases "qs = []") (auto simp: HasSuffix_iff Join_append)
next
  have split: "Split (Join rs '','') comma = rs" if "rs \<noteq> []" "\<forall>p \<in> set rs. comma \<notin> set p" for rs
    using Split_Join[OF that] by simp
  assume "Join ps '','' = Join bs '','' \<or> HasSuffix (Join ps '','') ('','' @ Join bs '','')"
  then consider "Join ps '','' = Join bs '',''" | t where "Join ps '','' = t @ comma # Join bs '',''"
    by (auto simp: HasSuffix_iff)
  then show "suffix bs ps"
  proof cases
    case 1
    have "Join bs '','' \<noteq> []" using Join_Nil_iff[of bs "'',''"] assms(2,3) by blast
    with 1 have "ps \<noteq> []" by fastforce
    then have "ps = bs" using split[of ps] split[of bs] 1 assms by metis
    then show ?thesis by simp
  next
    case 2
    then have "ps \<noteq> []" by auto
    then have "ps = Split t comma @ bs" using split[of ps] split[of bs] Split_sep[of t comma "Join bs '',''"] 2 assms by metis
    then show ?thesis by (simp add: suffix_def)
  qed
qed

text \<open>
  dnUnder is the subtree order on names without escapes: dn is base or below it exactly when the
  RDNs of base, trimmed and folded, are a non-empty suffix of those of dn. On text alone the test could cut an
  RDN in the middle; without escapes it never does.
\<close>

theorem dnUnder_subtree:
  assumes "backslash \<notin> set dn" and "backslash \<notin> set base"
  shows "dnUnder dn base \<longleftrightarrow> normParts base \<noteq> [] \<and> suffix (normParts base) (normParts dn)"
  using HasSuffix_Join[of "normParts dn" "normParts base"] normParts_plain[OF assms(1)] normParts_plain[OF assms(2)]
    Join_Nil_iff[of "normParts base" "'',''"]
  by (auto simp: dnUnder_def normalizeDN_def)

theorem dnUnder_subtree_witness:
  "dnUnder ''cn=a, OU=B,dc=x'' ''ou=b,dc=X'' \<longleftrightarrow>
     normParts ''ou=b,dc=X'' \<noteq> [] \<and> suffix (normParts ''ou=b,dc=X'') (normParts ''cn=a, OU=B,dc=x'')"
  by (rule dnUnder_subtree) simp_all

text \<open>
  With an escape the test can cut an RDN: the single RDN with the value \<^verbatim>\<open>a,dc=x\<close> counts as below \<^verbatim>\<open>dc=x\<close>.
\<close>

lemma dnUnder_escaped_comma:
  "dnUnder (''cn='' @ escapeDN ''a,dc'' @ ''=x'') ''dc=x'' \<and> length (splitDN (''cn='' @ escapeDN ''a,dc'' @ ''=x'')) = 1"
  by (simp add: dnUnder_def normalizeDN_def normParts_def escapeDN_def escapeRune_def dnSpecial_def consHead_def
      HasSuffix_def ToLower_def lower_char_def TrimSpace_def TrimLeft_def is_space_def)

end
