(* ===== verification/Ldap_Ber.thy ===== *)
theory Ldap_Ber
  imports Factum_Prelude
begin

text \<open>
  The BER codec of the built-in LDAP server, \<^verbatim>\<open>src/internal/ldapsrv/ber.go\<close>: the decoder on a
  byte slice (\<open>parseOne\<close>, \<open>parseKids\<close>), the decoder on a connection (\<open>readBER\<close>), and the encoders
  for the answers. The connection is the list of bytes still to be read.

  Lemmas: the decoder terminates and consumes exactly one element; the stream decoder and the
  slice decoder accept the same elements; what the encoders write is read back.
\<close>

unbundle bit_operations_syntax

datatype ber_error = errBER | errIndefinite | ioEOF | ioUnexpectedEOF

text \<open>One BER element. The Go struct is recursive through \<open>kids\<close>, hence a datatype.\<close>

datatype ber = Ber (cls: byte) (cons: bool) (tag: nat) (raw: bytes) (kids: "ber list")

definition maxBER :: nat where
  "maxBER = 2 ^ 20"

subsection \<open>Decoding\<close>

definition takeLen :: "bytes \<Rightarrow> ber_error + nat \<times> bytes" where
  "takeLen b =
     (case b of
        [] \<Rightarrow> Inl errBER
      | b0 # bs \<Rightarrow>
          if b0 < 0x80 then Inr (unat b0, bs)
          else if b0 = 0x80 then Inl errIndefinite
          else (let n = unat (b0 AND 0x7f)
                in if n = 0 \<or> n > 3 \<or> length b < 1 + n then Inl errBER
                   else Inr (be_nat (take n bs), drop n bs)))"

lemma takeLen_shorter: "takeLen b = Inr (n, rest) \<Longrightarrow> length rest < length b"
  by (auto simp: takeLen_def Let_def split: list.splits if_splits)

text \<open>
  \<open>parseKids\<close> and \<open>parseOne\<close> call each other. The test \<open>length rest < length b\<close> in \<open>parseKids\<close> is
  not in the source: the loop's next argument is a result of the recursion itself, and the test
  makes it evidently smaller. \<open>parseOne_consumes\<close> below shows that it always holds, so that
  \<open>parseKids_unfold\<close> is the source's loop.
\<close>

function (sequential) parseKids :: "bytes \<Rightarrow> ber_error + ber list"
  and parseOne :: "bytes \<Rightarrow> ber_error + ber \<times> bytes" where
  "parseKids [] = Inr []"
| "parseKids b =
     (case parseOne b of
        Inl e \<Rightarrow> Inl e
      | Inr (el, rest) \<Rightarrow>
          if length rest < length b
          then res_bind (parseKids rest) (\<lambda>out. Inr (el # out))
          else Inl errBER)"
| "parseOne b =
     (if length b < 2 then Inl errBER
      else let t = unat (hd b AND 0x1f)
      in if t = 0x1f then Inl errBER
      else (case takeLen (tl b) of
          Inl e \<Rightarrow> Inl e
        | Inr (n, rest) \<Rightarrow>
            if n > length rest \<or> n > maxBER then Inl errBER
            else if hd b AND 0x20 \<noteq> 0
            then res_bind (parseKids (take n rest))
                   (\<lambda>ks. Inr (Ber (drop_bit 6 (hd b)) True t (take n rest) ks, drop n rest))
            else Inr (Ber (drop_bit 6 (hd b)) False t (take n rest) [], drop n rest)))"
  by pat_completeness auto
termination
  by (relation "measure (\<lambda>x. case x of Inl b \<Rightarrow> 2 * length b + 1 | Inr b \<Rightarrow> 2 * length b)")
    (auto dest!: takeLen_shorter)

declare parseOne.simps [simp del] parseKids.simps(2) [simp del]

text \<open>Reading from the connection: \<open>io.ReadFull\<close> gives \<open>EOF\<close> when nothing could be read.\<close>

definition readFull :: "nat \<Rightarrow> bytes \<Rightarrow> ber_error + bytes \<times> bytes" where
  "readFull n r =
     (if n \<le> length r then Inr (take n r, drop n r)
      else if r = [] then Inl ioEOF else Inl ioUnexpectedEOF)"

definition readLen :: "bytes \<Rightarrow> ber_error + nat \<times> bytes" where
  "readLen r =
     res_bind (readFull 1 r) (\<lambda>(b, r1).
       if hd b < 0x80 then Inr (unat (hd b), r1)
       else if hd b = 0x80 then Inl errIndefinite
       else let n = unat (hd b AND 0x7f)
            in if n = 0 \<or> n > 3 then Inl errBER
               else res_bind (readFull n r1) (\<lambda>(buf, r2). Inr (be_nat buf, r2)))"

definition readBER :: "bytes \<Rightarrow> ber_error + ber \<times> bytes" where
  "readBER r =
     res_bind (readFull 1 r) (\<lambda>(tb, r1).
       let t = unat (hd tb AND 0x1f)
       in if t = 0x1f then Inl errBER
          else res_bind (readLen r1) (\<lambda>(n, r2).
            if n > maxBER then Inl errBER
            else res_bind (readFull n r2) (\<lambda>(buf, r3).
              if hd tb AND 0x20 \<noteq> 0
              then res_bind (parseKids buf)
                     (\<lambda>ks. Inr (Ber (drop_bit 6 (hd tb)) True t buf ks, r3))
              else Inr (Ber (drop_bit 6 (hd tb)) False t buf [], r3))))"

text \<open>
  \<open>int64\<close> values are 64-bit words, read as signed by \<open>sint\<close>. \<^verbatim>\<open>v |= -1 << bits\<close> sets the bits
  above the encoded ones.
\<close>

definition integer :: "ber \<Rightarrow> ber_error + 64 word" where
  "integer el =
     (if cons el \<or> (tag el \<noteq> 2 \<and> tag el \<noteq> 10) \<or> raw el = [] \<or> length (raw el) > 8
      then Inl errBER
      else let v = fold (\<lambda>c v. push_bit 8 v OR ucast c) (raw el) 0;
               bits = length (raw el) * 8
           in Inr (if bits < 64 \<and> hd (raw el) AND 0x80 \<noteq> 0 then v OR push_bit bits (- 1) else v))"

definition text_of :: "ber \<Rightarrow> string" where
  "text_of el = map (\<lambda>b. char_of (unat b)) (raw el)"

definition boolean :: "ber \<Rightarrow> bool" where
  "boolean el \<longleftrightarrow> raw el \<noteq> [] \<and> hd (raw el) \<noteq> 0"

subsection \<open>Encoding\<close>

text \<open>
  \<open>PutUint32\<close> writes four bytes; the loop skips up to three leading zero bytes. A Go \<open>int\<close> length
  is non-negative here, so \<open>nat\<close>; \<open>uint32(n)\<close> is what \<open>put_be 4\<close> keeps.
\<close>

fun skipZeros :: "nat \<Rightarrow> bytes \<Rightarrow> bytes" where
  "skipZeros (Suc k) (b # bs) = (if b = 0 then skipZeros k bs else b # bs)"
| "skipZeros k bs = bs"

definition appendLen :: "bytes \<Rightarrow> nat \<Rightarrow> bytes" where
  "appendLen dst n =
     (if n < 0x80 then dst @ [of_nat n]
      else let buf = skipZeros 3 (put_be 4 n)
           in dst @ [0x80 OR of_nat (length buf)] @ buf)"

definition appendTLV :: "bytes \<Rightarrow> byte \<Rightarrow> bytes \<Rightarrow> bytes" where
  "appendTLV dst t body = appendLen (dst @ [t]) (length body) @ body"

text \<open>\<open>signPad\<close>: the leading byte only repeats the sign bit of the next one.\<close>

fun dropSignPad :: "bytes \<Rightarrow> bytes" where
  "dropSignPad (b # c # bs) =
     (if (b = 0 \<and> c AND 0x80 = 0) \<or> (b = 0xff \<and> c AND 0x80 \<noteq> 0)
      then dropSignPad (c # bs) else b # c # bs)"
| "dropSignPad bs = bs"

definition encodeInt :: "byte \<Rightarrow> 64 word \<Rightarrow> bytes" where
  "encodeInt t v = appendTLV [] t (dropSignPad (put_be 8 (unat v)))"

definition encodeString :: "byte \<Rightarrow> string \<Rightarrow> bytes" where
  "encodeString t s = appendTLV [] t (bytes_of s)"

definition encodeBool :: "bool \<Rightarrow> bytes" where
  "encodeBool v = appendTLV [] 0x01 [if v then 0xff else 0]"

definition encodeMessage :: "64 word \<Rightarrow> bytes list \<Rightarrow> bytes" where
  "encodeMessage i ops = appendTLV [] 0x30 (encodeInt 0x02 i @ concat ops)"

definition encodeResult :: "byte \<Rightarrow> 64 word \<Rightarrow> string \<Rightarrow> bytes" where
  "encodeResult app code msg =
     appendTLV [] (0x60 OR app)
       (encodeInt 0x0a code @ encodeString 0x04 [] @ encodeString 0x04 msg)"

text \<open>\<open>encodeEntry\<close>: runs of equal attribute names become one \<open>PartialAttribute\<close> each.\<close>

fun encodeAttrs :: "(string \<times> string) list \<Rightarrow> bytes" where
  "encodeAttrs [] = []"
| "encodeAttrs ((name, v) # attrs) =
     (let run = takeWhile (\<lambda>a. fst a = name) attrs;
          set_body = concat (map (\<lambda>a. encodeString 0x04 (snd a)) ((name, v) # run));
          one = encodeString 0x04 name @ appendTLV [] 0x31 set_body
      in appendTLV [] 0x30 one @ encodeAttrs (dropWhile (\<lambda>a. fst a = name) attrs))"

definition encodeEntry :: "string \<Rightarrow> (string \<times> string) list \<Rightarrow> bytes" where
  "encodeEntry dn attrs =
     appendTLV [] 0x64 (encodeString 0x04 dn @ appendTLV [] 0x30 (encodeAttrs attrs))"

definition appTag :: "bool \<Rightarrow> byte \<Rightarrow> byte" where
  "appTag c n = (let b = 0x40 OR n in if c then b OR 0x20 else b)"

subsection \<open>The decoder consumes its input\<close>

lemma parseOne_consumes: "parseOne b = Inr (el, rest) \<Longrightarrow> length rest < length b"
  by (fastforce simp: parseOne.simps Let_def res_bind_eq_Inr
      split: if_splits sum.splits prod.splits dest!: takeLen_shorter)

lemma parseKids_unfold:
  "b \<noteq> [] \<Longrightarrow> parseKids b =
     res_bind (parseOne b) (\<lambda>(el, rest). res_bind (parseKids rest) (\<lambda>out. Inr (el # out)))"
  by (cases b) (auto simp: parseKids.simps(2) dest: parseOne_consumes split: sum.splits)

lemma takeLen_split:
  "takeLen b = Inr (n, rest) \<Longrightarrow>
     \<exists>hdr. b = hdr @ rest \<and> 1 \<le> length hdr \<and> length hdr \<le> 4 \<and> takeLen (hdr @ r) = Inr (n, r)"
proof (cases b)
  case (Cons b0 bs)
  assume len: "takeLen b = Inr (n, rest)"
  show ?thesis
  proof (cases "b0 < 0x80")
    case True
    with len Cons show ?thesis
      by (intro exI[of _ "[b0]"]) (auto simp: takeLen_def)
  next
    case False
    define k where "k = unat (b0 AND 0x7f)"
    from False len Cons have "b0 \<noteq> 0x80" "k \<noteq> 0" "k \<le> 3" "k \<le> length bs"
        "n = be_nat (take k bs)" "rest = drop k bs"
      by (auto simp: takeLen_def Let_def k_def split: if_splits)
    with False Cons show ?thesis
      by (intro exI[of _ "b0 # take k bs"]) (auto simp: takeLen_def Let_def k_def)
  qed
qed (simp add: takeLen_def)

fun ber_ok :: "ber \<Rightarrow> bool" where
  "ber_ok (Ber c k t r ks) \<longleftrightarrow>
     c < 4 \<and> t < 31 \<and> length r \<le> maxBER \<and> (if k then parseKids r = Inr ks else ks = [])"

lemma drop_bit_6_byte: "drop_bit 6 (b :: byte) < 4"
proof -
  have "unat b div 64 < 4" using unat_byte_less[of b] by linarith
  then show ?thesis
    by (simp add: word_less_nat_alt unat_drop_bit_eq drop_bit_eq_div[of 6 "unat b"])
qed

lemma parseOne_ok: "parseOne b = Inr (el, rest) \<Longrightarrow> ber_ok el"
proof -
  have "unat (hd b AND 0x1f) < 32"
    using word_and_le1[of "hd b" "0x1f :: byte", unfolded word_le_nat_alt] by simp
  then show "parseOne b = Inr (el, rest) \<Longrightarrow> ber_ok el"
    by (auto simp: parseOne.simps Let_def res_bind_eq_Inr drop_bit_6_byte
        split: if_splits sum.splits)
qed

lemma parseOne_framing:
  assumes "parseOne b = Inr (el, rest)"
  shows "\<exists>hdr. b = hdr @ raw el @ rest \<and> 2 \<le> length hdr \<and> length hdr \<le> 5"
proof -
  from assms have two: "\<not> length b < 2" by (auto simp: parseOne.simps)
  then have b: "b = [hd b] @ tl b" by (cases b) auto
  from assms two obtain n r where n: "takeLen (tl b) = Inr (n, r)"
      and raw: "raw el = take n r" and rest: "rest = drop n r"
    by (auto simp: parseOne.simps Let_def res_bind_eq_Inr split: if_splits sum.splits)
  from takeLen_split[OF n] obtain hdr where
    "tl b = hdr @ r" "1 \<le> length hdr" "length hdr \<le> 4" by blast
  with b raw rest show ?thesis
    by (intro exI[of _ "hd b # hdr"]) auto
qed

subsection \<open>The stream decoder and the slice decoder agree\<close>

lemma readLen_takeLen: "readLen r = Inr (n, r') \<longleftrightarrow> takeLen r = Inr (n, r')"
  by (cases r) (auto simp: readLen_def takeLen_def readFull_def Let_def res_bind_eq_Inr)

lemma readBER_parseOne: "readBER r = Inr (el, r') \<longleftrightarrow> parseOne r = Inr (el, r')"
proof (cases "length r < 2")
  case True
  then have "parseOne r \<noteq> Inr (el, r')" by (simp add: parseOne.simps)
  moreover from True have "r = [] \<or> tl r = []" by (cases r) auto
  then have "readBER r \<noteq> Inr (el, r')"
    using readLen_takeLen[of "[]"]
    by (auto simp: readBER_def readFull_def Let_def res_bind_eq_Inr takeLen_def drop_Suc)
  ultimately show ?thesis by simp
next
  case False
  then obtain x xs where r: "r = x # xs" by (cases r) auto
  show ?thesis
  proof (cases "takeLen xs")
    case (Inl e)
    then have "readLen xs \<noteq> Inr (n, q)" for n q by (simp add: readLen_takeLen)
    with False Inl r show ?thesis
      by (auto simp: readBER_def parseOne.simps readFull_def Let_def res_bind_eq_Inr)
  next
    case (Inr p)
    then obtain n q where p: "takeLen xs = Inr (n, q)" by (cases p) auto
    then have "readLen xs = Inr (n, q)" by (simp add: readLen_takeLen)
    with False p r show ?thesis
      by (auto simp: readBER_def parseOne.simps readFull_def Let_def res_bind_eq_Inr not_less)
  qed
qed


subsection \<open>What the encoders write is read back\<close>

lemma skipZeros_3: "skipZeros 3 (b # bs) = (if b = 0 then skipZeros 2 bs else b # bs)"
  by (simp add: numeral_3_eq_3 numeral_2_eq_2)

lemma be_nat_skipZeros: "be_nat (skipZeros k bs) = be_nat bs"
  by (induction k bs rule: skipZeros.induct) auto

lemma length_skipZeros: "length bs - k \<le> length (skipZeros k bs)"
  by (induction k bs rule: skipZeros.induct) auto

lemma length_skipZeros_le: "length (skipZeros k bs) \<le> length bs"
  by (induction k bs rule: skipZeros.induct) auto

lemma appendLen_append: "appendLen dst n = dst @ appendLen [] n"
  by (simp add: appendLen_def Let_def)

lemma appendTLV_append: "appendTLV dst t body = dst @ appendTLV [] t body"
  by (simp add: appendTLV_def appendLen_append[of "[t]"] appendLen_append[of "dst @ [t]"])

lemma long_form_octet:
  assumes "m \<in> {1, 2, 3}"
  shows "\<not> 0x80 OR of_nat m < (0x80 :: byte)" "0x80 OR of_nat m \<noteq> (0x80 :: byte)"
    "unat ((0x80 OR of_nat m) AND (0x7f :: byte)) = m"
  using assms by auto

lemma takeLen_appendLen [codec_simps]:
  assumes "n < 2 ^ 24"
  shows "takeLen (appendLen [] n @ rest) = Inr (n, rest)"
proof (cases "n < 0x80")
  case True
  then have "of_nat n < (0x80 :: byte)" "unat (of_nat n :: byte) = n"
    by (simp_all add: word_less_nat_alt unat_of_nat_byte)
  with True show ?thesis by (simp add: appendLen_def takeLen_def)
next
  case False
  define buf where "buf = skipZeros 3 (put_be 4 n)"
  have put: "put_be 4 n = 0 # put_be 3 n"
    using assms put_be_Cons[of 3 n] by simp
  have "buf = skipZeros 2 (put_be 3 n)"
    unfolding buf_def put by (simp add: skipZeros_3)
  then have "1 \<le> length buf" "length buf \<le> 3"
    using length_skipZeros[of "put_be 3 n" 2] length_skipZeros_le[of 2 "put_be 3 n"] by auto
  then have "length buf \<in> {1, 2, 3}" by auto
  moreover have "be_nat buf = n"
    using assms by (simp add: buf_def be_nat_skipZeros be_nat_put_be)
  ultimately show ?thesis
    using False long_form_octet[of "length buf"]
    by (auto simp: appendLen_def takeLen_def Let_def buf_def[symmetric])
qed


text \<open>
  A well-formed identifier octet is one the decoder accepts: no multi-byte tag. \<open>tlv_el\<close> is the
  element that a tag-length-value triple stands for, given the decoded contents.
\<close>

definition tag_ok :: "byte \<Rightarrow> bool" where
  "tag_ok t \<longleftrightarrow> unat (t AND 0x1f) \<noteq> 0x1f"

definition tlv_el :: "byte \<Rightarrow> bytes \<Rightarrow> ber list \<Rightarrow> ber" where
  "tlv_el t body ks = Ber (drop_bit 6 t) (t AND 0x20 \<noteq> 0) (unat (t AND 0x1f)) body ks"

lemma tlv_el_sel [simp]:
  "kids (tlv_el t body ks) = ks" "raw (tlv_el t body ks) = body"
  "cons (tlv_el t body ks) \<longleftrightarrow> t AND 0x20 \<noteq> 0" "tag (tlv_el t body ks) = unat (t AND 0x1f)"
  "cls (tlv_el t body ks) = drop_bit 6 t"
  by (simp_all add: tlv_el_def)

lemma appendTLV_Nil: "appendTLV [] t body = t # appendLen [] (length body) @ body"
  using appendLen_append[of "[t]" "length body"] by (simp add: appendTLV_def)

lemma parseOne_TLV:
  assumes "tag_ok t" and "length body \<le> maxBER"
    and "if t AND 0x20 \<noteq> 0 then parseKids body = Inr ks else ks = []"
  shows "parseOne (appendTLV [] t body @ rest) = Inr (tlv_el t body ks, rest)"
proof -
  have "takeLen (appendLen [] (length body) @ body @ rest) = Inr (length body, body @ rest)"
    using assms(2) by (intro takeLen_appendLen) (simp add: maxBER_def)
  moreover have "appendLen [] (length body) \<noteq> []"
    by (simp add: appendLen_def Let_def)
  ultimately show ?thesis
    using assms by (auto simp: parseOne.simps appendTLV_Nil tag_ok_def tlv_el_def Let_def
        Suc_le_eq numeral_2_eq_2)
qed

lemma parseKids_TLV:
  assumes "tag_ok t" and "length body \<le> maxBER"
    and "if t AND 0x20 \<noteq> 0 then parseKids body = Inr ks else ks = []"
  shows "parseKids (appendTLV [] t body @ rest) =
    res_bind (parseKids rest) (\<lambda>out. Inr (tlv_el t body ks # out))"
  using parseOne_TLV[OF assms, of rest] parseKids_unfold[of "appendTLV [] t body @ rest"]
  by (simp add: appendTLV_Nil)

text \<open>A sequence of encoded elements is decoded element by element.\<close>

definition encodes :: "bytes \<Rightarrow> ber list \<Rightarrow> bool" where
  "encodes bs els \<longleftrightarrow> (\<forall>rest. parseKids (bs @ rest) = res_bind (parseKids rest) (\<lambda>out. Inr (els @ out)))"

lemma encodes_Nil [simp]: "encodes [] []"
proof -
  have "parseKids r = res_bind (parseKids r) Inr" for r by (cases "parseKids r") auto
  then show ?thesis by (simp add: encodes_def)
qed

lemma encodes_parseKids: "encodes bs els \<Longrightarrow> parseKids bs = Inr els"
  unfolding encodes_def by (metis append_Nil2 parseKids.simps(1) res_bind_simps(2))

lemma encodes_append: "encodes xs els \<Longrightarrow> encodes ys fls \<Longrightarrow> encodes (xs @ ys) (els @ fls)"
  unfolding encodes_def by (auto simp: res_bind_def split: sum.splits)

lemma encodes_concat: "list_all2 encodes xss elss \<Longrightarrow> encodes (concat xss) (concat elss)"
  by (induction rule: list_all2_induct) (auto intro: encodes_append)

lemma encodes_primitive:
  assumes "tag_ok t" and "t AND 0x20 = 0" and "length body \<le> maxBER"
  shows "encodes (appendTLV [] t body) [tlv_el t body []]"
  using parseKids_TLV[of t body "[]"] assms by (simp add: encodes_def)

lemma encodes_constructed:
  assumes "tag_ok t" and "t AND 0x20 \<noteq> 0" and "length body \<le> maxBER" and "encodes body els"
  shows "encodes (appendTLV [] t body) [tlv_el t body els]"
  using parseKids_TLV[of t body els] encodes_parseKids[OF assms(4)] assms(1-3)
  by (simp add: encodes_def)


lemma text_of_bytes [codec_simps]: "text_of (tlv_el t (bytes_of s) ks) = s"
proof -
  have "char_of (unat (of_nat (of_char c) :: byte)) = c" for c :: char
  proof -
    have "unat (of_nat (of_char c :: nat) :: byte) = of_char c"
      using of_char_mod_256[of c] by (simp add: unat_of_nat_byte)
    then show ?thesis by simp
  qed
  then show ?thesis by (simp add: text_of_def tlv_el_def bytes_of_def comp_def)
qed

lemma length_bytes_of [simp]: "length (bytes_of s) = length s"
  by (simp add: bytes_of_def)

subsection \<open>Two's complement integers\<close>

definition twos :: "bytes \<Rightarrow> int" where
  "twos bs = int (be_nat bs) - (if hd bs AND 0x80 \<noteq> 0 then 256 ^ length bs else 0)"

lemma twos_dropSignPad: "bs \<noteq> [] \<Longrightarrow> twos (dropSignPad bs) = twos bs"
  by (induction bs rule: dropSignPad.induct) (auto simp: twos_def)

lemma dropSignPad_nonempty: "dropSignPad bs = [] \<longleftrightarrow> bs = []"
  by (induction bs rule: dropSignPad.induct) auto

lemma length_dropSignPad: "length (dropSignPad bs) \<le> length bs"
  by (induction bs rule: dropSignPad.induct) auto

lemma shift_or_byte: "push_bit 8 v OR ucast (c :: byte) = v * 256 + (ucast c :: 64 word)"
proof -
  have "push_bit 8 v AND (ucast c :: 64 word) = 0"
    by (rule bit_word_eqI) (auto simp: bit_simps dest: bit_imp_le_length)
  then show ?thesis
    by (simp add: disjunctive_add_eq_or[symmetric] push_bit_eq_mult)
qed

lemma fold_shift_or:
  "fold (\<lambda>c v. push_bit 8 v OR ucast c) bs v = v * 256 ^ length bs + (of_nat (be_nat bs) :: 64 word)"
proof (induction bs arbitrary: v)
  case Nil
  then show ?case by simp
next
  case (Cons c bs)
  have "fold (\<lambda>c v. push_bit 8 v OR ucast c) (c # bs) v
      = fold (\<lambda>c v. push_bit 8 v OR ucast c) bs (v * 256 + ucast c)"
    by (simp only: fold_simps shift_or_byte)
  also have "\<dots> = (v * 256 + ucast c) * 256 ^ length bs + of_nat (be_nat bs)"
    by (rule Cons.IH)
  also have "\<dots> = v * 256 ^ length (c # bs) + of_nat (be_nat (c # bs))"
    by (simp add: distrib_right mult.assoc add.assoc)
  finally show ?case .
qed

lemma sign_extend:
  assumes "n < 2 ^ k" and "k < 64"
  shows "of_nat n OR push_bit k (- 1) = (of_nat n - 2 ^ k :: 64 word)"
proof -
  have "take_bit k n = n" using assms(1) by (simp add: take_bit_nat_eq_self_iff)
  then have "i < k" if "bit n i" for i
    using that by (metis bit_take_bit_iff)
  then have "of_nat n AND push_bit k (- 1) = (0 :: 64 word)"
    by (intro bit_word_eqI) (auto simp: bit_simps)
  then have "of_nat n OR push_bit k (- 1) = of_nat n + (push_bit k (- 1) :: 64 word)"
    by (simp add: disjunctive_add_eq_or)
  then show ?thesis by (simp add: push_bit_eq_mult)
qed

lemma integer_twos:
  assumes "\<not> cons el" and "tag el = 2 \<or> tag el = 10" and "raw el \<noteq> []" and "length (raw el) \<le> 8"
  shows "integer el = Inr (of_int (twos (raw el)))"
proof -
  let ?b = "raw el"
  have v: "fold (\<lambda>c v. push_bit 8 v OR ucast c) ?b 0 = (of_nat (be_nat ?b) :: 64 word)"
    using fold_shift_or[of ?b 0] by simp
  have pow: "(256 :: nat) ^ length ?b = 2 ^ (length ?b * 8)" "(256 :: int) ^ length ?b = 2 ^ (length ?b * 8)"
    by (simp_all add: power_mult mult.commute[of "length ?b"])
  have less: "be_nat ?b < 2 ^ (length ?b * 8)" using be_nat_less[of ?b] pow by simp
  show ?thesis
  proof (cases "length ?b = 8")
    case True
    have "(2 :: 64 word) ^ 64 = 0" by simp
    with True assms v show ?thesis
      by (simp add: integer_def Let_def twos_def)
  next
    case False
    with assms(4) have "length ?b * 8 < 64" by linarith
    with assms v pow sign_extend[OF less] show ?thesis
      by (auto simp: integer_def Let_def twos_def)
  qed
qed

lemma twos_put_be: "of_int (twos (put_be 8 (unat v))) = (v :: 64 word)"
proof -
  have "unat v < 2 ^ LENGTH(64)" by (rule unsigned_less)
  then have "unat v mod 256 ^ 8 = unat v" by simp
  moreover have "(256 :: 64 word) ^ 8 = 0" by simp
  ultimately show ?thesis by (simp only: twos_def be_nat_put_be length_put_be) simp
qed


subsection \<open>Messages\<close>

lemma length_appendTLV: "length body \<le> length (appendTLV [] t body)"
  by (simp add: appendTLV_Nil)

lemma int_body_bounds:
  "dropSignPad (put_be 8 n) \<noteq> []" "length (dropSignPad (put_be 8 n)) \<le> 8"
  "length (dropSignPad (put_be 8 n)) \<le> maxBER"
proof -
  have "put_be 8 n \<noteq> []" using length_put_be[of 8 n] by force
  then show "dropSignPad (put_be 8 n) \<noteq> []" by (simp add: dropSignPad_nonempty)
  show "length (dropSignPad (put_be 8 n)) \<le> 8"
    using length_dropSignPad[of "put_be 8 n"] by simp
  then show "length (dropSignPad (put_be 8 n)) \<le> maxBER" by (simp add: maxBER_def)
qed

abbreviation int_el :: "byte \<Rightarrow> 64 word \<Rightarrow> ber" where
  "int_el t v \<equiv> tlv_el t (dropSignPad (put_be 8 (unat v))) []"

abbreviation str_el :: "byte \<Rightarrow> string \<Rightarrow> ber" where
  "str_el t s \<equiv> tlv_el t (bytes_of s) []"

lemma encodes_int:
  assumes "tag_ok t" and "t AND 0x20 = 0"
  shows "encodes (encodeInt t v) [int_el t v]"
  unfolding encodeInt_def using assms int_body_bounds(3) by (rule encodes_primitive)

lemma encodes_string:
  assumes "tag_ok t" and "t AND 0x20 = 0" and "length s \<le> maxBER"
  shows "encodes (encodeString t s) [str_el t s]"
  unfolding encodeString_def using assms by (intro encodes_primitive) simp_all

lemma tag_ok_universal:
  "tag_ok 0x02" "tag_ok 0x04" "tag_ok 0x0a" "tag_ok 0x30" "tag_ok 0x31" "tag_ok 0x64"
  by (simp_all add: tag_ok_def)

lemma integer_int_el:
  assumes "t = 0x02 \<or> t = 0x0a"
  shows "integer (int_el t v) = Inr v"
proof -
  let ?b = "dropSignPad (put_be 8 (unat v))"
  have "put_be 8 (unat v) \<noteq> []" using length_put_be[of 8 "unat v"] by force
  then have "of_int (twos ?b) = v" by (simp add: twos_dropSignPad twos_put_be)
  with assms int_body_bounds[of "unat v"] show ?thesis
    by (subst integer_twos) (auto simp: tlv_el_def)
qed

lemma encodes_attr_values:
  "length (concat (map (\<lambda>a. encodeString 0x04 (snd a)) as)) \<le> maxBER \<Longrightarrow>
   encodes (concat (map (\<lambda>a. encodeString 0x04 (snd a)) as)) (map (\<lambda>a. str_el 0x04 (snd a)) as)"
proof (induction as)
  case (Cons a as)
  have "length (snd a) \<le> length (encodeString 0x04 (snd a))"
    using length_appendTLV[of "bytes_of (snd a)"] by (simp add: encodeString_def)
  with Cons have "encodes (encodeString 0x04 (snd a)) [str_el 0x04 (snd a)]"
    by (intro encodes_string) (simp_all add: tag_ok_universal)
  with Cons show ?case
    using encodes_append[of _ "[str_el 0x04 (snd a)]"] by fastforce
qed simp

text \<open>What a client reads from a \<open>SearchResultEntry\<close>: the DN and the attribute/value pairs.\<close>

definition attr_view :: "ber \<Rightarrow> (string \<times> string) list" where
  "attr_view a = (case kids a of
       [n, vs] \<Rightarrow> map (\<lambda>v. (text_of n, text_of v)) (kids vs)
     | _ \<Rightarrow> [])"

definition entry_view :: "ber \<Rightarrow> string \<times> (string \<times> string) list" where
  "entry_view el = (case kids el of
       [dn, as] \<Rightarrow> (text_of dn, concat (map attr_view (kids as)))
     | _ \<Rightarrow> ([], []))"

lemma attr_view_el:
  "attr_view (tlv_el 0x30 body [str_el 0x04 n, tlv_el 0x31 body' (map (\<lambda>a. str_el 0x04 (snd a)) as)])
   = map (\<lambda>a. (n, snd a)) as"
  by (simp add: attr_view_def text_of_bytes)

lemma map_run: "map (\<lambda>a. (n, snd a)) (takeWhile (\<lambda>a. fst a = n) as) = takeWhile (\<lambda>a. fst a = n) as"
  by (induction as) auto

lemma encodes_attrs:
  "length (encodeAttrs as) \<le> maxBER \<Longrightarrow>
     \<exists>els. encodes (encodeAttrs as) els \<and> concat (map attr_view els) = as"
proof (induction as rule: encodeAttrs.induct)
  case 1
  show ?case by (intro exI[of _ "[]"]) simp
next
  case (2 n v as)
  define run where "run = takeWhile (\<lambda>a. fst a = n) as"
  define rest where "rest = dropWhile (\<lambda>a. fst a = n) as"
  define sb where "sb = concat (map (\<lambda>a. encodeString 0x04 (snd a)) ((n, v) # run))"
  define one where "one = encodeString 0x04 n @ appendTLV [] 0x31 sb"
  have eq: "encodeAttrs ((n, v) # as) = appendTLV [] 0x30 one @ encodeAttrs rest"
    by (simp add: run_def rest_def sb_def one_def Let_def)
  have len: "length (appendTLV [] 0x30 one) \<le> maxBER" "length (encodeAttrs rest) \<le> maxBER"
    using "2.prems" unfolding eq by simp_all
  with length_appendTLV[of one] have one: "length one \<le> maxBER" by (meson le_trans)
  then have "length (encodeString 0x04 n) \<le> maxBER" "length (appendTLV [] 0x31 sb) \<le> maxBER"
    by (simp_all add: one_def)
  with length_appendTLV[of "bytes_of n"] length_appendTLV[of sb]
  have n: "length n \<le> maxBER" and sb: "length sb \<le> maxBER"
    unfolding encodeString_def length_bytes_of by (meson le_trans)+
  define vs where "vs = map (\<lambda>a. str_el 0x04 (snd a)) ((n, v) # run)"
  have "encodes sb vs" using sb unfolding sb_def vs_def by (rule encodes_attr_values)
  with sb have "encodes (appendTLV [] 0x31 sb) [tlv_el 0x31 sb vs]"
    by (intro encodes_constructed) (simp_all add: tag_ok_universal)
  with encodes_string[OF tag_ok_universal(2) _ n]
  have "encodes one [str_el 0x04 n, tlv_el 0x31 sb vs]"
    unfolding one_def using encodes_append by fastforce
  with one have hd: "encodes (appendTLV [] 0x30 one) [tlv_el 0x30 one [str_el 0x04 n, tlv_el 0x31 sb vs]]"
    by (intro encodes_constructed) (simp_all add: tag_ok_universal)
  from "2.IH"[OF refl refl refl] len(2) obtain els
    where tl: "encodes (encodeAttrs rest) els" "concat (map attr_view els) = rest"
    unfolding rest_def run_def sb_def one_def by blast
  have "attr_view (tlv_el 0x30 one [str_el 0x04 n, tlv_el 0x31 sb vs]) = (n, v) # run"
    unfolding vs_def attr_view_el by (simp add: run_def map_run)
  with tl hd eq show ?case
    using encodes_append[OF hd tl(1)]
    by (intro exI[of _ "tlv_el 0x30 one [str_el 0x04 n, tlv_el 0x31 sb vs] # els"])
      (simp add: run_def rest_def)
qed


text \<open>
  Search results as a codec: the server's \<open>encodeMessage\<close> around \<open>encodeEntry\<close>, and a client that
  reads one message from the connection.
\<close>

type_synonym search_result = "64 word \<times> string \<times> (string \<times> string) list"

definition encodeSearchEntry :: "search_result \<Rightarrow> bytes" where
  "encodeSearchEntry = (\<lambda>(i, dn, attrs). encodeMessage i [encodeEntry dn attrs])"

definition readSearchEntry :: "bytes \<Rightarrow> ber_error + search_result \<times> bytes" where
  "readSearchEntry r =
     res_bind (readBER r) (\<lambda>(el, r').
       case kids el of
         [i, e] \<Rightarrow> res_bind (integer i) (\<lambda>v. Inr ((v, entry_view e), r'))
       | _ \<Rightarrow> Inl errBER)"

definition fits :: "search_result \<Rightarrow> bool" where
  "fits m \<longleftrightarrow> length (encodeSearchEntry m) \<le> maxBER"

lemma encodes_entry:
  assumes "length (encodeEntry dn attrs) \<le> maxBER"
  shows "\<exists>el. encodes (encodeEntry dn attrs) [el] \<and> entry_view el = (dn, attrs)"
proof -
  let ?list = "appendTLV [] 0x30 (encodeAttrs attrs)"
  let ?body = "encodeString 0x04 dn @ ?list"
  have body: "length ?body \<le> maxBER"
    using assms length_appendTLV[of ?body] unfolding encodeEntry_def by (meson le_trans)
  then have dn: "length dn \<le> maxBER"
    using length_appendTLV[of "bytes_of dn"] by (simp add: encodeString_def) (meson le_trans add_leE)
  have list: "length (encodeAttrs attrs) \<le> maxBER"
    using body length_appendTLV[of "encodeAttrs attrs"] by simp (meson le_trans add_leE)
  from encodes_attrs[OF list] obtain els
    where els: "encodes (encodeAttrs attrs) els" "concat (map attr_view els) = attrs" by blast
  let ?kids = "[str_el 0x04 dn, tlv_el 0x30 (encodeAttrs attrs) els]"
  have "encodes ?list [tlv_el 0x30 (encodeAttrs attrs) els]"
    using els(1) list by (intro encodes_constructed) (simp_all add: tag_ok_universal)
  then have "encodes ?body ?kids"
    using encodes_append[OF encodes_string[OF tag_ok_universal(2) _ dn]] by fastforce
  then have "encodes (encodeEntry dn attrs) [tlv_el 0x64 ?body ?kids]"
    unfolding encodeEntry_def using body
    by (intro encodes_constructed) (simp_all add: tag_ok_universal)
  with els(2) show ?thesis
    by (intro exI[of _ "tlv_el 0x64 ?body ?kids"]) (simp add: entry_view_def text_of_bytes)
qed

lemma readBER_message:
  assumes "length (encodeInt 0x02 i @ concat ops) \<le> maxBER" and "encodes (concat ops) els"
  shows "\<exists>body. readBER (encodeMessage i ops @ rest) = Inr (tlv_el 0x30 body (int_el 0x02 i # els), rest)"
proof -
  have "encodes (encodeInt 0x02 i @ concat ops) (int_el 0x02 i # els)"
    using encodes_append[OF encodes_int[OF tag_ok_universal(1)] assms(2)] by simp
  then have "parseOne (encodeMessage i ops @ rest)
      = Inr (tlv_el 0x30 (encodeInt 0x02 i @ concat ops) (int_el 0x02 i # els), rest)"
    unfolding encodeMessage_def using assms(1)
    by (intro parseOne_TLV) (simp_all add: tag_ok_universal encodes_parseKids)
  then show ?thesis by (auto simp: readBER_parseOne)
qed

interpretation search_codec: wire_codec encodeSearchEntry readSearchEntry fits
proof
  fix m :: search_result and rest
  obtain i dn attrs where m: "m = (i, dn, attrs)" by (cases m) auto
  assume "fits m"
  then have "length (encodeMessage i [encodeEntry dn attrs]) \<le> maxBER"
    by (simp add: fits_def encodeSearchEntry_def m)
  then have len: "length (encodeInt 0x02 i @ concat [encodeEntry dn attrs]) \<le> maxBER"
    using length_appendTLV le_trans unfolding encodeMessage_def by blast
  then have "length (encodeEntry dn attrs) \<le> maxBER" by simp
  from encodes_entry[OF this] obtain el
    where "encodes (encodeEntry dn attrs) [el]" and view: "entry_view el = (dn, attrs)" by blast
  with readBER_message[OF len, of "[el]" rest]
  show "readSearchEntry (encodeSearchEntry m @ rest) = Inr (m, rest)"
    by (auto simp: readSearchEntry_def encodeSearchEntry_def m integer_int_el)
qed


lemma app_octet:
  fixes app :: byte
  assumes "app < 0x1f"
  shows "(0x60 OR app) AND 0x1f = app" "(0x60 OR app) AND 0x20 \<noteq> 0" "drop_bit 6 (0x60 OR app) = 1"
proof -
  have "unat (take_bit 5 app) = unat app"
    using assms by (simp add: unsigned_take_bit_eq take_bit_nat_eq_self_iff word_less_nat_alt)
  then have app: "take_bit 5 app = app" by (simp add: word_unat_eq_iff)
  have "app AND 0x1f = app" using app by (simp add: take_bit_eq_mask mask_eq_exp_minus_1)
  then show "(0x60 OR app) AND 0x1f = app" by (simp add: bit.conj_disj_distrib2)
  have "bit ((0x60 OR app) AND 0x20) 5" by (simp add: bit_simps)
  then show "(0x60 OR app) AND 0x20 \<noteq> 0" by (metis bit_0_eq bot_apply bot_bool_def)
  have "drop_bit 6 (take_bit 5 app) = 0" by (simp add: drop_bit_take_bit)
  then show "drop_bit 6 (0x60 OR app) = 1" by (simp add: app)
qed

lemma put_be_8:
  "put_be 8 n = map (\<lambda>k. of_nat (n div 256 ^ k)) [7, 6, 5, 4, 3, 2, 1, 0]"
proof -
  have suc: "put_be k n = of_nat (n div 256 ^ (k - 1)) # put_be (k - 1) n" if "0 < k" for k
    using that put_be_Cons[of "k - 1" n] by simp
  show ?thesis
    by (simp add: suc[of 8] suc[of 7] suc[of 6] suc[of 5] suc[of 4] suc[of 3] suc[of 2] suc[of 1])
qed

lemmas encode_defs =
  encodeMessage_def encodeEntry_def encodeInt_def encodeString_def appendTLV_def appendLen_def
  bytes_of_def Let_def put_be_8 maxBER_def

subsection \<open>Properties\<close>



text \<open>
  the decoder that reads from the connection (\<open>readBER\<close>, with its own length decoder
  \<open>readLen\<close>) accepts exactly the elements the slice decoder accepts, and leaves the same bytes.
\<close>
theorem ber_stream_agrees_with_slice:
  "readBER r = Inr (el, rest) \<longleftrightarrow> parseOne r = Inr (el, rest)"
  by (rule readBER_parseOne)

text \<open>
  every \<open>int64\<close> survives \<open>encodeInt\<close>, which drops redundant sign bytes, and \<open>integer\<close>, which
  extends the sign again, as an INTEGER and as an ENUMERATED.
\<close>
theorem encodeInt_roundtrip:
  "\<exists>i e. parseOne (encodeInt 0x02 v @ rest) = Inr (i, rest) \<and> integer i = Inr v
       \<and> parseOne (encodeInt 0x0a v @ rest) = Inr (e, rest) \<and> integer e = Inr v"
proof -
  have "parseOne (encodeInt t v @ rest) = Inr (int_el t v, rest)" if "t = 0x02 \<or> t = 0x0a" for t
    unfolding encodeInt_def using int_body_bounds[of "unat v"] that
    by (intro parseOne_TLV) (auto simp: tag_ok_universal)
  then show ?thesis using integer_int_el by blast
qed

text \<open>
  a run of search results written by the server (\<open>encodeMessage\<close> around \<open>encodeEntry\<close>, which
  groups equal attribute names) is read back from the connection in order: message ids, DNs and
  attribute/value pairs, as long as each message fits the decoder's limit.
\<close>
theorem search_results_roundtrip:
  assumes "list_all fits ms"
  shows "decode_seq readSearchEntry (length ms) (concat (map encodeSearchEntry ms) @ rest) = Inr (ms, rest)"
  using assms by (rule search_codec.decode_seq_concat)

theorem search_results_roundtrip_witness:
  "decode_seq readSearchEntry 1
     (concat (map encodeSearchEntry [(7, ''dc=x'', [(''cn'', ''a''), (''cn'', ''b''), (''sn'', ''c'')])]) @ [1])
   = Inr ([(7, ''dc=x'', [(''cn'', ''a''), (''cn'', ''b''), (''sn'', ''c'')])], [1])"
proof -
  have h: "list_all fits [(7, ''dc=x'', [(''cn'', ''a''), (''cn'', ''b''), (''sn'', ''c'')])]"
    by (simp add: fits_def encodeSearchEntry_def encode_defs)
  show ?thesis using search_results_roundtrip[OF h, of "[1]"] by simp
qed

text \<open>
  an LDAP result (bind, search done, extended) is one constructed application element whose
  children are the result code, an empty matched DN and the message.
\<close>
theorem encodeResult_roundtrip:
  assumes "app < 0x1f" and "length (encodeResult app code msg) \<le> maxBER"
  shows "\<exists>el. parseOne (encodeResult app code msg @ rest) = Inr (el, rest)
    \<and> cls el = 1 \<and> tag el = unat app \<and> length (kids el) = 3
    \<and> integer (kids el ! 0) = Inr code \<and> text_of (kids el ! 1) = [] \<and> text_of (kids el ! 2) = msg"
proof -
  let ?body = "encodeInt 0x0a code @ encodeString 0x04 [] @ encodeString 0x04 msg"
  let ?t = "0x60 OR app"
  have body: "length ?body \<le> maxBER"
    using assms(2) length_appendTLV[of ?body] unfolding encodeResult_def by (meson le_trans)
  then have "length msg \<le> maxBER"
    using length_appendTLV[of "bytes_of msg"] by (simp add: encodeString_def) (meson le_trans add_leE)
  then have "encodes (encodeString 0x04 [] @ encodeString 0x04 msg) [str_el 0x04 [], str_el 0x04 msg]"
    using encodes_append[OF encodes_string[of "0x04" "[]"] encodes_string[of "0x04" msg]]
    by (simp add: tag_ok_universal)
  then have enc: "encodes ?body [int_el 0x0a code, str_el 0x04 [], str_el 0x04 msg]"
    using encodes_append[OF encodes_int[of "0x0a" code]] by (fastforce simp: tag_ok_universal)
  note tag = app_octet[OF assms(1)]
  with assms(1) have "tag_ok ?t" by (auto simp: tag_ok_def word_less_nat_alt)
  let ?el = "tlv_el ?t ?body [int_el 0x0a code, str_el 0x04 [], str_el 0x04 msg]"
  from \<open>tag_ok ?t\<close> tag body enc have "parseOne (encodeResult app code msg @ rest) = Inr (?el, rest)"
    unfolding encodeResult_def by (intro parseOne_TLV) (simp_all add: encodes_parseKids)
  then show ?thesis
    by (rule exI[of _ ?el, OF conjI])
      (simp add: tag(1) tag(3)[simplified] integer_int_el text_of_bytes)
qed

theorem encodeResult_roundtrip_witness:
  "\<exists>el. parseOne (encodeResult 5 0 ''ok'' @ [9]) = Inr (el, [9])
    \<and> cls el = 1 \<and> tag el = 5 \<and> length (kids el) = 3
    \<and> integer (kids el ! 0) = Inr 0 \<and> text_of (kids el ! 1) = [] \<and> text_of (kids el ! 2) = ''ok''"
proof -
  have h: "(5 :: byte) < 0x1f" "length (encodeResult 5 0 ''ok'') \<le> maxBER"
    by (simp_all add: encodeResult_def encode_defs)
  show ?thesis using encodeResult_roundtrip[OF h, of "[9]"] by simp
qed

end
