(* ===== verification/Ldap_Directory.thy ===== *)
theory Ldap_Directory
  imports Ldap_Dn Ldap_Ber "HOL-Library.AList" "HOL-Library.Multiset"
begin

text \<open>
  The directory of the built-in LDAP server: how people, roles and folders become entries (\<open>Build\<close> of
  \<open>internal/ldapsrv/directory.go\<close>), how a snapshot is stored and loaded (\<open>server.go\<close>), and how a search
  selects and projects entries (\<open>search.go\<close>).

  A Go map is an association list; its order stands for the order in which \<open>range\<close> meets the keys. Go
  leaves that order open: for the folders, where it is not sorted away, it is the parameter \<open>ouOrder\<close>.
\<close>

subsection \<open>Constants and records\<close>

definition DefaultBaseDN :: string where "DefaultBaseDN = ''dc=factum,dc=local''"
definition ServiceCN :: string where "ServiceCN = ''svc-factum''"
definition MatchingRuleInChain :: string where "MatchingRuleInChain = ''1.2.840.113556.1.4.1941''"

record OU =
  ou_ID :: nat
  ou_ParentID :: "nat option"
  ou_Name :: string

record User =
  u_ID :: nat
  u_Username :: string
  u_Name :: string
  u_Email :: string
  u_Mobile :: string
  u_Password :: string
  u_OUID :: "nat option"
  u_RoleIDs :: "nat list"

record Role =
  r_ID :: nat
  r_Name :: string
  r_Description :: string
  r_OUID :: "nat option"
  r_MemberIDs :: "nat list"

record Input =
  in_BaseDN :: string
  in_OUs :: "OU list"
  in_Users :: "User list"
  in_Roles :: "Role list"

record Entry =
  e_DN :: string
  e_Attrs :: "(string \<times> string list) list"
  e_Password :: string
  e_DirectMembers :: "string list"
  e_DirectMemberOf :: "string list"
  e_operational :: "string list"

record Directory =
  d_BaseDN :: string
  d_BindDN :: string
  d_BindPassword :: string
  d_RoleDN :: "nat \<Rightarrow> string"
  d_OUDN :: "(nat \<times> string) list"
  d_entries :: "Entry list"
  d_byDN :: "(string \<times> Entry) list"

text \<open>Reading a missing key of a Go map gives the zero value.\<close>

definition lookupStr :: "('k \<times> string) list \<Rightarrow> 'k \<Rightarrow> string" where
  "lookupStr m k = (case map_of m k of None \<Rightarrow> [] | Some s \<Rightarrow> s)"

definition attrVals :: "Entry \<Rightarrow> string \<Rightarrow> string list" where
  "attrVals e k = (case map_of (e_Attrs e) k of None \<Rightarrow> [] | Some vs \<Rightarrow> vs)"

subsection \<open>Entries\<close>

definition ServiceBindDN :: "string \<Rightarrow> string" where
  "ServiceBindDN base = ''cn='' @ escapeDN ServiceCN @ '','' @ TrimSpace base"

definition addEntry :: "Entry \<Rightarrow> Directory \<Rightarrow> Directory" where
  "addEntry e d =
     (if e_DN e = [] then d
      else case map_of (d_byDN d) (normalizeDN (e_DN e)) of
        Some _ \<Rightarrow> d
      | None \<Rightarrow> d\<lparr>d_byDN := AList.update (normalizeDN (e_DN e)) e (d_byDN d), d_entries := d_entries d @ [e]\<rparr>)"

definition plainEntry :: "string \<Rightarrow> (string \<times> string list) list \<Rightarrow> Entry" where
  "plainEntry dn attrs = \<lparr>e_DN = dn, e_Attrs = attrs, e_Password = [], e_DirectMembers = [],
     e_DirectMemberOf = [], e_operational = []\<rparr>"

definition baseEntry :: "string \<Rightarrow> Entry" where
  "baseEntry base =
     (let (rdnAttr, rdnVal) = firstRDN base; a = ToLower rdnAttr
      in plainEntry base
        (if a = ''dc'' then [(''objectclass'', [''top'', ''domain'', ''dcObject'']), (''dc'', [rdnVal])]
         else if a = ''o'' then [(''objectclass'', [''top'', ''organization'']), (''o'', [rdnVal])]
         else if rdnAttr \<noteq> [] then AList.update a [rdnVal] [(''objectclass'', [''top''])]
         else [(''objectclass'', [''top''])]))"

definition ouEntry :: "string \<Rightarrow> string \<Rightarrow> Entry" where
  "ouEntry dn name = plainEntry dn [(''objectclass'', [''top'', ''organizationalUnit'']), (''ou'', [name])]"

definition splitName :: "string \<Rightarrow> string \<Rightarrow> string \<times> string" where
  "splitName name username =
     (let n = TrimSpace name
      in if n = [] then (username, username) else (n, last (Fields n)))"

subsection \<open>Folders\<close>

definition ousByID :: "OU list \<Rightarrow> (nat \<times> OU) list" where
  "ousByID ous = fold (\<lambda>ou m. if ou_ID ou = 0 \<or> TrimSpace (ou_Name ou) = [] then m
     else AList.update (ou_ID ou) ou m) ous []"

text \<open>
  The closure \<open>walk\<close>: the DN of a folder, memoised in \<open>ouDN\<close>. \<open>seen\<close> holds the folders on the way from
  the starting one, so a cycle of parents ends.
\<close>

function ouWalk :: "string \<Rightarrow> (nat \<times> OU) list \<Rightarrow> nat \<Rightarrow> nat list \<Rightarrow> (nat \<times> string) list \<Rightarrow> string \<times> (nat \<times> string) list" where
  "ouWalk base byID i seen ouDN =
     (if i = 0 \<or> i \<in> set seen then ([], ouDN)
      else case map_of ouDN i of
        Some dn \<Rightarrow> (dn, ouDN)
      | None \<Rightarrow>
        (case map_of byID i of
           None \<Rightarrow> ([], ouDN)
         | Some ou \<Rightarrow>
             let (parent, ouDN') =
                   (case ou_ParentID ou of
                      None \<Rightarrow> (base, ouDN)
                    | Some p \<Rightarrow> (let (q, m) = ouWalk base byID p (i # seen) ouDN in (if q \<noteq> [] then q else base, m)));
                 dn = ''ou='' @ escapeDN (TrimSpace (ou_Name ou)) @ '','' @ parent
             in (dn, AList.update i dn ouDN')))"
  by pat_completeness auto
termination
  by (relation "measure (\<lambda>(base, byID, i, seen, ouDN). unseen (map fst byID) seen)") (auto intro: unseen_map_of)

declare ouWalk.simps [simp del]

text \<open>The insertion sorts of \<open>sortUints\<close> and \<open>sortPairs\<close>: each element moves left past the larger ones.\<close>

definition moveLeft :: "('a \<Rightarrow> 'a \<Rightarrow> bool) \<Rightarrow> 'a \<Rightarrow> 'a list \<Rightarrow> 'a list" where
  "moveLeft lt x s = rev (dropWhile (lt x) (rev s)) @ x # rev (takeWhile (lt x) (rev s))"

definition insertionSort :: "('a \<Rightarrow> 'a \<Rightarrow> bool) \<Rightarrow> 'a list \<Rightarrow> 'a list" where
  "insertionSort lt s = fold (moveLeft lt) s []"

definition sortUints :: "nat list \<Rightarrow> nat list" where
  "sortUints = insertionSort (<)"

definition ouDNs :: "(nat list \<Rightarrow> nat list) \<Rightarrow> string \<Rightarrow> OU list \<Rightarrow> (nat \<times> string) list" where
  "ouDNs ouOrder base ous =
     (let byID = ousByID ous
      in fold (\<lambda>i m. snd (ouWalk base byID i [] m)) (ouOrder (map fst byID)) [])"

definition addOUs :: "OU list \<Rightarrow> (nat \<times> string) list \<Rightarrow> Directory \<Rightarrow> Directory" where
  "addOUs ous ouDN d =
     fold (\<lambda>i d. case map_of (ousByID ous) i of
         None \<Rightarrow> addEntry (ouEntry (lookupStr ouDN i) []) d
       | Some ou \<Rightarrow> addEntry (ouEntry (lookupStr ouDN i) (TrimSpace (ou_Name ou))) d)
       (sortUints (map fst ouDN)) d"

subsection \<open>Roles and people\<close>

definition parentDN :: "(nat \<times> string) list \<Rightarrow> string \<Rightarrow> nat option \<Rightarrow> string" where
  "parentDN ouDN dflt ouid =
     (case ouid of None \<Rightarrow> dflt | Some i \<Rightarrow> if lookupStr ouDN i \<noteq> [] then lookupStr ouDN i else dflt)"

text \<open>The published roles, their names trimmed, and \<open>roleDN\<close>, whose later entries win.\<close>

definition pubRoles :: "Role list \<Rightarrow> Role list" where
  "pubRoles roles = map (\<lambda>r. r\<lparr>r_Name := TrimSpace (r_Name r)\<rparr>)
     (filter (\<lambda>r. r_ID r \<noteq> 0 \<and> TrimSpace (r_Name r) \<noteq> []) roles)"

definition roleDNs :: "(nat \<times> string) list \<Rightarrow> string \<Rightarrow> Role list \<Rightarrow> nat \<Rightarrow> string" where
  "roleDNs ouDN rolesOU roles = lookupStr (rev (map (\<lambda>r.
     (r_ID r, ''cn='' @ escapeDN (r_Name r) @ '','' @ parentDN ouDN rolesOU (r_OUID r))) roles))"

definition pubUsers :: "(nat \<times> string) list \<Rightarrow> string \<Rightarrow> User list \<Rightarrow> (User \<times> string) list" where
  "pubUsers ouDN people users = map (\<lambda>u. let name = TrimSpace (u_Username u)
       in (u\<lparr>u_Username := name\<rparr>, ''uid='' @ escapeDN name @ '','' @ parentDN ouDN people (u_OUID u)))
     (filter (\<lambda>u. HasPrefix (u_Password u) ''$2'' \<and> TrimSpace (u_Username u) \<noteq> []) users)"

text \<open>The pairs (role, direct member role), and from them the maps \<open>children\<close> and \<open>parents\<close>.\<close>

definition roleEdges :: "(nat \<Rightarrow> string) \<Rightarrow> Role list \<Rightarrow> (nat \<times> nat) list" where
  "roleEdges roleDN roles = concat (map (\<lambda>role. map (\<lambda>m. (r_ID role, m))
     (filter (\<lambda>m. m \<noteq> r_ID role \<and> roleDN m \<noteq> []) (r_MemberIDs role))) roles)"

definition children :: "(nat \<times> nat) list \<Rightarrow> nat \<Rightarrow> nat list" where
  "children edges r = map snd (filter (\<lambda>e. fst e = r) edges)"

definition parents :: "(nat \<times> nat) list \<Rightarrow> nat \<Rightarrow> nat list" where
  "parents edges m = map fst (filter (\<lambda>e. snd e = m) edges)"

text \<open>
  The closure \<open>ancestors\<close>: the loop over \<open>parents[id]\<close>, which calls itself for each parent met for the
  first time. The map \<open>seen\<close>, shared by all calls, is passed along.
\<close>

function ancestorsLoop :: "(nat \<times> nat) list \<Rightarrow> nat list \<Rightarrow> nat list \<Rightarrow> nat list \<times> nat list" where
  "ancestorsLoop edges [] seen = ([], seen)"
| "ancestorsLoop edges (p # ps) seen =
     (if p \<in> set seen then ancestorsLoop edges ps seen
      else case ancestorsLoop edges (parents edges p) (p # seen) of (up, seen1) \<Rightarrow>
        (case ancestorsLoop edges ps seen1 of (out, seen2) \<Rightarrow> (p # up @ out, seen2)))"
  by pat_completeness auto

lemma ancestorsLoop_seen:
  "ancestorsLoop_dom (edges, ps, seen) \<Longrightarrow> set seen \<subseteq> set (snd (ancestorsLoop edges ps seen))"
proof (induction rule: ancestorsLoop.pinduct)
  case (2 edges p ps seen)
  then show ?case
    by (cases "ancestorsLoop edges (parents edges p) (p # seen)"; cases "ancestorsLoop edges ps (snd (ancestorsLoop edges (parents edges p) (p # seen)))")
      (fastforce simp: ancestorsLoop.psimps)
qed (simp add: ancestorsLoop.psimps)

termination ancestorsLoop
proof (relation "measures [\<lambda>(edges, ps, seen). unseen (map snd edges) seen, \<lambda>(edges, ps, seen). length ps]")
  fix edges :: "(nat \<times> nat) list" and p :: nat and ps seen :: "nat list"
  assume "p \<notin> set seen"
  moreover have "parents edges p = []" if "p \<notin> set (map snd edges)"
    using that by (auto simp: parents_def filter_empty_conv image_iff)
  moreover have "unseen (map snd edges) (p # seen) \<le> unseen (map snd edges) seen" by (rule unseen_mono) auto
  ultimately show "((edges, parents edges p, p # seen), edges, p # ps, seen)
      \<in> measures [\<lambda>(edges, ps, seen). unseen (map snd edges) seen, \<lambda>(edges, ps, seen). length ps]"
    using unseen_Cons[of p "map snd edges" seen] by (cases "p \<in> set (map snd edges)") auto
next
  fix edges :: "(nat \<times> nat) list" and p :: nat and ps seen up seen1 :: "nat list"
  assume "p \<notin> set seen" "(up, seen1) = ancestorsLoop edges (parents edges p) (p # seen)"
    and dom: "ancestorsLoop_dom (edges, parents edges p, p # seen)"
  then have "set seen \<subseteq> set seen1" using ancestorsLoop_seen[OF dom] by (metis insert_subset list.simps(15) snd_conv)
  then show "((edges, ps, seen1), edges, p # ps, seen)
      \<in> measures [\<lambda>(edges, ps, seen). unseen (map snd edges) seen, \<lambda>(edges, ps, seen). length ps]"
    using unseen_mono[of seen seen1 "map snd edges"] by (auto simp: le_less)
qed simp_all

definition ancestors :: "(nat \<times> nat) list \<Rightarrow> nat \<Rightarrow> nat list \<Rightarrow> nat list \<times> nat list" where
  "ancestors edges i seen = ancestorsLoop edges (parents edges i) seen"

text \<open>
  The loops that collect \<open>direct\<close> and \<open>memberOf\<close> from the starting roles, for a user and for a role.
\<close>

fun memberOfLoop :: "(nat \<times> nat) list \<Rightarrow> nat list \<Rightarrow> nat list \<Rightarrow> nat list \<times> nat list" where
  "memberOfLoop edges [] seen = ([], [])"
| "memberOfLoop edges (i # is) seen =
     (if i \<in> set seen then memberOfLoop edges is seen
      else let (up, seen1) = ancestors edges i (i # seen);
               (direct, memberOf) = memberOfLoop edges is seen1
           in (i # direct, i # up @ memberOf))"

definition userEntry :: "(nat \<times> nat) list \<Rightarrow> (nat \<Rightarrow> string) \<Rightarrow> User \<times> string \<Rightarrow> Entry" where
  "userEntry edges roleDN pub =
     (let u = fst pub;
          (cn, sn) = splitName (u_Name u) (u_Username u);
          (direct, memberOf) = memberOfLoop edges (filter (\<lambda>i. roleDN i \<noteq> []) (u_RoleIDs u)) [];
          attrs = [(''objectclass'', [''top'', ''person'', ''organizationalPerson'', ''inetOrgPerson'']),
             (''uid'', [u_Username u]), (''cn'', [cn]), (''sn'', [sn]), (''displayname'', [cn])]
             @ (if u_Email u \<noteq> [] then [(''mail'', [u_Email u])] else [])
             @ (if u_Mobile u \<noteq> [] then [(''mobile'', [u_Mobile u])] else [])
             @ (if memberOf \<noteq> [] then [(''memberof'', map roleDN memberOf)] else [])
      in \<lparr>e_DN = snd pub, e_Attrs = attrs, e_Password = u_Password u, e_DirectMembers = [],
          e_DirectMemberOf = map roleDN direct, e_operational = [''memberof'']\<rparr>)"

text \<open>\<open>addMember\<close> keeps the first of several DNs that normalise alike.\<close>

fun addMembers :: "string list \<Rightarrow> string list \<Rightarrow> string list" where
  "addMembers seenM [] = []"
| "addMembers seenM (dn # dns) =
     (if dn = [] \<or> normalizeDN dn \<in> set seenM then addMembers seenM dns
      else dn # addMembers (normalizeDN dn # seenM) dns)"

definition userByRole :: "(nat \<Rightarrow> string) \<Rightarrow> (User \<times> string) list \<Rightarrow> nat \<Rightarrow> string list" where
  "userByRole roleDN users r = concat (map (\<lambda>(u, dn). map (\<lambda>_. dn)
     (filter (\<lambda>i. i = r \<and> roleDN i \<noteq> []) (u_RoleIDs u))) users)"

definition roleEntry :: "(nat \<times> nat) list \<Rightarrow> (nat \<Rightarrow> string) \<Rightarrow> (User \<times> string) list \<Rightarrow> Role \<Rightarrow> Entry" where
  "roleEntry edges roleDN users role =
     (let members = addMembers [] (userByRole roleDN users (r_ID role) @ map roleDN (children edges (r_ID role)));
          (direct, memberOf) = memberOfLoop edges (parents edges (r_ID role)) [r_ID role];
          attrs = [(''objectclass'', [''top'', ''groupOfNames'', ''group'']), (''cn'', [r_Name role])]
             @ (if r_Description role \<noteq> [] then [(''description'', [r_Description role])] else [])
             @ (if members \<noteq> [] then [(''member'', members)] else [])
             @ (if memberOf \<noteq> [] then [(''memberof'', map roleDN memberOf)] else [])
      in \<lparr>e_DN = roleDN (r_ID role), e_Attrs = attrs, e_Password = [], e_DirectMembers = members,
          e_DirectMemberOf = map roleDN direct, e_operational = [''memberof'']\<rparr>)"

definition emptyDirectory :: "string \<Rightarrow> string \<Rightarrow> string \<Rightarrow> Directory" where
  "emptyDirectory base bindDN bindPassword = \<lparr>d_BaseDN = base, d_BindDN = bindDN, d_BindPassword = bindPassword,
     d_RoleDN = (\<lambda>_. []), d_OUDN = [], d_entries = [], d_byDN = []\<rparr>"

definition ensureOU :: "string \<Rightarrow> string \<Rightarrow> Directory \<Rightarrow> Directory" where
  "ensureOU dn name d = (if map_of (d_byDN d) (normalizeDN dn) = None then addEntry (ouEntry dn name) d else d)"

definition Build :: "(nat list \<Rightarrow> nat list) \<Rightarrow> Input \<Rightarrow> Directory" where
  "Build ouOrder inp =
     (let base = (if TrimSpace (in_BaseDN inp) = [] then DefaultBaseDN else TrimSpace (in_BaseDN inp));
          ouDN = ouDNs ouOrder base (in_OUs inp);
          people = ''ou=People,'' @ base;
          rolesOU = ''ou=Roles,'' @ base;
          d1 = addOUs (in_OUs inp) ouDN (addEntry (baseEntry base) (emptyDirectory base (ServiceBindDN base) []));
          d2 = ensureOU rolesOU ''Roles'' (ensureOU people ''People'' d1);
          roles = pubRoles (in_Roles inp);
          roleDN = roleDNs ouDN rolesOU roles;
          users = pubUsers ouDN people (in_Users inp);
          edges = roleEdges roleDN roles;
          d3 = fold (\<lambda>u. addEntry (userEntry edges roleDN u)) users d2;
          d4 = fold (\<lambda>r. addEntry (roleEntry edges roleDN users r)) roles d3
      in d4\<lparr>d_RoleDN := roleDN, d_OUDN := ouDN\<rparr>)"

subsection \<open>Nested groups\<close>

lemma set_parents: "set (parents edges m) = {r. (r, m) \<in> set edges}"
  by (force simp: parents_def)

lemma ancestorsLoop_sound:
  "ancestorsLoop edges ps seen = (out, seen') \<Longrightarrow>
     set seen' = set seen \<union> set out \<and> distinct out \<and> set out \<inter> set seen = {} \<and>
     (\<forall>x \<in> set out. \<exists>p \<in> set ps. (p, x) \<in> ((set edges)\<inverse>)\<^sup>*)"
proof (induction edges ps seen arbitrary: out seen' rule: ancestorsLoop.induct)
  case (2 edges p ps seen)
  show ?case
  proof (cases "p \<in> set seen")
    case True
    with 2(1)[OF True] 2(4) show ?thesis by auto
  next
    case False
    obtain up seen1 where up: "ancestorsLoop edges (parents edges p) (p # seen) = (up, seen1)" by fastforce
    obtain rest where rest: "ancestorsLoop edges ps seen1 = (rest, seen')" "out = p # up @ rest"
      using 2(4) False up by (auto split: prod.splits)
    note u = 2(2)[OF False up] and r = 2(3)[OF False up[symmetric] rest(1)]
    have "(p, x) \<in> ((set edges)\<inverse>)\<^sup>*" if "x \<in> set up" for x
    proof -
      have "\<exists>q \<in> set (parents edges p). (q, x) \<in> ((set edges)\<inverse>)\<^sup>*" using u that by simp
      then obtain q where "q \<in> set (parents edges p)" "(q, x) \<in> ((set edges)\<inverse>)\<^sup>*" ..
      then show ?thesis by (auto simp: set_parents intro: converse_rtrancl_into_rtrancl)
    qed
    with u r rest(2) False show ?thesis by auto
  qed
qed simp

lemma ancestorsLoop_closed:
  "ancestorsLoop edges ps seen = (out, seen') \<Longrightarrow>
     set ps \<subseteq> set seen' \<and> (\<forall>x \<in> set out. \<forall>y. (y, x) \<in> set edges \<longrightarrow> y \<in> set seen')"
proof (induction edges ps seen arbitrary: out seen' rule: ancestorsLoop.induct)
  case (2 edges p ps seen)
  show ?case
  proof (cases "p \<in> set seen")
    case True
    with 2(1)[OF True] 2(4) ancestorsLoop_sound[of edges ps seen out seen'] show ?thesis by auto
  next
    case False
    obtain up seen1 where up: "ancestorsLoop edges (parents edges p) (p # seen) = (up, seen1)" by fastforce
    obtain rest where rest: "ancestorsLoop edges ps seen1 = (rest, seen')" "out = p # up @ rest"
      using 2(4) False up by (auto split: prod.splits)
    have "set seen1 \<subseteq> set seen'" "p \<in> set seen1"
      using ancestorsLoop_sound[OF rest(1)] ancestorsLoop_sound[OF up] by auto
    moreover have "\<forall>y. (y, p) \<in> set edges \<longrightarrow> y \<in> set seen1"
      using 2(2)[OF False up] by (auto simp: set_parents)
    ultimately show ?thesis
      using 2(2)[OF False up] 2(3)[OF False up[symmetric] rest(1)] rest(2) by auto
  qed
qed simp

lemma memberOfLoop_ancestors: "snd (memberOfLoop edges is seen) = fst (ancestorsLoop edges is seen)"
  by (induction edges "is" seen rule: memberOfLoop.induct) (auto simp: ancestors_def split: prod.splits)

text \<open>What the walk collects from \<open>is\<close> when it starts with \<open>seen\<close> marked, whose own parents are among \<open>is\<close>.\<close>

lemma memberOfLoop_closure:
  assumes "memberOfLoop edges is seen = (direct, all)"
    and start: "\<forall>x \<in> set seen. \<forall>y. (y, x) \<in> set edges \<longrightarrow> y \<in> set is"
  shows "distinct all \<and> set all = {x. \<exists>i \<in> set is. (i, x) \<in> ((set edges)\<inverse>)\<^sup>*} - set seen"
proof -
  obtain seen' where anc: "ancestorsLoop edges is seen = (all, seen')"
    using memberOfLoop_ancestors[of edges "is" seen] assms(1) by (metis prod.collapse snd_conv)
  note sound = ancestorsLoop_sound[OF anc] and closed = ancestorsLoop_closed[OF anc]
  have "x \<in> set seen'" if "(i, x) \<in> ((set edges)\<inverse>)\<^sup>*" "i \<in> set is" for i x
    using that by (induction rule: rtrancl_induct) (use sound closed start in auto)
  with sound show ?thesis by auto
qed

text \<open>
  C26: Group nesting is expanded completely: the memberOf values published for a person are the DNs of
  exactly the roles reachable from the person's own roles by going from a role to one it is a member of, each
  role once; those of a role are its proper ancestors, also when roles contain each other in a cycle.
\<close>

theorem memberOf_expanded:
  "(\<exists>ids. attrVals (userEntry edges roleDN pub) ''memberof'' = map roleDN ids \<and> distinct ids \<and>
     set ids = {x. \<exists>i \<in> set (u_RoleIDs (fst pub)). roleDN i \<noteq> [] \<and> (i, x) \<in> ((set edges)\<inverse>)\<^sup>*}) \<and>
   (\<exists>ids. attrVals (roleEntry edges roleDN users role) ''memberof'' = map roleDN ids \<and> distinct ids \<and>
     set ids = {x. (r_ID role, x) \<in> ((set edges)\<inverse>)\<^sup>+} - {r_ID role})"
proof (intro conjI)
  let ?is = "filter (\<lambda>i. roleDN i \<noteq> []) (u_RoleIDs (fst pub))"
  obtain direct all where l: "memberOfLoop edges ?is [] = (direct, all)" by fastforce
  have "attrVals (userEntry edges roleDN pub) ''memberof'' = map roleDN all"
    using l by (auto simp: attrVals_def userEntry_def Let_def split: prod.splits)
  moreover have "set all = {x. \<exists>i \<in> set (u_RoleIDs (fst pub)). roleDN i \<noteq> [] \<and> (i, x) \<in> ((set edges)\<inverse>)\<^sup>*}" "distinct all"
    using memberOfLoop_closure[OF l] by auto
  ultimately show "\<exists>ids. attrVals (userEntry edges roleDN pub) ''memberof'' = map roleDN ids \<and> distinct ids \<and>
     set ids = {x. \<exists>i \<in> set (u_RoleIDs (fst pub)). roleDN i \<noteq> [] \<and> (i, x) \<in> ((set edges)\<inverse>)\<^sup>*}" by blast
next
  let ?r = "r_ID role"
  obtain direct all where l: "memberOfLoop edges (parents edges ?r) [?r] = (direct, all)" by fastforce
  have "attrVals (roleEntry edges roleDN users role) ''memberof'' = map roleDN all"
    using l by (auto simp: attrVals_def roleEntry_def Let_def split: prod.splits)
  moreover have "(\<exists>i \<in> set (parents edges ?r). (i, x) \<in> ((set edges)\<inverse>)\<^sup>*) \<longleftrightarrow> (?r, x) \<in> ((set edges)\<inverse>)\<^sup>+" for x
    by (auto simp: set_parents trancl_unfold_left)
  then have "set all = {x. (?r, x) \<in> ((set edges)\<inverse>)\<^sup>+} - {?r}" "distinct all"
    using memberOfLoop_closure[OF l] by (auto simp: set_parents)
  ultimately show "\<exists>ids. attrVals (roleEntry edges roleDN users role) ''memberof'' = map roleDN ids \<and> distinct ids \<and>
     set ids = {x. (?r, x) \<in> ((set edges)\<inverse>)\<^sup>+} - {?r}" by blast
qed

subsection \<open>The folder tree\<close>

definition ouParent :: "(nat \<times> OU) list \<Rightarrow> (nat \<times> nat) set" where
  "ouParent byID = {(i, p). \<exists>ou. map_of byID i = Some ou \<and> ou_ParentID ou = Some p}"

definition ouName :: "string \<Rightarrow> (nat \<times> string) list \<Rightarrow> OU \<Rightarrow> string" where
  "ouName base m ou = ''ou='' @ escapeDN (TrimSpace (ou_Name ou)) @ '','' @
     (case ou_ParentID ou of None \<Rightarrow> base | Some p \<Rightarrow> (case map_of m p of None \<Rightarrow> base | Some q \<Rightarrow> q))"

text \<open>A memo whose names are right and closed under parents.\<close>

definition ouGood :: "string \<Rightarrow> (nat \<times> OU) list \<Rightarrow> (nat \<times> string) list \<Rightarrow> bool" where
  "ouGood base byID m \<longleftrightarrow> (\<forall>i dn. map_of m i = Some dn \<longrightarrow> (\<exists>ou. map_of byID i = Some ou \<and> dn = ouName base m ou \<and>
     (\<forall>p. ou_ParentID ou = Some p \<longrightarrow> map_of byID p \<noteq> None \<longrightarrow> map_of m p \<noteq> None)))"

lemma ouGoodD: "ouGood base byID m \<Longrightarrow> map_of m i = Some dn \<Longrightarrow> \<exists>ou. map_of byID i = Some ou \<and> dn = ouName base m ou"
  unfolding ouGood_def by blast

lemma ouGood_dom: "ouGood base byID m \<Longrightarrow> map_of byID i = None \<Longrightarrow> map_of m i = None"
  using ouGoodD[of base byID m i] by (cases "map_of m i") auto

lemma ouGood_update:
  assumes good: "ouGood base byID m" and ou: "map_of byID i = Some ou" and dn: "dn = ouName base m ou"
    and par: "\<And>p. ou_ParentID ou = Some p \<Longrightarrow> p \<noteq> i \<and> (map_of byID p \<noteq> None \<longrightarrow> map_of m p \<noteq> None)"
  shows "ouGood base byID (AList.update i dn m)"
proof -
  let ?m = "AList.update i dn m"
  have m: "map_of ?m = (map_of m)(i \<mapsto> dn)" by (simp add: update_conv')
  have same: "map_of m i = Some x \<Longrightarrow> x = dn" for x using good ou dn by (fastforce simp: ouGood_def)
  have name: "ouName base ?m o1 = ouName base m o1"
    if "map_of m j = Some x" "map_of byID j = Some o1" for j x o1
  proof (cases "ou_ParentID o1 = Some i")
    case True
    with good that ou have "map_of m i \<noteq> None" by (fastforce simp: ouGood_def)
    with True same show ?thesis by (auto simp: ouName_def m)
  qed (auto simp: ouName_def m split: option.splits)
  have "ouName base ?m ou = ouName base m ou" using par by (auto simp: ouName_def m split: option.splits)
  then have "ouName base ?m ou = dn" by (simp only: dn)
  moreover have "\<exists>o1. map_of byID j = Some o1 \<and> x = ouName base ?m o1 \<and>
      (\<forall>p. ou_ParentID o1 = Some p \<longrightarrow> map_of byID p \<noteq> None \<longrightarrow> map_of ?m p \<noteq> None)"
    if "map_of m j = Some x" for j x
    using good that name[OF that] unfolding ouGood_def m by (metis fun_upd_apply option.distinct(1))
  ultimately show ?thesis using ou par unfolding ouGood_def by (auto simp: m)
qed

lemma ouWalk_good:
  assumes "acyclic (ouParent byID)" and "map_of byID 0 = None" and "ouGood base byID m"
    and "\<forall>s \<in> set seen. (i, s) \<notin> (ouParent byID)\<^sup>*" and "ouWalk base byID i seen m = (dn, m')"
  shows "ouGood base byID m' \<and> map_of m \<subseteq>\<^sub>m map_of m' \<and>
    (if map_of byID i = None then dn = [] \<and> m' = m else map_of m' i = Some dn \<and> dn \<noteq> [])"
  using assms
proof (induction base byID i seen m arbitrary: dn m' rule: ouWalk.induct)
  case (1 base byID i seen m)
  note acyc = \<open>acyclic (ouParent byID)\<close> and good = \<open>ouGood base byID m\<close> and walk = \<open>ouWalk base byID i seen m = (dn, m')\<close>
  have nonempty: "ouName base x ou \<noteq> []" for x ou by (simp add: ouName_def)
  have "i \<notin> set seen" using "1.prems"(4) by blast
  show ?case
  proof (cases "map_of byID i")
    case None
    then have "map_of m i = None" using ouGood_dom[OF good] by simp
    with None walk good show ?thesis by (auto simp: ouWalk.simps[of base byID i] split: if_splits)
  next
    case ou: (Some ou)
    then have i: "i \<noteq> 0" using "1.prems"(2) by (metis option.distinct(1))
    show ?thesis
    proof (cases "map_of m i")
      case (Some x)
      then have "dn = x" "m' = m" using walk i \<open>i \<notin> set seen\<close> by (simp_all add: ouWalk.simps[of base byID i])
      moreover have "x \<noteq> []" using ouGoodD[OF good Some] by (auto simp: ouName_def)
      ultimately show ?thesis using good ou Some by simp
    next
      case memo: None
      show ?thesis
      proof (cases "ou_ParentID ou")
        case None
        then have "dn = ouName base m ou" "m' = AList.update i dn m"
          using walk i \<open>i \<notin> set seen\<close> ou memo by (auto simp: ouWalk.simps[of base byID i] ouName_def Let_def)
        with ouGood_update[OF good ou] None memo ou nonempty show ?thesis
          by (auto simp: update_conv' map_le_def)
      next
        case (Some p)
        obtain q m1 where up: "ouWalk base byID p (i # seen) m = (q, m1)" by fastforce
        have edge: "(i, p) \<in> ouParent byID" using ou Some by (auto simp: ouParent_def)
        then have far: "\<forall>s \<in> set (i # seen). (p, s) \<notin> (ouParent byID)\<^sup>*"
          using acyc "1.prems"(4) by (auto simp: acyclic_def intro: rtrancl_into_trancl2 converse_rtrancl_into_rtrancl)
        then have "p \<noteq> i" by auto
        have ih: "ouGood base byID m1" "map_of m \<subseteq>\<^sub>m map_of m1"
            "if map_of byID p = None then q = [] \<and> m1 = m else map_of m1 p = Some q \<and> q \<noteq> []"
          using "1.IH"[OF _ memo ou Some acyc "1.prems"(2) good far up] i \<open>i \<notin> set seen\<close> by auto
        have none: "map_of m p = None" if "map_of byID p = None" using ouGood_dom[OF good that] .
        have dn: "dn = ouName base m1 ou" "m' = AList.update i dn m1"
          using walk i \<open>i \<notin> set seen\<close> ou memo Some up ih(3) none
          by (auto simp: ouWalk.simps[of base byID i] ouName_def Let_def split: if_splits)
        have "ouGood base byID m'"
          unfolding dn(2) by (rule ouGood_update[OF ih(1) ou dn(1)]) (use Some \<open>p \<noteq> i\<close> ih(3) in \<open>auto split: if_splits\<close>)
        moreover have "map_of m \<subseteq>\<^sub>m map_of m'" using ih(2) memo by (auto simp: dn(2) update_conv' map_le_def)
        moreover have "map_of m' i = Some dn" by (simp add: dn(2) update_conv')
        ultimately show ?thesis using ou nonempty dn(1) by simp
      qed
    qed
  qed
qed

lemma ousByID_nonzero: "map_of (ousByID ous) 0 = None"
proof -
  have "map_of m 0 = None \<Longrightarrow> map_of (fold (\<lambda>ou m. if ou_ID ou = 0 \<or> TrimSpace (ou_Name ou) = [] then m
      else AList.update (ou_ID ou) ou m) ous m) 0 = None" for m :: "(nat \<times> OU) list"
    by (induction ous arbitrary: m) (auto simp: update_conv')
  then show ?thesis by (simp add: ousByID_def)
qed

lemma ouDNs_good:
  assumes acyc: "acyclic (ouParent (ousByID ous))" and order: "set (ouOrder (map fst (ousByID ous))) = set (map fst (ousByID ous))"
  shows "ouGood base (ousByID ous) (ouDNs ouOrder base ous) \<and>
    (\<forall>i. map_of (ousByID ous) i \<noteq> None \<longrightarrow> map_of (ouDNs ouOrder base ous) i \<noteq> None)"
proof -
  let ?byID = "ousByID ous"
  have step: "ouGood base ?byID (snd (ouWalk base ?byID i [] m)) \<and> map_of m \<subseteq>\<^sub>m map_of (snd (ouWalk base ?byID i [] m)) \<and>
      (map_of ?byID i \<noteq> None \<longrightarrow> map_of (snd (ouWalk base ?byID i [] m)) i \<noteq> None)" if "ouGood base ?byID m" for i m
    using ouWalk_good[OF acyc ousByID_nonzero that, where i = i and seen = "[]"]
    by (cases "ouWalk base ?byID i [] m") (auto split: if_splits)
  have "ouGood base ?byID m \<Longrightarrow> ouGood base ?byID (fold (\<lambda>i m. snd (ouWalk base ?byID i [] m)) is m) \<and>
      map_of m \<subseteq>\<^sub>m map_of (fold (\<lambda>i m. snd (ouWalk base ?byID i [] m)) is m) \<and>
      (\<forall>i \<in> set is. map_of ?byID i \<noteq> None \<longrightarrow> map_of (fold (\<lambda>i m. snd (ouWalk base ?byID i [] m)) is m) i \<noteq> None)" for "is" m
  proof (induction "is" arbitrary: m)
    case (Cons i "is")
    let ?m1 = "snd (ouWalk base ?byID i [] m)"
    have le: "map_of m \<subseteq>\<^sub>m map_of ?m1" "map_of ?byID i \<noteq> None \<longrightarrow> map_of ?m1 i \<noteq> None" using step[OF Cons.prems] by auto
    have ih: "ouGood base ?byID (fold (\<lambda>i m. snd (ouWalk base ?byID i [] m)) is ?m1)"
        "map_of ?m1 \<subseteq>\<^sub>m map_of (fold (\<lambda>i m. snd (ouWalk base ?byID i [] m)) is ?m1)"
        "\<forall>i \<in> set is. map_of ?byID i \<noteq> None \<longrightarrow> map_of (fold (\<lambda>i m. snd (ouWalk base ?byID i [] m)) is ?m1) i \<noteq> None"
      using Cons.IH[of ?m1] step[OF Cons.prems] by blast+
    with le map_le_trans[OF le(1) ih(2)] show ?case by (auto simp: map_le_def dom_def)
  qed simp
  moreover have "ouGood base ?byID []" by (simp add: ouGood_def)
  moreover have "i \<in> set (ouOrder (map fst ?byID))" if "map_of ?byID i \<noteq> None" for i
    using that order by (metis domIff dom_map_of_conv_image_fst set_map)
  ultimately show ?thesis unfolding ouDNs_def Let_def by blast
qed

text \<open>
  The folder tree: when no folder is its own ancestor, every folder is published under the DN of its
  parent folder, or under the base DN when it has none, whatever the order in which Go walks the map of folders.
\<close>

theorem folder_tree:
  assumes "acyclic (ouParent (ousByID (in_OUs inp)))"
    and "set (ouOrder (map fst (ousByID (in_OUs inp)))) = set (map fst (ousByID (in_OUs inp)))"
    and "map_of (ousByID (in_OUs inp)) i = Some ou"
  shows "map_of (d_OUDN (Build ouOrder inp)) i =
    Some (''ou='' @ escapeDN (TrimSpace (ou_Name ou)) @ '','' @
      (case ou_ParentID ou of
         None \<Rightarrow> (if TrimSpace (in_BaseDN inp) = [] then DefaultBaseDN else TrimSpace (in_BaseDN inp))
       | Some p \<Rightarrow> (case map_of (d_OUDN (Build ouOrder inp)) p of
           None \<Rightarrow> (if TrimSpace (in_BaseDN inp) = [] then DefaultBaseDN else TrimSpace (in_BaseDN inp))
         | Some q \<Rightarrow> q)))"
proof -
  define base where "base = (if TrimSpace (in_BaseDN inp) = [] then DefaultBaseDN else TrimSpace (in_BaseDN inp))"
  have built: "d_OUDN (Build ouOrder inp) = ouDNs ouOrder base (in_OUs inp)" by (simp add: Build_def Let_def base_def)
  have good: "ouGood base (ousByID (in_OUs inp)) (ouDNs ouOrder base (in_OUs inp))"
    and dom: "map_of (ouDNs ouOrder base (in_OUs inp)) i \<noteq> None"
    using ouDNs_good[OF assms(1), of ouOrder base] assms(2,3) by simp_all
  from dom obtain dn where dn: "map_of (ouDNs ouOrder base (in_OUs inp)) i = Some dn" by blast
  show ?thesis using ouGoodD[OF good dn] assms(3) dn unfolding built unfolding base_def[symmetric] by (simp add: ouName_def)
qed

definition exFolders :: Input where
  "exFolders = \<lparr>in_BaseDN = ''dc=x'', in_OUs = [\<lparr>ou_ID = 1, ou_ParentID = Some 2, ou_Name = ''a''\<rparr>,
     \<lparr>ou_ID = 2, ou_ParentID = None, ou_Name = ''b''\<rparr>], in_Users = [], in_Roles = []\<rparr>"

lemma exFolders_byID: "ousByID (in_OUs exFolders) =
    [(1, \<lparr>ou_ID = 1, ou_ParentID = Some 2, ou_Name = ''a''\<rparr>), (2, \<lparr>ou_ID = 2, ou_ParentID = None, ou_Name = ''b''\<rparr>)]"
  by (simp add: exFolders_def ousByID_def TrimSpace_def TrimLeft_def is_space_def)

theorem folder_tree_witness:
  "map_of (d_OUDN (Build rev exFolders)) 2 = Some ''ou=b,dc=x''"
proof -
  have "ouParent (ousByID (in_OUs exFolders)) = {(1, 2)}" by (auto simp: ouParent_def exFolders_byID split: if_splits)
  then have "acyclic (ouParent (ousByID (in_OUs exFolders)))"
    by (simp add: acyclic_insert wf_acyclic)
  from folder_tree[OF this, of rev 2 "\<lparr>ou_ID = 2, ou_ParentID = None, ou_Name = ''b''\<rparr>"]
  have "map_of (d_OUDN (Build rev exFolders)) 2 = Some (''ou='' @ escapeDN (TrimSpace ''b'') @ '','' @
      (if TrimSpace (in_BaseDN exFolders) = [] then DefaultBaseDN else TrimSpace (in_BaseDN exFolders)))"
    by (simp add: exFolders_byID insert_commute)
  then show ?thesis
    by (simp add: exFolders_def escapeDN_def escapeRune_def dnSpecial_def TrimSpace_def TrimLeft_def is_space_def)
qed

subsection \<open>The index of a directory\<close>

text \<open>\<open>byDN\<close> is the list of entries under their normalised names, which differ.\<close>

definition dirOk :: "Directory \<Rightarrow> bool" where
  "dirOk d \<longleftrightarrow> d_byDN d = map (\<lambda>e. (normalizeDN (e_DN e), e)) (d_entries d) \<and> distinct (map fst (d_byDN d)) \<and>
     (\<forall>e \<in> set (d_entries d). e_DN e \<noteq> [])"

lemma update_new: "k \<notin> fst ` set al \<Longrightarrow> AList.update k v al = al @ [(k, v)]"
  by (induction al) auto

lemma addEntry_ok: "dirOk d \<Longrightarrow> dirOk (addEntry e d)"
  by (auto simp: dirOk_def addEntry_def update_new map_of_eq_None_iff image_image split: option.splits)

lemma dirOk_fold: "dirOk d \<Longrightarrow> (\<And>x d. dirOk d \<Longrightarrow> dirOk (f x d)) \<Longrightarrow> dirOk (fold f xs d)"
  by (induction xs arbitrary: d) auto

lemma dirOk_empty: "dirOk (emptyDirectory base bindDN pw)"
  by (simp add: dirOk_def emptyDirectory_def)

lemma Build_ok: "dirOk (Build ouOrder inp)"
proof -
  have "dirOk d \<Longrightarrow> dirOk (addOUs ous ouDN d)" for d ous ouDN
    unfolding addOUs_def by (rule dirOk_fold) (auto simp: addEntry_ok split: option.splits)
  moreover have "dirOk d \<Longrightarrow> dirOk (ensureOU dn name d)" for d dn name by (simp add: ensureOU_def addEntry_ok)
  moreover have "dirOk (d\<lparr>d_RoleDN := r, d_OUDN := m\<rparr>) = dirOk d" for d r m by (simp add: dirOk_def)
  ultimately show ?thesis unfolding Build_def Let_def by (simp add: addEntry_ok dirOk_empty dirOk_fold)
qed

lemma map_of_byDN:
  assumes "dirOk d"
  shows "map_of (d_byDN d) k = Some e \<longleftrightarrow> e \<in> set (d_entries d) \<and> normalizeDN (e_DN e) = k"
proof -
  have "map_of (d_byDN d) k = Some e \<longleftrightarrow> (k, e) \<in> set (d_byDN d)"
    using assms by (intro map_of_eq_Some_iff) (auto simp: dirOk_def)
  then show ?thesis using assms by (auto simp: dirOk_def)
qed

end
