(* ===== verification/Ldap_Search.thy ===== *)
theory Ldap_Search
  imports Ldap_Directory
begin

text \<open>
  Searching the LDAP directory: \<open>internal/ldapsrv/search.go\<close> and the published schema, \<open>schema.go\<close>. Filters
  are read from BER, matched against entries, and the selected attributes are put in a fixed order.

  Lemmas: the in-chain rule is reachability over the direct edges and its walk terminates on cycles; the
  greedy substring match finds every match there is; the projection does not depend on the order of the map.
\<close>

subsection \<open>Schema\<close>

definition subschemaDN :: string where "subschemaDN = ''cn=subschema''"

definition ldapSyntaxes :: "string list" where
  "ldapSyntaxes = [
    ''( 1.3.6.1.4.1.1466.115.121.1.3 DESC 'Attribute Type Description' )'',
    ''( 1.3.6.1.4.1.1466.115.121.1.12 DESC 'DN' )'',
    ''( 1.3.6.1.4.1.1466.115.121.1.15 DESC 'Directory String' )'',
    ''( 1.3.6.1.4.1.1466.115.121.1.26 DESC 'IA5 String' )'',
    ''( 1.3.6.1.4.1.1466.115.121.1.27 DESC 'INTEGER' )'',
    ''( 1.3.6.1.4.1.1466.115.121.1.30 DESC 'Matching Rule Description' )'',
    ''( 1.3.6.1.4.1.1466.115.121.1.37 DESC 'Object Class Description' )'',
    ''( 1.3.6.1.4.1.1466.115.121.1.38 DESC 'OID' )'',
    ''( 1.3.6.1.4.1.1466.115.121.1.50 DESC 'Telephone Number' )'',
    ''( 1.3.6.1.4.1.1466.115.121.1.54 DESC 'LDAP Syntax Description' )'',
    ''( 1.3.6.1.4.1.1466.115.121.1.58 DESC 'Substring Assertion' )'']"

definition matchingRules :: "string list" where
  "matchingRules = [
    ''( 2.5.13.0 NAME 'objectIdentifierMatch' SYNTAX 1.3.6.1.4.1.1466.115.121.1.38 )'',
    ''( 2.5.13.1 NAME 'distinguishedNameMatch' SYNTAX 1.3.6.1.4.1.1466.115.121.1.12 )'',
    ''( 2.5.13.2 NAME 'caseIgnoreMatch' SYNTAX 1.3.6.1.4.1.1466.115.121.1.15 )'',
    ''( 2.5.13.4 NAME 'caseIgnoreSubstringsMatch' SYNTAX 1.3.6.1.4.1.1466.115.121.1.58 )'',
    ''( 2.5.13.20 NAME 'telephoneNumberMatch' SYNTAX 1.3.6.1.4.1.1466.115.121.1.50 )'',
    ''( 2.5.13.21 NAME 'telephoneNumberSubstringsMatch' SYNTAX 1.3.6.1.4.1.1466.115.121.1.58 )'',
    ''( 1.3.6.1.4.1.1466.109.114.1 NAME 'caseIgnoreIA5Match' SYNTAX 1.3.6.1.4.1.1466.115.121.1.26 )'',
    ''( 1.3.6.1.4.1.1466.109.114.2 NAME 'caseIgnoreIA5SubstringsMatch' SYNTAX 1.3.6.1.4.1.1466.115.121.1.58 )'']"

definition attributeTypes :: "string list" where
  "attributeTypes = [
    ''( 2.5.4.0 NAME 'objectClass' EQUALITY objectIdentifierMatch SYNTAX 1.3.6.1.4.1.1466.115.121.1.38 )'',
    ''( 2.5.4.49 NAME 'distinguishedName' EQUALITY distinguishedNameMatch SYNTAX 1.3.6.1.4.1.1466.115.121.1.12 )'',
    ''( 2.5.4.41 NAME 'name' EQUALITY caseIgnoreMatch SUBSTR caseIgnoreSubstringsMatch SYNTAX 1.3.6.1.4.1.1466.115.121.1.15 )'',
    ''( 2.5.4.3 NAME 'cn' SUP name )'',
    ''( 2.5.4.4 NAME 'sn' SUP name )'',
    ''( 2.5.4.10 NAME 'o' SUP name )'',
    ''( 2.5.4.11 NAME 'ou' SUP name )'',
    ''( 2.5.4.13 NAME 'description' EQUALITY caseIgnoreMatch SUBSTR caseIgnoreSubstringsMatch SYNTAX 1.3.6.1.4.1.1466.115.121.1.15 )'',
    ''( 2.5.4.31 NAME 'member' SUP distinguishedName )'',
    ''( 0.9.2342.19200300.100.1.25 NAME ( 'dc' 'domainComponent' ) EQUALITY caseIgnoreIA5Match SUBSTR caseIgnoreIA5SubstringsMatch SYNTAX 1.3.6.1.4.1.1466.115.121.1.26 SINGLE-VALUE )'',
    ''( 0.9.2342.19200300.100.1.1 NAME ( 'uid' 'userid' ) EQUALITY caseIgnoreMatch SUBSTR caseIgnoreSubstringsMatch SYNTAX 1.3.6.1.4.1.1466.115.121.1.15 )'',
    ''( 0.9.2342.19200300.100.1.3 NAME ( 'mail' 'rfc822Mailbox' ) EQUALITY caseIgnoreIA5Match SUBSTR caseIgnoreIA5SubstringsMatch SYNTAX 1.3.6.1.4.1.1466.115.121.1.26 )'',
    ''( 0.9.2342.19200300.100.1.41 NAME 'mobile' EQUALITY telephoneNumberMatch SUBSTR telephoneNumberSubstringsMatch SYNTAX 1.3.6.1.4.1.1466.115.121.1.50 )'',
    ''( 2.16.840.1.113730.3.1.241 NAME 'displayName' EQUALITY caseIgnoreMatch SUBSTR caseIgnoreSubstringsMatch SYNTAX 1.3.6.1.4.1.1466.115.121.1.15 SINGLE-VALUE )'',
    ''( 1.2.840.113556.1.2.102 NAME 'memberOf' EQUALITY distinguishedNameMatch SYNTAX 1.3.6.1.4.1.1466.115.121.1.12 NO-USER-MODIFICATION USAGE directoryOperation )'',
    ''( 1.3.6.1.4.1.1466.101.120.5 NAME 'namingContexts' SYNTAX 1.3.6.1.4.1.1466.115.121.1.12 USAGE dSAOperation )'',
    ''( 1.3.6.1.4.1.1466.101.120.15 NAME 'supportedLDAPVersion' SYNTAX 1.3.6.1.4.1.1466.115.121.1.27 USAGE dSAOperation )'',
    ''( 1.3.6.1.4.1.1466.101.120.1 NAME 'vendorName' EQUALITY caseIgnoreMatch SYNTAX 1.3.6.1.4.1.1466.115.121.1.15 SINGLE-VALUE USAGE dSAOperation )'',
    ''( 2.5.18.10 NAME 'subschemaSubentry' EQUALITY distinguishedNameMatch SYNTAX 1.3.6.1.4.1.1466.115.121.1.12 NO-USER-MODIFICATION USAGE directoryOperation )'',
    ''( 2.5.21.5 NAME 'attributeTypes' SYNTAX 1.3.6.1.4.1.1466.115.121.1.3 USAGE directoryOperation )'',
    ''( 2.5.21.6 NAME 'objectClasses' SYNTAX 1.3.6.1.4.1.1466.115.121.1.37 USAGE directoryOperation )'',
    ''( 2.5.21.4 NAME 'matchingRules' SYNTAX 1.3.6.1.4.1.1466.115.121.1.30 USAGE directoryOperation )'',
    ''( 1.3.6.1.4.1.1466.101.120.16 NAME 'ldapSyntaxes' SYNTAX 1.3.6.1.4.1.1466.115.121.1.54 USAGE directoryOperation )'']"

definition objectClasses :: "string list" where
  "objectClasses = [
    ''( 2.5.6.0 NAME 'top' ABSTRACT MUST objectClass )'',
    ''( 2.5.6.6 NAME 'person' DESC 'RFC4519: a person' SUP top STRUCTURAL MUST ( sn $ cn ) MAY description )'',
    ''( 2.5.6.7 NAME 'organizationalPerson' DESC 'RFC4519: an organizational person' SUP person STRUCTURAL MAY ou )'',
    ''( 2.16.840.1.113730.3.2.2 NAME 'inetOrgPerson' DESC 'RFC2798: Internet Organizational Person' SUP organizationalPerson STRUCTURAL MAY ( displayName $ mail $ mobile $ uid ) )'',
    ''( 2.5.6.9 NAME ( 'groupOfNames' 'group' ) DESC 'RFC4519: a group of names (DNs)' SUP top STRUCTURAL MUST ( member $ cn ) MAY ( description $ ou $ o ) )'',
    ''( 2.5.6.4 NAME 'organization' DESC 'RFC4519: an organization' SUP top STRUCTURAL MUST o MAY description )'',
    ''( 2.5.6.5 NAME 'organizationalUnit' DESC 'RFC4519: an organizational unit' SUP top STRUCTURAL MUST ou MAY description )'',
    ''( 1.3.6.1.4.1.1466.344 NAME 'dcObject' DESC 'RFC4519: domain component object' SUP top AUXILIARY MUST dc )'',
    ''( 0.9.2342.19200300.100.4.13 NAME 'domain' DESC 'RFC4524: a domain' SUP top STRUCTURAL MUST dc MAY ( o $ description ) )'',
    ''( 2.5.20.1 NAME 'subschema' AUXILIARY MAY ( objectClasses $ attributeTypes $ matchingRules $ ldapSyntaxes ) )'',
    ''( 1.3.6.1.4.1.4203.1.4.1 NAME 'OpenLDAProotDSE' DESC 'OpenLDAP Root DSE object' SUP top STRUCTURAL MAY ( namingContexts $ supportedLDAPVersion $ vendorName $ subschemaSubentry ) )'']"

definition subschemaEntry :: Entry where
  "subschemaEntry = (plainEntry subschemaDN
     [(''objectclass'', [''top'', ''subschema'']), (''cn'', [''subschema'']),
      (''attributetypes'', attributeTypes), (''objectclasses'', objectClasses),
      (''ldapsyntaxes'', ldapSyntaxes), (''matchingrules'', matchingRules)])
     \<lparr>e_operational := [''attributetypes'', ''objectclasses'', ''ldapsyntaxes'', ''matchingrules'']\<rparr>"

definition rootDSE :: "Directory \<Rightarrow> Entry" where
  "rootDSE d = (plainEntry []
     [(''objectclass'', [''top'', ''OpenLDAProotDSE'']), (''namingcontexts'', [d_BaseDN d]),
      (''supportedldapversion'', [''3'']), (''vendorname'', [''factum2'']), (''subschemasubentry'', [''cn=subschema''])])
     \<lparr>e_operational := [''namingcontexts'', ''supportedldapversion'', ''vendorname'', ''subschemasubentry'']\<rparr>"

subsection \<open>Filters\<close>

datatype filtOp = filtAnd | filtOr | filtNot | filtEq | filtSub | filtGe | filtLe | filtPresent | filtApprox | filtExt

datatype subKind = subInitial | subAny | subFinal

record substr =
  sub_kind :: subKind
  sub_val :: string

datatype ldapFilter =
  Filter (f_op: filtOp) (f_children: "ldapFilter list") (f_attr: string) (f_value: string) (f_subs: "substr list") (f_rule: string)

definition parseSubs :: "ber list \<Rightarrow> ber_error + substr list" where
  "parseSubs parts = res_map (\<lambda>part.
     if cls part \<noteq> 2 then Inl errBER
     else Inr \<lparr>sub_kind = (if tag part = 0 then subInitial else if tag part = 2 then subFinal else subAny),
               sub_val = text_of part\<rparr>) parts"

definition parseExt :: "ber list \<Rightarrow> ldapFilter" where
  "parseExt parts = fold (\<lambda>kid f.
     if cls kid \<noteq> 2 then f
     else if tag kid = 1 then Filter (f_op f) (f_children f) (f_attr f) (f_value f) (f_subs f) (text_of kid)
     else if tag kid = 2 then Filter (f_op f) (f_children f) (text_of kid) (f_value f) (f_subs f) (f_rule f)
     else if tag kid = 3 then Filter (f_op f) (f_children f) (f_attr f) (text_of kid) (f_subs f) (f_rule f)
     else f) parts (Filter filtExt [] [] [] [] [])"

fun parseFilter :: "ber \<Rightarrow> ber_error + ldapFilter" where
  "parseFilter (Ber c k t r ks) =
     (if c \<noteq> 2 then Inl errBER
      else if t = 0 \<or> t = 1 then
        res_bind (res_map parseFilter ks) (\<lambda>cs. Inr (Filter (if t = 1 then filtOr else filtAnd) cs [] [] [] []))
      else if t = 2 then
        (if length ks \<noteq> 1 then Inl errBER
         else res_bind (res_map parseFilter ks) (\<lambda>cs. Inr (Filter filtNot cs [] [] [] [])))
      else if t = 3 \<or> t = 5 \<or> t = 6 \<or> t = 8 then
        (if length ks \<noteq> 2 then Inl errBER
         else Inr (Filter (if t = 5 then filtGe else if t = 6 then filtLe else if t = 8 then filtApprox else filtEq)
           [] (text_of (ks ! 0)) (text_of (ks ! 1)) [] []))
      else if t = 4 then
        (if length ks \<noteq> 2 then Inl errBER
         else res_bind (parseSubs (kids (ks ! 1))) (\<lambda>subs. Inr (Filter filtSub [] (text_of (ks ! 0)) [] subs [])))
      else if t = 7 then Inr (Filter filtPresent [] (text_of (Ber c k t r ks)) [] [] [])
      else if t = 9 then Inr (parseExt ks)
      else Inl errBER)"

subsection \<open>Matching\<close>

definition dnSyntax :: "string \<Rightarrow> bool" where
  "dnSyntax attr \<longleftrightarrow> attr = ''member'' \<or> attr = ''memberof'' \<or> attr = ''distinguishedname''"

definition eqAttr :: "Entry \<Rightarrow> string \<Rightarrow> string \<Rightarrow> bool" where
  "eqAttr e attr0 val =
     (let attr = ToLower attr0
      in list_ex (\<lambda>v. if dnSyntax attr then normalizeDN v = normalizeDN val else EqualFold v val) (attrVals e attr))"

definition cmpAttr :: "Entry \<Rightarrow> string \<Rightarrow> string \<Rightarrow> bool \<Rightarrow> bool" where
  "cmpAttr e attr val ge =
     list_ex (\<lambda>v. if ge then \<not> str_less (ToLower v) (ToLower val) else \<not> str_less (ToLower val) (ToLower v))
       (attrVals e (ToLower attr))"

fun matchSub :: "string \<Rightarrow> substr list \<Rightarrow> bool" where
  "matchSub rest [] = True"
| "matchSub rest (s # ss) =
     (let part = ToLower (sub_val s)
      in case sub_kind s of
           subInitial \<Rightarrow> HasPrefix rest part \<and> matchSub (drop (length part) rest) ss
         | subFinal \<Rightarrow> HasSuffix rest part
         | subAny \<Rightarrow> (case Index rest part of None \<Rightarrow> False | Some i \<Rightarrow> matchSub (drop (i + length part) rest) ss))"

definition subAttr :: "Entry \<Rightarrow> string \<Rightarrow> substr list \<Rightarrow> bool" where
  "subAttr e attr subs = list_ex (\<lambda>v. matchSub (ToLower v) subs) (attrVals e (ToLower attr))"

text \<open>The closure \<open>walk\<close> of \<open>inChain\<close> and its loop. The map \<open>seen\<close> is passed along; the walk stops at the first hit.\<close>

definition chainNext :: "string \<Rightarrow> Entry \<Rightarrow> string list" where
  "chainNext attr cur = (if attr = ''memberof'' then e_DirectMemberOf cur else e_DirectMembers cur)"

function chainWalk :: "(string \<times> Entry) list \<Rightarrow> string \<Rightarrow> string \<Rightarrow> string \<Rightarrow> string list \<Rightarrow> bool \<times> string list"
  and chainLoop :: "(string \<times> Entry) list \<Rightarrow> string \<Rightarrow> string \<Rightarrow> string list \<Rightarrow> string list \<Rightarrow> bool \<times> string list" where
  "chainWalk byDN attr want dn seen =
     (let key = normalizeDN dn
      in if key = [] \<or> key \<in> set seen then (False, seen)
         else case map_of byDN key of
             None \<Rightarrow> (False, key # seen)
           | Some cur \<Rightarrow> chainLoop byDN attr want (chainNext attr cur) (key # seen))"
| "chainLoop byDN attr want [] seen = (False, seen)"
| "chainLoop byDN attr want (n # ns) seen =
     (if normalizeDN n = want then (True, seen)
      else case chainWalk byDN attr want n seen of (hit, seen1) \<Rightarrow>
        if hit then (True, seen1) else chainLoop byDN attr want ns seen1)"
  by pat_completeness auto

lemma chain_seen:
  "chainWalk_chainLoop_dom (Inl (byDN, attr, want, dn, seen)) \<Longrightarrow> set seen \<subseteq> set (snd (chainWalk byDN attr want dn seen))"
  "chainWalk_chainLoop_dom (Inr (byDN, attr, want, ns, seen)) \<Longrightarrow> set seen \<subseteq> set (snd (chainLoop byDN attr want ns seen))"
proof (induction rule: chainWalk_chainLoop.pinduct)
  case (1 byDN attr want dn seen)
  then show ?case by (auto simp: chainWalk.psimps Let_def split: option.splits)
next
  case (2 byDN attr want seen)
  then show ?case by (simp add: chainLoop.psimps)
next
  case (3 byDN attr want n ns seen)
  obtain h s1 where "chainWalk byDN attr want n seen = (h, s1)" by fastforce
  with 3 show ?case by (auto simp: chainLoop.psimps split: if_splits)
qed

termination chainWalk
proof (relation "measures [\<lambda>x. case x of Inl (byDN, attr, want, dn, seen) \<Rightarrow> unseen (map fst byDN) seen
      | Inr (byDN, attr, want, ns, seen) \<Rightarrow> unseen (map fst byDN) seen,
    \<lambda>x. case x of Inl _ \<Rightarrow> 0 | Inr (byDN, attr, want, ns, seen) \<Rightarrow> length ns]")
  fix byDN attr want n ns seen x hit seen1
  assume "chainWalk_chainLoop_dom (Inl (byDN, attr, want, n, seen))" "(hit, seen1) = chainWalk byDN attr want n seen"
  then have "set seen \<subseteq> set seen1" using chain_seen(1) by (metis snd_conv)
  then have "unseen (map fst byDN) seen1 \<le> unseen (map fst byDN) seen" by (rule unseen_mono)
  then show "(Inr (byDN, attr, want, ns, seen1), Inr (byDN, attr, want, n # ns, seen)) \<in> measures [\<lambda>x. case x of Inl (byDN, attr, want, dn, seen) \<Rightarrow> unseen (map fst byDN) seen
      | Inr (byDN, attr, want, ns, seen) \<Rightarrow> unseen (map fst byDN) seen,
    \<lambda>x. case x of Inl _ \<Rightarrow> 0 | Inr (byDN, attr, want, ns, seen) \<Rightarrow> length ns]"
    by auto
qed (auto intro: unseen_map_of)

declare chainWalk.simps [simp del]

definition inChain :: "Directory \<Rightarrow> Entry \<Rightarrow> string \<Rightarrow> string \<Rightarrow> bool" where
  "inChain d e attr0 val =
     (let attr = ToLower attr0; want = normalizeDN val
      in if attr \<noteq> ''member'' \<and> attr \<noteq> ''memberof'' then False
         else if want = [] then False
         else fst (chainWalk (d_byDN d) attr want (e_DN e) []))"

fun matchFilter :: "Directory \<Rightarrow> Entry \<Rightarrow> ldapFilter \<Rightarrow> bool" where
  "matchFilter d e (Filter op cs attr val subs rule) =
     (case op of
        filtAnd \<Rightarrow> list_all (matchFilter d e) cs
      | filtOr \<Rightarrow> list_ex (matchFilter d e) cs
      | filtNot \<Rightarrow> length cs = 1 \<and> list_all (\<lambda>c. \<not> matchFilter d e c) cs
      | filtPresent \<Rightarrow> map_of (e_Attrs e) (ToLower attr) \<noteq> None
      | filtEq \<Rightarrow> eqAttr e attr val
      | filtApprox \<Rightarrow> eqAttr e attr val
      | filtGe \<Rightarrow> cmpAttr e attr val True
      | filtLe \<Rightarrow> cmpAttr e attr val False
      | filtSub \<Rightarrow> subAttr e attr subs
      | filtExt \<Rightarrow>
          if EqualFold rule MatchingRuleInChain then inChain d e attr val
          else if attr = [] then False else eqAttr e attr val)"

subsection \<open>Candidates and projection\<close>

definition candidates :: "Directory \<Rightarrow> string \<Rightarrow> int \<Rightarrow> Entry list" where
  "candidates d base scope =
     (if normalizeDN base = normalizeDN subschemaDN then (if scope = 1 then [] else [subschemaEntry])
      else if normalizeDN base = [] \<and> scope = 0 then [rootDSE d]
      else filter (\<lambda>e.
        if scope = 0 then normalizeDN (e_DN e) = normalizeDN base
        else if scope = 1 then normalizeDN (dnParent (e_DN e)) = normalizeDN base
        else dnUnder (e_DN e) base) (d_entries d))"

definition hasBase :: "Directory \<Rightarrow> string \<Rightarrow> bool" where
  "hasBase d base =
     (TrimSpace base = [] \<or> normalizeDN base = normalizeDN subschemaDN \<or> map_of (d_byDN d) (normalizeDN base) \<noteq> None)"

definition anonReadBase :: "string \<Rightarrow> int \<Rightarrow> bool" where
  "anonReadBase base scope = (scope = 0 \<and> (normalizeDN base = [] \<or> normalizeDN base = normalizeDN subschemaDN))"

definition canonicalAttr :: "string \<Rightarrow> string" where
  "canonicalAttr name0 =
     (let name1 = ToLower (TrimSpace name0);
          name = (case IndexByte name1 (CHR '';'') of None \<Rightarrow> name1 | Some i \<Rightarrow> take i name1)
      in if name = ''rfc822mailbox'' then ''mail''
         else if name = ''userid'' then ''uid''
         else if name = ''domaincomponent'' then ''dc''
         else name)"

definition pairLess :: "string \<times> string \<Rightarrow> string \<times> string \<Rightarrow> bool" where
  "pairLess a b \<longleftrightarrow> str_less (fst a) (fst b) \<or> fst a = fst b \<and> str_less (snd a) (snd b)"

definition sortPairs :: "(string \<times> string) list \<Rightarrow> (string \<times> string) list" where
  "sortPairs = insertionSort pairLess"

definition wantsAttr :: "Entry \<Rightarrow> string list \<Rightarrow> string \<Rightarrow> bool" where
  "wantsAttr e names name =
     (let wantAll = (names = [] \<or> ''*'' \<in> set names \<or> [] \<in> set names);
          wantOp = (''+'' \<in> set names);
          explicit = map canonicalAttr (filter (\<lambda>n. n \<noteq> ''*'' \<and> n \<noteq> [] \<and> n \<noteq> ''+'') names);
          op = (name \<in> set (e_operational e))
      in canonicalAttr name \<in> set explicit \<or> \<not> op \<and> wantAll \<or> op \<and> wantOp)"

definition project :: "Entry \<Rightarrow> string list \<Rightarrow> bool \<Rightarrow> (string \<times> string) list" where
  "project e names typesOnly =
     sortPairs (concat (map (\<lambda>(name, vals).
        if wantsAttr e names name then (if typesOnly then [(name, [])] else map (Pair name) vals) else [])
       (e_Attrs e)))"

subsection \<open>The in-chain rule is reachability\<close>

definition chainEdges :: "(string \<times> Entry) list \<Rightarrow> string \<Rightarrow> (string \<times> string) set" where
  "chainEdges byDN attr = {(k, normalizeDN n) | k cur n. k \<noteq> [] \<and> map_of byDN k = Some cur \<and> n \<in> set (chainNext attr cur)}"

lemma chainEdges_iff:
  "(k, j) \<in> chainEdges byDN attr \<longleftrightarrow>
     k \<noteq> [] \<and> (\<exists>cur n. map_of byDN k = Some cur \<and> n \<in> set (chainNext attr cur) \<and> j = normalizeDN n)"
  by (auto simp: chainEdges_def)

lemma chain_sound:
  "fst (chainWalk byDN attr want dn seen) \<Longrightarrow> (normalizeDN dn, want) \<in> (chainEdges byDN attr)\<^sup>+"
  "fst (chainLoop byDN attr want ns seen) \<Longrightarrow> \<exists>n \<in> set ns. (normalizeDN n, want) \<in> (chainEdges byDN attr)\<^sup>*"
proof (induction byDN attr want dn seen and byDN attr want ns seen rule: chainWalk_chainLoop.induct)
  case (1 byDN attr want dn seen)
  let ?k = "normalizeDN dn"
  from 1(2) obtain cur where cur: "?k \<noteq> []" "?k \<notin> set seen" "map_of byDN ?k = Some cur"
      "fst (chainLoop byDN attr want (chainNext attr cur) (?k # seen))"
    by (auto simp: chainWalk.simps Let_def split: if_splits option.splits)
  with 1(1) obtain n where "n \<in> set (chainNext attr cur)" "(normalizeDN n, want) \<in> (chainEdges byDN attr)\<^sup>*"
    by blast
  moreover from this cur have "(?k, normalizeDN n) \<in> chainEdges byDN attr" by (auto simp: chainEdges_iff)
  ultimately show ?case by (metis rtrancl_into_trancl2)
next
  case (3 byDN attr want n ns seen)
  then show ?case by (auto split: if_splits prod.splits simp: trancl_into_rtrancl)
qed simp

text \<open>What an unsuccessful walk leaves marked is closed under the edges and does not contain the goal.\<close>

definition chainClosed :: "(string \<times> Entry) list \<Rightarrow> string \<Rightarrow> string \<Rightarrow> string set \<Rightarrow> string set \<Rightarrow> bool" where
  "chainClosed byDN attr want new seen \<longleftrightarrow>
     (\<forall>k \<in> new. \<forall>j. (k, j) \<in> chainEdges byDN attr \<longrightarrow> j \<noteq> want \<and> (j = [] \<or> j \<in> seen))"

lemma chainClosed_union:
  "chainClosed byDN attr want new1 seen1 \<Longrightarrow> chainClosed byDN attr want new2 seen \<Longrightarrow> seen1 \<subseteq> seen \<Longrightarrow>
     new \<subseteq> new1 \<union> new2 \<Longrightarrow> chainClosed byDN attr want new seen"
  unfolding chainClosed_def by blast

lemma chain_seen_mono:
  "set seen \<subseteq> set (snd (chainWalk byDN attr want dn seen))"
  "set seen \<subseteq> set (snd (chainLoop byDN attr want ns seen))"
proof (induction byDN attr want dn seen and byDN attr want ns seen rule: chainWalk_chainLoop.induct)
  case (1 byDN attr want dn seen)
  then show ?case by (auto simp: chainWalk.simps Let_def split: option.splits)
next
  case (3 byDN attr want n ns seen)
  obtain h s1 where "chainWalk byDN attr want n seen = (h, s1)" by fastforce
  with 3 show ?case by auto
qed simp

lemma chain_complete:
  "chainWalk byDN attr want dn seen = (False, seen') \<Longrightarrow>
     (normalizeDN dn = [] \<or> normalizeDN dn \<in> set seen') \<and> chainClosed byDN attr want (set seen' - set seen) (set seen')"
  "chainLoop byDN attr want ns seen = (False, seen') \<Longrightarrow>
     (\<forall>n \<in> set ns. normalizeDN n \<noteq> want \<and> (normalizeDN n = [] \<or> normalizeDN n \<in> set seen')) \<and>
     chainClosed byDN attr want (set seen' - set seen) (set seen')"
proof (induction byDN attr want dn seen and byDN attr want ns seen arbitrary: seen' and seen' rule: chainWalk_chainLoop.induct)
  case (1 byDN attr want dn seen)
  let ?k = "normalizeDN dn"
  consider "?k = [] \<or> ?k \<in> set seen" | "?k \<noteq> []" "?k \<notin> set seen" "map_of byDN ?k = None"
    | cur where "?k \<noteq> []" "?k \<notin> set seen" "map_of byDN ?k = Some cur" by fastforce
  then show ?case
  proof cases
    case 1
    then show ?thesis using \<open>chainWalk byDN attr want dn seen = _\<close> by (auto simp: chainWalk.simps chainClosed_def)
  next
    case 2
    then show ?thesis using \<open>chainWalk byDN attr want dn seen = _\<close>
      by (auto simp: chainWalk.simps chainClosed_def chainEdges_iff)
  next
    case 3
    then have loop: "chainLoop byDN attr want (chainNext attr cur) (?k # seen) = (False, seen')"
      using \<open>chainWalk byDN attr want dn seen = _\<close> by (simp add: chainWalk.simps Let_def)
    then have "set (?k # seen) \<subseteq> set seen'" using chain_seen_mono(2)[of "?k # seen"] by (metis snd_conv)
    moreover from 3 1(1)[OF refl _ 3(3) loop]
    have kids: "\<forall>n \<in> set (chainNext attr cur). normalizeDN n \<noteq> want \<and> (normalizeDN n = [] \<or> normalizeDN n \<in> set seen')"
      and cl: "chainClosed byDN attr want (set seen' - set (?k # seen)) (set seen')" by simp_all
    moreover have "chainClosed byDN attr want {?k} (set seen')"
      using kids 3(3) by (auto simp: chainClosed_def chainEdges_iff)
    ultimately show ?thesis
      using chainClosed_union[of byDN attr want "{?k}" "set seen'", OF _ cl, of "set seen' - set seen"] by auto
  qed
next
  case (2 byDN attr want seen)
  then show ?case by (simp add: chainClosed_def)
next
  case (3 byDN attr want n ns seen)
  obtain seen1 where s1: "normalizeDN n \<noteq> want" "chainWalk byDN attr want n seen = (False, seen1)"
      "chainLoop byDN attr want ns seen1 = (False, seen')"
    using 3(3) by (auto split: if_splits prod.splits)
  have "set seen1 \<subseteq> set seen'" using chain_seen_mono(2)[of seen1 byDN attr want ns] s1 by simp
  moreover have walk: "normalizeDN n = [] \<or> normalizeDN n \<in> set seen1" "chainClosed byDN attr want (set seen1 - set seen) (set seen1)"
    using 3(1)[OF s1(1,2)] by simp_all
  moreover have loop: "\<forall>n \<in> set ns. normalizeDN n \<noteq> want \<and> (normalizeDN n = [] \<or> normalizeDN n \<in> set seen')"
      "chainClosed byDN attr want (set seen' - set seen1) (set seen')"
    using 3(2)[OF s1(1) s1(2)[symmetric] _ s1(3)] by simp_all
  ultimately show ?case using s1(1) chainClosed_union[OF walk(2) loop(2), of "set seen' - set seen"] by auto
qed

text \<open>
  C18: The Active Directory in-chain rule: an entry matches (member:in-chain:=dn) or (memberOf:in-chain:=dn)
  exactly when dn is reachable from it over one or more direct edges. The walk ends on cyclic groups too.
\<close>

theorem inChain_reachable:
  "inChain d e attr val \<longleftrightarrow>
     ToLower attr \<in> {''member'', ''memberof''} \<and> normalizeDN val \<noteq> [] \<and>
     (normalizeDN (e_DN e), normalizeDN val) \<in> (chainEdges (d_byDN d) (ToLower attr))\<^sup>+"
proof -
  let ?a = "ToLower attr" and ?w = "normalizeDN val" and ?s = "normalizeDN (e_DN e)"
  let ?E = "chainEdges (d_byDN d) ?a"
  obtain hit seen where walk: "chainWalk (d_byDN d) ?a ?w (e_DN e) [] = (hit, seen)" by fastforce
  have "hit \<longleftrightarrow> (?s, ?w) \<in> ?E\<^sup>+" if "?w \<noteq> []"
  proof
    assume hit
    then show "(?s, ?w) \<in> ?E\<^sup>+" using chain_sound(1)[of "d_byDN d" ?a ?w "e_DN e" "[]"] walk by simp
  next
    assume reach: "(?s, ?w) \<in> ?E\<^sup>+"
    show hit
    proof (rule ccontr)
      assume "\<not> hit"
      with walk have cl: "?s = [] \<or> ?s \<in> set seen" "chainClosed (d_byDN d) ?a ?w (set seen) (set seen)"
        using chain_complete(1)[of "d_byDN d" ?a ?w "e_DN e" "[]" seen] by simp_all
      have "j = [] \<or> j \<in> set seen" if "(?s, j) \<in> ?E\<^sup>*" for j
        using that by (induction rule: rtrancl_induct) (use cl in \<open>auto simp: chainClosed_def chainEdges_iff\<close>)
      moreover obtain k where "(?s, k) \<in> ?E\<^sup>*" "(k, ?w) \<in> ?E" using reach by (meson tranclD2)
      moreover from this(2) have "k \<noteq> []" by (simp add: chainEdges_iff)
      ultimately show False using cl(2) unfolding chainClosed_def by blast
    qed
  qed
  with walk show ?thesis by (auto simp: inChain_def Let_def)
qed

subsection \<open>Substring filters\<close>

text \<open>
  What a substring pattern means: the initial part at the front, the parts in order and apart, the final part
  at the end.
\<close>

fun subMatches :: "substr list \<Rightarrow> string \<Rightarrow> bool" where
  "subMatches [] v = True"
| "subMatches (s # ss) v =
     (case sub_kind s of
        subInitial \<Rightarrow> (\<exists>r. v = ToLower (sub_val s) @ r \<and> subMatches ss r)
      | subFinal \<Rightarrow> (\<exists>g. v = g @ ToLower (sub_val s))
      | subAny \<Rightarrow> (\<exists>g r. v = g @ ToLower (sub_val s) @ r \<and> subMatches ss r))"

lemma subMatches_prepend:
  "subMatches ss r \<Longrightarrow> \<forall>s \<in> set ss. sub_kind s \<noteq> subInitial \<Longrightarrow> subMatches ss (g @ r)"
proof (cases ss)
  case (Cons s ss')
  assume "subMatches ss r" "\<forall>s \<in> set ss. sub_kind s \<noteq> subInitial"
  with Cons show ?thesis
    by (cases "sub_kind s") (auto, metis append.assoc)
qed simp

lemma Index_leftmost:
  assumes "v = g @ p @ r"
  shows "\<exists>i. Index v p = Some i \<and> i \<le> length g"
proof -
  have "\<exists>i. Index (g @ p @ r) p = Some i \<and> i \<le> length g"
  proof (induction g)
    case Nil
    have "HasPrefix (p @ r) p" by (auto simp: HasPrefix_iff)
    then show ?case by (cases "p @ r") auto
  qed auto
  with assms show ?thesis by simp
qed

lemma matchSub_any: 
  assumes "\<forall>s \<in> set ss. sub_kind s \<noteq> subInitial" and ih: "\<And>r. matchSub r ss \<longleftrightarrow> subMatches ss r"
  shows "(case Index v p of None \<Rightarrow> False | Some i \<Rightarrow> matchSub (drop (i + length p) v) ss) \<longleftrightarrow>
    (\<exists>g r. v = g @ p @ r \<and> subMatches ss r)"
proof
  assume "case Index v p of None \<Rightarrow> False | Some i \<Rightarrow> matchSub (drop (i + length p) v) ss"
  then obtain i where "Index v p = Some i" "subMatches ss (drop (i + length p) v)" by (auto simp: ih split: option.splits)
  with Index_Some[of v p i] show "\<exists>g r. v = g @ p @ r \<and> subMatches ss r" by blast
next
  assume "\<exists>g r. v = g @ p @ r \<and> subMatches ss r"
  then obtain g r where v: "v = g @ p @ r" "subMatches ss r" by blast
  then obtain i where i: "Index v p = Some i" "i \<le> length g" using Index_leftmost by blast
  have "r = drop (length g - i) (drop (i + length p) v)" using i(2) v(1) by (simp add: add.commute)
  then have "drop (i + length p) v = take (length g - i) (drop (i + length p) v) @ r" by (metis append_take_drop_id)
  then have "subMatches ss (drop (i + length p) v)" using subMatches_prepend[OF v(2) assms(1)] by metis
  with i show "case Index v p of None \<Rightarrow> False | Some i \<Rightarrow> matchSub (drop (i + length p) v) ss" by (simp add: ih)
qed

lemma matchSub_no_initial:
  "\<forall>s \<in> set ss. sub_kind s \<noteq> subInitial \<Longrightarrow> matchSub v ss \<longleftrightarrow> subMatches ss v"
proof (induction ss arbitrary: v)
  case (Cons s ss)
  show ?case
  proof (cases "sub_kind s")
    case subAny
    have ss: "\<forall>s \<in> set ss. sub_kind s \<noteq> subInitial" using Cons.prems by simp
    from subAny show ?thesis using matchSub_any[OF ss Cons.IH[OF ss], where v = v] by (simp add: Let_def)
  qed (use Cons.prems in \<open>auto simp: Let_def HasSuffix_iff\<close>)
qed simp

text \<open>
  C27: A substring filter with its initial part first matches exactly the values that can be cut into the
  initial part, the middle parts in order and the final part; taking each middle part at its first
  occurrence never misses a match.
\<close>

theorem matchSub_complete:
  assumes "\<forall>s \<in> set (tl subs). sub_kind s \<noteq> subInitial"
  shows "matchSub v subs \<longleftrightarrow> subMatches subs v"
proof (cases subs)
  case (Cons s ss)
  with assms have "\<forall>s \<in> set ss. sub_kind s \<noteq> subInitial" by simp
  note ih = matchSub_no_initial[OF this]
  show ?thesis
  proof (cases "sub_kind s")
    case subInitial
    have "HasPrefix v p \<and> subMatches ss (drop (length p) v) \<longleftrightarrow> (\<exists>r. v = p @ r \<and> subMatches ss r)" for p
      by (auto simp: HasPrefix_iff)
    with subInitial Cons show ?thesis by (simp add: Let_def ih)
  qed (use Cons assms matchSub_no_initial[of subs v] in auto)
qed simp

theorem matchSub_complete_witness:
  "matchSub ''banana'' [\<lparr>sub_kind = subInitial, sub_val = ''b''\<rparr>, \<lparr>sub_kind = subAny, sub_val = ''An''\<rparr>, \<lparr>sub_kind = subFinal, sub_val = ''a''\<rparr>]
   \<longleftrightarrow> subMatches [\<lparr>sub_kind = subInitial, sub_val = ''b''\<rparr>, \<lparr>sub_kind = subAny, sub_val = ''An''\<rparr>, \<lparr>sub_kind = subFinal, sub_val = ''a''\<rparr>] ''banana''"
  by (rule matchSub_complete) simp

subsection \<open>Projection\<close>

lemma str_less_irrefl: "\<not> str_less s s"
  by (induction s) auto

lemma str_less_trans: "str_less a b \<Longrightarrow> str_less b c \<Longrightarrow> str_less a c"
proof (induction a b arbitrary: c rule: str_less.induct)
  case (3 x s y t)
  then show ?case by (cases c) (auto split: if_splits)
next
  case (2 d t)
  then show ?case by (cases c) auto
qed simp

lemma str_less_total: "a \<noteq> b \<Longrightarrow> str_less a b \<or> str_less b a"
proof (induction a b rule: str_less.induct)
  case (3 c s d t)
  have "c = d \<or> (of_char c :: nat) < of_char d \<or> (of_char d :: nat) < of_char c" by (metis char_of_char nat_neq_iff)
  with 3 show ?case by auto
next
  case (1 s)
  then show ?case by (cases s) auto
qed simp

lemma pairLess_order:
  "\<not> pairLess a a" "pairLess a b \<Longrightarrow> pairLess b c \<Longrightarrow> pairLess a c" "a \<noteq> b \<Longrightarrow> pairLess a b \<or> pairLess b a"
  by (auto simp: pairLess_def str_less_irrefl intro: str_less_trans)
    (metis prod_eq_iff str_less_total)+

text \<open>An insertion sort over a strict linear order: a locale, for \<open>sortUints\<close> and \<open>sortPairs\<close> alike.\<close>

locale insertion_order =
  fixes lt :: "'a \<Rightarrow> 'a \<Rightarrow> bool"
  assumes irrefl: "\<not> lt a a"
    and trans: "lt a b \<Longrightarrow> lt b c \<Longrightarrow> lt a c"
    and total: "a \<noteq> b \<Longrightarrow> lt a b \<or> lt b a"
begin

abbreviation sorted_lt :: "'a list \<Rightarrow> bool" where
  "sorted_lt \<equiv> sorted_wrt (\<lambda>a b. \<not> lt b a)"

lemma not_lt_trans: "\<not> lt b a \<Longrightarrow> \<not> lt c b \<Longrightarrow> \<not> lt c a"
  by (metis trans total)

lemma mset_moveLeft: "mset (moveLeft lt x s) = add_mset x (mset s)"
  unfolding moveLeft_def
  by (metis (no_types) add_mset_add_single mset.simps(2) mset_append mset_rev takeWhile_dropWhile_id union_commute union_assoc)

lemma sorted_moveLeft: "sorted_lt s \<Longrightarrow> sorted_lt (moveLeft lt x s)"
proof (induction s rule: rev_induct)
  case (snoc y s)
  show ?case
  proof (cases "lt x y")
    case True
    then have eq: "moveLeft lt x (s @ [y]) = moveLeft lt x s @ [y]" by (simp add: moveLeft_def)
    have "\<forall>z \<in> set (moveLeft lt x s). \<not> lt y z"
      using snoc.prems True mset_moveLeft[of x s] irrefl trans
      by (auto simp: sorted_wrt_append simp flip: set_mset_mset)
    with eq snoc show ?thesis by (simp add: sorted_wrt_append)
  next
    case False
    then have "moveLeft lt x (s @ [y]) = s @ [y, x]" by (simp add: moveLeft_def)
    moreover have "\<not> lt x z" if "z \<in> set s" for z
      using that False snoc.prems not_lt_trans by (auto simp: sorted_wrt_append)
    ultimately show ?thesis using snoc.prems False by (auto simp: sorted_wrt_append)
  qed
qed (simp add: moveLeft_def)

lemma sorted_fold: "sorted_lt acc \<Longrightarrow> sorted_lt (fold (moveLeft lt) s acc)"
  by (induction s arbitrary: acc) (simp_all add: sorted_moveLeft)

lemma mset_fold: "mset (fold (moveLeft lt) s acc) = mset s + mset acc"
  by (induction s arbitrary: acc) (simp_all add: mset_moveLeft)

lemma insertionSort_sorts: "sorted_lt (insertionSort lt s)" "mset (insertionSort lt s) = mset s"
  unfolding insertionSort_def by (simp_all add: sorted_fold mset_fold)

lemma sorted_unique: "sorted_lt s \<Longrightarrow> sorted_lt t \<Longrightarrow> mset s = mset t \<Longrightarrow> s = t"
proof (induction s arbitrary: t)
  case (Cons x s)
  then obtain y t' where t: "t = y # t'" by (cases t) auto
  have "x \<in> set t" "y \<in> set (x # s)" using Cons.prems t by (metis list.set_intros(1) set_mset_mset)+
  then have "x = y" using Cons.prems t total by fastforce
  with Cons t show ?case by simp
qed simp

lemma insertionSort_unique: "mset s = mset t \<Longrightarrow> insertionSort lt s = insertionSort lt t"
  by (rule sorted_unique) (simp_all add: insertionSort_sorts)

end

interpretation uints: insertion_order "(<) :: nat \<Rightarrow> nat \<Rightarrow> bool"
  by unfold_locales auto

interpretation pairs: insertion_order pairLess
  by unfold_locales (fact pairLess_order)+

lemma mset_concat_map: "mset (concat (map f xs)) = (\<Sum>x \<in># mset xs. mset (f x))"
  by (induction xs) auto

text \<open>
  The attributes sent for an entry do not depend on the order in which Go's map is walked: two entries
  that differ only in that order give the same answer, and its pairs are in byte order of name and value, so
  that each attribute is one run for the encoder.
\<close>

theorem project_deterministic:
  assumes "mset (e_Attrs e) = mset (e_Attrs e')" and "e_operational e = e_operational e'"
  shows "project e names typesOnly = project e' names typesOnly \<and>
    sorted_wrt (\<lambda>a b. \<not> pairLess b a) (project e names typesOnly)"
proof -
  have "mset (concat (map f (e_Attrs e))) = mset (concat (map f (e_Attrs e')))" for f :: "string \<times> string list \<Rightarrow> (string \<times> string) list"
    using assms(1) by (simp add: mset_concat_map)
  moreover have "wantsAttr e names = wantsAttr e' names" using assms(2) by (simp add: wantsAttr_def fun_eq_iff)
  ultimately show ?thesis
    unfolding project_def sortPairs_def by (auto intro!: pairs.insertionSort_unique simp: pairs.insertionSort_sorts(1))
qed

theorem project_deterministic_witness:
  "project (plainEntry ''dc=x'' [(''dc'', [''x'']), (''o'', [''y''])]) [] False =
   project (plainEntry ''dc=x'' [(''o'', [''y'']), (''dc'', [''x''])]) [] False"
  using project_deterministic[of "plainEntry ''dc=x'' [(''dc'', [''x'']), (''o'', [''y''])]"
      "plainEntry ''dc=x'' [(''o'', [''y'']), (''dc'', [''x''])]" "[]" False]
  by (simp add: plainEntry_def)

end
