(* ===== verification/Ldap_Server.thy ===== *)
theory Ldap_Server
  imports Ldap_Search
begin

text \<open>
  The LDAP server of \<open>internal/ldapsrv/server.go\<close>: the snapshot a worker stores and serves, the swap of
  snapshots, and the dispatch of requests on a connection. \<open>bcrypt\<close> and the decoding of the snapshot's JSON are
  parameters. Sockets, TLS and timers are not modelled: a connection is the sequence of the messages read from it,
  each with the directory that is current when it is served.

  Lemmas: who may see what on a connection; the answer to a search; a directory served from its snapshot
  answers as the original.
\<close>

subsection \<open>Snapshots\<close>

record WireEntry =
  w_DN :: string
  w_Attributes :: "(string \<times> string list) list"
  w_Password :: string
  w_Members :: "string list"
  w_MemberOf :: "string list"

record Config =
  c_Enabled :: bool
  c_Listen :: string
  c_TLSListen :: string
  c_TLSCertificate :: string
  c_TLSDomain :: string
  c_BaseDN :: string
  c_BindDN :: string
  c_BindPassword :: string
  c_Entries :: "WireEntry list"

definition Snapshot :: "Directory \<Rightarrow> bool \<Rightarrow> string \<Rightarrow> string \<Rightarrow> string \<Rightarrow> Config" where
  "Snapshot d enabled listen tlsListen bindPassword =
     \<lparr>c_Enabled = enabled, c_Listen = listen, c_TLSListen = tlsListen, c_TLSCertificate = [], c_TLSDomain = [],
      c_BaseDN = d_BaseDN d, c_BindDN = d_BindDN d, c_BindPassword = bindPassword,
      c_Entries = map (\<lambda>e. \<lparr>w_DN = e_DN e, w_Attributes = e_Attrs e, w_Password = e_Password e,
        w_Members = e_DirectMembers e, w_MemberOf = e_DirectMemberOf e\<rparr>) (d_entries d)\<rparr>"

definition wireEntry :: "WireEntry \<Rightarrow> Entry" where
  "wireEntry w = \<lparr>e_DN = w_DN w, e_Attrs = fold (\<lambda>(k, v). AList.update (ToLower k) v) (w_Attributes w) [],
     e_Password = w_Password w, e_DirectMembers = w_Members w, e_DirectMemberOf = w_MemberOf w,
     e_operational = [''memberof'']\<rparr>"

definition configDirectory :: "Config \<Rightarrow> Directory" where
  "configDirectory c =
     (let base = (if TrimSpace (c_BaseDN c) = [] then DefaultBaseDN else TrimSpace (c_BaseDN c));
          bindDN = (if c_BindDN c = [] then ServiceBindDN base else c_BindDN c);
          d = fold (\<lambda>w d. if TrimSpace (w_DN w) = [] then d else addEntry (wireEntry w) d) (c_Entries c)
                (emptyDirectory base bindDN (c_BindPassword c))
      in if map_of (d_byDN d) (normalizeDN base) = None then addEntry (baseEntry base) d else d)"

text \<open>The state of the server and the swap of a snapshot.\<close>

definition DefaultListen :: string where "DefaultListen = '':389''"

record Server =
  s_dir :: "Directory option"
  s_cfg :: "Config option"
  s_last :: "bytes"

definition ValidateListen :: "string \<Rightarrow> bool" where
  "ValidateListen s = (TrimSpace s = [] \<or> SplitHostPort (TrimSpace s) \<noteq> None)"

definition applyConfig :: "Config \<Rightarrow> bytes \<Rightarrow> Server \<Rightarrow> Server" where
  "applyConfig cfg body s =
     (let cfg' = (if TrimSpace (c_Listen cfg) = [] then cfg\<lparr>c_Listen := DefaultListen\<rparr> else cfg)
      in s\<lparr>s_cfg := Some cfg', s_dir := Some (configDirectory cfg'), s_last := body\<rparr>)"

definition refresh :: "(bytes \<Rightarrow> Config option) \<Rightarrow> bytes option \<Rightarrow> Server \<Rightarrow> Server" where
  "refresh unmarshal fetched s =
     (case fetched of
        None \<Rightarrow> s
      | Some body \<Rightarrow>
          if body = s_last s then s
          else (case unmarshal body of
              None \<Rightarrow> s
            | Some cfg \<Rightarrow>
                if \<not> ValidateListen (c_Listen cfg) \<or> \<not> ValidateListen (c_TLSListen cfg) then s
                else applyConfig cfg body s))"

definition loadCache :: "(bytes \<Rightarrow> Config option) \<Rightarrow> bytes option \<Rightarrow> Server \<Rightarrow> Server" where
  "loadCache unmarshal file s =
     (case file of
        None \<Rightarrow> s
      | Some b \<Rightarrow> (case unmarshal b of None \<Rightarrow> s | Some cfg \<Rightarrow> applyConfig cfg b s))"

text \<open>\<open>Port\<close> adds up in an \<open>int\<close> of 64 bits.\<close>

definition portValue :: "string \<Rightarrow> 64 word option" where
  "portValue p = fold (\<lambda>c acc. case acc of None \<Rightarrow> None
     | Some n \<Rightarrow> map_option (\<lambda>v. n * 10 + of_nat v) (digit_val c)) p (Some 0)"

definition Port :: "string \<Rightarrow> nat" where
  "Port listen =
     (case SplitHostPort (TrimSpace listen) of
        None \<Rightarrow> 0
      | Some (_, p) \<Rightarrow>
          (case portValue p of
             None \<Rightarrow> 0
           | Some n \<Rightarrow> if sint n \<le> 0 \<or> sint n > 65535 then 0 else nat (sint n)))"

subsection \<open>Requests\<close>

definition codeSuccess :: "64 word" where "codeSuccess = 0"
definition codeProtocolError :: "64 word" where "codeProtocolError = 2"
definition codeSizeLimit :: "64 word" where "codeSizeLimit = 4"
definition codeAuthMethodNotSupported :: "64 word" where "codeAuthMethodNotSupported = 7"
definition codeUnavailableCritical :: "64 word" where "codeUnavailableCritical = 12"
definition codeNoSuchObject :: "64 word" where "codeNoSuchObject = 32"
definition codeInvalidCredentials :: "64 word" where "codeInvalidCredentials = 49"
definition codeInsufficientAccess :: "64 word" where "codeInsufficientAccess = 50"
definition codeUnwillingToPerform :: "64 word" where "codeUnwillingToPerform = 53"

record bindState =
  st_ok :: bool
  st_anon :: bool

definition opResultTag :: "nat \<Rightarrow> nat" where
  "opResultTag t = (if t \<in> {0, 6, 8, 10, 12, 14, 23} then t + 1 else 1)"

definition opControlCritical :: "ber \<Rightarrow> bool" where
  "opControlCritical el =
     (cls el = 2 \<and> tag el = 0 \<and>
      list_ex (\<lambda>c. list_ex (\<lambda>f. cls f = 0 \<and> tag f = 1 \<and> boolean f) (kids c)) (kids el))"

text \<open>\<open>bcryptOk hash password\<close> stands for \<^verbatim>\<open>bcrypt.CompareHashAndPassword\<close> without error.\<close>

definition doBind :: "(string \<Rightarrow> string \<Rightarrow> bool) \<Rightarrow> Directory \<Rightarrow> bindState \<Rightarrow> ber \<Rightarrow> bytes \<times> bindState" where
  "doBind bcryptOk d st op =
     (if length (kids op) < 3 then (encodeResult 1 codeProtocolError ''bad bind'', st)
      else case integer (kids op ! 0) of
        Inl _ \<Rightarrow> (encodeResult 1 codeProtocolError ''LDAP version 3 required'', st)
      | Inr ver \<Rightarrow>
          if ver \<noteq> 3 then (encodeResult 1 codeProtocolError ''LDAP version 3 required'', st)
          else let dn = TrimSpace (text_of (kids op ! 1)); auth = kids op ! 2
          in if cls auth \<noteq> 2 \<or> tag auth \<noteq> 0 \<or> cons auth
             then (encodeResult 1 codeAuthMethodNotSupported ''simple bind only'', st)
          else let password = text_of auth; st0 = st\<lparr>st_ok := False, st_anon := False\<rparr>
          in if dn = [] \<and> password = [] then (encodeResult 1 codeSuccess [], st0\<lparr>st_ok := True, st_anon := True\<rparr>)
             else if password = [] then (encodeResult 1 codeInvalidCredentials [], st0)
             else if normalizeDN dn = normalizeDN (d_BindDN d) \<and> d_BindPassword d \<noteq> [] \<and> password = d_BindPassword d
             then (encodeResult 1 codeSuccess [], st0\<lparr>st_ok := True\<rparr>)
             else (case map_of (d_byDN d) (normalizeDN dn) of
                 None \<Rightarrow> (encodeResult 1 codeInvalidCredentials [], st0)
               | Some e \<Rightarrow>
                   if e_Password e = [] then (encodeResult 1 codeInvalidCredentials [], st0)
                   else if \<not> bcryptOk (e_Password e) password then (encodeResult 1 codeInvalidCredentials [], st0)
                   else (encodeResult 1 codeSuccess [], st0\<lparr>st_ok := True\<rparr>)))"

text \<open>The loop over the candidates: the encoded entries, and whether the size limit cut it.\<close>

fun searchLoop :: "Directory \<Rightarrow> 64 word \<Rightarrow> ldapFilter \<Rightarrow> string list \<Rightarrow> bool \<Rightarrow> int \<Rightarrow> int \<Rightarrow> Entry list \<Rightarrow> bytes list \<times> bool" where
  "searchLoop d i f attrs typesOnly limit n [] = ([], False)"
| "searchLoop d i f attrs typesOnly limit n (e # es) =
     (if \<not> matchFilter d e f then searchLoop d i f attrs typesOnly limit n es
      else if limit > 0 \<and> n \<ge> limit then ([], True)
      else let (out, truncated) = searchLoop d i f attrs typesOnly limit (n + 1) es
           in (encodeMessage i [encodeEntry (e_DN e) (project e attrs typesOnly)] # out, truncated))"

definition searchFail :: "64 word \<Rightarrow> 64 word \<Rightarrow> string \<Rightarrow> bytes list" where
  "searchFail i code msg = [encodeMessage i [encodeResult 5 code msg]]"

definition doSearch :: "Directory \<Rightarrow> bindState \<Rightarrow> 64 word \<Rightarrow> ber \<Rightarrow> bytes list" where
  "doSearch d st i op =
     (if \<not> st_ok st then searchFail i codeInsufficientAccess ''bind required''
      else if length (kids op) < 8 then searchFail i codeProtocolError ''bad search''
      else let base = text_of (kids op ! 0)
      in case integer (kids op ! 1) of Inl _ \<Rightarrow> searchFail i codeProtocolError ''bad scope''
      | Inr scope64 \<Rightarrow>
        (case integer (kids op ! 3) of Inl _ \<Rightarrow> searchFail i codeProtocolError ''bad size''
        | Inr size64 \<Rightarrow>
          (case parseFilter (kids op ! 6) of Inl _ \<Rightarrow> searchFail i codeProtocolError ''bad filter''
          | Inr f \<Rightarrow>
            let scope = sint scope64; typesOnly = boolean (kids op ! 5);
                attrs = map text_of (kids (kids op ! 7))
            in if st_anon st \<and> \<not> anonReadBase base scope
               then searchFail i codeInsufficientAccess ''anonymous search is limited to the root DSE and the subschema''
               else if scope < 0 \<or> scope > 2 then searchFail i codeProtocolError ''bad scope''
               else if \<not> hasBase d base then searchFail i codeNoSuchObject ''base not found''
               else let (out, truncated) = searchLoop d i f attrs typesOnly (sint size64) 0 (candidates d base scope)
                    in out @ [encodeMessage i [encodeResult 5 (if truncated then codeSizeLimit else codeSuccess) []]])))"

text \<open>The answer packets, whether the connection is done, and the state of the bind.\<close>

definition dispatch :: "(string \<Rightarrow> string \<Rightarrow> bool) \<Rightarrow> Directory \<Rightarrow> bindState \<Rightarrow> ber \<Rightarrow> (bytes list \<times> bool) \<times> bindState" where
  "dispatch bcryptOk d st msg =
     (if cls msg \<noteq> 0 \<or> tag msg \<noteq> 16 \<or> length (kids msg) < 2 then (([], True), st)
      else case integer (kids msg ! 0) of
        Inl _ \<Rightarrow> (([], True), st)
      | Inr i \<Rightarrow>
          let op = kids msg ! 1
          in if length (kids msg) \<ge> 3 \<and> opControlCritical (kids msg ! 2)
             then (([encodeMessage i [encodeResult (of_nat (opResultTag (tag op))) codeUnavailableCritical ''unsupported control'']], False), st)
             else if cls op \<noteq> 1
             then (([encodeMessage i [encodeResult 1 codeProtocolError ''bad operation'']], False), st)
             else if tag op = 0
             then (let (r, st') = doBind bcryptOk d st op in (([encodeMessage i [r]], False), st'))
             else if tag op = 2 then (([], True), st)
             else if tag op = 3 then ((doSearch d st i op, False), st)
             else if tag op = 16 then (([], False), st)
             else if tag op \<in> {6, 8, 10, 12, 14, 23}
             then (([encodeMessage i [encodeResult (of_nat (tag op + 1)) codeUnwillingToPerform ''read only'']], False), st)
             else (([encodeMessage i [encodeResult 1 codeProtocolError ''unsupported'']], False), st))"

text \<open>
  A connection: the messages in order, each with the directory current at that moment, until the peer stops
  or the server ends it. The answers are those written, message by message.
\<close>

fun serveConn :: "(string \<Rightarrow> string \<Rightarrow> bool) \<Rightarrow> bindState \<Rightarrow> (Directory \<times> ber) list \<Rightarrow> bytes list list \<times> bindState" where
  "serveConn bcryptOk st [] = ([], st)"
| "serveConn bcryptOk st ((d, msg) # rest) =
     (let ((pkts, over), st') = dispatch bcryptOk d st msg
      in if over then ([pkts], st')
         else let (out, st'') = serveConn bcryptOk st' rest in (pkts # out, st''))"

definition newConn :: bindState where
  "newConn = \<lparr>st_ok = False, st_anon = False\<rparr>"

subsection \<open>The answer to a search\<close>

definition entryMessage :: "64 word \<Rightarrow> string list \<Rightarrow> bool \<Rightarrow> Entry \<Rightarrow> bytes" where
  "entryMessage i attrs typesOnly e = encodeMessage i [encodeEntry (e_DN e) (project e attrs typesOnly)]"

lemma searchLoop_eq:
  "0 \<le> n \<Longrightarrow> n \<le> limit \<or> limit \<le> 0 \<Longrightarrow>
   searchLoop d i f attrs typesOnly limit n es =
     (let ms = filter (\<lambda>e. matchFilter d e f) es; k = (if limit > 0 then nat (limit - n) else length ms)
      in (map (entryMessage i attrs typesOnly) (take k ms), length ms > k))"
proof (induction d i f attrs typesOnly limit n es rule: searchLoop.induct)
  case (2 d i f attrs typesOnly limit n e es)
  show ?case
  proof (cases "matchFilter d e f \<and> \<not> (limit > 0 \<and> n \<ge> limit)")
    case True
    then have "nat (limit - n) = Suc (nat (limit - (n + 1)))" if "limit > 0" using that by linarith
    with True 2 show ?thesis by (auto simp: Let_def entryMessage_def)
  qed (use 2 in \<open>auto simp: Let_def\<close>)
qed simp

text \<open>
  C19: A search that is allowed answers with exactly the candidates in scope that match the filter, in their
  order, cut at the client's size limit when there is one, and then one final result, which says that the limit
  was exceeded exactly when a matching entry was left out.
\<close>

theorem doSearch_answer:
  assumes "st_ok st" and "length (kids op) \<ge> 8" and "base = text_of (kids op ! 0)"
    and "integer (kids op ! 1) = Inr scope64" and "integer (kids op ! 3) = Inr size64"
    and "parseFilter (kids op ! 6) = Inr f" and "st_anon st \<Longrightarrow> anonReadBase base (sint scope64)"
    and "0 \<le> sint scope64" and "sint scope64 \<le> 2" and "hasBase d base"
    and "matches = filter (\<lambda>e. matchFilter d e f) (candidates d base (sint scope64))"
    and "k = (if sint size64 > 0 then nat (sint size64) else length matches)"
  shows "doSearch d st i op =
    map (entryMessage i (map text_of (kids (kids op ! 7))) (boolean (kids op ! 5))) (take k matches) @
      [encodeMessage i [encodeResult 5 (if length matches > k then codeSizeLimit else codeSuccess) []]]"
proof -
  have "searchLoop d i f attrs t (sint size64) 0 (candidates d base (sint scope64)) =
      (map (entryMessage i attrs t) (take k matches), length matches > k)" for attrs t
    using assms(11,12) by (subst searchLoop_eq) (auto simp: Let_def)
  with assms(1-10) show ?thesis by (auto simp: doSearch_def Let_def)
qed

definition exFind :: ber where
  "exFind = Ber 0 True 16 [] [Ber 0 False 2 [2] [], Ber 1 True 3 [] [Ber 0 False 4 [] [], Ber 0 False 10 [0] [],
     Ber 0 False 10 [0] [], Ber 0 False 2 [0] [], Ber 0 False 2 [0] [], Ber 0 False 1 [0] [],
     Ber 2 True 0 [] [], Ber 0 True 16 [] []]]"

theorem doSearch_answer_witness:
  "doSearch (emptyDirectory ''dc=x'' [] []) \<lparr>st_ok = True, st_anon = True\<rparr> 2 (kids exFind ! 1) =
     [entryMessage 2 [] False (rootDSE (emptyDirectory ''dc=x'' [] [])), encodeMessage 2 [encodeResult 5 codeSuccess []]]"
  using doSearch_answer[of "\<lparr>st_ok = True, st_anon = True\<rparr>" "kids exFind ! 1" "[]" 0 0 "Filter filtAnd [] [] [] [] []"
      "emptyDirectory ''dc=x'' [] []" "[rootDSE (emptyDirectory ''dc=x'' [] [])]" 1 2]
  by (simp add: exFind_def text_of_def integer_def boolean_def anonReadBase_def hasBase_def candidates_def normalizeDN_def
      normParts_def subschemaDN_def ToLower_def lower_char_def TrimSpace_def TrimLeft_def is_space_def consHead_def)

subsection \<open>Who may see the directory\<close>

definition validBind :: "(string \<Rightarrow> string \<Rightarrow> bool) \<Rightarrow> Directory \<Rightarrow> ber \<Rightarrow> bool" where
  "validBind bcryptOk d msg \<longleftrightarrow>
     (let op = kids msg ! 1; dn = TrimSpace (text_of (kids op ! 1)); password = text_of (kids op ! 2)
      in cls op = 1 \<and> tag op = 0 \<and> password \<noteq> [] \<and>
         (normalizeDN dn = normalizeDN (d_BindDN d) \<and> password = d_BindPassword d \<or>
          (\<exists>e. map_of (d_byDN d) (normalizeDN dn) = Some e \<and> e_Password e \<noteq> [] \<and> bcryptOk (e_Password e) password)))"

lemma doBind_state:
  assumes "doBind bcryptOk d st op = (r, st')" and "st_ok st'" and "\<not> st_anon st'" and "cls op = 1" "tag op = 0" "kids msg ! 1 = op"
  shows "st_ok st \<and> \<not> st_anon st \<or> validBind bcryptOk d msg"
  using assms by (auto simp: doBind_def validBind_def Let_def split: if_splits sum.splits option.splits)

lemma dispatch_state:
  assumes "dispatch bcryptOk d st msg = (r, st')" and "st_ok st'" and "\<not> st_anon st'"
  shows "st_ok st \<and> \<not> st_anon st \<or> validBind bcryptOk d msg"
  using assms doBind_state[of bcryptOk d st "kids msg ! 1" _ st' msg]
  by (auto simp: dispatch_def Let_def split: if_splits sum.splits prod.splits)

lemma serveConn_state:
  "serveConn bcryptOk st msgs = (outs, st') \<Longrightarrow> st_ok st' \<Longrightarrow> \<not> st_anon st' \<Longrightarrow>
     st_ok st \<and> \<not> st_anon st \<or> (\<exists>(d, msg) \<in> set msgs. validBind bcryptOk d msg)"
proof (induction msgs arbitrary: st outs)
  case (Cons dm rest)
  obtain d msg where dm: "dm = (d, msg)" by (cases dm)
  obtain pkts over st1 where disp: "dispatch bcryptOk d st msg = ((pkts, over), st1)" by (metis prod.collapse)
  have "st_ok st1 \<and> \<not> st_anon st1 \<or> (\<exists>(d, msg) \<in> set rest. validBind bcryptOk d msg)"
  proof (cases over)
    case False
    then obtain out where "serveConn bcryptOk st1 rest = (out, st')"
      using Cons.prems(1) disp dm by (auto split: prod.splits)
    then show ?thesis using Cons.IH Cons.prems by blast
  qed (use Cons disp dm in auto)
  then show ?case using dispatch_state[OF disp] dm by auto
qed simp

lemma anon_candidates: "anonReadBase base scope \<Longrightarrow> \<exists>e \<in> {rootDSE d, subschemaEntry}. candidates d base scope = [e]"
  by (auto simp: anonReadBase_def candidates_def)

lemma searchLoop_single:
  "length (fst (searchLoop d i f attrs t limit n [e])) \<ge> 1 \<Longrightarrow> fst (searchLoop d i f attrs t limit n [e]) = [entryMessage i attrs t e]"
  by (auto simp: entryMessage_def split: if_splits)

lemma doSearch_anonymous:
  assumes "st_anon st \<or> \<not> st_ok st" and "length (doSearch d st i op) \<ge> 2"
  shows "\<exists>e \<in> {rootDSE d, subschemaEntry}. \<exists>attrs t code. doSearch d st i op = [entryMessage i attrs t e, encodeMessage i [encodeResult 5 code []]]"
proof -
  let ?base = "text_of (kids op ! 0)" and ?attrs = "map text_of (kids (kids op ! 7))" and ?t = "boolean (kids op ! 5)"
  obtain scope size f where *: "anonReadBase ?base scope"
      "doSearch d st i op = (let (out, truncated) = searchLoop d i f ?attrs ?t size 0 (candidates d ?base scope)
         in out @ [encodeMessage i [encodeResult 5 (if truncated then codeSizeLimit else codeSuccess) []]])"
    using assms by (auto simp: doSearch_def Let_def searchFail_def split: if_splits sum.splits)
  obtain e where e: "e \<in> {rootDSE d, subschemaEntry}" "candidates d ?base scope = [e]" using anon_candidates[OF *(1)] by blast
  obtain out tr where loop: "searchLoop d i f ?attrs ?t size 0 [e] = (out, tr)" by fastforce
  have "length out \<ge> 1" using assms(2) *(2) e(2) loop by simp
  then have "out = [entryMessage i ?attrs ?t e]" using searchLoop_single[of d i f ?attrs ?t size 0 e] loop by simp
  with *(2) e loop show ?thesis by auto
qed

text \<open>
  C3: Nothing of the directory is shown without credentials: when a message on a connection is answered with
  an entry, then either an earlier message on the same connection bound with the service password or with a
  password that a published account's hash accepts, or the answer is the root DSE or the subschema alone.
\<close>

theorem entries_need_credentials:
  assumes "serveConn bcryptOk newConn before = (outs, st)"
    and "dispatch bcryptOk d st msg = ((pkts, over), st')" and "length pkts \<ge> 2"
  shows "(\<exists>(d0, m) \<in> set before. validBind bcryptOk d0 m) \<or>
    (\<exists>e \<in> {rootDSE d, subschemaEntry}. \<exists>i attrs t code. pkts = [entryMessage i attrs t e, encodeMessage i [encodeResult 5 code []]])"
proof (cases "st_ok st \<and> \<not> st_anon st")
  case True
  with serveConn_state[OF assms(1)] show ?thesis by (auto simp: newConn_def)
next
  case False
  from assms(2,3) obtain i where "pkts = doSearch d st i (kids msg ! 1)"
    by (auto simp: dispatch_def Let_def split: if_splits sum.splits prod.splits)
  with False assms(3) doSearch_anonymous[of st d i "kids msg ! 1"] show ?thesis by blast
qed

definition exBind :: ber where
  "exBind = Ber 0 True 16 [] [Ber 0 False 2 [1] [], Ber 1 True 0 [] [Ber 0 False 2 [3] [], Ber 0 False 4 [] [], Ber 2 False 0 [] []]]"

theorem entries_need_credentials_witness:
  "\<exists>outs st pkts. serveConn (\<lambda>_ _. False) newConn [(emptyDirectory ''dc=x'' [] [], exBind)] = (outs, st) \<and>
     dispatch (\<lambda>_ _. False) (emptyDirectory ''dc=x'' [] []) st exFind = ((pkts, False), st) \<and> length pkts = 2 \<and>
     (\<exists>e \<in> {rootDSE (emptyDirectory ''dc=x'' [] []), subschemaEntry}. \<exists>i attrs t code.
        pkts = [entryMessage i attrs t e, encodeMessage i [encodeResult 5 code []]])"
proof -
  let ?d = "emptyDirectory ''dc=x'' [] []" and ?st = "\<lparr>st_ok = True, st_anon = True\<rparr>"
  have bind: "serveConn (\<lambda>_ _. False) newConn [(?d, exBind)] = ([[encodeMessage 1 [encodeResult 1 codeSuccess []]]], ?st)"
    by (simp add: exBind_def newConn_def dispatch_def doBind_def integer_def text_of_def)
  obtain pkts where find: "dispatch (\<lambda>_ _. False) ?d ?st exFind = ((pkts, False), ?st)" "length pkts = 2"
    by (simp add: exFind_def dispatch_def doSearch_def integer_def text_of_def anonReadBase_def hasBase_def candidates_def
        normalizeDN_def normParts_def subschemaDN_def ToLower_def lower_char_def TrimSpace_def TrimLeft_def is_space_def consHead_def)
  have "\<not> validBind (\<lambda>_ _. False) ?d exBind" by (simp add: validBind_def exBind_def text_of_def)
  with entries_need_credentials[OF bind find(1)] find(2)
  have "\<exists>e \<in> {rootDSE ?d, subschemaEntry}. \<exists>i attrs t code. pkts = [entryMessage i attrs t e, encodeMessage i [encodeResult 5 code []]]"
    by simp
  with bind find show ?thesis by blast
qed

subsection \<open>Answers do not depend on the operational marks of absent attributes\<close>

text \<open>\<open>marked e\<close> is the entry as a worker rebuilds it; \<open>markable\<close> says that this changes no answer.\<close>

definition marked :: "Entry \<Rightarrow> Entry" where
  "marked e = e\<lparr>e_operational := [''memberof'']\<rparr>"

definition markable :: "Entry \<Rightarrow> bool" where
  "markable e \<longleftrightarrow> TrimSpace (e_DN e) \<noteq> [] \<and> distinct (map fst (e_Attrs e)) \<and>
     (\<forall>k \<in> fst ` set (e_Attrs e). ToLower k = k \<and> (k \<in> set (e_operational e) \<longleftrightarrow> k = ''memberof''))"

lemma marked_simps [simp]:
  "e_DN (marked e) = e_DN e" "e_Attrs (marked e) = e_Attrs e" "e_Password (marked e) = e_Password e"
  "e_DirectMembers (marked e) = e_DirectMembers e" "e_DirectMemberOf (marked e) = e_DirectMemberOf e"
  "e_operational (marked e) = [''memberof'']" "chainNext attr (marked e) = chainNext attr e"
  "attrVals (marked e) = attrVals e"
  by (simp_all add: marked_def chainNext_def attrVals_def fun_eq_iff)

lemma project_marked: "markable e \<Longrightarrow> project (marked e) names t = project e names t"
proof -
  assume "markable e"
  then have "wantsAttr (marked e) names k = wantsAttr e names k" if "(k, vs) \<in> set (e_Attrs e)" for k vs
    using that by (force simp: markable_def wantsAttr_def Let_def)
  then show ?thesis by (auto simp: project_def split: prod.splits intro!: arg_cong[where f = sortPairs] arg_cong[where f = concat])
qed

definition markedIndex :: "(string \<times> Entry) list \<Rightarrow> (string \<times> Entry) list" where
  "markedIndex byDN = map (\<lambda>(k, e). (k, marked e)) byDN"

lemma map_of_markedIndex: "map_of (markedIndex byDN) k = map_option marked (map_of byDN k)"
  by (induction byDN) (auto simp: markedIndex_def)

lemma chain_marked:
  "chainWalk (markedIndex byDN) attr want dn seen = chainWalk byDN attr want dn seen"
  "chainLoop (markedIndex byDN) attr want ns seen = chainLoop byDN attr want ns seen"
proof (induction byDN attr want dn seen and byDN attr want ns seen rule: chainWalk_chainLoop.induct)
  case (1 byDN attr want dn seen)
  then show ?case
    by (auto simp: chainWalk.simps[of _ attr want dn seen] Let_def map_of_markedIndex split: option.splits)
qed (auto split: prod.splits)

definition markedDir :: "Directory \<Rightarrow> Directory" where
  "markedDir d = d\<lparr>d_entries := map marked (d_entries d), d_byDN := markedIndex (d_byDN d)\<rparr>"

lemma matchFilter_marked:
  "matchFilter d (marked e) f = matchFilter d e f" "matchFilter (markedDir d) e f = matchFilter d e f"
proof -
  have chain: "inChain (markedDir d) e a v = inChain d e a v" "inChain d (marked e) a v = inChain d e a v" for e a v
    by (simp_all add: inChain_def markedDir_def chain_marked)
  have attrs: "eqAttr (marked e) a v = eqAttr e a v" "cmpAttr (marked e) a v g = cmpAttr e a v g" "subAttr (marked e) a subs = subAttr e a subs" for e a v g subs
    by (simp_all add: eqAttr_def cmpAttr_def subAttr_def)
  show "matchFilter d (marked e) f = matchFilter d e f"
    by (induction f) (auto simp: list_all_iff list_ex_iff chain attrs split: filtOp.splits)
  show "matchFilter (markedDir d) e f = matchFilter d e f"
    by (induction f) (auto simp: list_all_iff list_ex_iff chain split: filtOp.splits)
qed

lemma searchLoop_cong:
  "list_all2 (\<lambda>e e'. matchFilter d e f = matchFilter d' e' f \<and> entryMessage i attrs t e = entryMessage i attrs t e') es es' \<Longrightarrow>
     searchLoop d i f attrs t limit n es = searchLoop d' i f attrs t limit n es'"
proof (induction es es' arbitrary: n rule: list_all2_induct)
  case (Cons e es e' es')
  then show ?case by (auto simp: entryMessage_def split: prod.splits)
qed simp

lemma searchLoop_marked:
  assumes "\<forall>e \<in> set (d_entries d). markable e"
  shows "searchLoop (markedDir d) i f attrs t limit n (candidates (markedDir d) base scope) =
    searchLoop d i f attrs t limit n (candidates d base scope)"
proof (rule searchLoop_cong)
  let ?R = "\<lambda>e e'. matchFilter (markedDir d) e f = matchFilter d e' f \<and> entryMessage i attrs t e = entryMessage i attrs t e'"
  have "list_all2 ?R (map marked es) es" if "set es \<subseteq> set (d_entries d)" for es
    using that assms by (induction es) (auto simp: matchFilter_marked entryMessage_def project_marked)
  moreover have "list_all2 ?R [e] [e]" for e by (simp add: matchFilter_marked)
  moreover have "filter P (map marked es) = map marked (filter P es)" if "\<And>e. P (marked e) = P e" for P es
    using that by (induction es) auto
  moreover have "rootDSE (markedDir d) = rootDSE d" by (simp add: rootDSE_def markedDir_def)
  ultimately show "list_all2 ?R (candidates (markedDir d) base scope) (candidates d base scope)"
    by (auto simp: candidates_def markedDir_def)
qed

lemma dispatch_marked:
  assumes "\<forall>e \<in> set (d_entries d). markable e"
  shows "dispatch bcryptOk (markedDir d) st msg = dispatch bcryptOk d st msg"
proof -
  have bind: "doBind bcryptOk (markedDir d) st op = doBind bcryptOk d st op" for op
    by (auto simp: doBind_def markedDir_def map_of_markedIndex Let_def split: sum.splits option.splits)
  have hasBase: "hasBase (markedDir d) base = hasBase d base" for base
    by (simp add: hasBase_def markedDir_def map_of_markedIndex)
  have search: "doSearch (markedDir d) st i op = doSearch d st i op" for i op
    unfolding doSearch_def hasBase searchLoop_marked[OF assms] ..
  show ?thesis unfolding dispatch_def bind search ..
qed

subsection \<open>A directory served from its snapshot\<close>

lemma fold_lower_update:
  "\<forall>k \<in> fst ` set al. ToLower k = k \<Longrightarrow> distinct (map fst (acc @ al)) \<Longrightarrow>
     fold (\<lambda>(k, v). AList.update (ToLower k) v) al acc = acc @ al"
proof (induction al arbitrary: acc)
  case (Cons kv al)
  then have "AList.update (ToLower (fst kv)) (snd kv) acc = acc @ [kv]" by (auto simp: update_new)
  with Cons show ?case by (cases kv) auto
qed simp

lemma wireEntry_marked:
  "markable e \<Longrightarrow> wireEntry \<lparr>w_DN = e_DN e, w_Attributes = e_Attrs e, w_Password = e_Password e,
     w_Members = e_DirectMembers e, w_MemberOf = e_DirectMemberOf e\<rparr> = marked e"
  using fold_lower_update[of "e_Attrs e" "[]"] by (simp add: wireEntry_def marked_def markable_def)

lemma fold_addEntry_new:
  assumes "dirOk d" and "distinct (map (normalizeDN \<circ> e_DN) (d_entries d @ es))" and "\<forall>e \<in> set es. e_DN e \<noteq> []"
  shows "fold addEntry es d = d\<lparr>d_entries := d_entries d @ es, d_byDN := d_byDN d @ map (\<lambda>e. (normalizeDN (e_DN e), e)) es\<rparr>"
  using assms
proof (induction es arbitrary: d)
  case (Cons e es)
  then have "normalizeDN (e_DN e) \<notin> fst ` set (d_byDN d)" by (auto simp: dirOk_def image_image)
  then have add: "addEntry e d = d\<lparr>d_byDN := d_byDN d @ [(normalizeDN (e_DN e), e)], d_entries := d_entries d @ [e]\<rparr>"
    using Cons.prems by (simp add: addEntry_def update_new map_of_eq_None_iff[THEN iffD2])
  have "fold addEntry es (addEntry e d) = (addEntry e d)\<lparr>d_entries := d_entries (addEntry e d) @ es,
      d_byDN := d_byDN (addEntry e d) @ map (\<lambda>e. (normalizeDN (e_DN e), e)) es\<rparr>"
    by (rule Cons.IH[OF addEntry_ok[OF Cons.prems(1)]]) (use Cons.prems add in auto)
  then show ?case by (simp add: add)
qed simp

lemma configDirectory_Snapshot:
  assumes ok: "dirOk d" and mark: "\<forall>e \<in> set (d_entries d). markable e"
    and base: "TrimSpace (d_BaseDN d) = d_BaseDN d" "d_BaseDN d \<noteq> []" "d_BindDN d \<noteq> []"
    and has: "map_of (d_byDN d) (normalizeDN (d_BaseDN d)) \<noteq> None"
  shows "configDirectory (Snapshot d en l t pw) = markedDir (d\<lparr>d_BindPassword := pw, d_RoleDN := (\<lambda>_. []), d_OUDN := []\<rparr>)"
proof -
  let ?e0 = "emptyDirectory (d_BaseDN d) (d_BindDN d) pw"
  have "fold (\<lambda>w d. if TrimSpace (w_DN w) = [] then d else addEntry (wireEntry w) d) (map (\<lambda>e. \<lparr>w_DN = e_DN e,
      w_Attributes = e_Attrs e, w_Password = e_Password e, w_Members = e_DirectMembers e, w_MemberOf = e_DirectMemberOf e\<rparr>) es) d0
      = fold addEntry (map marked es) d0" if "\<forall>e \<in> set es. markable e" for es d0
    using that by (induction es arbitrary: d0) (simp_all add: wireEntry_marked, simp add: markable_def)
  moreover have "fold addEntry (map marked (d_entries d)) ?e0 = ?e0\<lparr>d_entries := map marked (d_entries d),
      d_byDN := map (\<lambda>e. (normalizeDN (e_DN e), e)) (map marked (d_entries d))\<rparr>"
    using ok by (subst fold_addEntry_new) (auto simp: dirOk_empty emptyDirectory_def dirOk_def comp_def)
  moreover have "map (\<lambda>e. (normalizeDN (e_DN e), e)) (map marked (d_entries d)) = markedIndex (d_byDN d)"
    using ok by (simp add: dirOk_def markedIndex_def)
  ultimately have "configDirectory (Snapshot d en l t pw) = ?e0\<lparr>d_entries := map marked (d_entries d), d_byDN := markedIndex (d_byDN d)\<rparr>"
    using base mark has by (auto simp: configDirectory_def Snapshot_def map_of_markedIndex Let_def)
  then show ?thesis by (simp add: markedDir_def emptyDirectory_def)
qed

subsection \<open>The entries \<open>Build\<close> publishes\<close>

lemma TrimSpace_Cons: "\<not> is_space c \<Longrightarrow> TrimSpace (c # t) \<noteq> []"
proof -
  assume c: "\<not> is_space c"
  then have "c \<in> set (dropWhile is_space (rev t @ [c]))" by (simp add: dropWhile_append)
  then show ?thesis using c by (auto simp: TrimSpace_def TrimLeft_def)
qed

lemma TrimSpace_letter: "TrimSpace (CHR ''o'' # t) \<noteq> []" "TrimSpace (CHR ''u'' # t) \<noteq> []" "TrimSpace (CHR ''c'' # t) \<noteq> []"
  by (simp_all add: TrimSpace_Cons is_space_def)

lemma ouWalk_names:
  "(\<forall>v \<in> snd ` set m. hd v = CHR ''o'') \<Longrightarrow> \<forall>v \<in> snd ` set (snd (ouWalk base byID i seen m)). hd v = CHR ''o''"
proof (induction base byID i seen m rule: ouWalk.induct)
  case (1 base byID i seen m)
  have upd: "(a, v) \<in> set (AList.update k x al) \<Longrightarrow> v = x \<or> (a, v) \<in> set al" for a v x k and al :: "(nat \<times> string) list"
    by (induction al) (auto split: if_splits)
  show ?case
  proof (cases "i = 0 \<or> i \<in> set seen \<or> map_of m i \<noteq> None \<or> map_of byID i = None")
    case True
    with 1 show ?thesis by (subst ouWalk.simps) (auto split: option.splits)
  next
    case False
    then obtain ou where ou: "map_of byID i = Some ou" "i \<noteq> 0" "i \<notin> set seen" "map_of m i = None" by auto
    show ?thesis
    proof (cases "ou_ParentID ou")
      case None
      with ou 1 show ?thesis by (subst ouWalk.simps) (auto simp: Let_def dest!: upd)
    next
      case (Some p)
      obtain q m1 where up: "ouWalk base byID p (i # seen) m = (q, m1)" by fastforce
      then have "\<forall>v \<in> snd ` set m1. hd v = CHR ''o''" using 1 ou Some by fastforce
      with ou Some up show ?thesis by (subst ouWalk.simps) (auto simp: Let_def dest!: upd)
    qed
  qed
qed

lemma ouDNs_names: "v \<in> snd ` set (ouDNs ouOrder base ous) \<Longrightarrow> hd v = CHR ''o''"
proof -
  have "(\<forall>v \<in> snd ` set m. hd v = CHR ''o'') \<Longrightarrow> \<forall>v \<in> snd ` set (fold (\<lambda>i m. snd (ouWalk base byID i [] m)) is m). hd v = CHR ''o''" for "is" m byID
  proof (induction "is" arbitrary: m)
    case (Cons i "is")
    from Cons.IH[OF ouWalk_names[OF Cons.prems, of base byID i "[]"]] show ?case by simp
  qed simp
  from this[of "[]"] show "v \<in> snd ` set (ouDNs ouOrder base ous) \<Longrightarrow> ?thesis" by (auto simp: ouDNs_def Let_def)
qed

text \<open>What every entry handed to \<open>add\<close> satisfies; an entry with no DN is dropped there.\<close>

abbreviation publishable :: "Entry \<Rightarrow> bool" where
  "publishable e \<equiv> e_DN e \<noteq> [] \<longrightarrow> markable e"

lemma addEntry_entries: "e \<in> set (d_entries (addEntry x d)) \<Longrightarrow> e \<in> set (d_entries d) \<or> e = x \<and> e_DN x \<noteq> []"
  by (auto simp: addEntry_def split: if_splits option.splits)

lemma lower_literals [simp]:
  "ToLower ''objectclass'' = ''objectclass''" "ToLower ''dc'' = ''dc''" "ToLower ''o'' = ''o''" "ToLower ''ou'' = ''ou''"
  "ToLower ''uid'' = ''uid''" "ToLower ''cn'' = ''cn''" "ToLower ''sn'' = ''sn''" "ToLower ''displayname'' = ''displayname''"
  "ToLower ''mail'' = ''mail''" "ToLower ''mobile'' = ''mobile''" "ToLower ''memberof'' = ''memberof''"
  "ToLower ''member'' = ''member''" "ToLower ''description'' = ''description''"
  by (simp_all add: ToLower_def lower_char_def)

lemma publishable_ou: "hd dn = CHR ''o'' \<Longrightarrow> publishable (ouEntry dn name)"
  by (cases dn) (auto simp: ouEntry_def plainEntry_def markable_def TrimSpace_letter)

lemma publishable_lookup_ou: "publishable (ouEntry (lookupStr (ouDNs ouOrder base ous) i) name)"
proof (cases "map_of (ouDNs ouOrder base ous) i")
  case (Some v)
  then have "hd v = CHR ''o''" by (intro ouDNs_names) (force dest: map_of_SomeD)
  with Some show ?thesis using publishable_ou by (simp add: lookupStr_def)
qed (simp add: lookupStr_def ouEntry_def plainEntry_def)

lemma publishable_base:
  "TrimSpace base = base \<Longrightarrow> ToLower (fst (firstRDN base)) \<noteq> ''memberof'' \<Longrightarrow> publishable (baseEntry base)"
  by (auto simp: baseEntry_def plainEntry_def markable_def Let_def split: prod.splits)

lemma publishable_user: "pub \<in> set (pubUsers ouDN people users) \<Longrightarrow> publishable (userEntry edges roleDN pub)"
proof -
  assume "pub \<in> set (pubUsers ouDN people users)"
  then have "TrimSpace (snd pub) \<noteq> []" by (auto simp: pubUsers_def Let_def TrimSpace_letter)
  then show ?thesis by (auto simp: userEntry_def markable_def Let_def split: prod.splits)
qed

lemma publishable_role: "publishable (roleEntry edges (roleDNs ouDN rolesOU roles) users role)"
proof -
  have "TrimSpace (roleDNs ouDN rolesOU roles i) \<noteq> []" if "roleDNs ouDN rolesOU roles i \<noteq> []" for i
    using that by (auto simp: roleDNs_def lookupStr_def TrimSpace_letter split: option.splits dest!: map_of_SomeD)
  then show ?thesis by (auto simp: roleEntry_def markable_def Let_def split: prod.splits)
qed

definition buildBase :: "Input \<Rightarrow> string" where
  "buildBase inp = (if TrimSpace (in_BaseDN inp) = [] then DefaultBaseDN else TrimSpace (in_BaseDN inp))"

lemma buildBase_trimmed: "TrimSpace (buildBase inp) = buildBase inp" "buildBase inp \<noteq> []"
proof -
  have "TrimSpace DefaultBaseDN = DefaultBaseDN" by (simp add: DefaultBaseDN_def TrimSpace_def TrimLeft_def is_space_def)
  then show "TrimSpace (buildBase inp) = buildBase inp" "buildBase inp \<noteq> []" by (simp_all add: buildBase_def DefaultBaseDN_def)
qed

text \<open>An invariant of the steps of \<open>Build\<close> holds of its result.\<close>

lemma Build_rule:
  assumes base: "P (addEntry (baseEntry (buildBase inp)) (emptyDirectory (buildBase inp) (ServiceBindDN (buildBase inp)) []))"
    and ou: "\<And>d i name. P d \<Longrightarrow> P (addEntry (ouEntry (lookupStr (ouDNs ouOrder (buildBase inp) (in_OUs inp)) i) name) d)"
    and fixed: "\<And>d n name. P d \<Longrightarrow> P (addEntry (ouEntry (''ou='' @ n) name) d)"
    and user: "\<And>d pub edges roleDN ouDN people. P d \<Longrightarrow> pub \<in> set (pubUsers ouDN people (in_Users inp)) \<Longrightarrow> P (addEntry (userEntry edges roleDN pub) d)"
    and role: "\<And>d edges ouDN rolesOU roles users r. P d \<Longrightarrow> P (addEntry (roleEntry edges (roleDNs ouDN rolesOU roles) users r) d)"
    and maps: "\<And>d r m. P d \<Longrightarrow> P (d\<lparr>d_RoleDN := r, d_OUDN := m\<rparr>)"
  shows "P (Build ouOrder inp)"
proof -
  have step: "P d \<Longrightarrow> (\<And>x d. x \<in> set xs \<Longrightarrow> P d \<Longrightarrow> P (f x d)) \<Longrightarrow> P (fold f xs d)" for f :: "'b \<Rightarrow> Directory \<Rightarrow> Directory" and xs d
    by (induction xs arbitrary: d) auto
  have fold_nat: "P d \<Longrightarrow> (\<And>x d. P d \<Longrightarrow> P (f x d)) \<Longrightarrow> P (fold f xs d)" for f :: "nat \<Rightarrow> Directory \<Rightarrow> Directory" and xs d
    by (induction xs arbitrary: d) auto
  have ous: "P d \<Longrightarrow> P (addOUs (in_OUs inp) (ouDNs ouOrder (buildBase inp) (in_OUs inp)) d)" for d
    unfolding addOUs_def by (rule fold_nat) (auto split: option.splits intro: ou)
  have "P d \<Longrightarrow> P (ensureOU (''ou='' @ n) name d)" for d n name using fixed[of d n name] by (simp add: ensureOU_def)
  note ens = this[of _ "''People,'' @ buildBase inp", simplified] this[of _ "''Roles,'' @ buildBase inp", simplified]
  have users: "P d \<Longrightarrow> set us \<subseteq> set (pubUsers ouDN people (in_Users inp)) \<Longrightarrow> P (fold (\<lambda>u. addEntry (userEntry edges roleDN u)) us d)" for d us ouDN people edges roleDN
    by (induction us arbitrary: d) (auto intro: user)
  have roles: "P d \<Longrightarrow> P (fold (\<lambda>r. addEntry (roleEntry edges (roleDNs ouDN rolesOU rs) us r)) rs' d)" for d edges ouDN rolesOU rs us rs'
    by (induction rs' arbitrary: d) (auto intro: role)
  show ?thesis
    unfolding Build_def Let_def buildBase_def[symmetric]
    by (rule maps, rule roles, rule users[OF _ subset_refl], simp, intro ens ous base)
qed

lemma addEntry_fields [simp]:
  "d_BaseDN (addEntry e d) = d_BaseDN d" "d_BindDN (addEntry e d) = d_BindDN d"
  by (simp_all add: addEntry_def split: option.splits)

lemma Build_fields: "d_BaseDN (Build ouOrder inp) = buildBase inp \<and> d_BindDN (Build ouOrder inp) = ServiceBindDN (buildBase inp)"
  by (rule Build_rule) (simp_all add: emptyDirectory_def)

lemma addEntry_keeps: "map_of (d_byDN d) k \<noteq> None \<Longrightarrow> map_of (d_byDN (addEntry e d)) k \<noteq> None"
  by (auto simp: addEntry_def update_conv' split: option.splits)

lemma Build_has_base: "map_of (d_byDN (Build ouOrder inp)) (normalizeDN (buildBase inp)) \<noteq> None"
proof (rule Build_rule)
  show "map_of (d_byDN (addEntry (baseEntry (buildBase inp)) (emptyDirectory (buildBase inp) (ServiceBindDN (buildBase inp)) []))) (normalizeDN (buildBase inp)) \<noteq> None"
    using buildBase_trimmed(2)[of inp]
    by (simp add: addEntry_def emptyDirectory_def baseEntry_def plainEntry_def Let_def split: prod.splits)
qed (erule addEntry_keeps | simp)+

lemma Build_markable:
  assumes "ToLower (fst (firstRDN (buildBase inp))) \<noteq> ''memberof''"
  shows "\<forall>e \<in> set (d_entries (Build ouOrder inp)). markable e"
proof -
  have add: "\<forall>x \<in> set (d_entries (addEntry e d)). markable x" if "\<forall>x \<in> set (d_entries d). markable x" "publishable e" for e d
    using that by (auto dest!: addEntry_entries)
  show ?thesis
  proof (rule Build_rule)
    show "\<forall>x \<in> set (d_entries (addEntry (baseEntry (buildBase inp)) (emptyDirectory (buildBase inp) (ServiceBindDN (buildBase inp)) []))). markable x"
      by (rule add) (simp add: emptyDirectory_def, rule publishable_base[OF buildBase_trimmed(1) assms])
  next
    fix d :: Directory and r m
    assume "\<forall>e \<in> set (d_entries d). markable e"
    then show "\<forall>e \<in> set (d_entries (d\<lparr>d_RoleDN := r, d_OUDN := m\<rparr>)). markable e" by simp
  qed (erule add, rule publishable_lookup_ou publishable_ou publishable_user publishable_role, simp?; assumption?)+
qed

text \<open>
  C4: A worker that serves the stored snapshot of a directory answers every message exactly as the directory
  the hub built: configDirectory after Snapshot refines Build, for every bind state and every message. (The one
  base DN excluded is a naming attribute called memberOf.)
\<close>

theorem snapshot_refines_build:
  assumes "ToLower (fst (firstRDN (d_BaseDN (Build ouOrder inp)))) \<noteq> ''memberof''"
  shows "dispatch bcryptOk (configDirectory (Snapshot (Build ouOrder inp) enabled listen tlsListen pw)) st msg =
    dispatch bcryptOk ((Build ouOrder inp)\<lparr>d_BindPassword := pw\<rparr>) st msg"
proof -
  let ?d = "Build ouOrder inp"
  let ?d' = "?d\<lparr>d_BindPassword := pw, d_RoleDN := (\<lambda>_. []), d_OUDN := []\<rparr>"
  have mark: "\<forall>e \<in> set (d_entries ?d). markable e" using Build_markable assms by (simp add: Build_fields)
  have "configDirectory (Snapshot ?d enabled listen tlsListen pw) = markedDir ?d'"
    by (rule configDirectory_Snapshot[OF Build_ok mark])
      (use Build_has_base in \<open>simp_all add: Build_fields buildBase_trimmed ServiceBindDN_def\<close>)
  moreover have "dispatch bcryptOk ?d' st msg = dispatch bcryptOk (?d\<lparr>d_BindPassword := pw\<rparr>) st msg"
  proof -
    have m: "matchFilter (d\<lparr>d_RoleDN := r, d_OUDN := o1\<rparr>) e f = matchFilter d e f" for d r o1 e f
      by (induction f) (auto simp: list_all_iff list_ex_iff inChain_def split: filtOp.splits)
    have c: "candidates (d\<lparr>d_RoleDN := r, d_OUDN := o1\<rparr>) b s = candidates d b s" for d r o1 b s
      by (simp add: candidates_def rootDSE_def)
    have l: "searchLoop (d\<lparr>d_RoleDN := r, d_OUDN := o1\<rparr>) i f a t l n es = searchLoop d i f a t l n es" for d r o1 i f a t l n es
      by (rule searchLoop_cong) (simp add: m list.rel_refl)
    have h: "hasBase (d\<lparr>d_RoleDN := r, d_OUDN := o1\<rparr>) b = hasBase d b" for d r o1 b by (simp add: hasBase_def)
    have b: "doBind bcryptOk (d\<lparr>d_RoleDN := r, d_OUDN := o1\<rparr>) st op = doBind bcryptOk d st op" for d r o1 op
      by (auto simp: doBind_def Let_def split: sum.splits option.splits)
    show ?thesis unfolding dispatch_def doSearch_def c l h b ..
  qed
  ultimately show ?thesis using dispatch_marked[of ?d'] mark by simp
qed

theorem snapshot_refines_build_witness:
  "dispatch (\<lambda>_ _. True) (configDirectory (Snapshot (Build rev exFolders) True '':389'' [] ''pw'')) newConn exBind =
    dispatch (\<lambda>_ _. True) ((Build rev exFolders)\<lparr>d_BindPassword := ''pw''\<rparr>) newConn exBind"
  by (rule snapshot_refines_build)
    (simp add: Build_fields buildBase_def exFolders_def firstRDN_def consHead_def ToLower_def lower_char_def TrimSpace_def TrimLeft_def is_space_def)

text \<open>\<open>Port\<close> does not notice when the number does not fit its \<open>int\<close>: the port \<open>2^64 + 1\<close> is read as 1.\<close>

lemma Port_wraps: "Port '':18446744073709551617'' = 1"
  by (simp add: Port_def portValue_def SplitHostPort_def digit_val_def TrimSpace_def TrimLeft_def is_space_def)

end
