(* ===== verification/Radius_Packet.thy ===== *)
theory Radius_Packet
  imports Factum_Prelude
begin

text \<open>
  RADIUS packets, \<^verbatim>\<open>src/internal/radius/packet.go\<close>: parsing, the Message-Authenticator check, the
  construction of answers and the User-Password cipher. MD5 and HMAC-MD5 are parameters (\<open>md5\<close> of
  one byte string, \<open>hmac\<close> of a key and a message); where a lemma needs it, their 16-byte length is a
  hypothesis. An index out of range, which would panic in Go, is the error \<open>radiusPanic\<close>; it is
  shown never to occur.
\<close>

unbundle bit_operations_syntax

datatype radius_error =
  errShortPacket | errBadLength | errBadAttr | errNoMA | errBadMA | errNoPassword | radiusPanic

definition codeAccessRequest :: byte where "codeAccessRequest = 1"
definition codeAccessAccept :: byte where "codeAccessAccept = 2"
definition codeAccessReject :: byte where "codeAccessReject = 3"
definition attrUserName :: byte where "attrUserName = 1"
definition attrUserPassword :: byte where "attrUserPassword = 2"
definition attrNASIPAddress :: byte where "attrNASIPAddress = 4"
definition attrReplyMessage :: byte where "attrReplyMessage = 18"
definition attrMessageAuthenticator :: byte where "attrMessageAuthenticator = 80"
definition attrNASIPv6Address :: byte where "attrNASIPv6Address = 95"
definition maxPacket :: nat where "maxPacket = 4096"

record Packet =
  Code :: byte
  ID :: byte
  Auth :: bytes
  Raw :: bytes

record attribute =
  Type :: byte
  Value :: bytes

subsection \<open>Parsing\<close>

fun attributes :: "bytes \<Rightarrow> radius_error + attribute list" where
  "attributes [] = Inr []"
| "attributes [t] = Inl errBadAttr"
| "attributes (t # l # b) =
     (let n = unat l
      in if n < 2 \<or> n > length b + 2 then Inl errBadAttr
         else res_bind (attributes (drop (n - 2) b))
                (\<lambda>out. Inr (\<lparr>Type = t, Value = take (n - 2) b\<rparr> # out)))"

text \<open>\<open>binary.BigEndian.Uint16(b[2:4])\<close>, on a packet of at least four bytes.\<close>

definition lengthField :: "bytes \<Rightarrow> nat" where
  "lengthField b = be_nat (take 2 (drop 2 b))"

definition parse :: "bytes \<Rightarrow> radius_error + Packet \<times> attribute list" where
  "parse b =
     (if length b < 20 then Inl errShortPacket
      else let len = lengthField b
      in if len < 20 \<or> len > length b \<or> len > maxPacket then Inl errBadLength
      else res_bind (attributes (drop 20 (take len b)))
             (\<lambda>attrs. Inr (\<lparr>Code = b ! 0, ID = b ! 1, Auth = take 16 (drop 4 b), Raw = take len b\<rparr>, attrs)))"

text \<open>\<open>attrValue\<close> returns a nil slice when the type is absent: \<open>None\<close>.\<close>

definition attrValue :: "attribute list \<Rightarrow> byte \<Rightarrow> bytes option" where
  "attrValue attrs typ = map_option Value (find (\<lambda>a. Type a = typ) attrs)"

definition countAttr :: "attribute list \<Rightarrow> byte \<Rightarrow> nat" where
  "countAttr attrs typ = length (filter (\<lambda>a. Type a = typ) attrs)"

subsection \<open>Message-Authenticator\<close>

text \<open>
  The loop that walks the attributes of \<open>body\<close> by offset. It returns the offset of the
  Message-Authenticator, or \<open>length\<close> when the loop runs out. A zero length octet would make the Go
  loop spin; \<open>attributes\<close> has already refused it (lemma \<open>maOffset_attributes\<close>).
\<close>

function maOffset :: "bytes \<Rightarrow> nat \<Rightarrow> radius_error + nat" where
  "maOffset body off =
     (if off < length body then
        if off + 1 < length body then
          (let n = unat (body ! (off + 1))
           in if body ! off = attrMessageAuthenticator
              then if n \<noteq> 18 then Inl errBadMA else Inr off
              else if n = 0 then Inl radiusPanic
              else maOffset body (off + n))
        else Inl radiusPanic
      else Inr off)"
  by pat_completeness auto
termination
  by (relation "measure (\<lambda>(body, off). length body - off)") auto

declare maOffset.simps [simp del]

definition zeroAt :: "nat \<Rightarrow> bytes \<Rightarrow> bytes" where
  "zeroAt off buf = take (off + 2) buf @ replicate 16 0 @ drop (off + 18) buf"

definition verifyMessageAuthenticator ::
  "(bytes \<Rightarrow> bytes \<Rightarrow> bytes) \<Rightarrow> bytes \<Rightarrow> bytes \<Rightarrow> radius_error + unit" where
  "verifyMessageAuthenticator hmac raw secret =
     (if length raw < 20 then Inl errShortPacket
      else let len = lengthField raw
      in if len < 20 \<or> len > length raw then Inl errBadLength
      else let body = take len raw
      in res_bind (attributes (drop 20 body)) (\<lambda>attrs.
         if countAttr attrs attrMessageAuthenticator \<noteq> 1 then Inl errNoMA
         else res_bind (maOffset body 20) (\<lambda>off.
           if off + 18 > length body then Inl radiusPanic
           else check errBadMA (hmac secret (zeroAt off body) = take 16 (drop (off + 2) body)))))"

subsection \<open>Answers\<close>

definition appendAttr :: "bytes \<Rightarrow> byte \<Rightarrow> bytes \<Rightarrow> bytes" where
  "appendAttr dst typ val = dst @ [typ, of_nat (length val + 2)] @ val"

text \<open>\<open>copy(dst[i:j], src)\<close>: at most \<open>j - i\<close> bytes are overwritten.\<close>

definition copyAt :: "nat \<Rightarrow> nat \<Rightarrow> bytes \<Rightarrow> bytes \<Rightarrow> bytes" where
  "copyAt i j src dst =
     (let s = take (j - i) src in take i dst @ s @ drop (i + length s) dst)"

definition responseAttrs :: "bytes \<Rightarrow> bytes \<Rightarrow> bytes" where
  "responseAttrs replyMessage extra =
     (let attrs = appendAttr [] attrMessageAuthenticator (replicate 16 0);
          attrs = (if replyMessage \<noteq> [] then appendAttr attrs attrReplyMessage (take 200 replyMessage)
                   else attrs)
      in attrs @ extra)"

definition response ::
  "(bytes \<Rightarrow> bytes) \<Rightarrow> (bytes \<Rightarrow> bytes \<Rightarrow> bytes) \<Rightarrow> Packet \<Rightarrow> byte \<Rightarrow> bytes \<Rightarrow> bytes \<Rightarrow> bytes \<Rightarrow> bytes" where
  "response md5 hmac req code secret replyMessage extra =
     (let attrs = responseAttrs replyMessage extra;
          pkt = [code, ID req] @ put_be 2 (20 + length attrs) @ Auth req @ attrs;
          pkt = copyAt 22 38 (hmac secret pkt) pkt
      in copyAt 4 20 (md5 (pkt @ secret)) pkt)"

subsection \<open>User-Password\<close>

definition xor_bytes :: "bytes \<Rightarrow> bytes \<Rightarrow> bytes" where
  "xor_bytes = map2 (XOR)"

fun decryptBlocks :: "(bytes \<Rightarrow> bytes) \<Rightarrow> bytes \<Rightarrow> bytes \<Rightarrow> bytes \<Rightarrow> bytes" where
  "decryptBlocks md5 secret prev [] = []"
| "decryptBlocks md5 secret prev (c # cs) =
     (let blk = take 16 (c # cs)
      in xor_bytes blk (md5 (secret @ prev)) @ decryptBlocks md5 secret blk (drop 16 (c # cs)))"

definition trimZeros :: "bytes \<Rightarrow> bytes" where
  "trimZeros bs = rev (dropWhile (\<lambda>b. b = 0) (rev bs))"

definition decryptUserPassword ::
  "(bytes \<Rightarrow> bytes) \<Rightarrow> bytes \<Rightarrow> bytes \<Rightarrow> bytes \<Rightarrow> radius_error + bytes" where
  "decryptUserPassword md5 cipher secret auth =
     (if cipher = [] \<or> length cipher mod 16 \<noteq> 0 \<or> length cipher > 128 then Inl errNoPassword
      else Inr (trimZeros (decryptBlocks md5 secret auth cipher)))"

fun encryptBlocks :: "(bytes \<Rightarrow> bytes) \<Rightarrow> bytes \<Rightarrow> bytes \<Rightarrow> bytes \<Rightarrow> bytes" where
  "encryptBlocks md5 secret prev [] = []"
| "encryptBlocks md5 secret prev (p # ps) =
     (let blk = xor_bytes (take 16 (p # ps)) (md5 (secret @ prev))
      in blk @ encryptBlocks md5 secret blk (drop 16 (p # ps)))"

definition encryptUserPassword :: "(bytes \<Rightarrow> bytes) \<Rightarrow> bytes \<Rightarrow> bytes \<Rightarrow> bytes \<Rightarrow> bytes" where
  "encryptUserPassword md5 password secret auth =
     (let plain = (if length password mod 16 \<noteq> 0
                   then password @ replicate (16 - length password mod 16) 0 else password)
      in encryptBlocks md5 secret auth plain)"

subsection \<open>The attribute list is determined by the bytes\<close>

definition encAttr :: "attribute \<Rightarrow> bytes" where
  "encAttr a = appendAttr [] (Type a) (Value a)"

definition encAttrs :: "attribute list \<Rightarrow> bytes" where
  "encAttrs as = concat (map encAttr as)"

definition attr_ok :: "attribute \<Rightarrow> bool" where
  "attr_ok a \<longleftrightarrow> length (Value a) \<le> 253"

lemma encAttrs_simps [simp]:
  "encAttrs [] = []" "encAttrs (a # as) = encAttr a @ encAttrs as"
  "encAttrs (as @ bs) = encAttrs as @ encAttrs bs"
  by (simp_all add: encAttrs_def)

lemma length_encAttr [simp]: "length (encAttr a) = length (Value a) + 2"
  by (simp add: encAttr_def appendAttr_def)

lemma attr_length_octet: "n \<le> 253 \<Longrightarrow> unat (of_nat (n + 2) :: byte) = n + 2"
  using unat_of_nat_byte[of "n + 2"] by simp

lemma attributes_encAttr [codec_simps]:
  assumes "attr_ok a"
  shows "attributes (encAttr a @ b) = res_bind (attributes b) (\<lambda>out. Inr (a # out))"
proof -
  have "unat (of_nat (length (Value a) + 2) :: byte) = length (Value a) + 2"
    using assms by (intro attr_length_octet) (simp add: attr_ok_def)
  then show ?thesis by (cases a) (simp add: encAttr_def appendAttr_def)
qed

lemma attributes_encAttrs [codec_simps]: "list_all attr_ok as \<Longrightarrow> attributes (encAttrs as) = Inr as"
  by (induction as) (simp_all add: attributes_encAttr)

lemma attributes_Inr: "attributes b = Inr as \<Longrightarrow> b = encAttrs as \<and> list_all attr_ok as"
proof (induction b arbitrary: as rule: attributes.induct)
  case (3 t l b)
  define n where "n = unat l"
  from "3.prems" obtain out where n: "2 \<le> n" "n \<le> length b + 2"
    and out: "attributes (drop (n - 2) b) = Inr out" "as = \<lparr>Type = t, Value = take (n - 2) b\<rparr> # out"
    by (auto simp: Let_def n_def res_bind_eq_Inr split: if_splits)
  from "3.IH"[OF refl] n out(1)
  have IH: "drop (n - 2) b = encAttrs out" "list_all attr_ok out"
    by (auto simp: n_def)
  have "of_nat (length (take (n - 2) b) + 2) = l" using n by (simp add: n_def)
  moreover have "n - 2 \<le> 253" using unat_byte_le[of l] unfolding n_def by linarith
  then have "attr_ok \<lparr>Type = t, Value = take (n - 2) b\<rparr>" by (simp add: attr_ok_def)
  ultimately show ?case
    using IH n out(2) append_take_drop_id[of "n - 2" b]
    by (simp add: encAttr_def appendAttr_def)
qed auto

lemma attributes_iff: "attributes b = Inr as \<longleftrightarrow> b = encAttrs as \<and> list_all attr_ok as"
  using attributes_Inr attributes_encAttrs by blast

lemma attributes_no_panic: "attributes b \<noteq> Inl radiusPanic"
  by (induction b rule: attributes.induct) (auto simp: Let_def res_bind_eq_Inl)

subsection \<open>The Message-Authenticator search\<close>

abbreviation is_MA :: "attribute \<Rightarrow> bool" where
  "is_MA a \<equiv> Type a = attrMessageAuthenticator"

lemma maOffset_step:
  assumes "attr_ok a" and "off = length hd0"
  shows "maOffset (hd0 @ encAttr a @ tl0) off =
    (if is_MA a then (if length (Value a) = 16 then Inr off else Inl errBadMA)
     else maOffset (hd0 @ encAttr a @ tl0) (off + length (encAttr a)))"
proof -
  let ?body = "hd0 @ encAttr a @ tl0"
  have "unat (of_nat (length (Value a) + 2) :: byte) = length (Value a) + 2"
    using assms(1) by (intro attr_length_octet) (simp add: attr_ok_def)
  then have "off + 1 < length ?body" "?body ! off = Type a" "unat (?body ! (off + 1)) = length (encAttr a)"
    using assms(2) by (simp_all add: encAttr_def appendAttr_def nth_append)
  then show ?thesis
    by (subst maOffset.simps) (auto simp: Let_def)
qed

lemma maOffset_attributes:
  assumes "list_all attr_ok (pre @ ma # post)" and "\<not> list_ex is_MA pre" and "is_MA ma"
    and "off = length hdr"
  shows "maOffset (hdr @ encAttrs (pre @ ma # post)) off =
    (if length (Value ma) = 16 then Inr (off + length (encAttrs pre)) else Inl errBadMA)"
  using assms
proof (induction pre arbitrary: hdr off)
  case Nil
  then show ?case by (simp add: maOffset_step)
next
  case (Cons a pre)
  then have "maOffset (hdr @ encAttr a @ encAttrs (pre @ ma # post)) off
      = maOffset (hdr @ encAttr a @ encAttrs (pre @ ma # post)) (off + length (encAttr a))"
    by (simp add: maOffset_step)
  also have "\<dots> = maOffset ((hdr @ encAttr a) @ encAttrs (pre @ ma # post)) (off + length (encAttr a))"
    by simp
  also have "\<dots> = (if length (Value ma) = 16 then Inr (off + length (encAttr a) + length (encAttrs pre))
      else Inl errBadMA)"
    using Cons.prems by (intro Cons.IH) simp_all
  finally show ?case by (simp add: add.assoc)
qed

lemma countAttr_one:
  "countAttr as attrMessageAuthenticator = 1 \<longleftrightarrow>
     (\<exists>pre ma post. as = pre @ ma # post \<and> is_MA ma \<and> \<not> list_ex is_MA pre \<and> \<not> list_ex is_MA post)"
proof
  assume "countAttr as attrMessageAuthenticator = 1"
  then obtain ma where "filter is_MA as = [ma]"
    by (auto simp: countAttr_def length_Suc_conv)
  then obtain us vs where "as = us @ ma # vs" "\<forall>u\<in>set us. \<not> is_MA u" "is_MA ma" "filter is_MA vs = []"
    by (auto simp: filter_eq_Cons_iff)
  then show "\<exists>pre ma post. as = pre @ ma # post \<and> is_MA ma \<and> \<not> list_ex is_MA pre \<and> \<not> list_ex is_MA post"
    by (intro exI[of _ us] exI[of _ ma] exI[of _ vs]) (simp add: filter_empty_conv list_ex_iff)
next
  have none: "\<not> list_ex is_MA xs \<Longrightarrow> filter is_MA xs = []" for xs
    by (simp add: filter_empty_conv list_ex_iff)
  assume "\<exists>pre ma post. as = pre @ ma # post \<and> is_MA ma \<and> \<not> list_ex is_MA pre \<and> \<not> list_ex is_MA post"
  then show "countAttr as attrMessageAuthenticator = 1"
    by (auto simp: countAttr_def none)
qed


text \<open>
  The layout of a packet whose Message-Authenticator is accepted: a 20-byte header, attributes
  without that type, the 18-byte authenticator attribute, and attributes without that type.
\<close>

definition ma_packet :: "bytes \<Rightarrow> attribute list \<Rightarrow> bytes \<Rightarrow> attribute list \<Rightarrow> bytes" where
  "ma_packet hdr pre v post =
     hdr @ encAttrs pre @ [attrMessageAuthenticator, 18] @ v @ encAttrs post"

definition ma_layout :: "bytes \<Rightarrow> bytes \<Rightarrow> attribute list \<Rightarrow> bytes \<Rightarrow> attribute list \<Rightarrow> bool" where
  "ma_layout body hdr pre v post \<longleftrightarrow>
     body = ma_packet hdr pre v post \<and> length hdr = 20 \<and> length v = 16
     \<and> list_all attr_ok (pre @ post) \<and> \<not> list_ex is_MA (pre @ post)"

lemma encAttr_MA:
  "length v = 16 \<Longrightarrow> encAttr \<lparr>Type = attrMessageAuthenticator, Value = v\<rparr> = [attrMessageAuthenticator, 18] @ v"
  by (simp add: encAttr_def appendAttr_def)

lemma zeroAt_packet:
  assumes "length hdr = 20" and "length v = 16"
  shows "zeroAt (20 + length (encAttrs pre)) (ma_packet hdr pre v post) = ma_packet hdr pre (replicate 16 0) post"
    and "take 16 (drop (20 + length (encAttrs pre) + 2) (ma_packet hdr pre v post)) = v"
  using assms by (simp_all add: zeroAt_def ma_packet_def)

lemma verify_layout:
  assumes "lengthField raw \<le> length raw" and "ma_layout (take (lengthField raw) raw) hdr pre v post"
  shows "verifyMessageAuthenticator hmac raw secret
    = check errBadMA (hmac secret (ma_packet hdr pre (replicate 16 0) post) = v)"
proof -
  let ?ma = "\<lparr>Type = attrMessageAuthenticator, Value = v\<rparr>"
  let ?as = "pre @ ?ma # post"
  let ?body = "take (lengthField raw) raw"
  from assms(2) have lay: "?body = ma_packet hdr pre v post" "length hdr = 20" "length v = 16"
      "list_all attr_ok (pre @ post)" "\<not> list_ex is_MA pre" "\<not> list_ex is_MA post"
    by (auto simp: ma_layout_def)
  have body: "?body = hdr @ encAttrs ?as"
    using lay(1,3) by (simp add: ma_packet_def encAttr_MA)
  then have len: "20 \<le> lengthField raw" using lay(2) assms(1)
    by (metis length_append length_take le_add1 min.absorb2)
  have as: "attributes (drop 20 ?body) = Inr ?as"
    unfolding body using lay by (subst attributes_iff) (simp add: attr_ok_def)
  have cnt: "countAttr ?as attrMessageAuthenticator = 1"
    using lay(5,6) by (subst countAttr_one) (intro exI[of _ pre] exI[of _ ?ma] exI[of _ post], simp)
  have off: "maOffset ?body 20 = Inr (20 + length (encAttrs pre))"
    unfolding body using lay by (subst maOffset_attributes) (simp_all add: attr_ok_def)
  have fits: "20 + length (encAttrs pre) + 18 \<le> length ?body"
    unfolding lay(1) using lay(2,3) by (simp add: ma_packet_def)
  show ?thesis
    using assms(1) len as cnt off fits zeroAt_packet[OF lay(2,3), of pre post] lay(1)
    by (simp add: verifyMessageAuthenticator_def Let_def del: drop_take take_take drop_drop)
qed

lemma verify_has_layout:
  assumes "verifyMessageAuthenticator hmac raw secret = Inr ()"
  shows "lengthField raw \<le> length raw \<and> (\<exists>hdr pre v post. ma_layout (take (lengthField raw) raw) hdr pre v post)"
proof -
  let ?body = "take (lengthField raw) raw"
  from assms obtain as where len: "20 \<le> lengthField raw" "lengthField raw \<le> length raw"
    and as: "attributes (drop 20 ?body) = Inr as" "countAttr as attrMessageAuthenticator = 1"
    and off: "\<exists>off. maOffset ?body 20 = Inr off"
    by (auto simp: verifyMessageAuthenticator_def Let_def res_bind_eq_Inr split: if_splits)
  from as(2) obtain pre ma post where split: "as = pre @ ma # post" "is_MA ma" "\<not> list_ex is_MA pre" "\<not> list_ex is_MA post"
    using countAttr_one by blast
  define hdr where "hdr = take 20 ?body"
  from attributes_Inr[OF as(1)] have enc: "drop 20 ?body = encAttrs as" "list_all attr_ok as" by auto
  then have body: "?body = hdr @ encAttrs (pre @ ma # post)"
    unfolding hdr_def split(1)[symmetric] by (metis append_take_drop_id)
  have hdr: "length hdr = 20" using len by (simp add: hdr_def)
  from off enc(2) split(1-3) have v: "length (Value ma) = 16"
    unfolding body by (subst (asm) maOffset_attributes) (auto simp: hdr split: if_splits)
  have "ma = \<lparr>Type = attrMessageAuthenticator, Value = Value ma\<rparr>" using split(2) by (cases ma) simp
  then have "encAttr ma = [attrMessageAuthenticator, 18] @ Value ma" using encAttr_MA[OF v] by metis
  then have "ma_layout ?body hdr pre (Value ma) post"
    unfolding ma_layout_def ma_packet_def using body hdr v enc(2) split by simp
  with len show ?thesis by blast
qed


subsection \<open>Answers and the password cipher\<close>

text \<open>The attributes of an answer after its Message-Authenticator.\<close>

definition replyAttrs :: "bytes \<Rightarrow> attribute list \<Rightarrow> attribute list" where
  "replyAttrs msg ex = (if msg \<noteq> [] then [\<lparr>Type = attrReplyMessage, Value = take 200 msg\<rparr>] else []) @ ex"

lemma responseAttrs_layout:
  "responseAttrs msg (encAttrs ex)
   = [attrMessageAuthenticator, 18] @ replicate 16 0 @ encAttrs (replyAttrs msg ex)"
  by (simp add: responseAttrs_def replyAttrs_def appendAttr_def encAttr_def)

lemma replyAttrs_ok:
  "list_all attr_ok ex \<Longrightarrow> list_all attr_ok (replyAttrs msg ex)"
  "\<not> list_ex is_MA ex \<Longrightarrow> \<not> list_ex is_MA (replyAttrs msg ex)"
  by (auto simp: replyAttrs_def attr_ok_def attrReplyMessage_def attrMessageAuthenticator_def)

lemma response_layout:
  fixes code :: byte and req :: Packet and msg :: bytes and ex :: "attribute list"
  assumes "\<forall>k x. length (hmac k x) = 16" and "\<forall>x. length (md5 x) = 16" and "length (Auth req) = 16"
  defines "rest \<equiv> replyAttrs msg ex"
    and "hdr \<equiv> [code, ID req] @ put_be 2 (20 + length (responseAttrs msg (encAttrs ex)))"
  shows "\<exists>ra. length ra = 16 \<and> response md5 hmac req code secret msg (encAttrs ex)
    = ma_packet (hdr @ ra) [] (hmac secret (ma_packet (hdr @ Auth req) [] (replicate 16 0) rest)) rest"
proof -
  let ?p0 = "ma_packet (hdr @ Auth req) [] (replicate 16 0) rest"
  let ?p1 = "ma_packet (hdr @ Auth req) [] (hmac secret ?p0) rest"
  have hdr: "length hdr = 4" by (simp add: hdr_def)
  have "[code, ID req] @ put_be 2 (20 + length (responseAttrs msg (encAttrs ex))) @ Auth req
      @ responseAttrs msg (encAttrs ex) = ?p0"
    by (simp add: hdr_def ma_packet_def rest_def responseAttrs_layout)
  moreover have "copyAt 22 38 (hmac secret ?p0) ?p0 = ?p1"
    using assms(1,3) hdr by (simp add: copyAt_def ma_packet_def Let_def)
  ultimately have "response md5 hmac req code secret msg (encAttrs ex)
      = copyAt 4 20 (md5 (?p1 @ secret)) ?p1"
    by (simp add: response_def Let_def)
  also have "\<dots> = ma_packet (hdr @ md5 (?p1 @ secret)) [] (hmac secret ?p0) rest"
    using assms(2,3) hdr by (simp add: copyAt_def ma_packet_def Let_def)
  finally show ?thesis using assms(2) by blast
qed

lemma xor_bytes_inverse: "length a \<le> length b \<Longrightarrow> xor_bytes (xor_bytes a b) b = a"
  unfolding xor_bytes_def by (induction a b rule: list_induct2') (auto simp: xor.assoc)

lemma length_xor_bytes [simp]: "length (xor_bytes a b) = min (length a) (length b)"
  by (simp add: xor_bytes_def)

lemma full_block: "(ps :: bytes) \<noteq> [] \<Longrightarrow> length ps mod 16 = 0 \<Longrightarrow> 16 \<le> length ps"
  by (metis length_0_conv mod_less not_less)

lemma length_encryptBlocks:
  "\<forall>x. length (md5 x) = 16 \<Longrightarrow> length ps mod 16 = 0 \<Longrightarrow>
   length (encryptBlocks md5 secret prev ps) = length ps"
proof (induction md5 secret prev ps rule: encryptBlocks.induct)
  case (2 md5 secret prev p ps)
  let ?blk = "xor_bytes (take 16 (p # ps)) (md5 (secret @ prev))"
  have ge: "16 \<le> length (p # ps)" using 2 by (intro full_block) simp_all
  then have "length (drop 16 (p # ps)) mod 16 = 0" using "2.prems"(2) by (simp add: mod_if)
  then have "length (encryptBlocks md5 secret ?blk (drop 16 (p # ps))) = length (drop 16 (p # ps))"
    using "2.prems"(1) by (intro "2.IH"[OF refl])
  with ge "2.prems"(1) show ?case by (simp add: Let_def)
qed simp

lemma decryptBlocks_append:
  "length blk = 16 \<Longrightarrow>
   decryptBlocks md5 secret prev (blk @ cs) = xor_bytes blk (md5 (secret @ prev)) @ decryptBlocks md5 secret blk cs"
  by (cases blk) (simp_all add: Let_def)

lemma decrypt_encrypt_blocks:
  "\<forall>x. length (md5 x) = 16 \<Longrightarrow> length ps mod 16 = 0 \<Longrightarrow>
   decryptBlocks md5 secret prev (encryptBlocks md5 secret prev ps) = ps"
proof (induction md5 secret prev ps rule: encryptBlocks.induct)
  case (2 md5 secret prev p ps)
  let ?blk = "xor_bytes (take 16 (p # ps)) (md5 (secret @ prev))"
  let ?cs = "encryptBlocks md5 secret ?blk (drop 16 (p # ps))"
  have ge: "16 \<le> length (p # ps)" using 2 by (intro full_block) simp_all
  then have "length (drop 16 (p # ps)) mod 16 = 0" using "2.prems"(2) by (simp add: mod_if)
  then have IH: "decryptBlocks md5 secret ?blk ?cs = drop 16 (p # ps)"
    using "2.prems"(1) by (intro "2.IH"[OF refl])
  have len: "length ?blk = 16" using ge "2.prems"(1) by simp
  have "encryptBlocks md5 secret prev (p # ps) = ?blk @ ?cs" by (simp add: Let_def)
  then have "decryptBlocks md5 secret prev (encryptBlocks md5 secret prev (p # ps))
      = xor_bytes ?blk (md5 (secret @ prev)) @ drop 16 (p # ps)"
    using decryptBlocks_append[OF len] IH by metis
  also have "xor_bytes ?blk (md5 (secret @ prev)) = take 16 (p # ps)"
    using "2.prems"(1) by (intro xor_bytes_inverse) simp
  finally show ?case by (metis append_take_drop_id)
qed simp

lemma trimZeros_pad: "pw \<noteq> [] \<Longrightarrow> last pw \<noteq> 0 \<Longrightarrow> trimZeros (pw @ replicate k 0) = pw"
proof -
  assume "pw \<noteq> []" "last pw \<noteq> 0"
  then have "dropWhile (\<lambda>b. b = 0) (rev pw) = rev pw"
    by (cases pw rule: rev_cases) auto
  moreover have "dropWhile (\<lambda>b. b = 0) (replicate k 0 @ xs) = dropWhile (\<lambda>b. b = 0) xs" for xs :: bytes
    by (induction k) auto
  ultimately show ?thesis by (simp add: trimZeros_def)
qed

subsection \<open>Properties\<close>

text \<open>
  an incoming packet is parsed exactly when it is long enough, its length field is between 20
  and both the datagram's size and 4096, and the bytes after the header are a sequence of
  attributes of at most 253 value bytes; the attributes returned then re-encode to those bytes.
\<close>
theorem parse_exact:
  "parse b = Inr (p, attrs) \<longleftrightarrow>
     20 \<le> lengthField b \<and> lengthField b \<le> length b \<and> lengthField b \<le> 4096
     \<and> drop 20 (take (lengthField b) b) = encAttrs attrs \<and> list_all attr_ok attrs
     \<and> p = \<lparr>Code = b ! 0, ID = b ! 1, Auth = take 16 (drop 4 b), Raw = take (lengthField b) b\<rparr>"
  by (auto simp: parse_def Let_def maxPacket_def res_bind_eq_Inr attributes_iff not_less)

text \<open>
  C25: a request passes the Message-Authenticator check exactly when it has one such attribute, of 16
  bytes, and these bytes are the HMAC of the packet with the attribute's value set to zero.
\<close>
theorem verifyMessageAuthenticator_iff:
  "verifyMessageAuthenticator hmac raw secret = Inr () \<longleftrightarrow>
     lengthField raw \<le> length raw \<and>
     (\<exists>hdr pre v post. ma_layout (take (lengthField raw) raw) hdr pre v post
        \<and> hmac secret (ma_packet hdr pre (replicate 16 0) post) = v)"
proof
  assume ok: "verifyMessageAuthenticator hmac raw secret = Inr ()"
  from verify_has_layout[OF this] obtain hdr pre v post
    where "lengthField raw \<le> length raw" "ma_layout (take (lengthField raw) raw) hdr pre v post" by blast
  with ok verify_layout[OF this, of hmac secret]
  show "lengthField raw \<le> length raw \<and>
     (\<exists>hdr pre v post. ma_layout (take (lengthField raw) raw) hdr pre v post
        \<and> hmac secret (ma_packet hdr pre (replicate 16 0) post) = v)" by auto
next
  assume "lengthField raw \<le> length raw \<and>
     (\<exists>hdr pre v post. ma_layout (take (lengthField raw) raw) hdr pre v post
        \<and> hmac secret (ma_packet hdr pre (replicate 16 0) post) = v)"
  then show "verifyMessageAuthenticator hmac raw secret = Inr ()"
    by (auto simp: verify_layout)
qed

text \<open>
  the check never reads outside the packet, whatever the packet holds.
\<close>
theorem verifyMessageAuthenticator_no_panic:
  "verifyMessageAuthenticator hmac raw secret \<noteq> Inl radiusPanic"
proof
  let ?body = "take (lengthField raw) raw"
  assume panic: "verifyMessageAuthenticator hmac raw secret = Inl radiusPanic"
  then obtain as where len: "20 \<le> lengthField raw" "lengthField raw \<le> length raw"
    and as: "attributes (drop 20 ?body) = Inr as" "countAttr as attrMessageAuthenticator = 1"
    by (auto simp: verifyMessageAuthenticator_def Let_def res_bind_eq_Inl attributes_no_panic
        split: if_splits)
  from as(2) obtain pre ma post where split: "as = pre @ ma # post" "is_MA ma" "\<not> list_ex is_MA pre"
    using countAttr_one by blast
  have body: "?body = take 20 ?body @ encAttrs (pre @ ma # post)"
    using attributes_Inr[OF as(1)] split(1) by (metis append_take_drop_id)
  have "length (take 20 ?body) = 20" using len by simp
  then have off: "maOffset ?body 20 = (if length (Value ma) = 16 then Inr (20 + length (encAttrs pre)) else Inl errBadMA)"
    using body attributes_Inr[OF as(1)] split maOffset_attributes[of pre ma post 20 "take 20 ?body"]
    by metis
  have "length ?body = 20 + length (encAttrs (pre @ ma # post))"
    using arg_cong[OF body, of length] len by simp
  then have "length (Value ma) = 16 \<Longrightarrow> 20 + length (encAttrs pre) + 18 \<le> length ?body" by simp
  with panic len as off show False
    by (auto simp: verifyMessageAuthenticator_def Let_def split: if_splits)
qed



text \<open>
  a password of 1 to 128 bytes that does not end in a zero byte is recovered from its
  User-Password encryption, with the same secret and request authenticator.
\<close>
theorem userPassword_roundtrip:
  assumes "\<forall>x. length (md5 x) = 16" and "pw \<noteq> []" and "length pw \<le> 128" and "last pw \<noteq> 0"
  shows "decryptUserPassword md5 (encryptUserPassword md5 pw secret auth) secret auth = Inr pw"
proof -
  define k where "k = (if length pw mod 16 \<noteq> 0 then 16 - length pw mod 16 else 0)"
  define plain where "plain = pw @ replicate k 0"
  have enc: "encryptUserPassword md5 pw secret auth = encryptBlocks md5 secret auth plain"
    by (auto simp: encryptUserPassword_def plain_def k_def Let_def)
  have pl: "length plain mod 16 = 0" "length plain \<le> 128"
    unfolding plain_def length_append length_replicate k_def using assms(3) by presburger+
  have "length (encryptBlocks md5 secret auth plain) = length plain"
    using assms(1) pl(1) by (rule length_encryptBlocks)
  moreover from this assms(2) have "encryptBlocks md5 secret auth plain \<noteq> []"
    by (auto simp: plain_def)
  ultimately show ?thesis
    using pl assms(2,4) decrypt_encrypt_blocks[OF assms(1) pl(1), of secret auth]
    by (simp add: decryptUserPassword_def enc) (simp add: plain_def trimZeros_pad)
qed

theorem userPassword_roundtrip_witness:
  "decryptUserPassword (\<lambda>x. replicate 16 (of_nat (length x)))
     (encryptUserPassword (\<lambda>x. replicate 16 (of_nat (length x))) [104, 105] [1, 2, 3] (replicate 16 8)) [1, 2, 3] (replicate 16 8)
   = Inr [104, 105]"
  using userPassword_roundtrip[of "\<lambda>x. replicate 16 (of_nat (length x))" "[104, 105]"] by simp

end
