(* ===== verification/Radius_Reply.thy ===== *)
theory Radius_Reply
  imports Radius_Packet Go_Strings
begin

text \<open>
  The reply attributes of the RADIUS server, \<open>internal/radius/reply.go\<close>: the lines an administrator writes,
  their dictionary, and the attribute bytes sent in an Access-Accept. Error texts are those of the code.

  Lemmas: what \<open>EncodeReply\<close> accepts is a list of well-formed attributes within its size limits, so that the
  packet built with it can be parsed again.
\<close>

definition DefaultReply :: string where
  \<open>DefaultReply = Join [
    ''# Smartoptics (vendor 30826, attribute 1, string)'',
    ''Smartoptics-Userrole1 = "admin"'',
    ''# Service-Type = Administrative-User'',
    ''Service-Type = NAS-Prompt-User'',
    ''# Cisco login enable'',
    ''Cisco-AVPair = "shell:priv-lvl=15"'',
    ''# Arista login enable'',
    ''Arista-AVPair = "shell:priv-lvl=15"'',
    ''Arista-AVPair = "shell:roles=network-admin"'',
    ''# Nokia SR OS. "both" is console and ftp. 4 adds netconf.'',
    ''Timetra-Access = both'',
    ''Timetra-Access = 4'',
    ''# Timetra-Access = console'',
    ''# Timetra-Access = ftp'',
    ''# Timetra-Access = netconf'',
    ''# Timetra-Access = grpc'',
    ''Timetra-Profile = "administrative"'',
    ''Timetra-Default-Action = permit-all'',
    ''MikroTik-Group = "write"'',
    ''# Huawei login enable. Privilege is an integer, 0-15.'',
    ''Huawei-Exec-Privilege = 3'',
    ''''] [CHR 0x0A]\<close>

datatype attrKind = kindString | kindInt

record attrDef =
  def_vendor :: "32 word"
  def_typ :: byte
  def_kind :: attrKind
  def_values :: "(string \<times> 32 word) list option"

definition stringDef :: "32 word \<Rightarrow> byte \<Rightarrow> attrDef" where
  "stringDef v t = \<lparr>def_vendor = v, def_typ = t, def_kind = kindString, def_values = None\<rparr>"

definition intDef :: "32 word \<Rightarrow> byte \<Rightarrow> (string \<times> 32 word) list option \<Rightarrow> attrDef" where
  "intDef v t vals = \<lparr>def_vendor = v, def_typ = t, def_kind = kindInt, def_values = vals\<rparr>"

definition replyDictionary :: "(string \<times> attrDef) list" where
  "replyDictionary = [
     (''service-type'', intDef 0 6 (Some [(''login-user'', 1), (''framed-user'', 2), (''administrative-user'', 6), (''nas-prompt-user'', 7)])),
     (''cisco-avpair'', stringDef 9 1),
     (''arista-avpair'', stringDef 30065 1),
     (''smartoptics-userrole1'', stringDef 30826 1),
     (''timetra-access'', intDef 6527 1 (Some [(''ftp'', 1), (''console'', 2), (''both'', 3), (''netconf'', 4), (''grpc'', 8)])),
     (''timetra-profile'', stringDef 6527 4),
     (''timetra-default-action'', intDef 6527 5 (Some [(''permit-all'', 1), (''deny-all'', 2), (''none'', 3)])),
     (''huawei-exec-privilege'', intDef 2011 29 None),
     (''mikrotik-group'', stringDef 14988 3)]"

definition ReplyText :: "string option \<Rightarrow> string" where
  "ReplyText stored = (case stored of None \<Rightarrow> DefaultReply | Some s \<Rightarrow> s)"

subsection \<open>Reading a line\<close>

text \<open>
  \<open>strings.IndexFunc(s, unicode.IsControl)\<close>: the C0 controls and DEL, and the C1 controls, which UTF-8 writes as
  \<open>C2\<close> and a byte below \<open>A0\<close>.
\<close>

fun hasControl :: "string \<Rightarrow> bool" where
  "hasControl [] = False"
| "hasControl (c # s) =
     (let n = of_char c :: nat
      in n < 32 \<or> n = 127 \<or>
         (n = 0xC2 \<and> s \<noteq> [] \<and> 0x80 \<le> (of_char (hd s) :: nat) \<and> (of_char (hd s) :: nat) < 0xA0) \<or> hasControl s)"

text \<open>
  \<open>unicode.IsSpace\<close> of the byte before a \<open>#\<close>, taken as a rune: ASCII white space and the Latin-1 codes 85 and A0.
  \<open>prev\<close> is that byte, \<open>None\<close> at the start of the line.
\<close>

definition isSpaceByte :: "char \<Rightarrow> bool" where
  "isSpaceByte c \<longleftrightarrow> is_space c \<or> of_char c = (0x85 :: nat) \<or> of_char c = (0xA0 :: nat)"

fun commentAt :: "bool \<Rightarrow> char option \<Rightarrow> string \<Rightarrow> nat option" where
  "commentAt inQuote prev [] = None"
| "commentAt inQuote prev (c # s) =
     (if c = CHR 0x22 then map_option Suc (commentAt (\<not> inQuote) (Some c) s)
      else if c = CHR ''#'' \<and> \<not> inQuote \<and> (case prev of None \<Rightarrow> True | Some p \<Rightarrow> isSpaceByte p) then Some 0
      else map_option Suc (commentAt inQuote (Some c) s))"

definition stripInlineComment :: "string \<Rightarrow> string" where
  "stripInlineComment line = (case commentAt False None line of None \<Rightarrow> line | Some i \<Rightarrow> TrimSpace (take i line))"

definition unquote :: "string \<Rightarrow> string" where
  "unquote val = (if length val \<ge> 2 \<and> hd val = CHR 0x22 \<and> last val = CHR 0x22 then butlast (tl val) else val)"

fun splitOn :: "string list \<Rightarrow> string \<Rightarrow> string + string \<times> string" where
  "splitOn [] line = Inl ''expected name = value''"
| "splitOn (op # ops) line =
     (case Index line op of
        None \<Rightarrow> splitOn ops line
      | Some i \<Rightarrow>
          if i = 0 then splitOn ops line
          else let name = TrimSpace (take i line); val = TrimSpace (drop (i + length op) line)
          in if name = [] \<or> val = [] then Inl ''expected name = value''
             else let v = unquote val
             in if v = [] \<or> hasControl v then Inl ''empty or invalid value'' else Inr (name, v))"

definition splitReply :: "string \<Rightarrow> string + string \<times> string" where
  "splitReply line = splitOn ['':='', ''+='', ''=''] line"

definition lookupReply :: "string \<Rightarrow> attrDef option" where
  "lookupReply name =
     (let lower = ToLower name
      in case map_of replyDictionary lower of
           Some d \<Rightarrow> Some d
         | None \<Rightarrow>
             if \<not> HasPrefix lower ''26.'' then None
             else (case Cut (drop 3 lower) (CHR ''.'') of
                 None \<Rightarrow> None
               | Some (vendorStr, rest) \<Rightarrow>
                   let (typeStr, kindStr) = (case IndexByte rest (CHR '':'') of None \<Rightarrow> (rest, []) | Some i \<Rightarrow> (take i rest, drop (i + 1) rest))
                   in (case (ParseUint vendorStr 32, ParseUint typeStr 8) of
                       (Some vendor, Some typ) \<Rightarrow>
                         if typ = 0 \<or> vendor = 0 then None
                         else if kindStr = [] \<or> kindStr = ''string'' then Some (stringDef (of_nat vendor) (of_nat typ))
                         else if kindStr = ''integer'' then Some (intDef (of_nat vendor) (of_nat typ) None)
                         else None
                     | _ \<Rightarrow> None)))"

subsection \<open>Encoding\<close>

definition replyInt :: "attrDef \<Rightarrow> string \<Rightarrow> string + 32 word" where
  "replyInt d val =
     (case ParseUint val 32 of
        Some n \<Rightarrow> Inr (of_nat n)
      | None \<Rightarrow>
          (case def_values d of
             None \<Rightarrow> Inl (''unknown value '' @ Quote val)
           | Some vals \<Rightarrow>
               (case map_of vals (ToLower val) of
                  Some n \<Rightarrow> Inr n
                | None \<Rightarrow> Inl (''unknown value '' @ Quote val))))"

definition encodeValue :: "attrDef \<Rightarrow> string \<Rightarrow> string + bytes" where
  "encodeValue d val =
     (case def_kind d of
        kindString \<Rightarrow> if length val > 247 then Inl ''value is too long'' else Inr (bytes_of val)
      | kindInt \<Rightarrow> res_bind (replyInt d val) (\<lambda>n. Inr (put_be 4 (unat n))))"

definition appendVSA :: "32 word \<Rightarrow> byte \<Rightarrow> bytes \<Rightarrow> bytes" where
  "appendVSA vendor typ val = appendAttr [] 26 (put_be 4 (unat vendor) @ [typ, of_nat (2 + length val)] @ val)"

definition encodeReplyLine :: "string \<Rightarrow> string + bytes" where
  "encodeReplyLine line0 =
     res_bind (splitReply (stripInlineComment line0)) (\<lambda>(name, val).
       case lookupReply name of
         None \<Rightarrow> Inl (''unknown attribute '' @ Quote name)
       | Some d \<Rightarrow>
           (case encodeValue d val of
              Inl e \<Rightarrow> Inl (name @ '': '' @ e)
            | Inr v \<Rightarrow> Inr (if def_vendor d = 0 then appendAttr [] (def_typ d) v else appendVSA (def_vendor d) (def_typ d) v)))"

text \<open>The loop over the lines: the line number, the count of attributes and the bytes so far.\<close>

fun encodeLines :: "nat \<Rightarrow> nat \<Rightarrow> bytes \<Rightarrow> string list \<Rightarrow> string + bytes" where
  "encodeLines i n out [] = Inr out"
| "encodeLines i n out (raw # rest) =
     (let line = TrimSpace raw
      in if line = [] \<or> HasPrefix line ''#'' then encodeLines (i + 1) n out rest
         else case encodeReplyLine line of
             Inl e \<Rightarrow> Inl (''line '' @ Itoa (i + 1) @ '': '' @ e)
           | Inr attr \<Rightarrow>
               if n + 1 > 40 then Inl ''more than 40 reply attributes''
               else encodeLines (i + 1) (n + 1) (out @ attr) rest)"

definition EncodeReply :: "string \<Rightarrow> string + bytes" where
  "EncodeReply text =
     res_bind (encodeLines 0 0 [] (Split text (CHR 0x0A))) (\<lambda>out.
       if length out > 3500 then Inl ''reply attributes are too large'' else Inr out)"

definition ValidateReply :: "string \<Rightarrow> string option" where
  "ValidateReply text = (case EncodeReply text of Inl e \<Rightarrow> Some e | Inr _ \<Rightarrow> None)"

subsection \<open>What is accepted is well formed\<close>

lemma lookupReply_standard:
  assumes "lookupReply name = Some d" and "def_vendor d = 0"
  shows "def_typ d = 6 \<and> def_kind d = kindInt"
proof -
  have "of_nat vendor \<noteq> (0 :: 32 word)" if "ParseUint s 32 = Some vendor" "vendor \<noteq> 0" for s vendor
    using that by (auto simp: ParseUint_def word_of_nat_eq_0_iff dvd_imp_le split: if_splits option.splits dest!: dvd_imp_le)
  then show ?thesis using assms
    by (auto simp: lookupReply_def replyDictionary_def stringDef_def intDef_def Let_def split: option.splits if_splits prod.splits)
qed

lemma encodeValue_length: "encodeValue d val = Inr v \<Longrightarrow> length v \<le> 247"
  by (auto simp: encodeValue_def res_bind_eq_Inr bytes_of_def split: attrKind.splits if_splits)

lemma encodeReplyLine_attr:
  assumes "encodeReplyLine line = Inr bs"
  shows "\<exists>a. bs = encAttr a \<and> attr_ok a \<and> \<not> is_MA a"
proof -
  obtain name val where "(case lookupReply name of None \<Rightarrow> Inl (''unknown attribute '' @ Quote name) | Some d \<Rightarrow>
      (case encodeValue d val of Inl e \<Rightarrow> Inl (name @ '': '' @ e)
       | Inr v \<Rightarrow> Inr (if def_vendor d = 0 then appendAttr [] (def_typ d) v else appendVSA (def_vendor d) (def_typ d) v))) = Inr bs"
    using assms unfolding encodeReplyLine_def res_bind_eq_Inr by (auto split del: if_split)
  then obtain d v where d: "lookupReply name = Some d" "encodeValue d val = Inr v"
      "bs = (if def_vendor d = 0 then appendAttr [] (def_typ d) v else appendVSA (def_vendor d) (def_typ d) v)"
    by (cases "lookupReply name"; cases "encodeValue (the (lookupReply name)) val") (auto split del: if_split)
  have len: "length v \<le> 247" by (rule encodeValue_length[OF d(2)])
  show ?thesis
  proof (cases "def_vendor d = 0")
    case True
    then have "bs = encAttr \<lparr>Type = 6, Value = v\<rparr>" using d lookupReply_standard by (simp add: encAttr_def)
    with len show ?thesis by (intro exI[of _ "\<lparr>Type = 6, Value = v\<rparr>"]) (simp add: attr_ok_def attrMessageAuthenticator_def)
  next
    case False
    let ?a = "\<lparr>Type = 26, Value = put_be 4 (unat (def_vendor d)) @ [def_typ d, of_nat (2 + length v)] @ v\<rparr>"
    have "bs = encAttr ?a" using False d(3) by (simp add: encAttr_def appendVSA_def)
    with len show ?thesis by (intro exI[of _ ?a]) (simp add: attr_ok_def attrMessageAuthenticator_def)
  qed
qed

lemma encodeLines_attrs:
  assumes "encodeLines i n (encAttrs ex) lines = Inr out" and "list_all attr_ok ex" and "\<not> list_ex is_MA ex"
    and "length ex = n" and "n \<le> 40"
  shows "\<exists>ex'. out = encAttrs ex' \<and> list_all attr_ok ex' \<and> \<not> list_ex is_MA ex' \<and> length ex' \<le> 40"
  using assms
proof (induction lines arbitrary: i n ex)
  case Nil
  then show ?case by auto
next
  case (Cons raw rest)
  show ?case
  proof (cases "TrimSpace raw = [] \<or> HasPrefix (TrimSpace raw) ''#''")
    case True
    with Cons show ?thesis by (auto simp: Let_def)
  next
    case False
    then obtain bs where bs: "encodeReplyLine (TrimSpace raw) = Inr bs" "n + 1 \<le> 40"
        "encodeLines (i + 1) (n + 1) (encAttrs ex @ bs) rest = Inr out"
      using Cons.prems(1) by (auto simp: Let_def split: sum.splits if_splits)
    then obtain a where a: "bs = encAttr a" "attr_ok a" "\<not> is_MA a" using encodeReplyLine_attr by blast
    show ?thesis
      by (rule Cons.IH[of "i + 1" "n + 1" "ex @ [a]"]) (use bs a Cons.prems in auto)
  qed
qed

text \<open>
  Reply attributes that are accepted are sent as they are meant: the bytes of EncodeReply are at most 40
  well-formed attributes in at most 3500 bytes, none of them a Message-Authenticator, and the packet parser reads
  the same attributes back from them.
\<close>

theorem EncodeReply_wellformed:
  assumes "EncodeReply text = Inr out"
  shows "\<exists>ex. out = encAttrs ex \<and> list_all attr_ok ex \<and> \<not> list_ex is_MA ex \<and> length ex \<le> 40 \<and>
    length out \<le> 3500 \<and> attributes out = Inr ex"
proof -
  have "encodeLines 0 0 (encAttrs []) (Split text (CHR 0x0A)) = Inr out" "length out \<le> 3500"
    using assms by (auto simp: EncodeReply_def res_bind_eq_Inr split: if_splits)
  then obtain ex where "out = encAttrs ex" "list_all attr_ok ex" "\<not> list_ex is_MA ex" "length ex \<le> 40" "length out \<le> 3500"
    using encodeLines_attrs[of 0 0 "[]"] by auto
  then show ?thesis using attributes_encAttrs by auto
qed

theorem EncodeReply_wellformed_witness:
  "\<exists>ex. [6, 6, 0, 0, 0, 7 :: byte] = encAttrs ex \<and> list_all attr_ok ex \<and> attributes [6, 6, 0, 0, 0, 7] = Inr ex"
proof -
  have "lookupReply ''service-type'' = Some (intDef 0 6 (Some [(''login-user'', 1), (''framed-user'', 2), (''administrative-user'', 6), (''nas-prompt-user'', 7)]))"
    by (simp add: lookupReply_def replyDictionary_def ToLower_def lower_char_def Let_def)
  moreover have four: "(4 :: nat) = Suc (Suc (Suc (Suc 0)))" by simp
  have "put_be 4 7 = [0, 0, 0, 7]" unfolding four put_be.simps by simp
  moreover have "splitReply (stripInlineComment ''service-type = 7'') = Inr (''service-type'', ''7'')"
    by (simp add: stripInlineComment_def splitReply_def unquote_def is_space_def TrimSpace_def TrimLeft_def HasPrefix_def Let_def)
  ultimately have "encodeReplyLine ''service-type = 7'' = Inr [6, 6, 0, 0, 0, 7]"
    by (simp add: encodeReplyLine_def encodeValue_def replyInt_def appendAttr_def intDef_def ParseUint_def digit_val_def)
  then have "EncodeReply ''service-type = 7'' = Inr [6, 6, 0, 0, 0, 7]"
    by (simp add: EncodeReply_def is_space_def TrimSpace_def TrimLeft_def HasPrefix_def Let_def)
  from EncodeReply_wellformed[OF this] show ?thesis by blast
qed

end
