(* ===== verification/Netip.thy ===== *)
theory Netip
  imports Factum_Prelude
begin

text \<open>
  Go's \<open>net/netip\<close> values as the sources use them: addresses (IPv4, or IPv6 with an optional zone)
  and CIDR prefixes, with containment, overlap and masking written as the library writes them, on
  32-bit and 128-bit words. The lemmas give each operation its meaning as a set of addresses.
\<close>

unbundle bit_operations_syntax

datatype addr = A4 "32 word" | A6 "128 word" string

datatype pfx = Pfx (pfx_addr: addr) (Bits: nat)

fun BitLen :: "addr \<Rightarrow> nat" where
  "BitLen (A4 _) = 32"
| "BitLen (A6 _ _) = 128"

fun Is4 :: "addr \<Rightarrow> bool" where
  "Is4 (A4 _) = True"
| "Is4 (A6 _ _) = False"

subsection \<open>Leading bits of a word\<close>

definition same_top :: "nat \<Rightarrow> 'a::len word \<Rightarrow> 'a word \<Rightarrow> bool" where
  "same_top n x y \<longleftrightarrow> drop_bit (LENGTH('a) - n) (x XOR y) = 0"

definition mask_top :: "nat \<Rightarrow> 'a::len word \<Rightarrow> 'a word" where
  "mask_top n x = x AND NOT (mask (LENGTH('a) - n))"

lemma same_top_bits:
  "same_top n x (y :: 'a::len word) \<longleftrightarrow> (\<forall>i < LENGTH('a). LENGTH('a) - n \<le> i \<longrightarrow> bit x i = bit y i)"
proof -
  let ?k = "LENGTH('a) - n"
  have "w = 0 \<longleftrightarrow> (\<forall>i. \<not> bit w i)" for w :: "'a word"
    by (auto intro: bit_word_eqI)
  then have "same_top n x y \<longleftrightarrow> (\<forall>i. \<not> bit (drop_bit ?k (x XOR y)) i)"
    by (simp only: same_top_def)
  also have "\<dots> \<longleftrightarrow> (\<forall>i. bit x (?k + i) = bit y (?k + i))"
    by (simp add: bit_drop_bit_eq bit_xor_iff)
  also have "\<dots> \<longleftrightarrow> (\<forall>i. ?k \<le> i \<longrightarrow> bit x i = bit y i)"
    by (metis le_add1 le_add_diff_inverse)
  also have "\<dots> \<longleftrightarrow> (\<forall>i < LENGTH('a). ?k \<le> i \<longrightarrow> bit x i = bit y i)"
    by (auto dest: bit_imp_le_length)
  finally show ?thesis .
qed

lemma same_top_refl [simp]: "same_top n x x"
  by (simp add: same_top_bits)

lemma same_top_sym: "same_top n x y \<longleftrightarrow> same_top n y x"
  by (auto simp: same_top_bits)

lemma same_top_trans: "same_top n x y \<Longrightarrow> same_top n y z \<Longrightarrow> same_top n x z"
  by (simp add: same_top_bits)

lemma same_top_mono: "n \<le> m \<Longrightarrow> same_top m x y \<Longrightarrow> same_top n x y"
  by (simp add: same_top_bits)

lemma same_top_0 [simp]: "same_top 0 x y"
  by (simp add: same_top_bits)

lemma bit_mask_top:
  "bit (mask_top n (x :: 'a::len word)) i \<longleftrightarrow> LENGTH('a) - n \<le> i \<and> bit x i"
  by (auto simp: mask_top_def bit_simps dest: bit_imp_le_length)

lemma mask_top_0 [simp]: "mask_top 0 (x :: 'a::len word) = 0"
  by (rule bit_word_eqI) (simp add: bit_mask_top)

lemma mask_top_eq_iff: "mask_top n x = mask_top n y \<longleftrightarrow> same_top n x (y :: 'a::len word)"
  unfolding same_top_bits bit_eq_iff bit_mask_top by (auto dest: bit_imp_le_length)

lemma mask_top_idem [simp]: "mask_top n (mask_top n x) = mask_top n x"
  by (simp add: mask_top_def and.assoc)

lemma same_top_mask: "same_top n (mask_top n x) x"
  by (simp add: mask_top_eq_iff[symmetric])

text \<open>A longer prefix is a proper part of a shorter one.\<close>

lemma same_top_strict:
  assumes "n < m" and "n < LENGTH('a)"
  shows "\<exists>y :: 'a::len word. same_top n x y \<and> \<not> same_top m x y"
proof -
  define q where "q = LENGTH('a) - Suc n"
  have q: "q < LENGTH('a) - n" "q < LENGTH('a)" "LENGTH('a) - m \<le> q" using assms by (auto simp: q_def)
  have flip: "bit (flip_bit q x) i \<longleftrightarrow> (if i = q then \<not> bit x i else bit x i)" if "i < LENGTH('a)" for i
    using that q by (auto simp: bit_flip_bit_iff)
  have "same_top n x (flip_bit q x)"
    unfolding same_top_bits using q(1) by (simp add: flip)
  moreover have "\<not> same_top m x (flip_bit q x)"
    unfolding same_top_bits using q(2,3) by (auto simp: flip intro!: exI[of _ q])
  ultimately show ?thesis by blast
qed

text \<open>The words that share the first bits form a range of numbers.\<close>

lemma same_top_div:
  "same_top n x (y :: 'a::len word) \<longleftrightarrow> unat x div 2 ^ (LENGTH('a) - n) = unat y div 2 ^ (LENGTH('a) - n)"
proof -
  let ?k = "LENGTH('a) - n"
  have "a XOR b = 0 \<longleftrightarrow> a = b" for a b :: "'a word"
    by (metis xor.right_neutral xor_self_eq xor.assoc)
  then have "same_top n x y \<longleftrightarrow> drop_bit ?k x = drop_bit ?k y"
    by (simp add: same_top_def drop_bit_xor)
  also have "\<dots> \<longleftrightarrow> unat (drop_bit ?k x) = unat (drop_bit ?k y)" by (simp add: word_unat_eq_iff)
  finally show ?thesis by (simp only: unat_drop_bit_eq) (simp add: drop_bit_eq_div)
qed

lemma mask_top_dvd:
  assumes "mask_top n w = (w :: 'a::len word)"
  shows "2 ^ (LENGTH('a) - n) dvd unat w"
proof -
  let ?k = "LENGTH('a) - n"
  have "take_bit ?k w = 0"
    by (rule bit_word_eqI) (metis assms bit_mask_top bit_take_bit_iff bit_0_eq bot_apply bot_bool_def linorder_not_le)
  then have "take_bit ?k (unat w) = 0" by (metis unsigned_take_bit_eq unsigned_0)
  then show ?thesis by (simp add: take_bit_eq_mod dvd_eq_mod_eq_0)
qed

lemma same_top_range:
  assumes "mask_top n w = (w :: 'a::len word)"
  shows "same_top n v w \<longleftrightarrow> unat w \<le> unat v \<and> unat v < unat w + 2 ^ (LENGTH('a) - n)"
proof -
  define m where "m = (2 :: nat) ^ (LENGTH('a) - n)"
  obtain q where q: "unat w = q * m" using mask_top_dvd[OF assms] by (auto simp: m_def mult.commute)
  have "0 < m" by (simp add: m_def)
  then have "unat v div m = q \<longleftrightarrow> q * m \<le> unat v \<and> unat v < q * m + m"
    by (metis div_nat_eqI less_eq_div_iff_mult_less_eq add.commute mult.commute mult_Suc order_refl dividend_less_times_div mult_Suc_right)
  then show ?thesis using q \<open>0 < m\<close> by (simp add: same_top_div m_def[symmetric])
qed

lemma block_end_le:
  assumes "mask_top n w = (w :: 'a::len word)"
  shows "unat w + 2 ^ (LENGTH('a) - n) \<le> 2 ^ LENGTH('a)"
proof -
  let ?m = "(2 :: nat) ^ (LENGTH('a) - n)"
  have "?m dvd 2 ^ LENGTH('a)" by (simp add: le_imp_power_dvd)
  moreover have "?m dvd unat w" by (rule mask_top_dvd[OF assms])
  moreover have "unat w < 2 ^ LENGTH('a)" by (rule unsigned_less)
  ultimately show ?thesis
    by (metis dvd_add_right_iff dvd_imp_le add.commute le_add_diff_inverse less_imp_le_nat zero_less_diff nat_add_left_cancel_le dvd_diff_nat)
qed

subsection \<open>Prefix operations\<close>

fun withoutZone :: "addr \<Rightarrow> addr" where
  "withoutZone (A4 w) = A4 w"
| "withoutZone (A6 w z) = A6 w []"

text \<open>\<open>Addr.Prefix(b)\<close> and \<open>Prefix.Masked\<close>.\<close>

fun addr_prefix :: "addr \<Rightarrow> nat \<Rightarrow> addr" where
  "addr_prefix (A4 w) b = A4 (mask_top b w)"
| "addr_prefix (A6 w z) b = A6 (mask_top b w) []"

definition Masked :: "pfx \<Rightarrow> pfx" where
  "Masked p = Pfx (addr_prefix (pfx_addr p) (Bits p)) (Bits p)"

fun ContainsAddr :: "pfx \<Rightarrow> addr \<Rightarrow> bool" where
  "ContainsAddr (Pfx (A4 w) b) (A4 v) = same_top b v w"
| "ContainsAddr (Pfx (A6 w _) b) (A6 v z) = (z = [] \<and> same_top b v w)"
| "ContainsAddr _ _ = False"

definition Overlaps :: "pfx \<Rightarrow> pfx \<Rightarrow> bool" where
  "Overlaps p q =
     (if p = q then True
      else if Is4 (pfx_addr p) \<noteq> Is4 (pfx_addr q) then False
      else let n = min (Bits p) (Bits q)
           in if n = 0 then True else addr_prefix (pfx_addr p) n = addr_prefix (pfx_addr q) n)"

text \<open>What \<open>netip.ParsePrefix\<close> followed by \<open>Masked\<close> returns: in range, no zone, host bits zero.\<close>

definition valid_pfx :: "pfx \<Rightarrow> bool" where
  "valid_pfx p \<longleftrightarrow> Bits p \<le> BitLen (pfx_addr p) \<and> Masked p = p"

text \<open>\<open>Addr.Compare\<close> as an order key, and \<open>Addr.Next\<close>.\<close>

fun addr_le :: "addr \<Rightarrow> addr \<Rightarrow> bool" where
  "addr_le (A4 v) (A4 w) = (v \<le> w)"
| "addr_le (A4 _) (A6 _ _) = True"
| "addr_le (A6 _ _) (A4 _) = False"
| "addr_le (A6 v y) (A6 w z) = (v < w \<or> v = w \<and> (y = z \<or> length y = 0 \<or> length z \<noteq> 0))"

fun Next :: "addr \<Rightarrow> addr option" where
  "Next (A4 w) = (if w = - 1 then None else Some (A4 (w + 1)))"
| "Next (A6 w z) = (if w = - 1 then None else Some (A6 (w + 1) z))"

subsection \<open>Meaning as address sets\<close>

definition addrs_of :: "pfx \<Rightarrow> addr set" where
  "addrs_of p = {a. ContainsAddr p a}"

lemma valid_pfx_cases:
  assumes "valid_pfx p"
  obtains (v4) w b where "p = Pfx (A4 w) b" "b \<le> 32" "mask_top b w = w"
  | (v6) w b where "p = Pfx (A6 w []) b" "b \<le> 128" "mask_top b w = w"
proof -
  obtain a b where p: "p = Pfx a b" by (cases p) auto
  show thesis
  proof (cases a)
    case (A4 w)
    with assms p show thesis by (intro v4[of w b]) (auto simp: valid_pfx_def Masked_def)
  next
    case (A6 w z)
    with assms p show thesis by (intro v6[of w b]) (auto simp: valid_pfx_def Masked_def)
  qed
qed

lemma valid_Masked [netip_simps]: "Bits p \<le> BitLen (pfx_addr p) \<Longrightarrow> valid_pfx (Masked p)"
  by (cases "pfx_addr p") (auto simp: valid_pfx_def Masked_def)

lemma pfx_addr_in: "valid_pfx p \<Longrightarrow> ContainsAddr p (pfx_addr p)"
  by (erule valid_pfx_cases) auto

lemma masked_same_top: "mask_top b w = w \<Longrightarrow> mask_top b v = v \<Longrightarrow> same_top b v w \<longleftrightarrow> v = w"
  by (metis mask_top_eq_iff)


text \<open>Reading a prefix as a block of one word size, for the proofs.\<close>

lemma addrs_v4: "addrs_of (Pfx (A4 w) b) = A4 ` {v. same_top b v w}"
proof -
  have "ContainsAddr (Pfx (A4 w) b) a \<longleftrightarrow> (\<exists>v. a = A4 v \<and> same_top b v w)" for a
    by (cases a) auto
  then show ?thesis by (auto simp: addrs_of_def)
qed

lemma addrs_v6: "addrs_of (Pfx (A6 w z) b) = (\<lambda>v. A6 v []) ` {v. same_top b v w}"
proof -
  have "ContainsAddr (Pfx (A6 w z) b) a \<longleftrightarrow> (\<exists>v. a = A6 v [] \<and> same_top b v w)" for a
    by (cases a) auto
  then show ?thesis by (auto simp: addrs_of_def)
qed

lemma block_subset:
  fixes v w :: "'a::len word"
  assumes "b \<le> LENGTH('a)"
  shows "{x. same_top c x v} \<subseteq> {x. same_top b x w} \<longleftrightarrow> b \<le> c \<and> same_top b v w"
proof
  assume sub: "{x. same_top c x v} \<subseteq> {x. same_top b x w}"
  then have vw: "same_top b v w" using subsetD[OF sub, of v] by simp
  have "b \<le> c"
  proof (rule ccontr)
    assume "\<not> b \<le> c"
    then obtain y where "same_top c v y" "\<not> same_top b v y"
      using same_top_strict[of c b v] assms by auto
    then show False using sub vw same_top_sym same_top_trans by blast
  qed
  with vw show "b \<le> c \<and> same_top b v w" by simp
qed (auto intro: same_top_trans same_top_mono)

lemma block_meet:
  "(\<exists>x. same_top b x w \<and> same_top c x v) \<longleftrightarrow> same_top (min b c) v (w :: 'a::len word)"
proof
  assume "\<exists>x. same_top b x w \<and> same_top c x v"
  then obtain x where "same_top b x w" "same_top c x v" by blast
  then show "same_top (min b c) v w"
    using same_top_mono[of "min b c"] same_top_sym same_top_trans by (metis min.cobounded1 min.cobounded2)
next
  assume "same_top (min b c) v w"
  then show "\<exists>x. same_top b x w \<and> same_top c x v"
    by (cases "b \<le> c") (auto simp: min_def same_top_sym intro: exI[of _ v] exI[of _ w])
qed

lemma Overlaps_iff:
  assumes "valid_pfx p" and "valid_pfx q"
  shows "Overlaps p q \<longleftrightarrow> addrs_of p \<inter> addrs_of q \<noteq> {}"
proof -
  have nonempty: "addrs_of p \<noteq> {}" using pfx_addr_in[OF assms(1)] by (auto simp: addrs_of_def)
  have img: "f ` A \<inter> f ` B \<noteq> {} \<longleftrightarrow> (\<exists>x \<in> A. x \<in> B)" if "inj f" for f :: "'a \<Rightarrow> addr" and A B
    using that by (auto simp: inj_def)
  from assms(1) show ?thesis
  proof (cases rule: valid_pfx_cases)
    case p: (v4 w b)
    from assms(2) show ?thesis
    proof (cases rule: valid_pfx_cases)
      case (v4 v c)
      with p nonempty show ?thesis
        using block_meet[of b w c v] img[of A4 "{x. same_top b x w}" "{x. same_top c x v}"]
        by (auto simp: Overlaps_def addrs_v4 Let_def mask_top_eq_iff same_top_sym inj_def)
    qed (use p in \<open>auto simp: Overlaps_def addrs_v4 addrs_v6\<close>)
  next
    case p: (v6 w b)
    from assms(2) show ?thesis
    proof (cases rule: valid_pfx_cases)
      case (v6 v c)
      with p nonempty show ?thesis
        using block_meet[of b w c v] img[of "\<lambda>x. A6 x []" "{x. same_top b x w}" "{x. same_top c x v}"]
        by (auto simp: Overlaps_def addrs_v6 Let_def mask_top_eq_iff same_top_sym inj_def)
    qed (use p in \<open>auto simp: Overlaps_def addrs_v4 addrs_v6\<close>)
  qed
qed

end
