(* ===== verification/Netip_Text.thy ===== *)
theory Netip_Text
  imports Netip Go_Strings
begin

text \<open>
  The text form of addresses and prefixes: \<open>netip.ParseAddr\<close>, \<open>netip.ParsePrefix\<close> and the \<open>String\<close>
  methods of Go's standard library, which decide what the sources store in and read from their
  string columns. The library's error texts are not used by the sources, so a parse error is \<open>None\<close>.
  An IPv6 address is handled as its eight 16-bit groups. The main lemmas are the round trips.
\<close>

subsection \<open>IPv4\<close>

fun parseIPv4Fields :: "char option \<Rightarrow> nat \<Rightarrow> nat \<Rightarrow> nat list \<Rightarrow> string \<Rightarrow> nat list option" where
  "parseIPv4Fields prev val digLen fields [] =
     (if length fields < 3 then None else Some (fields @ [val]))"
| "parseIPv4Fields prev val digLen fields (c # s) =
     (case digit_val c of
        Some d \<Rightarrow>
          if digLen = 1 \<and> val = 0 then None
          else if val * 10 + d > 255 then None
          else parseIPv4Fields (Some c) (val * 10 + d) (Suc digLen) fields s
      | None \<Rightarrow>
          if c = CHR ''.'' then
            (if prev = None \<or> s = [] \<or> prev = Some (CHR ''.'') then None
             else if length fields = 3 then None
             else parseIPv4Fields (Some c) 0 0 (fields @ [val]) s)
          else None)"

definition nat_of_digits :: "nat \<Rightarrow> nat list \<Rightarrow> nat" where
  "nat_of_digits base ds = fold (\<lambda>d n. n * base + d) ds 0"

definition parseIPv4 :: "string \<Rightarrow> addr option" where
  "parseIPv4 s = map_option (\<lambda>f. A4 (of_nat (nat_of_digits 256 f))) (parseIPv4Fields None 0 0 [] s)"

definition octets :: "32 word \<Rightarrow> nat list" where
  "octets w = map (\<lambda>k. unat w div 256 ^ k mod 256) [3, 2, 1, 0]"

definition string4 :: "nat list \<Rightarrow> string" where
  "string4 os = Join (map Itoa os) ''.''"

subsection \<open>IPv6\<close>

definition hex_val :: "char \<Rightarrow> nat option" where
  "hex_val c =
     (let n = of_char c :: nat
      in if 48 \<le> n \<and> n \<le> 57 then Some (n - 48)
         else if 97 \<le> n \<and> n \<le> 102 then Some (n - 87)
         else if 65 \<le> n \<and> n \<le> 70 then Some (n - 55)
         else None)"

fun hexField :: "nat \<Rightarrow> nat \<Rightarrow> string \<Rightarrow> (nat \<times> nat \<times> string) option" where
  "hexField off acc [] = Some (acc, off, [])"
| "hexField off acc (c # s) =
     (case hex_val c of
        None \<Rightarrow> Some (acc, off, c # s)
      | Some d \<Rightarrow>
          if off > 3 then None
          else if acc * 16 + d > 65535 then None
          else hexField (Suc off) (acc * 16 + d) s)"

lemma hexField_length [termination_simp]:
  "hexField off acc s = Some (a, o', r) \<Longrightarrow> length r + (o' - off) = length s \<and> off \<le> o'"
proof (induction off acc s rule: hexField.induct)
  case (2 off acc c s)
  then show ?case by (fastforce split: option.splits if_splits)
qed simp

text \<open>
  The group loop: \<open>groups\<close> are the fields read so far, \<open>ell\<close> the position of \<open>::\<close> if seen. It returns
  the groups, the position and the unread text.
\<close>

function v6Loop :: "nat list \<Rightarrow> nat option \<Rightarrow> string \<Rightarrow> (nat list \<times> nat option \<times> string) option" where
  "v6Loop groups ell s =
     (if length groups < 8 then
        (case hexField 0 0 s of
           None \<Rightarrow> None
         | Some (acc, off, rest) \<Rightarrow>
             if off = 0 then None
             else if rest \<noteq> [] \<and> hd rest = CHR ''.'' then
               (if ell = None \<and> length groups \<noteq> 6 then None
                else if length groups + 2 > 8 then None
                else case parseIPv4Fields None 0 0 [] s of
                  None \<Rightarrow> None
                | Some f \<Rightarrow> Some (groups @ [f ! 0 * 256 + f ! 1, f ! 2 * 256 + f ! 3], ell, []))
             else if rest = [] then Some (groups @ [acc], ell, [])
             else if hd rest \<noteq> CHR '':'' then None
             else if tl rest = [] then None
             else if hd (tl rest) = CHR '':'' then
               (if ell \<noteq> None then None
                else if tl (tl rest) = [] then Some (groups @ [acc], Some (Suc (length groups)), [])
                else v6Loop (groups @ [acc]) (Some (Suc (length groups))) (tl (tl rest)))
             else v6Loop (groups @ [acc]) ell (tl rest))
      else Some (groups, ell, s))"
  by pat_completeness auto
termination
  by (relation "measure (\<lambda>(groups, ell, s). length s)")
    (auto dest!: hexField_length simp: neq_Nil_conv)

declare v6Loop.simps [simp del]

definition v6Expand :: "nat list \<times> nat option \<times> string \<Rightarrow> nat list option" where
  "v6Expand r = (case r of (groups, ell, s) \<Rightarrow>
     if s \<noteq> [] then None
     else if length groups < 8 then
       (case ell of
          None \<Rightarrow> None
        | Some e \<Rightarrow> Some (take e groups @ replicate (8 - length groups) 0 @ drop e groups))
     else if ell \<noteq> None then None else Some groups)"

definition v6Groups :: "string \<Rightarrow> nat list option" where
  "v6Groups s =
     (if take 2 s = ''::'' then
        (if drop 2 s = [] then Some (replicate 8 0)
         else Option.bind (v6Loop [] (Some 0) (drop 2 s)) v6Expand)
      else Option.bind (v6Loop [] None s) v6Expand)"

definition parseIPv6 :: "string \<Rightarrow> addr option" where
  "parseIPv6 inp =
     (case Cut inp (CHR ''%'') of
        None \<Rightarrow> map_option (\<lambda>g. A6 (of_nat (nat_of_digits 65536 g)) []) (v6Groups inp)
      | Some (s, zone) \<Rightarrow>
          if zone = [] then None
          else map_option (\<lambda>g. A6 (of_nat (nat_of_digits 65536 g)) zone) (v6Groups s))"

definition groups_of :: "128 word \<Rightarrow> nat list" where
  "groups_of w = map (\<lambda>k. unat w div 65536 ^ k mod 65536) [7, 6, 5, 4, 3, 2, 1, 0]"

definition hex_digit :: "nat \<Rightarrow> char" where
  "hex_digit n = (if n < 10 then char_of (48 + n) else char_of (87 + n))"

definition appendHex :: "nat \<Rightarrow> string" where
  "appendHex x =
     (if x \<ge> 4096 then [hex_digit (x div 4096)] else [])
     @ (if x \<ge> 256 then [hex_digit (x div 256 mod 16)] else [])
     @ (if x \<ge> 16 then [hex_digit (x div 16 mod 16)] else [])
     @ [hex_digit (x mod 16)]"

text \<open>The longest run of at least two zero groups, leftmost if several: start and end.\<close>

definition zeroRun :: "nat list \<Rightarrow> (nat \<times> nat) option" where
  "zeroRun gs = fold (\<lambda>i best.
       let l = length (takeWhile (\<lambda>g. g = 0) (drop i gs));
           cur = (case best of None \<Rightarrow> 0 | Some (a, b) \<Rightarrow> b - a)
       in if l \<ge> 2 \<and> l > cur then Some (i, i + l) else best) [0..<length gs] None"

definition string6 :: "nat list \<Rightarrow> string" where
  "string6 gs =
     (if take 6 gs = [0, 0, 0, 0, 0, 65535]
      then ''::ffff:'' @ string4 [gs ! 6 div 256, gs ! 6 mod 256, gs ! 7 div 256, gs ! 7 mod 256]
      else case zeroRun gs of
        None \<Rightarrow> Join (map appendHex gs) '':''
      | Some (a, b) \<Rightarrow>
          Join (map appendHex (take a gs)) '':'' @ ''::'' @ Join (map appendHex (drop b gs)) '':'')"

subsection \<open>Addresses and prefixes\<close>

fun parseAddrScan :: "string \<Rightarrow> string \<Rightarrow> addr option" where
  "parseAddrScan inp [] = None"
| "parseAddrScan inp (c # s) =
     (if c = CHR ''.'' then parseIPv4 inp
      else if c = CHR '':'' then parseIPv6 inp
      else if c = CHR ''%'' then None
      else parseAddrScan inp s)"

definition ParseAddr :: "string \<Rightarrow> addr option" where
  "ParseAddr s = parseAddrScan s s"

fun addr_string :: "addr \<Rightarrow> string" where
  "addr_string (A4 w) = string4 (octets w)"
| "addr_string (A6 w z) = string6 (groups_of w) @ (if z = [] then [] else CHR ''%'' # z)"

fun has_zone :: "addr \<Rightarrow> bool" where
  "has_zone (A4 w) = False"
| "has_zone (A6 w z) = (z \<noteq> [])"

text \<open>
  \<open>strconv.Atoi\<close> after the check that refuses a sign and leading zeros: a decimal number. (A single
  \<open>+\<close> or \<open>-\<close> has no digits and fails as well.)
\<close>

definition netipParsePrefix :: "string \<Rightarrow> pfx option" where
  "netipParsePrefix s =
     (case LastIndexByte s (CHR ''/'') of
        None \<Rightarrow> None
      | Some i \<Rightarrow>
          (case ParseAddr (take i s) of
             None \<Rightarrow> None
           | Some ip \<Rightarrow>
               if has_zone ip then None
               else let bitsStr = drop (Suc i) s
               in if length bitsStr > 1 \<and> (digit_val (hd bitsStr) = None \<or> digit_val (hd bitsStr) = Some 0) then None
               else (case ParseUint bitsStr 63 of
                   None \<Rightarrow> None
                 | Some n \<Rightarrow> if n > BitLen ip then None else Some (Pfx ip n))))"

definition pfx_string :: "pfx \<Rightarrow> string" where
  "pfx_string p = addr_string (withoutZone (pfx_addr p)) @ ''/'' @ Itoa (Bits p)"

subsection \<open>Round trips\<close>

lemma hex_val_digit [simp]: "n < 16 \<Longrightarrow> hex_val (hex_digit n) = Some n"
  by (auto simp: hex_val_def hex_digit_def Let_def)

lemma digit_char_hex: "n < 10 \<Longrightarrow> hex_val (digit_char n) = Some n"
  by (auto simp: hex_val_def digit_char_def Let_def)

lemma hex_val_sep [simp]: "hex_val (CHR '':'') = None" "hex_val (CHR ''.'') = None"
  by (simp_all add: hex_val_def)

definition stops :: "(char \<Rightarrow> nat option) \<Rightarrow> string \<Rightarrow> bool" where
  "stops f s \<longleftrightarrow> s = [] \<or> f (hd s) = None"

lemma hexField_stop: "stops hex_val s \<Longrightarrow> hexField off acc s = Some (acc, off, s)"
  by (cases s) (auto simp: stops_def)

lemma hexField_appendHex:
  assumes "x < 65536" and "stops hex_val s"
  shows "hexField 0 0 (appendHex x @ s) = Some (x, length (appendHex x), s)"
proof -
  have d: "x div 4096 < 16" "x div 16 div 16 = x div 256" "x div 256 div 16 = x div 4096"
    using assms(1) by (auto simp: div_mult2_eq[symmetric])
  have r: "x mod 16 + 16 * (x div 16) = x" "x div 16 mod 16 + 16 * (x div 256) = x div 16"
    "x div 256 mod 16 + 16 * (x div 4096) = x div 256"
    using d(2,3) mod_mult_div_eq[of x 16] mod_mult_div_eq[of "x div 16" 16] mod_mult_div_eq[of "x div 256" 16] by auto
  consider "x < 16" | "16 \<le> x" "x < 256" | "256 \<le> x" "x < 4096" | "4096 \<le> x" by linarith
  then show ?thesis
  proof cases
    case 1
    then show ?thesis using assms by (simp add: appendHex_def hexField_stop)
  next
    case 2
    then have "x div 16 < 16" by auto
    then show ?thesis using assms 2 r by (simp add: appendHex_def hexField_stop algebra_simps)
  next
    case 3
    then have "x div 256 < 16" "x div 16 < 256" by auto
    then show ?thesis using assms 3 r by (simp add: appendHex_def hexField_stop algebra_simps)
  next
    case 4
    then show ?thesis using assms r d by (simp add: appendHex_def hexField_stop algebra_simps) linarith
  qed
qed

lemma appendHex_nonempty [simp]: "appendHex x \<noteq> []" by (simp add: appendHex_def)

lemma stops_sep [simp]: "stops hex_val []" "stops hex_val (CHR '':'' # s)" "stops hex_val (CHR ''.'' # s)"
  by (simp_all add: stops_def)

lemma appendHex_hd: "x < 65536 \<Longrightarrow> hd (appendHex x) \<noteq> CHR '':''"
proof
  assume "x < 65536" "hd (appendHex x) = CHR '':''"
  then have "hexField 0 0 (appendHex x) = Some (0, 0, appendHex x)"
    by (intro hexField_stop) (simp add: stops_def)
  with hexField_appendHex[OF \<open>x < 65536\<close>, of "[]"] show False by simp
qed

lemma Join_map_hd:
  "gs \<noteq> [] \<Longrightarrow> \<forall>g \<in> set gs. g < 65536 \<Longrightarrow> Join (map appendHex gs) '':'' \<noteq> [] \<and> hd (Join (map appendHex gs) '':'') \<noteq> CHR '':''"
  by (cases gs; cases "tl gs") (auto simp: appendHex_hd)

lemma v6Loop_group:
  assumes "length groups < 8" and "x < 65536"
  shows "v6Loop groups ell (appendHex x) = Some (groups @ [x], ell, [])"
    and "s \<noteq> [] \<Longrightarrow> hd s \<noteq> CHR '':'' \<Longrightarrow>
         v6Loop groups ell (appendHex x @ CHR '':'' # s) = v6Loop (groups @ [x]) ell s"
    and "v6Loop groups None (appendHex x @ CHR '':'' # CHR '':'' # t) =
         (if t = [] then Some (groups @ [x], Some (Suc (length groups)), [])
          else v6Loop (groups @ [x]) (Some (Suc (length groups))) t)"
  using assms hexField_appendHex[OF assms(2), of "[]"] hexField_appendHex[OF assms(2), of "CHR '':'' # s"]
    hexField_appendHex[OF assms(2), of "CHR '':'' # CHR '':'' # t"]
  by (subst v6Loop.simps; simp)+

lemma v6Loop_groups:
  assumes "gs \<noteq> []" and "\<forall>g \<in> set gs. g < 65536" and "length groups + length gs \<le> 8"
  shows "v6Loop groups ell (Join (map appendHex gs) '':'') = Some (groups @ gs, ell, [])"
  using assms
proof (induction gs arbitrary: groups)
  case (Cons g gs)
  show ?case
  proof (cases gs)
    case Nil
    with Cons show ?thesis by (simp add: v6Loop_group)
  next
    case (Cons g' gs')
    then show ?thesis using Cons.IH[of "groups @ [g]"] Cons.prems Join_map_hd[of gs]
      by (simp add: v6Loop_group)
  qed
qed simp

lemma v6Loop_ellipsis:
  assumes "gs \<noteq> []" and "\<forall>g \<in> set gs. g < 65536" and "length groups + length gs \<le> 8"
  shows "v6Loop groups None (Join (map appendHex gs) '':'' @ ''::'' @ t) =
    (if t = [] then Some (groups @ gs, Some (length groups + length gs), [])
     else v6Loop (groups @ gs) (Some (length groups + length gs)) t)"
  using assms
proof (induction gs arbitrary: groups)
  case (Cons g gs)
  show ?case
  proof (cases gs)
    case Nil
    with Cons show ?thesis by (simp add: v6Loop_group)
  next
    case (Cons g' gs')
    then show ?thesis using Cons.IH[of "groups @ [g]"] Cons.prems Join_map_hd[of gs]
      by (simp add: v6Loop_group)
  qed
qed simp

lemma zeroRun_inv:
  "case zeroRun gs of None \<Rightarrow> True
   | Some (a, b) \<Rightarrow> a + 2 \<le> b \<and> b \<le> length gs \<and> gs = take a gs @ replicate (b - a) 0 @ drop b gs"
proof -
  let ?P = "\<lambda>r. case r of None \<Rightarrow> True
   | Some (a, b) \<Rightarrow> a + 2 \<le> b \<and> b \<le> length gs \<and> gs = take a gs @ replicate (b - a) 0 @ drop b gs"
  have run: "?P (Some (i, i + l))"
    if "l = length (takeWhile (\<lambda>g. g = 0) (drop i gs))" "l \<ge> 2" "i < length gs" for i l
  proof -
    have len: "l \<le> length (drop i gs)" unfolding that(1) by (rule length_takeWhile_le)
    have z: "takeWhile (\<lambda>g. g = 0) (drop i gs) = replicate l 0"
      unfolding that(1) by (rule replicate_length_same[symmetric]) (auto dest: set_takeWhileD)
    have "drop i gs = takeWhile (\<lambda>g. g = 0) (drop i gs) @ dropWhile (\<lambda>g. g = 0) (drop i gs)" by simp
    also have "\<dots> = replicate l 0 @ drop l (drop i gs)"
      by (simp only: z dropWhile_eq_drop that(1)[symmetric] length_replicate)
    finally have "drop i gs = replicate l 0 @ drop l (drop i gs)" .
    then have "take i gs @ drop i gs = take i gs @ replicate l 0 @ drop (i + l) gs"
      by (simp add: add.commute)
    then have "gs = take i gs @ replicate l 0 @ drop (i + l) gs" by simp
    with len that show ?thesis by simp
  qed
  have "?P (fold (\<lambda>i best.
       let l = length (takeWhile (\<lambda>g. g = 0) (drop i gs));
           cur = (case best of None \<Rightarrow> 0 | Some (a, b) \<Rightarrow> b - a)
       in if l \<ge> 2 \<and> l > cur then Some (i, i + l) else best) is best)"
    if "?P best" "set is \<subseteq> {..<length gs}" for "is" best
    using that
  proof (induction "is" arbitrary: best)
    case (Cons i "is")
    then show ?case using run by (simp add: Let_def)
  qed simp
  from this[of None "[0..<length gs]"] show ?thesis unfolding zeroRun_def by (simp add: atLeast0LessThan)
qed

lemma Itoa_byte:
  assumes "x < 256"
  obtains "x < 10" "Itoa x = [digit_char x]"
  | "10 \<le> x" "x < 100" "Itoa x = [digit_char (x div 10), digit_char (x mod 10)]"
  | "100 \<le> x" "Itoa x = [digit_char (x div 100), digit_char (x div 10 mod 10), digit_char (x mod 10)]"
proof -
  consider "x < 10" | "10 \<le> x" "x < 100" | "100 \<le> x" by linarith
  then show thesis
  proof cases
    case 1
    then show ?thesis using that(1) by (simp add: Itoa.simps)
  next
    case 2
    then have "x div 10 < 10" by auto
    with 2 show ?thesis by (intro that(2)) (simp_all add: Itoa.simps[of x] Itoa.simps[of "x div 10"])
  next
    case 3
    then have "\<not> x div 10 < 10" "x div 100 < 10" "x div 10 div 10 = x div 100" using assms by (auto simp: div_mult2_eq[symmetric])
    with 3 show ?thesis
      by (intro that(3)) (simp_all add: Itoa.simps[of x] Itoa.simps[of "x div 10"] Itoa.simps[of "x div 100"])
  qed
qed

lemma parseIPv4Fields_Itoa:
  assumes "x < 256"
  shows "\<exists>c n. c \<noteq> CHR ''.'' \<and> parseIPv4Fields prev 0 0 fields (Itoa x @ s) = parseIPv4Fields (Some c) x n fields s"
proof -
  have nd: "digit_char d \<noteq> CHR ''.''" if "d < 10" for d
  proof
    assume "digit_char d = CHR ''.''"
    with digit_char_hex[OF that] show False by simp
  qed
  from assms show ?thesis
  proof (cases rule: Itoa_byte)
    case 1
    then show ?thesis using nd[of x] by auto
  next
    case 2
    then have d: "x div 10 < 10" "x div 10 \<noteq> 0" "\<not> 255 < x div 10" by linarith+
    then have "parseIPv4Fields prev 0 0 fields (Itoa x @ s) = parseIPv4Fields (Some (digit_char (x mod 10))) x 2 fields s"
      using 2(3) assms by (simp add: numeral_2_eq_2 d)
    then show ?thesis using nd[of "x mod 10"] by auto
  next
    case 3
    have d: "x div 100 < 10" "x div 100 * 10 + x div 10 mod 10 = x div 10" "\<not> 255 < x div 10"
      using assms div_mult2_eq[of x 10 10] div_mult_mod_eq[of "x div 10" 10] by simp_all
    have nz: "x div 100 \<noteq> 0" "\<not> 255 < x div 100" using 3(1) assms by linarith+
    from d have "parseIPv4Fields prev 0 0 fields (Itoa x @ s) = parseIPv4Fields (Some (digit_char (x mod 10))) x 3 fields s"
      using 3(2) assms by (simp add: numeral_3_eq_3 d nz)
    then show ?thesis using nd[of "x mod 10"] by auto
  qed
qed

lemma parseIPv4Fields_dot:
  assumes "x < 256" "length fields < 3" "s \<noteq> []"
  shows "parseIPv4Fields prev 0 0 fields (Itoa x @ CHR ''.'' # s) = parseIPv4Fields (Some (CHR ''.'')) 0 0 (fields @ [x]) s"
proof -
  have dot: "digit_val (CHR ''.'') = None" by (simp add: digit_val_def)
  show ?thesis
    using parseIPv4Fields_Itoa[OF assms(1), of prev fields "CHR ''.'' # s"] assms(2,3) dot by auto
qed

lemma parseIPv4Fields_string4:
  assumes "a < 256" "b < 256" "c < 256" "d < 256"
  shows "parseIPv4Fields None 0 0 [] (string4 [a, b, c, d]) = Some [a, b, c, d]"
  using parseIPv4Fields_Itoa[OF assms(4), of "Some (CHR ''.'')" "[a, b, c]" "[]"] assms
  by (auto simp: string4_def parseIPv4Fields_dot)

lemma hexField_Itoa_dot:
  assumes "x < 256"
  shows "\<exists>a n. hexField 0 0 (Itoa x @ CHR ''.'' # s) = Some (a, Suc n, CHR ''.'' # s)"
proof -
  from assms show ?thesis
  proof (cases rule: Itoa_byte)
    case 1
    then show ?thesis by (simp add: digit_char_hex)
  next
    case 2
    then have "x div 10 < 10" by linarith
    with 2 show ?thesis by (simp add: digit_char_hex)
  next
    case 3
    then have "x div 100 < 10" using assms by linarith
    with 3 show ?thesis by (simp add: digit_char_hex)
  qed
qed

lemma string4_hd:
  assumes "a < 256"
  shows "string4 [a, b, c, d] \<noteq> [] \<and> hd (string4 [a, b, c, d]) \<noteq> CHR '':''"
proof -
  obtain s where s: "string4 [a, b, c, d] = Itoa a @ CHR ''.'' # s" by (simp add: string4_def)
  have "hexField 0 0 (string4 [a, b, c, d]) \<noteq> Some (0, 0, string4 [a, b, c, d])"
    using hexField_Itoa_dot[OF assms, of s] s by auto
  then have "\<not> stops hex_val (string4 [a, b, c, d])" using hexField_stop by blast
  then show ?thesis by (auto simp: stops_def)
qed

lemma v6Loop_v4:
  assumes "a < 256" "b < 256" "c < 256" "d < 256" and "length groups \<le> 6" and "ell \<noteq> None"
  shows "v6Loop groups ell (string4 [a, b, c, d]) = Some (groups @ [a * 256 + b, c * 256 + d], ell, [])"
proof -
  obtain s where s: "string4 [a, b, c, d] = Itoa a @ CHR ''.'' # s" by (simp add: string4_def)
  obtain v n where "hexField 0 0 (string4 [a, b, c, d]) = Some (v, Suc n, CHR ''.'' # s)"
    using hexField_Itoa_dot[OF assms(1)] s by metis
  then show ?thesis
    using assms(5,6) parseIPv4Fields_string4[OF assms(1-4)] by (subst v6Loop.simps) simp
qed

lemma v6Groups_string6:
  assumes "length gs = 8" and "\<forall>g \<in> set gs. g < 65536"
  shows "v6Groups (string6 gs) = Some gs"
proof (cases "take 6 gs = [0, 0, 0, 0, 0, 65535]")
  case True
  have "gs = take 6 gs @ [gs ! 6, gs ! 7]"
    using assms(1) by (simp add: list_eq_iff_nth_eq nth_append less_Suc_eq numeral_eq_Suc)
  with True obtain g h where gs: "gs = [0, 0, 0, 0, 0, 65535, g, h]" by simp
  with assms have "g < 65536" "h < 65536" by simp_all
  then have b: "g div 256 < 256" "h div 256 < 256" by linarith+
  let ?v4 = "string4 [g div 256, g mod 256, h div 256, h mod 256]"
  have "char_of (102 :: nat) = CHR ''f''" by code_simp
  then have ffff: "''ffff'' = appendHex 65535" by (simp add: appendHex_def hex_digit_def)
  have "?v4 \<noteq> []" "hd ?v4 \<noteq> CHR '':''" using string4_hd[OF b(1)] by blast+
  then have "v6Loop [] (Some 0) (''ffff'' @ CHR '':'' # ?v4) = v6Loop [65535] (Some 0) ?v4"
    unfolding ffff by (subst v6Loop_group(2)) simp_all
  also have "\<dots> = Some ([65535, g, h], Some 0, [])" using b by (simp add: v6Loop_v4)
  finally have loop: "v6Loop [] (Some 0) (''ffff'' @ CHR '':'' # ?v4) = Some ([65535, g, h], Some 0, [])" .
  have five: "replicate 5 (0 :: nat) = [0, 0, 0, 0, 0]" by (simp add: numeral_eq_Suc)
  have "string6 gs = ''::'' @ ''ffff'' @ CHR '':'' # ?v4" unfolding gs by (simp add: string6_def)
  with loop five show ?thesis by (simp add: v6Groups_def v6Expand_def gs)
next
  case False
  show ?thesis
  proof (cases "zeroRun gs")
    case None
    have ne: "gs \<noteq> []" using assms(1) by auto
    have "take 2 (Join (map appendHex gs) '':'') \<noteq> ''::''"
      using Join_map_hd[OF _ assms(2)] assms(1) by (cases "gs = []"; cases "Join (map appendHex gs) '':''") auto
    then show ?thesis using None False assms v6Loop_groups[OF ne, of "[]" None]
      by (auto simp: string6_def v6Groups_def v6Expand_def)
  next
    case (Some p)
    obtain a b where p: "p = (a, b)" by (cases p)
    with Some zeroRun_inv[of gs] have ab: "a + 2 \<le> b" "b \<le> 8" "gs = take a gs @ replicate (b - a) 0 @ drop b gs"
      using assms(1) by simp_all
    let ?t = "Join (map appendHex (drop b gs)) '':''"
    have lt: "\<forall>g \<in> set (take a gs). g < 65536" "\<forall>g \<in> set (drop b gs). g < 65536"
      using assms(2) by (auto dest: in_set_takeD in_set_dropD)
    have str: "string6 gs = Join (map appendHex (take a gs)) '':'' @ ''::'' @ ?t"
      using False Some p by (simp add: string6_def)
    have len: "length (take a gs) = a" "length (drop b gs) = 8 - b" using ab(1,2) assms(1) by auto
    have tail: "v6Expand (take a gs @ drop b gs, Some a, []) = Some gs"
      using ab len by (simp add: v6Expand_def)
    have t: "?t = [] \<longleftrightarrow> b = 8" using Join_map_hd[OF _ lt(2)] ab(2) assms(1) by (cases "b = 8") auto
    have rest: "v6Loop (take a gs) (Some a) ?t = Some (take a gs @ drop b gs, Some a, [])" if "b \<noteq> 8"
      using v6Loop_groups[OF _ lt(2), of "take a gs"] that len ab by simp
    show ?thesis
    proof (cases "a = 0")
      case True
      show ?thesis
      proof (cases "b = 8")
        case True
        with \<open>a = 0\<close> str t ab(3) assms(1) show ?thesis by (simp add: v6Groups_def)
      next
        case False
        with \<open>a = 0\<close> str t tail rest show ?thesis by (simp add: v6Groups_def)
      qed
    next
      case a0: False
      then have "take a gs \<noteq> []" using len by auto
      then have "take 2 (string6 gs) \<noteq> ''::''"
        using Join_map_hd[OF _ lt(1)] str by (cases "Join (map appendHex (take a gs)) '':''") auto
      moreover have "v6Loop [] None (string6 gs) = Some (take a gs @ drop b gs, Some a, [])"
        unfolding str using v6Loop_ellipsis[OF \<open>take a gs \<noteq> []\<close> lt(1), of "[]" ?t] rest t len ab
        by (cases "b = 8") auto
      ultimately show ?thesis using tail by (simp add: v6Groups_def)
    qed
  qed
qed

lemma nat_of_digits_snoc: "nat_of_digits b (ds @ [d]) = nat_of_digits b ds * b + d"
  by (simp add: nat_of_digits_def)

text \<open>The base-\<open>b\<close> digits of a number, and back.\<close>

lemma nat_of_digits_div:
  assumes "0 < (b :: nat)"
  shows "nat_of_digits b (map (\<lambda>k. n div b ^ k mod b) (rev [0..<m])) = n mod b ^ m"
proof (induction m arbitrary: n)
  case 0
  then show ?case by (simp add: nat_of_digits_def)
next
  case (Suc m)
  have "[0..<Suc m] = 0 # map Suc [0..<m]" by (simp add: map_Suc_upt upt_conv_Cons del: upt_Suc)
  then have "rev [0..<Suc m] = map Suc (rev [0..<m]) @ [0]" by (simp add: rev_map del: upt_Suc)
  then have "nat_of_digits b (map (\<lambda>k. n div b ^ k mod b) (rev [0..<Suc m])) =
    nat_of_digits b (map (\<lambda>k. n div b div b ^ k mod b) (rev [0..<m])) * b + n mod b"
    by (simp add: nat_of_digits_snoc comp_def div_mult2_eq)
  also have "\<dots> = (n div b mod b ^ m) * b + n mod b" by (simp only: Suc)
  also have "\<dots> = n mod b ^ Suc m" by (simp add: mod_mult2_eq mult.commute)
  finally show ?case .
qed

lemma nat_of_octets: "nat_of_digits 256 (octets w) = unat w"
proof -
  have "unat w < 2 ^ LENGTH(32)" by (rule unsigned_less)
  then have lt: "unat w < 256 ^ 4" by simp
  have up: "[3, 2, 1, 0 :: nat] = rev [0..<4]" by (simp add: upt_rec)
  have "(0 :: nat) < 256" by simp
  from nat_of_digits_div[OF this, of "unat w" 4] show ?thesis
    unfolding octets_def up mod_less[OF lt] .
qed

lemma nat_of_groups: "nat_of_digits 65536 (groups_of w) = unat w"
proof -
  have "unat w < 2 ^ LENGTH(128)" by (rule unsigned_less)
  then have lt: "unat w < 65536 ^ 8" by simp
  have up: "[7, 6, 5, 4, 3, 2, 1, 0 :: nat] = rev [0..<8]" by (simp add: upt_rec)
  have "(0 :: nat) < 65536" by simp
  from nat_of_digits_div[OF this, of "unat w" 8] show ?thesis
    unfolding groups_of_def up mod_less[OF lt] .
qed

lemma parseIPv4_string4: "parseIPv4 (string4 (octets w)) = Some (A4 w)"
proof -
  obtain a b c d where o: "octets w = [a, b, c, d]" and "a < 256" "b < 256" "c < 256" "d < 256"
    by (simp add: octets_def)
  then show ?thesis
    using nat_of_octets[of w] by (simp add: parseIPv4_def parseIPv4Fields_string4)
qed

lemma length_groups_of [simp]: "length (groups_of w) = 8"
  by (simp add: groups_of_def)

lemma groups_of_less: "\<forall>g \<in> set (groups_of w). g < 65536"
  by (simp add: groups_of_def)

text \<open>The scan of \<open>ParseAddr\<close> reaches the separator that decides the family.\<close>

lemma parseAddrScan_skip:
  "\<forall>c \<in> set s. c \<noteq> CHR ''.'' \<and> c \<noteq> CHR '':'' \<and> c \<noteq> CHR ''%'' \<Longrightarrow> parseAddrScan inp (s @ t) = parseAddrScan inp t"
  by (induction s) auto

lemma hex_digit_neq: "n < 16 \<Longrightarrow> hex_val c = None \<Longrightarrow> hex_digit n \<noteq> c"
  using hex_val_digit by (metis option.distinct(1))

lemma hex_digit_sep: "n < 16 \<Longrightarrow> hex_digit n \<notin> {CHR ''.'', CHR '':'', CHR ''%''}"
  using hex_digit_neq[of n "CHR ''.''"] hex_digit_neq[of n "CHR '':''"] hex_digit_neq[of n "CHR ''%''"]
  by (simp add: hex_val_def)

lemma appendHex_sep: "x < 65536 \<Longrightarrow> c \<in> set (appendHex x) \<Longrightarrow> c \<notin> {CHR ''.'', CHR '':'', CHR ''%''}"
proof -
  assume x: "x < 65536" and "c \<in> set (appendHex x)"
  moreover from x have "x div 4096 < 16" by linarith
  ultimately show ?thesis
    using hex_digit_sep[of "x div 4096"] hex_digit_sep[of "x div 256 mod 16"]
      hex_digit_sep[of "x div 16 mod 16"] hex_digit_sep[of "x mod 16"]
    by (auto simp: appendHex_def split: if_splits)
qed

lemma Itoa_sep: "c \<in> set (Itoa n) \<Longrightarrow> c \<notin> {CHR ''.'', CHR '':'', CHR ''%''}"
proof -
  assume "c \<in> set (Itoa n)"
  then obtain d where "d < 10" "c = digit_char d" using Itoa_digits by blast
  moreover have "hex_val (CHR ''%'') = None" by (simp add: hex_val_def)
  ultimately show ?thesis using digit_char_hex[of d] by auto
qed

lemma ParseAddr_string4: "ParseAddr (string4 (octets w)) = Some (A4 w)"
proof -
  obtain a s where "string4 (octets w) = Itoa a @ CHR ''.'' # s" by (simp add: octets_def string4_def)
  moreover have "\<forall>c \<in> set (Itoa a). c \<noteq> CHR ''.'' \<and> c \<noteq> CHR '':'' \<and> c \<noteq> CHR ''%''" using Itoa_sep by blast
  ultimately have "ParseAddr (string4 (octets w)) = parseIPv4 (string4 (octets w))"
    by (simp add: ParseAddr_def parseAddrScan_skip)
  then show ?thesis by (simp add: parseIPv4_string4)
qed

lemma Join_colon:
  "gs \<noteq> [] \<Longrightarrow> tl gs \<noteq> [] \<or> t \<noteq> [] \<Longrightarrow>
   \<exists>s. Join (map appendHex gs) '':'' @ (if t = [] then [] else CHR '':'' # t) = appendHex (hd gs) @ CHR '':'' # s"
  by (cases gs; cases "tl gs") auto

lemma string6_shape:
  assumes "length gs = 8" and "\<forall>g \<in> set gs. g < 65536"
  shows "\<exists>u s. string6 gs = u @ CHR '':'' # s \<and> (\<forall>c \<in> set u. c \<noteq> CHR ''.'' \<and> c \<noteq> CHR '':'' \<and> c \<noteq> CHR ''%'')"
proof (cases "take 6 gs = [0, 0, 0, 0, 0, 65535] \<or> (\<exists>b. zeroRun gs = Some (0, b))")
  case True
  then show ?thesis by (rule_tac x = "[]" in exI) (auto simp: string6_def)
next
  case False
  obtain g gs' where gs: "gs = g # gs'" "gs' \<noteq> []" using assms(1)
    by (cases gs; cases "tl gs") auto
  have sep: "\<forall>c \<in> set (appendHex g). c \<noteq> CHR ''.'' \<and> c \<noteq> CHR '':'' \<and> c \<noteq> CHR ''%''"
    using appendHex_sep[of g] assms(2) gs by auto
  have "\<exists>s. string6 gs = appendHex g @ CHR '':'' # s"
  proof (cases "zeroRun gs")
    case None
    with False gs show ?thesis using Join_colon[of gs "[]"] by (auto simp: string6_def)
  next
    case (Some p)
    then obtain a b where p: "p = (Suc a, b)" using False by (cases p; cases "fst p") auto
    then show ?thesis
      using Some False gs Join_colon[of "take (Suc a) gs" "CHR '':'' # Join (map appendHex (drop b gs)) '':''"]
      by (auto simp: string6_def)
  qed
  with sep show ?thesis by blast
qed

lemma set_Join: "c \<in> set (Join xs sep) \<Longrightarrow> (\<exists>x \<in> set xs. c \<in> set x) \<or> c \<in> set sep"
  by (induction xs sep rule: Join.induct) auto

definition addr_char :: "char \<Rightarrow> bool" where
  "addr_char c \<longleftrightarrow> hex_val c \<noteq> None \<or> c = CHR '':'' \<or> c = CHR ''.''"

lemma Itoa_addr_char: "c \<in> set (Itoa n) \<Longrightarrow> addr_char c"
  using Itoa_digits[of c n] by (auto simp: addr_char_def digit_char_hex)

lemma appendHex_addr_char: "g < 65536 \<Longrightarrow> c \<in> set (appendHex g) \<Longrightarrow> addr_char c"
proof -
  assume g: "g < 65536" and "c \<in> set (appendHex g)"
  moreover from g have "g div 4096 < 16" by linarith
  ultimately show "addr_char c" by (auto simp: appendHex_def addr_char_def split: if_splits)
qed

lemma string4_addr_char: "c \<in> set (string4 os) \<Longrightarrow> addr_char c"
  unfolding string4_def by (drule set_Join) (auto dest: Itoa_addr_char simp: addr_char_def)

lemma string6_addr_char:
  assumes "\<forall>g \<in> set gs. g < 65536" and "c \<in> set (string6 gs)"
  shows "addr_char c"
proof -
  have f: "addr_char (CHR ''f'')" "addr_char (CHR '':'')" by (simp_all add: addr_char_def hex_val_def)
  have join: "addr_char c" if "set xs \<subseteq> set gs" "c \<in> set (Join (map appendHex xs) '':'')" for xs
    using set_Join[OF that(2)] that(1) assms(1) f(2) by (auto intro: appendHex_addr_char)
  show ?thesis
    using assms(2) join[OF set_take_subset] join[OF set_drop_subset] join[OF subset_refl] f
    by (auto simp: string6_def string4_addr_char split: if_splits option.splits)
qed

lemma string6_no_percent:
  assumes "\<forall>g \<in> set gs. g < 65536"
  shows "CHR ''%'' \<notin> set (string6 gs)"
proof
  assume "CHR ''%'' \<in> set (string6 gs)"
  then have "addr_char (CHR ''%'')" by (rule string6_addr_char[OF assms])
  then show False by (simp add: addr_char_def hex_val_def)
qed

theorem ParseAddr_addr_string: "\<not> has_zone a \<Longrightarrow> ParseAddr (addr_string a) = Some a"
proof (cases a)
  case (A4 w)
  then show ?thesis by (simp add: ParseAddr_string4)
next
  case (A6 w z)
  assume "\<not> has_zone a"
  with A6 have z: "z = []" by simp
  let ?s = "string6 (groups_of w)"
  obtain u t where "?s = u @ CHR '':'' # t" "\<forall>c \<in> set u. c \<noteq> CHR ''.'' \<and> c \<noteq> CHR '':'' \<and> c \<noteq> CHR ''%''"
    using string6_shape[OF length_groups_of groups_of_less] by blast
  then have "ParseAddr ?s = parseIPv6 ?s" by (simp add: ParseAddr_def parseAddrScan_skip)
  also have "\<dots> = Some (A6 w [])"
    using string6_no_percent[OF groups_of_less, of w] nat_of_groups[of w]
    by (simp add: parseIPv6_def Cut_def IndexByte_None[THEN iffD2] v6Groups_string6[OF length_groups_of groups_of_less])
  finally show ?thesis using A6 z by simp
qed

lemma Itoa_leading: "1 < length (Itoa n) \<Longrightarrow> \<exists>d. 0 < d \<and> digit_val (hd (Itoa n)) = Some d"
proof -
  assume "1 < length (Itoa n)"
  then have "0 < n" by (cases n) (auto simp: Itoa.simps[of 0])
  then show ?thesis using Itoa_no_leading_zero[of n] by auto
qed

theorem netipParsePrefix_pfx_string:
  assumes "valid_pfx p"
  shows "netipParsePrefix (pfx_string p) = Some p"
proof -
  have z: "withoutZone (pfx_addr p) = pfx_addr p" "\<not> has_zone (pfx_addr p)" "Bits p \<le> BitLen (pfx_addr p)" "BitLen (pfx_addr p) \<le> 128"
    using assms by (auto elim!: valid_pfx_cases)
  have slash: "CHR ''/'' \<notin> set (Itoa (Bits p))"
  proof
    assume "CHR ''/'' \<in> set (Itoa (Bits p))"
    then obtain d where "d < 10" "CHR ''/'' = digit_char d" using Itoa_digits by blast
    moreover have "hex_val (CHR ''/'') = None" by (simp add: hex_val_def)
    ultimately show False using digit_char_hex[of d] by auto
  qed
  have "Bits p < 2 ^ 63" using z(3,4) by (auto intro: le_less_trans[of _ 128])
  then have "ParseUint (Itoa (Bits p)) 63 = Some (Bits p)" by (rule ParseUint_Itoa)
  then show ?thesis
    using z Itoa_leading[of "Bits p"] LastIndexByte_append[OF slash, of "addr_string (pfx_addr p)"]
    by (cases p) (auto simp: netipParsePrefix_def pfx_string_def ParseAddr_addr_string Let_def)
qed

lemma netipParsePrefix_range:
  "netipParsePrefix s = Some p \<Longrightarrow> Bits p \<le> BitLen (pfx_addr p)"
  by (auto simp: netipParsePrefix_def Let_def split: option.splits if_splits)

lemma addr_string_addr_char: "c \<in> set (addr_string (withoutZone a)) \<Longrightarrow> addr_char c"
  by (cases a) (auto dest: string4_addr_char string6_addr_char[OF groups_of_less])

lemma addr_char_no_space: "addr_char c \<Longrightarrow> \<not> is_space c"
  by (auto simp: addr_char_def hex_val_def is_space_def Let_def split: if_splits)

lemma pfx_string_no_space: "c \<in> set (pfx_string p) \<Longrightarrow> \<not> is_space c"
  by (auto simp: pfx_string_def addr_char_no_space dest: addr_string_addr_char Itoa_addr_char)
    (simp add: is_space_def)

lemma TrimSpace_pfx_string: "TrimSpace (pfx_string p) = pfx_string p"
proof -
  have "pfx_string p \<noteq> []" by (simp add: pfx_string_def)
  then show ?thesis
    using pfx_string_no_space[of "hd (pfx_string p)" p] pfx_string_no_space[of "last (pfx_string p)" p]
    by (intro TrimSpace_id) auto
qed

end
