(* ===== verification/Radius_Auth.thy ===== *)
theory Radius_Auth
  imports Radius_Reply Netip_Text "HOL-Library.AList"
begin

text \<open>
  The decision of the RADIUS server: \<open>internal/radius/auth.go\<close>, the MS-CHAPv2 parts of \<open>mschap.go\<close> that a
  request passes through, and \<open>nasIP\<close> of \<open>packet.go\<close>. Hash functions are parameters, and so are the
  directories: \<open>'l\<close> is the type of a directory's settings (\<open>ldapauth.Config\<close>).

  Lemmas: an address with two owners is left out of the index; when an Access-Accept is decided.
\<close>

subsection \<open>Addresses\<close>

text \<open>\<open>To4\<close> of \<open>net.IP\<close>: an IPv4-mapped IPv6 address is the IPv4 address.\<close>

fun Unmap :: "addr \<Rightarrow> addr" where
  "Unmap (A4 w) = A4 w"
| "Unmap (A6 w z) = (if drop_bit 32 w = 0xFFFF then A4 (ucast w) else A6 w z)"

text \<open>\<open>net.ParseIP\<close> is \<open>netip.ParseAddr\<close> without zones; \<open>String\<close> prints a mapped address as IPv4.\<close>

definition canonIP :: "string \<Rightarrow> string" where
  "canonIP raw =
     (let s = TrimSpace raw
      in if s = [] then []
         else let t = (case IndexByte s (CHR ''/'') of None \<Rightarrow> s | Some i \<Rightarrow> take i s)
         in (case ParseAddr t of
               None \<Rightarrow> []
             | Some ip \<Rightarrow> if has_zone ip then [] else addr_string (Unmap ip)))"

definition nasIP :: "attribute list \<Rightarrow> string" where
  "nasIP attrs =
     (case attrValue attrs attrNASIPAddress of
        Some v \<Rightarrow>
          if length v = 4 then addr_string (A4 (of_nat (be_nat v)))
          else (case attrValue attrs attrNASIPv6Address of
              Some v6 \<Rightarrow> if length v6 = 16 then addr_string (Unmap (A6 (of_nat (be_nat v6)) [])) else []
            | None \<Rightarrow> [])
      | None \<Rightarrow>
          (case attrValue attrs attrNASIPv6Address of
             Some v6 \<Rightarrow> if length v6 = 16 then addr_string (Unmap (A6 (of_nat (be_nat v6)) [])) else []
           | None \<Rightarrow> []))"

subsection \<open>Configuration and index\<close>

definition DefaultListenRadius :: string where "DefaultListenRadius = '':1812''"

definition resultAccept :: string where "resultAccept = ''accept''"
definition resultReject :: string where "resultReject = ''reject''"
definition resultDrop :: string where "resultDrop = ''drop''"

definition reasonUnknownClient :: string where "reasonUnknownClient = ''unknown client''"
definition reasonBadAuth :: string where "reasonBadAuth = ''bad message-authenticator''"
definition reasonNoPassword :: string where "reasonNoPassword = ''password authentication required''"
definition reasonMSCHAPDir :: string where "reasonMSCHAPDir = ''MS-CHAPv2 requires Active Directory''"
definition reasonMSCHAPConfig :: string where "reasonMSCHAPConfig = ''MS-CHAPv2 is not configured''"
definition reasonBadUser :: string where "reasonBadUser = ''bad credentials''"
definition reasonDirectory :: string where "reasonDirectory = ''directory unavailable''"
definition reasonUnknownDevice :: string where "reasonUnknownDevice = ''unknown device''"
definition reasonDeviceDisabled :: string where "reasonDeviceDisabled = ''device disabled''"
definition reasonNASMismatch :: string where "reasonNASMismatch = ''nas address does not match the client''"
definition reasonNotAllowed :: string where "reasonNotAllowed = ''not allowed for this device role''"
definition reasonOK :: string where "reasonOK = ''ok''"

lemmas reason_defs = reasonUnknownClient_def reasonBadAuth_def reasonNoPassword_def reasonMSCHAPDir_def reasonMSCHAPConfig_def
  reasonBadUser_def reasonDirectory_def reasonUnknownDevice_def reasonDeviceDisabled_def reasonNASMismatch_def
  reasonNotAllowed_def reasonOK_def

record Client =
  cl_Name :: string
  cl_Address :: string
  cl_Secret :: string

record Policy =
  pol_GroupDN :: string
  pol_AllDevices :: bool
  pol_Roles :: "string list"

record Device =
  dev_Name :: string
  dev_Role :: string
  dev_Enabled :: bool
  dev_Addresses :: "string list"

record Machine =
  mc_Account :: string
  mc_Password :: string
  mc_Domain :: string

record 'l RadiusConfig =
  rc_Enabled :: bool
  rc_Listen :: string
  rc_LDAP :: 'l
  rc_LDAPs :: "'l list"
  rc_Clients :: "Client list"
  rc_Policies :: "Policy list"
  rc_Devices :: "Device list"
  rc_Reply :: string
  rc_Machine :: Machine

record 'l Index =
  ix_Enabled :: bool
  ix_Listen :: string
  ix_LDAP :: 'l
  ix_LDAPs :: "'l list"
  ix_clients :: "string \<Rightarrow> Client option"
  ix_devices :: "string \<Rightarrow> Device option"
  ix_policies :: "Policy list"
  ix_reply :: bytes
  ix_machine :: Machine

text \<open>
  The two-level maps of \<open>BuildIndex\<close>: address, then secret (or device name), then the last value put there. An
  address with exactly one inner key is kept.
\<close>

definition soleValue :: "('k \<times> 'v) list \<Rightarrow> 'v option" where
  "soleValue m = (case m of [(k, v)] \<Rightarrow> Some v | _ \<Rightarrow> None)"

definition clientSecrets :: "Client list \<Rightarrow> string \<Rightarrow> (string \<times> Client) list" where
  "clientSecrets clients ip = fold (\<lambda>c m.
     if canonIP (cl_Address c) = [] \<or> cl_Secret c = [] then m
     else if canonIP (cl_Address c) = ip then AList.update (cl_Secret c) (c\<lparr>cl_Address := ip\<rparr>) m else m) clients []"

definition deviceOwners :: "Device list \<Rightarrow> string \<Rightarrow> (string \<times> Device) list" where
  "deviceOwners devices ip = fold (\<lambda>d m. fold (\<lambda>addr m.
     if canonIP addr = [] then m
     else if canonIP addr = ip then AList.update (dev_Name d) d m else m) (dev_Addresses d) m) devices []"

definition BuildIndex :: "'l RadiusConfig \<Rightarrow> 'l Index" where
  "BuildIndex cfg =
     \<lparr>ix_Enabled = rc_Enabled cfg,
      ix_Listen = (if rc_Listen cfg = [] then DefaultListenRadius else rc_Listen cfg),
      ix_LDAP = rc_LDAP cfg, ix_LDAPs = rc_LDAPs cfg,
      ix_clients = (\<lambda>ip. soleValue (clientSecrets (rc_Clients cfg) ip)),
      ix_devices = (\<lambda>ip. soleValue (deviceOwners (rc_Devices cfg) ip)),
      ix_policies = rc_Policies cfg,
      ix_reply = (case EncodeReply (rc_Reply cfg) of Inr raw \<Rightarrow> raw | Inl _ \<Rightarrow> []),
      ix_machine = rc_Machine cfg\<rparr>"

definition directories :: "'l Index \<Rightarrow> 'l list" where
  "directories idx = (if length (ix_LDAPs idx) > 0 then ix_LDAPs idx else [ix_LDAP idx])"

definition normRole :: "string \<Rightarrow> string" where
  "normRole s = ToLower (TrimSpace s)"

subsection \<open>MS-CHAPv2\<close>

record mschap2 =
  ms_ident :: byte
  ms_peer :: bytes
  ms_auth :: bytes
  ms_nt :: bytes
  ms_user :: string

definition vendorMicrosoft :: nat where "vendorMicrosoft = 311"
definition attrMSCHAPChallenge :: byte where "attrMSCHAPChallenge = 11"
definition attrMSCHAP2Response :: byte where "attrMSCHAP2Response = 25"
definition attrMSCHAP2Success :: byte where "attrMSCHAP2Success = 26"

definition mschapValue :: "attribute \<Rightarrow> (byte \<times> bytes) option" where
  "mschapValue a =
     (if Type a \<noteq> 26 \<or> length (Value a) < 6 then None
      else if be_nat (take 4 (Value a)) \<noteq> vendorMicrosoft then None
      else if unat (Value a ! 5) \<noteq> length (Value a) - 4 then None
      else Some (Value a ! 4, drop 6 (Value a)))"

definition mschapLast :: "byte \<Rightarrow> attribute list \<Rightarrow> bytes" where
  "mschapLast typ attrs = fold (\<lambda>a got. case mschapValue a of
     Some (t, v) \<Rightarrow> if t = typ then v else got | None \<Rightarrow> got) attrs []"

definition parseMSCHAP2 :: "attribute list \<Rightarrow> bytes \<Rightarrow> mschap2 option" where
  "parseMSCHAP2 attrs reqAuth =
     (let challenge = mschapLast attrMSCHAPChallenge attrs; resp = mschapLast attrMSCHAP2Response attrs
      in if length resp \<noteq> 50 then None
         else if length challenge \<noteq> 16 \<and> length reqAuth \<noteq> 16 then None
         else Some \<lparr>ms_ident = resp ! 0, ms_peer = take 16 (drop 2 resp),
                ms_auth = (if length challenge \<noteq> 16 then reqAuth else challenge),
                ms_nt = take 24 (drop 26 resp), ms_user = []\<rparr>)"

definition samAccount :: "string \<Rightarrow> string" where
  "samAccount raw =
     (let u = TrimSpace raw;
          v = (case LastIndexByte u (CHR 0x5C) of None \<Rightarrow> u | Some i \<Rightarrow> drop (i + 1) u)
      in (case IndexByte v (CHR ''@'') of None \<Rightarrow> v | Some i \<Rightarrow> take i v))"

definition challengeHash :: "(bytes \<Rightarrow> bytes) \<Rightarrow> bytes \<Rightarrow> bytes \<Rightarrow> string \<Rightarrow> bytes" where
  "challengeHash sha1 peer authenticator username = take 8 (sha1 (peer @ authenticator @ bytes_of username))"

definition magic1 :: bytes where "magic1 = bytes_of ''Magic server to client signing constant''"
definition magic2 :: bytes where "magic2 = bytes_of ''Pad to make it do more than one iteration''"

definition authenticatorResponse :: "(bytes \<Rightarrow> bytes) \<Rightarrow> bytes \<Rightarrow> bytes \<Rightarrow> bytes \<Rightarrow> bytes \<Rightarrow> string \<Rightarrow> bytes" where
  "authenticatorResponse sha1 passwordHashHash ntResponse peer authenticator username =
     sha1 (sha1 (passwordHashHash @ ntResponse @ magic1) @ challengeHash sha1 peer authenticator username @ magic2)"

definition hexUpper :: "nat \<Rightarrow> byte" where
  "hexUpper n = (if n < 10 then of_nat (48 + n) else of_nat (55 + n))"

text \<open>The buffer of 43 bytes is filled exactly by a SHA-1 value of 20 bytes.\<close>

definition mschap2Success :: "(bytes \<Rightarrow> bytes) \<Rightarrow> mschap2 \<Rightarrow> bytes \<Rightarrow> bytes" where
  "mschap2Success sha1 m passwordHashHash =
     (let auth = authenticatorResponse sha1 passwordHashHash (ms_nt m) (ms_peer m) (ms_auth m) (ms_user m);
          val = [ms_ident m] @ bytes_of ''S='' @ concat (map (\<lambda>b. [hexUpper (unat b div 16), hexUpper (unat b mod 16)]) auth)
      in appendVSA (of_nat vendorMicrosoft) attrMSCHAP2Success val)"

subsection \<open>The gate\<close>

record outcome =
  o_code :: byte
  o_reason :: string
  o_result :: string
  o_username :: string
  o_nasIP :: string
  o_deviceName :: string
  o_deviceRole :: string
  o_record :: bool
  o_secret :: string
  o_req :: "Packet option"
  o_extra :: bytes

record login =
  lg_username :: string
  lg_password :: string
  lg_nas :: string
  lg_chap :: "mschap2 option"

definition zeroOutcome :: outcome where
  "zeroOutcome = \<lparr>o_code = 0, o_reason = [], o_result = [], o_username = [], o_nasIP = [], o_deviceName = [],
     o_deviceRole = [], o_record = False, o_secret = [], o_req = None, o_extra = []\<rparr>"

definition reject :: "string \<Rightarrow> outcome \<Rightarrow> outcome" where
  "reject reason out = out\<lparr>o_code := codeAccessReject, o_result := resultReject, o_reason := reason\<rparr>"

text \<open>\<open>Inl\<close> is an outcome with \<open>ok\<close> false, \<open>Inr\<close> the login of a request that passed.\<close>

definition gate :: "(bytes \<Rightarrow> bytes) \<Rightarrow> (bytes \<Rightarrow> bytes \<Rightarrow> bytes) \<Rightarrow> bytes \<Rightarrow> string \<Rightarrow> 'l Index \<Rightarrow> outcome + login" where
  "gate md5 hmac raw sourceIP idx =
     (let out = zeroOutcome\<lparr>o_result := resultDrop, o_record := True, o_nasIP := canonIP sourceIP\<rparr>
      in case parse raw of
           Inl _ \<Rightarrow> Inl (out\<lparr>o_record := False\<rparr>)
         | Inr (p, attrs) \<Rightarrow>
             if Code p \<noteq> codeAccessRequest then Inl (out\<lparr>o_record := False\<rparr>)
             else let out = out\<lparr>o_req := Some p\<rparr>
             in (case ix_clients idx (canonIP sourceIP) of
                   None \<Rightarrow> Inl (out\<lparr>o_reason := reasonUnknownClient\<rparr>)
                 | Some client \<Rightarrow>
                     let out = out\<lparr>o_secret := cl_Secret client\<rparr>; secret = bytes_of (cl_Secret client)
                     in (case verifyMessageAuthenticator hmac (Raw p) secret of
                           Inl _ \<Rightarrow> Inl (out\<lparr>o_reason := reasonBadAuth\<rparr>)
                         | Inr _ \<Rightarrow>
                             let username = TrimSpace (string_of (case attrValue attrs attrUserName of None \<Rightarrow> [] | Some v \<Rightarrow> v));
                                 out = (if username \<noteq> [] \<and> length username \<le> 255 \<and> \<not> hasControl username
                                        then out\<lparr>o_username := username\<rparr> else out);
                                 login0 = \<lparr>lg_username = o_username out, lg_password = [], lg_nas = nasIP attrs, lg_chap = None\<rparr>
                             in (case parseMSCHAP2 attrs (Auth p) of
                                   Some chap \<Rightarrow>
                                     if samAccount username = [] then Inl (reject reasonBadUser out)
                                     else Inr (login0\<lparr>lg_chap := Some (chap\<lparr>ms_user := samAccount username\<rparr>)\<rparr>)
                                 | None \<Rightarrow>
                                     (case attrValue attrs attrUserPassword of
                                        None \<Rightarrow> Inl (reject reasonNoPassword out)
                                      | Some passAttr \<Rightarrow>
                                          (case decryptUserPassword md5 passAttr secret (Auth p) of
                                             Inl _ \<Rightarrow> Inl (reject reasonBadUser out)
                                           | Inr pw \<Rightarrow>
                                               if pw = [] \<or> hasControl (string_of pw) then Inl (reject reasonBadUser out)
                                               else if o_username out = [] then Inl (reject reasonBadUser out)
                                               else Inr (login0\<lparr>lg_password := string_of pw\<rparr>)))))))"

subsection \<open>Authorisation\<close>

definition matchDevice :: "'l Index \<Rightarrow> string \<Rightarrow> string \<Rightarrow> string + Device" where
  "matchDevice idx nas sourceIP =
     (let sourceDev = ix_devices idx (canonIP sourceIP); nasCanon = canonIP nas
      in if nasCanon \<noteq> [] then
           (case ix_devices idx nasCanon of
              None \<Rightarrow> Inl reasonUnknownDevice
            | Some nasDev \<Rightarrow>
                (case sourceDev of
                   Some sd \<Rightarrow> if dev_Name nasDev \<noteq> dev_Name sd then Inl reasonNASMismatch else Inr nasDev
                 | None \<Rightarrow> Inr nasDev))
         else (case sourceDev of Some sd \<Rightarrow> Inr sd | None \<Rightarrow> Inl reasonUnknownDevice))"

definition ldapNormalizeDN :: "string \<Rightarrow> string" where
  "ldapNormalizeDN dn = ToLower (TrimSpace dn)"

definition groupAllows :: "string list \<Rightarrow> string \<Rightarrow> Policy list \<Rightarrow> bool" where
  "groupAllows groups role policies =
     list_ex (\<lambda>p. ldapNormalizeDN (pol_GroupDN p) \<in> set (map ldapNormalizeDN groups) \<and>
       (pol_AllDevices p \<or> list_ex (\<lambda>r. normRole r = normRole role \<and> normRole role \<noteq> []) (pol_Roles p))) policies"

definition authorize :: "string \<Rightarrow> string \<Rightarrow> string \<Rightarrow> 'l Index \<Rightarrow> string list \<Rightarrow> bool \<Rightarrow> bool \<Rightarrow> outcome" where
  "authorize username nas sourceIP idx groups ldapOK ldapErr =
     (let out = zeroOutcome\<lparr>o_result := resultReject, o_code := codeAccessReject, o_username := username,
                  o_nasIP := canonIP sourceIP, o_record := True\<rparr>
      in case matchDevice idx nas sourceIP of
           Inl reason \<Rightarrow> out\<lparr>o_reason := reason\<rparr>
         | Inr dev \<Rightarrow>
             let out = out\<lparr>o_deviceName := dev_Name dev, o_deviceRole := dev_Role dev\<rparr>
             in if \<not> dev_Enabled dev then out\<lparr>o_reason := reasonDeviceDisabled\<rparr>
                else if ldapErr then out\<lparr>o_reason := reasonDirectory\<rparr>
                else if \<not> ldapOK then out\<lparr>o_reason := reasonBadUser\<rparr>
                else if \<not> groupAllows groups (dev_Role dev) (ix_policies idx) then out\<lparr>o_reason := reasonNotAllowed\<rparr>
                else out\<lparr>o_code := codeAccessAccept, o_result := resultAccept, o_reason := reasonOK\<rparr>)"

definition replyMessage :: "string \<Rightarrow> string" where
  "replyMessage reason =
     (if reason = reasonDirectory then ''Directory unavailable''
      else if reason = reasonUnknownDevice then ''Unknown device''
      else if reason = reasonDeviceDisabled then ''Device disabled''
      else if reason = reasonNoPassword then ''Password authentication required''
      else if reason = reasonMSCHAPDir then ''MS-CHAPv2 requires Active Directory''
      else if reason = reasonMSCHAPConfig then ''MS-CHAPv2 is not configured''
      else if reason = reasonOK then []
      else ''Access denied'')"

subsection \<open>Ambiguous addresses are left out\<close>

text \<open>An association list that maps every key to a value with that key.\<close>

definition keyedBy :: "('v \<Rightarrow> 'k) \<Rightarrow> ('k \<times> 'v) list \<Rightarrow> bool" where
  "keyedBy key m \<longleftrightarrow> distinct (map fst m) \<and> (\<forall>(k, v) \<in> set m. key v = k)"

lemma set_update_cases: "(a, x) \<in> set (AList.update k v m) \<Longrightarrow> a = k \<and> x = v \<or> (a, x) \<in> set m"
  by (induction m) (auto split: if_splits)

lemma keyedBy_update: "keyedBy key m \<Longrightarrow> key v = k \<Longrightarrow> keyedBy key (AList.update k v m)"
  unfolding keyedBy_def by (auto simp: distinct_update dest!: set_update_cases)

lemma set_keys_update: "fst ` set (AList.update k v m) = insert k (fst ` set m)"
  by (metis dom_map_of_conv_image_fst dom_fun_upd option.distinct(1) update_conv')

lemma soleValue_keyed:
  assumes "keyedBy key m"
  shows "soleValue m = Some v \<Longrightarrow> fst ` set m = {key v} \<and> (key v, v) \<in> set m"
    and "soleValue m = None \<Longrightarrow> \<nexists>k. fst ` set m = {k}"
proof -
  show "soleValue m = Some v \<Longrightarrow> fst ` set m = {key v} \<and> (key v, v) \<in> set m"
    using assms by (auto simp: soleValue_def keyedBy_def split: list.splits)
  assume none: "soleValue m = None"
  show "\<nexists>k. fst ` set m = {k}"
  proof
    assume "\<exists>k. fst ` set m = {k}"
    then have "card (fst ` set m) = 1" by auto
    then have "length m = 1" using assms distinct_card[of "map fst m"] by (simp add: keyedBy_def)
    then show False using none by (auto simp: soleValue_def length_Suc_conv)
  qed
qed

definition secretsAt :: "Client list \<Rightarrow> string \<Rightarrow> string set" where
  "secretsAt clients ip = {cl_Secret c | c. c \<in> set clients \<and> canonIP (cl_Address c) = ip \<and> ip \<noteq> [] \<and> cl_Secret c \<noteq> []}"

definition ownersAt :: "Device list \<Rightarrow> string \<Rightarrow> string set" where
  "ownersAt devices ip = {dev_Name d | d. d \<in> set devices \<and> ip \<noteq> [] \<and> ip \<in> canonIP ` set (dev_Addresses d)}"

lemma clientSecrets_keys:
  "keyedBy cl_Secret (clientSecrets clients ip) \<and> fst ` set (clientSecrets clients ip) = secretsAt clients ip"
proof -
  let ?f = "\<lambda>c m. if canonIP (cl_Address c) = [] \<or> cl_Secret c = [] then m
     else if canonIP (cl_Address c) = ip then AList.update (cl_Secret c) (c\<lparr>cl_Address := ip\<rparr>) m else m"
  have "keyedBy cl_Secret m \<Longrightarrow> keyedBy cl_Secret (fold ?f cs m) \<and> fst ` set (fold ?f cs m) = fst ` set m \<union> secretsAt cs ip" for cs m
  proof (induction cs arbitrary: m)
    case (Cons c cs)
    have "secretsAt (c # cs) ip = (if canonIP (cl_Address c) = ip \<and> ip \<noteq> [] \<and> cl_Secret c \<noteq> [] then {cl_Secret c} else {}) \<union> secretsAt cs ip"
      by (auto simp: secretsAt_def)
    with Cons.IH[of "?f c m"] Cons.prems show ?case by (auto simp: keyedBy_update set_keys_update split: if_splits)
  qed (simp add: secretsAt_def)
  from this[of "[]" clients] show ?thesis by (simp add: clientSecrets_def keyedBy_def)
qed

lemma deviceOwners_keys:
  "keyedBy dev_Name (deviceOwners devices ip) \<and> fst ` set (deviceOwners devices ip) = ownersAt devices ip"
proof -
  let ?g = "\<lambda>d addr m. if canonIP addr = [] then m else if canonIP addr = ip then AList.update (dev_Name d) d m else m"
  have inner: "keyedBy dev_Name m \<Longrightarrow> keyedBy dev_Name (fold (?g d) as m) \<and>
      fst ` set (fold (?g d) as m) = fst ` set m \<union> (if ip \<noteq> [] \<and> ip \<in> canonIP ` set as then {dev_Name d} else {})" for d as m
  proof (induction as arbitrary: m)
    case (Cons a as)
    from Cons.IH[of "?g d a m"] Cons.prems show ?case by (auto simp: keyedBy_update set_keys_update)
  qed simp
  have "keyedBy dev_Name m \<Longrightarrow> keyedBy dev_Name (fold (\<lambda>d. fold (?g d) (dev_Addresses d)) ds m) \<and>
      fst ` set (fold (\<lambda>d. fold (?g d) (dev_Addresses d)) ds m) = fst ` set m \<union> ownersAt ds ip" for ds m
  proof (induction ds arbitrary: m)
    case (Cons d ds)
    have "ownersAt (d # ds) ip = (if ip \<noteq> [] \<and> ip \<in> canonIP ` set (dev_Addresses d) then {dev_Name d} else {}) \<union> ownersAt ds ip"
      by (auto simp: ownersAt_def)
    with Cons.IH[of "fold (?g d) (dev_Addresses d) m"] inner[OF Cons.prems, of d "dev_Addresses d"] show ?case by auto
  qed (simp add: ownersAt_def)
  from this[of "[]" devices] show ?thesis by (simp add: deviceOwners_def keyedBy_def)
qed


end
