(* ===== verification/Radius_Server.thy ===== *)
theory Radius_Server
  imports Radius_Auth
begin

text \<open>
  The RADIUS listener, \<open>internal/radius/server.go\<close>: the rate limiter, the replay cache, the decision of a
  request, the answer, the login log with its spool file, and the configuration refresh. A step relation
  interleaves the goroutines: requests in flight, configuration changes and the log.

  Parameters: the hash functions (\<open>crypto\<close>), the directory functions of \<open>Options\<close>, the JSON codec, and the
  results of the file and network operations. Times are nanoseconds; one lock region reads the clock once.

  Lemmas: when a login is accepted; every Access-Accept ever sent was granted; a retransmission gets the same
  answer and is not processed again; the rate limit is exact per address and window; the spool keeps the latest
  events and gives them back.
\<close>

subsection \<open>The Active Directory check\<close>

text \<open>
  \<open>adlogon.go\<close>: the choice of the domain controller. The call to one controller is the parameter \<open>verifyHost\<close>;
  \<open>ErrBadCredentials\<close> is \<open>mschapBad\<close>, every other error of a controller \<open>mschapFailed\<close>.
\<close>

datatype mschapErr = errMSCHAPNotAD | errMSCHAPConfig | mschapBad | mschapFailed

record adConfig =
  ad_ServerType :: string
  ad_Host :: string
  ad_Host2 :: string
  ad_BaseDN :: string

fun verifyHosts :: "(string \<Rightarrow> mschapErr + bytes) \<Rightarrow> string list \<Rightarrow> mschapErr + bytes" where
  "verifyHosts verifyHost [] = Inl mschapFailed"
| "verifyHosts verifyHost (h # hs) =
     (let host = TrimSpace h
      in if host = [] then verifyHosts verifyHost hs
         else (case verifyHost host of
                 Inr key \<Rightarrow> Inr key
               | Inl mschapBad \<Rightarrow> Inl mschapBad
               | Inl _ \<Rightarrow> verifyHosts verifyHost hs))"

definition verifyMSCHAP :: "(string \<Rightarrow> mschapErr + bytes) \<Rightarrow> adConfig \<Rightarrow> Machine \<Rightarrow> mschapErr + bytes" where
  "verifyMSCHAP verifyHost cfg machine =
     (if \<not> EqualFold (ad_ServerType cfg) ''ad'' then Inl errMSCHAPNotAD
      else if TrimSpace (mc_Account machine) = [] \<or> mc_Password machine = [] then Inl errMSCHAPConfig
      else verifyHosts verifyHost [ad_Host cfg, ad_Host2 cfg])"

definition dnsDomain :: "string \<Rightarrow> string" where
  "dnsDomain base = Join (map (drop 3)
     (filter (\<lambda>p. length p > 3 \<and> EqualFold (take 3 p) ''dc='') (map TrimSpace (Split base (CHR '',''))))) ''.''"

definition badLogon :: "string \<Rightarrow> bool" where
  "badLogon err = list_ex (Contains (ToLower err))
     [''status_wrong_password'', ''status_logon_failure'', ''status_no_such_user'', ''status_account_restriction'',
      ''status_account_disabled'', ''status_account_locked_out'', ''status_password_expired'',
      ''status_password_must_change'', ''status_invalid_logon_hours'', ''c000006a'', ''c000006d'', ''c0000064'']"

definition badLogonCode :: "32 word \<Rightarrow> bool" where
  "badLogonCode code \<longleftrightarrow> code \<in> {0xC000006A, 0xC000006D, 0xC0000064, 0xC000006E, 0xC0000071, 0xC0000072,
     0xC0000234, 0xC000006F, 0xC0000224}"

definition allZero :: "bytes \<Rightarrow> bool" where
  "allZero b = list_all (\<lambda>c. c = 0) b"

text \<open>\<open>ValidateListen\<close> of \<open>radius/listen.go\<close>: \<open>True\<close> for no error.\<close>

definition ValidateListenRadius :: "string \<Rightarrow> bool" where
  "ValidateListenRadius s0 = (let s = TrimSpace s0 in if s = [] then True else SplitHostPort s \<noteq> None)"

subsection \<open>State\<close>

type_synonym time = int

definition second :: time where "second = 1000000000"
definition maxInFlight :: nat where "maxInFlight = 64"
definition perIPPerSec :: nat where "perIPPerSec = 20"
definition replayFor :: time where "replayFor = 5 * second"
definition maxSpool :: nat where "maxSpool = 1000"

record crypto =
  cr_md5 :: "bytes \<Rightarrow> bytes"
  cr_hmac :: "bytes \<Rightarrow> bytes \<Rightarrow> bytes"
  cr_sha1 :: "bytes \<Rightarrow> bytes"

text \<open>\<open>Options\<close>: the directory functions. \<open>None\<close> is an error, otherwise the groups and the verdict.\<close>

record 'l Options =
  opt_StatePath :: string
  opt_Worker :: string
  opt_Authenticate :: "'l \<Rightarrow> string \<Rightarrow> string \<Rightarrow> (string list \<times> bool) option"
  opt_VerifyMSCHAP :: "'l \<Rightarrow> Machine \<Rightarrow> string \<Rightarrow> bytes \<Rightarrow> bytes \<Rightarrow> mschapErr + bytes"
  opt_LookupGroups :: "'l \<Rightarrow> string \<Rightarrow> (string list \<times> bool) option"

record Event =
  ev_ReportedAt :: time
  ev_Username :: string
  ev_NASIP :: string
  ev_DeviceName :: string
  ev_DeviceRole :: string
  ev_Result :: string
  ev_Reason :: string
  ev_Worker :: string

record replayEntry =
  re_auth :: bytes
  re_reply :: bytes
  re_until :: time
  re_done :: bool

text \<open>The maps \<open>limiter\<close> (absent counts as 0) and \<open>replay\<close>; \<open>window\<close> is \<open>None\<close> for the zero time.\<close>

record 'l RadiusServer =
  rs_idx :: "'l Index option"
  rs_limiter :: "string \<Rightarrow> nat"
  rs_window :: "time option"
  rs_replay :: "(string \<times> replayEntry) list"
  rs_queue :: "Event list"
  rs_last :: bytes

definition newRadiusServer :: "'l RadiusServer" where
  "newRadiusServer = \<lparr>rs_idx = None, rs_limiter = (\<lambda>_. 0), rs_window = None, rs_replay = [], rs_queue = [], rs_last = []\<rparr>"

subsection \<open>Configuration\<close>

definition setConfig :: "'l RadiusConfig \<Rightarrow> 'l RadiusServer \<Rightarrow> 'l RadiusServer" where
  "setConfig cfg s = s\<lparr>rs_idx := Some (BuildIndex cfg)\<rparr>"

text \<open>The second component is what \<open>saveCache\<close> writes to the state file, if it is called.\<close>

definition refreshRadius :: "(bytes \<Rightarrow> 'l RadiusConfig option) \<Rightarrow> bytes option \<Rightarrow> 'l RadiusServer \<Rightarrow>
    'l RadiusServer \<times> 'l RadiusConfig option" where
  "refreshRadius unmarshal fetched s =
     (case fetched of
        None \<Rightarrow> (s, None)
      | Some body \<Rightarrow>
          if body = rs_last s then (s, None)
          else (case unmarshal body of
                  None \<Rightarrow> (s, None)
                | Some cfg \<Rightarrow>
                    (case EncodeReply (rc_Reply cfg) of
                       Inl _ \<Rightarrow> (s, None)
                     | Inr _ \<Rightarrow> ((setConfig cfg s)\<lparr>rs_last := body\<rparr>, Some cfg))))"

definition loadCacheRadius :: "(bytes \<Rightarrow> 'l RadiusConfig option) \<Rightarrow> string \<Rightarrow> bytes option \<Rightarrow> 'l RadiusServer \<Rightarrow> 'l RadiusServer" where
  "loadCacheRadius unmarshal statePath file s =
     (if statePath = [] then s
      else (case file of
              None \<Rightarrow> s
            | Some b \<Rightarrow>
                (case unmarshal b of
                   None \<Rightarrow> s
                 | Some cfg \<Rightarrow> (case EncodeReply (rc_Reply cfg) of Inl _ \<Rightarrow> s | Inr _ \<Rightarrow> setConfig cfg s))))"

text \<open>\<open>StatePath\<close> and the spool beside it; \<open>filepath.Dir\<close> and \<open>Join\<close> on a clean path.\<close>

definition StatePath :: "string \<Rightarrow> string" where
  "StatePath override = (if override \<noteq> [] then override else ''/var/lib/factum2/radius/cache.json'')"

subsection \<open>Addresses and the rate limiter\<close>

text \<open>A \<open>net.Addr\<close> is \<open>None\<close> for nil and otherwise the text of its \<open>String\<close> method.\<close>

definition hostIP :: "string option \<Rightarrow> string" where
  "hostIP addr =
     (case addr of
        None \<Rightarrow> []
      | Some a \<Rightarrow> (case SplitHostPort a of None \<Rightarrow> canonIP a | Some (host, _) \<Rightarrow> canonIP host))"

definition allow :: "time \<Rightarrow> string option \<Rightarrow> 'l RadiusServer \<Rightarrow> bool \<times> 'l RadiusServer" where
  "allow now addr s =
     (let ip = hostIP addr;
          s = (if (case rs_window s of None \<Rightarrow> True | Some w \<Rightarrow> now - w \<ge> second)
               then s\<lparr>rs_window := Some now, rs_limiter := (\<lambda>_. 0)\<rparr> else s);
          s = s\<lparr>rs_limiter := (rs_limiter s)(ip := rs_limiter s ip + 1)\<rparr>
      in (rs_limiter s ip \<le> perIPPerSec, s))"

subsection \<open>The replay cache\<close>

definition replayKey :: "string \<Rightarrow> byte \<Rightarrow> string" where
  "replayKey source ident = source @ ''/'' @ Itoa (unat ident)"

definition beginReplay :: "time \<Rightarrow> string \<Rightarrow> bytes \<Rightarrow> 'l RadiusServer \<Rightarrow> (bytes \<times> bool) \<times> 'l RadiusServer" where
  "beginReplay now source raw s =
     (if length raw < 20 then (([], True), s)
      else let auth = take 16 (drop 4 raw); key = replayKey source (raw ! 1);
               fresh = (([], True), s\<lparr>rs_replay := AList.update key
                  \<lparr>re_auth = auth, re_reply = [], re_until = now + replayFor, re_done = False\<rparr> (rs_replay s)\<rparr>)
      in (case map_of (rs_replay s) key of
            Some e \<Rightarrow>
              if now < re_until e \<and> re_auth e = auth
              then ((if re_done e then re_reply e else [], False), s)
              else fresh
          | None \<Rightarrow> fresh))"

definition storeReplay :: "time \<Rightarrow> string \<Rightarrow> Packet \<Rightarrow> bytes \<Rightarrow> 'l RadiusServer \<Rightarrow> 'l RadiusServer" where
  "storeReplay now source req reply s =
     (let m = AList.update (replayKey source (ID req))
                \<lparr>re_auth = Auth req, re_reply = reply, re_until = now + replayFor, re_done = True\<rparr> (rs_replay s)
      in if length m \<le> 4096 then s\<lparr>rs_replay := m\<rparr>
         else s\<lparr>rs_replay := filter (\<lambda>(k, e). \<not> now > re_until e) m\<rparr>)"

subsection \<open>Credentials\<close>

fun authenticateLoop :: "'l Options \<Rightarrow> string \<Rightarrow> string \<Rightarrow> 'l list \<Rightarrow> string list \<times> bool" where
  "authenticateLoop opt username password [] = ([], False)"
| "authenticateLoop opt username password (cfg # rest) =
     (case opt_Authenticate opt cfg username password of
        None \<Rightarrow> authenticateLoop opt username password rest
      | Some (groups, ok) \<Rightarrow> if ok then (groups, True) else authenticateLoop opt username password rest)"

text \<open>The error result of \<open>authenticateAny\<close> is always nil.\<close>

definition authenticateAny :: "'l Options \<Rightarrow> 'l Index \<Rightarrow> string \<Rightarrow> string \<Rightarrow> string list \<times> bool" where
  "authenticateAny opt idx username password = authenticateLoop opt username password (directories idx)"

fun mschapLoop :: "crypto \<Rightarrow> 'l Options \<Rightarrow> Machine \<Rightarrow> mschap2 \<Rightarrow> bytes \<Rightarrow> bool \<Rightarrow> bool \<Rightarrow> 'l list \<Rightarrow>
    mschapErr + string list \<times> bytes \<times> bool" where
  "mschapLoop c opt machine chap chal sawAD sawNonAD [] =
     (if \<not> sawAD \<and> sawNonAD then Inl errMSCHAPNotAD else Inr ([], [], False))"
| "mschapLoop c opt machine chap chal sawAD sawNonAD (cfg # rest) =
     (case opt_VerifyMSCHAP opt cfg machine (ms_user chap) chal (ms_nt chap) of
        Inl errMSCHAPNotAD \<Rightarrow> mschapLoop c opt machine chap chal sawAD True rest
      | Inl errMSCHAPConfig \<Rightarrow> Inl errMSCHAPConfig
      | Inl _ \<Rightarrow> mschapLoop c opt machine chap chal True sawNonAD rest
      | Inr key \<Rightarrow>
          (case opt_LookupGroups opt cfg (ms_user chap) of
             None \<Rightarrow> mschapLoop c opt machine chap chal True sawNonAD rest
           | Some (groups, found) \<Rightarrow>
               if \<not> found then mschapLoop c opt machine chap chal True sawNonAD rest
               else Inr (groups, mschap2Success (cr_sha1 c) chap key, True)))"

definition mschap :: "crypto \<Rightarrow> 'l Options \<Rightarrow> 'l Index \<Rightarrow> mschap2 \<Rightarrow> mschapErr + string list \<times> bytes \<times> bool" where
  "mschap c opt idx chap =
     mschapLoop c opt (ix_machine idx) chap (challengeHash (cr_sha1 c) (ms_peer chap) (ms_auth chap) (ms_user chap))
       False False (directories idx)"

subsection \<open>A request\<close>

definition packetOf :: "bytes \<Rightarrow> Packet option" where
  "packetOf raw = (case parse raw of Inl _ \<Rightarrow> None | Inr (p, _) \<Rightarrow> Some p)"

definition secretFor :: "'l Index \<Rightarrow> string \<Rightarrow> string" where
  "secretFor idx source = (case ix_clients idx (canonIP source) of Some c \<Rightarrow> cl_Secret c | None \<Rightarrow> [])"

text \<open>\<open>handle\<close> between \<open>begin\<close> and \<open>finish\<close>.\<close>

definition decide :: "crypto \<Rightarrow> 'l Options \<Rightarrow> 'l Index \<Rightarrow> string \<Rightarrow> bytes \<Rightarrow> outcome" where
  "decide c opt idx source raw =
     (case gate (cr_md5 c) (cr_hmac c) raw source idx of
        Inl early \<Rightarrow> early
      | Inr lg \<Rightarrow>
          let done = (\<lambda>groups ok err extra.
                (authorize (lg_username lg) (lg_nas lg) source idx groups ok err)
                  \<lparr>o_req := packetOf raw, o_secret := secretFor idx source, o_extra := extra\<rparr>);
              refuse = (\<lambda>reason. zeroOutcome\<lparr>o_code := codeAccessReject, o_result := resultReject, o_record := True,
                  o_username := lg_username lg, o_nasIP := canonIP source, o_secret := secretFor idx source,
                  o_req := packetOf raw, o_reason := reason\<rparr>)
          in (case lg_chap lg of
                Some chap \<Rightarrow>
                  (case mschap c opt idx chap of
                     Inl errMSCHAPNotAD \<Rightarrow> refuse reasonMSCHAPDir
                   | Inl errMSCHAPConfig \<Rightarrow> refuse reasonMSCHAPConfig
                   | Inl _ \<Rightarrow> done [] False True []
                   | Inr (groups, extra, ok) \<Rightarrow> done groups ok False extra)
              | None \<Rightarrow>
                  (case authenticateAny opt idx (lg_username lg) (lg_password lg) of
                     (groups, ok) \<Rightarrow> done groups ok False [])))"

definition enqueue :: "time \<Rightarrow> string \<Rightarrow> outcome \<Rightarrow> 'l RadiusServer \<Rightarrow> 'l RadiusServer" where
  "enqueue now worker out s = s\<lparr>rs_queue := rs_queue s @
     [\<lparr>ev_ReportedAt = now, ev_Username = (if o_result out \<noteq> resultDrop then o_username out else []),
       ev_NASIP = o_nasIP out, ev_DeviceName = o_deviceName out, ev_DeviceRole = o_deviceRole out,
       ev_Result = o_result out, ev_Reason = o_reason out, ev_Worker = worker\<rparr>]\<rparr>"

text \<open>\<open>finish\<close>: the datagrams written, and the state. The reply attributes are those of the current index.\<close>

definition finish :: "crypto \<Rightarrow> string \<Rightarrow> time \<Rightarrow> string \<Rightarrow> outcome \<Rightarrow> 'l RadiusServer \<Rightarrow> bytes list \<times> 'l RadiusServer" where
  "finish c worker now source out s =
     (let (sent, s) =
        (case o_req out of
           Some req \<Rightarrow>
             if o_code out \<noteq> 0 \<and> o_secret out \<noteq> [] \<and> Code req \<noteq> 0 then
               let extra = (if o_code out = codeAccessAccept
                            then (case rs_idx s of Some idx \<Rightarrow> ix_reply idx | None \<Rightarrow> []) @ o_extra out else []);
                   reply = response (cr_md5 c) (cr_hmac c) req (o_code out) (bytes_of (o_secret out))
                             (bytes_of (replyMessage (o_reason out))) extra
               in ([reply], storeReplay now source req reply s)
             else ([], s)
         | None \<Rightarrow> ([], s))
      in (sent, if o_record out then enqueue now worker out s else s))"

text \<open>The whole of \<open>handle\<close> when nothing runs beside it; \<open>tb\<close> and \<open>tf\<close> are the times of \<open>begin\<close> and \<open>finish\<close>.\<close>

definition handle :: "crypto \<Rightarrow> 'l Options \<Rightarrow> time \<Rightarrow> time \<Rightarrow> string option \<Rightarrow> bytes \<Rightarrow> 'l RadiusServer \<Rightarrow>
    bytes list \<times> 'l RadiusServer" where
  "handle c opt tb tf addr raw s =
     (case rs_idx s of
        None \<Rightarrow> ([], s)
      | Some idx \<Rightarrow>
          if \<not> ix_Enabled idx then ([], s)
          else let source = hostIP addr
          in (case beginReplay tb source raw s of
                ((reply, False), s) \<Rightarrow> (if length reply > 0 then [reply] else [], s)
              | ((_, True), s) \<Rightarrow> finish c (opt_Worker opt) tf source (decide c opt idx source raw) s))"

subsection \<open>The login log\<close>

text \<open>\<open>splitLines\<close>: the loop keeps the bytes of the line so far, which Go names by its start.\<close>

fun splitLoop :: "bytes \<Rightarrow> bytes \<Rightarrow> bytes list" where
  "splitLoop line [] = (if line \<noteq> [] then [line] else [])"
| "splitLoop line (b # bs) =
     (if b = 0x0A then (if line \<noteq> [] then [line] else []) @ splitLoop [] bs else splitLoop (line @ [b]) bs)"

definition splitLines :: "bytes \<Rightarrow> bytes list" where
  "splitLines b = splitLoop [] b"

definition joinLines :: "bytes list \<Rightarrow> bytes" where
  "joinLines lines = concat (map (\<lambda>l. l @ [0x0A]) lines)"

definition trimSpool :: "bytes \<Rightarrow> bytes" where
  "trimSpool b =
     (let lines = splitLines b
      in if length lines \<le> maxSpool then b else joinLines (drop (length lines - maxSpool) lines))"

text \<open>
  The spool file is \<open>None\<close> while it does not exist. \<open>spool\<close> appends a line per event that marshals and trims the
  file; without a state path there is no spool.
\<close>

definition spool :: "(Event \<Rightarrow> bytes option) \<Rightarrow> string \<Rightarrow> Event list \<Rightarrow> bytes option \<Rightarrow> bytes option" where
  "spool marshal statePath events file =
     (if statePath = [] \<or> events = [] then file
      else Some (trimSpool (fold (\<lambda>ev f. case marshal ev of None \<Rightarrow> f | Some line \<Rightarrow> f @ line @ [0x0A]) events
             (case file of None \<Rightarrow> [] | Some f \<Rightarrow> f))))"

text \<open>
  \<open>flush\<close> with \<open>report\<close> the result of the call to the hub, \<open>None\<close> when no \<open>Report\<close> is configured. The last
  component is the batch given to \<open>Report\<close>.
\<close>

definition flush :: "(Event \<Rightarrow> bytes option) \<Rightarrow> string \<Rightarrow> (Event list \<Rightarrow> bool) option \<Rightarrow> 'l RadiusServer \<Rightarrow> bytes option \<Rightarrow>
    'l RadiusServer \<times> bytes option \<times> Event list" where
  "flush marshal statePath report s file =
     (let batch = rs_queue s; s = s\<lparr>rs_queue := []\<rparr>
      in if length batch = 0 \<or> report = None then
           (s, if report = None \<and> length batch > 0 then spool marshal statePath batch file else file, [])
         else
           let file = (if length batch > 100 then spool marshal statePath (drop 100 batch) file else file);
               batch = (if length batch > 100 then take 100 batch else batch)
           in if list_ex (\<lambda>ev. marshal ev = None) batch then (s, file, [])
              else (s, if the report batch then file else spool marshal statePath batch file, batch))"

text \<open>\<open>drainSpool\<close>: what is sent at the start of the report loop, and the file afterwards.\<close>

definition spooledEvents :: "(bytes \<Rightarrow> Event option) \<Rightarrow> bytes \<Rightarrow> Event list" where
  "spooledEvents unmarshal b = concat (map (\<lambda>line.
     case unmarshal line of Some ev \<Rightarrow> if ev_Result ev \<noteq> [] then [ev] else [] | None \<Rightarrow> []) (splitLines b))"

definition drainSpool :: "(bytes \<Rightarrow> Event option) \<Rightarrow> string \<Rightarrow> (Event list \<Rightarrow> bool) option \<Rightarrow> bytes option \<Rightarrow>
    bytes option \<times> Event list" where
  "drainSpool unmarshal statePath report file =
     (if statePath = [] \<or> report = None then (file, [])
      else (case file of
              None \<Rightarrow> (None, [])
            | Some b \<Rightarrow>
                let events = spooledEvents unmarshal b
                in if length events = 0 then (file, [])
                   else (if the report events then None else file, events)))"

subsection \<open>The rate limit\<close>

fun allows :: "(time \<times> string option) list \<Rightarrow> 'l RadiusServer \<Rightarrow> bool list" where
  "allows [] s = []"
| "allows ((now, addr) # rest) s = (case allow now addr s of (ok, s') \<Rightarrow> ok # allows rest s')"

definition arrivals :: "string \<Rightarrow> (time \<times> string option) list \<Rightarrow> nat" where
  "arrivals ip ps = length (filter (\<lambda>(t, a). hostIP a = ip) ps)"

lemma allows_in_window:
  assumes "rs_window s = Some w" and "\<forall>(t, a) \<in> set ps. t - w < second" and "i < length ps"
  shows "allows ps s ! i \<longleftrightarrow> rs_limiter s (hostIP (snd (ps ! i))) + arrivals (hostIP (snd (ps ! i))) (take (Suc i) ps) \<le> perIPPerSec"
  using assms
proof (induction ps arbitrary: s i)
  case (Cons p ps)
  obtain t a where p: "p = (t, a)" by force
  let ?s = "s\<lparr>rs_limiter := (rs_limiter s)(hostIP a := rs_limiter s (hostIP a) + 1)\<rparr>"
  have "allow t a s = (rs_limiter s (hostIP a) + 1 \<le> perIPPerSec, ?s)"
    using Cons.prems p by (auto simp: allow_def Let_def)
  then have step: "allows (p # ps) s = (rs_limiter s (hostIP a) + 1 \<le> perIPPerSec) # allows ps ?s"
    using p by simp
  show ?case
  proof (cases i)
    case 0
    with step p show ?thesis by (simp add: arrivals_def)
  next
    case (Suc j)
    have "allows ps ?s ! j \<longleftrightarrow> rs_limiter ?s (hostIP (snd (ps ! j))) + arrivals (hostIP (snd (ps ! j))) (take (Suc j) ps) \<le> perIPPerSec"
      using Cons.prems Suc by (intro Cons.IH) auto
    with step p Suc show ?thesis by (auto simp: arrivals_def)
  qed
qed simp

text \<open>
  C32: The rate limiter is exact and separate for each address: in the window that a packet opens, a packet is let
  through exactly when at most 20 packets of its own address, itself included, have arrived; a flood from one
  address never costs another address a packet.
\<close>

theorem allow_exact:
  assumes "case rs_window s of None \<Rightarrow> True | Some w \<Rightarrow> t0 - w \<ge> second"
    and "\<forall>(t, a) \<in> set ps. t - t0 < second" and "i < length ((t0, a0) # ps)"
  shows "allows ((t0, a0) # ps) s ! i \<longleftrightarrow>
    arrivals (hostIP (snd (((t0, a0) # ps) ! i))) (take (Suc i) ((t0, a0) # ps)) \<le> perIPPerSec"
proof -
  let ?s = "s\<lparr>rs_window := Some t0, rs_limiter := (\<lambda>_. 0)\<rparr>"
  have "allow t0 a0 s = allow t0 a0 ?s" using assms(1) by (simp add: allow_def second_def)
  then have eq: "allows ((t0, a0) # ps) s = allows ((t0, a0) # ps) ?s" by simp
  show ?thesis unfolding eq
    using allows_in_window[of ?s t0 "(t0, a0) # ps" i] assms(2,3) by (auto simp: second_def)
qed

theorem allow_exact_witness:
  "allows ((5, None) # replicate 20 (6, None)) (newRadiusServer :: nat RadiusServer) ! 20 = False"
proof -
  have "\<not> arrivals [] ((5, None) # replicate 20 (6, None)) \<le> perIPPerSec"
    by (simp add: arrivals_def perIPPerSec_def hostIP_def)
  then show ?thesis
    using allow_exact[where s = "newRadiusServer :: nat RadiusServer" and ?t0.0 = 5 and ps = "replicate 20 (6, None)" and i = 20 and ?a0.0 = None]
    by (simp add: newRadiusServer_def second_def hostIP_def)
qed

subsection \<open>The spool\<close>

lemma splitLoop_line: "0x0A \<notin> set l \<Longrightarrow> splitLoop a (l @ 0x0A # bs) = (if a @ l \<noteq> [] then [a @ l] else []) @ splitLoop [] bs"
  by (induction l arbitrary: a) auto

definition isLine :: "bytes \<Rightarrow> bool" where
  "isLine l \<longleftrightarrow> l \<noteq> [] \<and> 0x0A \<notin> set l"

lemma splitLines_joinLines: "list_all isLine ls \<Longrightarrow> splitLines (joinLines ls) = ls"
  by (induction ls) (auto simp: splitLines_def joinLines_def isLine_def splitLoop_line)

lemma splitLoop_lines: "0x0A \<notin> set a \<Longrightarrow> list_all isLine (splitLoop a bs)"
  by (induction a bs rule: splitLoop.induct) (auto simp: isLine_def)

lemma splitLines_trimSpool: "splitLines (trimSpool b) = drop (length (splitLines b) - maxSpool) (splitLines b)"
proof -
  have "list_all isLine (drop n (splitLines b))" for n
    using splitLoop_lines[of "[]" b] by (auto simp: splitLines_def list_all_iff dest: in_set_dropD)
  then show ?thesis by (simp add: trimSpool_def Let_def splitLines_joinLines)
qed

lemma joinLines_append: "joinLines (xs @ ys) = joinLines xs @ joinLines ys"
  by (simp add: joinLines_def)

lemma trimSpool_joinLines:
  "list_all isLine ls \<Longrightarrow> trimSpool (joinLines ls) = joinLines (drop (length ls - maxSpool) ls)"
  by (simp add: trimSpool_def Let_def splitLines_joinLines)

definition latest :: "'a list \<Rightarrow> 'a list" where
  "latest xs = drop (length xs - maxSpool) xs"

lemma latest_latest: "latest (latest xs @ ys) = latest (xs @ ys)"
  by (cases "length xs \<le> maxSpool") (auto simp: latest_def add.commute)

lemma spool_joined:
  assumes "\<And>ev. ev \<in> set evs \<union> set old \<Longrightarrow> marshal ev = Some (enc ev) \<and> isLine (enc ev)" and "statePath \<noteq> []"
  shows "spool marshal statePath evs (if old = [] then None else Some (joinLines (map enc old)))
    = (if evs = [] \<and> old = [] then None else if evs = [] then Some (joinLines (map enc old))
       else Some (joinLines (map enc (latest (old @ evs)))))"
proof -
  have "fold (\<lambda>ev f. case marshal ev of None \<Rightarrow> f | Some line \<Rightarrow> f @ line @ [0x0A]) es acc = acc @ joinLines (map enc es)"
    if "set es \<subseteq> set evs" for es acc
    using that assms(1) by (induction es arbitrary: acc) (auto simp: joinLines_def)
  moreover have "(case if old = [] then None else Some (joinLines (map enc old)) of None \<Rightarrow> [] | Some f \<Rightarrow> f) = joinLines (map enc old)"
    by (simp add: joinLines_def)
  moreover have "trimSpool (joinLines (map enc old) @ joinLines (map enc evs)) = joinLines (map enc (latest (old @ evs)))"
    using trimSpool_joinLines[of "map enc (old @ evs)"] assms(1)
    by (auto simp: joinLines_append list_all_iff latest_def drop_map)
  ultimately show ?thesis using assms(2) by (auto simp: spool_def)
qed

lemma latest_Nil_iff [simp]: "latest xs = [] \<longleftrightarrow> xs = []"
proof -
  have "length xs \<le> length xs - maxSpool \<longleftrightarrow> length xs = 0" unfolding maxSpool_def by arith
  then show ?thesis by (simp add: latest_def)
qed

lemma latest_short: "length xs \<le> maxSpool \<Longrightarrow> latest xs = xs"
  by (simp add: latest_def)

lemma set_latest: "set (latest xs) \<subseteq> set xs"
  by (simp add: latest_def set_drop_subset)

lemma fold_spool_joined:
  assumes "\<And>ev. ev \<in> set (concat batches) \<union> set old \<Longrightarrow> marshal ev = Some (enc ev) \<and> isLine (enc ev)"
    and "statePath \<noteq> []" and "length old \<le> maxSpool"
  shows "fold (spool marshal statePath) batches (if old = [] then None else Some (joinLines (map enc old)))
    = (if concat batches = [] \<and> old = [] then None else Some (joinLines (map enc (latest (old @ concat batches)))))"
  using assms(1,3)
proof (induction batches arbitrary: old)
  case Nil
  then show ?case by (simp add: latest_def)
next
  case (Cons evs batches)
  let ?new = "latest (old @ evs)"
  have sp: "spool marshal statePath evs (if old = [] then None else Some (joinLines (map enc old)))
      = (if ?new = [] then None else Some (joinLines (map enc ?new)))"
  proof -
    have "marshal ev = Some (enc ev) \<and> isLine (enc ev)" if "ev \<in> set evs \<union> set old" for ev
      using Cons.prems(1) that by auto
    note sj = spool_joined[of evs old, OF this assms(2)]
    show ?thesis by (subst sj) (use Cons.prems(2) in \<open>auto simp: latest_short\<close>)
  qed
  have "set ?new \<subseteq> set old \<union> set evs" using set_latest[of "old @ evs"] by simp
  then have "fold (spool marshal statePath) batches (if ?new = [] then None else Some (joinLines (map enc ?new)))
    = (if concat batches = [] \<and> ?new = [] then None else Some (joinLines (map enc (latest (?new @ concat batches)))))"
    using Cons.prems(1) by (intro Cons.IH) (auto simp: latest_def)
  with sp show ?case using latest_latest[of "old @ evs" "concat batches"] by auto
qed

lemma drain_after_spool:
  assumes "\<forall>ev \<in> set (concat batches). marshal ev = Some (enc ev) \<and> isLine (enc ev) \<and> unmarshal (enc ev) = Some ev \<and> ev_Result ev \<noteq> []"
    and "statePath \<noteq> []" and "concat batches \<noteq> []"
  shows "drainSpool unmarshal statePath (Some report) (fold (spool marshal statePath) batches None) =
    (if report (latest (concat batches)) then None
     else Some (joinLines (map enc (latest (concat batches)))), latest (concat batches))"
proof -
  let ?l = "latest (concat batches)"
  have spooled: "fold (spool marshal statePath) batches None = Some (joinLines (map enc ?l))"
    using fold_spool_joined[of batches "[]" marshal enc statePath] assms by auto
  have l: "\<forall>ev \<in> set ?l. isLine (enc ev) \<and> unmarshal (enc ev) = Some ev \<and> ev_Result ev \<noteq> []"
    using assms(1) set_latest by fastforce
  then have "splitLines (joinLines (map enc ?l)) = map enc ?l"
    by (intro splitLines_joinLines) (simp add: list_all_iff)
  moreover have "concat (map (\<lambda>line. case unmarshal line of Some ev \<Rightarrow> if ev_Result ev \<noteq> [] then [ev] else [] | None \<Rightarrow> []) (map enc es)) = es"
    if "set es \<subseteq> set ?l" for es using that l by (induction es) auto
  ultimately have "spooledEvents unmarshal (joinLines (map enc ?l)) = ?l" by (simp add: spooledEvents_def)
  then show ?thesis using assms(2,3) by (auto simp: drainSpool_def spooled Let_def)
qed

text \<open>
  Login events that could not be shipped survive: whatever batches are spooled, in any split, the next drain
  offers the hub exactly the latest 1000 of them, in order, and removes the file only when the hub takes them.
  The JSON codec must put one event on a line and read it back.
\<close>

theorem spool_keeps_latest:
  assumes "\<forall>ev \<in> set (concat batches). marshal ev = Some (enc ev) \<and> isLine (enc ev) \<and> unmarshal (enc ev) = Some ev \<and> ev_Result ev \<noteq> []"
    and "statePath \<noteq> []" and "concat batches \<noteq> []"
  shows "drainSpool unmarshal statePath (Some report) (fold (spool marshal statePath) batches None) =
    (if report (latest (concat batches)) then None
     else Some (joinLines (map enc (latest (concat batches)))), latest (concat batches))"
  by (rule drain_after_spool[OF assms])

definition exEvent :: Event where
  "exEvent = \<lparr>ev_ReportedAt = 1, ev_Username = ''u'', ev_NASIP = ''10.0.0.1'', ev_DeviceName = ''sw1'', ev_DeviceRole = ''access'',
     ev_Result = ''reject'', ev_Reason = ''bad credentials'', ev_Worker = ''w''\<rparr>"

theorem spool_keeps_latest_witness:
  "drainSpool (\<lambda>_. Some exEvent) ''/s'' (Some (\<lambda>_. False)) (fold (spool (\<lambda>_. Some [123, 125]) ''/s'') [[exEvent], [], [exEvent]] None)
    = (Some [123, 125, 10, 123, 125, 10], [exEvent, exEvent])"
  using spool_keeps_latest[of "[[exEvent], [], [exEvent]]" "\<lambda>_. Some [123, 125]" "\<lambda>_. [123, 125]" "\<lambda>_. Some exEvent" "''/s''" "\<lambda>_. False"]
  by (simp add: isLine_def exEvent_def latest_def maxSpool_def joinLines_def)

subsection \<open>When a login is accepted\<close>

text \<open>One directory's verdict on a login, with the groups it reports; and the error that ends the search.\<close>

definition accepting :: "crypto \<Rightarrow> 'l Options \<Rightarrow> 'l Index \<Rightarrow> login \<Rightarrow> 'l \<Rightarrow> string list option" where
  "accepting c opt idx lg cfg =
     (case lg_chap lg of
        None \<Rightarrow>
          (case opt_Authenticate opt cfg (lg_username lg) (lg_password lg) of
             Some (groups, True) \<Rightarrow> Some groups | _ \<Rightarrow> None)
      | Some chap \<Rightarrow>
          (case opt_VerifyMSCHAP opt cfg (ix_machine idx) (ms_user chap)
             (challengeHash (cr_sha1 c) (ms_peer chap) (ms_auth chap) (ms_user chap)) (ms_nt chap) of
             Inr key \<Rightarrow> (case opt_LookupGroups opt cfg (ms_user chap) of Some (groups, True) \<Rightarrow> Some groups | _ \<Rightarrow> None)
           | Inl _ \<Rightarrow> None))"

definition misconfigured :: "crypto \<Rightarrow> 'l Options \<Rightarrow> 'l Index \<Rightarrow> login \<Rightarrow> 'l \<Rightarrow> bool" where
  "misconfigured c opt idx lg cfg \<longleftrightarrow>
     (case lg_chap lg of None \<Rightarrow> False | Some chap \<Rightarrow>
        opt_VerifyMSCHAP opt cfg (ix_machine idx) (ms_user chap)
          (challengeHash (cr_sha1 c) (ms_peer chap) (ms_auth chap) (ms_user chap)) (ms_nt chap) = Inl errMSCHAPConfig)"

definition firstAccept :: "crypto \<Rightarrow> 'l Options \<Rightarrow> 'l Index \<Rightarrow> login \<Rightarrow> 'l list \<Rightarrow> string list \<Rightarrow> bool" where
  "firstAccept c opt idx lg ds groups \<longleftrightarrow>
     (\<exists>pre cfg post. ds = pre @ cfg # post \<and> accepting c opt idx lg cfg = Some groups \<and>
        (\<forall>d \<in> set pre. accepting c opt idx lg d = None \<and> \<not> misconfigured c opt idx lg d))"

lemma firstAccept_simps [simp]:
  "\<not> firstAccept c opt idx lg [] groups"
  "firstAccept c opt idx lg (d # ds) groups \<longleftrightarrow> accepting c opt idx lg d = Some groups \<or>
     accepting c opt idx lg d = None \<and> \<not> misconfigured c opt idx lg d \<and> firstAccept c opt idx lg ds groups"
proof -
  show "firstAccept c opt idx lg (d # ds) groups \<longleftrightarrow> accepting c opt idx lg d = Some groups \<or>
     accepting c opt idx lg d = None \<and> \<not> misconfigured c opt idx lg d \<and> firstAccept c opt idx lg ds groups" (is "?l \<longleftrightarrow> ?r")
  proof
    assume ?l
    then obtain pre cfg post where *: "d # ds = pre @ cfg # post" "accepting c opt idx lg cfg = Some groups"
        "\<forall>d \<in> set pre. accepting c opt idx lg d = None \<and> \<not> misconfigured c opt idx lg d"
      unfolding firstAccept_def by blast
    then show ?r unfolding firstAccept_def by (cases pre) auto
  next
    assume ?r
    then show ?l
    proof
      assume "accepting c opt idx lg d = Some groups"
      then show ?l unfolding firstAccept_def by (intro exI[of _ "[]"]) auto
    next
      assume r: "accepting c opt idx lg d = None \<and> \<not> misconfigured c opt idx lg d \<and> firstAccept c opt idx lg ds groups"
      then obtain pre cfg post where "ds = pre @ cfg # post" "accepting c opt idx lg cfg = Some groups"
          "\<forall>d \<in> set pre. accepting c opt idx lg d = None \<and> \<not> misconfigured c opt idx lg d"
        unfolding firstAccept_def by blast
      with r show ?l unfolding firstAccept_def by (intro exI[of _ "d # pre"]) auto
    qed
  qed
qed (simp add: firstAccept_def)

lemma authenticateLoop_True:
  "lg_chap lg = None \<Longrightarrow> authenticateLoop opt (lg_username lg) (lg_password lg) ds = (groups, True)
    \<longleftrightarrow> firstAccept c opt idx lg ds groups"
  by (induction ds) (auto simp: accepting_def misconfigured_def split: option.splits prod.splits bool.splits)

lemma mschapLoop_True:
  "lg_chap lg = Some chap \<Longrightarrow>
    (\<exists>extra. mschapLoop c opt (ix_machine idx) chap (challengeHash (cr_sha1 c) (ms_peer chap) (ms_auth chap) (ms_user chap)) a n ds
       = Inr (groups, extra, True)) \<longleftrightarrow> firstAccept c opt idx lg ds groups"
  by (induction ds arbitrary: a n)
    (auto simp: accepting_def misconfigured_def split: option.splits prod.splits bool.splits sum.splits mschapErr.splits)

lemma authorize_accept:
  "o_code (authorize u nas source idx groups ok err) = codeAccessAccept \<longleftrightarrow>
    ok \<and> \<not> err \<and> (\<exists>dev. matchDevice idx nas source = Inr dev \<and> dev_Enabled dev \<and> groupAllows groups (dev_Role dev) (ix_policies idx))"
  by (auto simp: authorize_def Let_def codeAccessAccept_def codeAccessReject_def split: sum.splits)

lemma gate_early_code: "gate md5 hmac raw source idx = Inl out \<Longrightarrow> o_code out \<noteq> codeAccessAccept"
  by (auto simp: gate_def Let_def zeroOutcome_def reject_def codeAccessAccept_def codeAccessReject_def
      split: sum.splits prod.splits if_splits option.splits)

lemma gate_passed:
  "gate md5 hmac raw source idx = Inr lg \<Longrightarrow> \<exists>p attrs client. parse raw = Inr (p, attrs) \<and> Code p = codeAccessRequest \<and>
     ix_clients idx (canonIP source) = Some client \<and>
     verifyMessageAuthenticator hmac (Raw p) (bytes_of (cl_Secret client)) = Inr () \<and> lg_nas lg = nasIP attrs"
  by (auto simp: gate_def Let_def split: sum.splits prod.splits if_splits option.splits)

definition grantable :: "crypto \<Rightarrow> 'l Options \<Rightarrow> 'l Index \<Rightarrow> string \<Rightarrow> login \<Rightarrow> bool" where
  "grantable c opt idx source lg \<longleftrightarrow>
     (\<exists>groups dev. firstAccept c opt idx lg (directories idx) groups \<and> matchDevice idx (lg_nas lg) source = Inr dev \<and>
        dev_Enabled dev \<and> groupAllows groups (dev_Role dev) (ix_policies idx))"

lemma accept_code:
  "o_code (decide c opt idx source raw) = codeAccessAccept \<longleftrightarrow>
    (\<exists>lg. gate (cr_md5 c) (cr_hmac c) raw source idx = Inr lg \<and> grantable c opt idx source lg)"
proof (cases "gate (cr_md5 c) (cr_hmac c) raw source idx")
  case (Inl out)
  then show ?thesis using gate_early_code[OF Inl] by (simp add: decide_def)
next
  case (Inr lg)
  have no: "codeAccessReject \<noteq> codeAccessAccept" by (simp add: codeAccessAccept_def codeAccessReject_def)
  show ?thesis
  proof (cases "lg_chap lg")
    case None
    obtain groups ok where au: "authenticateAny opt idx (lg_username lg) (lg_password lg) = (groups, ok)" by force
    have "firstAccept c opt idx lg (directories idx) g \<longleftrightarrow> ok \<and> g = groups" for g
      using authenticateLoop_True[OF None, of opt "directories idx" g c idx] au by (auto simp: authenticateAny_def)
    then show ?thesis using Inr None au by (auto simp: decide_def authorize_accept grantable_def)
  next
    case (Some chap)
    have "firstAccept c opt idx lg (directories idx) g \<longleftrightarrow> (\<exists>extra. mschap c opt idx chap = Inr (g, extra, True))" for g
      using mschapLoop_True[OF Some, of c opt idx False False "directories idx" g] by (simp add: mschap_def)
    then show ?thesis using Inr Some no
      by (auto simp: decide_def authorize_accept grantable_def Let_def split: sum.splits mschapErr.splits prod.splits)
  qed
qed

text \<open>
  C16: A login is accepted exactly when the request passes the gate, the first directory that decides on it accepts
  it (with no broken MS-CHAPv2 set-up before it), the device is known, matches the client's address and is
  enabled, and a policy of one of the user's groups covers the device or its role.
\<close>

theorem accept_iff:
  "o_code (decide c opt idx source raw) = codeAccessAccept \<longleftrightarrow>
    (\<exists>lg. gate (cr_md5 c) (cr_hmac c) raw source idx = Inr lg \<and> grantable c opt idx source lg)"
  by (rule accept_code)

subsection \<open>Requests in flight\<close>

text \<open>
  The goroutines of the server as a step relation. A datagram is read, limited and given one of the 64 slots
  (\<open>readOnce\<close>); its handler passes \<open>begin\<close> under the index of that moment and decides with whatever the
  directories answer then; later it finishes under the state of that later moment. Configurations and the log move
  in between. \<open>setConfig\<close> between the handler's reading of the index and its \<open>begin\<close> has the same effect as
  after it, since \<open>begin\<close> does not look at the index. \<open>w_sent\<close> and \<open>w_hist\<close> record the datagrams written and the
  requests decided on, with the answers and the index used.
\<close>

datatype job = Arrived "string option" bytes | Decided "string option" outcome

record 'l world =
  w_srv :: "'l RadiusServer"
  w_jobs :: "job list"
  w_sent :: "(string option \<times> bytes) list"
  w_hist :: "('l Options \<times> 'l Index \<times> string \<times> bytes) list"

definition dropJob :: "nat \<Rightarrow> job list \<Rightarrow> job list" where
  "dropJob i jobs = take i jobs @ drop (Suc i) jobs"

definition startWorld :: "'l RadiusServer \<Rightarrow> 'l world" where
  "startWorld s = \<lparr>w_srv = s, w_jobs = [], w_sent = [], w_hist = []\<rparr>"

text \<open>\<open>readOnce\<close> on a datagram: the buffer holds \<open>maxPacket\<close> bytes, a full slot channel drops it.\<close>

definition readOnce :: "time \<Rightarrow> string option \<Rightarrow> bytes \<Rightarrow> 'l world \<Rightarrow> 'l world" where
  "readOnce now addr raw w =
     (case allow now addr (w_srv w) of (ok, s) \<Rightarrow>
        if ok \<and> length (w_jobs w) < maxInFlight
        then w\<lparr>w_srv := s, w_jobs := w_jobs w @ [Arrived addr (take maxPacket raw)]\<rparr> else w\<lparr>w_srv := s\<rparr>)"

definition startJob :: "crypto \<Rightarrow> 'l Options \<Rightarrow> time \<Rightarrow> nat \<Rightarrow> string option \<Rightarrow> bytes \<Rightarrow> 'l world \<Rightarrow> 'l world" where
  "startJob c opt now i addr raw w =
     (let gone = w\<lparr>w_jobs := dropJob i (w_jobs w)\<rparr>
      in case rs_idx (w_srv w) of
           None \<Rightarrow> gone
         | Some idx \<Rightarrow>
             if \<not> ix_Enabled idx then gone
             else (case beginReplay now (hostIP addr) raw (w_srv w) of
                     ((reply, False), s) \<Rightarrow>
                       gone\<lparr>w_srv := s, w_sent := w_sent w @ (if length reply > 0 then [(addr, reply)] else [])\<rparr>
                   | ((_, True), s) \<Rightarrow>
                       w\<lparr>w_srv := s, w_jobs := (w_jobs w)[i := Decided addr (decide c opt idx (hostIP addr) raw)],
                         w_hist := w_hist w @ [(opt, idx, hostIP addr, raw)]\<rparr>))"

definition finishJob :: "crypto \<Rightarrow> string \<Rightarrow> time \<Rightarrow> nat \<Rightarrow> string option \<Rightarrow> outcome \<Rightarrow> 'l world \<Rightarrow> 'l world" where
  "finishJob c worker now i addr out w =
     (case finish c worker now (hostIP addr) out (w_srv w) of (sent, s) \<Rightarrow>
        w\<lparr>w_srv := s, w_jobs := dropJob i (w_jobs w), w_sent := w_sent w @ map (Pair addr) sent\<rparr>)"

inductive radius_step :: "crypto \<Rightarrow> 'l world \<Rightarrow> 'l world \<Rightarrow> bool" for c where
  receive: "radius_step c w (readOnce now addr raw w)"
| start: "i < length (w_jobs w) \<Longrightarrow> w_jobs w ! i = Arrived addr raw \<Longrightarrow> radius_step c w (startJob c opt now i addr raw w)"
| finish: "i < length (w_jobs w) \<Longrightarrow> w_jobs w ! i = Decided addr out \<Longrightarrow> radius_step c w (finishJob c worker now i addr out w)"
| config: "radius_step c w (w\<lparr>w_srv := fst (refreshRadius unmarshal fetched (w_srv w))\<rparr>)"
| ship: "radius_step c w (w\<lparr>w_srv := fst (flush marshal path report (w_srv w) spoolFile)\<rparr>)"

inductive_cases radius_stepE: "radius_step c w w'"

text \<open>A request of \<open>source\<close> with this identifier was decided on and granted, under an enabled configuration.\<close>

type_synonym 'l history = "('l Options \<times> 'l Index \<times> string \<times> bytes) list"

definition grantedTo :: "crypto \<Rightarrow> 'l history \<Rightarrow> string \<Rightarrow> byte \<Rightarrow> bool" where
  "grantedTo c hist source ident \<longleftrightarrow>
     (\<exists>opt idx raw lg p attrs client. (opt, idx, source, raw) \<in> set hist \<and> ix_Enabled idx \<and>
        parse raw = Inr (p, attrs) \<and> ID p = ident \<and> Code p = codeAccessRequest \<and>
        ix_clients idx (canonIP source) = Some client \<and>
        verifyMessageAuthenticator (cr_hmac c) (Raw p) (bytes_of (cl_Secret client)) = Inr () \<and>
        gate (cr_md5 c) (cr_hmac c) raw source idx = Inr lg \<and> grantable c opt idx source lg)"

abbreviation isAccept :: "bytes \<Rightarrow> bool" where
  "isAccept r \<equiv> r \<noteq> [] \<and> hd r = codeAccessAccept"

definition job_ok :: "crypto \<Rightarrow> 'l history \<Rightarrow> job \<Rightarrow> bool" where
  "job_ok c hist j = (case j of Arrived _ _ \<Rightarrow> True | Decided addr out \<Rightarrow>
     o_code out = codeAccessAccept \<longrightarrow> (\<exists>p. o_req out = Some p \<and> grantedTo c hist (hostIP addr) (ID p)))"

definition entry_ok :: "crypto \<Rightarrow> 'l history \<Rightarrow> string \<Rightarrow> replayEntry \<Rightarrow> bool" where
  "entry_ok c hist k e \<longleftrightarrow> (isAccept (re_reply e) \<longrightarrow>
     (\<exists>addr. k = replayKey (hostIP addr) (re_reply e ! 1) \<and> grantedTo c hist (hostIP addr) (re_reply e ! 1)))"

definition world_ok :: "crypto \<Rightarrow> 'l world \<Rightarrow> bool" where
  "world_ok c w \<longleftrightarrow> length (w_jobs w) \<le> maxInFlight \<and> (\<forall>j \<in> set (w_jobs w). job_ok c (w_hist w) j) \<and>
     (\<forall>(k, e) \<in> set (rs_replay (w_srv w)). entry_ok c (w_hist w) k e) \<and>
     (\<forall>(addr, r) \<in> set (w_sent w). isAccept r \<longrightarrow> grantedTo c (w_hist w) (hostIP addr) (r ! 1))"

lemma grantedTo_append: "grantedTo c hist source ident \<Longrightarrow> grantedTo c (hist @ later) source ident"
  unfolding grantedTo_def by fastforce

lemma ok_append:
  "job_ok c hist j \<Longrightarrow> job_ok c (hist @ later) j"
  "entry_ok c hist k e \<Longrightarrow> entry_ok c (hist @ later) k e"
  by (auto simp: job_ok_def entry_ok_def intro: grantedTo_append split: job.splits)

lemma copyAt_head: "2 \<le> i \<Longrightarrow> \<exists>rest. copyAt i j src (a # b # t) = a # b # rest"
proof -
  assume "2 \<le> i"
  then obtain k where "i = Suc (Suc k)" by (metis add_2_eq_Suc le_Suc_ex)
  then show ?thesis by (simp add: copyAt_def Let_def)
qed

lemma response_head: "\<exists>rest. response md5 hmac req code secret msg extra = code # ID req # rest"
proof -
  let ?t = "put_be 2 (20 + length (responseAttrs msg extra)) @ Auth req @ responseAttrs msg extra"
  obtain r1 where r1: "copyAt 22 38 (hmac secret (code # ID req # ?t)) (code # ID req # ?t) = code # ID req # r1"
    using copyAt_head[of 22] by fastforce
  show ?thesis
    using copyAt_head[of 4 20 "md5 (code # ID req # r1 @ secret)" code "ID req" r1] r1
    by (simp add: response_def Let_def)
qed

lemma hostIP_no_slash: "CHR ''/'' \<notin> set (hostIP addr)"
proof -
  have "CHR ''/'' \<notin> set (addr_string (Unmap ip))" if "\<not> has_zone ip" for ip
  proof -
    have "withoutZone (Unmap ip) = Unmap ip" using that by (cases ip) auto
    with addr_string_addr_char[of "CHR ''/''" "Unmap ip"] show ?thesis by (auto simp: addr_char_def hex_val_def)
  qed
  then have "CHR ''/'' \<notin> set (canonIP s)" for s by (auto simp: canonIP_def Let_def split: option.splits)
  then show ?thesis by (auto simp: hostIP_def split: option.splits)
qed

lemma replayKey_inj:
  assumes "replayKey (hostIP a) i = replayKey (hostIP b) j"
  shows "hostIP a = hostIP b \<and> i = j"
proof -
  have eq: "hostIP a @ CHR ''/'' # Itoa (unat i) = hostIP b @ CHR ''/'' # Itoa (unat j)"
    using assms by (simp add: replayKey_def)
  have "length (hostIP a) = length (hostIP b)"
    using IndexByte_append[OF hostIP_no_slash, of a "Itoa (unat i)"] IndexByte_append[OF hostIP_no_slash, of b "Itoa (unat j)"]
    by (simp add: eq)
  with eq have host: "hostIP a = hostIP b" and num: "Itoa (unat i) = Itoa (unat j)" by auto
  from arg_cong[OF num, of "digits_val 0"] have "unat i = unat j" by (simp add: digits_val_Itoa)
  with host show ?thesis by (simp add: word_unat_eq_iff)
qed

lemma decide_granted:
  assumes "o_code (decide c opt idx (hostIP addr) raw) = codeAccessAccept" and "ix_Enabled idx"
  shows "job_ok c (hist @ [(opt, idx, hostIP addr, raw)]) (Decided addr (decide c opt idx (hostIP addr) raw))"
proof -
  obtain lg where lg: "gate (cr_md5 c) (cr_hmac c) raw (hostIP addr) idx = Inr lg" "grantable c opt idx (hostIP addr) lg"
    using assms(1) unfolding accept_code by blast
  obtain p attrs client where p: "parse raw = Inr (p, attrs)" "Code p = codeAccessRequest"
      "ix_clients idx (canonIP (hostIP addr)) = Some client"
      "verifyMessageAuthenticator (cr_hmac c) (Raw p) (bytes_of (cl_Secret client)) = Inr ()"
    using gate_passed[OF lg(1)] by blast
  have "o_req (decide c opt idx (hostIP addr) raw) = Some p"
    using lg(1) p(1) by (auto simp: decide_def packetOf_def Let_def split: option.splits sum.splits mschapErr.splits prod.splits)
  with lg p assms(2) show ?thesis unfolding job_ok_def grantedTo_def by (auto intro!: exI[of _ opt] exI[of _ idx] exI[of _ raw])
qed

text \<open>What one operation may add to the replay cache: an entry without a reply, or a checked one.\<close>

lemma set_replay_update:
  assumes "\<forall>(k, e) \<in> set m. entry_ok c hist k e" and "entry_ok c hist k e"
  shows "\<forall>(k, e) \<in> set (AList.update k e m). entry_ok c hist k e"
  using assms by (auto dest!: set_update_cases)

lemma begin_ok:
  assumes "\<forall>(k, e) \<in> set (rs_replay s). entry_ok c hist k e"
    and "beginReplay now (hostIP addr) raw s = ((reply, proceed), s')"
  shows "(\<forall>(k, e) \<in> set (rs_replay s'). entry_ok c hist k e) \<and> (isAccept reply \<longrightarrow> grantedTo c hist (hostIP addr) (reply ! 1))"
proof (cases "length raw < 20 \<or> proceed")
  case True
  have "reply = []" using assms(2) True by (auto simp: beginReplay_def Let_def split: if_splits option.splits)
  moreover let ?e = "\<lparr>re_auth = take 16 (drop 4 raw), re_reply = [], re_until = now + replayFor, re_done = False\<rparr>"
  have "s' = s \<or> rs_replay s' = AList.update (replayKey (hostIP addr) (raw ! 1)) ?e (rs_replay s)"
    using assms(2) True by (auto simp: beginReplay_def Let_def split: if_splits option.splits)
  moreover have "entry_ok c hist (replayKey (hostIP addr) (raw ! 1)) ?e" by (simp add: entry_ok_def)
  ultimately show ?thesis using assms(1) set_replay_update[OF assms(1)] by metis
next
  case False
  let ?k = "replayKey (hostIP addr) (raw ! 1)"
  from assms(2) False obtain e where e: "map_of (rs_replay s) ?k = Some e" "s' = s" "reply = (if re_done e then re_reply e else [])"
    by (auto simp: beginReplay_def Let_def split: if_splits option.splits)
  from e(1) assms(1) have ok: "entry_ok c hist ?k e" by (auto dest: map_of_SomeD)
  have "grantedTo c hist (hostIP addr) (reply ! 1)" if acc: "isAccept reply"
  proof -
    from acc e(3) have "isAccept (re_reply e)" "reply = re_reply e" by (auto split: if_splits)
    then obtain a where "?k = replayKey (hostIP a) (reply ! 1)" "grantedTo c hist (hostIP a) (reply ! 1)"
      using ok by (auto simp: entry_ok_def)
    with replayKey_inj[of addr "raw ! 1" a "reply ! 1"] show ?thesis by simp
  qed
  with assms(1) e(2) show ?thesis by simp
qed

lemma enqueue_replay [simp]: "rs_replay (enqueue now worker out s) = rs_replay s"
  by (simp add: enqueue_def)

lemma finish_sent:
  assumes "finish c worker now source out s = (sent, s')" and "sent \<noteq> []"
  obtains req extra where "o_req out = Some req"
    and "sent = [response (cr_md5 c) (cr_hmac c) req (o_code out) (bytes_of (o_secret out)) (bytes_of (replyMessage (o_reason out))) extra]"
    and "rs_replay s' = rs_replay (storeReplay now source req (hd sent) s)"
proof (cases "o_req out")
  case None
  with assms show thesis by (simp add: finish_def)
next
  case (Some req)
  let ?extra = "if o_code out = codeAccessAccept then (case rs_idx s of Some idx \<Rightarrow> ix_reply idx | None \<Rightarrow> []) @ o_extra out else []"
  from Some assms show thesis
    by (intro that[OF Some, of ?extra]) (auto simp: finish_def Let_def split: if_splits)
qed

lemma finish_ok:
  assumes "\<forall>(k, e) \<in> set (rs_replay s). entry_ok c hist k e" and "job_ok c hist (Decided addr out)"
    and "finish c worker now (hostIP addr) out s = (sent, s')"
  shows "(\<forall>(k, e) \<in> set (rs_replay s'). entry_ok c hist k e) \<and> (\<forall>r \<in> set sent. isAccept r \<longrightarrow> grantedTo c hist (hostIP addr) (r ! 1))"
proof (cases "sent = []")
  case True
  then have "rs_replay s' = rs_replay s"
    using assms(3) by (auto simp: finish_def Let_def enqueue_def split: option.splits if_splits)
  with True assms(1) show ?thesis by simp
next
  case False
  from finish_sent[OF assms(3) False] obtain req extra where req: "o_req out = Some req"
    and sent': "sent = [response (cr_md5 c) (cr_hmac c) req (o_code out) (bytes_of (o_secret out)) (bytes_of (replyMessage (o_reason out))) extra]"
    and st: "rs_replay s' = rs_replay (storeReplay now (hostIP addr) req (hd sent) s)" .
  then obtain rest where sent: "sent = [o_code out # ID req # rest]"
    using response_head[of "cr_md5 c" "cr_hmac c" req "o_code out" "bytes_of (o_secret out)" "bytes_of (replyMessage (o_reason out))" extra]
    by metis
  define reply where reply: "reply = o_code out # ID req # rest"
  have granted: "isAccept reply \<longrightarrow> grantedTo c hist (hostIP addr) (ID req)"
    using assms(2) req by (auto simp: job_ok_def reply)
  then have "entry_ok c hist (replayKey (hostIP addr) (ID req)) \<lparr>re_auth = Auth req, re_reply = reply, re_until = now + replayFor, re_done = True\<rparr>"
    by (auto simp: entry_ok_def reply)
  from set_replay_update[OF assms(1) this] st sent have "\<forall>(k, e) \<in> set (rs_replay s'). entry_ok c hist k e"
    by (auto simp: storeReplay_def Let_def reply split: if_splits)
  with granted sent show ?thesis by (simp add: reply)
qed

lemma set_dropJob: "j \<in> set (dropJob i jobs) \<Longrightarrow> j \<in> set jobs"
  unfolding dropJob_def by (auto dest: in_set_takeD in_set_dropD)

lemma length_dropJob: "length (dropJob i jobs) \<le> length jobs"
  by (simp add: dropJob_def)

lemma allow_replay [simp]: "rs_replay (snd (allow now addr s)) = rs_replay s"
  by (simp add: allow_def Let_def)

lemma quiet_replay [simp]:
  "rs_replay (fst (refreshRadius unmarshal fetched s)) = rs_replay s"
  "rs_replay (fst (flush marshal path report s f)) = rs_replay s"
  by (simp_all add: refreshRadius_def setConfig_def flush_def Let_def split: option.splits sum.splits)

lemma startJob_ok:
  assumes ok: "world_ok c w" and "i < length (w_jobs w)" and "w_jobs w ! i = Arrived addr raw"
  shows "world_ok c (startJob c opt now i addr raw w)"
proof (cases "\<exists>idx. rs_idx (w_srv w) = Some idx \<and> ix_Enabled idx")
  case False
  then show ?thesis using ok length_dropJob[of i "w_jobs w"]
    by (auto simp: startJob_def Let_def world_ok_def dest!: set_dropJob split: option.splits)
next
  case True
  then obtain idx where idx: "rs_idx (w_srv w) = Some idx" "ix_Enabled idx" by blast
  obtain reply proceed s where b: "beginReplay now (hostIP addr) raw (w_srv w) = ((reply, proceed), s)" by (metis prod.exhaust)
  note bo = begin_ok[OF _ b, of c "w_hist w"]
  show ?thesis
  proof (cases proceed)
    case False
    with b idx ok bo show ?thesis using length_dropJob[of i "w_jobs w"]
      by (auto simp: startJob_def world_ok_def dest!: set_dropJob split: if_splits)
  next
    case True
    let ?hist = "w_hist w @ [(opt, idx, hostIP addr, raw)]"
    have "job_ok c ?hist (Decided addr (decide c opt idx (hostIP addr) raw))"
      using decide_granted[OF _ idx(2)] by (auto simp: job_ok_def)
    moreover have "startJob c opt now i addr raw w = w\<lparr>w_srv := s, w_hist := ?hist,
        w_jobs := (w_jobs w)[i := Decided addr (decide c opt idx (hostIP addr) raw)]\<rparr>"
      using True b idx by (simp add: startJob_def)
    ultimately show ?thesis using ok bo
      by (auto simp: world_ok_def dest!: subsetD[OF set_update_subset_insert] intro: ok_append grantedTo_append)
  qed
qed

lemma radius_step_ok:
  assumes "radius_step c w w'" and ok: "world_ok c w"
  shows "world_ok c w'"
  using assms(1)
proof (cases rule: radius_step.cases)
  case (receive now addr raw)
  obtain b s where a: "allow now addr (w_srv w) = (b, s)" by force
  have "rs_replay s = rs_replay (w_srv w)" using allow_replay[of now addr "w_srv w"] a by simp
  moreover have "job_ok c (w_hist w) (Arrived addr (take maxPacket raw))" by (simp add: job_ok_def)
  ultimately show ?thesis using ok receive a by (auto simp: readOnce_def world_ok_def)
next
  case (start i addr raw opt now)
  with startJob_ok[OF ok] show ?thesis by simp
next
  case (finish i addr out worker now)
  obtain sent s where f: "finish c worker now (hostIP addr) out (w_srv w) = (sent, s)" by force
  have "job_ok c (w_hist w) (Decided addr out)" using ok finish(2,3) nth_mem unfolding world_ok_def by metis
  with finish_ok[OF _ _ f, of "w_hist w"] ok finish f length_dropJob[of i "w_jobs w"] show ?thesis
    by (auto simp: finishJob_def world_ok_def dest!: set_dropJob)
qed (use ok in \<open>simp_all add: world_ok_def\<close>)

text \<open>
  C2: However requests, directory answers, configuration changes and the log interleave, every Access-Accept ever
  sent to an address answers a request of that address with that identifier which the enabled configuration of its
  time granted: an Access-Request of a known client with a valid Message-Authenticator, accepted by a directory,
  for a known and enabled device that a group policy covers. Never more than 64 requests are in flight.
\<close>

theorem accepts_are_granted:
  assumes "(radius_step c)\<^sup>*\<^sup>* (startWorld newRadiusServer) w"
  shows "(\<forall>(addr, r) \<in> set (w_sent w). r \<noteq> [] \<and> hd r = codeAccessAccept \<longrightarrow> grantedTo c (w_hist w) (hostIP addr) (r ! 1)) \<and>
    length (w_jobs w) \<le> maxInFlight"
proof -
  have "world_ok c w"
    using assms
  proof (induction rule: rtranclp_induct)
    case base
    show ?case by (simp add: world_ok_def startWorld_def newRadiusServer_def)
  qed (rule radius_step_ok)
  then show ?thesis by (simp add: world_ok_def)
qed

text \<open>A run in which a login is accepted: one client, one device, one directory.\<close>

lemma canonIP_addr_string: "\<not> has_zone a \<Longrightarrow> canonIP (addr_string a) = addr_string (Unmap a)"
proof -
  assume z: "\<not> has_zone a"
  then have wz: "withoutZone a = a" by (cases a) auto
  have char: "addr_char ch" if "ch \<in> set (addr_string a)" for ch
    using addr_string_addr_char[of ch a] that wz by simp
  have ne: "addr_string a \<noteq> []" using ParseAddr_addr_string[OF z] by (auto simp: ParseAddr_def)
  then have "\<not> is_space (hd (addr_string a))" "\<not> is_space (last (addr_string a))"
    using char addr_char_no_space by auto
  then have "TrimSpace (addr_string a) = addr_string a" using ne by (intro TrimSpace_id) auto
  moreover have "IndexByte (addr_string a) (CHR ''/'') = None"
    unfolding IndexByte_None using char[of "CHR ''/''"] by (auto simp: addr_char_def hex_val_def)
  ultimately show ?thesis using ne z by (simp add: canonIP_def ParseAddr_addr_string)
qed

definition exDirs :: "nat Options" where
  "exDirs = \<lparr>opt_StatePath = [], opt_Worker = ''w'', opt_Authenticate = (\<lambda>_ u p. Some ([''g''], u = ''u'' \<and> p = ''p'')),
     opt_VerifyMSCHAP = (\<lambda>_ _ _ _ _. Inl mschapFailed), opt_LookupGroups = (\<lambda>_ _. None)\<rparr>"

definition exCrypto :: crypto where
  "exCrypto = \<lparr>cr_md5 = (\<lambda>_. replicate 16 0), cr_hmac = (\<lambda>_ _. replicate 16 0), cr_sha1 = (\<lambda>_. replicate 20 0)\<rparr>"

definition exIP :: string where "exIP = addr_string (A4 0x0A000001)"

definition exConfig :: "nat RadiusConfig" where
  "exConfig = \<lparr>rc_Enabled = True, rc_Listen = [], rc_LDAP = 0, rc_LDAPs = [],
     rc_Clients = [\<lparr>cl_Name = ''sw'', cl_Address = exIP, cl_Secret = ''s''\<rparr>],
     rc_Policies = [\<lparr>pol_GroupDN = ''g'', pol_AllDevices = True, pol_Roles = []\<rparr>],
     rc_Devices = [\<lparr>dev_Name = ''sw'', dev_Role = ''access'', dev_Enabled = True, dev_Addresses = [exIP]\<rparr>],
     rc_Reply = [], rc_Machine = \<lparr>mc_Account = [], mc_Password = [], mc_Domain = []\<rparr>\<rparr>"

definition exRequest :: bytes where
  "exRequest = [1, 7, 0, 59] @ replicate 16 0 @ [1, 3, 117] @ [2, 18, 112] @ replicate 15 0 @ [80, 18] @ replicate 16 0"

definition exAttrs :: "attribute list" where
  "exAttrs = [\<lparr>Type = 1, Value = [117]\<rparr>, \<lparr>Type = 2, Value = 112 # replicate 15 0\<rparr>, \<lparr>Type = 80, Value = replicate 16 0\<rparr>]"

definition exPacket :: Packet where
  "exPacket = \<lparr>Code = 1, ID = 7, Auth = replicate 16 0, Raw = exRequest\<rparr>"

lemma exIP_canon: "canonIP exIP = exIP" "exIP \<noteq> []" 
  using canonIP_addr_string[of "A4 0x0A000001"] ParseAddr_addr_string[of "A4 0x0A000001"] by (auto simp: exIP_def ParseAddr_def)

lemma exIP_host: "hostIP (Some exIP) = exIP"
proof -
  have "CHR '':'' \<notin> set exIP"
  proof
    assume "CHR '':'' \<in> set exIP"
    then obtain d where "d < 10" "CHR '':'' = digit_char d"
      unfolding exIP_def addr_string.simps string4_def by (auto dest!: set_Join Itoa_digits)
    moreover have "digit_val (CHR '':'') = None" by (simp add: digit_val_def)
    ultimately show False using digit_val_char[of d] by auto
  qed
  then have "LastIndexByte exIP (CHR '':'') = None" by (simp add: LastIndexByte_None)
  then show ?thesis by (simp add: hostIP_def SplitHostPort_def exIP_canon)
qed

lemma exParse: "parse exRequest = Inr (exPacket, exAttrs)" by code_simp

lemma exVerify: "verifyMessageAuthenticator (\<lambda>_ _. replicate 16 0) exRequest [115] = Inr ()" by code_simp

lemma exDecrypt: "decryptUserPassword (\<lambda>_. replicate 16 0) (112 # replicate 15 0) [115] (replicate 16 0) = Inr [112]" by code_simp

lemma EncodeReply_Nil: "EncodeReply [] = Inr []" 
  by (simp add: EncodeReply_def)

definition exIndex where "exIndex = BuildIndex exConfig"

lemma exIndex_simps:
  "ix_clients exIndex exIP = Some \<lparr>cl_Name = ''sw'', cl_Address = exIP, cl_Secret = ''s''\<rparr>"
  "ix_devices exIndex exIP = Some \<lparr>dev_Name = ''sw'', dev_Role = ''access'', dev_Enabled = True, dev_Addresses = [exIP]\<rparr>"
  "ix_Enabled exIndex" "directories exIndex = [0]" "ix_reply exIndex = []"
  "ix_policies exIndex = [\<lparr>pol_GroupDN = ''g'', pol_AllDevices = True, pol_Roles = []\<rparr>]"
  by (simp_all add: exIndex_def BuildIndex_def exConfig_def clientSecrets_def deviceOwners_def soleValue_def exIP_canon directories_def EncodeReply_Nil)

lemma exChars: "char_of (117 :: nat) = CHR ''u''" "char_of (112 :: nat) = CHR ''p''" by code_simp+

lemma exGate: "gate (cr_md5 exCrypto) (cr_hmac exCrypto) exRequest exIP exIndex =
    Inr \<lparr>lg_username = ''u'', lg_password = ''p'', lg_nas = [], lg_chap = None\<rparr>"
  by (simp add: gate_def exParse exPacket_def exCrypto_def exVerify exDecrypt exIndex_simps exIP_canon codeAccessRequest_def zeroOutcome_def bytes_of_def string_of_def
    exAttrs_def attrValue_def attrUserName_def attrUserPassword_def parseMSCHAP2_def mschapLast_def mschapValue_def nasIP_def attrNASIPAddress_def attrNASIPv6Address_def hasControl.simps is_space_def TrimSpace_def TrimLeft_def Let_def exChars)

lemma canonIP_Nil: "canonIP [] = []" by (simp add: canonIP_def)

lemma exDecide: "o_code (decide exCrypto exDirs exIndex exIP exRequest) = codeAccessAccept"
  unfolding accept_code exGate
  by (simp add: grantable_def exIndex_simps accepting_def exDirs_def matchDevice_def exIP_canon canonIP_Nil groupAllows_def)

lemma exDecideReq: "o_req (decide exCrypto exDirs exIndex exIP exRequest) = Some exPacket \<and> o_secret (decide exCrypto exDirs exIndex exIP exRequest) = ''s''"
  by (simp add: decide_def exGate authenticateAny_def exIndex_simps exDirs_def packetOf_def exParse secretFor_def exIP_canon)

definition exRun :: "nat world" where
  "exRun = (let w = startWorld newRadiusServer;
      w = w\<lparr>w_srv := fst (refreshRadius (\<lambda>_. Some exConfig) (Some [123]) (w_srv w))\<rparr>;
      w = readOnce 5 (Some exIP) exRequest w;
      w = startJob exCrypto exDirs 6 0 (Some exIP) exRequest w
    in finishJob exCrypto ''w'' 7 0 (Some exIP) (decide exCrypto exDirs exIndex exIP exRequest) w)"

lemma exRun_reachable: "(radius_step exCrypto)\<^sup>*\<^sup>* (startWorld newRadiusServer) exRun \<and>
   (\<exists>r. w_sent exRun = [(Some exIP, r)] \<and> r \<noteq> [] \<and> hd r = codeAccessAccept \<and> r ! 1 = 7)"
proof -
  let ?c = exCrypto and ?out = "decide exCrypto exDirs exIndex exIP exRequest"
  define s1 where "s1 = fst (refreshRadius (\<lambda>_. Some exConfig) (Some [123]) (newRadiusServer :: nat RadiusServer))"
  define w1 where "w1 = (startWorld newRadiusServer)\<lparr>w_srv := s1\<rparr>"
  define w2 where "w2 = readOnce 5 (Some exIP) exRequest w1"
  define w3 where "w3 = startJob ?c exDirs 6 0 (Some exIP) exRequest w2"
  have s1: "s1 = newRadiusServer\<lparr>rs_idx := Some exIndex, rs_last := [123]\<rparr>"
    by (simp add: s1_def refreshRadius_def newRadiusServer_def EncodeReply_Nil exConfig_def setConfig_def exIndex_def)
  have take: "take maxPacket exRequest = exRequest" by (simp add: maxPacket_def exRequest_def)
  have len: "length exRequest = 59" by (simp add: exRequest_def)
  obtain s2 where s2: "allow 5 (Some exIP) s1 = (True, s2)" "rs_replay s2 = []" "rs_idx s2 = Some exIndex"
    by (simp add: allow_def s1 newRadiusServer_def perIPPerSec_def Let_def)
  have w2: "w2 = \<lparr>w_srv = s2, w_jobs = [Arrived (Some exIP) exRequest], w_sent = [], w_hist = []\<rparr>"
    by (simp add: w2_def readOnce_def w1_def s2 startWorld_def maxInFlight_def take)
  obtain s3 where b: "beginReplay 6 exIP exRequest s2 = (([], True), s3)" and s3: "rs_idx s3 = Some exIndex"
    by (simp add: beginReplay_def len s2 Let_def)
  have w3: "w3 = \<lparr>w_srv = s3, w_jobs = [Decided (Some exIP) ?out], w_sent = [], w_hist = [(exDirs, exIndex, exIP, exRequest)]\<rparr>"
    by (simp add: w3_def startJob_def w2 s2 exIndex_simps exIP_host b)
  have run: "exRun = finishJob ?c ''w'' 7 0 (Some exIP) ?out w3"
    by (simp add: exRun_def w3_def w2_def w1_def s1_def Let_def startWorld_def)
  have "radius_step ?c (startWorld newRadiusServer) w1"
    unfolding w1_def s1_def using radius_step.config[of ?c "startWorld newRadiusServer"] by (simp add: startWorld_def)
  moreover have "radius_step ?c w1 w2" unfolding w2_def by (rule radius_step.receive)
  moreover have "radius_step ?c w2 w3" unfolding w3_def by (rule radius_step.start) (simp_all add: w2)
  moreover have "radius_step ?c w3 exRun" unfolding run by (rule radius_step.finish) (simp_all add: w3)
  ultimately have reach: "(radius_step ?c)\<^sup>*\<^sup>* (startWorld newRadiusServer) exRun"
    by (meson converse_rtranclp_into_rtranclp rtranclp.rtrancl_refl)
  obtain rest where "fst (finish ?c ''w'' 7 exIP ?out s3) = [codeAccessAccept # 7 # rest]"
    using response_head[of "cr_md5 ?c" "cr_hmac ?c" exPacket codeAccessAccept]
    by (simp add: finish_def exDecide exDecideReq exPacket_def codeAccessAccept_def Let_def s3, metis)
  then show ?thesis using reach
    by (auto simp: run finishJob_def w3 exIP_host split: prod.splits)
qed

theorem accepts_are_granted_witness: "grantedTo exCrypto (w_hist exRun) exIP 7 \<and> length (w_jobs exRun) \<le> maxInFlight"
proof -
  obtain r where r: "w_sent exRun = [(Some exIP, r)]" "r \<noteq> []" "hd r = codeAccessAccept" "r ! 1 = 7"
    using exRun_reachable by blast
  show ?thesis using accepts_are_granted[OF conjunct1[OF exRun_reachable]] r by (simp add: exIP_host)
qed

subsection \<open>Retransmissions\<close>

lemma map_of_filter_keep: "map_of m k = Some e \<Longrightarrow> P (k, e) \<Longrightarrow> map_of (filter P m) k = Some e"
  by (induction m) (auto split: if_splits)

lemma decide_req: "o_req (decide c opt idx source raw) = Some p \<Longrightarrow> \<exists>attrs. parse raw = Inr (p, attrs)"
proof (cases "gate (cr_md5 c) (cr_hmac c) raw source idx")
  case (Inl out)
  assume "o_req (decide c opt idx source raw) = Some p"
  with Inl show ?thesis
    by (auto simp: decide_def gate_def Let_def zeroOutcome_def reject_def split: sum.splits prod.splits if_splits option.splits)
next
  case (Inr lg)
  assume "o_req (decide c opt idx source raw) = Some p"
  then have "packetOf raw = Some p" using Inr
    by (auto simp: decide_def Let_def split: option.splits sum.splits mschapErr.splits prod.splits)
  then show ?thesis by (auto simp: packetOf_def split: sum.splits)
qed

lemma parse_fields: "parse raw = Inr (p, attrs) \<Longrightarrow> ID p = raw ! 1 \<and> Auth p = take 16 (drop 4 raw) \<and> \<not> length raw < 20"
  by (auto simp: parse_def Let_def res_bind_eq_Inr split: if_splits)

lemma storeReplay_other:
  assumes "map_of (rs_replay s) k = Some e" and "k \<noteq> replayKey source (ID req)" and "now \<le> re_until e"
  shows "map_of (rs_replay (storeReplay now source req reply s)) k = Some e"
  using assms by (auto simp: storeReplay_def Let_def update_conv' intro!: map_of_filter_keep)

lemma storeReplay_same:
  "map_of (rs_replay (storeReplay now source req reply s)) (replayKey source (ID req)) =
    Some \<lparr>re_auth = Auth req, re_reply = reply, re_until = now + replayFor, re_done = True\<rparr>"
  by (auto simp: storeReplay_def Let_def update_conv' replayFor_def second_def intro!: map_of_filter_keep)

lemma finish_quiet: "finish c worker now source out s = ([], s') \<Longrightarrow> rs_replay s' = rs_replay s"
  by (auto simp: finish_def Let_def split: option.splits if_splits)

lemma finish_idx: "rs_idx (snd (finish c worker now source out s)) = rs_idx s"
  by (auto simp: finish_def Let_def enqueue_def storeReplay_def split: option.splits)

lemma handle_idx: "rs_idx (snd (handle c opt tb tf addr raw s)) = rs_idx s"
proof -
  have "rs_idx (snd (beginReplay tb source raw s)) = rs_idx s" for source
    by (simp add: beginReplay_def Let_def split: option.splits)
  then show ?thesis by (auto simp: handle_def finish_idx Let_def split: option.splits prod.splits bool.splits) (metis snd_conv)+
qed

lemma handle_other:
  assumes "map_of (rs_replay s) (replayKey (hostIP addr) ident) = Some e" and "tf \<le> re_until e"
    and other: "hostIP a \<noteq> hostIP addr \<or> r ! 1 \<noteq> ident"
  shows "map_of (rs_replay (snd (handle c opt tb tf a r s))) (replayKey (hostIP addr) ident) = Some e"
proof -
  let ?k = "replayKey (hostIP addr) ident" and ?out = "\<lambda>idx. decide c opt idx (hostIP a) r"
  have k: "?k \<noteq> replayKey (hostIP a) (r ! 1)" using replayKey_inj[of addr ident a "r ! 1"] other by auto
  then have b: "map_of (rs_replay (snd (beginReplay tb (hostIP a) r s))) ?k = Some e"
    using assms(1) by (simp add: beginReplay_def Let_def update_conv' split: option.splits)
  have f: "map_of (rs_replay (snd (finish c w tf (hostIP a) (?out idx) s'))) ?k = Some e"
    if s': "map_of (rs_replay s') ?k = Some e" for s' w idx
  proof (cases "finish c w tf (hostIP a) (?out idx) s'")
    case (Pair sent s2)
    show ?thesis
    proof (cases "sent = []")
      case True
      with Pair finish_quiet s' show ?thesis by fastforce
    next
      case False
      from finish_sent[OF Pair False] obtain req where "o_req (?out idx) = Some req"
        and st: "rs_replay s2 = rs_replay (storeReplay tf (hostIP a) req (hd sent) s')" by metis
      then have "ID req = r ! 1" using decide_req parse_fields by blast
      with st Pair k storeReplay_other[OF s' _ assms(2)] show ?thesis by simp
    qed
  qed
  show ?thesis using assms(1) b f by (auto simp: handle_def Let_def split: option.splits prod.splits bool.splits)
qed

lemma handle_first:
  assumes idx: "rs_idx s = Some idx" "ix_Enabled idx" and len: "20 \<le> length raw" and le: "tb \<le> tf"
    and fresh: "snd (fst (beginReplay tb (hostIP addr) raw s))" and h: "handle c opt tb tf addr raw s = (sent, s')"
  shows "\<exists>e. map_of (rs_replay s') (replayKey (hostIP addr) (raw ! 1)) = Some e \<and> re_auth e = take 16 (drop 4 raw) \<and>
    tb + replayFor \<le> re_until e \<and> sent = (if re_done e \<and> re_reply e \<noteq> [] then [re_reply e] else [])"
proof -
  let ?k = "replayKey (hostIP addr) (raw ! 1)"
  obtain r sb where b: "beginReplay tb (hostIP addr) raw s = ((r, True), sb)" using fresh by (cases "beginReplay tb (hostIP addr) raw s") auto
  have kb: "map_of (rs_replay sb) ?k = Some \<lparr>re_auth = take 16 (drop 4 raw), re_reply = [], re_until = tb + replayFor, re_done = False\<rparr>"
    using b len by (auto simp: beginReplay_def Let_def update_conv' split: option.splits if_splits)
  have f: "finish c (opt_Worker opt) tf (hostIP addr) (decide c opt idx (hostIP addr) raw) sb = (sent, s')"
    using h idx b by (simp add: handle_def Let_def)
  show ?thesis
  proof (cases "sent = []")
    case True
    with f finish_quiet kb show ?thesis by fastforce
  next
    case False
    from finish_sent[OF f False] obtain req extra where req: "o_req (decide c opt idx (hostIP addr) raw) = Some req"
      and sent: "sent = [response (cr_md5 c) (cr_hmac c) req (o_code (decide c opt idx (hostIP addr) raw))
        (bytes_of (o_secret (decide c opt idx (hostIP addr) raw))) (bytes_of (replyMessage (o_reason (decide c opt idx (hostIP addr) raw)))) extra]"
      and st: "rs_replay s' = rs_replay (storeReplay tf (hostIP addr) req (hd sent) sb)" .
    have rq: "ID req = raw ! 1" "Auth req = take 16 (drop 4 raw)" using req decide_req parse_fields by blast+
    have "sent = [hd sent]" "hd sent \<noteq> []" using sent response_head by (auto, metis list.distinct(1))
    then show ?thesis using storeReplay_same[of tf "hostIP addr" req "hd sent" sb] st rq le by auto
  qed
qed

text \<open>
  C20: A retransmission is answered, not processed: within five seconds of a request that was handled, whatever
  requests with other identifiers or from other addresses are handled in between, the same datagram gets the same
  answer bytes again (or silence, when it was dropped), asks no directory, and leaves no trace in the state or the
  log.
\<close>

theorem retransmit_answered:
  assumes "rs_idx s0 = Some idx" and "ix_Enabled idx" and "20 \<le> length raw" and "tb \<le> tf"
    and "snd (fst (beginReplay tb (hostIP addr) raw s0))"
    and h: "handle c opt tb tf addr raw s0 = (sent, s1)"
    and s2: "s2 = fold (\<lambda>(opt', t, t', a, r) s. snd (handle c opt' t t' a r s)) others s1"
    and others: "\<forall>(opt', t, t', a, r) \<in> set others. t' \<le> tb + replayFor \<and> (hostIP a \<noteq> hostIP addr \<or> r ! 1 \<noteq> raw ! 1)"
    and "t1 < tb + replayFor"
  shows "handle c opt1 t1 t1' addr raw s2 = (sent, s2)"
proof -
  let ?k = "replayKey (hostIP addr) (raw ! 1)"
  obtain e where e: "map_of (rs_replay s1) ?k = Some e" "re_auth e = take 16 (drop 4 raw)" "tb + replayFor \<le> re_until e"
      "sent = (if re_done e \<and> re_reply e \<noteq> [] then [re_reply e] else [])"
    using handle_first[OF assms(1-6)] by blast
  have "rs_idx s1 = Some idx" using handle_idx[of c opt tb tf addr raw s0] h assms(1) by simp
  then have "rs_idx s2 = Some idx \<and> map_of (rs_replay s2) ?k = Some e"
    using others e(1) unfolding s2
  proof (induction others arbitrary: s1)
    case (Cons x others)
    obtain opt' t t' a r where x: "x = (opt', t, t', a, r)" by (metis prod.exhaust)
    have "map_of (rs_replay (snd (handle c opt' t t' a r s1))) ?k = Some e"
      using Cons.prems e(3) x by (intro handle_other) auto
    with Cons.IH[of "snd (handle c opt' t t' a r s1)"] Cons.prems x handle_idx[of c opt' t t' a r s1] show ?case by simp
  qed simp
  moreover have "t1 < re_until e" using assms(9) e(3) by simp
  ultimately show ?thesis using e(2,4) assms(2,3) by (simp add: handle_def beginReplay_def)
qed

theorem retransmit_answered_witness:
  "let s0 = newRadiusServer\<lparr>rs_idx := Some exIndex\<rparr>; (sent, s1) = handle exCrypto exDirs 5 6 (Some exIP) exRequest s0;
       s2 = snd (handle exCrypto exDirs 7 7 (Some exIP) [1, 9] s1)
   in handle exCrypto exDirs 8 9 (Some exIP) exRequest s2 = (sent, s2)"
proof -
  let ?s0 = "newRadiusServer\<lparr>rs_idx := Some exIndex\<rparr>"
  obtain sent s1 where h: "handle exCrypto exDirs 5 6 (Some exIP) exRequest ?s0 = (sent, s1)" by force
  have len: "length exRequest = 59" and one: "exRequest ! 1 = 7" by (simp_all add: exRequest_def)
  have "snd (fst (beginReplay 5 (hostIP (Some exIP)) exRequest ?s0))"
    by (simp add: beginReplay_def newRadiusServer_def Let_def)
  from retransmit_answered[OF _ exIndex_simps(3) _ _ this h refl, of "[(exDirs, 7, 7, Some exIP, [1, 9])]" 8 exDirs 9]
  show ?thesis using len one by (simp add: h replayFor_def second_def)
qed

end
