(* ===== verification/Radius_Hub.thy ===== *)
theory Radius_Hub
  imports Radius_Server
begin

text \<open>
  The hub's side of RADIUS, \<open>web/handle_radius.go\<close>: the checks on clients, policies and reported events, the
  configuration that is shipped to the workers, and the event table. The requests are values, the tables are lists
  in the order of their ids; the DN parser of the LDAP library is a parameter.

  Lemmas: a stored policy means on the worker what was entered at the hub; a stored client is found by the worker
  under its address; when a worker's spool is taken by the hub.
\<close>

subsection \<open>Events\<close>

definition radiusEventKeep :: nat where "radiusEventKeep = 10000"

definition clip :: "string \<Rightarrow> nat \<Rightarrow> string" where
  "clip s n = (let t = TrimSpace s in if length t > n then take n t else t)"

text \<open>The zero time is more than a day before \<open>now\<close>, so \<open>IsZero\<close> is covered by \<open>Before\<close>.\<close>

definition cleanRadiusEvent :: "time \<Rightarrow> Event \<Rightarrow> string + Event" where
  "cleanRadiusEvent now ev =
     (if ev_Result ev \<notin> {''accept'', ''reject'', ''drop''} then Inl ''bad result''
      else let ev = ev\<lparr>ev_Username := clip (ev_Username ev) 255, ev_NASIP := clip (ev_NASIP ev) 64,
                 ev_DeviceName := clip (ev_DeviceName ev) 255, ev_DeviceRole := clip (ev_DeviceRole ev) 255,
                 ev_Reason := clip (ev_Reason ev) 255, ev_Worker := clip (ev_Worker ev) 255\<rparr>;
               ev = (if ev_Result ev = ''drop'' then ev\<lparr>ev_Username := []\<rparr> else ev)
      in if hasControl (ev_Username ev) \<or> hasControl (ev_Reason ev) then Inl ''invalid event text''
         else Inr (if ev_ReportedAt ev < now - 24 * 3600 * second \<or> ev_ReportedAt ev > now + 300 * second
                   then ev\<lparr>ev_ReportedAt := now\<rparr> else ev))"

definition trimRadiusEvents :: "Event list \<Rightarrow> Event list" where
  "trimRadiusEvents rows =
     (if length rows \<le> radiusEventKeep then rows else drop (length rows - radiusEventKeep) rows)"

text \<open>\<open>ApiRadiusEvents\<close> on a POST: \<open>Inl\<close> is a refusal, \<open>Inr\<close> the table afterwards. Newest 200 rows on a GET.\<close>

definition postRadiusEvents :: "time \<Rightarrow> Event list \<Rightarrow> Event list \<Rightarrow> string + Event list" where
  "postRadiusEvents now batch rows =
     (if length batch = 0 \<or> length batch > 100 then Inl ''expected 1 to 100 events''
      else res_bind (res_map (cleanRadiusEvent now) batch) (\<lambda>new. Inr (trimRadiusEvents (rows @ new))))"

definition getRadiusEvents :: "Event list \<Rightarrow> Event list" where
  "getRadiusEvents rows = take 200 (rev rows)"

text \<open>What \<open>Report\<close> of a worker gets back.\<close>

definition hubTakes :: "time \<Rightarrow> Event list \<Rightarrow> Event list \<Rightarrow> bool" where
  "hubTakes now rows batch = (case postRadiusEvents now batch rows of Inr _ \<Rightarrow> True | Inl _ \<Rightarrow> False)"

subsection \<open>Policies\<close>

record PolicyRow =
  pr_GroupDN :: string
  pr_AllDevices :: bool
  pr_Roles :: string

fun joinLoop :: "string list \<Rightarrow> string list \<Rightarrow> string list" where
  "joinLoop seen [] = []"
| "joinLoop seen (r # rs) =
     (let t = TrimSpace r
      in if t = [] \<or> ToLower t \<in> set seen then joinLoop seen rs else t # joinLoop (ToLower t # seen) rs)"

definition joinRadiusRoles :: "string list \<Rightarrow> string" where
  "joinRadiusRoles roles = Join (joinLoop [] roles) [CHR 0x0A]"

definition splitRadiusRoles :: "string \<Rightarrow> string list" where
  "splitRadiusRoles s = filter (\<lambda>l. l \<noteq> []) (map TrimSpace (Split s (CHR 0x0A)))"

definition validateRadiusPolicy :: "(string \<Rightarrow> bool) \<Rightarrow> Policy \<Rightarrow> string + PolicyRow" where
  "validateRadiusPolicy parseDN dto =
     (let dn = ldapNormalizeDN (pol_GroupDN dto)
      in if dn = [] then Inl ''group DN is required''
         else if \<not> parseDN dn then Inl ''group DN is invalid''
         else let roles = joinRadiusRoles (pol_Roles dto)
         in if \<not> pol_AllDevices dto \<and> roles = [] then Inl ''choose all devices or at least one role''
            else Inr \<lparr>pr_GroupDN = dn, pr_AllDevices = pol_AllDevices dto,
                      pr_Roles = (if pol_AllDevices dto then [] else roles)\<rparr>)"

definition shippedPolicy :: "PolicyRow \<Rightarrow> Policy" where
  "shippedPolicy p = \<lparr>pol_GroupDN = pr_GroupDN p, pol_AllDevices = pr_AllDevices p, pol_Roles = splitRadiusRoles (pr_Roles p)\<rparr>"

subsection \<open>Clients\<close>

record ClientRow =
  cr_Name :: string
  cr_Address :: string
  cr_Secret :: string
  cr_Enabled :: bool

text \<open>\<open>strings.Trim(s, "[]")\<close>.\<close>

definition trimBrackets :: "string \<Rightarrow> string" where
  "trimBrackets s = (let b = (\<lambda>c. c = CHR ''['' \<or> c = CHR '']'') in rev (dropWhile b (rev (dropWhile b s))))"

definition canonClientIP :: "string \<Rightarrow> string" where
  "canonClientIP s =
     (case ParseAddr (trimBrackets (TrimSpace s)) of
        None \<Rightarrow> []
      | Some ip \<Rightarrow> if has_zone ip then [] else addr_string (Unmap ip))"

definition validateRadiusClient :: "ClientRow \<Rightarrow> bool \<Rightarrow> string + ClientRow" where
  "validateRadiusClient dto secretRequired =
     (let name = TrimSpace (cr_Name dto)
      in if name = [] \<or> length name > 255 then Inl ''name is required''
         else let addr = TrimSpace (cr_Address dto);
                  addr = (case IndexByte addr (CHR ''/'') of Some i \<Rightarrow> take i addr | None \<Rightarrow> addr);
                  ip = canonClientIP addr
         in if ip = [] then Inl ''address must be an IP address''
            else let secret = cr_Secret dto
            in if secretRequired \<and> secret = [] then Inl ''secret is required''
               else if length secret > 128 \<or> hasControl secret then Inl ''secret is invalid''
               else Inr \<lparr>cr_Name = name, cr_Address = ip, cr_Secret = secret, cr_Enabled = cr_Enabled dto\<rparr>)"

subsection \<open>The shipped configuration\<close>

definition addRadiusAddr :: "Device \<Rightarrow> string \<Rightarrow> Device" where
  "addRadiusAddr dev a =
     (let addr = TrimSpace a; addr = (case IndexByte addr (CHR ''/'') of Some i \<Rightarrow> take i addr | None \<Rightarrow> addr)
      in if addr = [] \<or> list_ex is_space addr then dev
         else if addr \<in> set (dev_Addresses dev) then dev
         else dev\<lparr>dev_Addresses := dev_Addresses dev @ [addr]\<rparr>)"

record DeviceRow =
  dr_ID :: nat
  dr_Name :: string
  dr_Role :: string
  dr_Enabled :: bool
  dr_PrimaryIPv4 :: string
  dr_PrimaryIPv6 :: string

text \<open>\<open>radiusDevices\<close> with the joined table of interface addresses (device id, address).\<close>

definition radiusDevices :: "DeviceRow list \<Rightarrow> (nat \<times> string) list \<Rightarrow> Device list" where
  "radiusDevices rows addrs =
     (let dev0 = (\<lambda>d. addRadiusAddr (addRadiusAddr
             \<lparr>dev_Name = dr_Name d, dev_Role = dr_Role d, dev_Enabled = dr_Enabled d, dev_Addresses = []\<rparr>
             (dr_PrimaryIPv4 d)) (dr_PrimaryIPv6 d));
          full = (\<lambda>d. fold (\<lambda>(i, a) dev. if i = dr_ID d then addRadiusAddr dev a else dev) addrs (dev0 d))
      in filter (\<lambda>dev. length (dev_Addresses dev) \<noteq> 0) (map full rows))"

record RadiusSettings =
  st_Enabled :: "bool option"
  st_Listen :: string
  st_Reply :: "string option"
  st_Machine :: Machine

text \<open>\<open>buildRadiusConfig\<close>: \<open>clients\<close> and \<open>policies\<close> in the order of the queries, \<open>zero\<close> an empty directory setting.\<close>

definition buildRadiusConfig :: "'l \<Rightarrow> RadiusSettings \<Rightarrow> 'l list \<Rightarrow> ClientRow list \<Rightarrow> PolicyRow list \<Rightarrow> Device list \<Rightarrow> 'l RadiusConfig" where
  "buildRadiusConfig zero settings dirs clients policies devices =
     \<lparr>rc_Enabled = (st_Enabled settings = Some True),
      rc_Listen = (if TrimSpace (st_Listen settings) = [] then DefaultListenRadius else TrimSpace (st_Listen settings)),
      rc_LDAP = (case dirs of [] \<Rightarrow> zero | d # _ \<Rightarrow> d), rc_LDAPs = dirs,
      rc_Clients = map (\<lambda>c. \<lparr>cl_Name = cr_Name c, cl_Address = cr_Address c, cl_Secret = cr_Secret c\<rparr>) (filter cr_Enabled clients),
      rc_Policies = map shippedPolicy policies, rc_Devices = devices,
      rc_Reply = ReplyText (st_Reply settings),
      rc_Machine = (st_Machine settings)\<lparr>mc_Account := TrimSpace (mc_Account (st_Machine settings)),
        mc_Domain := TrimSpace (mc_Domain (st_Machine settings))\<rparr>\<rparr>"

subsection \<open>Policies mean what was entered\<close>

lemma joinLoop_parts:
  "t \<in> set (joinLoop seen roles) \<Longrightarrow> t \<noteq> [] \<and> TrimSpace t = t \<and> (\<exists>r \<in> set roles. t = TrimSpace r)"
  by (induction seen roles rule: joinLoop.induct) (auto simp: Let_def split: if_splits)

lemma joinLoop_lower:
  "ToLower ` set (joinLoop seen roles) = normRole ` set roles - {[]} - set seen"
  by (induction seen roles rule: joinLoop.induct) (auto simp: Let_def normRole_def split: if_splits)

lemma split_joinRadiusRoles:
  assumes "\<forall>r \<in> set roles. CHR 0x0A \<notin> set r"
  shows "splitRadiusRoles (joinRadiusRoles roles) = joinLoop [] roles"
proof (cases "joinLoop [] roles = []")
  case True
  then show ?thesis by (simp add: splitRadiusRoles_def joinRadiusRoles_def)
next
  case False
  have "CHR 0x0A \<notin> set t" if "t \<in> set (joinLoop [] roles)" for t
    using joinLoop_parts[OF that] assms set_TrimSpace by blast
  with False have "Split (joinRadiusRoles roles) (CHR 0x0A) = joinLoop [] roles"
    unfolding joinRadiusRoles_def by (intro Split_Join) auto
  moreover have "filter (\<lambda>l. l \<noteq> []) (map TrimSpace ts) = ts" if "set ts \<subseteq> set (joinLoop [] roles)" for ts
    using that joinLoop_parts by (induction ts) auto
  ultimately show ?thesis by (simp add: splitRadiusRoles_def)
qed


definition exPolicy :: Policy where
  "exPolicy = \<lparr>pol_GroupDN = '' cn=net'', pol_AllDevices = False, pol_Roles = ['' access'', ''core'']\<rparr>"


subsection \<open>Clients are found\<close>

lemma Unmap_no_zone: "\<not> has_zone a \<Longrightarrow> \<not> has_zone (Unmap a)" "Unmap (Unmap a) = Unmap a"
  by (cases a; simp)+

lemma stored_client_found:
  assumes "validateRadiusClient dto req = Inr row"
  shows "canonIP (cr_Address row) = cr_Address row \<and> cr_Address row \<noteq> []"
proof -
  obtain s where s: "cr_Address row = canonClientIP s" "canonClientIP s \<noteq> []"
    using assms by (auto simp: validateRadiusClient_def Let_def split: if_splits)
  then obtain ip where "\<not> has_zone ip" "cr_Address row = addr_string (Unmap ip)"
    by (auto simp: canonClientIP_def split: option.splits if_splits)
  with s canonIP_addr_string[OF Unmap_no_zone(1), of ip] show ?thesis by (simp add: Unmap_no_zone(2))
qed

subsection \<open>Taking the spool\<close>

lemma res_map_ok: "(\<exists>ys. res_map f xs = Inr ys) \<longleftrightarrow> (\<forall>x \<in> set xs. \<exists>y. f x = Inr y)"
  by (induction xs) (auto simp: res_bind_eq_Inr)

lemma hubTakes_iff:
  "hubTakes now rows batch \<longleftrightarrow> 1 \<le> length batch \<and> length batch \<le> 100 \<and> (\<forall>ev \<in> set batch. \<exists>row. cleanRadiusEvent now ev = Inr row)"
proof -
  have "hubTakes now rows batch \<longleftrightarrow> 1 \<le> length batch \<and> length batch \<le> 100 \<and> (\<exists>ys. res_map (cleanRadiusEvent now) batch = Inr ys)"
    by (cases "res_map (cleanRadiusEvent now) batch") (auto simp: hubTakes_def postRadiusEvents_def Suc_le_eq)
  then show ?thesis unfolding res_map_ok .
qed

text \<open>
  C22: A worker's spool reaches the hub only while it is small: the drain at the start of the worker gets the
  spooled events accepted, and removes the file, exactly when there are at most 100 of them and the hub finds
  nothing wrong with any. A spool of more than 100 events, or with one bad event in it, is refused whole at every
  start, whatever the table holds.
\<close>

theorem drain_delivers_iff:
  assumes "\<forall>ev \<in> set (concat batches). marshal ev = Some (enc ev) \<and> isLine (enc ev) \<and> unmarshal (enc ev) = Some ev \<and> ev_Result ev \<noteq> []"
    and "statePath \<noteq> []" and "concat batches \<noteq> []"
  shows "fst (drainSpool unmarshal statePath (Some (hubTakes now rows)) (fold (spool marshal statePath) batches None)) = None \<longleftrightarrow>
    length (concat batches) \<le> 100 \<and> (\<forall>ev \<in> set (concat batches). \<exists>row. cleanRadiusEvent now ev = Inr row)"
proof -
  have "length (latest (concat batches)) \<le> 100 \<longleftrightarrow> length (concat batches) \<le> 100"
    unfolding latest_def maxSpool_def length_drop by arith
  moreover have "latest (concat batches) = concat batches" if "length (concat batches) \<le> 100"
    using that by (intro latest_short) (simp add: maxSpool_def)
  moreover have "1 \<le> length (latest (concat batches))" using assms(3) by (simp add: Suc_le_eq del: concat_eq_Nil_conv)
  ultimately show ?thesis unfolding drain_after_spool[OF assms] by (auto simp: hubTakes_iff simp del: set_concat)
qed

theorem drain_delivers_iff_witness:
  "fst (drainSpool (\<lambda>_. Some exEvent) ''/s'' (Some (hubTakes 5 [])) (fold (spool (\<lambda>_. Some [123, 125]) ''/s'') [replicate 101 exEvent] None)) \<noteq> None"
  using drain_delivers_iff[of "[replicate 101 exEvent]" "\<lambda>_. Some [123, 125]" "\<lambda>_. [123, 125]" "\<lambda>_. Some exEvent" "''/s''" 5 "[]"]
  by (simp add: isLine_def exEvent_def)

end
