(* ===== verification/Ipam_Models.thy ===== *)
theory Ipam_Models
  imports Go_Strings
begin

text \<open>
  The IPAM rows of \<open>models/ipam.go\<close> as records, with their table hooks. The timestamps of
  \<open>FactumModel\<close> are not read by the sources and are left out; a \<open>uint\<close> id is a natural number, 0
  meaning "not set" as in the code. Only the columns of \<open>models.Address\<close> that IPAM reads or writes are
  kept.
\<close>

definition VRFSourceFactum :: string where
  "VRFSourceFactum = ''factum''"

definition VRFSourceNetbox :: string where
  "VRFSourceNetbox = ''netbox''"

record IpamNamespace =
  ns_ID :: nat
  ns_Name :: string
  ns_Description :: string

record IpamNamespacePrefix =
  pool_ID :: nat
  pool_NamespaceID :: nat
  pool_Prefix :: string
  pool_Family :: nat

record IpamVRF =
  vrf_ID :: nat
  vrf_NamespaceID :: nat
  vrf_Name :: string
  vrf_Description :: string
  vrf_IsDefault :: bool
  vrf_EnforceUnique :: bool
  vrf_RD :: string
  vrf_ImportRT :: string
  vrf_ExportRT :: string
  vrf_Source :: string
  vrf_NetboxID :: nat

record IpamPrefix =
  pfx_ID :: nat
  pfx_NamespaceID :: nat
  pfx_VRFID :: nat
  pfx_Prefix :: string
  pfx_Family :: nat
  pfx_Description :: string
  pfx_DhcpEnabled :: bool
  pfx_DhcpRangeStart :: string
  pfx_DhcpRangeEnd :: string
  pfx_DhcpGateway :: string
  pfx_DhcpDnsServers :: string
  pfx_Source :: string
  pfx_NetboxID :: nat

record Address =
  adr_ID :: nat
  adr_Address :: string
  adr_VRF :: string
  adr_PrefixID :: "nat option"

text \<open>The \<open>BeforeCreate\<close> hooks and \<open>IsLocal\<close>.\<close>

definition sourceHook :: "string \<Rightarrow> nat \<Rightarrow> string" where
  "sourceHook src netboxID =
     (if src = [] then (if netboxID \<noteq> 0 then VRFSourceNetbox else VRFSourceFactum) else src)"

definition vrfBeforeCreate :: "IpamVRF \<Rightarrow> IpamVRF" where
  "vrfBeforeCreate v = v\<lparr>vrf_Source := sourceHook (vrf_Source v) (vrf_NetboxID v)\<rparr>"

definition vrfIsLocal :: "IpamVRF \<Rightarrow> bool" where
  "vrfIsLocal v \<longleftrightarrow> vrf_Source v \<noteq> VRFSourceNetbox"

definition pfxBeforeCreate :: "IpamPrefix \<Rightarrow> IpamPrefix" where
  "pfxBeforeCreate p = p\<lparr>pfx_Source := sourceHook (pfx_Source p) (pfx_NetboxID p)\<rparr>"

definition pfxIsLocal :: "IpamPrefix \<Rightarrow> bool" where
  "pfxIsLocal p \<longleftrightarrow> pfx_Source p \<noteq> VRFSourceNetbox"

text \<open>Zero values, for the composite literals of the code that set a few fields only.\<close>

definition zeroVRF :: IpamVRF where
  "zeroVRF = \<lparr>vrf_ID = 0, vrf_NamespaceID = 0, vrf_Name = [], vrf_Description = [],
     vrf_IsDefault = False, vrf_EnforceUnique = False, vrf_RD = [], vrf_ImportRT = [],
     vrf_ExportRT = [], vrf_Source = [], vrf_NetboxID = 0\<rparr>"

definition zeroPrefix :: IpamPrefix where
  "zeroPrefix = \<lparr>pfx_ID = 0, pfx_NamespaceID = 0, pfx_VRFID = 0, pfx_Prefix = [], pfx_Family = 0,
     pfx_Description = [], pfx_DhcpEnabled = False, pfx_DhcpRangeStart = [], pfx_DhcpRangeEnd = [],
     pfx_DhcpGateway = [], pfx_DhcpDnsServers = [], pfx_Source = [], pfx_NetboxID = 0\<rparr>"

end
