(* ===== verification/Ipam_Prefix.thy ===== *)
theory Ipam_Prefix
  imports Ipam_Models Netip_Text
begin

text \<open>
  The address-plan rules of \<open>internal/ipam/prefix.go\<close>: parsing of operator input, containment, the
  choice of the most specific allocation, and the checks made before a prefix or a pool is stored.
  The locale \<open>laminar\<close> is the contract those checks rely on, that overlapping CIDR blocks are nested;
  it is interpreted on the \<open>netip\<close> operations. The lemmas read every check as a statement about sets
  of addresses.
\<close>

subsection \<open>Parsing and containment\<close>

definition ParsePrefix :: "string \<Rightarrow> string + pfx" where
  "ParsePrefix s0 =
     (let s = TrimSpace s0;
          s = (if s = ''0.0.0.0'' then ''0.0.0.0/0'' else if s = ''::'' then ''::/0'' else s)
      in case netipParsePrefix s of
           None \<Rightarrow> Inl (''invalid prefix '' @ Quote s)
         | Some p \<Rightarrow> Inr (Masked p))"

definition familyOf :: "pfx \<Rightarrow> nat" where
  "familyOf p = (if Is4 (pfx_addr p) then 4 else 6)"

definition containsPrefix :: "pfx \<Rightarrow> pfx \<Rightarrow> bool" where
  "containsPrefix parent child =
     (if BitLen (pfx_addr parent) \<noteq> BitLen (pfx_addr child) then False
      else if Bits parent = Bits child then parent = child
      else Bits parent < Bits child \<and> ContainsAddr parent (pfx_addr child))"

definition strictlyContains :: "pfx \<Rightarrow> pfx \<Rightarrow> bool" where
  "strictlyContains parent child \<longleftrightarrow> containsPrefix parent child \<and> Bits parent < Bits child"

text \<open>
  The loop of \<open>ContainingPrefix\<close>: \<open>best\<close> is the row chosen so far with the length of its prefix
  (\<open>bestBits\<close>, -1 while there is none).
\<close>

definition matchesHost :: "(nat \<Rightarrow> IpamVRF option) \<Rightarrow> pfx \<Rightarrow> string \<Rightarrow> IpamPrefix \<Rightarrow> pfx option" where
  "matchesHost vrfs host vrfName row =
     (case ParsePrefix (pfx_Prefix row) of
        Inl _ \<Rightarrow> None
      | Inr p \<Rightarrow>
          if BitLen (pfx_addr p) \<noteq> BitLen (pfx_addr host) then None
          else if \<not> ContainsAddr p (pfx_addr host) then None
          else if vrfName \<noteq> [] then
            (case vrfs (pfx_VRFID row) of
               None \<Rightarrow> None
             | Some v \<Rightarrow> if EqualFold (vrf_Name v) vrfName then Some p else None)
          else Some p)"

fun containingLoop :: "(IpamPrefix \<Rightarrow> pfx option) \<Rightarrow> (IpamPrefix \<times> nat) option \<Rightarrow> IpamPrefix list \<Rightarrow> IpamPrefix option" where
  "containingLoop f best [] = map_option fst best"
| "containingLoop f best (row # rows) =
     (case f row of
        None \<Rightarrow> containingLoop f best rows
      | Some p \<Rightarrow>
          containingLoop f
            (case best of
               None \<Rightarrow> Some (row, Bits p)
             | Some (b, bestBits) \<Rightarrow> if Bits p > bestBits then Some (row, Bits p) else best) rows)"

definition ContainingPrefix :: "IpamPrefix list \<Rightarrow> (nat \<Rightarrow> IpamVRF option) \<Rightarrow> pfx \<Rightarrow> string \<Rightarrow> IpamPrefix option" where
  "ContainingPrefix prefixes vrfs host vrfName =
     containingLoop (matchesHost vrfs host (TrimSpace vrfName)) None prefixes"

subsection \<open>Checks before a write\<close>

record allocation =
  alloc_Prefix :: pfx
  alloc_VRFID :: nat

definition errDuplicate :: string where
  "errDuplicate = ''prefix is already allocated in this namespace''"

definition errWrongParentVRF :: string where
  "errWrongParentVRF = ''prefix overlaps an allocation in another VRF or the namespace root''"

definition errPoolOverlap :: string where
  "errPoolOverlap = ''prefix overlaps an existing allowed prefix''"

definition errPoolDuplicate :: string where
  "errPoolDuplicate = ''this allowed prefix already exists''"

fun checkAllocate :: "allocation list \<Rightarrow> pfx \<Rightarrow> nat \<Rightarrow> string option" where
  "checkAllocate [] candidate vrfID = None"
| "checkAllocate (got # rest) candidate vrfID =
     (if BitLen (pfx_addr (alloc_Prefix got)) \<noteq> BitLen (pfx_addr candidate)
      then checkAllocate rest candidate vrfID
      else if alloc_Prefix got = candidate then Some errDuplicate
      else if \<not> Overlaps (alloc_Prefix got) candidate then checkAllocate rest candidate vrfID
      else if alloc_VRFID got \<noteq> vrfID then Some errWrongParentVRF
      else checkAllocate rest candidate vrfID)"

fun checkAddPool :: "pfx list \<Rightarrow> pfx \<Rightarrow> string option" where
  "checkAddPool [] candidate = None"
| "checkAddPool (got # rest) candidate =
     (if BitLen (pfx_addr got) \<noteq> BitLen (pfx_addr candidate) then checkAddPool rest candidate
      else if got = candidate then Some errPoolDuplicate
      else if \<not> Overlaps got candidate then checkAddPool rest candidate
      else if containsPrefix got candidate \<or> containsPrefix candidate got then checkAddPool rest candidate
      else Some errPoolOverlap)"

definition coveredByAny :: "pfx \<Rightarrow> pfx list \<Rightarrow> bool" where
  "coveredByAny p prefixes = list_ex (\<lambda>parent. containsPrefix parent p) prefixes"

definition poolStillNeeded :: "pfx list \<Rightarrow> pfx list \<Rightarrow> bool" where
  "poolStillNeeded remaining allocations = list_ex (\<lambda>a. \<not> coveredByAny a remaining) allocations"

subsection \<open>Nested blocks\<close>

locale laminar =
  fixes contains overlaps :: "'p \<Rightarrow> 'p \<Rightarrow> bool"
    and valid :: "'p \<Rightarrow> bool"
    and block :: "'p \<Rightarrow> 'a set"
  assumes contains_iff: "valid p \<Longrightarrow> valid q \<Longrightarrow> contains p q \<longleftrightarrow> block q \<subseteq> block p"
    and overlaps_iff: "valid p \<Longrightarrow> valid q \<Longrightarrow> overlaps p q \<longleftrightarrow> block p \<inter> block q \<noteq> {}"
    and block_nonempty: "valid p \<Longrightarrow> block p \<noteq> {}"
    and block_inject: "valid p \<Longrightarrow> valid q \<Longrightarrow> block p = block q \<Longrightarrow> p = q"
    and nested: "valid p \<Longrightarrow> valid q \<Longrightarrow> block p \<inter> block q \<noteq> {} \<Longrightarrow> block p \<subseteq> block q \<or> block q \<subseteq> block p"
begin

lemma overlaps_nested:
  "valid p \<Longrightarrow> valid q \<Longrightarrow> overlaps p q \<longleftrightarrow> contains p q \<or> contains q p"
  using contains_iff[of p q] contains_iff[of q p] overlaps_iff[of p q] block_nonempty[of p]
    block_nonempty[of q] nested[of p q] by auto

lemma contains_trans:
  "valid p \<Longrightarrow> valid q \<Longrightarrow> valid r \<Longrightarrow> contains p q \<Longrightarrow> contains q r \<Longrightarrow> contains p r"
  using contains_iff by blast

lemma contains_antisym:
  "valid p \<Longrightarrow> valid q \<Longrightarrow> contains p q \<Longrightarrow> contains q p \<Longrightarrow> p = q"
  using contains_iff block_inject by blast

text \<open>Two blocks that contain a third are comparable, so ancestors form a chain.\<close>

lemma ancestors_chain:
  assumes "valid p" "valid q" "valid r" "contains p r" "contains q r"
  shows "contains p q \<or> contains q p"
proof -
  have "block r \<subseteq> block p \<inter> block q" "block r \<noteq> {}"
    using assms contains_iff block_nonempty by blast+
  then show ?thesis using assms nested[of p q] contains_iff by blast
qed

text \<open>
  A block that is strictly inside some block of a finite collection has exactly one immediate parent
  there: a block that contains it with none strictly between.
\<close>

lemma immediate_parent_unique:
  assumes "finite A" "\<forall>p \<in> A. valid p" "valid c" "p0 \<in> A" "p0 \<noteq> c" "contains p0 c"
  shows "\<exists>!p. p \<in> A \<and> p \<noteq> c \<and> contains p c \<and>
    (\<forall>q \<in> A. q \<noteq> c \<and> q \<noteq> p \<and> contains q c \<longrightarrow> \<not> contains p q)"
proof -
  define B where "B = {p \<in> A. p \<noteq> c \<and> contains p c}"
  have B: "finite (block ` B)" "block ` B \<noteq> {}" using assms by (auto simp: B_def)
  obtain m where m: "m \<in> block ` B" "\<forall>b \<in> block ` B. b \<subseteq> m \<longrightarrow> m = b"
    using finite_has_minimal[OF B] by blast
  then obtain p where p: "p \<in> B" "m = block p" by blast
  have least: "contains q p" if "q \<in> B" for q
    using that p m(2) ancestors_chain[of p q c] assms(2,3) contains_iff block_inject
    by (metis (no_types, lifting) B_def imageI mem_Collect_eq order_refl)
  show ?thesis
  proof (rule ex1I[of _ p])
    show "p \<in> A \<and> p \<noteq> c \<and> contains p c \<and>
      (\<forall>q \<in> A. q \<noteq> c \<and> q \<noteq> p \<and> contains q c \<longrightarrow> \<not> contains p q)"
      using p(1) least contains_antisym assms(2) by (auto simp: B_def)
  next
    fix p'
    assume p': "p' \<in> A \<and> p' \<noteq> c \<and> contains p' c \<and>
      (\<forall>q \<in> A. q \<noteq> c \<and> q \<noteq> p' \<and> contains q c \<longrightarrow> \<not> contains p' q)"
    then have "contains p' p" using least by (simp add: B_def)
    then show "p' = p" using p' p(1) by (auto simp: B_def)
  qed
qed

end

lemma containsPrefix_subset:
  assumes "valid_pfx p" and "valid_pfx q"
  shows "containsPrefix p q \<longleftrightarrow> addrs_of q \<subseteq> addrs_of p"
proof -
  have ne: "addrs_of q \<noteq> {}" using pfx_addr_in[OF assms(2)] by (auto simp: addrs_of_def)
  from assms(1) show ?thesis
  proof (cases rule: valid_pfx_cases)
    case p: (v4 w b)
    from assms(2) show ?thesis
    proof (cases rule: valid_pfx_cases)
      case (v4 v c)
      with p show ?thesis using block_subset[of b c v w]
        by (auto simp: containsPrefix_def addrs_v4 inj_image_subset_iff inj_def masked_same_top)
    qed (use p ne in \<open>auto simp: containsPrefix_def addrs_v4 addrs_v6\<close>)
  next
    case p: (v6 w b)
    from assms(2) show ?thesis
    proof (cases rule: valid_pfx_cases)
      case (v6 v c)
      with p show ?thesis using block_subset[of b c v w]
        by (auto simp: containsPrefix_def addrs_v6 inj_image_subset_iff inj_def masked_same_top)
    qed (use p ne in \<open>auto simp: containsPrefix_def addrs_v4 addrs_v6\<close>)
  qed
qed

lemma containsPrefix_antisym: "containsPrefix p q \<Longrightarrow> containsPrefix q p \<Longrightarrow> p = q"
  by (auto simp: containsPrefix_def split: if_splits)

lemma Overlaps_nested:
  assumes "valid_pfx p" and "valid_pfx q" and "Overlaps p q"
  shows "containsPrefix p q \<or> containsPrefix q p"
  using assms(1)
proof (cases rule: valid_pfx_cases)
  case p: (v4 w b)
  from assms(2) show ?thesis
    by (cases rule: valid_pfx_cases)
      (use p assms(3) in \<open>auto simp: containsPrefix_def Overlaps_def Let_def mask_top_eq_iff same_top_sym min_def masked_same_top split: if_splits\<close>)
next
  case p: (v6 w b)
  from assms(2) show ?thesis
    by (cases rule: valid_pfx_cases)
      (use p assms(3) in \<open>auto simp: containsPrefix_def Overlaps_def Let_def mask_top_eq_iff same_top_sym min_def masked_same_top split: if_splits\<close>)
qed

interpretation cidr: laminar containsPrefix Overlaps valid_pfx addrs_of
proof unfold_locales
  show "addrs_of p \<noteq> {}" if "valid_pfx p" for p
    using pfx_addr_in[OF that] by (auto simp: addrs_of_def)
  show "p = q" if "valid_pfx p" "valid_pfx q" "addrs_of p = addrs_of q" for p q
    using that containsPrefix_subset containsPrefix_antisym by blast
  show "addrs_of p \<subseteq> addrs_of q \<or> addrs_of q \<subseteq> addrs_of p"
    if "valid_pfx p" "valid_pfx q" "addrs_of p \<inter> addrs_of q \<noteq> {}" for p q
    using that Overlaps_nested Overlaps_iff containsPrefix_subset by blast
qed (simp_all add: containsPrefix_subset Overlaps_iff)

subsection \<open>What the operations guarantee\<close>

lemma ParsePrefix_valid: "ParsePrefix s = Inr p \<Longrightarrow> valid_pfx p"
  by (auto simp: ParsePrefix_def Let_def netipParsePrefix_range valid_Masked split: option.splits)

lemma ParsePrefix_pfx_string: "valid_pfx p \<Longrightarrow> ParsePrefix (pfx_string p) = Inr p"
proof -
  assume v: "valid_pfx p"
  have "CHR ''/'' \<in> set (pfx_string p)" by (simp add: pfx_string_def)
  then have "pfx_string p \<noteq> ''0.0.0.0''" "pfx_string p \<noteq> ''::''" by auto
  with v show ?thesis
    by (simp add: ParsePrefix_def TrimSpace_pfx_string netipParsePrefix_pfx_string valid_pfx_def)
qed

text \<open>
  A prefix accepted by ParsePrefix is canonical: its length fits its family, it has no zone and no
  host bits, and the text stored for it is read back as the same prefix.
\<close>

theorem ParsePrefix_canonical:
  assumes "ParsePrefix s = Inr p"
  shows "Bits p \<le> BitLen (pfx_addr p) \<and> Masked p = p \<and> ParsePrefix (pfx_string p) = Inr p"
  using ParsePrefix_valid[OF assms] ParsePrefix_pfx_string by (simp add: valid_pfx_def)

theorem ParsePrefix_canonical_witness:
  "\<exists>p. ParsePrefix (pfx_string (Pfx (A4 0) 8)) = Inr p \<and> Masked p = p"
proof -
  have "valid_pfx (Pfx (A4 0) 8)" by (simp add: valid_pfx_def Masked_def mask_top_def)
  then have "ParsePrefix (pfx_string (Pfx (A4 0) 8)) = Inr (Pfx (A4 0) 8)" by (rule ParsePrefix_pfx_string)
  from this ParsePrefix_canonical[OF this] show ?thesis by blast
qed

text \<open>
  Two allocated prefixes are compared correctly: containsPrefix holds exactly when every address
  of the child is an address of the parent, and Overlaps exactly when one contains the other.
\<close>

theorem containsPrefix_correct:
  assumes "ParsePrefix s = Inr p" and "ParsePrefix t = Inr q"
  shows "(containsPrefix p q \<longleftrightarrow> (\<forall>a. ContainsAddr q a \<longrightarrow> ContainsAddr p a))
    \<and> (Overlaps p q \<longleftrightarrow> containsPrefix p q \<or> containsPrefix q p)"
proof -
  have v: "valid_pfx p" "valid_pfx q" using assms ParsePrefix_valid by blast+
  show ?thesis
    using containsPrefix_subset[OF v] cidr.overlaps_nested[OF v] by (auto simp: addrs_of_def)
qed

theorem containsPrefix_correct_witness:
  "containsPrefix (Pfx (A4 0x0A000000) 8) (Pfx (A4 0x0A010000) 16) \<and>
   Overlaps (Pfx (A4 0x0A010000) 16) (Pfx (A4 0x0A000000) 8)"
proof -
  let ?p = "Pfx (A4 0x0A000000) 8" and ?q = "Pfx (A4 0x0A010000) 16"
  have v: "valid_pfx ?p" "valid_pfx ?q" by (simp_all add: valid_pfx_def Masked_def mask_top_def mask_eq_exp_minus_1)
  have "containsPrefix ?p ?q" by (simp add: containsPrefix_def same_top_def)
  then show ?thesis
    using containsPrefix_correct[OF ParsePrefix_pfx_string[OF v(2)] ParsePrefix_pfx_string[OF v(1)]] by blast
qed

lemma checkAllocate_None_iff:
  assumes "\<forall>g \<in> set existing. valid_pfx (alloc_Prefix g)" and "valid_pfx c"
  shows "checkAllocate existing c vrf = None \<longleftrightarrow>
    (\<forall>g \<in> set existing. alloc_Prefix g \<noteq> c \<and>
       (alloc_VRFID g \<noteq> vrf \<longrightarrow> addrs_of (alloc_Prefix g) \<inter> addrs_of c = {}))"
  using assms(1)
proof (induction existing)
  case (Cons g gs)
  have "Overlaps (alloc_Prefix g) c \<longleftrightarrow> addrs_of (alloc_Prefix g) \<inter> addrs_of c \<noteq> {}"
    using Cons.prems assms(2) by (simp add: Overlaps_iff)
  moreover have "\<not> Overlaps (alloc_Prefix g) c" if "BitLen (pfx_addr (alloc_Prefix g)) \<noteq> BitLen (pfx_addr c)"
    using that by (cases "pfx_addr (alloc_Prefix g)"; cases "pfx_addr c") (auto simp: Overlaps_def)
  moreover have "alloc_Prefix g \<noteq> c" if "BitLen (pfx_addr (alloc_Prefix g)) \<noteq> BitLen (pfx_addr c)"
    using that by auto
  ultimately show ?case using Cons by auto
qed simp

lemma checkAllocate_results:
  "checkAllocate existing c vrf \<in> {None, Some errDuplicate, Some errWrongParentVRF}"
  by (induction existing) auto

lemma checkAddPool_iff:
  assumes "\<forall>g \<in> set existing. valid_pfx g" and "valid_pfx c"
  shows "checkAddPool existing c = (if c \<in> set existing then Some errPoolDuplicate else None)"
  using assms(1)
proof (induction existing)
  case (Cons g gs)
  then show ?case using Overlaps_nested[OF _ assms(2), of g] by auto
qed simp

lemma containingLoop_spec:
  "case containingLoop f best rows of
     None \<Rightarrow> best = None \<and> (\<forall>r \<in> set rows. f r = None)
   | Some row \<Rightarrow> \<exists>n. (best = Some (row, n) \<or> row \<in> set rows \<and> map_option Bits (f row) = Some n)
       \<and> (\<forall>b m. best = Some (b, m) \<longrightarrow> m \<le> n) \<and> (\<forall>r \<in> set rows. \<forall>p. f r = Some p \<longrightarrow> Bits p \<le> n)"
proof (induction rows arbitrary: best)
  case Nil
  then show ?case by (cases best) auto
next
  case (Cons r rows)
  show ?case
  proof (cases "f r")
    case None
    then show ?thesis using Cons[of best] by (cases "containingLoop f best rows") auto
  next
    case (Some p)
    define best' where "best' = (case best of None \<Rightarrow> Some (r, Bits p)
      | Some (b, n) \<Rightarrow> if Bits p > n then Some (r, Bits p) else best)"
    have step: "containingLoop f best (r # rows) = containingLoop f best' rows"
      using Some by (simp add: best'_def)
    have "\<exists>b m. best' = Some (b, m) \<and> Bits p \<le> m \<and> (\<forall>b0 m0. best = Some (b0, m0) \<longrightarrow> m0 \<le> m)
       \<and> (best' = best \<or> b = r \<and> m = Bits p)"
      by (cases best) (auto simp: best'_def)
    then obtain b m where b: "best' = Some (b, m)" "Bits p \<le> m" "\<forall>b0 m0. best = Some (b0, m0) \<longrightarrow> m0 \<le> m"
      "best' = best \<or> b = r \<and> m = Bits p"
      by blast
    obtain row where row: "containingLoop f best' rows = Some row"
      using Cons[of best'] b(1) by (cases "containingLoop f best' rows") auto
    then obtain n where n: "best' = Some (row, n) \<or> row \<in> set rows \<and> map_option Bits (f row) = Some n"
      "m \<le> n" "\<forall>r \<in> set rows. \<forall>p. f r = Some p \<longrightarrow> Bits p \<le> n"
      using Cons[of best'] b(1) by auto
    have "\<forall>b0 m0. best = Some (b0, m0) \<longrightarrow> m0 \<le> n" using b(3) n(2) le_trans by blast
    moreover have "\<forall>r' \<in> set (r # rows). \<forall>p. f r' = Some p \<longrightarrow> Bits p \<le> n" using n(2,3) b(2) Some by auto
    moreover have "best = Some (row, n) \<or> row \<in> set (r # rows) \<and> map_option Bits (f row) = Some n"
      using n(1) b(1,4) Some by auto
    ultimately show ?thesis unfolding step row by auto
  qed
qed

text \<open>
  checkAllocate accepts a candidate exactly when the namespace does not hold the same prefix and
  no allocation of another VRF shares an address with it; otherwise it names one of the two reasons,
  and the duplicate only when the prefix is present.
\<close>

theorem checkAllocate_correct:
  assumes "\<forall>g \<in> set existing. valid_pfx (alloc_Prefix g)" and "valid_pfx c"
  shows "case checkAllocate existing c vrf of
      None \<Rightarrow> (\<forall>g \<in> set existing. alloc_Prefix g \<noteq> c \<and>
         (alloc_VRFID g = vrf \<or> (\<nexists>a. ContainsAddr (alloc_Prefix g) a \<and> ContainsAddr c a)))
    | Some e \<Rightarrow> e = errDuplicate \<and> c \<in> alloc_Prefix ` set existing
        \<or> e = errWrongParentVRF \<and> (\<exists>g \<in> set existing. alloc_VRFID g \<noteq> vrf \<and>
             (\<exists>a. ContainsAddr (alloc_Prefix g) a \<and> ContainsAddr c a))"
proof -
  have "case checkAllocate existing c vrf of None \<Rightarrow> True
    | Some e \<Rightarrow> e = errDuplicate \<and> c \<in> alloc_Prefix ` set existing
        \<or> e = errWrongParentVRF \<and> (\<exists>g \<in> set existing. alloc_VRFID g \<noteq> vrf \<and> Overlaps (alloc_Prefix g) c)"
    by (induction existing) (auto split: option.splits)
  then show ?thesis
    using checkAllocate_None_iff[OF assms, of vrf] assms
    by (auto simp: Overlaps_iff addrs_of_def split: option.splits)
qed

definition alloc_example :: "allocation list" where
  "alloc_example = [\<lparr>alloc_Prefix = Pfx (A4 0x0A000000) 8, alloc_VRFID = 1\<rparr>]"

theorem checkAllocate_correct_witness:
  "checkAllocate alloc_example (Pfx (A4 0x0A010000) 16) 2 = Some errWrongParentVRF \<and>
   (\<exists>g \<in> set alloc_example. \<exists>a. ContainsAddr (alloc_Prefix g) a \<and> ContainsAddr (Pfx (A4 0x0A010000) 16) a)"
proof -
  have "checkAllocate alloc_example (Pfx (A4 0x0A010000) 16) 2 = Some errWrongParentVRF"
    by (simp add: alloc_example_def Overlaps_def mask_top_def mask_eq_exp_minus_1 Let_def)
  moreover have "errDuplicate \<noteq> errWrongParentVRF" by (simp add: errDuplicate_def errWrongParentVRF_def)
  ultimately show ?thesis
    using checkAllocate_correct[of alloc_example "Pfx (A4 0x0A010000) 16" 2]
    by (auto simp: alloc_example_def valid_pfx_def Masked_def mask_top_def mask_eq_exp_minus_1)
qed

text \<open>
  checkAddPool refuses a pool exactly when it is present already; its branch for overlapping but
  not nested pools is never taken, since masked CIDR blocks that overlap are nested.
\<close>

theorem checkAddPool_correct:
  assumes "\<forall>g \<in> set existing. valid_pfx g" and "valid_pfx c"
  shows "checkAddPool existing c = (if c \<in> set existing then Some errPoolDuplicate else None)"
  by (rule checkAddPool_iff[OF assms])

theorem checkAddPool_correct_witness:
  "checkAddPool [Pfx (A4 0x0A000000) 8] (Pfx (A4 0x0A010000) 16) = None \<and>
   checkAddPool [Pfx (A4 0x0A000000) 8] (Pfx (A4 0x0A000000) 8) = Some errPoolDuplicate"
  using checkAddPool_correct[of "[Pfx (A4 0x0A000000) 8]" "Pfx (A4 0x0A010000) 16"]
    checkAddPool_correct[of "[Pfx (A4 0x0A000000) 8]" "Pfx (A4 0x0A000000) 8"]
  by (simp add: valid_pfx_def Masked_def mask_top_def mask_eq_exp_minus_1 del: checkAddPool.simps)

text \<open>
  ContainingPrefix returns a row exactly when some row of the list contains the host (in a VRF of
  the given name if one is given), and the row it returns is one of those and the most specific.
\<close>

theorem ContainingPrefix_correct:
  "case ContainingPrefix rows vrfs host vrfName of
     None \<Rightarrow> \<forall>r \<in> set rows. matchesHost vrfs host (TrimSpace vrfName) r = None
   | Some row \<Rightarrow> row \<in> set rows \<and> (\<exists>p. ParsePrefix (pfx_Prefix row) = Inr p \<and>
        ContainsAddr p (pfx_addr host) \<and>
        (TrimSpace vrfName \<noteq> [] \<longrightarrow> (\<exists>v. vrfs (pfx_VRFID row) = Some v \<and> EqualFold (vrf_Name v) (TrimSpace vrfName))) \<and>
        (\<forall>r \<in> set rows. \<forall>q. matchesHost vrfs host (TrimSpace vrfName) r = Some q \<longrightarrow> Bits q \<le> Bits p))"
proof (cases "ContainingPrefix rows vrfs host vrfName")
  case None
  then show ?thesis
    using containingLoop_spec[where f = "matchesHost vrfs host (TrimSpace vrfName)" and best = None and rows = rows]
    by (simp add: ContainingPrefix_def)
next
  case (Some row)
  then obtain n where "row \<in> set rows" "map_option Bits (matchesHost vrfs host (TrimSpace vrfName) row) = Some n"
    "\<forall>r \<in> set rows. \<forall>p. matchesHost vrfs host (TrimSpace vrfName) r = Some p \<longrightarrow> Bits p \<le> n"
    using containingLoop_spec[where f = "matchesHost vrfs host (TrimSpace vrfName)" and best = None and rows = rows]
    by (auto simp: ContainingPrefix_def)
  then show ?thesis using Some
    by (auto simp: matchesHost_def split: sum.splits if_splits option.splits)
qed

definition row_example :: IpamPrefix where
  "row_example = zeroPrefix\<lparr>pfx_ID := 7, pfx_VRFID := 1, pfx_Prefix := pfx_string (Pfx (A4 0x0A000000) 8)\<rparr>"

theorem ContainingPrefix_correct_witness:
  "ContainingPrefix [row_example] (\<lambda>_. None) (Pfx (A4 0x0A010203) 32) '' '' = Some row_example \<and>
   (\<exists>p. ParsePrefix (pfx_Prefix row_example) = Inr p \<and> ContainsAddr p (A4 0x0A010203))"
proof -
  have v: "valid_pfx (Pfx (A4 0x0A000000) 8)" by (simp add: valid_pfx_def Masked_def mask_top_def mask_eq_exp_minus_1)
  have trim: "TrimSpace '' '' = []" by (simp add: TrimSpace_def TrimLeft_def is_space_def)
  have "ContainingPrefix [row_example] (\<lambda>_. None) (Pfx (A4 0x0A010203) 32) '' '' = Some row_example"
    by (simp add: ContainingPrefix_def trim matchesHost_def row_example_def ParsePrefix_pfx_string[OF v] same_top_def)
  then show ?thesis
    using ContainingPrefix_correct[of "[row_example]" "\<lambda>_. None" "Pfx (A4 0x0A010203) 32" "'' ''"] by auto
qed

end
