(* ===== verification/Ipam_Hosts.thy ===== *)
theory Ipam_Hosts
  imports Ipam_Prefix
begin

text \<open>
  Address arithmetic and the occupancy pages of \<open>internal/ipam/hosts.go\<close>. \<open>addrAdd\<close> is the byte-wise
  addition with carry of the code; it is proved to be addition modulo the address space, which is
  what the paging relies on. The database reads of \<open>PrefixHosts\<close> are in the theory of the store.
\<close>

definition hostPageSize :: nat where
  "hostPageSize = 256"

record HostCell =
  cell_Address :: string
  cell_CIDR :: string
  cell_Allocated :: bool

subsection \<open>Adding to an address\<close>

text \<open>\<open>Addr.AsSlice\<close> and \<open>AddrFromSlice\<close>: big-endian bytes, 4 or 16 of them; a zone is dropped.\<close>

fun AsSlice :: "addr \<Rightarrow> bytes" where
  "AsSlice (A4 w) = put_be 4 (unat w)"
| "AsSlice (A6 w z) = put_be 16 (unat w)"

definition AddrFromSlice :: "bytes \<Rightarrow> addr option" where
  "AddrFromSlice b =
     (if length b = 4 then Some (A4 (of_nat (be_nat b)))
      else if length b = 16 then Some (A6 (of_nat (be_nat b)) [])
      else None)"

text \<open>The loop runs from the last byte; \<open>addCarry\<close> works on the reversed slice.\<close>

fun addCarry :: "64 word \<Rightarrow> bytes \<Rightarrow> bytes" where
  "addCarry carry [] = []"
| "addCarry carry (b # bs) =
     (if carry > 0 then (let sum = ucast b + carry in ucast sum # addCarry (drop_bit 8 sum) bs)
      else b # bs)"

text \<open>\<open>Unmap\<close> changes only IPv4-mapped IPv6 addresses; a 4-byte slice gives an IPv4 address.\<close>

fun Unmap :: "addr \<Rightarrow> addr" where
  "Unmap (A4 w) = A4 w"
| "Unmap (A6 w z) = (if drop_bit 32 w = 0xFFFF then A4 (ucast w) else A6 w z)"

definition addrAdd :: "addr \<Rightarrow> 64 word \<Rightarrow> addr" where
  "addrAdd a n =
     (if n = 0 then a
      else case AddrFromSlice (rev (addCarry n (rev (AsSlice a)))) of
        None \<Rightarrow> a
      | Some out \<Rightarrow> if Is4 a then Unmap out else out)"

lemma addCarry_value:
  assumes "unat n + 255 < 2 ^ 64"
  shows "be_nat (rev (addCarry n bs)) = (be_nat (rev bs) + unat n) mod 256 ^ length bs
    \<and> length (addCarry n bs) = length bs"
  using assms
proof (induction n bs rule: addCarry.induct)
  case (2 n b bs)
  show ?case
  proof (cases "n > 0")
    case False
    then have "n = 0" by (simp add: word_gt_0)
    moreover have "be_nat (rev (b # bs)) < 256 ^ length (rev (b # bs))" by (rule be_nat_less)
    ultimately show ?thesis by simp
  next
    case True
    define s where "s = ucast b + n"
    have b: "unat b \<le> 255" by simp
    have "unat b < 2 ^ 64" by (rule order.strict_trans[OF unat_byte_less]) simp
    then have ub: "unat (ucast b :: 64 word) = unat b" by (simp add: unsigned_ucast_eq take_bit_nat_eq_self_iff)
    have "unat b + unat n < 2 ^ 64" using 2(2) b by linarith
    then have us: "unat s = unat b + unat n"
      unfolding s_def using ub by (subst unat_add_lem[THEN iffD1]) simp_all
    have uc: "unat (drop_bit 8 s) = unat s div 256" by (simp only: unat_drop_bit_eq) (simp add: drop_bit_eq_div)
    have bt: "unat (ucast s :: byte) = unat s mod 256" by (simp add: unsigned_ucast_eq take_bit_eq_mod)
    have "unat (drop_bit 8 s) + 255 < 2 ^ 64" unfolding uc us using 2(2) b by linarith
    note IH = 2(1)[OF True s_def this]
    let ?m = "(256 :: nat) ^ length bs" and ?x = "be_nat (rev bs)"
    have "be_nat (rev (addCarry n (b # bs))) = ((?x + unat s div 256) mod ?m) * 256 + unat s mod 256"
      using True IH by (simp add: Let_def s_def[symmetric] be_nat_append bt uc)
    also have "\<dots> = (?x * 256 + unat s) mod (256 * ?m)"
      by (simp add: mod_mult2_eq mult.commute)
    also have "?x * 256 + unat s = be_nat (rev (b # bs)) + unat n" by (simp add: be_nat_append us)
    finally have "be_nat (rev (addCarry n (b # bs))) = (be_nat (rev (b # bs)) + unat n) mod (256 * ?m)" .
    moreover have "length (addCarry n (b # bs)) = length (b # bs)"
      using True IH by (simp add: Let_def s_def[symmetric])
    ultimately show ?thesis by simp
  qed
qed simp

fun addr_num :: "addr \<Rightarrow> nat" where
  "addr_num (A4 w) = unat w"
| "addr_num (A6 w z) = unat w"

lemma addr_num_less: "addr_num a < 2 ^ BitLen a"
proof (cases a)
  case (A4 w)
  have "unat w < 2 ^ LENGTH(32)" by (rule unsigned_less)
  with A4 show ?thesis by simp
next
  case (A6 w z)
  have "unat w < 2 ^ LENGTH(128)" by (rule unsigned_less)
  with A6 show ?thesis by simp
qed

lemma addr_eqI:
  "BitLen a = BitLen b \<Longrightarrow> \<not> has_zone a \<Longrightarrow> \<not> has_zone b \<Longrightarrow> addr_num a = addr_num b \<Longrightarrow> a = b"
  by (cases a; cases b) (auto simp: word_unat_eq_iff)

lemma be_nat_AsSlice: "be_nat (AsSlice a) = addr_num a" "length (AsSlice a) = BitLen a div 8"
  using addr_num_less[of a] by (cases a; simp add: be_nat_put_be)+

lemma addrAdd_props:
  assumes "unat n + 255 < 2 ^ 64"
  shows "addr_num (addrAdd a n) = (addr_num a + unat n) mod 2 ^ BitLen a"
    and "BitLen (addrAdd a n) = BitLen a"
    and "\<not> has_zone a \<Longrightarrow> \<not> has_zone (addrAdd a n)"
proof -
  define out where "out = rev (addCarry n (rev (AsSlice a)))"
  have "be_nat out = (addr_num a + unat n) mod 256 ^ (BitLen a div 8)" "length out = BitLen a div 8"
    using addCarry_value[OF assms, of "rev (AsSlice a)"] by (simp_all add: out_def be_nat_AsSlice)
  moreover have "addrAdd a n = (if n = 0 then a else case AddrFromSlice out of
      None \<Rightarrow> a | Some out \<Rightarrow> if Is4 a then Unmap out else out)"
    by (simp add: addrAdd_def out_def)
  ultimately have "addr_num (addrAdd a n) = (addr_num a + unat n) mod 2 ^ BitLen a \<and>
    BitLen (addrAdd a n) = BitLen a \<and> (has_zone a \<or> \<not> has_zone (addrAdd a n))"
    using addr_num_less[of a]
    by (cases a; cases "n = 0")
      (simp_all add: AddrFromSlice_def unat_of_nat take_bit_nat_def)
  then show "addr_num (addrAdd a n) = (addr_num a + unat n) mod 2 ^ BitLen a"
    "BitLen (addrAdd a n) = BitLen a" "\<not> has_zone a \<Longrightarrow> \<not> has_zone (addrAdd a n)" by blast+
qed

lemma ContainsAddr_range:
  assumes "valid_pfx p"
  shows "ContainsAddr p a \<longleftrightarrow> BitLen a = BitLen (pfx_addr p) \<and> \<not> has_zone a \<and>
    addr_num (pfx_addr p) \<le> addr_num a \<and>
    addr_num a < addr_num (pfx_addr p) + 2 ^ (BitLen (pfx_addr p) - Bits p)"
  using assms by (cases rule: valid_pfx_cases; cases a) (auto simp: same_top_range)

lemma pfx_end_le:
  "valid_pfx p \<Longrightarrow> addr_num (pfx_addr p) + 2 ^ (BitLen (pfx_addr p) - Bits p) \<le> 2 ^ BitLen (pfx_addr p)"
proof (erule valid_pfx_cases)
  fix w :: "32 word" and b
  assume "p = Pfx (A4 w) b" "mask_top b w = w"
  then show ?thesis using block_end_le[of b w] by simp
next
  fix w :: "128 word" and b
  assume "p = Pfx (A6 w []) b" "mask_top b w = w"
  then show ?thesis using block_end_le[of b w] by simp
qed

lemma valid_no_zone: "valid_pfx p \<Longrightarrow> \<not> has_zone (pfx_addr p)"
  by (erule valid_pfx_cases) auto

subsection \<open>Pages\<close>

text \<open>The geometry of a page: the clamped page number, the page count, the page size in bits.\<close>

definition pageGeometry :: "pfx \<Rightarrow> int \<Rightarrow> string + (nat \<times> nat \<times> nat)" where
  "pageGeometry p page0 =
     (let bitLen = BitLen (pfx_addr p);
          hostBits = bitLen - Bits p;
          pageBits = (if hostBits < 8 then hostBits else 8)
      in if hostBits \<le> pageBits then
           (let pageCount = 1
            in Inr (nat (if page0 < 0 then 0 else if page0 \<ge> int pageCount then int pageCount - 1 else page0),
                 pageCount, pageBits))
         else let shift = hostBits - pageBits
         in if shift > 30 then Inl ''prefix is too large to page; pick a more specific prefix''
         else let pageCount = 2 ^ shift
         in Inr (nat (if page0 < 0 then 0 else if page0 \<ge> int pageCount then int pageCount - 1 else page0),
              pageCount, pageBits))"

definition pageStart :: "pfx \<Rightarrow> nat \<Rightarrow> nat \<Rightarrow> addr" where
  "pageStart p page pageSize = addrAdd (pfx_addr p) (of_nat page * of_nat pageSize)"

definition pagePrefix :: "pfx \<Rightarrow> addr \<Rightarrow> nat \<Rightarrow> pfx" where
  "pagePrefix p start pageBits = Masked (Pfx (withoutZone start) (BitLen (pfx_addr p) - pageBits))"

fun hostCells :: "pfx \<Rightarrow> (addr \<Rightarrow> bool) \<Rightarrow> nat \<Rightarrow> addr \<Rightarrow> HostCell list" where
  "hostCells p taken 0 addr = []"
| "hostCells p taken (Suc n) addr =
     (if \<not> ContainsAddr p addr then []
      else \<lparr>cell_Address = addr_string addr,
            cell_CIDR = addr_string addr @ ''/'' @ Itoa (Bits p),
            cell_Allocated = taken addr\<rparr> # hostCells p taken n (addrAdd addr 1))"

fun markLoop :: "nat \<Rightarrow> pfx \<Rightarrow> pfx \<Rightarrow> addr \<Rightarrow> (addr \<Rightarrow> bool) \<Rightarrow> (addr \<Rightarrow> bool)" where
  "markLoop 0 pagePfx child addr taken = taken"
| "markLoop (Suc n) pagePfx child addr taken =
     (if ContainsAddr pagePfx addr \<and> ContainsAddr child addr
      then markLoop n pagePfx child (addrAdd addr 1) (taken(addr := True))
      else taken)"

definition markPrefixHosts :: "pfx \<Rightarrow> pfx \<Rightarrow> (addr \<Rightarrow> bool) \<Rightarrow> (addr \<Rightarrow> bool)" where
  "markPrefixHosts pagePfx child taken =
     (if ContainsAddr pagePfx (pfx_addr child) then markLoop hostPageSize pagePfx child (pfx_addr child) taken
      else if \<not> ContainsAddr child (pfx_addr pagePfx) then taken
      else markLoop hostPageSize pagePfx child (pfx_addr pagePfx) taken)"

definition parseHostAddr :: "string \<Rightarrow> addr option" where
  "parseHostAddr s0 =
     (let s = TrimSpace s0;
          s = (case IndexByte s (CHR ''/'') of None \<Rightarrow> s | Some i \<Rightarrow> take i s)
      in ParseAddr s)"

text \<open>Walking an interval of addresses one by one.\<close>

definition addr_at :: "addr \<Rightarrow> nat \<Rightarrow> addr" where
  "addr_at a i = ((\<lambda>x. addrAdd x 1) ^^ i) a"

lemma addrAdd_1:
  "addr_num (addrAdd a 1) = (addr_num a + 1) mod 2 ^ BitLen a" "BitLen (addrAdd a 1) = BitLen a"
  "\<not> has_zone a \<Longrightarrow> \<not> has_zone (addrAdd a 1)"
  using addrAdd_props[of 1 a] by simp_all

lemma addr_at_props:
  "addr_num (addr_at a i) = (addr_num a + i) mod 2 ^ BitLen a" "BitLen (addr_at a i) = BitLen a"
  "\<not> has_zone a \<Longrightarrow> \<not> has_zone (addr_at a i)"
proof (induction i)
  case 0
  { case 1 then show ?case using addr_num_less[of a] by (simp add: addr_at_def) }
  { case 2 then show ?case by (simp add: addr_at_def) }
  { case 3 then show ?case by (simp add: addr_at_def) }
next
  case (Suc i)
  { case 1 then show ?case using Suc(1,2) addrAdd_1[of "addr_at a i"] by (simp add: addr_at_def mod_Suc_eq) }
  { case 2 then show ?case using Suc(2) addrAdd_1[of "addr_at a i"] by (simp add: addr_at_def) }
  { case 3 then show ?case using Suc(3) addrAdd_1[of "addr_at a i"] by (simp add: addr_at_def) }
qed

lemma addr_at_0 [simp]: "addr_at a 0 = a"
  by (simp add: addr_at_def)

lemma addr_at_Suc: "addr_at a (Suc i) = addr_at (addrAdd a 1) i"
  by (simp add: addr_at_def funpow_Suc_right del: funpow.simps)

lemma hostCells_full:
  assumes "\<forall>i < n. ContainsAddr p (addr_at a i)"
  shows "hostCells p taken n a =
    map (\<lambda>i. \<lparr>cell_Address = addr_string (addr_at a i),
              cell_CIDR = addr_string (addr_at a i) @ ''/'' @ Itoa (Bits p),
              cell_Allocated = taken (addr_at a i)\<rparr>) [0..<n]"
  using assms
proof (induction n arbitrary: a)
  case (Suc n)
  have "\<forall>i < n. ContainsAddr p (addr_at (addrAdd a 1) i)" using Suc.prems by (auto simp: addr_at_Suc[symmetric])
  from Suc.IH[OF this] show ?case
    using Suc.prems[rule_format, of 0]
    by (simp add: addr_at_Suc[symmetric] upt_conv_Cons[of 0] map_Suc_upt[symmetric] comp_def del: upt_Suc)
qed simp

lemma markLoop_full:
  assumes "\<forall>i < m. ContainsAddr pg (addr_at a i) \<and> ContainsAddr c (addr_at a i)"
    and "m \<le> n" and "m < n \<longrightarrow> \<not> (ContainsAddr pg (addr_at a m) \<and> ContainsAddr c (addr_at a m))"
  shows "markLoop n pg c a taken = (\<lambda>x. taken x \<or> (\<exists>i < m. x = addr_at a i))"
  using assms
proof (induction n arbitrary: a m taken)
  case (Suc n)
  show ?case
  proof (cases m)
    case 0
    with Suc.prems show ?thesis by auto
  next
    case (Suc k)
    have "markLoop n pg c (addrAdd a 1) (taken(a := True)) =
      (\<lambda>x. (taken(a := True)) x \<or> (\<exists>i < k. x = addr_at (addrAdd a 1) i))"
      using Suc.prems Suc by (intro Suc.IH) (auto simp: addr_at_Suc[symmetric])
    also have "\<dots> = (\<lambda>x. taken x \<or> (\<exists>i < m. x = addr_at a i))"
      using Suc by (auto simp: addr_at_Suc[symmetric] less_Suc_eq_0_disj fun_eq_iff)
    finally show ?thesis using Suc.prems(1)[rule_format, of 0] Suc by simp
  qed
qed auto

text \<open>The addresses of a block are reached from its first one, and the next one is outside.\<close>

lemma block_walk:
  assumes "valid_pfx q"
  defines "m \<equiv> 2 ^ (BitLen (pfx_addr q) - Bits q)"
  shows "ContainsAddr q x \<longleftrightarrow> (\<exists>i < m. x = addr_at (pfx_addr q) i)"
    and "0 < Bits q \<Longrightarrow> \<not> ContainsAddr q (addr_at (pfx_addr q) m)"
proof -
  let ?a = "pfx_addr q"
  have z: "\<not> has_zone ?a" by (rule valid_no_zone[OF assms(1)])
  have le: "addr_num ?a + m \<le> 2 ^ BitLen ?a" unfolding m_def by (rule pfx_end_le[OF assms(1)])
  have num: "addr_num (addr_at ?a i) = addr_num ?a + i" if "i < m" for i
    using that le by (simp add: addr_at_props)
  note range = ContainsAddr_range[OF assms(1), folded m_def]
  show "ContainsAddr q x \<longleftrightarrow> (\<exists>i < m. x = addr_at ?a i)"
  proof
    assume x: "ContainsAddr q x"
    then have i: "addr_num x - addr_num ?a < m" by (auto simp: range)
    have "x = addr_at ?a (addr_num x - addr_num ?a)"
      using x z num[OF i] by (intro addr_eqI) (auto simp: range addr_at_props)
    with i show "\<exists>i < m. x = addr_at ?a i" by blast
  next
    assume "\<exists>i < m. x = addr_at ?a i"
    then show "ContainsAddr q x" using z num by (auto simp: range addr_at_props)
  qed
  show "\<not> ContainsAddr q (addr_at ?a m)" if "0 < Bits q"
  proof
    assume "ContainsAddr q (addr_at ?a m)"
    then have r: "addr_num ?a \<le> (addr_num ?a + m) mod 2 ^ BitLen ?a" "(addr_num ?a + m) mod 2 ^ BitLen ?a < addr_num ?a + m"
      by (auto simp: range addr_at_props)
    then have "addr_num ?a + m = 2 ^ BitLen ?a" using le by (cases "addr_num ?a + m = 2 ^ BitLen ?a") auto
    with r(1) have "m = 2 ^ BitLen ?a" by simp
    moreover have "BitLen ?a - Bits q < BitLen ?a" using that by (cases ?a) auto
    ultimately show False by (simp add: m_def)
  qed
qed

lemma markLoop_block:
  assumes "valid_pfx q" and "0 < Bits q" and "2 ^ (BitLen (pfx_addr q) - Bits q) \<le> n"
    and "\<forall>x. ContainsAddr q x \<longleftrightarrow> ContainsAddr pg x \<and> ContainsAddr c x"
  shows "markLoop n pg c (pfx_addr q) taken = (\<lambda>x. taken x \<or> ContainsAddr pg x \<and> ContainsAddr c x)"
proof -
  have "markLoop n pg c (pfx_addr q) taken =
    (\<lambda>x. taken x \<or> (\<exists>i < 2 ^ (BitLen (pfx_addr q) - Bits q). x = addr_at (pfx_addr q) i))"
    by (rule markLoop_full) (use assms block_walk[OF assms(1)] in blast)+
  then show ?thesis using assms(4) by (simp add: block_walk(1)[OF assms(1), symmetric])
qed

text \<open>
  markPrefixHosts marks exactly the addresses that the page and the child prefix share, for every
  page of at most 256 addresses, and leaves the other marks as they were.
\<close>

theorem markPrefixHosts_correct:
  assumes "valid_pfx pg" and "valid_pfx c" and "BitLen (pfx_addr pg) - Bits pg \<le> 8"
  shows "markPrefixHosts pg c taken x = (taken x \<or> ContainsAddr pg x \<and> ContainsAddr c x)"
proof -
  have len: "32 \<le> BitLen (pfx_addr pg)" by (cases "pfx_addr pg") auto
  have pg_in: "ContainsAddr pg (pfx_addr pg)" and c_in: "ContainsAddr c (pfx_addr c)"
    using assms pfx_addr_in by blast+
  have size: "2 ^ (BitLen (pfx_addr pg) - Bits pg) \<le> hostPageSize" "0 < Bits pg"
    using power_increasing[OF assms(3), of "2::nat"] assms(3) len by (auto simp: hostPageSize_def)
  consider "addrs_of pg \<inter> addrs_of c = {}" | "addrs_of c \<subseteq> addrs_of pg" | "addrs_of pg \<subseteq> addrs_of c"
    using cidr.nested[OF assms(1,2)] by blast
  then show ?thesis
  proof cases
    case 1
    then show ?thesis using pg_in c_in by (auto simp: markPrefixHosts_def addrs_of_def)
  next
    case 2
    then have "containsPrefix pg c" using containsPrefix_subset[OF assms(1,2)] by simp
    then have "Bits pg \<le> Bits c" "BitLen (pfx_addr c) = BitLen (pfx_addr pg)"
      by (auto simp: containsPrefix_def split: if_splits)
    then have "BitLen (pfx_addr c) - Bits c \<le> 8" "0 < Bits c" using assms(3) size(2) by linarith+
    then have "2 ^ (BitLen (pfx_addr c) - Bits c) \<le> hostPageSize" "0 < Bits c"
      using power_increasing[of "BitLen (pfx_addr c) - Bits c" 8 "2::nat"] by (auto simp: hostPageSize_def)
    moreover have "ContainsAddr pg (pfx_addr c)" using 2 c_in by (auto simp: addrs_of_def)
    moreover have "\<forall>x. ContainsAddr c x \<longleftrightarrow> ContainsAddr pg x \<and> ContainsAddr c x" using 2 by (auto simp: addrs_of_def)
    ultimately show ?thesis using markLoop_block[OF assms(2), of hostPageSize pg c taken]
      by (simp add: markPrefixHosts_def)
  next
    case 3
    have start: "pfx_addr c = pfx_addr pg" if "ContainsAddr pg (pfx_addr c)"
      using that 3 pg_in ContainsAddr_range[OF assms(1)] ContainsAddr_range[OF assms(2)] valid_no_zone[OF assms(1)]
      by (intro addr_eqI) (auto simp: addrs_of_def intro!: antisym)
    have "ContainsAddr c (pfx_addr pg)" using 3 pg_in by (auto simp: addrs_of_def)
    moreover have "\<forall>x. ContainsAddr pg x \<longleftrightarrow> ContainsAddr pg x \<and> ContainsAddr c x" using 3 by (auto simp: addrs_of_def)
    ultimately show ?thesis using start size markLoop_block[OF assms(1), of hostPageSize pg c taken]
      by (cases "ContainsAddr pg (pfx_addr c)") (simp_all add: markPrefixHosts_def)
  qed
qed

theorem markPrefixHosts_correct_witness:
  "markPrefixHosts (Pfx (A4 0x0A000100) 24) (Pfx (A4 0x0A000000) 16) (\<lambda>_. False) (A4 0x0A000107) \<and>
   \<not> markPrefixHosts (Pfx (A4 0x0A000100) 24) (Pfx (A4 0x0A000000) 16) (\<lambda>_. False) (A4 0x0A000207)"
proof -
  have v: "valid_pfx (Pfx (A4 0x0A000100) 24)" "valid_pfx (Pfx (A4 0x0A000000) 16)"
    by (simp_all add: valid_pfx_def Masked_def mask_top_def mask_eq_exp_minus_1)
  show ?thesis
    using markPrefixHosts_correct[OF v, of "\<lambda>_. False" "A4 0x0A000107"]
      markPrefixHosts_correct[OF v, of "\<lambda>_. False" "A4 0x0A000207"]
    by (simp add: same_top_def)
qed

lemma pageGeometry_bounds:
  assumes "pageGeometry p k = Inr (page, count, bits)" and "valid_pfx p"
  shows "page < count" "count * 2 ^ bits = 2 ^ (BitLen (pfx_addr p) - Bits p)" "bits \<le> 8" "count \<le> 2 ^ 30"
    "0 \<le> k \<and> k < int count \<Longrightarrow> page = nat k"
proof -
  let ?h = "BitLen (pfx_addr p) - Bits p"
  have "(2::nat) ^ (?h - 8) * 2 ^ 8 = 2 ^ ?h" if "8 \<le> ?h" using that by (simp only: power_add[symmetric]) simp
  then have pw: "(2::nat) ^ (?h - 8) * 256 = 2 ^ ?h" if "\<not> ?h \<le> 8" using that by simp
  have le: "(2::nat) ^ (?h - 8) \<le> 2 ^ 30" if "\<not> 30 < ?h - 8" using that by (intro power_increasing) auto
  show "page < count" "count * 2 ^ bits = 2 ^ ?h" "bits \<le> 8" "count \<le> 2 ^ 30"
    "0 \<le> k \<and> k < int count \<Longrightarrow> page = nat k"
    using assms(1) pw le by (auto simp: pageGeometry_def Let_def nat_diff_distrib nat_power_eq split: if_splits)
qed

lemma pageStart_props:
  assumes "valid_pfx p" and "pageGeometry p k = Inr (page, count, bits)"
  shows "addr_num (pageStart p page (2 ^ bits)) = addr_num (pfx_addr p) + page * 2 ^ bits"
    and "BitLen (pageStart p page (2 ^ bits)) = BitLen (pfx_addr p)"
    and "\<not> has_zone (pageStart p page (2 ^ bits))"
    and "addr_num (pfx_addr p) + page * 2 ^ bits + 2 ^ bits \<le> addr_num (pfx_addr p) + 2 ^ (BitLen (pfx_addr p) - Bits p)"
proof -
  note g = pageGeometry_bounds[OF assms(2,1)]
  define N :: nat where "N = page * 2 ^ bits"
  have "(page + 1) * 2 ^ bits \<le> count * 2 ^ bits" using g(1) by (intro mult_right_mono) auto
  then show le: "addr_num (pfx_addr p) + page * 2 ^ bits + 2 ^ bits \<le> addr_num (pfx_addr p) + 2 ^ (BitLen (pfx_addr p) - Bits p)"
    by (simp add: g(2))
  have "(2::nat) ^ bits \<le> 2 ^ 8" using g(3) by (intro power_increasing) auto
  then have "N \<le> 2 ^ 30 * 2 ^ 8" unfolding N_def using g(1,4) by (intro mult_mono) auto
  then have N: "N < 2 ^ 38 + 1" by (simp add: power_add[symmetric])
  have "unat (of_nat N :: 64 word) = N mod 2 ^ 64" by (simp add: unat_of_nat take_bit_eq_mod)
  then have uN: "unat (of_nat page * of_nat (2 ^ bits) :: 64 word) = N"
    using N by (simp only: N_def of_nat_mult[symmetric]) simp
  have small: "unat (of_nat page * of_nat (2 ^ bits) :: 64 word) + 255 < 2 ^ 64" using N uN by simp
  have "0 < (2::nat) ^ bits" by simp
  then have "addr_num (pfx_addr p) + N < 2 ^ BitLen (pfx_addr p)"
    using le pfx_end_le[OF assms(1)] unfolding N_def by linarith
  then show "addr_num (pageStart p page (2 ^ bits)) = addr_num (pfx_addr p) + page * 2 ^ bits"
    using addrAdd_props(1)[OF small, of "pfx_addr p"] uN by (simp add: pageStart_def N_def)
  show "BitLen (pageStart p page (2 ^ bits)) = BitLen (pfx_addr p)"
    using addrAdd_props(2)[OF small] by (simp add: pageStart_def)
  show "\<not> has_zone (pageStart p page (2 ^ bits))"
    using addrAdd_props(3)[OF small valid_no_zone[OF assms(1)]] by (simp add: pageStart_def)
qed

text \<open>
  A page of a prefix lists, in order and without gaps, the addresses from its first one on, all
  inside the prefix and as many as the page size; page k starts k page sizes into the prefix, so the
  pages together list every address of the prefix once.
\<close>

theorem host_page_correct:
  assumes "valid_pfx p" and "pageGeometry p k = Inr (page, count, bits)"
  shows "page < count \<and> count * 2 ^ bits = 2 ^ (BitLen (pfx_addr p) - Bits p) \<and>
    (\<exists>addrs. length addrs = 2 ^ bits \<and>
       hostCells p taken (2 ^ bits) (pageStart p page (2 ^ bits)) =
         map (\<lambda>a. \<lparr>cell_Address = addr_string a, cell_CIDR = addr_string a @ ''/'' @ Itoa (Bits p),
                   cell_Allocated = taken a\<rparr>) addrs \<and>
       (\<forall>i < 2 ^ bits. ContainsAddr p (addrs ! i) \<and>
          addr_num (addrs ! i) = addr_num (pfx_addr p) + page * 2 ^ bits + i))"
proof -
  let ?s = "pageStart p page (2 ^ bits)"
  note st = pageStart_props[OF assms]
  have num: "addr_num (addr_at ?s i) = addr_num (pfx_addr p) + page * 2 ^ bits + i \<and> ContainsAddr p (addr_at ?s i)"
    if "i < 2 ^ bits" for i
  proof -
    have "addr_num (pfx_addr p) + page * 2 ^ bits + i < addr_num (pfx_addr p) + 2 ^ (BitLen (pfx_addr p) - Bits p)"
      using that st(4) by linarith
    then have "addr_num (addr_at ?s i) = addr_num (pfx_addr p) + page * 2 ^ bits + i"
      using pfx_end_le[OF assms(1)] by (simp add: addr_at_props st)
    with st that show ?thesis by (auto simp: ContainsAddr_range[OF assms(1)] addr_at_props)
  qed
  then have cells: "hostCells p taken (2 ^ bits) ?s = map (\<lambda>a. \<lparr>cell_Address = addr_string a,
      cell_CIDR = addr_string a @ ''/'' @ Itoa (Bits p), cell_Allocated = taken a\<rparr>) (map (addr_at ?s) [0..<2 ^ bits])"
    by (subst hostCells_full) auto
  show ?thesis
    using num pageGeometry_bounds(1,2)[OF assms(2,1)] cells
    by (intro conjI exI[of _ "map (addr_at ?s) [0..<2 ^ bits]"]) auto
qed

theorem host_page_correct_witness:
  "\<exists>addrs. hostCells (Pfx (A4 0x0A000000) 23) (\<lambda>_. False) 256 (pageStart (Pfx (A4 0x0A000000) 23) 1 256) =
     map (\<lambda>a. \<lparr>cell_Address = addr_string a, cell_CIDR = addr_string a @ ''/23'', cell_Allocated = False\<rparr>) addrs
   \<and> addr_num (addrs ! 5) = 0x0A000105"
proof -
  have v: "valid_pfx (Pfx (A4 0x0A000000) 23)"
    by (simp add: valid_pfx_def Masked_def mask_top_def mask_eq_exp_minus_1)
  have g: "pageGeometry (Pfx (A4 0x0A000000) 23) 9 = Inr (1, 2, 8)" by (simp add: pageGeometry_def Let_def)
  have "Itoa 23 = ''23''" by code_simp
  with host_page_correct[OF v g, of "\<lambda>_. False"] show ?thesis by fastforce
qed

end
