(* ===== verification/Ipam_Dhcp.thy ===== *)
theory Ipam_Dhcp
  imports Ipam_Hosts
begin

text \<open>
  The DHCP settings of an allocated prefix, \<open>internal/ipam/dhcp.go\<close>: normalisation, validation against
  the prefix, and the default gateway. An error is its text.
\<close>

record PrefixDHCP =
  dhcp_Enabled :: bool
  dhcp_RangeStart :: string
  dhcp_RangeEnd :: string
  dhcp_Gateway :: string
  dhcp_DnsServers :: string

definition dhcpFromRow :: "IpamPrefix \<Rightarrow> PrefixDHCP" where
  "dhcpFromRow row = \<lparr>dhcp_Enabled = pfx_DhcpEnabled row, dhcp_RangeStart = pfx_DhcpRangeStart row,
     dhcp_RangeEnd = pfx_DhcpRangeEnd row, dhcp_Gateway = pfx_DhcpGateway row,
     dhcp_DnsServers = pfx_DhcpDnsServers row\<rparr>"

definition dhcpNormalized :: "PrefixDHCP \<Rightarrow> PrefixDHCP" where
  "dhcpNormalized d = d\<lparr>dhcp_RangeStart := TrimSpace (dhcp_RangeStart d),
     dhcp_RangeEnd := TrimSpace (dhcp_RangeEnd d), dhcp_Gateway := TrimSpace (dhcp_Gateway d),
     dhcp_DnsServers := TrimSpace (dhcp_DnsServers d)\<rparr>"

definition parseAddrInPrefix :: "string \<Rightarrow> pfx \<Rightarrow> string \<Rightarrow> string + addr" where
  "parseAddrInPrefix raw prefix what =
     (case ParseAddr (TrimSpace raw) of
        None \<Rightarrow> Inl (what @ '' is not an IP address'')
      | Some addr \<Rightarrow>
          if BitLen addr \<noteq> BitLen (pfx_addr prefix) then
            Inl (what @ '' address family does not match the prefix'')
          else if \<not> ContainsAddr prefix addr then
            Inl (what @ '' '' @ addr_string addr @ '' is outside the prefix'')
          else Inr addr)"

definition SplitLines :: "string \<Rightarrow> string list" where
  "SplitLines s = filter (\<lambda>l. l \<noteq> []) (map TrimSpace (Split s (CHR 0x0A)))"

fun checkDnsServers :: "string list \<Rightarrow> string + unit" where
  "checkDnsServers [] = Inr ()"
| "checkDnsServers (s # ss) =
     (case ParseAddr s of
        None \<Rightarrow> Inl (''DHCP DNS server '' @ Quote s @ '' is not an IP address'')
      | Some _ \<Rightarrow> checkDnsServers ss)"

definition dhcpValidate :: "PrefixDHCP \<Rightarrow> string \<Rightarrow> string + unit" where
  "dhcpValidate d prefixStr =
     res_bind (ParsePrefix prefixStr) (\<lambda>prefix.
     let startSet = dhcp_RangeStart d \<noteq> []; endSet = dhcp_RangeEnd d \<noteq> [] in
     if startSet \<noteq> endSet then Inl ''DHCP range needs both a start and an end address'' else
     res_bind
       (if startSet then
          res_bind (parseAddrInPrefix (dhcp_RangeStart d) prefix ''DHCP range start'') (\<lambda>start.
          res_bind (parseAddrInPrefix (dhcp_RangeEnd d) prefix ''DHCP range end'') (\<lambda>stop.
          if \<not> addr_le start stop then Inl ''DHCP range start is after end'' else Inr ()))
        else Inr ()) (\<lambda>_.
     res_bind
       (if dhcp_Gateway d \<noteq> [] then
          res_bind (parseAddrInPrefix (dhcp_Gateway d) prefix ''DHCP gateway'') (\<lambda>_. Inr ())
        else Inr ()) (\<lambda>_.
     checkDnsServers (SplitLines (dhcp_DnsServers d)))))"

definition storeDHCP :: "IpamPrefix \<Rightarrow> PrefixDHCP \<Rightarrow> IpamPrefix" where
  "storeDHCP row d = row\<lparr>pfx_DhcpEnabled := dhcp_Enabled d, pfx_DhcpRangeStart := dhcp_RangeStart d,
     pfx_DhcpRangeEnd := dhcp_RangeEnd d, pfx_DhcpGateway := dhcp_Gateway d,
     pfx_DhcpDnsServers := dhcp_DnsServers d\<rparr>"

text \<open>\<open>applyDHCP\<close> wraps the text of a validation error in a 400 status error; see the store.\<close>

definition applyDHCP :: "IpamPrefix \<Rightarrow> PrefixDHCP \<Rightarrow> (nat \<times> string) + IpamPrefix" where
  "applyDHCP row dhcp =
     (let d = dhcpNormalized dhcp
      in case dhcpValidate d (pfx_Prefix row) of
           Inl e \<Rightarrow> Inl (400, e)
         | Inr _ \<Rightarrow> Inr (storeDHCP row d))"

text \<open>\<open>Addr.Next\<close> of the last address is the invalid zero value, here \<open>None\<close>.\<close>

definition DefaultGateway :: "pfx \<Rightarrow> addr option" where
  "DefaultGateway prefix =
     (if Is4 (pfx_addr prefix) \<and> Bits prefix \<le> 30 then Next (pfx_addr prefix)
      else if \<not> Is4 (pfx_addr prefix) \<and> Bits prefix \<le> 126 then Next (pfx_addr prefix)
      else Some (pfx_addr prefix))"

subsection \<open>What a stored configuration satisfies\<close>

lemma checkDnsServers_ok: "checkDnsServers ss = Inr u \<longleftrightarrow> (\<forall>s \<in> set ss. ParseAddr s \<noteq> None)"
  by (induction ss) (auto split: option.splits)

lemma parseAddrInPrefix_Inr:
  "parseAddrInPrefix raw p what = Inr a \<longleftrightarrow> ParseAddr (TrimSpace raw) = Some a \<and> ContainsAddr p a"
proof -
  have "BitLen a = BitLen (pfx_addr p)" if "ContainsAddr p a" for a
    using that by (cases p; cases "pfx_addr p"; cases a) auto
  then show ?thesis by (auto simp: parseAddrInPrefix_def split: option.splits)
qed

definition in_prefix :: "pfx \<Rightarrow> string \<Rightarrow> addr \<Rightarrow> bool" where
  "in_prefix p s a \<longleftrightarrow> ParseAddr (TrimSpace s) = Some a \<and> ContainsAddr p a"

lemma dhcpValidate_iff:
  "dhcpValidate d s = Inr () \<longleftrightarrow>
    (\<exists>p. ParsePrefix s = Inr p
     \<and> (dhcp_RangeStart d = [] \<and> dhcp_RangeEnd d = [] \<or>
        dhcp_RangeStart d \<noteq> [] \<and> dhcp_RangeEnd d \<noteq> [] \<and>
        (\<exists>a b. in_prefix p (dhcp_RangeStart d) a \<and> in_prefix p (dhcp_RangeEnd d) b \<and> addr_le a b))
     \<and> (dhcp_Gateway d = [] \<or> (\<exists>a. in_prefix p (dhcp_Gateway d) a))
     \<and> (\<forall>l \<in> set (SplitLines (dhcp_DnsServers d)). ParseAddr l \<noteq> None))"
proof (cases "ParsePrefix s")
  case (Inr p)
  have r: "(\<exists>a. parseAddrInPrefix raw p what = Inr a) \<longleftrightarrow> (\<exists>a. in_prefix p raw a)" for raw what
    by (simp add: parseAddrInPrefix_Inr in_prefix_def)
  show ?thesis
    by (auto simp: dhcpValidate_def Inr Let_def res_bind_eq_Inr checkDnsServers_ok
        parseAddrInPrefix_Inr in_prefix_def)
qed (simp add: dhcpValidate_def)

text \<open>
  DHCP settings are stored on a row exactly when they are consistent with its prefix: both or
  neither range end, each inside the prefix and in order, a gateway inside the prefix, and only
  addresses as DNS servers; every other column keeps its value, and an error is a 400.
\<close>

theorem applyDHCP_correct:
  "case applyDHCP row dhcp of
     Inl (status, _) \<Rightarrow> status = 400 \<and> dhcpValidate (dhcpNormalized dhcp) (pfx_Prefix row) \<noteq> Inr ()
   | Inr row' \<Rightarrow> dhcpFromRow row' = dhcpNormalized dhcp \<and> storeDHCP row' (dhcpFromRow row) = row \<and>
       (\<exists>p. ParsePrefix (pfx_Prefix row') = Inr p
         \<and> (pfx_DhcpRangeStart row' = [] \<and> pfx_DhcpRangeEnd row' = [] \<or>
            (\<exists>a b. in_prefix p (pfx_DhcpRangeStart row') a \<and> in_prefix p (pfx_DhcpRangeEnd row') b \<and> addr_le a b))
         \<and> (pfx_DhcpGateway row' = [] \<or> (\<exists>a. in_prefix p (pfx_DhcpGateway row') a))
         \<and> (\<forall>l \<in> set (SplitLines (pfx_DhcpDnsServers row')). ParseAddr l \<noteq> None))"
proof (cases "dhcpValidate (dhcpNormalized dhcp) (pfx_Prefix row)")
  case (Inl e)
  then show ?thesis by (simp add: applyDHCP_def Let_def)
next
  case (Inr u)
  then show ?thesis
    using dhcpValidate_iff[of "dhcpNormalized dhcp" "pfx_Prefix row"]
    by (auto simp: applyDHCP_def Let_def storeDHCP_def dhcpFromRow_def)
qed

definition dhcp_example :: PrefixDHCP where
  "dhcp_example = \<lparr>dhcp_Enabled = True, dhcp_RangeStart = [], dhcp_RangeEnd = [], dhcp_Gateway = '' '',
     dhcp_DnsServers = []\<rparr>"

theorem applyDHCP_correct_witness:
  "\<exists>row'. applyDHCP row_example dhcp_example = Inr row' \<and> pfx_DhcpEnabled row' \<and> pfx_DhcpGateway row' = []"
proof -
  have v: "valid_pfx (Pfx (A4 0x0A000000) 8)"
    by (simp add: valid_pfx_def Masked_def mask_top_def mask_eq_exp_minus_1)
  have trim: "TrimSpace '' '' = []" by (simp add: TrimSpace_def TrimLeft_def is_space_def)
  have "dhcpValidate (dhcpNormalized dhcp_example) (pfx_Prefix row_example) = Inr ()"
    by (simp add: dhcpValidate_def row_example_def ParsePrefix_pfx_string[OF v] dhcpNormalized_def
        dhcp_example_def trim SplitLines_def)
  then obtain row' where r: "applyDHCP row_example dhcp_example = Inr row'" by (simp add: applyDHCP_def Let_def)
  have "dhcpFromRow row' = dhcpNormalized dhcp_example"
    using applyDHCP_correct[of dhcp_example row_example] r by auto
  then show ?thesis using r by (simp add: dhcpFromRow_def dhcpNormalized_def dhcp_example_def trim)
qed

lemma word_next:
  assumes "unat w + 1 < 2 ^ LENGTH('a)"
  shows "w \<noteq> - 1" "unat (w + 1) = unat (w :: 'a::len word) + 1"
proof -
  show u: "unat (w + 1) = unat w + 1" using assms by (subst unat_add_lem[THEN iffD1]) simp_all
  show "w \<noteq> - 1" using u by auto
qed

lemma Next_props:
  assumes "addr_num a + 1 < 2 ^ BitLen a"
  shows "\<exists>g. Next a = Some g \<and> addr_num g = addr_num a + 1 \<and> BitLen g = BitLen a \<and> has_zone g = has_zone a"
proof (cases a)
  case (A4 w)
  with assms show ?thesis using word_next[of w] by simp
next
  case (A6 w z)
  with assms show ?thesis using word_next[of w] by simp
qed

text \<open>
  The default gateway is always an address of the prefix; where the prefix has at least four
  addresses it is the one after the network address, so neither the first nor the last.
\<close>

theorem DefaultGateway_correct:
  assumes "valid_pfx p"
  shows "\<exists>g. DefaultGateway p = Some g \<and> ContainsAddr p g \<and>
    (if Bits p + 2 \<le> BitLen (pfx_addr p)
     then addr_num g = addr_num (pfx_addr p) + 1 \<and> addr_num g + 1 < addr_num (pfx_addr p) + 2 ^ (BitLen (pfx_addr p) - Bits p)
     else g = pfx_addr p)"
proof (cases "Bits p + 2 \<le> BitLen (pfx_addr p)")
  case False
  then have "DefaultGateway p = Some (pfx_addr p)" by (cases "pfx_addr p") (auto simp: DefaultGateway_def)
  with False show ?thesis using pfx_addr_in[OF assms] by auto
next
  case True
  then have gw: "DefaultGateway p = Next (pfx_addr p)" by (cases "pfx_addr p") (auto simp: DefaultGateway_def)
  have "(2::nat) ^ 2 \<le> 2 ^ (BitLen (pfx_addr p) - Bits p)" using True by (intro power_increasing) auto
  then have four: "4 \<le> (2::nat) ^ (BitLen (pfx_addr p) - Bits p)" by simp
  with pfx_end_le[OF assms] have lt: "addr_num (pfx_addr p) + 1 < 2 ^ BitLen (pfx_addr p)" by linarith
  have "\<exists>g. Next (pfx_addr p) = Some g \<and> addr_num g = addr_num (pfx_addr p) + 1 \<and>
      BitLen g = BitLen (pfx_addr p) \<and> \<not> has_zone g"
    using Next_props[OF lt] valid_no_zone[OF assms] by simp
  then obtain g where "Next (pfx_addr p) = Some g" "addr_num g = addr_num (pfx_addr p) + 1"
    "BitLen g = BitLen (pfx_addr p)" "\<not> has_zone g" by blast
  then show ?thesis using gw True four by (auto simp: ContainsAddr_range[OF assms])
qed

theorem DefaultGateway_correct_witness:
  "DefaultGateway (Pfx (A4 0x0A000000) 8) = Some (A4 0x0A000001) \<and>
   ContainsAddr (Pfx (A4 0x0A000000) 8) (A4 0x0A000001)"
proof -
  have v: "valid_pfx (Pfx (A4 0x0A000000) 8)"
    by (simp add: valid_pfx_def Masked_def mask_top_def mask_eq_exp_minus_1)
  have "DefaultGateway (Pfx (A4 0x0A000000) 8) = Some (A4 0x0A000001)" by (simp add: DefaultGateway_def)
  with DefaultGateway_correct[OF v] show ?thesis by auto
qed

end
