(* ===== verification/Go_Db.thy ===== *)
theory Go_Db
  imports Go_Strings
begin

text \<open>
  Database access as the sources use it through GORM. A handler is a function on a state that holds
  the tables and a schedule of what happens to the statements to come: a statement may run, may be
  lost before it runs, or may run without its answer arriving. Every result about a handler holds for
  every schedule. A transaction that fails leaves the tables as they were, but for the id sequences,
  which a database does not roll back. Statements of other clients are not interleaved.

  The locale \<open>db_invariant\<close> collects the rules with which an invariant of the tables is shown to be
  kept by a handler whatever the schedule.
\<close>

datatype go_error = RecordNotFound | DbErr string | PlainErr string | StatusErr nat string | ReasonErr nat string string

fun errText :: "go_error \<Rightarrow> string" where
  "errText RecordNotFound = ''record not found''"
| "errText (DbErr s) = s"
| "errText (PlainErr s) = s"
| "errText (StatusErr n s) = s"
| "errText (ReasonErr n r s) = s"

datatype event = Runs | Lost string | Unacked string

type_synonym 'db dbst = "'db \<times> event list"

type_synonym ('db, 'a) dbm = "'db dbst \<Rightarrow> (go_error + 'a) \<times> 'db dbst"

definition dret :: "'a \<Rightarrow> ('db, 'a) dbm" where
  "dret a s = (Inr a, s)"

definition dfail :: "go_error \<Rightarrow> ('db, 'a) dbm" where
  "dfail e s = (Inl e, s)"

text \<open>\<open>dcase m f\<close> runs \<open>m\<close> and hands its result, error or value, to \<open>f\<close>, as code that inspects \<open>err\<close> does.\<close>

definition dcase :: "('db, 'a) dbm \<Rightarrow> (go_error + 'a \<Rightarrow> ('db, 'b) dbm) \<Rightarrow> ('db, 'b) dbm" where
  "dcase m f s = (case m s of (r, s') \<Rightarrow> f r s')"

definition dbind :: "('db, 'a) dbm \<Rightarrow> ('a \<Rightarrow> ('db, 'b) dbm) \<Rightarrow> ('db, 'b) dbm" where
  "dbind m f = dcase m (\<lambda>r. case r of Inl e \<Rightarrow> dfail e | Inr a \<Rightarrow> f a)"

definition dguard :: "bool \<Rightarrow> go_error \<Rightarrow> ('db, unit) dbm" where
  "dguard ok e = (if ok then dret () else dfail e)"

definition dres :: "go_error + 'a \<Rightarrow> ('db, 'a) dbm" where
  "dres r = (case r of Inl e \<Rightarrow> dfail e | Inr a \<Rightarrow> dret a)"

definition stmt :: "('db \<Rightarrow> (go_error + 'a) \<times> 'db) \<Rightarrow> ('db, 'a) dbm" where
  "stmt f s = (case s of (db, evs) \<Rightarrow>
     (case evs of
        Lost msg # evs' \<Rightarrow> (Inl (DbErr msg), (db, evs'))
      | Unacked msg # evs' \<Rightarrow> (Inl (DbErr msg), (snd (f db), evs'))
      | _ \<Rightarrow> (fst (f db), (snd (f db), tl evs))))"

definition query :: "('db \<Rightarrow> 'a) \<Rightarrow> ('db, 'a) dbm" where
  "query f = stmt (\<lambda>db. (Inr (f db), db))"

definition transaction :: "('db \<Rightarrow> 'db \<Rightarrow> 'db) \<Rightarrow> ('db, 'a) dbm \<Rightarrow> ('db, 'a) dbm" where
  "transaction rollback m s =
     (case stmt (\<lambda>db. (Inr (), db)) s of
        (Inl e, s1) \<Rightarrow> (Inl e, s1)
      | (Inr _, (db, evs)) \<Rightarrow>
          (case m (db, evs) of
             (Inl e, (db', evs')) \<Rightarrow> (Inl e, (rollback db db', evs'))
           | (Inr a, (db', evs')) \<Rightarrow>
               (case evs' of
                  Lost msg # evs'' \<Rightarrow> (Inl (DbErr msg), (rollback db db', evs''))
                | Unacked msg # evs'' \<Rightarrow> (Inl (DbErr msg), (db', evs''))
                | _ \<Rightarrow> (Inr a, (db', tl evs')))))"

fun dfor :: "'a list \<Rightarrow> ('a \<Rightarrow> ('db, 'b) dbm) \<Rightarrow> ('db, 'b list) dbm" where
  "dfor [] f = dret []"
| "dfor (x # xs) f = dbind (f x) (\<lambda>y. dbind (dfor xs f) (\<lambda>ys. dret (y # ys)))"

text \<open>Row operations: \<open>First\<close> takes the row with the smallest primary key.\<close>

fun first_by :: "('r \<Rightarrow> nat) \<Rightarrow> ('r \<Rightarrow> bool) \<Rightarrow> 'r list \<Rightarrow> 'r option" where
  "first_by key P [] = None"
| "first_by key P (r # rs) =
     (if P r then
        (case first_by key P rs of
           None \<Rightarrow> Some r
         | Some r' \<Rightarrow> if key r' < key r then Some r' else Some r)
      else first_by key P rs)"

definition First :: "('r \<Rightarrow> nat) \<Rightarrow> ('db \<Rightarrow> 'r list) \<Rightarrow> ('r \<Rightarrow> bool) \<Rightarrow> ('db, 'r) dbm" where
  "First key tbl P = stmt (\<lambda>db. (case first_by key P (tbl db) of
     None \<Rightarrow> Inl RecordNotFound | Some r \<Rightarrow> Inr r, db))"

definition Find :: "('db \<Rightarrow> 'r list) \<Rightarrow> ('r \<Rightarrow> bool) \<Rightarrow> ('db, 'r list) dbm" where
  "Find tbl P = query (\<lambda>db. filter P (tbl db))"

definition Count :: "('db \<Rightarrow> 'r list) \<Rightarrow> ('r \<Rightarrow> bool) \<Rightarrow> ('db, nat) dbm" where
  "Count tbl P = query (\<lambda>db. length (filter P (tbl db)))"

text \<open>\<open>ORDER BY\<close>: an insertion sort by the given order, ties in table order.\<close>

fun insert_by :: "('r \<Rightarrow> 'r \<Rightarrow> bool) \<Rightarrow> 'r \<Rightarrow> 'r list \<Rightarrow> 'r list" where
  "insert_by lt x [] = [x]"
| "insert_by lt x (y # ys) = (if lt y x then y # insert_by lt x ys else x # y # ys)"

definition order_by :: "('r \<Rightarrow> 'r \<Rightarrow> bool) \<Rightarrow> 'r list \<Rightarrow> 'r list" where
  "order_by lt xs = foldr (insert_by lt) xs []"

text \<open>The text of a unique violation, as the database reports it.\<close>

definition uniqueViolation :: go_error where
  "uniqueViolation = DbErr ''ERROR: duplicate key value violates unique constraint (SQLSTATE 23505)''"

subsection \<open>Basic facts\<close>

lemma set_insert_by [simp]: "set (insert_by lt x ys) = insert x (set ys)"
  by (induction ys) auto

lemma set_order_by [simp]: "set (order_by lt xs) = set xs"
  by (induction xs) (auto simp: order_by_def)

lemma length_insert_by [simp]: "length (insert_by lt x ys) = Suc (length ys)"
  by (induction ys) auto

lemma length_order_by [simp]: "length (order_by lt xs) = length xs"
  by (induction xs) (auto simp: order_by_def)

lemma distinct_insert_by: "distinct (map f (insert_by lt x ys)) \<longleftrightarrow> distinct (map f (x # ys))"
  by (induction ys) auto

lemma distinct_order_by: "distinct (map f (order_by lt xs)) \<longleftrightarrow> distinct (map f xs)"
proof (induction xs)
  case (Cons x xs)
  have "set (foldr (insert_by lt) xs []) = set xs" using set_order_by[of lt xs] by (simp add: order_by_def)
  then show ?case using Cons by (simp add: order_by_def distinct_insert_by)
qed (simp add: order_by_def)

lemma first_by_Some: "first_by key P rs = Some r \<Longrightarrow> r \<in> set rs \<and> P r \<and> (\<forall>r' \<in> set rs. P r' \<longrightarrow> key r \<le> key r')"
proof (induction rs arbitrary: r)
  case (Cons x xs)
  show ?case
  proof (cases "first_by key P xs")
    case None
    have "\<not> P r'" if "r' \<in> set xs" for r'
      using None that by (induction xs) (auto split: if_splits option.splits)
    then show ?thesis using Cons None by (auto split: if_splits)
  next
    case (Some r')
    then show ?thesis using Cons.prems Cons.IH[OF Some] by (auto split: if_splits)
  qed
qed simp

lemma first_by_None: "first_by key P rs = None \<longleftrightarrow> (\<forall>r \<in> set rs. \<not> P r)"
  by (induction rs) (auto split: option.splits)

subsection \<open>Running without failures\<close>

lemma run_stmt [db_run]: "stmt f (db, []) = (fst (f db), (snd (f db), []))"
  by (simp add: stmt_def)

lemma run_query [db_run]: "query f (db, []) = (Inr (f db), (db, []))"
  by (simp add: query_def run_stmt)

lemma run_reads [db_run]:
  "Find tbl P (db, []) = (Inr (filter P (tbl db)), (db, []))"
  "Count tbl P (db, []) = (Inr (length (filter P (tbl db))), (db, []))"
  "First key tbl P (db, []) = (case first_by key P (tbl db) of None \<Rightarrow> Inl RecordNotFound | Some r \<Rightarrow> Inr r, (db, []))"
  by (simp_all add: Find_def Count_def First_def run_stmt run_query)

lemma run_bind [db_run]:
  "dbind m f s = (case m s of (Inl e, s') \<Rightarrow> (Inl e, s') | (Inr a, s') \<Rightarrow> f a s')"
  by (simp add: dbind_def dcase_def dfail_def split: prod.splits sum.splits)

lemma run_basic [db_run]:
  "dret a s = (Inr a, s)" "dfail e s = (Inl e, s)" "dguard ok e s = (if ok then Inr () else Inl e, s)"
  "dres r s = (r, s)" "dcase m g s = (case m s of (r, s') \<Rightarrow> g r s')"
  by (simp_all add: dret_def dfail_def dguard_def dres_def dcase_def split: sum.splits)

lemma run_transaction [db_run]:
  "m (db, []) = (r, (db', [])) \<Longrightarrow>
   transaction rollback m (db, []) = (case r of Inl e \<Rightarrow> (Inl e, (rollback db db', [])) | Inr a \<Rightarrow> (Inr a, (db', [])))"
  by (simp add: transaction_def run_stmt split: sum.splits)

subsection \<open>Triples\<close>

text \<open>
  \<open>triple P m Q E\<close>: from tables that satisfy \<open>P\<close>, whatever the schedule, a value and the tables after it
  satisfy \<open>Q\<close>, and after an error the tables satisfy \<open>E\<close>.
\<close>

definition outcome :: "('a \<Rightarrow> 'db \<Rightarrow> bool) \<Rightarrow> ('db \<Rightarrow> bool) \<Rightarrow> (go_error + 'a) \<times> 'db dbst \<Rightarrow> bool" where
  "outcome Q E out \<longleftrightarrow> (case fst out of Inr a \<Rightarrow> Q a (fst (snd out)) | Inl _ \<Rightarrow> E (fst (snd out)))"

definition triple :: "('db \<Rightarrow> bool) \<Rightarrow> ('db, 'a) dbm \<Rightarrow> ('a \<Rightarrow> 'db \<Rightarrow> bool) \<Rightarrow> ('db \<Rightarrow> bool) \<Rightarrow> bool" where
  "triple P m Q E \<longleftrightarrow> (\<forall>s. P (fst s) \<longrightarrow> outcome Q E (m s))"

lemma outcome_simps [simp]:
  "outcome Q E (Inr a, s) = Q a (fst s)" "outcome Q E (Inl e, s) = E (fst s)"
  by (simp_all add: outcome_def)

lemma tripleD: "triple P m Q E \<Longrightarrow> P (fst s) \<Longrightarrow> outcome Q E (m s)"
  unfolding triple_def by blast

lemma triple_ret [db_intros]: "(\<And>db. P db \<Longrightarrow> Q a db) \<Longrightarrow> triple P (dret a) Q E"
  by (simp add: triple_def dret_def)

lemma triple_fail [db_intros]: "(\<And>db. P db \<Longrightarrow> E db) \<Longrightarrow> triple P (dfail e) Q E"
  by (simp add: triple_def dfail_def)

lemma triple_case:
  assumes "triple P m R F" and "\<And>a. triple (R a) (f (Inr a)) Q E" and "\<And>e. triple F (f (Inl e)) Q E"
  shows "triple P (dcase m f) Q E"
  unfolding triple_def
proof (intro allI impI)
  fix s :: "'a dbst"
  assume "P (fst s)"
  then have out: "outcome R F (m s)" by (rule tripleD[OF assms(1)])
  obtain r s' where ms: "m s = (r, s')" by (cases "m s")
  show "outcome Q E (dcase m f s)"
    using out tripleD[OF assms(2), of _ s'] tripleD[OF assms(3), of s']
    by (cases r) (simp_all add: dcase_def ms)
qed

lemma triple_bind [db_intros]:
  assumes "triple P m R E" and "\<And>a. triple (R a) (f a) Q E"
  shows "triple P (dbind m f) Q E"
  unfolding dbind_def by (rule triple_case[OF assms(1)]) (auto intro: assms(2) triple_fail)

lemma triple_guard [db_intros]: "(\<And>db. P db \<Longrightarrow> if ok then Q () db else E db) \<Longrightarrow> triple P (dguard ok e) Q E"
  by (auto simp: dguard_def triple_def dret_def dfail_def)

lemma triple_res [db_intros]:
  "(\<And>db. P db \<Longrightarrow> case r of Inl _ \<Rightarrow> E db | Inr a \<Rightarrow> Q a db) \<Longrightarrow> triple P (dres r) Q E"
  by (cases r) (auto simp: dres_def intro: triple_ret triple_fail)

lemma triple_stmt:
  assumes "\<And>db. P db \<Longrightarrow> E db"
    and "\<And>db. P db \<Longrightarrow> (case fst (f db) of Inr a \<Rightarrow> Q a (snd (f db)) | Inl _ \<Rightarrow> True) \<and> E (snd (f db))"
  shows "triple P (stmt f) Q E"
  unfolding triple_def
proof (intro allI impI)
  fix s :: "'a dbst"
  assume P: "P (fst s)"
  obtain db evs where s: "s = (db, evs)" by (cases s)
  show "outcome Q E (stmt f s)"
    using assms(1)[OF P] assms(2)[OF P]
    by (cases "fst (f db)") (auto simp: s stmt_def outcome_def split: list.splits event.splits)
qed

lemma triple_stmt_if:
  assumes "\<And>db. P db \<Longrightarrow> E db" and "\<And>db. P db \<Longrightarrow> c db \<Longrightarrow> E (d1 db)"
    and "\<And>db. P db \<Longrightarrow> \<not> c db \<Longrightarrow> Q (a db) (d2 db)" and "\<And>db. P db \<Longrightarrow> \<not> c db \<Longrightarrow> E (d2 db)"
  shows "triple P (stmt (\<lambda>db. if c db then (Inl (e db), d1 db) else (Inr (a db), d2 db))) Q E"
  by (rule triple_stmt) (use assms in auto)

lemma triple_stmt_total:
  assumes "\<And>db. P db \<Longrightarrow> E db" and "\<And>db. P db \<Longrightarrow> Q (a db) (d db)" and "\<And>db. P db \<Longrightarrow> E (d db)"
  shows "triple P (stmt (\<lambda>db. (Inr (a db), d db))) Q E"
  by (rule triple_stmt) (use assms in auto)

lemma triple_weaken:
  assumes "triple P m Q E" and "\<And>db. P' db \<Longrightarrow> P db" and "\<And>a db. Q a db \<Longrightarrow> Q' a db" and "\<And>db. E db \<Longrightarrow> E' db"
  shows "triple P' m Q' E'"
  unfolding triple_def
proof (intro allI impI)
  fix s :: "'a dbst"
  assume "P' (fst s)"
  then have "outcome Q E (m s)" using assms(2) tripleD[OF assms(1)] by blast
  then show "outcome Q' E' (m s)" using assms(3,4) by (auto simp: outcome_def split: sum.splits)
qed

lemma triple_pure: "(c \<Longrightarrow> triple P m Q E) \<Longrightarrow> triple (\<lambda>db. P db \<and> c) m Q E"
  by (auto simp: triple_def)

lemma triple_query:
  "(\<And>db. P db \<Longrightarrow> E db) \<Longrightarrow> (\<And>db. P db \<Longrightarrow> Q (f db) db) \<Longrightarrow> triple P (query f) Q E"
  unfolding query_def by (rule triple_stmt) auto

lemma triple_Find: "(\<And>db. P db \<Longrightarrow> E db) \<Longrightarrow> triple P (Find tbl R) (\<lambda>rows db. P db \<and> rows = filter R (tbl db)) E"
  unfolding Find_def by (rule triple_query) auto

lemma triple_Count: "(\<And>db. P db \<Longrightarrow> E db) \<Longrightarrow> triple P (Count tbl R) (\<lambda>n db. P db \<and> n = length (filter R (tbl db))) E"
  unfolding Count_def by (rule triple_query) auto

lemma triple_First:
  "(\<And>db. P db \<Longrightarrow> E db) \<Longrightarrow> triple P (First key tbl R) (\<lambda>r db. P db \<and> r \<in> set (tbl db) \<and> R r) E"
  unfolding First_def by (rule triple_stmt) (auto dest: first_by_Some split: option.splits)

lemma triple_transaction:
  assumes "triple P m Q F" and "\<And>db. P db \<Longrightarrow> E db"
    and "\<And>db db'. P db \<Longrightarrow> F db' \<Longrightarrow> E (rollback db db')"
    and "\<And>a db db'. P db \<Longrightarrow> Q a db' \<Longrightarrow> E (rollback db db') \<and> E db'"
  shows "triple P (transaction rollback m) Q E"
  unfolding triple_def
proof (intro allI impI)
  fix s :: "'a dbst"
  assume P: "P (fst s)"
  obtain db evs where s: "s = (db, evs)" by (cases s)
  obtain r db' evs' where m: "m (db, tl evs) = (r, (db', evs'))" by (cases "m (db, tl evs)") auto
  have out: "outcome Q F (r, (db', evs'))"
    using tripleD[OF assms(1), of "(db, tl evs)"] P s m by simp
  show "outcome Q E (transaction rollback m s)"
    using out P assms(2-4) m
    by (cases r) (auto simp: s transaction_def stmt_def outcome_def split: list.splits event.splits)
qed

text \<open>A loop over a list: \<open>P xs\<close> holds when \<open>xs\<close> is still to be done.\<close>

lemma triple_for_rest:
  assumes "\<And>x xs. triple (P (x # xs)) (f x) (\<lambda>_. P xs) E"
  shows "triple (P xs) (dfor xs f) (\<lambda>_. P []) E"
proof (induction xs)
  case Nil
  then show ?case by (auto intro: triple_ret)
next
  case (Cons x xs)
  show ?case unfolding dfor.simps
    by (rule triple_bind[OF assms], rule triple_bind[OF Cons.IH], rule triple_ret) 
qed

subsection \<open>Reading\<close>

text \<open>A reading handler leaves the tables alone, so it keeps whatever holds of them.\<close>

definition readonly :: "('db, 'a) dbm \<Rightarrow> bool" where
  "readonly m \<longleftrightarrow> (\<forall>s. fst (snd (m s)) = fst s)"

lemma readonly_basic: "readonly (dret a)" "readonly (dfail e)" "readonly (dguard ok e)" "readonly (dres r)"
  by (simp_all add: readonly_def run_basic)

lemma readonly_query: "readonly (query f)"
  by (auto simp: readonly_def query_def stmt_def split: list.splits event.splits)

lemma readonly_reads: "readonly (Find tbl R)" "readonly (Count tbl R)" "readonly (First key tbl R)"
  by (simp_all add: Find_def Count_def readonly_query)
    (auto simp: readonly_def First_def stmt_def split: list.splits event.splits)

lemma readonly_case: "readonly m \<Longrightarrow> (\<And>r. readonly (f r)) \<Longrightarrow> readonly (dcase m f)"
  unfolding readonly_def by (metis (no_types, lifting) case_prod_beta dcase_def)

lemma readonly_bind: "readonly m \<Longrightarrow> (\<And>a. readonly (f a)) \<Longrightarrow> readonly (dbind m f)"
  unfolding dbind_def by (rule readonly_case) (auto split: sum.splits intro: readonly_basic)

lemma readonly_if: "readonly m \<Longrightarrow> readonly n \<Longrightarrow> readonly (if c then m else n)"
  by simp

lemmas readonly_rules = readonly_basic readonly_query readonly_reads readonly_case readonly_bind readonly_if

lemma readonly_triple: "readonly m \<Longrightarrow> (\<And>db. P db \<Longrightarrow> E db) \<Longrightarrow> triple P m (\<lambda>_. P) E"
  unfolding triple_def outcome_def readonly_def by (auto split: sum.splits)

lemma readonly_frame:
  "readonly m \<Longrightarrow> triple P m Q E \<Longrightarrow> triple (\<lambda>db. P db \<and> A db) m (\<lambda>a db. Q a db \<and> A db) E"
  unfolding triple_def outcome_def readonly_def by (auto split: sum.splits)

lemma readonly_for: "(\<And>x. readonly (f x)) \<Longrightarrow> readonly (dfor xs f)"
  by (induction xs) (auto intro!: readonly_basic readonly_bind)

lemma readonly_for_triple:
  assumes ro: "\<And>x. readonly (f x)" and PE: "\<And>db. P db \<Longrightarrow> E db" and step: "\<And>x. triple P (f x) (\<lambda>_ db. P db \<and> R x db) E"
  shows "triple P (dfor xs f) (\<lambda>_ db. P db \<and> (\<forall>x \<in> set xs. R x db)) E"
proof (induction xs)
  case Nil
  then show ?case by (auto intro: triple_ret)
next
  case (Cons x xs)
  have rest: "triple (\<lambda>db. P db \<and> R x db) (dfor xs f) (\<lambda>_ db. (P db \<and> (\<forall>y \<in> set xs. R y db)) \<and> R x db) E"
    by (rule readonly_frame[OF readonly_for[OF ro] Cons.IH])
  show ?case unfolding dfor.simps by (rule triple_bind[OF step], rule triple_bind[OF rest], rule triple_ret) auto
qed

lemma readonly_then:
  "readonly m \<Longrightarrow> (\<And>db. P db \<Longrightarrow> E db) \<Longrightarrow> (\<And>a. triple P (f a) Q E) \<Longrightarrow> triple P (dbind m f) Q E"
  by (rule triple_bind[OF readonly_triple])

lemma guard_then:
  "(\<And>db. P db \<Longrightarrow> E db) \<Longrightarrow> (ok \<Longrightarrow> triple P m Q E) \<Longrightarrow> triple P (dbind (dguard ok e) (\<lambda>_. m)) Q E"
  by (cases ok) (auto simp: triple_def run_bind run_basic)

subsection \<open>Invariants of the tables\<close>

locale db_invariant =
  fixes inv :: "'db \<Rightarrow> bool" and rollback :: "'db \<Rightarrow> 'db \<Rightarrow> 'db"
  assumes rollback_inv: "inv db \<Longrightarrow> inv (rollback db db')"
begin

definition keeps :: "('db, 'a) dbm \<Rightarrow> bool" where
  "keeps m \<longleftrightarrow> triple inv m (\<lambda>_. inv) inv"

lemma keepsD: "keeps m \<Longrightarrow> inv (fst s) \<Longrightarrow> inv (fst (snd (m s)))"
  using tripleD[of inv m "\<lambda>_. inv" inv s] unfolding keeps_def outcome_def by (simp split: sum.splits)

lemma keeps_ret: "keeps (dret a)"
  by (simp add: keeps_def triple_ret)

lemma keeps_fail: "keeps (dfail e)"
  by (simp add: keeps_def triple_fail)

lemma keeps_case: "keeps m \<Longrightarrow> (\<And>r. keeps (f r)) \<Longrightarrow> keeps (dcase m f)"
  unfolding keeps_def by (rule triple_case)

lemma keeps_bind: "keeps m \<Longrightarrow> (\<And>a. keeps (f a)) \<Longrightarrow> keeps (dbind m f)"
  unfolding keeps_def by (rule triple_bind)

lemma keeps_query: "keeps (query f)"
  unfolding keeps_def by (rule triple_query)

lemma keeps_reads: "keeps (Find tbl R)" "keeps (Count tbl R)" "keeps (First key tbl R)"
  unfolding keeps_def
  by (rule triple_weaken[OF triple_Find] triple_weaken[OF triple_Count] triple_weaken[OF triple_First]; blast)+

lemma keeps_readonly: "readonly m \<Longrightarrow> keeps m"
  unfolding keeps_def by (rule readonly_triple)

lemma keeps_guard: "keeps (dguard ok e)"
  unfolding keeps_def by (rule triple_guard) simp

lemma keeps_res: "keeps (dres r)"
  unfolding keeps_def by (rule triple_res) (simp split: sum.splits)

lemma keeps_stmt: "(\<And>db. inv db \<Longrightarrow> inv (snd (f db))) \<Longrightarrow> keeps (stmt f)"
  unfolding keeps_def by (rule triple_stmt) (auto split: sum.splits)

lemma keeps_transaction: "triple inv m (\<lambda>_. inv) (\<lambda>_. True) \<Longrightarrow> keeps (transaction rollback m)"
  unfolding keeps_def by (rule triple_transaction[where F = "\<lambda>_. True"]) (auto intro: rollback_inv)

lemma keeps_for: "(\<And>x. keeps (f x)) \<Longrightarrow> keeps (dfor xs f)"
  by (induction xs) (auto intro!: keeps_ret keeps_bind)

lemmas keeps_rules = keeps_ret keeps_fail keeps_query keeps_reads keeps_guard keeps_res keeps_for

end

subsection \<open>Views of the state\<close>

text \<open>A part of the state that a handler leaves alone whatever the schedule, and that a rolled back transaction restores.\<close>

locale db_view =
  fixes view :: "'db \<Rightarrow> 'v" and rollback :: "'db \<Rightarrow> 'db \<Rightarrow> 'db"
  assumes rollback_view: "view db' = view db \<Longrightarrow> view (rollback db db') = view db"
begin

definition same :: "('db, 'a) dbm \<Rightarrow> bool" where
  "same m \<longleftrightarrow> (\<forall>s. view (fst (snd (m s))) = view (fst s))"

lemma same_readonly: "readonly m \<Longrightarrow> same m"
  by (simp add: readonly_def same_def)

lemmas same_basic = same_readonly[OF readonly_basic(1)] same_readonly[OF readonly_basic(2)] same_readonly[OF readonly_query]
  same_readonly[OF readonly_reads(1)] same_readonly[OF readonly_reads(2)] same_readonly[OF readonly_reads(3)]

lemma same_case: "same m \<Longrightarrow> (\<And>r. same (f r)) \<Longrightarrow> same (dcase m f)"
  unfolding same_def by (metis (no_types, lifting) case_prod_beta dcase_def)

lemma same_bind: "same m \<Longrightarrow> (\<And>a. same (f a)) \<Longrightarrow> same (dbind m f)"
  unfolding dbind_def by (rule same_case) (auto split: sum.splits intro: same_basic)

lemma same_stmt: "(\<And>db. view (snd (f db)) = view db) \<Longrightarrow> same (stmt f)"
  by (auto simp: same_def stmt_def split: list.splits event.splits)

lemma same_for: "(\<And>x. same (f x)) \<Longrightarrow> same (dfor xs f)"
  by (induction xs) (auto intro!: same_bind same_basic)

lemma same_transaction:
  assumes "same m"
  shows "same (transaction rollback m)"
proof -
  have inner: "view db' = view db" if "m (db, evs) = (r, (db', evs'))" for db evs r db' evs'
    using assms that unfolding same_def by (metis fst_conv snd_conv)
  show ?thesis unfolding same_def transaction_def
    by (auto simp: stmt_def dest: inner intro: rollback_view split: prod.splits sum.splits list.splits event.splits)
qed

lemma same_triple: "same m \<Longrightarrow> triple (\<lambda>db. P (view db)) m (\<lambda>_ db. P (view db)) (\<lambda>db. P (view db))"
  unfolding triple_def outcome_def same_def by (auto split: sum.splits)

end

end
