(* ===== verification/Ipam_Store.thy ===== *)
theory Ipam_Store
  imports Ipam_Dhcp Go_Db
begin

text \<open>
  The IPAM store, \<open>internal/ipam/store.go\<close>: namespaces, pools, VRFs and prefixes in their tables, and
  every operation of the file as a handler over them. The unique indexes are those of the migrations
  in \<open>internal/dbmigrate/sql\<close>. \<open>collate\<close> is the text order of the database, on which only the order of
  listings depends.
\<close>

subsection \<open>Tables and statements\<close>

record ipam_db =
  t_namespaces :: "IpamNamespace list"
  q_namespaces :: nat
  t_pools :: "IpamNamespacePrefix list"
  q_pools :: nat
  t_vrfs :: "IpamVRF list"
  q_vrfs :: nat
  t_prefixes :: "IpamPrefix list"
  q_prefixes :: nat
  t_addresses :: "Address list"

type_synonym 'a ipam = "(ipam_db, 'a) dbm"

definition ipam_rollback :: "ipam_db \<Rightarrow> ipam_db \<Rightarrow> ipam_db" where
  "ipam_rollback db db' = db\<lparr>q_namespaces := max (q_namespaces db) (q_namespaces db'),
     q_pools := max (q_pools db) (q_pools db'), q_vrfs := max (q_vrfs db) (q_vrfs db'),
     q_prefixes := max (q_prefixes db) (q_prefixes db')\<rparr>"

definition insertNamespace :: "IpamNamespace \<Rightarrow> IpamNamespace ipam" where
  "insertNamespace row = stmt (\<lambda>db.
     let nid = q_namespaces db; row' = row\<lparr>ns_ID := nid\<rparr>; db' = db\<lparr>q_namespaces := Suc nid\<rparr>
     in if list_ex (\<lambda>r. ns_Name r = ns_Name row) (t_namespaces db) then (Inl uniqueViolation, db')
        else (Inr row', db'\<lparr>t_namespaces := t_namespaces db @ [row']\<rparr>))"

definition updateNamespaceRow :: "nat \<Rightarrow> string \<Rightarrow> string \<Rightarrow> unit ipam" where
  "updateNamespaceRow nid name description = stmt (\<lambda>db.
     if list_ex (\<lambda>r. ns_ID r = nid) (t_namespaces db) \<and>
        list_ex (\<lambda>r. ns_ID r \<noteq> nid \<and> ns_Name r = name) (t_namespaces db) then (Inl uniqueViolation, db)
     else (Inr (), db\<lparr>t_namespaces := map (\<lambda>r. if ns_ID r = nid
        then r\<lparr>ns_Name := name, ns_Description := description\<rparr> else r) (t_namespaces db)\<rparr>))"

definition insertPool :: "IpamNamespacePrefix \<Rightarrow> IpamNamespacePrefix ipam" where
  "insertPool row = stmt (\<lambda>db.
     let nid = q_pools db; row' = row\<lparr>pool_ID := nid\<rparr>; db' = db\<lparr>q_pools := Suc nid\<rparr>
     in if list_ex (\<lambda>r. pool_NamespaceID r = pool_NamespaceID row \<and> pool_Prefix r = pool_Prefix row) (t_pools db)
        then (Inl uniqueViolation, db')
        else (Inr row', db'\<lparr>t_pools := t_pools db @ [row']\<rparr>))"

definition vrfConflict :: "IpamVRF \<Rightarrow> IpamVRF \<Rightarrow> bool" where
  "vrfConflict r row \<longleftrightarrow> \<not> vrf_IsDefault r \<and> \<not> vrf_IsDefault row \<and> vrf_Name r = vrf_Name row
     \<or> vrf_NetboxID row \<noteq> 0 \<and> vrf_NetboxID r = vrf_NetboxID row"

definition insertVRF :: "IpamVRF \<Rightarrow> IpamVRF ipam" where
  "insertVRF row0 = stmt (\<lambda>db.
     let row = vrfBeforeCreate row0; nid = q_vrfs db; row' = row\<lparr>vrf_ID := nid\<rparr>; db' = db\<lparr>q_vrfs := Suc nid\<rparr>
     in if list_ex (\<lambda>r. vrfConflict r row) (t_vrfs db) then (Inl uniqueViolation, db')
        else (Inr row', db'\<lparr>t_vrfs := t_vrfs db @ [row']\<rparr>))"

definition saveVRF :: "IpamVRF \<Rightarrow> unit ipam" where
  "saveVRF row = stmt (\<lambda>db.
     if list_ex (\<lambda>r. vrf_ID r \<noteq> vrf_ID row \<and> vrfConflict r row) (t_vrfs db) then (Inl uniqueViolation, db)
     else (Inr (), db\<lparr>t_vrfs := map (\<lambda>r. if vrf_ID r = vrf_ID row then row else r) (t_vrfs db)\<rparr>))"

definition prefixConflict :: "IpamPrefix \<Rightarrow> IpamPrefix \<Rightarrow> bool" where
  "prefixConflict r row \<longleftrightarrow> pfx_NetboxID r = 0 \<and> pfx_NetboxID row = 0
       \<and> pfx_NamespaceID r = pfx_NamespaceID row \<and> pfx_Prefix r = pfx_Prefix row
     \<or> pfx_NetboxID row \<noteq> 0 \<and> pfx_NetboxID r = pfx_NetboxID row"

definition insertPrefix :: "IpamPrefix \<Rightarrow> IpamPrefix ipam" where
  "insertPrefix row0 = stmt (\<lambda>db.
     let row = pfxBeforeCreate row0; nid = q_prefixes db; row' = row\<lparr>pfx_ID := nid\<rparr>; db' = db\<lparr>q_prefixes := Suc nid\<rparr>
     in if list_ex (\<lambda>r. prefixConflict r row) (t_prefixes db) then (Inl uniqueViolation, db')
        else (Inr row', db'\<lparr>t_prefixes := t_prefixes db @ [row']\<rparr>))"

definition savePrefix :: "IpamPrefix \<Rightarrow> unit ipam" where
  "savePrefix row = stmt (\<lambda>db.
     if list_ex (\<lambda>r. pfx_ID r \<noteq> pfx_ID row \<and> prefixConflict r row) (t_prefixes db) then (Inl uniqueViolation, db)
     else (Inr (), db\<lparr>t_prefixes := map (\<lambda>r. if pfx_ID r = pfx_ID row then row else r) (t_prefixes db)\<rparr>))"

text \<open>Deletes. A prefix that addresses refer to is held by a foreign key.\<close>

definition deleteNamespaceRow :: "nat \<Rightarrow> unit ipam" where
  "deleteNamespaceRow nid = stmt (\<lambda>db.
     (Inr (), db\<lparr>t_namespaces := filter (\<lambda>r. ns_ID r \<noteq> nid) (t_namespaces db)\<rparr>))"

definition deletePools :: "(IpamNamespacePrefix \<Rightarrow> bool) \<Rightarrow> unit ipam" where
  "deletePools P = stmt (\<lambda>db. (Inr (), db\<lparr>t_pools := filter (\<lambda>r. \<not> P r) (t_pools db)\<rparr>))"

definition deleteVRFs :: "(IpamVRF \<Rightarrow> bool) \<Rightarrow> unit ipam" where
  "deleteVRFs P = stmt (\<lambda>db. (Inr (), db\<lparr>t_vrfs := filter (\<lambda>r. \<not> P r) (t_vrfs db)\<rparr>))"

definition deletePrefixRow :: "nat \<Rightarrow> unit ipam" where
  "deletePrefixRow nid = stmt (\<lambda>db.
     if list_ex (\<lambda>a. adr_PrefixID a = Some nid) (t_addresses db)
     then (Inl (DbErr ''ERROR: update or delete violates foreign key constraint (SQLSTATE 23503)''), db)
     else (Inr (), db\<lparr>t_prefixes := filter (\<lambda>r. pfx_ID r \<noteq> nid) (t_prefixes db)\<rparr>))"

subsection \<open>Namespaces\<close>

definition defaultVRFName :: string where
  "defaultVRFName = ''default''"

definition emptyNamespaceName :: string where
  "emptyNamespaceName = []"

definition normalizeName :: "string \<Rightarrow> string" where
  "normalizeName s = TrimSpace s"

definition isUniqueViolation :: "go_error \<Rightarrow> bool" where
  "isUniqueViolation err =
     (let s = ToLower (errText err) in Contains s ''unique'' \<or> Contains s ''duplicate'')"

text \<open>The shape \<open>First\<close>, not found gives a status error, any other error is passed on.\<close>

definition firstOr :: "nat \<Rightarrow> string \<Rightarrow> 'r ipam \<Rightarrow> 'r ipam" where
  "firstOr status msg m = dcase m (\<lambda>r. case r of
     Inr row \<Rightarrow> dret row
   | Inl e \<Rightarrow> if e = RecordNotFound then dfail (StatusErr status msg) else dfail e)"

text \<open>A write whose unique violation is reported as a 409.\<close>

definition unlessDuplicate :: "string \<Rightarrow> 'r ipam \<Rightarrow> 'r ipam" where
  "unlessDuplicate msg m = dcase m (\<lambda>r. case r of
     Inr row \<Rightarrow> dret row
   | Inl e \<Rightarrow> if isUniqueViolation e then dfail (StatusErr 409 msg) else dfail e)"

definition loadNamespace :: "nat \<Rightarrow> IpamNamespace ipam" where
  "loadNamespace nid = firstOr 404 ''namespace not found'' (First ns_ID t_namespaces (\<lambda>n. ns_ID n = nid))"

definition isEmptyNamespace :: "IpamNamespace \<Rightarrow> bool" where
  "isEmptyNamespace ns \<longleftrightarrow> ns_Name ns = emptyNamespaceName"

definition defaultVRFRow :: "nat \<Rightarrow> IpamVRF" where
  "defaultVRFRow nsID = zeroVRF\<lparr>vrf_NamespaceID := nsID, vrf_Name := defaultVRFName, vrf_IsDefault := True\<rparr>"

text \<open>
  The read after a unique violation repeats the first one: the failed insert left the struct without
  an id.
\<close>

definition EnsureEmptyNamespace :: "IpamNamespace ipam" where
  "EnsureEmptyNamespace =
     dcase (First ns_ID t_namespaces (\<lambda>n. ns_Name n = emptyNamespaceName)) (\<lambda>r. case r of
       Inr ns \<Rightarrow> dret ns
     | Inl err \<Rightarrow>
         if err \<noteq> RecordNotFound then dfail err
         else dcase (transaction ipam_rollback
                (dbind (insertNamespace \<lparr>ns_ID = 0, ns_Name = emptyNamespaceName, ns_Description = []\<rparr>) (\<lambda>ns.
                 dbind (insertVRF (defaultVRFRow (ns_ID ns))) (\<lambda>_. dret ns)))) (\<lambda>r2. case r2 of
             Inr ns \<Rightarrow> dret ns
           | Inl e2 \<Rightarrow>
               if isUniqueViolation e2
               then First ns_ID t_namespaces (\<lambda>n. ns_Name n = emptyNamespaceName)
               else dfail e2))"

definition resolveNamespaceID :: "nat \<Rightarrow> nat ipam" where
  "resolveNamespaceID nsID =
     (if nsID \<noteq> 0 then dbind (loadNamespace nsID) (\<lambda>_. dret nsID)
      else dbind EnsureEmptyNamespace (\<lambda>ns. dret (ns_ID ns)))"

record NamespaceView =
  nv_Namespace :: IpamNamespace
  nv_Pools :: "IpamNamespacePrefix list"
  nv_VRFs :: "IpamVRF list"
  nv_PrefixCount :: nat
  nv_PoolCount :: nat
  nv_VRFCount :: nat

definition vrf_order :: "(string \<Rightarrow> string \<Rightarrow> bool) \<Rightarrow> IpamVRF \<Rightarrow> IpamVRF \<Rightarrow> bool" where
  "vrf_order collate a b =
     (if vrf_IsDefault a \<noteq> vrf_IsDefault b then vrf_IsDefault a else collate (vrf_Name a) (vrf_Name b))"

definition GetNamespace :: "(string \<Rightarrow> string \<Rightarrow> bool) \<Rightarrow> nat \<Rightarrow> NamespaceView ipam" where
  "GetNamespace collate nid =
     dbind (loadNamespace nid) (\<lambda>ns.
     dbind (query (\<lambda>db. order_by (\<lambda>a b. collate (pool_Prefix a) (pool_Prefix b))
              (filter (\<lambda>p. pool_NamespaceID p = nid) (t_pools db)))) (\<lambda>pools.
     dbind (query (\<lambda>db. order_by (vrf_order collate)
              (filter (\<lambda>v. vrf_NamespaceID v = nid) (t_vrfs db)))) (\<lambda>vrfs.
     dbind (Count t_prefixes (\<lambda>p. pfx_NamespaceID p = nid)) (\<lambda>n.
     dret \<lparr>nv_Namespace = ns, nv_Pools = pools, nv_VRFs = vrfs, nv_PrefixCount = n,
       nv_PoolCount = length pools, nv_VRFCount = length vrfs\<rparr>))))"

definition ListNamespaces :: "(string \<Rightarrow> string \<Rightarrow> bool) \<Rightarrow> NamespaceView list ipam" where
  "ListNamespaces collate =
     dbind (query (\<lambda>db. order_by (\<lambda>a b. collate (ns_Name a) (ns_Name b)) (t_namespaces db))) (\<lambda>rows.
     dfor rows (\<lambda>ns. GetNamespace collate (ns_ID ns)))"

definition CreateNamespace :: "(string \<Rightarrow> string \<Rightarrow> bool) \<Rightarrow> string \<Rightarrow> string \<Rightarrow> NamespaceView ipam" where
  "CreateNamespace collate name0 description =
     (let name = normalizeName name0
      in dbind (dguard (name \<noteq> []) (StatusErr 400 ''name is required'')) (\<lambda>_.
         transaction ipam_rollback
           (dbind (unlessDuplicate ''a namespace with that name already exists''
              (insertNamespace \<lparr>ns_ID = 0, ns_Name = name, ns_Description = TrimSpace description\<rparr>)) (\<lambda>ns.
            dbind (insertVRF (defaultVRFRow (ns_ID ns))) (\<lambda>_.
            GetNamespace collate (ns_ID ns))))))"

definition UpdateNamespace :: "(string \<Rightarrow> string \<Rightarrow> bool) \<Rightarrow> nat \<Rightarrow> string \<Rightarrow> string \<Rightarrow> NamespaceView ipam" where
  "UpdateNamespace collate nid name0 description =
     (let name = normalizeName name0
      in dbind (dguard (name \<noteq> []) (StatusErr 400 ''name is required'')) (\<lambda>_.
         dbind (loadNamespace nid) (\<lambda>_.
         dbind (unlessDuplicate ''a namespace with that name already exists''
           (updateNamespaceRow nid name (TrimSpace description))) (\<lambda>_.
         GetNamespace collate nid))))"

definition DeleteNamespace :: "nat \<Rightarrow> unit ipam" where
  "DeleteNamespace nid =
     dbind (loadNamespace nid) (\<lambda>_.
     dbind (Count t_prefixes (\<lambda>p. pfx_NamespaceID p = nid)) (\<lambda>n.
     dbind (dguard (\<not> n > 0) (StatusErr 409 ''namespace still has allocated prefixes'')) (\<lambda>_.
     transaction ipam_rollback
       (dbind (deletePools (\<lambda>p. pool_NamespaceID p = nid)) (\<lambda>_.
        dbind (deleteVRFs (\<lambda>v. vrf_NamespaceID v = nid)) (\<lambda>_.
        deleteNamespaceRow nid))))))"

subsection \<open>Pools\<close>

definition parsedPrefixes :: "string list \<Rightarrow> pfx list" where
  "parsedPrefixes ss = concat (map (\<lambda>s. case ParsePrefix s of Inl _ \<Rightarrow> [] | Inr p \<Rightarrow> [p]) ss)"

definition ListPools :: "(string \<Rightarrow> string \<Rightarrow> bool) \<Rightarrow> nat \<Rightarrow> IpamNamespacePrefix list ipam" where
  "ListPools collate nsID =
     dbind (loadNamespace nsID) (\<lambda>_.
     query (\<lambda>db. order_by (\<lambda>a b. if pool_Family a \<noteq> pool_Family b then pool_Family a < pool_Family b
         else collate (pool_Prefix a) (pool_Prefix b))
       (filter (\<lambda>p. pool_NamespaceID p = nsID) (t_pools db))))"

definition AddPool :: "nat \<Rightarrow> string \<Rightarrow> IpamNamespacePrefix ipam" where
  "AddPool nsID raw =
     dbind (loadNamespace nsID) (\<lambda>_.
     dbind (dres (case ParsePrefix raw of Inl e \<Rightarrow> Inl (StatusErr 400 e) | Inr p \<Rightarrow> Inr p)) (\<lambda>p.
     dbind (Find t_pools (\<lambda>r. pool_NamespaceID r = nsID)) (\<lambda>existing.
     dbind (case checkAddPool (parsedPrefixes (map pool_Prefix existing)) p of
         Some e \<Rightarrow> dfail (StatusErr 409 e) | None \<Rightarrow> dret ()) (\<lambda>_.
     unlessDuplicate errPoolDuplicate
       (insertPool \<lparr>pool_ID = 0, pool_NamespaceID = nsID, pool_Prefix = pfx_string p, pool_Family = familyOf p\<rparr>)))))"

definition DeletePool :: "nat \<Rightarrow> nat \<Rightarrow> unit ipam" where
  "DeletePool nsID poolID =
     dbind (firstOr 404 ''allowed prefix not found''
       (First pool_ID t_pools (\<lambda>r. pool_ID r = poolID \<and> pool_NamespaceID r = nsID))) (\<lambda>pool.
     dbind (Find t_pools (\<lambda>r. pool_NamespaceID r = nsID \<and> pool_ID r \<noteq> poolID)) (\<lambda>pools.
     let remaining = parsedPrefixes (map pool_Prefix pools) in
     dbind (Find t_prefixes (\<lambda>r. pfx_NamespaceID r = nsID)) (\<lambda>allocs.
     let need = parsedPrefixes (map pfx_Prefix allocs) in
     dbind (dguard (\<not> poolStillNeeded remaining need)
       (StatusErr 409 ''allocated prefixes still depend on this allowed prefix'')) (\<lambda>_.
     deletePools (\<lambda>r. pool_ID r = pool_ID pool)))))"

subsection \<open>VRFs\<close>

definition ListVRFs :: "(string \<Rightarrow> string \<Rightarrow> bool) \<Rightarrow> nat \<Rightarrow> IpamVRF list ipam" where
  "ListVRFs collate nsID =
     dbind (loadNamespace nsID) (\<lambda>_.
     query (\<lambda>db. order_by (vrf_order collate) (filter (\<lambda>v. vrf_NamespaceID v = nsID) (t_vrfs db))))"

record VRFWrite =
  vw_Name :: string
  vw_Description :: string
  vw_RD :: string
  vw_ImportRT :: string
  vw_ExportRT :: string

definition vwNormalized :: "VRFWrite \<Rightarrow> VRFWrite" where
  "vwNormalized w = \<lparr>vw_Name = normalizeName (vw_Name w), vw_Description = TrimSpace (vw_Description w),
     vw_RD = TrimSpace (vw_RD w), vw_ImportRT = TrimSpace (vw_ImportRT w), vw_ExportRT = TrimSpace (vw_ExportRT w)\<rparr>"

definition reservedVRFName :: "string \<Rightarrow> bool" where
  "reservedVRFName name = EqualFold name defaultVRFName"

definition CreateVRF :: "nat \<Rightarrow> VRFWrite \<Rightarrow> IpamVRF ipam" where
  "CreateVRF nsID0 w0 =
     dbind (resolveNamespaceID nsID0) (\<lambda>nsID.
     let w = vwNormalized w0 in
     dbind (dguard (vw_Name w \<noteq> []) (StatusErr 400 ''name is required'')) (\<lambda>_.
     dbind (dguard (\<not> reservedVRFName (vw_Name w))
       (StatusErr 400 ''default is reserved for the namespace default VRF'')) (\<lambda>_.
     unlessDuplicate ''a VRF with that name already exists''
       (insertVRF (zeroVRF\<lparr>vrf_NamespaceID := nsID, vrf_Name := vw_Name w, vrf_Description := vw_Description w,
          vrf_RD := vw_RD w, vrf_ImportRT := vw_ImportRT w, vrf_ExportRT := vw_ExportRT w,
          vrf_Source := VRFSourceFactum\<rparr>)))))"

definition UpdateVRF :: "nat \<Rightarrow> nat \<Rightarrow> VRFWrite \<Rightarrow> IpamVRF ipam" where
  "UpdateVRF nsID vrfID w0 =
     dbind (firstOr 404 ''VRF not found''
       (First vrf_ID t_vrfs (\<lambda>r. vrf_ID r = vrfID \<and> vrf_NamespaceID r = nsID))) (\<lambda>row.
     let w = vwNormalized w0 in
     dbind (dguard (vw_Name w \<noteq> []) (StatusErr 400 ''name is required'')) (\<lambda>_.
     dbind (dguard (\<not> (\<not> vrf_IsDefault row \<and> reservedVRFName (vw_Name w)))
       (StatusErr 400 ''default is reserved for the namespace default VRF'')) (\<lambda>_.
     let row' = row\<lparr>vrf_Name := vw_Name w, vrf_Description := vw_Description w,
          vrf_RD := vw_RD w, vrf_ImportRT := vw_ImportRT w, vrf_ExportRT := vw_ExportRT w\<rparr> in
     dbind (unlessDuplicate ''a VRF with that name already exists'' (saveVRF row')) (\<lambda>_.
     dret row'))))"

definition DeleteVRF :: "nat \<Rightarrow> nat \<Rightarrow> unit ipam" where
  "DeleteVRF nsID vrfID =
     dbind (firstOr 404 ''VRF not found''
       (First vrf_ID t_vrfs (\<lambda>r. vrf_ID r = vrfID \<and> vrf_NamespaceID r = nsID))) (\<lambda>row.
     dbind (dguard (vrfIsLocal row) (StatusErr 403 ''VRFs synced from NetBox cannot be deleted here'')) (\<lambda>_.
     dbind (dguard (\<not> vrf_IsDefault row) (StatusErr 409 ''the default VRF cannot be deleted'')) (\<lambda>_.
     dbind (Count t_prefixes (\<lambda>p. pfx_VRFID p = vrfID)) (\<lambda>n.
     dbind (dguard (\<not> n > 0) (StatusErr 409 ''VRF still has allocated prefixes'')) (\<lambda>_.
     deleteVRFs (\<lambda>r. vrf_ID r = vrf_ID row))))))"

subsection \<open>Prefixes\<close>

definition ListPrefixes :: "(string \<Rightarrow> string \<Rightarrow> bool) \<Rightarrow> nat \<Rightarrow> IpamPrefix list ipam" where
  "ListPrefixes collate nsID =
     dbind (loadNamespace nsID) (\<lambda>_.
     query (\<lambda>db. order_by (\<lambda>a b. collate (pfx_Prefix a) (pfx_Prefix b))
       (filter (\<lambda>p. pfx_NamespaceID p = nsID) (t_prefixes db))))"

definition loadVRF :: "nat \<Rightarrow> nat \<Rightarrow> IpamVRF ipam" where
  "loadVRF nsID vrfID =
     firstOr 404 ''VRF not found''
       (First vrf_ID t_vrfs (\<lambda>r. vrf_NamespaceID r = nsID \<and>
          (if vrfID = 0 then vrf_IsDefault r else vrf_ID r = vrfID)))"

definition loadPoolPrefixes :: "nat \<Rightarrow> pfx list ipam" where
  "loadPoolPrefixes nsID =
     dbind (Find t_pools (\<lambda>r. pool_NamespaceID r = nsID)) (\<lambda>rows.
     dret (parsedPrefixes (map pool_Prefix rows)))"

definition allocationsOf :: "IpamPrefix list \<Rightarrow> allocation list" where
  "allocationsOf rows = concat (map (\<lambda>row. case ParsePrefix (pfx_Prefix row) of
     Inl _ \<Rightarrow> [] | Inr p \<Rightarrow> [\<lparr>alloc_Prefix = p, alloc_VRFID = pfx_VRFID row\<rparr>]) rows)"

definition loadAllocations :: "nat \<Rightarrow> allocation list ipam" where
  "loadAllocations nsID =
     dbind (Find t_prefixes (\<lambda>r. pfx_NamespaceID r = nsID)) (\<lambda>rows. dret (allocationsOf rows))"

definition Allocate :: "nat \<Rightarrow> nat \<Rightarrow> string \<Rightarrow> string \<Rightarrow> PrefixDHCP \<Rightarrow> IpamPrefix ipam" where
  "Allocate nsID0 vrfID raw description dhcp =
     dbind (resolveNamespaceID nsID0) (\<lambda>nsID.
     dbind (dres (case ParsePrefix raw of Inl e \<Rightarrow> Inl (StatusErr 400 e) | Inr p \<Rightarrow> Inr p)) (\<lambda>p.
     transaction ipam_rollback
       (dbind (loadVRF nsID vrfID) (\<lambda>vrf.
        dbind (loadAllocations nsID) (\<lambda>existing.
        dbind (case checkAllocate existing p (vrf_ID vrf) of
            Some e \<Rightarrow> dfail (StatusErr 409 e) | None \<Rightarrow> dret ()) (\<lambda>_.
        let row = zeroPrefix\<lparr>pfx_NamespaceID := nsID, pfx_VRFID := vrf_ID vrf, pfx_Prefix := pfx_string p,
              pfx_Family := familyOf p, pfx_Description := TrimSpace description\<rparr> in
        dbind (dres (case applyDHCP row dhcp of Inl (st, e) \<Rightarrow> Inl (StatusErr st e) | Inr r \<Rightarrow> Inr r)) (\<lambda>row'.
        unlessDuplicate errDuplicate (insertPrefix row'))))))))"

definition UpdatePrefix :: "nat \<Rightarrow> nat \<Rightarrow> string \<Rightarrow> PrefixDHCP \<Rightarrow> IpamPrefix ipam" where
  "UpdatePrefix nsID prefixID description dhcp =
     dbind (firstOr 404 ''prefix not found''
       (First pfx_ID t_prefixes (\<lambda>r. pfx_ID r = prefixID \<and> pfx_NamespaceID r = nsID))) (\<lambda>row0.
     let row = row0\<lparr>pfx_Description := TrimSpace description\<rparr> in
     dbind (dres (case applyDHCP row dhcp of Inl (st, e) \<Rightarrow> Inl (StatusErr st e) | Inr r \<Rightarrow> Inr r)) (\<lambda>row'.
     dbind (savePrefix row') (\<lambda>_. dret row')))"

definition vrfMap :: "IpamVRF list \<Rightarrow> nat \<Rightarrow> IpamVRF option" where
  "vrfMap rows = map_of (rev (map (\<lambda>v. (vrf_ID v, v)) rows))"

text \<open>The branch of \<open>ResolveAddressPrefix\<close> without a preferred prefix.\<close>

definition resolveByContainment :: "Address \<Rightarrow> pfx \<Rightarrow> string \<Rightarrow> Address ipam" where
  "resolveByContainment addr host vrfName =
     dbind (query t_prefixes) (\<lambda>prefixes.
     dbind (query t_vrfs) (\<lambda>vrfRows.
     let vrfs = vrfMap vrfRows;
         best = ContainingPrefix prefixes vrfs host vrfName;
         best = (if best = None \<and> vrfName \<noteq> [] then ContainingPrefix prefixes vrfs host [] else best)
     in case best of
          None \<Rightarrow> dfail (StatusErr 400 ''address does not belong to any allocated prefix'')
        | Some row \<Rightarrow>
            let addr' = addr\<lparr>adr_PrefixID := Some (pfx_ID row)\<rparr>
            in dret (case vrfs (pfx_VRFID row) of
                 Some v \<Rightarrow> addr'\<lparr>adr_VRF := vrf_Name v\<rparr> | None \<Rightarrow> addr')))"

definition resolvePreferred :: "Address \<Rightarrow> pfx \<Rightarrow> nat \<Rightarrow> Address ipam" where
  "resolvePreferred addr host pid =
     dbind (firstOr 400 ''prefix not found'' (First pfx_ID t_prefixes (\<lambda>r. pfx_ID r = pid))) (\<lambda>row.
     dbind (dres (case ParsePrefix (pfx_Prefix row) of
         Inl _ \<Rightarrow> Inl (StatusErr 400 ''prefix not found'') | Inr p \<Rightarrow> Inr p)) (\<lambda>p.
     dbind (dguard (\<not> (BitLen (pfx_addr p) \<noteq> BitLen (pfx_addr host) \<or> \<not> ContainsAddr p (pfx_addr host)))
       (StatusErr 400 ''address is not inside the selected prefix'')) (\<lambda>_.
     let addr' = addr\<lparr>adr_PrefixID := Some (pfx_ID row)\<rparr> in
     dcase (First vrf_ID t_vrfs (\<lambda>v. vrf_ID v = pfx_VRFID row)) (\<lambda>r. case r of
       Inr vrf \<Rightarrow> dret (addr'\<lparr>adr_VRF := vrf_Name vrf\<rparr>)
     | Inl _ \<Rightarrow> dret addr'))))"

definition ResolveAddressPrefix :: "Address \<Rightarrow> pfx \<Rightarrow> string \<Rightarrow> nat option \<Rightarrow> Address ipam" where
  "ResolveAddressPrefix addr host vrfName preferredID =
     (case preferredID of
        Some pid \<Rightarrow> if pid \<noteq> 0 then resolvePreferred addr host pid else resolveByContainment addr host vrfName
      | None \<Rightarrow> resolveByContainment addr host vrfName)"

definition DeletePrefix :: "nat \<Rightarrow> nat \<Rightarrow> unit ipam" where
  "DeletePrefix nsID prefixID =
     dbind (firstOr 404 ''prefix not found''
       (First pfx_ID t_prefixes (\<lambda>r. pfx_ID r = prefixID \<and> pfx_NamespaceID r = nsID))) (\<lambda>row.
     dbind (dguard (pfxIsLocal row) (StatusErr 403 ''prefixes synced from NetBox cannot be deleted here'')) (\<lambda>_.
     dbind (dres (case ParsePrefix (pfx_Prefix row) of Inl e \<Rightarrow> Inl (PlainErr e) | Inr p \<Rightarrow> Inr p)) (\<lambda>parent.
     dbind (Find t_prefixes (\<lambda>r. pfx_NamespaceID r = nsID \<and> pfx_VRFID r = pfx_VRFID row \<and> pfx_ID r \<noteq> prefixID)) (\<lambda>siblings.
     dbind (dguard (\<not> list_ex (strictlyContains parent) (parsedPrefixes (map pfx_Prefix siblings)))
       (StatusErr 409 ''prefix still has more-specific allocations'')) (\<lambda>_.
     dbind (Count t_addresses (\<lambda>a. adr_PrefixID a = Some prefixID)) (\<lambda>n.
     dbind (dguard (\<not> n > 0) (StatusErr 409 ''prefix still has IP addresses'')) (\<lambda>_.
     deletePrefixRow (pfx_ID row))))))))"

end
