(* ===== verification/Ipam_Plan.thy ===== *)
theory Ipam_Plan
  imports Ipam_Store
begin

text \<open>
  The invariant of the IPAM tables and its preservation by every operation of the store, whatever
  happens to the statements: ids are unique, every namespace has exactly one default VRF, every row
  refers to rows that exist, every stored prefix is canonical, and within a namespace no prefix is
  stored twice and no two VRFs share an address.
\<close>

definition ids_ok :: "('r \<Rightarrow> nat) \<Rightarrow> nat \<Rightarrow> 'r list \<Rightarrow> bool" where
  "ids_ok key q rows \<longleftrightarrow> 0 < q \<and> distinct (map key rows) \<and> (\<forall>r \<in> set rows. 0 < key r \<and> key r < q)"

definition canonical :: "string \<Rightarrow> bool" where
  "canonical s \<longleftrightarrow> (case ParsePrefix s of Inl _ \<Rightarrow> False | Inr p \<Rightarrow> pfx_string p = s)"

definition separate :: "IpamPrefix \<Rightarrow> IpamPrefix \<Rightarrow> bool" where
  "separate a b \<longleftrightarrow> (case (ParsePrefix (pfx_Prefix a), ParsePrefix (pfx_Prefix b)) of
     (Inr p, Inr q) \<Rightarrow> p \<noteq> q \<and> (pfx_VRFID a = pfx_VRFID b \<or> \<not> Overlaps p q)
   | _ \<Rightarrow> False)"

definition plan_ok :: "IpamPrefix list \<Rightarrow> bool" where
  "plan_ok rows \<longleftrightarrow> (\<forall>a \<in> set rows. \<forall>b \<in> set rows.
     pfx_ID a \<noteq> pfx_ID b \<and> pfx_NamespaceID a = pfx_NamespaceID b \<longrightarrow> separate a b)"

definition defaults_of :: "nat \<Rightarrow> IpamVRF list \<Rightarrow> IpamVRF list" where
  "defaults_of nsID vrfs = filter (\<lambda>v. vrf_NamespaceID v = nsID \<and> vrf_IsDefault v) vrfs"

definition refs_ok :: "ipam_db \<Rightarrow> bool" where
  "refs_ok db \<longleftrightarrow>
     (\<forall>v \<in> set (t_vrfs db). vrf_NamespaceID v \<in> ns_ID ` set (t_namespaces db)) \<and>
     (\<forall>p \<in> set (t_pools db). pool_NamespaceID p \<in> ns_ID ` set (t_namespaces db)) \<and>
     (\<forall>p \<in> set (t_prefixes db). \<exists>v \<in> set (t_vrfs db). vrf_ID v = pfx_VRFID p \<and> vrf_NamespaceID v = pfx_NamespaceID p)"

definition ipam_inv :: "ipam_db \<Rightarrow> bool" where
  "ipam_inv db \<longleftrightarrow>
     ids_ok ns_ID (q_namespaces db) (t_namespaces db) \<and> ids_ok pool_ID (q_pools db) (t_pools db) \<and>
     ids_ok vrf_ID (q_vrfs db) (t_vrfs db) \<and> ids_ok pfx_ID (q_prefixes db) (t_prefixes db) \<and>
     distinct (map ns_Name (t_namespaces db)) \<and> refs_ok db \<and>
     (\<forall>n \<in> set (t_namespaces db). length (defaults_of (ns_ID n) (t_vrfs db)) = 1) \<and>
     (\<forall>p \<in> set (t_pools db). canonical (pool_Prefix p)) \<and>
     (\<forall>p \<in> set (t_prefixes db). canonical (pfx_Prefix p)) \<and> plan_ok (t_prefixes db)"

lemma ids_ok_append: "ids_ok key q rows \<Longrightarrow> key r = q \<Longrightarrow> ids_ok key (Suc q) (rows @ [r])"
  by (auto simp: ids_ok_def less_Suc_eq)

lemma ids_ok_mono: "ids_ok key q rows \<Longrightarrow> q \<le> q' \<Longrightarrow> ids_ok key q' rows"
  by (auto simp: ids_ok_def)

lemma ids_ok_filter: "ids_ok key q rows \<Longrightarrow> ids_ok key q (filter P rows)"
  by (auto simp: ids_ok_def distinct_map intro: inj_on_subset)

lemma ids_ok_map:
  assumes "ids_ok key q rows" and "\<And>r. r \<in> set rows \<Longrightarrow> key (f r) = key r"
  shows "ids_ok key q (map f rows)"
proof -
  have "map key (map f rows) = map key rows" using assms(2) by simp
  then show ?thesis unfolding ids_ok_def using assms by (auto simp: ids_ok_def simp del: map_map)
qed

lemma image_key_map: "(\<And>r. key (f r) = key r) \<Longrightarrow> key ` set (map f rows) = key ` set rows"
  by (simp add: image_image)

lemmas ids_ok_rules = ids_ok_append ids_ok_mono ids_ok_filter ids_ok_map

lemma canonical_pfx_string: "valid_pfx p \<Longrightarrow> canonical (pfx_string p)"
  by (simp add: canonical_def ParsePrefix_pfx_string)

interpretation ipam: db_invariant ipam_inv ipam_rollback
proof unfold_locales
  fix db db'
  assume "ipam_inv db"
  then show "ipam_inv (ipam_rollback db db')"
    by (auto simp: ipam_inv_def ipam_rollback_def refs_ok_def elim!: ids_ok_mono)
qed

subsection \<open>Statements\<close>

lemma triple_firstOr: "triple P m Q E \<Longrightarrow> triple P (firstOr st msg m) Q E"
  unfolding firstOr_def by (erule triple_case) (auto intro!: triple_ret triple_fail split: sum.splits)

lemma triple_unlessDuplicate: "triple P m Q E \<Longrightarrow> triple P (unlessDuplicate msg m) Q E"
  unfolding unlessDuplicate_def by (erule triple_case) (auto intro!: triple_ret triple_fail)

lemma triple_loadNamespace:
  "(\<And>db. P db \<Longrightarrow> E db) \<Longrightarrow>
   triple P (loadNamespace n) (\<lambda>ns db. P db \<and> ns \<in> set (t_namespaces db) \<and> ns_ID ns = n) E"
  unfolding loadNamespace_def by (rule triple_firstOr) (rule triple_First)

lemma triple_GetNamespace: "(\<And>db. P db \<Longrightarrow> E db) \<Longrightarrow> triple P (GetNamespace collate n) (\<lambda>_. P) E"
  unfolding GetNamespace_def
  by (rule triple_bind[OF triple_loadNamespace] triple_bind[OF triple_query[where Q = "\<lambda>_. P"]]
      triple_bind[OF triple_Count] triple_ret; blast?)+

lemma loadNamespace_keeps: "ipam.keeps (loadNamespace n)"
  unfolding ipam.keeps_def
  by (rule triple_weaken[OF triple_loadNamespace[where P = ipam_inv and E = ipam_inv]]) auto

lemma GetNamespace_keeps: "ipam.keeps (GetNamespace collate n)"
  unfolding ipam.keeps_def by (rule triple_GetNamespace)

lemma firstOr_keeps: "ipam.keeps m \<Longrightarrow> ipam.keeps (firstOr st msg m)"
  unfolding ipam.keeps_def by (rule triple_firstOr)

lemma unlessDuplicate_keeps: "ipam.keeps m \<Longrightarrow> ipam.keeps (unlessDuplicate msg m)"
  unfolding ipam.keeps_def by (rule triple_unlessDuplicate)

definition ns_without_default :: "IpamNamespace \<Rightarrow> ipam_db \<Rightarrow> bool" where
  "ns_without_default ns db \<longleftrightarrow> (\<exists>d. ipam_inv d \<and> ns_ID ns = q_namespaces d \<and> ns_Name ns \<notin> ns_Name ` set (t_namespaces d) \<and>
     db = d\<lparr>q_namespaces := Suc (q_namespaces d), t_namespaces := t_namespaces d @ [ns]\<rparr>)"

lemma triple_insertNamespace:
  "triple ipam_inv (insertNamespace row) ns_without_default (\<lambda>_. True)"
  unfolding insertNamespace_def Let_def
proof (rule triple_stmt_if)
  fix db
  assume "ipam_inv db" and "\<not> list_ex (\<lambda>r. ns_Name r = ns_Name row) (t_namespaces db)"
  then show "ns_without_default (row\<lparr>ns_ID := q_namespaces db\<rparr>)
     (db\<lparr>q_namespaces := Suc (q_namespaces db),
          t_namespaces := t_namespaces db @ [row\<lparr>ns_ID := q_namespaces db\<rparr>]\<rparr>)"
    unfolding ns_without_default_def by (intro exI[of _ db]) (auto simp: list_ex_iff)
qed auto

lemma triple_insert_default:
  "triple (ns_without_default ns) (insertVRF (defaultVRFRow (ns_ID ns))) (\<lambda>_ db. ipam_inv db \<and> ns \<in> set (t_namespaces db)) (\<lambda>_. True)"
  unfolding insertVRF_def Let_def
proof (rule triple_stmt_if)
  fix db
  assume "ns_without_default ns db"
  then obtain d where d: "ipam_inv d" "ns_ID ns = q_namespaces d" "ns_Name ns \<notin> ns_Name ` set (t_namespaces d)"
    "db = d\<lparr>q_namespaces := Suc (q_namespaces d), t_namespaces := t_namespaces d @ [ns]\<rparr>"
    by (auto simp: ns_without_default_def)
  let ?row = "vrfBeforeCreate (defaultVRFRow (ns_ID ns))\<lparr>vrf_ID := q_vrfs d\<rparr>"
  let ?db = "db\<lparr>q_vrfs := Suc (q_vrfs d), t_vrfs := t_vrfs d @ [?row]\<rparr>"
  have row: "vrf_NamespaceID ?row = ns_ID ns" "vrf_IsDefault ?row" "vrf_ID ?row = q_vrfs d"
    by (simp_all add: vrfBeforeCreate_def defaultVRFRow_def)
  have none: "defaults_of (ns_ID ns) (t_vrfs d) = []"
    using d(1,2) by (fastforce simp: ipam_inv_def refs_ok_def ids_ok_def defaults_of_def filter_empty_conv)
  have old: "length (defaults_of (ns_ID n) (t_vrfs d @ [?row])) = 1" if "n \<in> set (t_namespaces d)" for n
    using that d(1,2) row by (auto simp: ipam_inv_def ids_ok_def defaults_of_def)
  have new: "length (defaults_of (ns_ID ns) (t_vrfs d @ [?row])) = 1"
    using none row by (simp add: defaults_of_def)
  have "refs_ok ?db" using d(1) row by (auto simp: ipam_inv_def refs_ok_def d(4))
  then have "ipam_inv ?db"
    using d(1-3) old new row(3) by (auto simp: ipam_inv_def d(4) intro!: ids_ok_append)
  then show "ipam_inv (db\<lparr>q_vrfs := Suc (q_vrfs db), t_vrfs := t_vrfs db @ [vrfBeforeCreate (defaultVRFRow (ns_ID ns))\<lparr>vrf_ID := q_vrfs db\<rparr>]\<rparr>) \<and>
    ns \<in> set (t_namespaces (db\<lparr>q_vrfs := Suc (q_vrfs db), t_vrfs := t_vrfs db @ [vrfBeforeCreate (defaultVRFRow (ns_ID ns))\<lparr>vrf_ID := q_vrfs db\<rparr>]\<rparr>))"
    by (simp add: d(4))
qed auto

subsection \<open>Operations\<close>

abbreviation has_ns :: "nat \<Rightarrow> ipam_db \<Rightarrow> bool" where
  "has_ns n db \<equiv> ipam_inv db \<and> n \<in> ns_ID ` set (t_namespaces db)"

lemma triple_create_with_default:
  "triple ipam_inv (transaction ipam_rollback (dbind (insertNamespace row) (\<lambda>ns.
     dbind (insertVRF (defaultVRFRow (ns_ID ns))) (\<lambda>_. dret ns))))
     (\<lambda>ns db. ipam_inv db \<and> ns \<in> set (t_namespaces db)) ipam_inv"
  by (rule triple_transaction[where F = "\<lambda>_. True"])
    (auto intro!: triple_bind[OF triple_insertNamespace] triple_bind[OF triple_insert_default] triple_ret
      intro: ipam.rollback_inv)

lemma triple_EnsureEmptyNamespace:
  "triple ipam_inv EnsureEmptyNamespace (\<lambda>ns db. ipam_inv db \<and> ns \<in> set (t_namespaces db)) ipam_inv"
proof -
  have first: "triple ipam_inv (First ns_ID t_namespaces R) (\<lambda>ns db. ipam_inv db \<and> ns \<in> set (t_namespaces db)) ipam_inv" for R
    by (rule triple_weaken[OF triple_First[where P = ipam_inv and E = ipam_inv]]) auto
  show ?thesis
    unfolding EnsureEmptyNamespace_def
    by (rule triple_case[OF first])
      (auto intro!: triple_ret triple_fail triple_case[OF triple_create_with_default] first)
qed

lemma triple_resolveNamespaceID: "triple ipam_inv (resolveNamespaceID n) has_ns ipam_inv"
  unfolding resolveNamespaceID_def
  by (auto intro!: triple_bind[OF triple_loadNamespace] triple_bind[OF triple_EnsureEmptyNamespace] triple_ret)

lemma CreateNamespace_keeps: "ipam.keeps (CreateNamespace collate name descr)"
proof -
  have "triple ipam_inv (dbind (unlessDuplicate msg (insertNamespace row)) (\<lambda>ns.
     dbind (insertVRF (defaultVRFRow (ns_ID ns))) (\<lambda>_. GetNamespace collate (ns_ID ns)))) (\<lambda>_. ipam_inv) (\<lambda>_. True)" for msg row
    by (rule triple_bind[OF triple_unlessDuplicate[OF triple_insertNamespace]]
        triple_bind[OF triple_insert_default] triple_weaken[OF triple_GetNamespace]; blast?)+
  then show ?thesis
    unfolding CreateNamespace_def Let_def by (intro ipam.keeps_bind ipam.keeps_guard ipam.keeps_transaction)
qed

lemma UpdateNamespace_keeps: "ipam.keeps (UpdateNamespace collate n name descr)"
proof -
  have "triple ipam_inv (updateNamespaceRow n name descr) (\<lambda>_. ipam_inv) ipam_inv" for name descr
    unfolding updateNamespaceRow_def
  proof (rule triple_stmt_if)
    fix db
    assume inv: "ipam_inv db" and c: "\<not> (list_ex (\<lambda>r. ns_ID r = n) (t_namespaces db) \<and>
        list_ex (\<lambda>r. ns_ID r \<noteq> n \<and> ns_Name r = name) (t_namespaces db))"
    let ?f = "\<lambda>r. if ns_ID r = n then r\<lparr>ns_Name := name, ns_Description := descr\<rparr> else r"
    let ?db = "db\<lparr>t_namespaces := map ?f (t_namespaces db)\<rparr>"
    have img: "ns_ID ` set (map ?f (t_namespaces db)) = ns_ID ` set (t_namespaces db)"
      by (rule image_key_map) simp
    have "distinct (map ns_Name (map ?f (t_namespaces db)))"
      using inv c by (auto simp: ipam_inv_def ids_ok_def distinct_map inj_on_def list_ex_iff)
    moreover have "refs_ok ?db" using inv img by (simp add: ipam_inv_def refs_ok_def)
    moreover have "\<forall>m \<in> set (map ?f (t_namespaces db)). length (defaults_of (ns_ID m) (t_vrfs db)) = 1"
      using inv by (auto simp: ipam_inv_def)
    moreover have "ids_ok ns_ID (q_namespaces db) (map ?f (t_namespaces db))"
      using inv by (auto simp: ipam_inv_def intro!: ids_ok_map)
    ultimately show "ipam_inv ?db" "ipam_inv ?db" using inv by (simp_all add: ipam_inv_def)
  qed auto
  then show ?thesis
    unfolding UpdateNamespace_def Let_def
    by (intro ipam.keeps_bind ipam.keeps_guard loadNamespace_keeps GetNamespace_keeps unlessDuplicate_keeps)
      (simp add: ipam.keeps_def)
qed

text \<open>A namespace without prefixes can be removed with its pools and VRFs.\<close>

lemma DeleteNamespace_keeps: "ipam.keeps (DeleteNamespace n)"
proof -
  let ?A = "\<lambda>db. ipam_inv db \<and> (\<forall>p \<in> set (t_prefixes db). pfx_NamespaceID p \<noteq> n)"
  let ?B = "\<lambda>db. ?A db \<and> (\<forall>p \<in> set (t_pools db). pool_NamespaceID p \<noteq> n)"
  let ?C = "\<lambda>db. \<exists>d. ?B d \<and> db = d\<lparr>t_vrfs := filter (\<lambda>v. vrf_NamespaceID v \<noteq> n) (t_vrfs d)\<rparr>"
  have pools: "triple ?A (deletePools (\<lambda>p. pool_NamespaceID p = n)) (\<lambda>_. ?B) (\<lambda>_. True)"
    unfolding deletePools_def
    by (rule triple_stmt_total) (auto simp: ipam_inv_def refs_ok_def intro!: ids_ok_filter)
  have vrfs: "triple ?B (deleteVRFs (\<lambda>v. vrf_NamespaceID v = n)) (\<lambda>_. ?C) (\<lambda>_. True)"
    unfolding deleteVRFs_def by (rule triple_stmt_total; blast)
  have "ipam_inv (d\<lparr>t_vrfs := filter (\<lambda>v. vrf_NamespaceID v \<noteq> n) (t_vrfs d),
      t_namespaces := filter (\<lambda>r. ns_ID r \<noteq> n) (t_namespaces d)\<rparr>)" if B: "?B d" for d
  proof -
    let ?vrfs = "filter (\<lambda>v. vrf_NamespaceID v \<noteq> n) (t_vrfs d)"
    have "defaults_of m ?vrfs = defaults_of m (t_vrfs d)" if "m \<noteq> n" for m
      using that by (auto simp: defaults_of_def intro!: filter_cong)
    moreover have "refs_ok (d\<lparr>t_vrfs := ?vrfs, t_namespaces := filter (\<lambda>r. ns_ID r \<noteq> n) (t_namespaces d)\<rparr>)"
      using B by (fastforce simp: ipam_inv_def refs_ok_def)
    ultimately show ?thesis using B by (auto simp: ipam_inv_def distinct_map inj_on_def intro!: ids_ok_filter)
  qed
  then have row: "triple ?C (deleteNamespaceRow n) (\<lambda>_. ipam_inv) (\<lambda>_. True)"
    unfolding deleteNamespaceRow_def by (rule_tac triple_stmt_total) auto
  have tx: "triple ?A (transaction ipam_rollback
       (dbind (deletePools (\<lambda>p. pool_NamespaceID p = n)) (\<lambda>_.
        dbind (deleteVRFs (\<lambda>v. vrf_NamespaceID v = n)) (\<lambda>_. deleteNamespaceRow n)))) (\<lambda>_. ipam_inv) ipam_inv"
    by (rule triple_transaction[where F = "\<lambda>_. True"])
      (auto intro!: triple_bind[OF pools] triple_bind[OF vrfs] row intro: ipam.rollback_inv)
  show ?thesis
    unfolding DeleteNamespace_def ipam.keeps_def
    by (rule triple_bind[OF triple_loadNamespace] triple_bind[OF triple_Count]
        triple_bind[OF triple_guard[where Q = "\<lambda>_. ?A"]] tx | force simp: filter_empty_conv)+
qed

lemma AddPool_keeps: "ipam.keeps (AddPool nsID raw)"
proof -
  have ins: "triple (\<lambda>db. has_ns nsID db \<and> valid_pfx p)
      (insertPool \<lparr>pool_ID = 0, pool_NamespaceID = nsID, pool_Prefix = pfx_string p, pool_Family = f\<rparr>)
      (\<lambda>_. ipam_inv) ipam_inv" for p f
  proof -
    have "ipam_inv (db\<lparr>q_pools := Suc (q_pools db), t_pools := t_pools db @ [\<lparr>pool_ID = q_pools db,
        pool_NamespaceID = nsID, pool_Prefix = pfx_string p, pool_Family = f\<rparr>]\<rparr>)"
      if "has_ns nsID db" "valid_pfx p" for db
      using that by (auto simp: ipam_inv_def refs_ok_def canonical_pfx_string intro!: ids_ok_append)
    moreover have "ipam_inv (db\<lparr>q_pools := Suc (q_pools db)\<rparr>)" if "ipam_inv db" for db
      using that by (auto simp: ipam_inv_def refs_ok_def elim: ids_ok_mono)
    ultimately show ?thesis unfolding insertPool_def Let_def by (intro triple_stmt_if) auto
  qed
  have chk: "triple (\<lambda>db. has_ns nsID db \<and> valid_pfx p) (case c of Some e \<Rightarrow> dfail (StatusErr 409 e) | None \<Rightarrow> dret ())
      (\<lambda>_ db. has_ns nsID db \<and> valid_pfx p) ipam_inv" for c p
    by (auto intro!: triple_fail triple_ret split: option.splits)
  have parse: "triple (has_ns nsID) (dres (case ParsePrefix raw of Inl e \<Rightarrow> Inl (StatusErr 400 e) | Inr p \<Rightarrow> Inr p))
      (\<lambda>p db. has_ns nsID db \<and> valid_pfx p) ipam_inv"
    by (rule triple_res) (auto simp: ParsePrefix_valid split: sum.splits)
  have load: "triple ipam_inv (loadNamespace nsID) (\<lambda>_. has_ns nsID) ipam_inv"
    by (rule triple_weaken[OF triple_loadNamespace[where P = ipam_inv and E = ipam_inv]]) auto
  have find: "triple (\<lambda>db. has_ns nsID db \<and> valid_pfx p) (Find t_pools R) (\<lambda>_ db. has_ns nsID db \<and> valid_pfx p) ipam_inv" for p R
    by (rule triple_weaken[OF triple_Find[where P = "\<lambda>db. has_ns nsID db \<and> valid_pfx p" and E = ipam_inv]]) auto
  show ?thesis
    unfolding AddPool_def ipam.keeps_def
    by (intro triple_bind[OF load] triple_bind[OF parse] triple_bind[OF find] triple_bind[OF chk] triple_unlessDuplicate ins)
qed

lemma deletePools_keeps: "ipam.keeps (deletePools P)"
  unfolding deletePools_def
  by (rule ipam.keeps_stmt) (auto simp: ipam_inv_def refs_ok_def intro!: ids_ok_filter)

lemma DeletePool_keeps: "ipam.keeps (DeletePool nsID poolID)"
  unfolding DeletePool_def Let_def
  by (intro ipam.keeps_bind ipam.keeps_rules firstOr_keeps deletePools_keeps)

subsection \<open>VRF operations\<close>

lemma insertVRF_keeps:
  assumes "\<not> vrf_IsDefault row"
  shows "triple (has_ns (vrf_NamespaceID row)) (insertVRF row) (\<lambda>_. ipam_inv) ipam_inv"
proof -
  let ?row = "\<lambda>db. vrfBeforeCreate row\<lparr>vrf_ID := q_vrfs db\<rparr>"
  have row: "vrf_NamespaceID (?row db) = vrf_NamespaceID row" "\<not> vrf_IsDefault (?row db)" "vrf_ID (?row db) = q_vrfs db" for db
    using assms by (simp_all add: vrfBeforeCreate_def)
  have "ipam_inv (db\<lparr>q_vrfs := Suc (q_vrfs db), t_vrfs := t_vrfs db @ [?row db]\<rparr>)"
    if "has_ns (vrf_NamespaceID row) db" for db
  proof -
    have "defaults_of n (t_vrfs db @ [?row db]) = defaults_of n (t_vrfs db)" for n
      using row by (simp add: defaults_of_def)
    moreover have "refs_ok (db\<lparr>q_vrfs := Suc (q_vrfs db), t_vrfs := t_vrfs db @ [?row db]\<rparr>)"
      using that row(1)[of db] by (auto simp: ipam_inv_def refs_ok_def)
    ultimately show ?thesis using that row(3)[of db] by (auto simp: ipam_inv_def intro!: ids_ok_append)
  qed
  moreover have "ipam_inv (db\<lparr>q_vrfs := Suc (q_vrfs db)\<rparr>)" if "ipam_inv db" for db
    using that by (auto simp: ipam_inv_def refs_ok_def elim: ids_ok_mono)
  ultimately show ?thesis unfolding insertVRF_def Let_def by (intro triple_stmt_if) auto
qed

lemma CreateVRF_keeps: "ipam.keeps (CreateVRF nsID w)"
proof -
  have guard: "triple (has_ns m) (dguard ok e) (\<lambda>_. has_ns m) ipam_inv" for m ok e
    by (rule triple_guard) auto
  have ins: "triple (has_ns m) (insertVRF (zeroVRF\<lparr>vrf_NamespaceID := m, vrf_Name := a, vrf_Description := b,
      vrf_RD := c, vrf_ImportRT := d, vrf_ExportRT := e, vrf_Source := f\<rparr>)) (\<lambda>_. ipam_inv) ipam_inv" for m a b c d e f
    using insertVRF_keeps[of "zeroVRF\<lparr>vrf_NamespaceID := m, vrf_Name := a, vrf_Description := b,
      vrf_RD := c, vrf_ImportRT := d, vrf_ExportRT := e, vrf_Source := f\<rparr>"] by (simp add: zeroVRF_def)
  show ?thesis
    unfolding CreateVRF_def Let_def ipam.keeps_def
    by (intro triple_bind[OF triple_resolveNamespaceID] triple_bind[OF guard] triple_unlessDuplicate ins)
qed

lemma ids_ok_unique: "ids_ok key q rows \<Longrightarrow> a \<in> set rows \<Longrightarrow> b \<in> set rows \<Longrightarrow> key a = key b \<Longrightarrow> a = b"
  by (auto simp: ids_ok_def distinct_map inj_on_def)

lemma defaults_of_map:
  assumes "\<forall>r \<in> set rows. vrf_NamespaceID (f r) = vrf_NamespaceID r \<and> vrf_IsDefault (f r) = vrf_IsDefault r"
  shows "length (defaults_of n (map f rows)) = length (defaults_of n rows)"
  using assms by (induction rows) (auto simp: defaults_of_def)

lemma inv_map_vrfs:
  assumes inv: "ipam_inv db"
    and same: "\<forall>r \<in> set (t_vrfs db). vrf_ID (f r) = vrf_ID r \<and> vrf_NamespaceID (f r) = vrf_NamespaceID r \<and>
      vrf_IsDefault (f r) = vrf_IsDefault r"
  shows "ipam_inv (db\<lparr>t_vrfs := map f (t_vrfs db)\<rparr>)"
proof -
  have "refs_ok (db\<lparr>t_vrfs := map f (t_vrfs db)\<rparr>)"
    using inv same by (auto simp: ipam_inv_def refs_ok_def)
  moreover have "length (defaults_of n (map f (t_vrfs db))) = length (defaults_of n (t_vrfs db))" for n
    using same by (intro defaults_of_map) simp
  moreover have "ids_ok vrf_ID (q_vrfs db) (map f (t_vrfs db))"
    using inv same by (intro ids_ok_map) (auto simp: ipam_inv_def)
  ultimately show ?thesis using inv by (simp add: ipam_inv_def)
qed

lemma saveVRF_keeps:
  assumes "vrf_ID row' = vrf_ID row" "vrf_NamespaceID row' = vrf_NamespaceID row" "vrf_IsDefault row' = vrf_IsDefault row"
  shows "triple (\<lambda>db. ipam_inv db \<and> row \<in> set (t_vrfs db)) (saveVRF row') (\<lambda>_. ipam_inv) ipam_inv"
proof -
  have "ipam_inv (db\<lparr>t_vrfs := map (\<lambda>r. if vrf_ID r = vrf_ID row' then row' else r) (t_vrfs db)\<rparr>)"
    if inv: "ipam_inv db" and row: "row \<in> set (t_vrfs db)" for db
    using assms row inv ids_ok_unique[of vrf_ID "q_vrfs db" "t_vrfs db" _ row]
    by (intro inv_map_vrfs) (auto simp: ipam_inv_def)
  then show ?thesis unfolding saveVRF_def by (intro triple_stmt_if) auto
qed

lemma UpdateVRF_keeps: "ipam.keeps (UpdateVRF nsID vrfID w)"
proof -
  let ?P = "\<lambda>row db. ipam_inv db \<and> row \<in> set (t_vrfs db)"
  have first: "triple ipam_inv (firstOr st msg (First vrf_ID t_vrfs R)) ?P ipam_inv" for st msg R
    by (rule triple_firstOr, rule triple_weaken[OF triple_First[where P = ipam_inv and E = ipam_inv]]) auto
  have guard: "triple (?P row) (dguard ok e) (\<lambda>_. ?P row) ipam_inv" for row ok e
    by (rule triple_guard) auto
  show ?thesis
    unfolding UpdateVRF_def Let_def ipam.keeps_def
    by (intro triple_bind[OF first] triple_bind[OF guard]
        triple_bind[OF triple_unlessDuplicate[OF saveVRF_keeps]] triple_ret) auto
qed

lemma DeleteVRF_keeps: "ipam.keeps (DeleteVRF nsID vrfID)"
proof -
  let ?P = "\<lambda>row db. ipam_inv db \<and> row \<in> set (t_vrfs db) \<and> vrf_ID row = vrfID"
  let ?Q = "\<lambda>row db. ?P row db \<and> \<not> vrf_IsDefault row"
  let ?R = "\<lambda>row db. ?Q row db \<and> (\<forall>p \<in> set (t_prefixes db). pfx_VRFID p \<noteq> vrfID)"
  have first: "triple ipam_inv (firstOr st msg (First vrf_ID t_vrfs (\<lambda>r. vrf_ID r = vrfID \<and> vrf_NamespaceID r = nsID))) ?P ipam_inv" for st msg
    by (rule triple_firstOr, rule triple_weaken[OF triple_First[where P = ipam_inv and E = ipam_inv]]) auto
  have local: "triple (?P row) (dguard ok e) (\<lambda>_. ?P row) ipam_inv" for row ok e
    by (rule triple_guard) auto
  have nondefault: "triple (?P row) (dguard (\<not> vrf_IsDefault row) e) (\<lambda>_. ?Q row) ipam_inv" for row e
    by (rule triple_guard) auto
  have count: "triple (?Q row) (Count t_prefixes (\<lambda>p. pfx_VRFID p = vrfID))
      (\<lambda>n db. ?Q row db \<and> (n = 0 \<longrightarrow> ?R row db)) ipam_inv" for row
    by (rule triple_weaken[OF triple_Count[where P = "?Q row" and E = ipam_inv]]) (auto simp: filter_empty_conv)
  have empty: "triple (\<lambda>db. ?Q row db \<and> (n = 0 \<longrightarrow> ?R row db)) (dguard (\<not> 0 < n) e) (\<lambda>_. ?R row) ipam_inv" for row e and n :: nat
    by (rule triple_guard) auto
  have "ipam_inv (db\<lparr>t_vrfs := filter (\<lambda>r. vrf_ID r \<noteq> vrf_ID row) (t_vrfs db)\<rparr>)" if "?R row db" for row db
  proof -
    have inv: "ipam_inv db" using that by simp
    have "r = row" if "r \<in> set (t_vrfs db)" "vrf_ID r = vrf_ID row" for r
      using ids_ok_unique[of vrf_ID "q_vrfs db" "t_vrfs db" r row] inv that \<open>?R row db\<close> by (auto simp: ipam_inv_def)
    then have "defaults_of n (filter (\<lambda>r. vrf_ID r \<noteq> vrf_ID row) (t_vrfs db)) = defaults_of n (t_vrfs db)" for n
      using that by (auto simp: defaults_of_def intro!: filter_cong)
    moreover have "refs_ok (db\<lparr>t_vrfs := filter (\<lambda>r. vrf_ID r \<noteq> vrf_ID row) (t_vrfs db)\<rparr>)"
      using that by (fastforce simp: ipam_inv_def refs_ok_def)
    ultimately show ?thesis using inv by (auto simp: ipam_inv_def intro!: ids_ok_filter)
  qed
  then have del: "triple (?R row) (deleteVRFs (\<lambda>r. vrf_ID r = vrf_ID row)) (\<lambda>_. ipam_inv) ipam_inv" for row
    unfolding deleteVRFs_def by (intro triple_stmt_total) auto
  show ?thesis
    unfolding DeleteVRF_def ipam.keeps_def
    by (intro triple_bind[OF first] triple_bind[OF local] triple_bind[OF nondefault] triple_bind[OF count]
        triple_bind[OF empty] del)
qed

subsection \<open>Prefix operations\<close>

lemma applyDHCP_fields:
  assumes "applyDHCP row d = Inr row'"
  shows "pfx_ID row' = pfx_ID row" "pfx_NamespaceID row' = pfx_NamespaceID row" "pfx_VRFID row' = pfx_VRFID row"
    "pfx_Prefix row' = pfx_Prefix row" "pfx_NetboxID row' = pfx_NetboxID row" "pfx_Source row' = pfx_Source row"
  using assms by (auto simp: applyDHCP_def Let_def storeDHCP_def split: sum.splits)

lemma separate_sym: "separate a b = separate b a"
  by (auto simp: separate_def Overlaps_def min.commute Let_def split: sum.splits)

lemma separate_cong:
  "pfx_Prefix a' = pfx_Prefix a \<Longrightarrow> pfx_VRFID a' = pfx_VRFID a \<Longrightarrow> pfx_Prefix b' = pfx_Prefix b \<Longrightarrow>
   pfx_VRFID b' = pfx_VRFID b \<Longrightarrow> separate a' b' = separate a b"
  by (auto simp: separate_def split: sum.splits)

lemma plan_ok_map:
  assumes "plan_ok rows"
    and "\<forall>r \<in> set rows. pfx_ID (f r) = pfx_ID r \<and> pfx_NamespaceID (f r) = pfx_NamespaceID r \<and>
      pfx_VRFID (f r) = pfx_VRFID r \<and> pfx_Prefix (f r) = pfx_Prefix r"
  shows "plan_ok (map f rows)"
proof -
  have "separate (f a) (f b) = separate a b" if "a \<in> set rows" "b \<in> set rows" for a b
    using assms(2) that by (intro separate_cong) auto
  then show ?thesis using assms by (auto simp: plan_ok_def)
qed

lemma savePrefix_keeps:
  assumes "pfx_ID row' = pfx_ID row" "pfx_NamespaceID row' = pfx_NamespaceID row" "pfx_VRFID row' = pfx_VRFID row"
    "pfx_Prefix row' = pfx_Prefix row"
  shows "triple (\<lambda>db. ipam_inv db \<and> row \<in> set (t_prefixes db)) (savePrefix row') (\<lambda>_. ipam_inv) ipam_inv"
proof -
  let ?f = "\<lambda>r. if pfx_ID r = pfx_ID row' then row' else r"
  have "ipam_inv (db\<lparr>t_prefixes := map ?f (t_prefixes db)\<rparr>)" if inv: "ipam_inv db" and row: "row \<in> set (t_prefixes db)" for db
  proof -
    have same: "\<forall>r \<in> set (t_prefixes db). pfx_ID (?f r) = pfx_ID r \<and> pfx_NamespaceID (?f r) = pfx_NamespaceID r \<and>
        pfx_VRFID (?f r) = pfx_VRFID r \<and> pfx_Prefix (?f r) = pfx_Prefix r"
      using assms row inv ids_ok_unique[of pfx_ID "q_prefixes db" "t_prefixes db" _ row] by (auto simp: ipam_inv_def)
    have "refs_ok (db\<lparr>t_prefixes := map ?f (t_prefixes db)\<rparr>)"
      using inv same by (auto simp: ipam_inv_def refs_ok_def)
    moreover have "ids_ok pfx_ID (q_prefixes db) (map ?f (t_prefixes db))"
      using inv same by (intro ids_ok_map) (auto simp: ipam_inv_def)
    moreover have "plan_ok (map ?f (t_prefixes db))" using inv same by (intro plan_ok_map) (auto simp: ipam_inv_def)
    moreover have "\<forall>p \<in> set (map ?f (t_prefixes db)). canonical (pfx_Prefix p)" using inv same by (auto simp: ipam_inv_def)
    ultimately show ?thesis using inv by (simp add: ipam_inv_def)
  qed
  then show ?thesis unfolding savePrefix_def by (intro triple_stmt_if) auto
qed

lemma UpdatePrefix_keeps: "ipam.keeps (UpdatePrefix nsID prefixID descr dhcp)"
proof -
  let ?P = "\<lambda>row db. ipam_inv db \<and> row \<in> set (t_prefixes db)"
  let ?Q = "\<lambda>row row' db. ?P row db \<and> pfx_ID row' = pfx_ID row \<and> pfx_NamespaceID row' = pfx_NamespaceID row \<and>
    pfx_VRFID row' = pfx_VRFID row \<and> pfx_Prefix row' = pfx_Prefix row"
  have first: "triple ipam_inv (firstOr st msg (First pfx_ID t_prefixes R)) ?P ipam_inv" for st msg R
    by (rule triple_firstOr, rule triple_weaken[OF triple_First[where P = ipam_inv and E = ipam_inv]]) auto
  have dhcp: "triple (?P row) (dres (case applyDHCP (row\<lparr>pfx_Description := descr\<rparr>) dhcp of
      Inl (st, e) \<Rightarrow> Inl (StatusErr st e) | Inr r \<Rightarrow> Inr r)) (?Q row) ipam_inv" for row descr
    by (rule triple_res) (auto dest: applyDHCP_fields split: sum.splits)
  have save: "triple (?Q row row') (savePrefix row') (\<lambda>_. ipam_inv) ipam_inv" for row row'
    using savePrefix_keeps[of row' row] unfolding triple_def by blast
  show ?thesis
    unfolding UpdatePrefix_def Let_def ipam.keeps_def
    by (intro triple_bind[OF first] triple_bind[OF dhcp] triple_bind[OF save] triple_ret)
qed

lemma plan_ok_filter: "plan_ok rows \<Longrightarrow> plan_ok (filter P rows)"
  by (simp add: plan_ok_def)

lemma deletePrefixRow_keeps: "ipam.keeps (deletePrefixRow n)"
  unfolding deletePrefixRow_def
  by (rule ipam.keeps_stmt) (auto simp: ipam_inv_def refs_ok_def intro!: ids_ok_filter plan_ok_filter)

lemma DeletePrefix_keeps: "ipam.keeps (DeletePrefix nsID prefixID)"
  unfolding DeletePrefix_def
  by (intro ipam.keeps_bind ipam.keeps_rules firstOr_keeps deletePrefixRow_keeps)

lemma ResolveAddressPrefix_keeps: "ipam.keeps (ResolveAddressPrefix addr host vrfName preferred)"
  unfolding ResolveAddressPrefix_def resolvePreferred_def resolveByContainment_def Let_def
  by (auto intro!: ipam.keeps_bind ipam.keeps_case ipam.keeps_rules firstOr_keeps split: option.splits sum.splits)

text \<open>What checkAllocate has read is what the insert meets: the new row keeps apart from every other one.\<close>

lemma canonical_parses: "canonical s \<Longrightarrow> \<exists>q. ParsePrefix s = Inr q"
  by (cases "ParsePrefix s") (auto simp: canonical_def)

lemma inv_parses: "ipam_inv db \<Longrightarrow> r \<in> set (t_prefixes db) \<Longrightarrow> \<exists>q. ParsePrefix (pfx_Prefix r) = Inr q"
  by (rule canonical_parses) (simp add: ipam_inv_def)

lemma set_parsedPrefixes: "q \<in> set (parsedPrefixes ss) \<longleftrightarrow> (\<exists>s \<in> set ss. ParsePrefix s = Inr q)"
  by (induction ss) (auto simp: parsedPrefixes_def split: sum.splits)

lemma set_allocationsOf:
  "g \<in> set (allocationsOf rows) \<longleftrightarrow> (\<exists>r \<in> set rows. \<exists>q. ParsePrefix (pfx_Prefix r) = Inr q \<and>
     g = \<lparr>alloc_Prefix = q, alloc_VRFID = pfx_VRFID r\<rparr>)"
  by (induction rows) (auto simp: allocationsOf_def split: sum.splits)

lemma allocationsOf_covers:
  "r \<in> set rows \<Longrightarrow> ParsePrefix (pfx_Prefix r) = Inr q \<Longrightarrow>
   \<lparr>alloc_Prefix = q, alloc_VRFID = pfx_VRFID r\<rparr> \<in> set (allocationsOf rows)"
  by (auto simp: set_allocationsOf)

lemma allocationsOf_valid: "g \<in> set (allocationsOf rows) \<Longrightarrow> valid_pfx (alloc_Prefix g)"
  by (auto simp: set_allocationsOf ParsePrefix_valid)

lemma checkAllocate_separate:
  assumes "checkAllocate (allocationsOf (filter (\<lambda>r. pfx_NamespaceID r = nsID) rows)) p v = None"
    and "valid_pfx p" and "pfx_Prefix row = pfx_string p" and "pfx_VRFID row = v"
    and "r \<in> set rows" and "pfx_NamespaceID r = nsID" and "canonical (pfx_Prefix r)"
  shows "separate r row"
proof -
  obtain q where q: "ParsePrefix (pfx_Prefix r) = Inr q" using assms(7) by (auto simp: canonical_def split: sum.splits)
  have "\<lparr>alloc_Prefix = q, alloc_VRFID = pfx_VRFID r\<rparr> \<in> set (allocationsOf (filter (\<lambda>r. pfx_NamespaceID r = nsID) rows))"
    using assms(5,6) q by (intro allocationsOf_covers) auto
  with assms(1,2) have "q \<noteq> p" "pfx_VRFID r \<noteq> v \<longrightarrow> addrs_of q \<inter> addrs_of p = {}"
    using checkAllocate_None_iff[of "allocationsOf (filter (\<lambda>r. pfx_NamespaceID r = nsID) rows)" p v]
      allocationsOf_valid by fastforce+
  then show ?thesis
    using q assms(2-4) ParsePrefix_valid[OF q] Overlaps_iff[of q p]
    by (auto simp: separate_def ParsePrefix_pfx_string)
qed

lemma inv_insert_prefix:
  assumes inv: "ipam_inv db" and "valid_pfx p" and "pfx_Prefix row = pfx_string p"
    and "pfx_ID row = q_prefixes db" and vrf: "vrf \<in> set (t_vrfs db)" "vrf_NamespaceID vrf = pfx_NamespaceID row" "vrf_ID vrf = pfx_VRFID row"
    and chk: "checkAllocate (allocationsOf (filter (\<lambda>r. pfx_NamespaceID r = pfx_NamespaceID row) (t_prefixes db))) p (pfx_VRFID row) = None"
  shows "ipam_inv (db\<lparr>q_prefixes := Suc (q_prefixes db), t_prefixes := t_prefixes db @ [row]\<rparr>)"
proof -
  have sep: "separate r row" if "r \<in> set (t_prefixes db)" "pfx_NamespaceID r = pfx_NamespaceID row" for r
    using that inv assms(2,3) chk by (intro checkAllocate_separate) (auto simp: ipam_inv_def)
  have "plan_ok (t_prefixes db @ [row])"
    using inv sep separate_sym by (auto simp: ipam_inv_def plan_ok_def)
  moreover have "refs_ok (db\<lparr>q_prefixes := Suc (q_prefixes db), t_prefixes := t_prefixes db @ [row]\<rparr>)"
    using inv vrf by (auto simp: ipam_inv_def refs_ok_def)
  ultimately show ?thesis
    using inv assms(2-4) by (auto simp: ipam_inv_def canonical_pfx_string intro!: ids_ok_append)
qed

lemma Allocate_keeps: "ipam.keeps (Allocate nsID vrfID raw descr dhcp)"
proof -
  let ?V = "\<lambda>m vrf db. ipam_inv db \<and> vrf \<in> set (t_vrfs db) \<and> vrf_NamespaceID vrf = m"
  let ?A = "\<lambda>m vrf p ex db. ?V m vrf db \<and> ex = allocationsOf (filter (\<lambda>r. pfx_NamespaceID r = m) (t_prefixes db))"
  let ?C = "\<lambda>m vrf p db. ?V m vrf db \<and>
    checkAllocate (allocationsOf (filter (\<lambda>r. pfx_NamespaceID r = m) (t_prefixes db))) p (vrf_ID vrf) = None"
  let ?D = "\<lambda>m vrf p row db. ?C m vrf p db \<and> pfx_NamespaceID row = m \<and> pfx_VRFID row = vrf_ID vrf \<and> pfx_Prefix row = pfx_string p"
  have vrf: "triple ipam_inv (loadVRF m vrfID) (?V m) (\<lambda>_. True)" for m
    unfolding loadVRF_def by (rule triple_firstOr, rule triple_weaken[OF triple_First[where P = ipam_inv and E = "\<lambda>_. True"]]) auto
  have load: "triple (?V m vrf) (loadAllocations m) (?A m vrf p) (\<lambda>_. True)" for m vrf p
    unfolding loadAllocations_def by (rule triple_bind[OF triple_Find] triple_ret | simp)+
  have chk: "triple (?A m vrf p ex) (case checkAllocate ex p (vrf_ID vrf) of Some e \<Rightarrow> dfail (StatusErr 409 e) | None \<Rightarrow> dret ())
     (\<lambda>_. ?C m vrf p) (\<lambda>_. True)" for m vrf p ex
    by (auto intro!: triple_fail triple_ret split: option.splits)
  have dhcp: "triple (?C m vrf p) (dres (case applyDHCP (zeroPrefix\<lparr>pfx_NamespaceID := m, pfx_VRFID := vrf_ID vrf, pfx_Prefix := pfx_string p,
     pfx_Family := f, pfx_Description := descr\<rparr>) dhcp of Inl (st, e) \<Rightarrow> Inl (StatusErr st e) | Inr r \<Rightarrow> Inr r)) (?D m vrf p) (\<lambda>_. True)"
    for m vrf p f descr
    by (rule triple_res) (auto dest: applyDHCP_fields split: sum.splits)
  have ins: "triple (?D m vrf p row) (insertPrefix row) (\<lambda>_. ipam_inv) (\<lambda>_. True)" if "valid_pfx p" for m vrf p row
    unfolding insertPrefix_def Let_def
    by (rule triple_stmt_if) (use that in \<open>auto intro!: inv_insert_prefix simp: pfxBeforeCreate_def\<close>)
  have body: "triple ipam_inv (dbind (loadVRF m vrfID) (\<lambda>vrf. dbind (loadAllocations m) (\<lambda>existing.
      dbind (case checkAllocate existing p (vrf_ID vrf) of Some e \<Rightarrow> dfail (StatusErr 409 e) | None \<Rightarrow> dret ()) (\<lambda>_.
      dbind (dres (case applyDHCP (zeroPrefix\<lparr>pfx_NamespaceID := m, pfx_VRFID := vrf_ID vrf, pfx_Prefix := pfx_string p,
         pfx_Family := familyOf p, pfx_Description := TrimSpace descr\<rparr>) dhcp of Inl (st, e) \<Rightarrow> Inl (StatusErr st e) | Inr r \<Rightarrow> Inr r)) (\<lambda>row'.
      unlessDuplicate errDuplicate (insertPrefix row')))))) (\<lambda>_. ipam_inv) (\<lambda>_. True)" if "valid_pfx p" for m p
    by (intro triple_bind[OF vrf] triple_bind[OF load] triple_bind[OF chk] triple_bind[OF dhcp] triple_unlessDuplicate ins that)
  have parse: "triple ipam_inv (dres (case ParsePrefix raw of Inl e \<Rightarrow> Inl (StatusErr 400 e) | Inr p \<Rightarrow> Inr p))
      (\<lambda>p db. ipam_inv db \<and> valid_pfx p) ipam_inv"
    by (rule triple_res) (auto simp: ParsePrefix_valid split: sum.splits)
  have resolve: "triple ipam_inv (resolveNamespaceID nsID) (\<lambda>_. ipam_inv) ipam_inv"
    by (rule triple_weaken[OF triple_resolveNamespaceID]) auto
  show ?thesis
    unfolding Allocate_def Let_def ipam.keeps_def
    by (intro triple_bind[OF resolve] triple_bind[OF parse] triple_pure
        ipam.keeps_transaction[unfolded ipam.keeps_def] body)
qed

subsection \<open>Sequences of requests\<close>

datatype ipam_op =
    OpCreateNamespace string string
  | OpUpdateNamespace nat string string
  | OpDeleteNamespace nat
  | OpAddPool nat string
  | OpDeletePool nat nat
  | OpCreateVRF nat VRFWrite
  | OpUpdateVRF nat nat VRFWrite
  | OpDeleteVRF nat nat
  | OpAllocate nat nat string string PrefixDHCP
  | OpUpdatePrefix nat nat string PrefixDHCP
  | OpDeletePrefix nat nat

fun runOp :: "ipam_op \<Rightarrow> unit ipam" where
  "runOp (OpCreateNamespace name descr) = dbind (CreateNamespace str_less name descr) (\<lambda>_. dret ())"
| "runOp (OpUpdateNamespace n name descr) = dbind (UpdateNamespace str_less n name descr) (\<lambda>_. dret ())"
| "runOp (OpDeleteNamespace n) = DeleteNamespace n"
| "runOp (OpAddPool n raw) = dbind (AddPool n raw) (\<lambda>_. dret ())"
| "runOp (OpDeletePool n i) = DeletePool n i"
| "runOp (OpCreateVRF n w) = dbind (CreateVRF n w) (\<lambda>_. dret ())"
| "runOp (OpUpdateVRF n i w) = dbind (UpdateVRF n i w) (\<lambda>_. dret ())"
| "runOp (OpDeleteVRF n i) = DeleteVRF n i"
| "runOp (OpAllocate n v raw descr dhcp) = dbind (Allocate n v raw descr dhcp) (\<lambda>_. dret ())"
| "runOp (OpUpdatePrefix n i descr dhcp) = dbind (UpdatePrefix n i descr dhcp) (\<lambda>_. dret ())"
| "runOp (OpDeletePrefix n i) = DeletePrefix n i"

lemma runOp_keeps: "ipam.keeps (runOp op)"
  by (cases op)
    (auto intro!: ipam.keeps_bind ipam.keeps_ret CreateNamespace_keeps UpdateNamespace_keeps DeleteNamespace_keeps
      AddPool_keeps DeletePool_keeps CreateVRF_keeps UpdateVRF_keeps DeleteVRF_keeps Allocate_keeps
      UpdatePrefix_keeps DeletePrefix_keeps)

definition emptyDb :: ipam_db where
  "emptyDb = \<lparr>t_namespaces = [], q_namespaces = 1, t_pools = [], q_pools = 1, t_vrfs = [], q_vrfs = 1,
     t_prefixes = [], q_prefixes = 1, t_addresses = []\<rparr>"

text \<open>A state reached from the empty tables by requests, each with its own schedule of statement events.\<close>

inductive reachable :: "ipam_db \<Rightarrow> bool" where
  start: "reachable emptyDb"
| step: "reachable db \<Longrightarrow> snd (runOp op (db, evs)) = (db', evs') \<Longrightarrow> reachable db'"

lemma reachable_inv: "reachable db \<Longrightarrow> ipam_inv db"
proof (induction rule: reachable.induct)
  case start
  then show ?case by (simp add: emptyDb_def ipam_inv_def ids_ok_def refs_ok_def plan_ok_def)
next
  case (step db op evs db' evs')
  then show ?case using ipam.keepsD[OF runOp_keeps, of "(db, evs)" op] by simp
qed


text \<open>
  C21: In every reachable state each namespace has exactly one default VRF, namespace names are unique,
  every prefix lies in a VRF of its own namespace, and every VRF and pool in an existing namespace.
\<close>

theorem store_references_intact:
  assumes "reachable db"
  shows "(\<forall>n \<in> set (t_namespaces db). \<exists>!v. v \<in> set (t_vrfs db) \<and> vrf_NamespaceID v = ns_ID n \<and> vrf_IsDefault v) \<and>
    distinct (map ns_Name (t_namespaces db)) \<and>
    (\<forall>p \<in> set (t_prefixes db). \<exists>v \<in> set (t_vrfs db). vrf_ID v = pfx_VRFID p \<and> vrf_NamespaceID v = pfx_NamespaceID p) \<and>
    (\<forall>v \<in> set (t_vrfs db). vrf_NamespaceID v \<in> ns_ID ` set (t_namespaces db)) \<and>
    (\<forall>p \<in> set (t_pools db). pool_NamespaceID p \<in> ns_ID ` set (t_namespaces db))"
proof -
  have inv: "ipam_inv db" by (rule reachable_inv[OF assms])
  have "\<exists>!v. v \<in> set (t_vrfs db) \<and> vrf_NamespaceID v = ns_ID n \<and> vrf_IsDefault v" if "n \<in> set (t_namespaces db)" for n
  proof -
    have "length (defaults_of (ns_ID n) (t_vrfs db)) = 1" using inv that by (simp add: ipam_inv_def)
    then obtain v where "defaults_of (ns_ID n) (t_vrfs db) = [v]" by (auto simp: length_Suc_conv)
    then have "set (defaults_of (ns_ID n) (t_vrfs db)) = {v}" by simp
    then have "x \<in> set (t_vrfs db) \<and> vrf_NamespaceID x = ns_ID n \<and> vrf_IsDefault x \<longleftrightarrow> x = v" for x
      by (auto simp: defaults_of_def set_eq_iff)
    then show ?thesis by (rule_tac a = v in ex1I) blast+
  qed
  with inv show ?thesis by (simp add: ipam_inv_def refs_ok_def)
qed

subsection \<open>What an allocation does\<close>

lemma run_firstOr:
  "firstOr st msg (First key tbl P) (db, []) =
     (case first_by key P (tbl db) of None \<Rightarrow> Inl (StatusErr st msg) | Some r \<Rightarrow> Inr r, (db, []))"
  by (auto simp: firstOr_def db_run split: option.splits)

lemma prefixConflict_impossible:
  assumes "ipam_inv db" and "valid_pfx p" and "pfx_Prefix row = pfx_string p" and "pfx_NetboxID row = 0"
    and "checkAllocate (allocationsOf (filter (\<lambda>r. pfx_NamespaceID r = pfx_NamespaceID row) (t_prefixes db))) p (pfx_VRFID row) = None"
  shows "\<not> list_ex (\<lambda>r. prefixConflict r row) (t_prefixes db)"
proof -
  have "separate r row" if "r \<in> set (t_prefixes db)" "pfx_NamespaceID r = pfx_NamespaceID row" for r
    using that assms by (intro checkAllocate_separate) (auto simp: ipam_inv_def)
  moreover have "\<not> separate r row" if "pfx_Prefix r = pfx_Prefix row" for r
    using that by (auto simp: separate_def split: sum.splits)
  ultimately have "\<not> prefixConflict r row" if "r \<in> set (t_prefixes db)" for r
    using that assms(4) by (auto simp: prefixConflict_def)
  then show ?thesis by (auto simp: list_ex_iff)
qed

lemma Allocate_run:
  assumes inv: "ipam_inv db" and "n \<noteq> 0"
  shows "Allocate n v raw descr dhcp (db, []) =
    (case first_by ns_ID (\<lambda>m. ns_ID m = n) (t_namespaces db) of
       None \<Rightarrow> (Inl (StatusErr 404 ''namespace not found''), (db, []))
     | Some _ \<Rightarrow>
    (case ParsePrefix raw of
       Inl e \<Rightarrow> (Inl (StatusErr 400 e), (db, []))
     | Inr p \<Rightarrow>
    (case first_by vrf_ID (\<lambda>r. vrf_NamespaceID r = n \<and> (if v = 0 then vrf_IsDefault r else vrf_ID r = v)) (t_vrfs db) of
       None \<Rightarrow> (Inl (StatusErr 404 ''VRF not found''), (db, []))
     | Some vrf \<Rightarrow>
    (case checkAllocate (allocationsOf (filter (\<lambda>r. pfx_NamespaceID r = n) (t_prefixes db))) p (vrf_ID vrf) of
       Some e \<Rightarrow> (Inl (StatusErr 409 e), (db, []))
     | None \<Rightarrow>
    (case applyDHCP (zeroPrefix\<lparr>pfx_NamespaceID := n, pfx_VRFID := vrf_ID vrf, pfx_Prefix := pfx_string p,
              pfx_Family := familyOf p, pfx_Description := TrimSpace descr\<rparr>) dhcp of
       Inl (st, e) \<Rightarrow> (Inl (StatusErr st e), (db, []))
     | Inr row \<Rightarrow> let row' = row\<lparr>pfx_Source := VRFSourceFactum, pfx_ID := q_prefixes db\<rparr> in
         (Inr row', (db\<lparr>q_prefixes := Suc (q_prefixes db), t_prefixes := t_prefixes db @ [row']\<rparr>, [])))))))"
proof (cases "first_by ns_ID (\<lambda>m. ns_ID m = n) (t_namespaces db)")
  case None
  then show ?thesis using assms(2)
    by (simp add: Allocate_def resolveNamespaceID_def loadNamespace_def run_firstOr db_run)
next
  case (Some ns)
  have resolve: "resolveNamespaceID n (db, []) = (Inr n, (db, []))"
    using Some assms(2) by (simp add: resolveNamespaceID_def loadNamespace_def run_firstOr db_run)
  have rb: "ipam_rollback db db = db" by (simp add: ipam_rollback_def)
  show ?thesis
  proof (cases "ParsePrefix raw")
    case (Inl e)
    then show ?thesis using Some by (simp add: Allocate_def resolve db_run)
  next
    case (Inr p)
    note v = ParsePrefix_valid[OF Inr]
    show ?thesis
    proof (cases "first_by vrf_ID (\<lambda>r. vrf_NamespaceID r = n \<and> (if v = 0 then vrf_IsDefault r else vrf_ID r = v)) (t_vrfs db)")
      case None
      then show ?thesis using Some Inr by (simp add: Allocate_def resolve loadVRF_def run_firstOr db_run rb)
    next
      case (Some vrf)
      let ?ex = "allocationsOf (filter (\<lambda>r. pfx_NamespaceID r = n) (t_prefixes db))"
      let ?row = "zeroPrefix\<lparr>pfx_NamespaceID := n, pfx_VRFID := vrf_ID vrf, pfx_Prefix := pfx_string p,
              pfx_Family := familyOf p, pfx_Description := TrimSpace descr\<rparr>"
      note base = \<open>first_by ns_ID (\<lambda>m. ns_ID m = n) (t_namespaces db) = Some ns\<close> Inr Some
      note run = Allocate_def resolve loadVRF_def loadAllocations_def run_firstOr db_run rb
      show ?thesis
      proof (cases "checkAllocate ?ex p (vrf_ID vrf)")
        case (Some e)
        with base show ?thesis by (simp add: run)
      next
        case chk: None
        show ?thesis
        proof (cases "applyDHCP ?row dhcp")
          case (Inl e)
          with base chk show ?thesis by (cases e) (simp add: run Let_def)
        next
          case row: (Inr row)
          have f: "pfx_NamespaceID row = n" "pfx_VRFID row = vrf_ID vrf" "pfx_Prefix row = pfx_string p"
            "pfx_NetboxID row = 0" "pfx_Source row = []"
            using applyDHCP_fields[OF row] by (simp_all add: zeroPrefix_def)
          have hook: "pfxBeforeCreate row = row\<lparr>pfx_Source := VRFSourceFactum\<rparr>"
            using f by (simp add: pfxBeforeCreate_def sourceHook_def)
          have "\<not> list_ex (\<lambda>r. prefixConflict r (pfxBeforeCreate row)) (t_prefixes db)"
            using chk f v inv by (intro prefixConflict_impossible[where p = p]) (auto simp: hook)
          with base chk row show ?thesis
            by (simp add: run Let_def unlessDuplicate_def insertPrefix_def hook)
        qed
      qed
    qed
  qed
qed

definition vrf_selected :: "nat \<Rightarrow> nat \<Rightarrow> IpamVRF \<Rightarrow> bool" where
  "vrf_selected n v r \<longleftrightarrow> vrf_NamespaceID r = n \<and> (if v = 0 then vrf_IsDefault r else vrf_ID r = v)"

lemma vrf_selected_unique:
  assumes "ipam_inv db" and "a \<in> set (t_vrfs db)" "b \<in> set (t_vrfs db)" "vrf_selected n v a" "vrf_selected n v b"
  shows "a = b"
proof (cases "v = 0")
  case False
  then show ?thesis using assms ids_ok_unique[of vrf_ID "q_vrfs db" "t_vrfs db" a b]
    by (auto simp: vrf_selected_def ipam_inv_def)
next
  case True
  obtain m where "m \<in> set (t_namespaces db)" "ns_ID m = n"
    using assms(1,2,4) by (auto simp: ipam_inv_def refs_ok_def vrf_selected_def)
  then have "length (defaults_of n (t_vrfs db)) = 1" using assms(1) by (auto simp: ipam_inv_def)
  then obtain d where "defaults_of n (t_vrfs db) = [d]" by (auto simp: length_Suc_conv)
  moreover have "a \<in> set (defaults_of n (t_vrfs db))" "b \<in> set (defaults_of n (t_vrfs db))"
    using assms True by (auto simp: defaults_of_def vrf_selected_def)
  ultimately show ?thesis by simp
qed

text \<open>The conditions under which \<open>Allocate\<close> may store \<open>p\<close>.\<close>

definition may_allocate :: "ipam_db \<Rightarrow> nat \<Rightarrow> IpamVRF \<Rightarrow> pfx \<Rightarrow> bool" where
  "may_allocate db n vrf p \<longleftrightarrow> (\<forall>r \<in> set (t_prefixes db). pfx_NamespaceID r = n \<longrightarrow>
     (\<exists>q. ParsePrefix (pfx_Prefix r) = Inr q \<and> q \<noteq> p \<and>
       (pfx_VRFID r = vrf_ID vrf \<or> (\<nexists>x. ContainsAddr q x \<and> ContainsAddr p x))))"

lemma may_allocate_iff:
  assumes "ipam_inv db" and "valid_pfx p"
  shows "checkAllocate (allocationsOf (filter (\<lambda>r. pfx_NamespaceID r = n) (t_prefixes db))) p (vrf_ID vrf) = None
    \<longleftrightarrow> may_allocate db n vrf p"
proof -
  let ?ex = "allocationsOf (filter (\<lambda>r. pfx_NamespaceID r = n) (t_prefixes db))"
  have can: "\<exists>q. ParsePrefix (pfx_Prefix r) = Inr q" if "r \<in> set (t_prefixes db)" for r
    using inv_parses[OF assms(1) that] .
  have "checkAllocate ?ex p (vrf_ID vrf) = None \<longleftrightarrow>
    (\<forall>g \<in> set ?ex. alloc_Prefix g \<noteq> p \<and> (alloc_VRFID g \<noteq> vrf_ID vrf \<longrightarrow> addrs_of (alloc_Prefix g) \<inter> addrs_of p = {}))"
    using allocationsOf_valid by (intro checkAllocate_None_iff) (auto simp: assms(2))
  also have "\<dots> \<longleftrightarrow> may_allocate db n vrf p"
  proof
    assume may: "may_allocate db n vrf p"
    show "\<forall>g \<in> set ?ex. alloc_Prefix g \<noteq> p \<and> (alloc_VRFID g \<noteq> vrf_ID vrf \<longrightarrow> addrs_of (alloc_Prefix g) \<inter> addrs_of p = {})"
    proof
      fix g
      assume "g \<in> set ?ex"
      then obtain r q where r: "r \<in> set (t_prefixes db)" "pfx_NamespaceID r = n" and q: "ParsePrefix (pfx_Prefix r) = Inr q"
        and g: "g = \<lparr>alloc_Prefix = q, alloc_VRFID = pfx_VRFID r\<rparr>" unfolding set_allocationsOf by auto
      with may have "q \<noteq> p" "pfx_VRFID r = vrf_ID vrf \<or> (\<nexists>x. ContainsAddr q x \<and> ContainsAddr p x)"
        unfolding may_allocate_def by fastforce+
      with g show "alloc_Prefix g \<noteq> p \<and> (alloc_VRFID g \<noteq> vrf_ID vrf \<longrightarrow> addrs_of (alloc_Prefix g) \<inter> addrs_of p = {})"
        by (auto simp: addrs_of_def)
    qed
  next
    assume ex: "\<forall>g \<in> set ?ex. alloc_Prefix g \<noteq> p \<and> (alloc_VRFID g \<noteq> vrf_ID vrf \<longrightarrow> addrs_of (alloc_Prefix g) \<inter> addrs_of p = {})"
    show "may_allocate db n vrf p"
      unfolding may_allocate_def
    proof (intro ballI impI)
      fix r
      assume r: "r \<in> set (t_prefixes db)" "pfx_NamespaceID r = n"
      obtain q where q: "ParsePrefix (pfx_Prefix r) = Inr q" using can r by blast
      then have "\<lparr>alloc_Prefix = q, alloc_VRFID = pfx_VRFID r\<rparr> \<in> set ?ex" using r by (intro allocationsOf_covers) auto
      with ex q show "\<exists>q. ParsePrefix (pfx_Prefix r) = Inr q \<and> q \<noteq> p \<and>
        (pfx_VRFID r = vrf_ID vrf \<or> (\<nexists>x. ContainsAddr q x \<and> ContainsAddr p x))"
        by (fastforce simp: addrs_of_def)
    qed
  qed
  finally show ?thesis .
qed


text \<open>
  C29: DeletePool, with no statement failing, removes a pool exactly when it belongs to the namespace
  and every stored prefix of the namespace lies inside one of the other pools; so a prefix that no
  pool covers at all blocks the removal of every pool of its namespace.
\<close>

theorem DeletePool_correct:
  assumes "reachable db"
  shows "(case DeletePool nsID poolID (db, []) of
     (Inr _, (db', _)) \<Rightarrow> poolID \<in> pool_ID ` {p \<in> set (t_pools db). pool_NamespaceID p = nsID} \<and>
        db' = db\<lparr>t_pools := filter (\<lambda>p. pool_ID p \<noteq> poolID) (t_pools db)\<rparr> \<and>
        (\<forall>r \<in> set (t_prefixes db). pfx_NamespaceID r = nsID \<longrightarrow>
          (\<exists>q. ParsePrefix (pfx_Prefix r) = Inr q \<and> (\<exists>p \<in> set (t_pools db'). pool_NamespaceID p = nsID \<and>
             (\<exists>pp. ParsePrefix (pool_Prefix p) = Inr pp \<and> containsPrefix pp q))))
   | (Inl e, (db', _)) \<Rightarrow> db' = db \<and>
        (poolID \<in> pool_ID ` {p \<in> set (t_pools db). pool_NamespaceID p = nsID} \<longrightarrow>
         (\<exists>r \<in> set (t_prefixes db). pfx_NamespaceID r = nsID \<and>
           (\<forall>p \<in> set (t_pools db). pool_NamespaceID p = nsID \<and> pool_ID p \<noteq> poolID \<longrightarrow>
             (\<nexists>q pp. ParsePrefix (pfx_Prefix r) = Inr q \<and> ParsePrefix (pool_Prefix p) = Inr pp \<and> containsPrefix pp q)))))"
proof -
  have inv: "ipam_inv db" by (rule reachable_inv[OF assms])
  have can: "\<exists>q. ParsePrefix (pfx_Prefix r) = Inr q" if "r \<in> set (t_prefixes db)" for r
    using inv_parses[OF inv that] .
  let ?sel = "\<lambda>r. pool_ID r = poolID \<and> pool_NamespaceID r = nsID"
  let ?rem = "parsedPrefixes (map pool_Prefix (filter (\<lambda>r. pool_NamespaceID r = nsID \<and> pool_ID r \<noteq> poolID) (t_pools db)))"
  let ?need = "parsedPrefixes (map pfx_Prefix (filter (\<lambda>r. pfx_NamespaceID r = nsID) (t_prefixes db)))"
  show ?thesis
  proof (cases "first_by pool_ID ?sel (t_pools db)")
    case None
    then show ?thesis using first_by_None[of pool_ID ?sel "t_pools db"] by (auto simp: DeletePool_def run_firstOr db_run)
  next
    case (Some pool)
    note pool = first_by_Some[OF Some]
    show ?thesis
    proof (cases "poolStillNeeded ?rem ?need")
      case True
      then obtain q where q: "q \<in> set ?need" and rem: "\<forall>pp \<in> set ?rem. \<not> containsPrefix pp q"
        by (auto simp: poolStillNeeded_def coveredByAny_def list_ex_iff)
      from q obtain r where "r \<in> set (t_prefixes db)" "pfx_NamespaceID r = nsID" "ParsePrefix (pfx_Prefix r) = Inr q"
        unfolding set_parsedPrefixes by auto
      moreover have "\<forall>p \<in> set (t_pools db). pool_NamespaceID p = nsID \<and> pool_ID p \<noteq> poolID \<longrightarrow>
           (\<forall>pp. ParsePrefix (pool_Prefix p) = Inr pp \<longrightarrow> \<not> containsPrefix pp q)"
        using rem unfolding Ball_def set_parsedPrefixes by auto
      ultimately show ?thesis using True by (auto simp: DeletePool_def run_firstOr db_run Some intro!: bexI[of _ r])
    next
      case False
      have cov: "\<exists>q. ParsePrefix (pfx_Prefix r) = Inr q \<and> (\<exists>p \<in> set (filter (\<lambda>p. pool_ID p \<noteq> poolID) (t_pools db)). pool_NamespaceID p = nsID \<and>
             (\<exists>pp. ParsePrefix (pool_Prefix p) = Inr pp \<and> containsPrefix pp q))"
        if r: "r \<in> set (t_prefixes db)" "pfx_NamespaceID r = nsID" for r
      proof -
        obtain q where q: "ParsePrefix (pfx_Prefix r) = Inr q" using can r by blast
        then have "q \<in> set ?need" using r by (auto simp: set_parsedPrefixes)
        then have "\<exists>pp \<in> set ?rem. containsPrefix pp q"
          using False by (auto simp: poolStillNeeded_def coveredByAny_def list_ex_iff)
        then obtain pp s where "s \<in> set (t_pools db)" "pool_NamespaceID s = nsID" "pool_ID s \<noteq> poolID"
          "ParsePrefix (pool_Prefix s) = Inr pp" "containsPrefix pp q" unfolding Bex_def set_parsedPrefixes by auto
        then have "\<exists>p \<in> set (filter (\<lambda>p. pool_ID p \<noteq> poolID) (t_pools db)). pool_NamespaceID p = nsID \<and>
             (\<exists>pp. ParsePrefix (pool_Prefix p) = Inr pp \<and> containsPrefix pp q)"
          by (intro bexI[of _ s]) auto
        with q show ?thesis by blast
      qed
      have run: "DeletePool nsID poolID (db, []) = (Inr (), (db\<lparr>t_pools := filter (\<lambda>p. pool_ID p \<noteq> poolID) (t_pools db)\<rparr>, []))"
        using False pool by (simp add: DeletePool_def run_firstOr db_run Some deletePools_def)
      have "poolID \<in> pool_ID ` {p \<in> set (t_pools db). pool_NamespaceID p = nsID}" using pool by auto
      then show ?thesis using cov by (simp add: run)
    qed
  qed
qed

subsection \<open>Examples\<close>

text \<open>A namespace with its default VRF, then two prefixes in it: reached by three requests.\<close>

definition ex_ns :: IpamNamespace where
  "ex_ns = \<lparr>ns_ID = 1, ns_Name = ''lab'', ns_Description = []\<rparr>"

definition ex_vrf :: IpamVRF where
  "ex_vrf = defaultVRFRow 1\<lparr>vrf_Source := VRFSourceFactum, vrf_ID := 1\<rparr>"

definition ex_db :: ipam_db where
  "ex_db = emptyDb\<lparr>t_namespaces := [ex_ns], q_namespaces := 2, t_vrfs := [ex_vrf], q_vrfs := 2\<rparr>"

lemma ex_db_reachable: "reachable ex_db"
proof (rule reachable.step[OF reachable.start])
  have "TrimSpace ''lab'' = ''lab''" by (simp add: TrimSpace_def TrimLeft_def is_space_def)
  then show "snd (runOp (OpCreateNamespace ''lab'' []) (emptyDb, [])) = (ex_db, [])"
    by (simp add: CreateNamespace_def normalizeName_def unlessDuplicate_def insertNamespace_def insertVRF_def
        GetNamespace_def loadNamespace_def run_firstOr db_run emptyDb_def ex_db_def ex_ns_def ex_vrf_def
        defaultVRFRow_def zeroVRF_def vrfBeforeCreate_def sourceHook_def Let_def)
qed

definition no_dhcp :: PrefixDHCP where
  "no_dhcp = \<lparr>dhcp_Enabled = False, dhcp_RangeStart = [], dhcp_RangeEnd = [], dhcp_Gateway = [], dhcp_DnsServers = []\<rparr>"

definition ex_p :: pfx where
  "ex_p = Pfx (A4 0x0A000000) 8"

definition ex_q :: pfx where
  "ex_q = Pfx (A4 0x0A010000) 16"

definition ex_row :: "nat \<Rightarrow> pfx \<Rightarrow> IpamPrefix" where
  "ex_row i p = zeroPrefix\<lparr>pfx_ID := i, pfx_NamespaceID := 1, pfx_VRFID := 1, pfx_Prefix := pfx_string p,
     pfx_Family := 4, pfx_Source := VRFSourceFactum\<rparr>"

definition ex_db1 :: ipam_db where
  "ex_db1 = ex_db\<lparr>q_prefixes := 2, t_prefixes := [ex_row 1 ex_p]\<rparr>"

definition ex_db2 :: ipam_db where
  "ex_db2 = ex_db\<lparr>q_prefixes := 3, t_prefixes := [ex_row 1 ex_p, ex_row 2 ex_q]\<rparr>"

lemma ex_valid: "valid_pfx ex_p" "valid_pfx ex_q"
  by (simp_all add: ex_p_def ex_q_def valid_pfx_def Masked_def mask_top_def mask_eq_exp_minus_1)

lemma ex_parses: "ParsePrefix (pfx_string ex_p) = Inr ex_p" "ParsePrefix (pfx_string ex_q) = Inr ex_q"
  using ex_valid ParsePrefix_pfx_string by blast+

lemma ex_dhcp: "valid_pfx p \<Longrightarrow> dhcpValidate (dhcpNormalized no_dhcp) (pfx_string p) = Inr ()"
  by (simp add: dhcpValidate_def ParsePrefix_pfx_string dhcpNormalized_def no_dhcp_def SplitLines_def)

lemma ex_apply: "valid_pfx p \<Longrightarrow> applyDHCP (zeroPrefix\<lparr>pfx_NamespaceID := n, pfx_VRFID := v, pfx_Prefix := pfx_string p,
    pfx_Family := f, pfx_Description := d\<rparr>) no_dhcp =
  Inr (zeroPrefix\<lparr>pfx_NamespaceID := n, pfx_VRFID := v, pfx_Prefix := pfx_string p, pfx_Family := f, pfx_Description := d\<rparr>)"
  using ex_dhcp[of p] by (simp add: applyDHCP_def storeDHCP_def dhcpNormalized_def no_dhcp_def zeroPrefix_def)

lemma ex_family: "familyOf ex_p = 4" "familyOf ex_q = 4"
  by (simp_all add: familyOf_def ex_p_def ex_q_def)

lemma TrimSpace_empty: "TrimSpace [] = []"
  by simp

lemmas ex_defs = ex_db_def ex_db1_def ex_db2_def emptyDb_def ex_ns_def ex_vrf_def defaultVRFRow_def ex_row_def zeroPrefix_def

lemma ex_alloc1: "Allocate 1 0 (pfx_string ex_p) [] no_dhcp (ex_db, []) = (Inr (ex_row 1 ex_p), (ex_db1, []))"
proof -
  have "first_by ns_ID (\<lambda>m. ns_ID m = 1) (t_namespaces ex_db) = Some ex_ns"
    "first_by vrf_ID (\<lambda>r. vrf_NamespaceID r = 1 \<and> vrf_IsDefault r) (t_vrfs ex_db) = Some ex_vrf"
    "vrf_ID ex_vrf = 1" "t_prefixes ex_db = []" "q_prefixes ex_db = 1"
    by (simp_all add: ex_defs)
  then show ?thesis
    by (simp add: Allocate_run[OF reachable_inv[OF ex_db_reachable]] ex_parses ex_apply ex_valid ex_family
        allocationsOf_def Let_def del: One_nat_def) (simp add: ex_defs)
qed

lemma ex_db1_reachable: "reachable ex_db1"
  by (rule reachable.step[OF ex_db_reachable, of "OpAllocate 1 0 (pfx_string ex_p) [] no_dhcp" "[]" _ "[]"])
    (simp add: db_run ex_alloc1 del: One_nat_def)

lemma ex_alloc2: "Allocate 1 0 (pfx_string ex_q) [] no_dhcp (ex_db1, []) = (Inr (ex_row 2 ex_q), (ex_db2, []))"
proof -
  have ne: "ex_p \<noteq> ex_q" by (simp add: ex_p_def ex_q_def)
  have "first_by ns_ID (\<lambda>m. ns_ID m = 1) (t_namespaces ex_db1) = Some ex_ns"
    "first_by vrf_ID (\<lambda>r. vrf_NamespaceID r = 1 \<and> vrf_IsDefault r) (t_vrfs ex_db1) = Some ex_vrf"
    "vrf_ID ex_vrf = 1" "q_prefixes ex_db1 = 2" "t_prefixes ex_db1 = [ex_row 1 ex_p]"
    "allocationsOf [ex_row 1 ex_p] = [\<lparr>alloc_Prefix = ex_p, alloc_VRFID = 1\<rparr>]" "pfx_NamespaceID (ex_row 1 ex_p) = 1"
    by (simp_all add: ex_defs allocationsOf_def ex_parses)
  then show ?thesis
    by (simp add: Allocate_run[OF reachable_inv[OF ex_db1_reachable]] ex_parses ex_apply ex_valid ex_family ne
        Let_def del: One_nat_def) (simp add: ex_defs)
qed

lemma ex_db2_reachable: "reachable ex_db2"
  by (rule reachable.step[OF ex_db1_reachable, of "OpAllocate 1 0 (pfx_string ex_q) [] no_dhcp" "[]" _ "[]"])
    (simp add: db_run ex_alloc2 del: One_nat_def)


theorem store_references_intact_witness:
  "\<exists>!v. v \<in> set (t_vrfs ex_db2) \<and> vrf_NamespaceID v = 1 \<and> vrf_IsDefault v"
  using store_references_intact[OF ex_db2_reachable] by (auto simp: ex_defs)


text \<open>A pool that covers none of the prefixes, and still cannot be removed.\<close>

definition ex_r :: pfx where
  "ex_r = Pfx (A4 0xC0A80000) 16"

definition ex_pool :: IpamNamespacePrefix where
  "ex_pool = \<lparr>pool_ID = 1, pool_NamespaceID = 1, pool_Prefix = pfx_string ex_r, pool_Family = 4\<rparr>"

definition ex_db3 :: ipam_db where
  "ex_db3 = ex_db2\<lparr>q_pools := 2, t_pools := [ex_pool]\<rparr>"

lemma ex_db3_reachable: "reachable ex_db3"
proof -
  have v: "valid_pfx ex_r" by (simp add: ex_r_def valid_pfx_def Masked_def mask_top_def mask_eq_exp_minus_1)
  have "familyOf ex_r = 4" by (simp add: familyOf_def ex_r_def)
  then have "AddPool 1 (pfx_string ex_r) (ex_db2, []) = (Inr ex_pool, (ex_db3, []))"
    by (simp add: AddPool_def loadNamespace_def run_firstOr db_run ex_defs ex_db3_def ex_pool_def
        ParsePrefix_pfx_string[OF v] parsedPrefixes_def unlessDuplicate_def insertPool_def Let_def)
  then show ?thesis
    by (intro reachable.step[OF ex_db2_reachable, of "OpAddPool 1 (pfx_string ex_r)" "[]" _ "[]"])
      (simp add: db_run del: One_nat_def)
qed

theorem DeletePool_correct_witness:
  "fst (DeletePool 1 1 (ex_db3, [])) =
     Inl (StatusErr 409 ''allocated prefixes still depend on this allowed prefix'') \<and>
   (\<exists>r \<in> set (t_prefixes ex_db3). pfx_NamespaceID r = 1)"
proof -
  have run: "DeletePool 1 1 (ex_db3, []) =
      (Inl (StatusErr 409 ''allocated prefixes still depend on this allowed prefix''), (ex_db3, []))"
    by (simp add: DeletePool_def run_firstOr db_run ex_db3_def ex_pool_def ex_defs parsedPrefixes_def ex_parses
        poolStillNeeded_def coveredByAny_def)
  with DeletePool_correct[OF ex_db3_reachable, of 1 1] show ?thesis
    by (auto simp: ex_db3_def ex_pool_def)
qed

end
