(* ===== verification/Go_Float.thy ===== *)
theory Go_Float
  imports Go_Strings "HOL-Library.Log_Nat"
begin

text \<open>
  Non-negative \<open>float64\<close> values as the sources compute with them. Every such value is a multiple of
  two to the power -1074, so it is represented by that multiple, a natural number; an operation rounds
  its exact result to 53 significant bits, ties to even. Values near the overflow bound do not occur.
\<close>

type_synonym float64 = nat

definition f_one :: float64 where
  "f_one = 2 ^ 1074"

text \<open>\<open>n / 2^s\<close> rounded to the nearest integer, ties to even.\<close>

definition div_even :: "nat \<Rightarrow> nat \<Rightarrow> nat" where
  "div_even n d =
     (let q = n div d; r = n mod d
      in if 2 * r < d then q else if 2 * r > d then q + 1 else if even q then q else q + 1)"

definition f_round :: "nat \<Rightarrow> float64" where
  "f_round n =
     (let bits = floorlog 2 n
      in if bits \<le> 53 then n else div_even n (2 ^ (bits - 53)) * 2 ^ (bits - 53))"

definition f_add :: "float64 \<Rightarrow> float64 \<Rightarrow> float64" where
  "f_add a b = f_round (a + b)"

definition f_half :: "float64 \<Rightarrow> float64" where
  "f_half a = f_round (div_even a 2)"

definition f_mul_nat :: "float64 \<Rightarrow> nat \<Rightarrow> float64" where
  "f_mul_nat a k = f_round (a * k)"

text \<open>The verb \<open>%.2f\<close>: the exact value rounded to two decimals.\<close>

definition format2 :: "float64 \<Rightarrow> string" where
  "format2 a =
     (let c = div_even (a * 100) f_one
      in Itoa (c div 100) @ ''.'' @ [digit_char (c div 10 mod 10), digit_char (c mod 10)])"

lemma f_round_small: "n < 2 ^ 53 \<Longrightarrow> f_round n = n"
proof (cases "n = 0")
  case True
  then show ?thesis by (simp add: f_round_def floorlog_def)
next
  case False
  assume "n < 2 ^ 53"
  then have "floorlog 2 n \<le> 53" using floorlog_leI[of n 2 53] by simp
  then show ?thesis by (simp add: f_round_def)
qed

lemma floorlog_pow2: "floorlog 2 (2 ^ k) = Suc k"
  by (simp add: floorlog_def floor_log_nat_eq_if floorlog_power)

lemma f_round_pow2: "f_round (2 ^ k) = 2 ^ k"
proof (cases "Suc k \<le> 53")
  case True
  then show ?thesis by (simp add: f_round_def floorlog_pow2)
next
  case False
  define s where "s = Suc k - 53"
  have "(2::nat) ^ k = 2 ^ 52 * 2 ^ s" using False by (simp only: s_def power_add[symmetric]) simp
  then have "div_even (2 ^ k) (2 ^ s) = 2 ^ 52" by (simp add: div_even_def)
  moreover have "f_round (2 ^ k) = div_even (2 ^ k) (2 ^ s) * 2 ^ s"
    using False by (simp add: f_round_def floorlog_pow2 s_def)
  ultimately show ?thesis using \<open>2 ^ k = 2 ^ 52 * 2 ^ s\<close> by simp
qed

lemma f_half_pow2: "0 < k \<Longrightarrow> f_half (2 ^ k) = 2 ^ (k - 1)"
proof -
  assume "0 < k"
  then have "(2::nat) ^ k = 2 * 2 ^ (k - 1)" by (cases k) simp_all
  then have "div_even (2 ^ k) 2 = 2 ^ (k - 1)" by (simp add: div_even_def)
  then show ?thesis by (simp add: f_half_def f_round_pow2)
qed

end
