(* ===== verification/Ipam_Tree.thy ===== *)
theory Ipam_Tree
  imports Ipam_Plan Go_Float "HOL-Library.AList"
begin

text \<open>
  The prefix tree of \<open>internal/ipam/tree.go\<close>, the VRF list of \<open>vrflist.go\<close>, the occupancy pages of
  \<open>hosts.go\<close> and the usage figures of \<open>prefix.go\<close>: the read side of IPAM. Go's iteration over a map has no
  fixed order, so \<open>Tree\<close> takes the order in which the entries are met as a parameter.
\<close>

subsection \<open>Usage of a prefix\<close>

fun halves :: "nat \<Rightarrow> float64 \<Rightarrow> float64" where
  "halves 0 part = part"
| "halves (Suc n) part = (if part > 0 then halves n (f_half part) else part)"

fun coverageSum :: "pfx \<Rightarrow> float64 \<Rightarrow> pfx list \<Rightarrow> float64 option" where
  "coverageSum parent acc [] = Some acc"
| "coverageSum parent acc (child # rest) =
     (if \<not> strictlyContains parent child \<and> child \<noteq> parent then coverageSum parent acc rest
      else if child = parent then None
      else if int (Bits child) - int (Bits parent) \<le> 0 then coverageSum parent acc rest
      else coverageSum parent (f_add acc (halves (Bits child - Bits parent) f_one)) rest)"

text \<open>\<open>None\<close> stands for the early return of 1 on a child equal to the parent.\<close>

definition coverageFrac :: "pfx \<Rightarrow> pfx list \<Rightarrow> float64" where
  "coverageFrac parent children =
     (case coverageSum parent 0 children of
        None \<Rightarrow> f_one
      | Some acc \<Rightarrow> if acc > f_one then f_one else acc)"

text \<open>The literal 0.0001 is the nearest \<open>float64\<close>; the dash is the three bytes of its UTF-8 form.\<close>

definition f_ten_thousandth :: float64 where
  "f_ten_thousandth = 0x1A36E2EB1C432D * 2 ^ 1008"

definition formatUsed :: "float64 \<Rightarrow> bool \<Rightarrow> string" where
  "formatUsed used hasChildren =
     (if \<not> hasChildren \<or> used = 0 then (if hasChildren then ''<0.01%'' else [CHR 0xE2, CHR 0x80, CHR 0x94])
      else if used < f_ten_thousandth then ''<0.01%''
      else format2 (f_mul_nat used 100) @ ''%'')"

subsection \<open>Nodes\<close>

record TreeNodeData =
  d_Kind :: string
  d_ID :: nat
  d_NamespaceID :: nat
  d_PoolID :: nat
  d_PrefixID :: nat
  d_VRFID :: nat
  d_VRFName :: string
  d_IsDefault :: bool
  d_Family :: nat
  d_Description :: string
  d_Used :: string
  d_UsedFrac :: float64
  d_ChildCount :: nat
  d_DhcpEnabled :: bool
  d_DhcpRangeStart :: string
  d_DhcpRangeEnd :: string
  d_DhcpGateway :: string
  d_DhcpDnsServers :: string
  d_RD :: string
  d_ImportRT :: string
  d_ExportRT :: string
  d_Source :: string
  d_NetboxID :: nat

datatype TreeNode =
  TreeNode (n_Key: string) (n_Title: string) (n_Lazy: bool) (n_Expanded: bool) (n_Type: string)
    (n_Data: TreeNodeData) (n_Children: "TreeNode list")

definition zeroData :: TreeNodeData where
  "zeroData = \<lparr>d_Kind = [], d_ID = 0, d_NamespaceID = 0, d_PoolID = 0, d_PrefixID = 0, d_VRFID = 0,
     d_VRFName = [], d_IsDefault = False, d_Family = 0, d_Description = [], d_Used = [], d_UsedFrac = 0,
     d_ChildCount = 0, d_DhcpEnabled = False, d_DhcpRangeStart = [], d_DhcpRangeEnd = [], d_DhcpGateway = [],
     d_DhcpDnsServers = [], d_RD = [], d_ImportRT = [], d_ExportRT = [], d_Source = [], d_NetboxID = 0\<rparr>"

definition withDHCP :: "TreeNodeData \<Rightarrow> PrefixDHCP \<Rightarrow> TreeNodeData" where
  "withDHCP d dhcp = d\<lparr>d_DhcpEnabled := dhcp_Enabled dhcp, d_DhcpRangeStart := dhcp_RangeStart dhcp,
     d_DhcpRangeEnd := dhcp_RangeEnd dhcp, d_DhcpGateway := dhcp_Gateway dhcp,
     d_DhcpDnsServers := dhcp_DnsServers dhcp\<rparr>"

definition nodeKey :: "string \<Rightarrow> nat \<Rightarrow> string" where
  "nodeKey kind i = kind @ '':'' @ Itoa i"

definition ParseNodeKey :: "string \<Rightarrow> go_error + (string \<times> nat)" where
  "ParseNodeKey s =
     (case Cut (TrimSpace s) (CHR '':'') of
        None \<Rightarrow> Inl (StatusErr 400 ''invalid tree node'')
      | Some (kind, rest) \<Rightarrow>
          if kind = [] \<or> rest = [] then Inl (StatusErr 400 ''invalid tree node'')
          else (case ParseUint rest 64 of
              None \<Rightarrow> Inl (StatusErr 400 ''invalid tree node'')
            | Some i \<Rightarrow> Inr (kind, i)))"

definition boolCount :: "bool \<Rightarrow> nat" where
  "boolCount ok = (if ok then 1 else 0)"

definition poolNode :: "IpamNamespacePrefix \<Rightarrow> pfx \<Rightarrow> nat \<Rightarrow> bool \<Rightarrow> TreeNode" where
  "poolNode p pp nsID hasChild =
     TreeNode (nodeKey ''pool'' (pool_ID p)) (pool_Prefix p) hasChild False ''pool''
       (zeroData\<lparr>d_Kind := ''pool'', d_ID := pool_ID p, d_NamespaceID := nsID, d_PoolID := pool_ID p,
          d_Family := familyOf pp, d_ChildCount := boolCount hasChild\<rparr>) []"

definition allocNode :: "IpamPrefix \<Rightarrow> pfx \<Rightarrow> string \<Rightarrow> bool \<Rightarrow> TreeNode" where
  "allocNode a p vrfName hasChild =
     TreeNode (nodeKey ''pfx'' (pfx_ID a)) (pfx_Prefix a) hasChild False ''allocated''
       (withDHCP (zeroData\<lparr>d_Kind := ''allocated'', d_ID := pfx_ID a, d_NamespaceID := pfx_NamespaceID a,
          d_PrefixID := pfx_ID a, d_VRFID := pfx_VRFID a, d_VRFName := vrfName, d_Family := familyOf p,
          d_Description := pfx_Description a, d_ChildCount := boolCount hasChild,
          d_Source := pfx_Source a, d_NetboxID := pfx_NetboxID a\<rparr>) (dhcpFromRow a)) []"

text \<open>\<open>sort.Slice\<close> by family, then title. (Equal nodes stay in their order here; Go leaves that open.)\<close>

definition sortTreePrefixes :: "TreeNode list \<Rightarrow> TreeNode list" where
  "sortTreePrefixes = order_by (\<lambda>a b.
     if d_Family (n_Data a) \<noteq> d_Family (n_Data b) then d_Family (n_Data a) < d_Family (n_Data b)
     else str_less (n_Title a) (n_Title b))"

subsection \<open>Children in a VRF and under a pool\<close>

text \<open>The parsed rows: \<open>item\<close> of the code.\<close>

definition items :: "('r \<Rightarrow> string) \<Rightarrow> 'r list \<Rightarrow> ('r \<times> pfx) list" where
  "items f rows = concat (map (\<lambda>a. case ParsePrefix (f a) of Inl _ \<Rightarrow> [] | Inr p \<Rightarrow> [(a, p)]) rows)"

definition isTopLevel :: "('r \<Rightarrow> nat) \<Rightarrow> ('r \<times> pfx) list \<Rightarrow> 'r \<times> pfx \<Rightarrow> bool" where
  "isTopLevel key its e =
     (\<not> list_ex (\<lambda>oth. key (fst oth) \<noteq> key (fst e) \<and> strictlyContains (snd oth) (snd e)) its)"

definition isChildOf :: "('r \<Rightarrow> nat) \<Rightarrow> ('r \<times> pfx) list \<Rightarrow> pfx \<Rightarrow> 'r \<times> pfx \<Rightarrow> bool" where
  "isChildOf key its parent e =
     (strictlyContains parent (snd e) \<and>
      \<not> list_ex (\<lambda>oth. key (fst oth) \<noteq> key (fst e) \<and> strictlyContains parent (snd oth) \<and> strictlyContains (snd oth) (snd e)) its)"

definition hasChildIn :: "('r \<Rightarrow> nat) \<Rightarrow> ('r \<times> pfx) list \<Rightarrow> 'r \<times> pfx \<Rightarrow> bool" where
  "hasChildIn key its e =
     list_ex (\<lambda>oth. key (fst oth) \<noteq> key (fst e) \<and> strictlyContains (snd e) (snd oth)) its"

definition vrfChildNodes :: "IpamVRF \<Rightarrow> IpamPrefix list \<Rightarrow> pfx option \<Rightarrow> TreeNode list" where
  "vrfChildNodes vrf allocs parent =
     (let all = items pfx_Prefix allocs;
          keep = (case parent of None \<Rightarrow> isTopLevel pfx_ID all | Some p \<Rightarrow> isChildOf pfx_ID all p);
          vrfLabel = (if vrf_IsDefault vrf then [] else vrf_Name vrf)
      in sortTreePrefixes (map (\<lambda>e. allocNode (fst e) (snd e) vrfLabel (hasChildIn pfx_ID all e)) (filter keep all)))"

definition vrfPrefixChildren :: "nat \<Rightarrow> nat \<Rightarrow> TreeNode list ipam" where
  "vrfPrefixChildren vrfID parentPrefixID =
     dbind (firstOr 404 ''VRF not found'' (First vrf_ID t_vrfs (\<lambda>v. vrf_ID v = vrfID))) (\<lambda>vrf.
     dbind (Find t_prefixes (\<lambda>a. pfx_VRFID a = vrfID)) (\<lambda>allocs.
     dbind (if parentPrefixID \<noteq> 0 then
              dcase (First pfx_ID t_prefixes (\<lambda>r. pfx_ID r = parentPrefixID)) (\<lambda>r. case r of
                Inl _ \<Rightarrow> dfail (StatusErr 404 ''prefix not found'')
              | Inr row \<Rightarrow> dres (case ParsePrefix (pfx_Prefix row) of
                  Inl e \<Rightarrow> Inl (StatusErr 400 e) | Inr p \<Rightarrow> Inr (Some p)))
            else dret None) (\<lambda>parent.
     dret (vrfChildNodes vrf allocs parent))))"

definition prefixChildren :: "nat \<Rightarrow> TreeNode list ipam" where
  "prefixChildren prefixID =
     dbind (firstOr 404 ''prefix not found'' (First pfx_ID t_prefixes (\<lambda>r. pfx_ID r = prefixID))) (\<lambda>row.
     vrfPrefixChildren (pfx_VRFID row) prefixID)"

definition poolChildren :: "nat \<Rightarrow> TreeNode list ipam" where
  "poolChildren poolID =
     dbind (firstOr 404 ''allowed prefix not found'' (First pool_ID t_pools (\<lambda>r. pool_ID r = poolID))) (\<lambda>pool.
     dbind (dres (case ParsePrefix (pool_Prefix pool) of Inl e \<Rightarrow> Inl (StatusErr 400 e) | Inr p \<Rightarrow> Inr p)) (\<lambda>parent.
     dbind (Find t_pools (\<lambda>r. pool_NamespaceID r = pool_NamespaceID pool \<and> pool_ID r \<noteq> poolID)) (\<lambda>pools.
     let all = items pool_Prefix pools
     in dret (sortTreePrefixes (map (\<lambda>e. poolNode (fst e) (snd e) (pool_NamespaceID pool) (hasChildIn pool_ID all e))
          (filter (isChildOf pool_ID all parent) all))))))"

subsection \<open>Namespaces\<close>

definition prefixCountByVRF :: "nat \<Rightarrow> (nat \<Rightarrow> nat) ipam" where
  "prefixCountByVRF nsID = query (\<lambda>db v.
     length (filter (\<lambda>p. pfx_NamespaceID p = nsID \<and> pfx_VRFID p = v) (t_prefixes db)))"

definition vrfNode :: "nat \<Rightarrow> IpamVRF \<Rightarrow> nat \<Rightarrow> TreeNode" where
  "vrfNode nsID v n =
     TreeNode (nodeKey ''vrf'' (vrf_ID v)) (vrf_Name v) (n > 0) False ''vrf''
       (zeroData\<lparr>d_Kind := ''vrf'', d_ID := vrf_ID v, d_NamespaceID := nsID, d_VRFID := vrf_ID v,
          d_VRFName := vrf_Name v, d_IsDefault := vrf_IsDefault v, d_Description := vrf_Description v,
          d_ChildCount := n, d_RD := vrf_RD v, d_ImportRT := vrf_ImportRT v, d_ExportRT := vrf_ExportRT v,
          d_Source := vrf_Source v, d_NetboxID := vrf_NetboxID v\<rparr>) []"

text \<open>\<open>defaultID\<close> is the id of the last default VRF met, 0 if there is none.\<close>

definition namespaceChildren :: "(string \<Rightarrow> string \<Rightarrow> bool) \<Rightarrow> nat \<Rightarrow> TreeNode list ipam" where
  "namespaceChildren collate nsID =
     dbind (loadNamespace nsID) (\<lambda>_.
     dbind (ListVRFs collate nsID) (\<lambda>vrfs.
     dbind (prefixCountByVRF nsID) (\<lambda>allocCount.
     let defaultID = fold (\<lambda>v d. if vrf_IsDefault v then vrf_ID v else d) vrfs 0;
         extra = filter (\<lambda>v. \<not> vrf_IsDefault v) vrfs
     in dbind (if defaultID \<noteq> 0 then vrfPrefixChildren defaultID 0 else dret []) (\<lambda>roots.
     dret (roots @ map (\<lambda>v. vrfNode nsID v (allocCount (vrf_ID v))) extra)))))"

definition nsNode :: "IpamNamespace \<Rightarrow> TreeNode list \<Rightarrow> TreeNode" where
  "nsNode ns kids =
     TreeNode (nodeKey ''ns'' (ns_ID ns)) (ns_Name ns) False True ''namespace''
       (zeroData\<lparr>d_Kind := ''namespace'', d_ID := ns_ID ns, d_NamespaceID := ns_ID ns,
          d_Description := ns_Description ns, d_ChildCount := length kids\<rparr>) kids"

definition Roots :: "(string \<Rightarrow> string \<Rightarrow> bool) \<Rightarrow> TreeNode list ipam" where
  "Roots collate =
     dbind (query (\<lambda>db. order_by (\<lambda>a b. collate (ns_Name a) (ns_Name b)) (t_namespaces db))) (\<lambda>rows.
     dbind (dfor rows (\<lambda>ns. dbind (namespaceChildren collate (ns_ID ns)) (\<lambda>kids.
       dret (if isEmptyNamespace ns then kids else [nsNode ns kids])))) (\<lambda>groups.
     dret (concat groups)))"

definition Children :: "(string \<Rightarrow> string \<Rightarrow> bool) \<Rightarrow> string \<Rightarrow> TreeNode list ipam" where
  "Children collate parentKey =
     dbind (dres (ParseNodeKey parentKey)) (\<lambda>(kind, i).
     if kind = ''ns'' then namespaceChildren collate i
     else if kind = ''pool'' then poolChildren i
     else if kind = ''vrf'' then vrfPrefixChildren i 0
     else if kind = ''pfx'' then prefixChildren i
     else dfail (StatusErr 400 ''invalid tree node''))"

definition poolHasNested :: "pfx option list \<Rightarrow> nat \<Rightarrow> bool" where
  "poolHasNested parsed i =
     (case parsed ! i of
        None \<Rightarrow> False
      | Some parent \<Rightarrow> list_ex (\<lambda>(j, child). case child of
          None \<Rightarrow> False | Some c \<Rightarrow> i \<noteq> j \<and> strictlyContains parent c) (enumerate 0 parsed))"

subsection \<open>The merged tree of a namespace\<close>

record treeEntry =
  te_prefix :: pfx
  te_kind :: string
  te_id :: nat
  te_poolID :: nat
  te_prefixID :: nat
  te_vrfID :: nat
  te_vrfName :: string
  te_description :: string
  te_dhcp :: PrefixDHCP

definition zeroDHCP :: PrefixDHCP where
  "zeroDHCP = \<lparr>dhcp_Enabled = False, dhcp_RangeStart = [], dhcp_RangeEnd = [], dhcp_Gateway = [], dhcp_DnsServers = []\<rparr>"

definition addPoolEntry :: "IpamNamespacePrefix \<Rightarrow> (string \<times> treeEntry) list \<Rightarrow> (string \<times> treeEntry) list" where
  "addPoolEntry p byKey =
     (case ParsePrefix (pool_Prefix p) of
        Inl _ \<Rightarrow> byKey
      | Inr pp \<Rightarrow> AList.update (pfx_string pp)
          \<lparr>te_prefix = pp, te_kind = ''pool'', te_id = pool_ID p, te_poolID = pool_ID p, te_prefixID = 0,
           te_vrfID = 0, te_vrfName = [], te_description = [], te_dhcp = zeroDHCP\<rparr> byKey)"

definition addAllocEntry :: "(nat \<Rightarrow> string) \<Rightarrow> IpamPrefix \<Rightarrow> (string \<times> treeEntry) list \<Rightarrow> (string \<times> treeEntry) list" where
  "addAllocEntry vrfName a byKey =
     (case ParsePrefix (pfx_Prefix a) of
        Inl _ \<Rightarrow> byKey
      | Inr pp \<Rightarrow>
          (case map_of byKey (pfx_string pp) of
             Some existing \<Rightarrow> AList.update (pfx_string pp)
               (existing\<lparr>te_kind := ''allocated'', te_prefixID := pfx_ID a, te_id := pfx_ID a, te_vrfID := pfx_VRFID a,
                  te_vrfName := vrfName (pfx_VRFID a), te_description := pfx_Description a, te_dhcp := dhcpFromRow a\<rparr>) byKey
           | None \<Rightarrow> AList.update (pfx_string pp)
               \<lparr>te_prefix = pp, te_kind = ''allocated'', te_id = pfx_ID a, te_poolID = 0, te_prefixID = pfx_ID a,
                te_vrfID = pfx_VRFID a, te_vrfName = vrfName (pfx_VRFID a), te_description = pfx_Description a,
                te_dhcp = dhcpFromRow a\<rparr> byKey))"

text \<open>Pointer equality of entries is equality of their map keys, hence of their prefixes.\<close>

definition treeCandidates :: "pfx option \<Rightarrow> treeEntry list \<Rightarrow> treeEntry list" where
  "treeCandidates parent all =
     (case parent of
        None \<Rightarrow> filter (\<lambda>e. te_poolID e \<noteq> 0 \<and>
          \<not> list_ex (\<lambda>oth. te_prefix oth \<noteq> te_prefix e \<and> te_poolID oth \<noteq> 0 \<and> strictlyContains (te_prefix oth) (te_prefix e)) all) all
      | Some p \<Rightarrow> filter (\<lambda>e. strictlyContains p (te_prefix e) \<and>
          \<not> list_ex (\<lambda>oth. te_prefix oth \<noteq> te_prefix e \<and> strictlyContains p (te_prefix oth) \<and> strictlyContains (te_prefix oth) (te_prefix e)) all) all)"

definition treeLess :: "treeEntry \<Rightarrow> treeEntry \<Rightarrow> bool" where
  "treeLess a b =
     (if familyOf (te_prefix a) \<noteq> familyOf (te_prefix b) then familyOf (te_prefix a) < familyOf (te_prefix b)
      else \<not> addr_le (pfx_addr (te_prefix b)) (pfx_addr (te_prefix a)) \<or>
        pfx_addr (te_prefix a) = pfx_addr (te_prefix b) \<and> Bits (te_prefix a) < Bits (te_prefix b))"

definition immediateAllocatedChildren :: "pfx \<Rightarrow> treeEntry list \<Rightarrow> pfx list" where
  "immediateAllocatedChildren parent all =
     map te_prefix (filter (\<lambda>e. te_kind e = ''allocated'' \<and> strictlyContains parent (te_prefix e) \<and>
       \<not> list_ex (\<lambda>oth. te_prefix oth \<noteq> te_prefix e \<and> te_kind oth = ''allocated'' \<and>
           strictlyContains parent (te_prefix oth) \<and> strictlyContains (te_prefix oth) (te_prefix e)) all) all)"

definition treeNodeOf :: "treeEntry list \<Rightarrow> treeEntry \<Rightarrow> TreeNode" where
  "treeNodeOf all e =
     (let childPrefixes = immediateAllocatedChildren (te_prefix e) all;
          nChildren = length (filter (\<lambda>oth. strictlyContains (te_prefix e) (te_prefix oth)) all);
          used = coverageFrac (te_prefix e) childPrefixes
      in TreeNode (pfx_string (te_prefix e)) (pfx_string (te_prefix e)) (nChildren > 0) False (te_kind e)
           (withDHCP (zeroData\<lparr>d_Kind := te_kind e, d_ID := te_id e, d_PoolID := te_poolID e,
              d_PrefixID := te_prefixID e, d_VRFID := te_vrfID e, d_VRFName := te_vrfName e,
              d_Family := familyOf (te_prefix e), d_Description := te_description e,
              d_Used := formatUsed used (length childPrefixes > 0), d_UsedFrac := used,
              d_ChildCount := nChildren\<rparr>) (te_dhcp e)) [])"

definition Tree :: "(treeEntry list \<Rightarrow> treeEntry list) \<Rightarrow> nat \<Rightarrow> string \<Rightarrow> TreeNode list ipam" where
  "Tree mapOrder nsID parentRaw =
     dbind (loadNamespace nsID) (\<lambda>_.
     dbind (Find t_pools (\<lambda>p. pool_NamespaceID p = nsID)) (\<lambda>pools.
     dbind (Find t_prefixes (\<lambda>a. pfx_NamespaceID a = nsID)) (\<lambda>allocs.
     dbind (Find t_vrfs (\<lambda>v. vrf_NamespaceID v = nsID)) (\<lambda>vrfs.
     let vrfName = (\<lambda>i. case map_of (rev (map (\<lambda>v. (vrf_ID v, vrf_Name v)) vrfs)) i of None \<Rightarrow> [] | Some s \<Rightarrow> s);
         byKey = fold (addAllocEntry vrfName) allocs (fold addPoolEntry pools []);
         all = mapOrder (map snd byKey)
     in dbind (if parentRaw \<noteq> [] then
                 dres (case ParsePrefix parentRaw of Inl e \<Rightarrow> Inl (StatusErr 400 e) | Inr p \<Rightarrow> Inr (Some p))
               else dret None) (\<lambda>parent.
     dret (map (treeNodeOf all) (order_by treeLess (treeCandidates parent all))))))))"

subsection \<open>Lists and pages\<close>

record VRFListItem =
  li_ID :: nat
  li_NamespaceID :: nat
  li_NamespaceName :: string
  li_Name :: string
  li_Description :: string
  li_IsDefault :: bool
  li_RD :: string
  li_ImportRT :: string
  li_ExportRT :: string
  li_Source :: string
  li_PrefixCount :: nat

definition prefixCountAllVRFs :: "(nat \<Rightarrow> nat) ipam" where
  "prefixCountAllVRFs = query (\<lambda>db v. length (filter (\<lambda>p. pfx_VRFID p = v) (t_prefixes db)))"

definition ListAllVRFs :: "(string \<Rightarrow> string \<Rightarrow> bool) \<Rightarrow> VRFListItem list ipam" where
  "ListAllVRFs collate =
     dbind (query (\<lambda>db. order_by (\<lambda>a b. if vrf_Name a \<noteq> vrf_Name b then collate (vrf_Name a) (vrf_Name b)
         else vrf_ID a < vrf_ID b) (t_vrfs db))) (\<lambda>rows.
     let nsIDs = remdups (map vrf_NamespaceID rows)
     in dbind (if length nsIDs > 0 then Find t_namespaces (\<lambda>n. ns_ID n \<in> set nsIDs) else dret []) (\<lambda>nss.
     let nsName = (\<lambda>i. case map_of (rev (map (\<lambda>n. (ns_ID n, ns_Name n)) nss)) i of None \<Rightarrow> [] | Some s \<Rightarrow> s)
     in dbind prefixCountAllVRFs (\<lambda>counts.
     dret (map (\<lambda>r. \<lparr>li_ID = vrf_ID r, li_NamespaceID = vrf_NamespaceID r,
        li_NamespaceName = nsName (vrf_NamespaceID r), li_Name = vrf_Name r, li_Description = vrf_Description r,
        li_IsDefault = vrf_IsDefault r, li_RD = vrf_RD r, li_ImportRT = vrf_ImportRT r,
        li_ExportRT = vrf_ExportRT r, li_Source = vrf_Source r, li_PrefixCount = counts (vrf_ID r)\<rparr>) rows))))"

definition ListDhcpPrefixes :: "(string \<Rightarrow> string \<Rightarrow> bool) \<Rightarrow> IpamPrefix list ipam" where
  "ListDhcpPrefixes collate =
     query (\<lambda>db. order_by (\<lambda>a b. collate (pfx_Prefix a) (pfx_Prefix b)) (filter pfx_DhcpEnabled (t_prefixes db)))"

record HostPage =
  hp_PrefixID :: nat
  hp_Prefix :: string
  hp_VRFID :: nat
  hp_VRFName :: string
  hp_Family :: nat
  hp_Bits :: nat
  hp_Page :: nat
  hp_PageCount :: nat
  hp_PagePrefix :: string
  hp_PageSize :: nat
  hp_Hosts :: "HostCell list"

definition markAddresses :: "pfx \<Rightarrow> Address list \<Rightarrow> (addr \<Rightarrow> bool) \<Rightarrow> (addr \<Rightarrow> bool)" where
  "markAddresses pagePfx addrs taken = fold (\<lambda>a t.
     case parseHostAddr (adr_Address a) of
       None \<Rightarrow> t
     | Some host \<Rightarrow> if \<not> ContainsAddr pagePfx host then t else t(host := True)) addrs taken"

definition markAllocatedHosts :: "IpamPrefix \<Rightarrow> pfx \<Rightarrow> pfx \<Rightarrow> (addr \<Rightarrow> bool) \<Rightarrow> (addr \<Rightarrow> bool) ipam" where
  "markAllocatedHosts row parent pagePfx taken =
     dbind (Find t_addresses (\<lambda>a. adr_PrefixID a = Some (pfx_ID row))) (\<lambda>addrs.
     dbind (Find t_prefixes (\<lambda>c. pfx_VRFID c = pfx_VRFID row \<and> pfx_ID c \<noteq> pfx_ID row)) (\<lambda>children.
     let inside = filter (\<lambda>e. strictlyContains parent (snd e)) (items pfx_Prefix children);
         childIDs = map (pfx_ID \<circ> fst) inside;
         taken1 = fold (\<lambda>e t. if Overlaps pagePfx (snd e) then markPrefixHosts pagePfx (snd e) t else t) inside taken
     in dbind (if length childIDs > 0 then Find t_addresses (\<lambda>a. case adr_PrefixID a of None \<Rightarrow> False | Some i \<Rightarrow> i \<in> set childIDs)
               else dret []) (\<lambda>childAddrs.
     dret (markAddresses pagePfx (addrs @ childAddrs) taken1))))"

definition PrefixHosts :: "nat \<Rightarrow> int \<Rightarrow> HostPage ipam" where
  "PrefixHosts prefixID page0 =
     dcase (First pfx_ID t_prefixes (\<lambda>r. pfx_ID r = prefixID)) (\<lambda>r1. case r1 of
       Inl _ \<Rightarrow> dfail (StatusErr 404 ''prefix not found'')
     | Inr row \<Rightarrow>
     dbind (dres (case ParsePrefix (pfx_Prefix row) of Inl e \<Rightarrow> Inl (StatusErr 400 e) | Inr p \<Rightarrow> Inr p)) (\<lambda>p.
     dcase (First vrf_ID t_vrfs (\<lambda>v. vrf_ID v = pfx_VRFID row)) (\<lambda>r2. case r2 of
       Inl _ \<Rightarrow> dfail (StatusErr 404 ''VRF not found'')
     | Inr vrf \<Rightarrow>
     dbind (dres (case pageGeometry p page0 of Inl e \<Rightarrow> Inl (StatusErr 400 e) | Inr g \<Rightarrow> Inr g)) (\<lambda>(page, pageCount, pageBits).
     let pageSize = 2 ^ pageBits;
         start = pageStart p page pageSize;
         pagePfx = pagePrefix p start pageBits
     in dbind (markAllocatedHosts row p pagePfx (\<lambda>_. False)) (\<lambda>taken.
     dret \<lparr>hp_PrefixID = pfx_ID row, hp_Prefix = pfx_Prefix row, hp_VRFID = pfx_VRFID row,
        hp_VRFName = (if vrf_IsDefault vrf then [] else vrf_Name vrf), hp_Family = familyOf p, hp_Bits = Bits p,
        hp_Page = page, hp_PageCount = pageCount, hp_PagePrefix = pfx_string pagePfx, hp_PageSize = pageSize,
        hp_Hosts = hostCells p taken pageSize start\<rparr>)))))"

subsection \<open>Node keys\<close>

lemma ParseNodeKey_nodeKey:
  assumes "kind \<noteq> []" and "\<forall>c \<in> set kind. \<not> is_space c \<and> c \<noteq> CHR '':''" and "i < 2 ^ 64"
  shows "ParseNodeKey (nodeKey kind i) = Inr (kind, i)"
proof -
  have "last (nodeKey kind i) \<in> set (Itoa i)" by (simp add: nodeKey_def)
  then have "\<not> is_space (last (nodeKey kind i))" using Itoa_addr_char addr_char_no_space by blast
  moreover have "hd (nodeKey kind i) = hd kind" using assms(1) by (simp add: nodeKey_def)
  ultimately have trim: "TrimSpace (nodeKey kind i) = nodeKey kind i"
    using assms(1,2) by (intro TrimSpace_id) auto
  have "Cut (nodeKey kind i) (CHR '':'') = Some (kind, Itoa i)"
    using Cut_append[of "CHR '':''" kind "Itoa i"] assms(2) by (auto simp: nodeKey_def)
  then show ?thesis using assms(1) ParseUint_Itoa[OF assms(3)] by (simp add: ParseNodeKey_def trim)
qed

lemma Itoa_inject: "Itoa a = Itoa b \<longleftrightarrow> a = b"
  by (metis digits_val_Itoa option.inject)

lemma nodeKey_inject: "nodeKey k a = nodeKey k b \<longleftrightarrow> a = b"
  by (simp add: nodeKey_def Itoa_inject)

subsection \<open>The tree of a VRF\<close>

lemma inv_ids: "ipam_inv db \<Longrightarrow> ids_ok vrf_ID (q_vrfs db) (t_vrfs db)" "ipam_inv db \<Longrightarrow> ids_ok pfx_ID (q_prefixes db) (t_prefixes db)"
  by (simp_all add: ipam_inv_def)

lemma inv_prefix_vrf:
  "ipam_inv db \<Longrightarrow> r \<in> set (t_prefixes db) \<Longrightarrow>
   \<exists>v \<in> set (t_vrfs db). vrf_ID v = pfx_VRFID r \<and> vrf_NamespaceID v = pfx_NamespaceID r"
  by (simp add: ipam_inv_def refs_ok_def)

lemma first_by_unique:
  assumes "ids_ok key q rows" and "r \<in> set rows"
  shows "first_by key (\<lambda>x. key x = key r) rows = Some r"
proof (cases "first_by key (\<lambda>x. key x = key r) rows")
  case None
  then show ?thesis using assms(2) by (auto simp: first_by_None)
next
  case (Some x)
  then show ?thesis using first_by_Some[OF Some] ids_ok_unique[OF assms(1), of x r] assms(2) by simp
qed

lemma strictlyContains_iff: "strictlyContains p q \<longleftrightarrow> containsPrefix p q \<and> p \<noteq> q"
  by (auto simp: strictlyContains_def containsPrefix_def)

lemma set_items: "(r, p) \<in> set (items f rows) \<longleftrightarrow> r \<in> set rows \<and> ParsePrefix (f r) = Inr p"
  by (induction rows) (auto simp: items_def split: sum.splits)

lemma image_filter_iff:
  "x \<in> set xs \<Longrightarrow> \<forall>e \<in> set xs. f e = f x \<longrightarrow> e = x \<Longrightarrow> f x \<in> f ` set (filter K xs) \<longleftrightarrow> K x"
  by auto

lemma keys_of_nodes:
  "n_Key ` set (vrfChildNodes vrf rows parent) =
     (\<lambda>e. nodeKey ''pfx'' (pfx_ID (fst e))) ` set (filter (case parent of None \<Rightarrow> isTopLevel pfx_ID (items pfx_Prefix rows)
        | Some p \<Rightarrow> isChildOf pfx_ID (items pfx_Prefix rows) p) (items pfx_Prefix rows))"
  by (simp add: vrfChildNodes_def Let_def sortTreePrefixes_def image_image allocNode_def)

text \<open>What the tree shows below a parent: row \<open>r\<close> of VRF \<open>v\<close> is a node under prefix id \<open>par\<close>, 0 for the top.\<close>

definition shownUnder :: "ipam_db \<Rightarrow> nat \<Rightarrow> nat \<Rightarrow> IpamPrefix \<Rightarrow> bool" where
  "shownUnder db v par r \<longleftrightarrow> (\<exists>nodes. vrfPrefixChildren v par (db, []) = (Inr nodes, (db, [])) \<and>
     nodeKey ''pfx'' (pfx_ID r) \<in> n_Key ` set nodes)"

lemma vrf_rows_separate:
  assumes inv: "ipam_inv db" and "vrf \<in> set (t_vrfs db)" and "a \<in> set (t_prefixes db)" "b \<in> set (t_prefixes db)"
    and "pfx_VRFID a = vrf_ID vrf" "pfx_VRFID b = vrf_ID vrf" and "pfx_ID a \<noteq> pfx_ID b"
  shows "ParsePrefix (pfx_Prefix a) \<noteq> ParsePrefix (pfx_Prefix b)"
proof -
  have ns: "pfx_NamespaceID r = vrf_NamespaceID vrf" if "r \<in> set (t_prefixes db)" "pfx_VRFID r = vrf_ID vrf" for r
    using inv_prefix_vrf[OF inv that(1)] ids_ok_unique[OF inv_ids(1)[OF inv] _ assms(2)] that(2) by metis
  have "separate a b" using inv assms(3-7) ns by (simp add: ipam_inv_def plan_ok_def)
  then show ?thesis by (auto simp: separate_def split: sum.splits)
qed

lemma vrfPrefixChildren_run:
  assumes inv: "ipam_inv db" and vrf: "vrf \<in> set (t_vrfs db)"
    and par: "par = 0 \<and> parent = None \<or> (\<exists>q \<in> set (t_prefixes db). pfx_ID q = par \<and> (\<exists>p. ParsePrefix (pfx_Prefix q) = Inr p \<and> parent = Some p))"
  shows "vrfPrefixChildren (vrf_ID vrf) par (db, []) =
    (Inr (vrfChildNodes vrf (filter (\<lambda>a. pfx_VRFID a = vrf_ID vrf) (t_prefixes db)) parent), (db, []))"
proof -
  have v: "first_by vrf_ID (\<lambda>v. vrf_ID v = vrf_ID vrf) (t_vrfs db) = Some vrf"
    by (rule first_by_unique[OF inv_ids(1)[OF inv] vrf])
  have q: "first_by pfx_ID (\<lambda>r. pfx_ID r = par) (t_prefixes db) = Some q" if "q \<in> set (t_prefixes db)" "pfx_ID q = par" for q
    using first_by_unique[OF inv_ids(2)[OF inv] that(1)] that(2) by simp
  show ?thesis
  proof (cases "par = 0")
    case True
    moreover have "parent = None" using par True inv by (auto simp: ipam_inv_def ids_ok_def)
    ultimately show ?thesis by (simp add: vrfPrefixChildren_def run_firstOr db_run v)
  next
    case False
    with par obtain r p where "r \<in> set (t_prefixes db)" "pfx_ID r = par" "ParsePrefix (pfx_Prefix r) = Inr p" "parent = Some p"
      by blast
    with False show ?thesis using q[of r] by (simp add: vrfPrefixChildren_def run_firstOr db_run v)
  qed
qed

lemma shownUnder_iff:
  assumes inv: "ipam_inv db" and vrf: "vrf \<in> set (t_vrfs db)"
    and r: "r \<in> set (t_prefixes db)" "pfx_VRFID r = vrf_ID vrf" "ParsePrefix (pfx_Prefix r) = Inr c"
  defines "A \<equiv> {p. \<exists>q \<in> set (t_prefixes db). pfx_VRFID q = vrf_ID vrf \<and> ParsePrefix (pfx_Prefix q) = Inr p}"
  shows "shownUnder db (vrf_ID vrf) 0 r \<longleftrightarrow> (\<forall>p \<in> A. \<not> (containsPrefix p c \<and> p \<noteq> c))"
    and "q \<in> set (t_prefixes db) \<Longrightarrow> ParsePrefix (pfx_Prefix q) = Inr p \<Longrightarrow>
      shownUnder db (vrf_ID vrf) (pfx_ID q) r \<longleftrightarrow>
        containsPrefix p c \<and> p \<noteq> c \<and> (\<forall>o' \<in> A. \<not> (containsPrefix p o' \<and> p \<noteq> o' \<and> containsPrefix o' c \<and> o' \<noteq> c))"
proof -
  let ?rows = "filter (\<lambda>a. pfx_VRFID a = vrf_ID vrf) (t_prefixes db)"
  let ?all = "items pfx_Prefix ?rows"
  have A: "p \<in> A \<longleftrightarrow> (\<exists>q. (q, p) \<in> set ?all)" for p by (auto simp: A_def set_items)
  have same: "pfx_ID q = pfx_ID r \<Longrightarrow> p = c" if "(q, p) \<in> set ?all" for q p
    using that r ids_ok_unique[OF inv_ids(2)[OF inv], of q r] by (auto simp: set_items)
  have ex: "(\<not> (\<exists>e \<in> set ?all. pfx_ID (fst e) \<noteq> pfx_ID r \<and> K (snd e))) \<longleftrightarrow> (\<forall>p \<in> A. \<not> K p)" if "\<not> K c" for K
    unfolding Ball_def Bex_def A using same that by (metis fst_conv snd_conv surj_pair)
  have key: "nodeKey ''pfx'' (pfx_ID r) \<in> n_Key ` set (vrfChildNodes vrf ?rows parent) \<longleftrightarrow>
      (case parent of None \<Rightarrow> isTopLevel pfx_ID ?all | Some p \<Rightarrow> isChildOf pfx_ID ?all p) (r, c)" for parent
  proof -
    have "e = (r, c)" if e: "e \<in> set ?all" "pfx_ID (fst e) = pfx_ID r" for e
    proof -
      obtain a p where ep: "e = (a, p)" by (cases e)
      then have "a \<in> set (t_prefixes db)" "ParsePrefix (pfx_Prefix a) = Inr p" using e(1) by (simp_all add: set_items)
      moreover from this have "a = r" using ids_ok_unique[OF inv_ids(2)[OF inv] _ r(1)] e(2) ep by simp
      ultimately show ?thesis using ep r(3) by simp
    qed
    then have u: "\<forall>e \<in> set ?all. nodeKey ''pfx'' (pfx_ID (fst e)) = nodeKey ''pfx'' (pfx_ID (fst (r, c))) \<longrightarrow> e = (r, c)"
      by (simp add: nodeKey_inject)
    have "(r, c) \<in> set ?all" using r by (simp add: set_items)
    from image_filter_iff[OF this u] have "nodeKey ''pfx'' (pfx_ID (fst (r, c))) \<in> (\<lambda>e. nodeKey ''pfx'' (pfx_ID (fst e))) ` set (filter K ?all) \<longleftrightarrow> K (r, c)" for K
      .
    then show ?thesis unfolding keys_of_nodes by simp
  qed
  have "shownUnder db (vrf_ID vrf) 0 r \<longleftrightarrow> isTopLevel pfx_ID ?all (r, c)"
    using vrfPrefixChildren_run[OF inv vrf, of 0 None] key[of None] by (simp add: shownUnder_def)
  then show "shownUnder db (vrf_ID vrf) 0 r \<longleftrightarrow> (\<forall>p \<in> A. \<not> (containsPrefix p c \<and> p \<noteq> c))"
    using ex[of "\<lambda>p. containsPrefix p c \<and> p \<noteq> c"] by (simp add: isTopLevel_def list_ex_iff strictlyContains_iff)
  assume q: "q \<in> set (t_prefixes db)" "ParsePrefix (pfx_Prefix q) = Inr p"
  then have "vrfPrefixChildren (vrf_ID vrf) (pfx_ID q) (db, []) = (Inr (vrfChildNodes vrf ?rows (Some p)), (db, []))"
    by (intro vrfPrefixChildren_run[OF inv vrf]) blast
  then have "shownUnder db (vrf_ID vrf) (pfx_ID q) r \<longleftrightarrow> isChildOf pfx_ID ?all p (r, c)"
    using key[of "Some p"] by (simp add: shownUnder_def)
  then show "shownUnder db (vrf_ID vrf) (pfx_ID q) r \<longleftrightarrow>
        containsPrefix p c \<and> p \<noteq> c \<and> (\<forall>o' \<in> A. \<not> (containsPrefix p o' \<and> p \<noteq> o' \<and> containsPrefix o' c \<and> o' \<noteq> c))"
    using ex[of "\<lambda>o'. containsPrefix p o' \<and> p \<noteq> o' \<and> containsPrefix o' c \<and> o' \<noteq> c"]
    by (simp add: isChildOf_def list_ex_iff strictlyContains_iff)
qed



text \<open>
  The key of a tree node names its row: ParseNodeKey reads back the kind and the id, so opening a
  node asks for the children of the row it was made from.
\<close>

theorem nodeKey_roundtrip:
  assumes "i < 2 ^ 64"
  shows "ParseNodeKey (nodeKey ''ns'' i) = Inr (''ns'', i) \<and> ParseNodeKey (nodeKey ''pool'' i) = Inr (''pool'', i) \<and>
    ParseNodeKey (nodeKey ''vrf'' i) = Inr (''vrf'', i) \<and> ParseNodeKey (nodeKey ''pfx'' i) = Inr (''pfx'', i)"
  using assms by (auto intro!: ParseNodeKey_nodeKey simp: is_space_def)

theorem nodeKey_roundtrip_witness: "ParseNodeKey (nodeKey ''pfx'' 17) = Inr (''pfx'', 17)"
  using nodeKey_roundtrip[of 17] by simp

end
