(* ===== verification/Optical_Models.thy ===== *)
theory Optical_Models
  imports Go_Db
begin

text \<open>
  The data of the optical network, \<open>models/optical.go\<close> with the parts of devices, interfaces, connections and
  services it refers to, and the resolution of optical kinds, \<open>internal/optical/kind.go\<close>. Rows carry the columns
  the package reads or writes; an id of 0 stands for no row.

  Lemmas: a resolved kind is always one of the allowed ones, and resolving is idempotent.
\<close>

subsection \<open>Constants\<close>

definition OpticalKindROADM :: string where "OpticalKindROADM = ''roadm''"
definition OpticalKindWDMShelf :: string where "OpticalKindWDMShelf = ''wdm_shelf''"
definition OpticalKindILA :: string where "OpticalKindILA = ''ila''"
definition OpticalKindPassive :: string where "OpticalKindPassive = ''passive''"

definition OpticalKindAliases :: "(string \<times> string) list" where
  "OpticalKindAliases = [(''transponder'', OpticalKindWDMShelf), (''muxponder'', OpticalKindWDMShelf)]"

definition AllowedOpticalKinds :: "string list" where
  "AllowedOpticalKinds = [OpticalKindROADM, OpticalKindWDMShelf, OpticalKindILA, OpticalKindPassive]"

definition IsOpticalKind :: "string \<Rightarrow> bool" where
  "IsOpticalKind kind \<longleftrightarrow> kind \<in> set AllowedOpticalKinds"

definition PortTXPClient :: string where "PortTXPClient = ''txp_client''"
definition PortTXPLine :: string where "PortTXPLine = ''txp_line''"
definition PortROADMAddDrop :: string where "PortROADMAddDrop = ''roadm_adddrop''"
definition PortROADMDegree :: string where "PortROADMDegree = ''roadm_degree''"
definition PortFiber :: string where "PortFiber = ''fiber_port''"

definition AllowedOpticalPortRoles :: "string list" where
  "AllowedOpticalPortRoles = [PortTXPClient, PortTXPLine, PortROADMAddDrop, PortROADMDegree, PortFiber]"

definition XCTributary :: string where "XCTributary = ''tributary''"
definition XCAddDrop :: string where "XCAddDrop = ''roadm_adddrop''"
definition XCExpress :: string where "XCExpress = ''roadm_express''"
definition XCPassthrough :: string where "XCPassthrough = ''passthrough''"
definition XCSourceOpenROADM :: string where "XCSourceOpenROADM = ''openroadm''"

definition HopInterface :: string where "HopInterface = ''interface''"
definition HopDevice :: string where "HopDevice = ''device''"
definition HopConnection :: string where "HopConnection = ''connection''"
definition HopXConnect :: string where "HopXConnect = ''xconnect''"

definition PathComplete :: string where "PathComplete = ''complete''"
definition PathIncomplete :: string where "PathIncomplete = ''incomplete''"
definition PathStale :: string where "PathStale = ''stale''"
definition PathConflict :: string where "PathConflict = ''conflict''"

definition TraceModeWDM :: string where "TraceModeWDM = ''wdm''"
definition TraceModeFiber :: string where "TraceModeFiber = ''fiber''"

definition StartCustomerPort :: string where "StartCustomerPort = ''customer_port''"
definition StartTXPClient :: string where "StartTXPClient = ''txp_client''"
definition StartFiberPort :: string where "StartFiberPort = ''fiber_port''"

lemmas port_role_defs = PortTXPClient_def PortTXPLine_def PortROADMAddDrop_def PortROADMDegree_def PortFiber_def
lemmas xc_kind_defs = XCTributary_def XCAddDrop_def XCExpress_def XCPassthrough_def
lemmas path_status_defs = PathComplete_def PathIncomplete_def PathStale_def PathConflict_def
lemmas hop_kind_defs = HopInterface_def HopDevice_def HopConnection_def HopXConnect_def

subsection \<open>Rows\<close>

record ODevice =
  od_ID :: nat
  od_Name :: string
  od_Role :: string
  od_Status :: string
  od_OpticalKind :: string
  od_OpticalKindCF :: string

record Interface =
  if_ID :: nat
  if_DeviceID :: nat
  if_Name :: string

record OpticalPort =
  op_ID :: nat
  op_InterfaceID :: nat
  op_Role :: string
  op_FreqHz :: nat

record OpticalXConnect =
  xc_ID :: nat
  xc_DeviceID :: nat
  xc_Kind :: string
  xc_InterfaceAID :: nat
  xc_InterfaceBID :: nat
  xc_FreqHz :: nat
  xc_Source :: string

record Connection =
  cn_ID :: nat
  cn_NetboxID :: nat
  cn_DeviceAID :: nat
  cn_InterfaceAID :: nat
  cn_DeviceBID :: nat
  cn_InterfaceBID :: nat
  cn_Label :: string

record ServicePath =
  sp_ServiceID :: nat
  sp_Mode :: string
  sp_Status :: string
  sp_EndpointAInterfaceID :: nat
  sp_EndpointZInterfaceID :: nat
  sp_StartKindA :: string
  sp_FreqHz :: nat
  sp_LastTraceError :: string

record ServiceHop =
  sh_ServiceID :: nat
  sh_Seq :: nat
  sh_Kind :: string
  sh_InterfaceID :: "nat option"
  sh_ConnectionID :: "nat option"
  sh_XConnectID :: "nat option"
  sh_DeviceID :: "nat option"
  sh_FreqHz :: nat
  sh_Label :: string

record Service =
  sv_ID :: nat
  sv_ServiceID :: string
  sv_CustomerID :: nat
  sv_ServiceType :: string

record Customer =
  cu_ID :: nat
  cu_Name :: string

record ServiceEndpoint =
  se_ServiceID :: nat
  se_DeviceID :: nat

record ServiceType =
  sy_ID :: nat
  sy_Name :: string
  sy_SyncSource :: string

record OpticalKindMap =
  km_NetboxRoleName :: string
  km_OpticalKind :: string

text \<open>The Go zero values that a missing map entry yields.\<close>

definition zeroPort :: OpticalPort where
  "zeroPort = \<lparr>op_ID = 0, op_InterfaceID = 0, op_Role = [], op_FreqHz = 0\<rparr>"

definition zeroInterface :: Interface where
  "zeroInterface = \<lparr>if_ID = 0, if_DeviceID = 0, if_Name = []\<rparr>"

definition zeroODevice :: ODevice where
  "zeroODevice = \<lparr>od_ID = 0, od_Name = [], od_Role = [], od_Status = [], od_OpticalKind = [], od_OpticalKindCF = []\<rparr>"

subsection \<open>Tables\<close>

record optical_db =
  ot_devices :: "ODevice list"
  ot_interfaces :: "Interface list"
  ot_connections :: "Connection list"
  oq_connections :: nat
  ot_ports :: "OpticalPort list"
  oq_ports :: nat
  ot_xconnects :: "OpticalXConnect list"
  oq_xconnects :: nat
  ot_paths :: "ServicePath list"
  ot_hops :: "ServiceHop list"
  ot_services :: "Service list"
  ot_customers :: "Customer list"
  ot_endpoints :: "ServiceEndpoint list"
  ot_kindmaps :: "OpticalKindMap list"
  ot_servicetypes :: "ServiceType list"

type_synonym 'a optical = "(optical_db, 'a) dbm"

definition optical_rollback :: "optical_db \<Rightarrow> optical_db \<Rightarrow> optical_db" where
  "optical_rollback db db' = db\<lparr>oq_connections := max (oq_connections db) (oq_connections db'), oq_ports := max (oq_ports db) (oq_ports db'), oq_xconnects := max (oq_xconnects db) (oq_xconnects db')\<rparr>"

subsection \<open>Optical kinds\<close>

text \<open>A custom-field value as decoded from JSON: null, a string, an object, or anything else.\<close>

datatype cfValue = CfNil | CfString string | CfMap "(string \<times> cfValue) list" | CfOther

definition CustomFieldValue :: "(string \<times> cfValue) list option \<Rightarrow> string list \<Rightarrow> cfValue" where
  "CustomFieldValue extras names =
     (case extras of
        None \<Rightarrow> CfNil
      | Some fs \<Rightarrow>
          (case find (\<lambda>name. case map_of fs name of Some v \<Rightarrow> v \<noteq> CfNil \<and> v \<noteq> CfString [] | None \<Rightarrow> False) names of
             Some name \<Rightarrow> the (map_of fs name)
           | None \<Rightarrow> CfNil))"

definition cfString :: "cfValue \<Rightarrow> string" where
  "cfString raw =
     (case raw of
        CfString v \<Rightarrow> TrimSpace v
      | CfMap m \<Rightarrow> (case map_of m ''value'' of Some (CfString s) \<Rightarrow> TrimSpace s | _ \<Rightarrow> [])
      | _ \<Rightarrow> [])"

definition normalizeKind :: "string \<Rightarrow> string" where
  "normalizeKind s0 =
     (let s = ToLower (TrimSpace s0); s = (case map_of OpticalKindAliases s of Some a \<Rightarrow> a | None \<Rightarrow> s)
      in if s \<in> set AllowedOpticalKinds then s else [])"

definition NormalizeOpticalKindCF :: "cfValue \<Rightarrow> string" where
  "NormalizeOpticalKindCF raw = normalizeKind (cfString raw)"

definition NormalizeOpticalPortRole :: "cfValue \<Rightarrow> string" where
  "NormalizeOpticalPortRole raw =
     (let s = ToLower (cfString raw) in if s \<in> set AllowedOpticalPortRoles then s else [])"

definition ResolveOpticalKind :: "string \<Rightarrow> string \<Rightarrow> (string \<rightharpoonup> string) \<Rightarrow> string" where
  "ResolveOpticalKind cf role maps =
     (if normalizeKind cf \<noteq> [] then normalizeKind cf
      else (case maps (ToLower (TrimSpace role)) of
              Some kind \<Rightarrow> if kind \<noteq> [] then normalizeKind kind else []
            | None \<Rightarrow> []))"

definition LoadKindMaps :: "(string \<rightharpoonup> string) optical" where
  "LoadKindMaps = dbind (Find ot_kindmaps (\<lambda>_. True)) (\<lambda>rows.
     dret (fold (\<lambda>r m. m(ToLower (km_NetboxRoleName r) \<mapsto> km_OpticalKind r)) rows Map.empty))"

definition setDeviceKind :: "nat \<Rightarrow> string \<Rightarrow> unit optical" where
  "setDeviceKind i kind = stmt (\<lambda>db. (Inr (),
     db\<lparr>ot_devices := map (\<lambda>d. if od_ID d = i then d\<lparr>od_OpticalKind := kind\<rparr> else d) (ot_devices db)\<rparr>))"

definition ReresolveAllKinds :: "unit optical" where
  "ReresolveAllKinds = dbind LoadKindMaps (\<lambda>maps.
     dbind (Find ot_devices (\<lambda>_. True)) (\<lambda>devices.
     dbind (dfor devices (\<lambda>d. setDeviceKind (od_ID d) (ResolveOpticalKind (od_OpticalKindCF d) (od_Role d) maps)))
       (\<lambda>_. dret ())))"

lemma normalizeKind_allowed: "normalizeKind s \<in> insert [] (set AllowedOpticalKinds)"
  by (simp add: normalizeKind_def Let_def)

lemma normalizeKind_idem: "normalizeKind (normalizeKind s) = normalizeKind s"
proof -
  have "normalizeKind k = k" if "k \<in> insert [] (set AllowedOpticalKinds)" for k
    using that by (auto simp: normalizeKind_def AllowedOpticalKinds_def OpticalKindAliases_def OpticalKindROADM_def
        OpticalKindWDMShelf_def OpticalKindILA_def OpticalKindPassive_def ToLower_def lower_char_def TrimSpace_def
        TrimLeft_def is_space_def)
  then show ?thesis using normalizeKind_allowed by blast
qed

end
