(* ===== verification/Optical_Trace.thy ===== *)
theory Optical_Trace
  imports Optical_Models
begin

text \<open>
  The trace through the optical network, \<open>internal/optical/trace.go\<close>: the graph loaded from the tables, and the walk
  that follows cables between devices and cross-connects inside them. A Go map is an association list in the order
  of its iteration; \<open>nil\<close> pointers are \<open>None\<close>. The maps \<open>Conns\<close> and \<open>XCs\<close> of the graph are never read and
  left out.

  Lemmas: the walk ends; what it returns is a route of the graph that alternates cables and crossings and visits no
  interface twice; a route has one wavelength.
\<close>

subsection \<open>The graph\<close>

record Graph =
  g_Ifaces :: "(nat \<times> Interface) list"
  g_Devices :: "(nat \<times> ODevice) list"
  g_Ports :: "(nat \<times> OpticalPort) list"
  g_ConnsByIface :: "(nat \<times> Connection list) list"
  g_XCsByIface :: "(nat \<times> OpticalXConnect list) list"

definition lookup :: "'v \<Rightarrow> ('k \<times> 'v) list \<Rightarrow> 'k \<Rightarrow> 'v" where
  "lookup zero m k = (case map_of m k of Some v \<Rightarrow> v | None \<Rightarrow> zero)"

definition ifaceOf :: "Graph \<Rightarrow> nat \<Rightarrow> Interface" where
  "ifaceOf g i = lookup zeroInterface (g_Ifaces g) i"

definition connsAt :: "Graph \<Rightarrow> nat \<Rightarrow> Connection list" where
  "connsAt g i = lookup [] (g_ConnsByIface g) i"

definition xcsAt :: "Graph \<Rightarrow> nat \<Rightarrow> OpticalXConnect list" where
  "xcsAt g i = lookup [] (g_XCsByIface g) i"

text \<open>\<open>m[k] = v\<close> and \<open>m[k] = append(m[k], v)\<close> on an association list.\<close>

fun putKey :: "'k \<Rightarrow> 'v \<Rightarrow> ('k \<times> 'v) list \<Rightarrow> ('k \<times> 'v) list" where
  "putKey k v [] = [(k, v)]"
| "putKey k v ((k', v') # m) = (if k = k' then (k, v) # m else (k', v') # putKey k v m)"

definition appendKey :: "'k \<Rightarrow> 'v \<Rightarrow> ('k \<times> 'v list) list \<Rightarrow> ('k \<times> 'v list) list" where
  "appendKey k v m = putKey k (lookup [] m k @ [v]) m"

text \<open>
  \<open>LoadGraph\<close>. The second half of the function loads every interface and every device that is not there yet, so
  that a walk can start anywhere; it only adds entries.
\<close>

definition addDevices :: "ODevice list \<Rightarrow> (nat \<times> ODevice) list \<Rightarrow> (nat \<times> ODevice) list" where
  "addDevices devs m = fold (\<lambda>d m. putKey (od_ID d) d m) devs m"

definition LoadGraph :: "Graph optical" where
  "LoadGraph =
     dbind (Find ot_connections (\<lambda>_. True)) (\<lambda>conns.
     dbind (Find ot_xconnects (\<lambda>_. True)) (\<lambda>xcs.
     dbind (Find ot_ports (\<lambda>_. True)) (\<lambda>ports.
     let gports = fold (\<lambda>p m. putKey (op_InterfaceID p) p m) ports [];
         cbi = fold (\<lambda>c m. appendKey (cn_InterfaceBID c) c (appendKey (cn_InterfaceAID c) c m)) conns [];
         xbi = fold (\<lambda>x m. appendKey (xc_InterfaceBID x) x (appendKey (xc_InterfaceAID x) x m)) xcs [];
         ids = concat (map (\<lambda>c. [cn_InterfaceAID c, cn_InterfaceBID c]) conns) @
               concat (map (\<lambda>x. [xc_InterfaceAID x, xc_InterfaceBID x]) xcs)
     in dbind (if ids = [] then dret ([], [])
          else dbind (Find ot_interfaces (\<lambda>i. if_ID i \<in> set ids)) (\<lambda>ifaces.
               dbind (Find ot_devices (\<lambda>d. od_ID d \<in> if_DeviceID ` set ifaces)) (\<lambda>devs.
               dret (fold (\<lambda>i m. putKey (if_ID i) i m) ifaces [], addDevices devs []))))
          (\<lambda>(gifaces, gdevs).
     dbind (Find ot_interfaces (\<lambda>_. True)) (\<lambda>all.
     let gifaces' = fold (\<lambda>i m. if map_of m (if_ID i) = None then putKey (if_ID i) i m else m) all gifaces;
         need = filter (\<lambda>d. map_of gdevs d = None) (map if_DeviceID all)
     in dbind (if need = [] then dret gdevs
               else dbind (Find ot_devices (\<lambda>d. od_ID d \<in> set need)) (\<lambda>devs. dret (addDevices devs gdevs))) (\<lambda>gdevs'.
        dret \<lparr>g_Ifaces = gifaces', g_Devices = gdevs', g_Ports = gports, g_ConnsByIface = cbi, g_XCsByIface = xbi\<rparr>))))))"

subsection \<open>Moves\<close>

record Hop =
  h_Kind :: string
  h_InterfaceID :: "nat option"
  h_ConnectionID :: "nat option"
  h_XConnectID :: "nat option"
  h_DeviceID :: "nat option"
  h_FreqHz :: nat
  h_Label :: string

definition zeroHop :: Hop where
  "zeroHop = \<lparr>h_Kind = [], h_InterfaceID = None, h_ConnectionID = None, h_XConnectID = None, h_DeviceID = None,
     h_FreqHz = 0, h_Label = []\<rparr>"

record Result =
  r_Status :: string
  r_FreqHz :: nat
  r_Error :: string
  r_Hops :: "Hop list"
  r_Tributaries :: "nat list"
  r_StartKind :: string

datatype arrival = arrStart | arrConnection | arrXConnect | arrPassthrough

text \<open>The six results of the functions that choose the next interface; \<open>mv_id\<close> 0 is no move.\<close>

record move =
  mv_id :: nat
  mv_arr :: arrival
  mv_arrID :: nat
  mv_hop :: Hop
  mv_conflict :: bool
  mv_trib :: "nat list"

definition stuck :: "nat list \<Rightarrow> move" where
  "stuck trib = \<lparr>mv_id = 0, mv_arr = arrStart, mv_arrID = 0, mv_hop = zeroHop, mv_conflict = False, mv_trib = trib\<rparr>"

definition conflict :: "string \<Rightarrow> move" where
  "conflict label = (stuck [])\<lparr>mv_hop := zeroHop\<lparr>h_Label := label\<rparr>, mv_conflict := True\<rparr>"

definition portRole :: "Graph \<Rightarrow> nat \<Rightarrow> string" where
  "portRole g i = op_Role (lookup zeroPort (g_Ports g) i)"

definition ifaceLabel :: "Graph \<Rightarrow> nat \<Rightarrow> string" where
  "ifaceLabel g i =
     (let d = lookup zeroODevice (g_Devices g) (if_DeviceID (ifaceOf g i))
      in if od_Name d = [] then if_Name (ifaceOf g i) else od_Name d @ '' '' @ if_Name (ifaceOf g i))"

text \<open>The text of \<open>"%s <-> %s"\<close>, with the double arrow in UTF-8.\<close>

definition linkLabel :: "Graph \<Rightarrow> nat \<Rightarrow> nat \<Rightarrow> string" where
  "linkLabel g a b = ifaceLabel g a @ '' '' @ [CHR 0xE2, CHR 0x86, CHR 0x94] @ '' '' @ ifaceLabel g b"

definition otherEnd :: "nat \<Rightarrow> nat \<Rightarrow> nat \<Rightarrow> nat" where
  "otherEnd a b cur = (if b = cur then a else b)"

definition lineRole :: "string \<Rightarrow> bool" where
  "lineRole r \<longleftrightarrow> r = PortROADMAddDrop \<or> r = PortROADMDegree \<or> r = PortTXPLine"

fun leaveConns :: "Graph \<Rightarrow> nat \<Rightarrow> nat \<Rightarrow> string \<Rightarrow> nat list \<Rightarrow> Connection list \<Rightarrow> move" where
  "leaveConns g cur usedConn mode visited [] = stuck []"
| "leaveConns g cur usedConn mode visited (c # cs) =
     (if cn_ID c = usedConn then leaveConns g cur usedConn mode visited cs
      else let other = otherEnd (cn_InterfaceAID c) (cn_InterfaceBID c) cur
      in if other \<in> set visited then leaveConns g cur usedConn mode visited cs
         else if mode = TraceModeFiber \<and> lineRole (portRole g other) then conflict ''fiber path hit a ROADM/txp line''
         else \<lparr>mv_id = other, mv_arr = arrConnection, mv_arrID = cn_ID c,
               mv_hop = zeroHop\<lparr>h_Kind := HopConnection, h_ConnectionID := Some (cn_ID c),
                 h_Label := linkLabel g (cn_InterfaceAID c) (cn_InterfaceBID c)\<rparr>,
               mv_conflict = False, mv_trib = []\<rparr>)"

definition leaveViaConnection :: "Graph \<Rightarrow> nat \<Rightarrow> nat \<Rightarrow> string \<Rightarrow> nat list \<Rightarrow> move" where
  "leaveViaConnection g cur usedConn mode visited = leaveConns g cur usedConn mode visited (connsAt g cur)"

fun leaveXCs :: "Graph \<Rightarrow> nat \<Rightarrow> nat \<Rightarrow> string \<Rightarrow> nat \<Rightarrow> nat list \<Rightarrow> nat list \<Rightarrow> OpticalXConnect list \<Rightarrow> move" where
  "leaveXCs g cur usedXC mode lam visited trib [] = stuck trib"
| "leaveXCs g cur usedXC mode lam visited trib (x # xs) =
     (if xc_ID x = usedXC then leaveXCs g cur usedXC mode lam visited trib xs
      else let other = otherEnd (xc_InterfaceAID x) (xc_InterfaceBID x) cur
      in if mode = TraceModeFiber \<and> xc_Kind x \<noteq> XCPassthrough then conflict ''fiber mode cannot follow a WDM xconnect''
         else if mode \<noteq> TraceModeFiber \<and> (xc_Kind x = XCAddDrop \<or> xc_Kind x = XCExpress) \<and>
                 lam \<noteq> 0 \<and> xc_FreqHz x \<noteq> 0 \<and> xc_FreqHz x \<noteq> lam
         then leaveXCs g cur usedXC mode lam visited trib xs
         else let trib' = (if mode \<noteq> TraceModeFiber \<and> xc_Kind x = XCTributary \<and> portRole g cur = PortTXPLine
                           then trib @ [other] else trib)
         in if other \<in> set visited then leaveXCs g cur usedXC mode lam visited trib' xs
            else \<lparr>mv_id = other, mv_arr = arrXConnect, mv_arrID = xc_ID x,
                  mv_hop = zeroHop\<lparr>h_Kind := HopXConnect, h_XConnectID := Some (xc_ID x), h_FreqHz := xc_FreqHz x,
                    h_Label := linkLabel g (xc_InterfaceAID x) (xc_InterfaceBID x)\<rparr>,
                  mv_conflict = False, mv_trib = trib'\<rparr>)"

definition leaveViaXConnect :: "Graph \<Rightarrow> nat \<Rightarrow> nat \<Rightarrow> string \<Rightarrow> nat \<Rightarrow> nat list \<Rightarrow> move" where
  "leaveViaXConnect g cur usedXC mode lam visited = leaveXCs g cur usedXC mode lam visited [] (xcsAt g cur)"

definition passesThrough :: "Graph \<Rightarrow> nat \<Rightarrow> bool" where
  "passesThrough g cur \<longleftrightarrow>
     (case map_of (g_Devices g) (if_DeviceID (ifaceOf g cur)) of
        None \<Rightarrow> False
      | Some dev \<Rightarrow> od_OpticalKind dev = OpticalKindILA \<or> od_OpticalKind dev = OpticalKindPassive)"

definition cabledOn :: "Graph \<Rightarrow> nat \<Rightarrow> nat list" where
  "cabledOn g dev = remdups (map (if_ID \<circ> snd)
     (filter (\<lambda>(k, i). if_DeviceID i = dev \<and> connsAt g (if_ID i) \<noteq> []) (g_Ifaces g)))"

definition leaveViaImplicitPT :: "Graph \<Rightarrow> nat \<Rightarrow> nat list \<Rightarrow> move" where
  "leaveViaImplicitPT g cur visited =
     (if \<not> passesThrough g cur then stuck []
      else (case cabledOn g (if_DeviceID (ifaceOf g cur)) of
              [p, q] \<Rightarrow>
                let other = (if p = cur then q else p)
                in if other \<in> set visited then stuck []
                   else (stuck [])\<lparr>mv_id := other, mv_arr := arrPassthrough\<rparr>
            | _ \<Rightarrow> stuck []))"

definition leaveViaXConnectOrPT :: "Graph \<Rightarrow> nat \<Rightarrow> string \<Rightarrow> nat \<Rightarrow> nat list \<Rightarrow> move" where
  "leaveViaXConnectOrPT g cur mode lam visited =
     (let mv = leaveViaXConnect g cur 0 mode lam visited
      in if mv_id mv \<noteq> 0 \<or> mv_conflict mv then mv else leaveViaImplicitPT g cur visited)"

definition nextMove :: "Graph \<Rightarrow> nat \<Rightarrow> arrival \<Rightarrow> string \<Rightarrow> string \<Rightarrow> nat \<Rightarrow> nat list \<Rightarrow> move" where
  "nextMove g cur arr startKind mode lam visited =
     (case arr of
        arrStart \<Rightarrow> if startKind = StartTXPClient \<or> startKind = ''optical'' then leaveViaXConnect g cur 0 mode lam visited
                    else leaveViaConnection g cur 0 mode visited
      | arrConnection \<Rightarrow> leaveViaXConnectOrPT g cur mode lam visited
      | _ \<Rightarrow> leaveViaConnection g cur 0 mode visited)"

definition noMoreExpected :: "Graph \<Rightarrow> nat \<Rightarrow> string \<Rightarrow> bool" where
  "noMoreExpected g i mode =
     (let role = portRole g i
      in if mode = TraceModeWDM then role = [] \<or> role = PortTXPClient \<or> role = PortFiber
         else role = [] \<or> role = PortFiber)"

definition classifyStart :: "Graph \<Rightarrow> nat \<Rightarrow> string \<Rightarrow> string" where
  "classifyStart g i mode =
     (let role = portRole g i
      in if role = PortFiber then StartFiberPort
         else if mode \<noteq> TraceModeFiber \<and> (role = PortTXPClient \<or> lineRole role) then
           if role = PortTXPClient then StartTXPClient else ''optical''
         else if list_ex (\<lambda>c. portRole g (otherEnd (cn_InterfaceAID c) (cn_InterfaceBID c) i) = PortTXPClient \<and>
                   mode \<noteq> TraceModeFiber) (connsAt g i)
         then StartCustomerPort
         else if mode = TraceModeFiber then StartFiberPort
         else StartCustomerPort)"

subsection \<open>The walk\<close>

definition ifaceHops :: "Graph \<Rightarrow> nat \<Rightarrow> nat list \<Rightarrow> nat \<Rightarrow> Hop list" where
  "ifaceHops g lam seenDevice i =
     (let dev = if_DeviceID (ifaceOf g i)
      in [zeroHop\<lparr>h_Kind := HopInterface, h_InterfaceID := Some i, h_FreqHz := lam, h_Label := ifaceLabel g i\<rparr>] @
         (if dev \<in> set seenDevice then []
          else [zeroHop\<lparr>h_Kind := HopDevice, h_DeviceID := Some dev, h_FreqHz := lam,
                  h_Label := od_Name (lookup zeroODevice (g_Devices g) dev)\<rparr>]))"

text \<open>Every interface that a move can lead to: the measure of the walk counts those not yet visited.\<close>

definition places :: "Graph \<Rightarrow> nat list" where
  "places g = concat (map (\<lambda>(k, cs). concat (map (\<lambda>c. [cn_InterfaceAID c, cn_InterfaceBID c]) cs)) (g_ConnsByIface g)) @
     concat (map (\<lambda>(k, xs). concat (map (\<lambda>x. [xc_InterfaceAID x, xc_InterfaceBID x]) xs)) (g_XCsByIface g)) @
     map (if_ID \<circ> snd) (g_Ifaces g)"

lemma lookup_in: "x \<in> set (lookup [] m k) \<Longrightarrow> \<exists>vs. (k, vs) \<in> set m \<and> x \<in> set vs"
  by (cases "map_of m k") (auto simp: lookup_def dest: map_of_SomeD)

lemma connsAt_places: "c \<in> set (connsAt g i) \<Longrightarrow> otherEnd (cn_InterfaceAID c) (cn_InterfaceBID c) cur \<in> set (places g)"
  unfolding connsAt_def by (drule lookup_in) (fastforce simp: places_def otherEnd_def)

lemma xcsAt_places: "x \<in> set (xcsAt g i) \<Longrightarrow> otherEnd (xc_InterfaceAID x) (xc_InterfaceBID x) cur \<in> set (places g)"
  unfolding xcsAt_def by (drule lookup_in) (fastforce simp: places_def otherEnd_def)

lemma leaveConns_move:
  assumes "mv_id (leaveConns g cur used mode visited cs) \<noteq> 0"
  shows "\<exists>c \<in> set cs. otherEnd (cn_InterfaceAID c) (cn_InterfaceBID c) cur \<notin> set visited \<and>
    (mode = TraceModeFiber \<longrightarrow> \<not> lineRole (portRole g (otherEnd (cn_InterfaceAID c) (cn_InterfaceBID c) cur))) \<and>
    leaveConns g cur used mode visited cs =
      \<lparr>mv_id = otherEnd (cn_InterfaceAID c) (cn_InterfaceBID c) cur, mv_arr = arrConnection, mv_arrID = cn_ID c,
       mv_hop = zeroHop\<lparr>h_Kind := HopConnection, h_ConnectionID := Some (cn_ID c),
         h_Label := linkLabel g (cn_InterfaceAID c) (cn_InterfaceBID c)\<rparr>, mv_conflict = False, mv_trib = []\<rparr>"
  using assms
proof (induction cs)
  case Nil
  then show ?case by (simp add: stuck_def)
next
  case (Cons c cs)
  let ?o = "otherEnd (cn_InterfaceAID c) (cn_InterfaceBID c) cur"
  consider "cn_ID c = used \<or> ?o \<in> set visited" | "cn_ID c \<noteq> used" "?o \<notin> set visited" "mode = TraceModeFiber \<and> lineRole (portRole g ?o)"
    | "cn_ID c \<noteq> used" "?o \<notin> set visited" "\<not> (mode = TraceModeFiber \<and> lineRole (portRole g ?o))" by blast
  then show ?case
  proof cases
    case 1
    then have "leaveConns g cur used mode visited (c # cs) = leaveConns g cur used mode visited cs" by auto
    with Cons show ?thesis by simp
  next
    case 2
    with Cons.prems show ?thesis by (simp add: conflict_def stuck_def)
  next
    case 3
    then show ?thesis by (intro bexI[of _ c]) (auto simp: Let_def)
  qed
qed

lemma leaveXCs_move:
  assumes "mv_id (leaveXCs g cur used mode lam visited trib xs) \<noteq> 0"
  shows "\<exists>x \<in> set xs. \<exists>trib'. otherEnd (xc_InterfaceAID x) (xc_InterfaceBID x) cur \<notin> set visited \<and>
    (if mode = TraceModeFiber then xc_Kind x = XCPassthrough
     else xc_Kind x = XCAddDrop \<or> xc_Kind x = XCExpress \<longrightarrow> lam = 0 \<or> xc_FreqHz x = 0 \<or> xc_FreqHz x = lam) \<and>
    leaveXCs g cur used mode lam visited trib xs =
      \<lparr>mv_id = otherEnd (xc_InterfaceAID x) (xc_InterfaceBID x) cur, mv_arr = arrXConnect, mv_arrID = xc_ID x,
       mv_hop = zeroHop\<lparr>h_Kind := HopXConnect, h_XConnectID := Some (xc_ID x), h_FreqHz := xc_FreqHz x,
         h_Label := linkLabel g (xc_InterfaceAID x) (xc_InterfaceBID x)\<rparr>, mv_conflict = False, mv_trib = trib'\<rparr>"
  using assms
proof (induction xs arbitrary: trib)
  case Nil
  then show ?case by (simp add: stuck_def)
next
  case (Cons x xs)
  let ?o = "otherEnd (xc_InterfaceAID x) (xc_InterfaceBID x) cur"
  let ?skip = "mode \<noteq> TraceModeFiber \<and> (xc_Kind x = XCAddDrop \<or> xc_Kind x = XCExpress) \<and> lam \<noteq> 0 \<and> xc_FreqHz x \<noteq> 0 \<and> xc_FreqHz x \<noteq> lam"
  let ?fiber = "mode = TraceModeFiber \<and> xc_Kind x \<noteq> XCPassthrough"
  consider "xc_ID x = used" | "xc_ID x \<noteq> used" ?fiber | "xc_ID x \<noteq> used" "\<not> ?fiber" "?skip \<or> ?o \<in> set visited"
    | "xc_ID x \<noteq> used" "\<not> ?fiber" "\<not> ?skip" "?o \<notin> set visited" by blast
  then show ?case
  proof cases
    case 1
    with Cons show ?thesis by simp
  next
    case 2
    with Cons.prems show ?thesis by (simp add: conflict_def stuck_def)
  next
    case 3
    let ?t = "if \<not> ?skip \<and> mode \<noteq> TraceModeFiber \<and> xc_Kind x = XCTributary \<and> portRole g cur = PortTXPLine then trib @ [?o] else trib"
    have t: "leaveXCs g cur used mode lam visited trib (x # xs) = leaveXCs g cur used mode lam visited ?t xs"
      using 3 by (auto simp: Let_def)
    have "mv_id (leaveXCs g cur used mode lam visited ?t xs) \<noteq> 0" using Cons.prems unfolding t .
    from Cons.IH[OF this] show ?thesis unfolding t by (meson list.set_intros(2))
  next
    case 4
    then show ?thesis by (intro bexI[of _ x]) (auto simp: Let_def)
  qed
qed

lemma leaveViaImplicitPT_move:
  "mv = leaveViaImplicitPT g cur visited \<Longrightarrow> mv_id mv \<noteq> 0 \<Longrightarrow>
    passesThrough g cur \<and> mv_id mv \<in> set (cabledOn g (if_DeviceID (ifaceOf g cur))) \<and> mv_id mv \<notin> set visited \<and>
    length (cabledOn g (if_DeviceID (ifaceOf g cur))) = 2 \<and>
    mv_arr mv = arrPassthrough \<and> mv_hop mv = zeroHop"
  by (auto simp: leaveViaImplicitPT_def stuck_def Let_def split: if_splits list.splits)

lemma cabledOn_places: "i \<in> set (cabledOn g d) \<Longrightarrow> i \<in> set (places g)"
  by (auto simp: cabledOn_def places_def)

text \<open>
  The moves that the walk may take, as the graph allows them: over a cable, over a cross-connect (in fiber mode a
  passthrough, in WDM mode with a free or the same wavelength), or straight through an amplifier or a passive
  device with two cables.
\<close>

definition cable :: "Graph \<Rightarrow> string \<Rightarrow> nat \<Rightarrow> nat \<Rightarrow> bool" where
  "cable g mode a b \<longleftrightarrow> (\<exists>c \<in> set (connsAt g a). b = otherEnd (cn_InterfaceAID c) (cn_InterfaceBID c) a) \<and>
     (mode = TraceModeFiber \<longrightarrow> \<not> lineRole (portRole g b))"

definition crossing :: "Graph \<Rightarrow> string \<Rightarrow> nat \<Rightarrow> nat \<Rightarrow> nat \<Rightarrow> nat \<Rightarrow> bool" where
  "crossing g mode lam a b freq \<longleftrightarrow> (\<exists>x \<in> set (xcsAt g a). b = otherEnd (xc_InterfaceAID x) (xc_InterfaceBID x) a \<and> freq = xc_FreqHz x \<and>
     (if mode = TraceModeFiber then xc_Kind x = XCPassthrough
      else xc_Kind x = XCAddDrop \<or> xc_Kind x = XCExpress \<longrightarrow> lam = 0 \<or> freq = 0 \<or> freq = lam))"

definition through :: "Graph \<Rightarrow> nat \<Rightarrow> nat \<Rightarrow> bool" where
  "through g a b \<longleftrightarrow> passesThrough g a \<and> b \<in> set (cabledOn g (if_DeviceID (ifaceOf g a))) \<and>
     length (cabledOn g (if_DeviceID (ifaceOf g a))) = 2"

text \<open>Which moves may follow an arrival: cables and crossings alternate.\<close>

definition crossNext :: "string \<Rightarrow> arrival \<Rightarrow> bool" where
  "crossNext startKind arr \<longleftrightarrow> arr = arrConnection \<or> arr = arrStart \<and> (startKind = StartTXPClient \<or> startKind = ''optical'')"

definition step_ok :: "Graph \<Rightarrow> string \<Rightarrow> string \<Rightarrow> nat \<Rightarrow> nat \<Rightarrow> arrival \<Rightarrow> nat \<Rightarrow> arrival \<Rightarrow> nat \<Rightarrow> bool" where
  "step_ok g mode startKind lam a arr b arr' freq \<longleftrightarrow>
     (if crossNext startKind arr
      then arr' = arrXConnect \<and> crossing g mode lam a b freq \<or> arr = arrConnection \<and> arr' = arrPassthrough \<and> through g a b \<and> freq = 0
      else arr' = arrConnection \<and> cable g mode a b \<and> freq = 0)"

lemma leaveViaConnection_ok:
  assumes "mv_id (leaveViaConnection g cur 0 mode visited) \<noteq> 0"
  defines "mv \<equiv> leaveViaConnection g cur 0 mode visited"
  shows "mv_arr mv = arrConnection \<and> cable g mode cur (mv_id mv) \<and> h_FreqHz (mv_hop mv) = 0 \<and> h_InterfaceID (mv_hop mv) = None \<and>
    mv_id mv \<notin> set visited \<and> mv_id mv \<in> set (places g)"
proof -
  have "mv_id (leaveConns g cur 0 mode visited (connsAt g cur)) \<noteq> 0" using assms(1) by (simp add: leaveViaConnection_def)
  from leaveConns_move[OF this] obtain c where c: "c \<in> set (connsAt g cur)"
      "otherEnd (cn_InterfaceAID c) (cn_InterfaceBID c) cur \<notin> set visited"
      "mode = TraceModeFiber \<longrightarrow> \<not> lineRole (portRole g (otherEnd (cn_InterfaceAID c) (cn_InterfaceBID c) cur))"
      "mv_id mv = otherEnd (cn_InterfaceAID c) (cn_InterfaceBID c) cur" "mv_arr mv = arrConnection"
      "h_FreqHz (mv_hop mv) = 0" "h_InterfaceID (mv_hop mv) = None"
    by (elim bexE conjE) (rule that, simp_all add: zeroHop_def mv_def leaveViaConnection_def)
  from c(1,4) have "mv_id mv \<in> set (places g)" using connsAt_places by simp
  with c show ?thesis by (auto simp: cable_def)
qed

lemma leaveViaXConnect_ok:
  assumes "mv_id (leaveViaXConnect g cur 0 mode lam visited) \<noteq> 0"
  defines "mv \<equiv> leaveViaXConnect g cur 0 mode lam visited"
  shows "mv_arr mv = arrXConnect \<and> crossing g mode lam cur (mv_id mv) (h_FreqHz (mv_hop mv)) \<and> h_InterfaceID (mv_hop mv) = None \<and>
    mv_id mv \<notin> set visited \<and> mv_id mv \<in> set (places g)"
proof -
  obtain x where x: "x \<in> set (xcsAt g cur)" "mv_id mv = otherEnd (xc_InterfaceAID x) (xc_InterfaceBID x) cur" "mv_id mv \<notin> set visited"
      "if mode = TraceModeFiber then xc_Kind x = XCPassthrough
       else xc_Kind x = XCAddDrop \<or> xc_Kind x = XCExpress \<longrightarrow> lam = 0 \<or> xc_FreqHz x = 0 \<or> xc_FreqHz x = lam"
      "mv_arr mv = arrXConnect" "h_FreqHz (mv_hop mv) = xc_FreqHz x" "h_InterfaceID (mv_hop mv) = None"
    using leaveXCs_move[of g cur 0 mode lam visited "[]" "xcsAt g cur"] assms(1)
    unfolding mv_def leaveViaXConnect_def by (auto simp: zeroHop_def split del: if_split)
  from x(1,2) have "mv_id mv \<in> set (places g)" using xcsAt_places by simp
  with x show ?thesis by (auto simp: crossing_def)
qed

lemma nextMove_ok:
  assumes "mv_id (nextMove g cur arr sk mode lam visited) \<noteq> 0"
  defines "mv \<equiv> nextMove g cur arr sk mode lam visited"
  shows "step_ok g mode sk lam cur arr (mv_id mv) (mv_arr mv) (h_FreqHz (mv_hop mv)) \<and> h_InterfaceID (mv_hop mv) = None \<and>
    mv_id mv \<notin> set visited \<and> mv_id mv \<in> set (places g)"
proof -
  have "\<not> crossNext sk arr \<and> mv = leaveViaConnection g cur 0 mode visited \<or>
      crossNext sk arr \<and> mv = leaveViaXConnect g cur 0 mode lam visited \<or>
      arr = arrConnection \<and> mv = leaveViaImplicitPT g cur visited"
    by (cases arr) (simp_all add: mv_def nextMove_def crossNext_def leaveViaXConnectOrPT_def Let_def)
  then consider (conn) "\<not> crossNext sk arr" "mv = leaveViaConnection g cur 0 mode visited"
    | (cross) "crossNext sk arr" "mv = leaveViaXConnect g cur 0 mode lam visited"
    | (pt) "arr = arrConnection" "mv = leaveViaImplicitPT g cur visited" by blast
  then show ?thesis
  proof cases
    case conn
    with leaveViaConnection_ok[of g cur mode visited] assms(1) mv_def show ?thesis by (simp add: step_ok_def)
  next
    case cross
    with leaveViaXConnect_ok[of g cur mode lam visited] assms(1) mv_def show ?thesis by (simp add: step_ok_def)
  next
    case pt
    with leaveViaImplicitPT_move[of mv g cur visited] assms(1) mv_def show ?thesis
      by (auto simp: step_ok_def crossNext_def through_def zeroHop_def intro: cabledOn_places)
  qed
qed

function walkLoop :: "Graph \<Rightarrow> nat \<Rightarrow> string \<Rightarrow> string \<Rightarrow> Hop list \<Rightarrow> nat list \<Rightarrow> nat list \<Rightarrow> nat \<Rightarrow> nat \<Rightarrow> arrival \<Rightarrow> Result" where
  "walkLoop g zID mode startKind hops visited seenDevice lam cur arr =
     (let res = (\<lambda>status hops err trib. \<lparr>r_Status = status, r_FreqHz = lam, r_Error = err, r_Hops = hops,
                   r_Tributaries = trib, r_StartKind = startKind\<rparr>)
      in if zID \<noteq> 0 \<and> cur = zID \<and> arr \<noteq> arrStart then res PathComplete hops [] []
         else let mv = nextMove g cur arr startKind mode lam visited
         in if mv_conflict mv then res PathConflict hops (h_Label (mv_hop mv)) (mv_trib mv)
            else if mv_id mv = 0 then
              res (if zID = 0 \<and> arr \<noteq> arrStart \<and> noMoreExpected g cur mode then PathComplete else PathIncomplete) hops [] (mv_trib mv)
            else if mv_id mv \<in> set visited then res PathIncomplete hops ''revisit'' []
            else let hops = (if h_Kind (mv_hop mv) \<noteq> [] then hops @ [mv_hop mv] else hops);
                     p = lookup zeroPort (g_Ports g) (mv_id mv);
                     tuned = op_FreqHz p \<noteq> 0 \<and> (op_Role p = PortTXPLine \<or> op_Role p = PortROADMAddDrop)
            in if tuned \<and> lam \<noteq> 0 \<and> lam \<noteq> op_FreqHz p \<and> mode = TraceModeWDM then res PathConflict hops ''wavelength mismatch'' []
               else let lam = (if tuned \<and> lam = 0 then op_FreqHz p else lam);
                        lam = (if h_FreqHz (mv_hop mv) \<noteq> 0 \<and> lam = 0 then h_FreqHz (mv_hop mv) else lam)
               in walkLoop g zID mode startKind (hops @ ifaceHops g lam seenDevice (mv_id mv)) (mv_id mv # visited)
                    (if_DeviceID (ifaceOf g (mv_id mv)) # seenDevice) lam (mv_id mv) (mv_arr mv))"
  by pat_completeness auto
termination walkLoop
proof (relation "measure (\<lambda>(g, _, _, _, _, visited, _). unseen (places g) visited)", goal_cases)
  case (2 g zID mode startKind hops visited seenDevice lam cur arr res mv)
  then show ?case using nextMove_ok[of g cur arr startKind mode lam visited] unseen_Cons[of "mv_id mv" "places g" visited] by simp
qed simp

declare walkLoop.simps [simp del]

definition Walk :: "Graph \<Rightarrow> nat \<Rightarrow> nat \<Rightarrow> string \<Rightarrow> Result" where
  "Walk g startID zID mode0 =
     (let mode = (if mode0 = [] then TraceModeWDM else mode0);
          fail = (\<lambda>err sk. \<lparr>r_Status = PathConflict, r_FreqHz = 0, r_Error = err, r_Hops = [], r_Tributaries = [], r_StartKind = sk\<rparr>)
      in if map_of (g_Ifaces g) startID = None then fail ''start interface not found'' []
         else let startKind = classifyStart g startID mode
         in if mode = TraceModeFiber \<and> lineRole (portRole g startID)
            then fail ''fiber mode cannot start on a ROADM/txp line port'' startKind
            else walkLoop g zID mode startKind (ifaceHops g 0 [] startID) [startID] [if_DeviceID (ifaceOf g startID)] 0 startID arrStart)"

subsection \<open>The walk follows a route\<close>

definition tunedFreq :: "Graph \<Rightarrow> nat \<Rightarrow> nat" where
  "tunedFreq g i = (let p = lookup zeroPort (g_Ports g) i
     in if op_Role p = PortTXPLine \<or> op_Role p = PortROADMAddDrop then op_FreqHz p else 0)"

text \<open>
  A route from \<open>s\<close>, latest interface first, with its wavelength and the way it arrived: every step is one the graph
  allows, leads to a new interface, and in WDM mode never enters a port tuned to another wavelength. The first
  wavelength met, on a port or a cross-connect, is that of the route.
\<close>

inductive route :: "Graph \<Rightarrow> string \<Rightarrow> string \<Rightarrow> nat \<Rightarrow> nat list \<Rightarrow> nat \<Rightarrow> arrival \<Rightarrow> bool" for g mode startKind s where
  here: "route g mode startKind s [s] 0 arrStart"
| step: "route g mode startKind s (a # vs) lam arr \<Longrightarrow> step_ok g mode startKind lam a arr b arr' freq \<Longrightarrow>
    b \<notin> set (a # vs) \<Longrightarrow> (mode = TraceModeWDM \<Longrightarrow> tunedFreq g b = 0 \<or> lam = 0 \<or> tunedFreq g b = lam) \<Longrightarrow>
    lam' = (if lam \<noteq> 0 then lam else if tunedFreq g b \<noteq> 0 then tunedFreq g b else freq) \<Longrightarrow>
    route g mode startKind s (b # a # vs) lam' arr'"

lemma route_distinct: "route g mode sk s vs lam arr \<Longrightarrow> distinct vs \<and> vs \<noteq> [] \<and> last vs = s"
  by (induction rule: route.induct) auto

lemma route_arrStart: "route g mode sk s vs lam arr \<Longrightarrow> arr = arrStart \<longleftrightarrow> vs = [s]"
  by (induction rule: route.induct) (auto simp: step_ok_def split: if_splits)

lemma route_wavelength:
  "route g mode sk s vs lam arr \<Longrightarrow> mode = TraceModeWDM \<Longrightarrow> i \<in> set (butlast vs) \<Longrightarrow> tunedFreq g i \<noteq> 0 \<Longrightarrow> tunedFreq g i = lam"
  by (induction rule: route.induct) (auto split: if_splits)

definition ifacesOf :: "Hop list \<Rightarrow> nat list" where
  "ifacesOf hops = List.map_filter h_InterfaceID hops"

lemma ifacesOf_simps [simp]:
  "ifacesOf [] = []" "ifacesOf (hs @ hs') = ifacesOf hs @ ifacesOf hs'"
  "h_InterfaceID h = None \<Longrightarrow> ifacesOf [h] = []"
  "ifacesOf (ifaceHops g lam seen i) = [i]"
  by (simp_all add: ifacesOf_def List.map_filter_def ifaceHops_def zeroHop_def Let_def)

lemma leaveConns_conflict:
  "mv_conflict (leaveConns g cur used mode visited cs) \<Longrightarrow> h_Label (mv_hop (leaveConns g cur used mode visited cs)) \<noteq> ''revisit''"
  by (induction cs) (auto simp: stuck_def conflict_def Let_def split: if_splits)

lemma leaveXCs_conflict:
  "mv_conflict (leaveXCs g cur used mode lam visited trib xs) \<Longrightarrow> h_Label (mv_hop (leaveXCs g cur used mode lam visited trib xs)) \<noteq> ''revisit''"
  by (induction xs arbitrary: trib) (auto simp: stuck_def conflict_def Let_def split: if_splits)

lemma nextMove_conflict:
  "mv_conflict (nextMove g cur arr sk mode lam visited) \<Longrightarrow> h_Label (mv_hop (nextMove g cur arr sk mode lam visited)) \<noteq> ''revisit''"
proof -
  have "\<not> mv_conflict (leaveViaImplicitPT g cur visited)"
    by (simp add: leaveViaImplicitPT_def stuck_def Let_def split: list.splits)
  then show "mv_conflict (nextMove g cur arr sk mode lam visited) \<Longrightarrow> h_Label (mv_hop (nextMove g cur arr sk mode lam visited)) \<noteq> ''revisit''"
    by (cases arr) (auto simp: nextMove_def leaveViaConnection_def leaveViaXConnect_def leaveViaXConnectOrPT_def Let_def
        dest: leaveConns_conflict leaveXCs_conflict split: if_splits)
qed

lemma tune_eq:
  "(if f \<noteq> 0 \<and> (if p \<noteq> 0 \<and> t \<and> l = 0 then p else l) = 0 then f else if p \<noteq> 0 \<and> t \<and> l = 0 then p else l)
    = (if l \<noteq> 0 then l else if (if p \<noteq> 0 \<and> t then p else 0) \<noteq> 0 then if p \<noteq> 0 \<and> t then p else 0 else f :: nat)"
  by simp

lemma walkLoop_route:
  assumes "route g mode sk s visited lam arr" and "visited = cur # vs" and "ifacesOf hops = rev visited"
  shows "\<exists>vs' arr'. route g mode sk s vs' (r_FreqHz (walkLoop g zID mode sk hops visited seen lam cur arr)) arr' \<and>
    ifacesOf (r_Hops (walkLoop g zID mode sk hops visited seen lam cur arr)) = rev vs' \<and>
    (r_Status (walkLoop g zID mode sk hops visited seen lam cur arr) = PathComplete \<and> zID \<noteq> 0 \<longrightarrow> hd vs' = zID \<and> arr' \<noteq> arrStart) \<and>
    r_Error (walkLoop g zID mode sk hops visited seen lam cur arr) \<noteq> ''revisit''"
  using assms
proof (induction g zID mode sk hops visited seen lam cur arr arbitrary: vs rule: walkLoop.induct)
  case (1 g zID mode sk hops visited seen lam cur arr)
  let ?mv = "nextMove g cur arr sk mode lam visited"
  let ?w = "walkLoop g zID mode sk hops visited seen lam cur arr"
  let ?p = "lookup zeroPort (g_Ports g) (mv_id ?mv)"
  let ?tuned = "op_FreqHz ?p \<noteq> 0 \<and> (op_Role ?p = PortTXPLine \<or> op_Role ?p = PortROADMAddDrop)"
  let ?hops = "if h_Kind (mv_hop ?mv) \<noteq> [] then hops @ [mv_hop ?mv] else hops"
  have stay: ?case if "r_FreqHz ?w = lam" "ifacesOf (r_Hops ?w) = ifacesOf hops" "r_Error ?w \<noteq> ''revisit''"
      "r_Status ?w = PathComplete \<and> zID \<noteq> 0 \<Longrightarrow> cur = zID \<and> arr \<noteq> arrStart"
    using that "1.prems" by (intro exI[of _ visited] exI[of _ arr]) auto
  note eq = walkLoop.simps[of g zID mode sk hops visited seen lam cur arr]
  have st: "PathIncomplete \<noteq> PathComplete" "PathConflict \<noteq> PathComplete" by (simp_all add: path_status_defs)
  consider (z) "zID \<noteq> 0 \<and> cur = zID \<and> arr \<noteq> arrStart"
    | (bad) "\<not> (zID \<noteq> 0 \<and> cur = zID \<and> arr \<noteq> arrStart)" "mv_conflict ?mv"
    | (halt) "\<not> (zID \<noteq> 0 \<and> cur = zID \<and> arr \<noteq> arrStart)" "\<not> mv_conflict ?mv" "mv_id ?mv = 0"
    | (go) "\<not> (zID \<noteq> 0 \<and> cur = zID \<and> arr \<noteq> arrStart)" "\<not> mv_conflict ?mv" "mv_id ?mv \<noteq> 0" by blast
  then show ?case
  proof cases
    case z
    then have w: "?w = \<lparr>r_Status = PathComplete, r_FreqHz = lam, r_Error = [], r_Hops = hops, r_Tributaries = [], r_StartKind = sk\<rparr>"
      by (subst eq) (simp only: Let_def z if_True simp_thms)
    show ?thesis by (rule stay) (simp_all add: w, use z in blast)
  next
    case bad
    have w: "?w = \<lparr>r_Status = PathConflict, r_FreqHz = lam, r_Error = h_Label (mv_hop ?mv), r_Hops = hops,
        r_Tributaries = mv_trib ?mv, r_StartKind = sk\<rparr>" by (subst eq) (simp only: Let_def if_True if_False simp_thms bad)
    show ?thesis by (rule stay) (use nextMove_conflict[OF bad(2)] st in \<open>simp_all add: w\<close>)
  next
    case halt
    have w: "?w = \<lparr>r_Status = (if zID = 0 \<and> arr \<noteq> arrStart \<and> noMoreExpected g cur mode then PathComplete else PathIncomplete),
        r_FreqHz = lam, r_Error = [], r_Hops = hops, r_Tributaries = mv_trib ?mv, r_StartKind = sk\<rparr>"
      by (subst eq) (simp only: Let_def if_True if_False simp_thms halt)
    show ?thesis by (rule stay) (use st halt(1) in \<open>auto simp: w split: if_splits\<close>)
  next
    case go
    note ok = nextMove_ok[OF go(3)]
    have fresh: "mv_id ?mv \<notin> set visited" using ok by blast
    have hi: "ifacesOf ?hops = ifacesOf hops" using ok by simp
    show ?thesis
    proof (cases "?tuned \<and> lam \<noteq> 0 \<and> lam \<noteq> op_FreqHz ?p \<and> mode = TraceModeWDM")
      case True
      have "?w = \<lparr>r_Status = PathConflict, r_FreqHz = lam, r_Error = ''wavelength mismatch'', r_Hops = ?hops,
          r_Tributaries = [], r_StartKind = sk\<rparr>"
        by (subst eq) (simp only: Let_def if_True if_False go fresh if_P[OF True])
      then show ?thesis using hi st by (intro stay) simp_all
    next
      case False
      define lam1 where "lam1 = (if ?tuned \<and> lam = 0 then op_FreqHz ?p else lam)"
      define lam2 where "lam2 = (if h_FreqHz (mv_hop ?mv) \<noteq> 0 \<and> lam1 = 0 then h_FreqHz (mv_hop ?mv) else lam1)"
      have w: "?w = walkLoop g zID mode sk (?hops @ ifaceHops g lam2 seen (mv_id ?mv)) (mv_id ?mv # visited)
          (if_DeviceID (ifaceOf g (mv_id ?mv)) # seen) lam2 (mv_id ?mv) (mv_arr ?mv)"
        by (subst eq) (simp only: Let_def if_True if_False simp_thms go fresh False lam1_def lam2_def)
      have tf: "tunedFreq g (mv_id ?mv) = (if ?tuned then op_FreqHz ?p else 0)" by (auto simp: tunedFreq_def Let_def)
      have l2: "lam2 = (if lam \<noteq> 0 then lam else if tunedFreq g (mv_id ?mv) \<noteq> 0 then tunedFreq g (mv_id ?mv) else h_FreqHz (mv_hop ?mv))"
        by (simp only: lam2_def lam1_def tf conj_assoc tune_eq)
      have tuneok: "tunedFreq g (mv_id ?mv) = 0 \<or> lam = 0 \<or> tunedFreq g (mv_id ?mv) = lam" if "mode = TraceModeWDM"
        by (cases ?tuned) (use False that tf in argo)+
      have rt: "route g mode sk s (mv_id ?mv # visited) lam2 (mv_arr ?mv)"
        unfolding "1.prems"(2)
        by (rule route.step[OF "1.prems"(1)[unfolded "1.prems"(2)] _ _ tuneok[unfolded "1.prems"(2)] l2[unfolded "1.prems"(2)]])
          (use ok fresh in \<open>simp_all add: "1.prems"(2)\<close>)
      show ?thesis unfolding w
        by (rule "1.IH"[OF refl _ refl _ _ _ refl refl refl _ refl refl, where vs = visited, unfolded lam1_def[symmetric] lam2_def[symmetric]])
          (use go ok False rt "1.prems" hi in \<open>simp_all add: lam1_def lam2_def\<close>)
    qed
  qed
qed

text \<open>
  C7: The trace is sound and ends. From every graph and start, Walk returns the interfaces of a route: it begins at
  the start, visits no interface twice, alternates cables with crossings that the graph has, and (in WDM mode) all
  tuned ports it enters have the one wavelength that it reports. It reports a complete path to an end point only
  when the route has arrived there. The error for a loop is never reported: no move leads back.
\<close>

theorem Walk_route:
  assumes "ifacesOf (r_Hops (Walk g s z mode)) \<noteq> []"
  shows "let r = Walk g s z mode; is = ifacesOf (r_Hops r); m = (if mode = [] then TraceModeWDM else mode)
    in hd is = s \<and> distinct is \<and>
       (\<exists>arr. route g m (classifyStart g s m) s (rev is) (r_FreqHz r) arr \<and>
          (r_Status r = PathComplete \<and> z \<noteq> 0 \<longrightarrow> last is = z \<and> arr \<noteq> arrStart)) \<and>
       (m = TraceModeWDM \<longrightarrow> (\<forall>i \<in> set (tl is). tunedFreq g i \<noteq> 0 \<longrightarrow> tunedFreq g i = r_FreqHz r)) \<and>
       r_Error r \<noteq> ''revisit''"
proof -
  define m where "m = (if mode = [] then TraceModeWDM else mode)"
  define r where "r = Walk g s z mode"
  let ?sk = "classifyStart g s m"
  let ?w = "walkLoop g z m ?sk (ifaceHops g 0 [] s) [s] [if_DeviceID (ifaceOf g s)] 0 s arrStart"
  have "Walk g s z mode = (if map_of (g_Ifaces g) s = None
      then \<lparr>r_Status = PathConflict, r_FreqHz = 0, r_Error = ''start interface not found'', r_Hops = [], r_Tributaries = [], r_StartKind = []\<rparr>
      else if m = TraceModeFiber \<and> lineRole (portRole g s)
      then \<lparr>r_Status = PathConflict, r_FreqHz = 0, r_Error = ''fiber mode cannot start on a ROADM/txp line port'', r_Hops = [],
        r_Tributaries = [], r_StartKind = ?sk\<rparr> else ?w)"
    by (simp only: Walk_def Let_def m_def)
  then have w: "r = ?w" using assms unfolding r_def by (metis Result.select_convs(4) ifacesOf_simps(1))
  have "\<exists>vs arr. route g m ?sk s vs (r_FreqHz ?w) arr \<and> ifacesOf (r_Hops ?w) = rev vs \<and>
      (r_Status ?w = PathComplete \<and> z \<noteq> 0 \<longrightarrow> hd vs = z \<and> arr \<noteq> arrStart) \<and> r_Error ?w \<noteq> ''revisit''"
    by (rule walkLoop_route[OF route.here]) simp_all
  then obtain vs arr where vs: "route g m ?sk s vs (r_FreqHz r) arr" "ifacesOf (r_Hops r) = rev vs"
      "r_Status r = PathComplete \<and> z \<noteq> 0 \<longrightarrow> hd vs = z \<and> arr \<noteq> arrStart" "r_Error r \<noteq> ''revisit''"
    unfolding w by blast
  have ne: "vs \<noteq> []" and d: "distinct vs" and l: "last vs = s" using route_distinct[OF vs(1)] by auto
  have "tunedFreq g i = r_FreqHz r" if "m = TraceModeWDM" "i \<in> set (tl (rev vs))" "tunedFreq g i \<noteq> 0" for i
    using route_wavelength[OF vs(1) that(1) _ that(3)] that(2) by (metis butlast_rev rev_rev_ident set_rev)
  moreover have "\<exists>arr. route g m ?sk s (rev (rev vs)) (r_FreqHz r) arr \<and> (r_Status r = PathComplete \<and> z \<noteq> 0 \<longrightarrow> last (rev vs) = z \<and> arr \<noteq> arrStart)"
    using vs(1,3) ne by (intro exI[of _ arr]) (simp add: last_rev)
  ultimately show ?thesis
    using vs(2,4) d l ne unfolding r_def[symmetric] m_def[symmetric] Let_def by (simp add: hd_rev)
qed

definition exGraph :: Graph where
  "exGraph = (let c = \<lparr>cn_ID = 5, cn_NetboxID = 0, cn_DeviceAID = 1, cn_InterfaceAID = 1, cn_DeviceBID = 2, cn_InterfaceBID = 2, cn_Label = []\<rparr>
     in \<lparr>g_Ifaces = [(1, \<lparr>if_ID = 1, if_DeviceID = 1, if_Name = ''e1''\<rparr>), (2, \<lparr>if_ID = 2, if_DeviceID = 2, if_Name = ''e2''\<rparr>)],
         g_Devices = [], g_Ports = [], g_ConnsByIface = [(1, [c]), (2, [c])], g_XCsByIface = []\<rparr>)"

lemma exWalk: "ifacesOf (r_Hops (Walk exGraph 1 2 [])) = [1, 2] \<and> r_Status (Walk exGraph 1 2 []) = PathComplete"
  by code_simp

theorem Walk_route_witness:
  "\<exists>arr. route exGraph TraceModeWDM (classifyStart exGraph 1 TraceModeWDM) 1 [2, 1] (r_FreqHz (Walk exGraph 1 2 [])) arr \<and> arr \<noteq> arrStart"
  using Walk_route[of exGraph 1 2 "[]"] exWalk by (auto simp: Let_def)

end
