(* ===== verification/Optical_Store.thy ===== *)
theory Optical_Store
  imports Optical_Trace
begin

text \<open>
  The optical tables: the design rules of cross-connects (\<open>internal/optical/validate.go\<close>), the inventory a driver
  reports (\<open>inventory.go\<close>), the stored paths of services (\<open>hops.go\<close>), and the handlers of \<open>web/handler_optical.go\<close> that write cross-connects. Time stamps are left out.

  Lemmas: on a degree of a ROADM no wavelength is used twice and no client has two tributaries, whatever statements
  fail; a retraced path is replaced as a whole; after a change of a device and a rebuild every path through it is the
  walk over the current network.
\<close>

subsection \<open>Statements\<close>

definition insertXConnect :: "OpticalXConnect \<Rightarrow> OpticalXConnect optical" where
  "insertXConnect row = stmt (\<lambda>db. let row' = row\<lparr>xc_ID := oq_xconnects db\<rparr>
     in (Inr row', db\<lparr>ot_xconnects := ot_xconnects db @ [row'], oq_xconnects := Suc (oq_xconnects db)\<rparr>))"

definition updateXConnect :: "nat \<Rightarrow> (OpticalXConnect \<Rightarrow> OpticalXConnect) \<Rightarrow> unit optical" where
  "updateXConnect i f = stmt (\<lambda>db. (Inr (),
     db\<lparr>ot_xconnects := map (\<lambda>x. if xc_ID x = i then f x else x) (ot_xconnects db)\<rparr>))"

definition deleteXConnect :: "nat \<Rightarrow> unit optical" where
  "deleteXConnect i = stmt (\<lambda>db. (Inr (), db\<lparr>ot_xconnects := filter (\<lambda>x. xc_ID x \<noteq> i) (ot_xconnects db)\<rparr>))"

definition insertPort :: "OpticalPort \<Rightarrow> unit optical" where
  "insertPort row = stmt (\<lambda>db.
     if list_ex (\<lambda>p. op_InterfaceID p = op_InterfaceID row) (ot_ports db)
     then (Inl uniqueViolation, db\<lparr>oq_ports := Suc (oq_ports db)\<rparr>)
     else (Inr (), db\<lparr>ot_ports := ot_ports db @ [row\<lparr>op_ID := oq_ports db\<rparr>], oq_ports := Suc (oq_ports db)\<rparr>))"

definition updatePorts :: "(OpticalPort \<Rightarrow> bool) \<Rightarrow> (OpticalPort \<Rightarrow> OpticalPort) \<Rightarrow> unit optical" where
  "updatePorts P f = stmt (\<lambda>db. (Inr (), db\<lparr>ot_ports := map (\<lambda>p. if P p then f p else p) (ot_ports db)\<rparr>))"

definition updatePaths :: "(optical_db \<Rightarrow> ServicePath \<Rightarrow> bool) \<Rightarrow> (ServicePath \<Rightarrow> ServicePath) \<Rightarrow> unit optical" where
  "updatePaths P f = stmt (\<lambda>db. (Inr (), db\<lparr>ot_paths := map (\<lambda>p. if P db p then f p else p) (ot_paths db)\<rparr>))"

definition deletePaths :: "nat \<Rightarrow> unit optical" where
  "deletePaths sid = stmt (\<lambda>db. (Inr (), db\<lparr>ot_paths := filter (\<lambda>p. sp_ServiceID p \<noteq> sid) (ot_paths db)\<rparr>))"

definition deleteHops :: "nat \<Rightarrow> unit optical" where
  "deleteHops sid = stmt (\<lambda>db. (Inr (), db\<lparr>ot_hops := filter (\<lambda>h. sh_ServiceID h \<noteq> sid) (ot_hops db)\<rparr>))"

definition insertHop :: "ServiceHop \<Rightarrow> unit optical" where
  "insertHop row = stmt (\<lambda>db. (Inr (), db\<lparr>ot_hops := ot_hops db @ [row]\<rparr>))"

text \<open>\<^verbatim>\<open>fmt.Errorf("...: %w", err)\<close>, and a call whose error becomes a text in the result.\<close>

definition dwrap :: "string \<Rightarrow> 'a optical \<Rightarrow> 'a optical" where
  "dwrap text m = dcase m (\<lambda>r. case r of Inl e \<Rightarrow> dfail (PlainErr (text @ errText e)) | Inr a \<Rightarrow> dret a)"

definition attempt :: "'a optical \<Rightarrow> (string + 'a) optical" where
  "attempt m = dcase m (\<lambda>r. dret (case r of Inl e \<Rightarrow> Inl (errText e) | Inr a \<Rightarrow> Inr a))"

definition ignore :: "'a optical \<Rightarrow> unit optical" where
  "ignore m = dcase m (\<lambda>_. dret ())"

subsection \<open>Design rules\<close>

definition portsByInterface :: "nat list \<Rightarrow> (nat \<Rightarrow> OpticalPort) optical" where
  "portsByInterface ids =
     (if ids = [] then dret (\<lambda>_. zeroPort)
      else dbind (Find ot_ports (\<lambda>p. op_InterfaceID p \<in> set ids)) (\<lambda>rows.
        dret (lookup zeroPort (fold (\<lambda>p m. putKey (op_InterfaceID p) p m) rows []))))"

definition connectionIfaceIDs :: "Connection list \<Rightarrow> nat list" where
  "connectionIfaceIDs conns = concat (map (\<lambda>c. [cn_InterfaceAID c, cn_InterfaceBID c]) conns)"

definition checkLineAddDropMatch :: "nat \<Rightarrow> nat \<Rightarrow> unit optical" where
  "checkLineAddDropMatch aID bID =
     dbind (Find ot_connections (\<lambda>c. cn_InterfaceAID c \<in> {aID, bID} \<or> cn_InterfaceBID c \<in> {aID, bID})) (\<lambda>conns.
     dbind (portsByInterface (connectionIfaceIDs conns)) (\<lambda>ports.
     dguard (\<not> list_ex (\<lambda>c. let pa = ports (cn_InterfaceAID c); pb = ports (cn_InterfaceBID c)
         in (op_Role pa = PortTXPLine \<and> op_Role pb = PortROADMAddDrop \<or> op_Role pb = PortTXPLine \<and> op_Role pa = PortROADMAddDrop) \<and>
            op_FreqHz pa \<noteq> 0 \<and> op_FreqHz pb \<noteq> 0 \<and> op_FreqHz pa \<noteq> op_FreqHz pb) conns)
       (PlainErr ''txp line and ROADM add/drop frequencies do not match'')))"

definition degreeFreqFree :: "nat \<Rightarrow> nat \<Rightarrow> nat \<Rightarrow> nat \<Rightarrow> unit optical" where
  "degreeFreqFree deviceID degreeID freq ignoreID =
     dbind (Count ot_xconnects (\<lambda>x. xc_DeviceID x = deviceID \<and> xc_FreqHz x = freq \<and> xc_ID x \<noteq> ignoreID \<and>
         (xc_InterfaceAID x = degreeID \<or> xc_InterfaceBID x = degreeID))) (\<lambda>n.
     dguard (\<not> n > 0) (PlainErr ''frequency already in use on this degree''))"

definition rightArrow :: string where
  "rightArrow = [CHR 0xE2, CHR 0x86, CHR 0x92]"

text \<open>The switch of \<open>ValidateXConnect\<close> over the kind of the cross-connect.\<close>

definition validateKind :: "OpticalXConnect \<Rightarrow> ODevice \<Rightarrow> OpticalPort \<Rightarrow> OpticalPort \<Rightarrow> unit optical" where
  "validateKind xc dev pa pb =
     (let a = xc_InterfaceAID xc; b = xc_InterfaceBID xc; err = (\<lambda>s. PlainErr s)
      in if xc_Kind xc = XCTributary then
           dbind (dguard (op_Role pa = PortTXPClient \<and> op_Role pb = PortTXPLine) (err (''tributary requires txp_client '' @ rightArrow @ '' txp_line''))) (\<lambda>_.
           dbind (Count ot_xconnects (\<lambda>x. xc_Kind x = XCTributary \<and> xc_InterfaceAID x = a \<and> xc_ID x \<noteq> xc_ID xc)) (\<lambda>n.
           dguard (\<not> n > 0) (err ''client already has a tributary xconnect'')))
         else if xc_Kind xc = XCAddDrop then
           dbind (dguard (op_Role pa = PortROADMAddDrop \<and> op_Role pb = PortROADMDegree) (err (''add/drop requires roadm_adddrop '' @ rightArrow @ '' roadm_degree''))) (\<lambda>_.
           dbind (dguard (xc_FreqHz xc \<noteq> 0 \<and> op_FreqHz pa \<noteq> 0 \<and> xc_FreqHz xc = op_FreqHz pa) (err ''add/drop frequency must match the add/drop port'')) (\<lambda>_.
           degreeFreqFree (xc_DeviceID xc) b (xc_FreqHz xc) (xc_ID xc)))
         else if xc_Kind xc = XCExpress then
           dbind (dguard (op_Role pa = PortROADMDegree \<and> op_Role pb = PortROADMDegree) (err ''express requires two roadm_degree ports'')) (\<lambda>_.
           dbind (dguard (xc_FreqHz xc \<noteq> 0) (err ''express requires a frequency'')) (\<lambda>_.
           dbind (degreeFreqFree (xc_DeviceID xc) a (xc_FreqHz xc) (xc_ID xc)) (\<lambda>_.
           degreeFreqFree (xc_DeviceID xc) b (xc_FreqHz xc) (xc_ID xc))))
         else if xc_Kind xc = XCPassthrough then
           dbind (dguard (od_OpticalKind dev = OpticalKindILA \<or> od_OpticalKind dev = OpticalKindPassive) (err ''passthrough only on ila/passive devices'')) (\<lambda>_.
           dbind (dguard (op_Role pa = [] \<and> op_Role pb = []) (err ''passthrough ports must not have an optical role'')) (\<lambda>_.
           dguard (xc_FreqHz xc = 0) (err ''passthrough has no frequency'')))
         else dfail (err (''unknown xconnect kind '' @ Quote (xc_Kind xc))))"

definition ValidateXConnect :: "OpticalXConnect \<Rightarrow> unit optical" where
  "ValidateXConnect xc =
     dbind (dguard (xc_InterfaceAID xc \<noteq> 0 \<and> xc_InterfaceBID xc \<noteq> 0 \<and> xc_InterfaceAID xc \<noteq> xc_InterfaceBID xc)
       (PlainErr ''xconnect needs two distinct interfaces'')) (\<lambda>_.
     dbind (dwrap ''interface a: '' (First if_ID ot_interfaces (\<lambda>i. if_ID i = xc_InterfaceAID xc))) (\<lambda>a.
     dbind (dwrap ''interface b: '' (First if_ID ot_interfaces (\<lambda>i. if_ID i = xc_InterfaceBID xc))) (\<lambda>b.
     dbind (dguard (if_DeviceID a = if_DeviceID b \<and> if_DeviceID a = xc_DeviceID xc)
       (PlainErr (''both interfaces must belong to device '' @ Itoa (xc_DeviceID xc)))) (\<lambda>_.
     dbind (dwrap ''device: '' (First od_ID ot_devices (\<lambda>d. od_ID d = xc_DeviceID xc))) (\<lambda>dev.
     dbind (portsByInterface [if_ID a, if_ID b]) (\<lambda>ports.
     dbind (validateKind xc dev (ports (if_ID a)) (ports (if_ID b))) (\<lambda>_.
     checkLineAddDropMatch (if_ID a) (if_ID b))))))))"

text \<open>The handlers \<open>ApiOpticalXConnectCreate\<close> and \<open>ApiOpticalXConnectDelete\<close>.\<close>

definition createXConnect :: "OpticalXConnect \<Rightarrow> OpticalXConnect optical" where
  "createXConnect xc0 = (let xc = xc0\<lparr>xc_ID := 0\<rparr>
     in dbind (ValidateXConnect xc) (\<lambda>_. insertXConnect xc))"

subsection \<open>Stored paths\<close>

definition hopRow :: "nat \<Rightarrow> nat \<Rightarrow> Hop \<Rightarrow> ServiceHop" where
  "hopRow sid seq h = \<lparr>sh_ServiceID = sid, sh_Seq = seq, sh_Kind = h_Kind h, sh_InterfaceID = h_InterfaceID h,
     sh_ConnectionID = h_ConnectionID h, sh_XConnectID = h_XConnectID h, sh_DeviceID = h_DeviceID h,
     sh_FreqHz = h_FreqHz h, sh_Label = h_Label h\<rparr>"

definition hopRows :: "nat \<Rightarrow> Hop list \<Rightarrow> ServiceHop list" where
  "hopRows sid hops = map (\<lambda>(i, h). hopRow sid (i + 1) h) (enumerate 0 hops)"

definition pathUpdate :: "Result \<Rightarrow> ServicePath \<Rightarrow> ServicePath" where
  "pathUpdate res p = p\<lparr>sp_Status := r_Status res, sp_LastTraceError := r_Error res, sp_FreqHz := r_FreqHz res,
     sp_StartKindA := r_StartKind res\<rparr>"

definition RebuildPath :: "Graph \<Rightarrow> nat \<Rightarrow> unit optical" where
  "RebuildPath g sid =
     dbind (First sp_ServiceID ot_paths (\<lambda>p. sp_ServiceID p = sid)) (\<lambda>path.
     let res = Walk g (sp_EndpointAInterfaceID path) (sp_EndpointZInterfaceID path) (sp_Mode path);
         upd = updatePaths (\<lambda>_ p. sp_ServiceID p = sid) (pathUpdate res)
     in if r_Status res = PathConflict then upd
        else transaction optical_rollback (dbind upd (\<lambda>_. dbind (deleteHops sid) (\<lambda>_.
          dbind (dfor (hopRows sid (r_Hops res)) insertHop) (\<lambda>_. dret ())))))"

definition RebuildStale :: "unit optical" where
  "RebuildStale =
     dbind LoadGraph (\<lambda>g.
     dbind (Find ot_paths (\<lambda>p. sp_Status p = PathStale \<or> sp_Status p = PathIncomplete)) (\<lambda>paths.
     dbind (dfor paths (\<lambda>p. RebuildPath g (sp_ServiceID p))) (\<lambda>_. dret ())))"

definition markStale :: "ServicePath \<Rightarrow> ServicePath" where
  "markStale p = p\<lparr>sp_Status := PathStale\<rparr>"

definition MarkStaleByInterface :: "nat \<Rightarrow> unit optical" where
  "MarkStaleByInterface i = updatePaths (\<lambda>db p. list_ex (\<lambda>h. sh_ServiceID h = sp_ServiceID p \<and>
     (sh_InterfaceID h = Some i \<or> list_ex (\<lambda>q. sp_ServiceID q = sh_ServiceID h \<and>
        (sp_EndpointAInterfaceID q = i \<or> sp_EndpointZInterfaceID q = i)) (ot_paths db))) (ot_hops db)) markStale"

definition MarkStaleByDevice :: "nat \<Rightarrow> unit optical" where
  "MarkStaleByDevice d = updatePaths (\<lambda>db p. list_ex (\<lambda>h. sh_ServiceID h = sp_ServiceID p \<and>
     (sh_DeviceID h = Some d \<or> list_ex (\<lambda>i. if_DeviceID i = d \<and> sh_InterfaceID h = Some (if_ID i)) (ot_interfaces db)))
     (ot_hops db)) markStale"

definition MarkStaleByConnection :: "nat \<Rightarrow> unit optical" where
  "MarkStaleByConnection c = updatePaths (\<lambda>db p. list_ex (\<lambda>h. sh_ServiceID h = sp_ServiceID p \<and>
     sh_ConnectionID h = Some c) (ot_hops db)) markStale"

definition DeletePathForService :: "nat \<Rightarrow> unit optical" where
  "DeletePathForService sid = dbind (deleteHops sid) (\<lambda>_. deletePaths sid)"

subsection \<open>Inventory\<close>

record InventoryPort =
  ip_Name :: string
  ip_Role :: string
  ip_FreqHz :: nat

record InventoryXConnect =
  iv_Name :: string
  iv_Kind :: string
  iv_PortA :: string
  iv_PortB :: string
  iv_FreqHz :: nat

record Inventory =
  inv_Kind :: string
  inv_Source :: string
  inv_Ports :: "InventoryPort list"
  inv_XConnects :: "InventoryXConnect list"

record ApplyResult =
  ar_Kind :: string
  ar_PortsUpserted :: nat
  ar_PortsSkipped :: "string list"
  ar_XConnectsUpserted :: nat
  ar_XConnectsDeleted :: nat
  ar_XConnectsSkipped :: "string list"

record ifaceIndex =
  ii_byName :: "string \<rightharpoonup> Interface"
  ii_byLower :: "string \<rightharpoonup> Interface"
  ii_bySuffix :: "string \<Rightarrow> Interface list"

definition nameSuffix :: "string \<Rightarrow> string" where
  "nameSuffix name = (case LastIndexByte name (CHR ''/'') of
     Some n \<Rightarrow> if n < length name - 1 then drop (n + 1) name else name | None \<Rightarrow> name)"

definition indexInterfaces :: "Interface list \<Rightarrow> ifaceIndex" where
  "indexInterfaces ifaces =
     \<lparr>ii_byName = fold (\<lambda>i m. m(if_Name i \<mapsto> i)) ifaces Map.empty,
      ii_byLower = fold (\<lambda>i m. m(ToLower (if_Name i) \<mapsto> i)) ifaces Map.empty,
      ii_bySuffix = (\<lambda>k. filter (\<lambda>i. ToLower (nameSuffix (if_Name i)) = k) ifaces)\<rparr>"

definition matchIface :: "ifaceIndex \<Rightarrow> string \<Rightarrow> Interface option" where
  "matchIface idx name =
     (if name = [] then None
      else (case ii_byName idx name of
              Some i \<Rightarrow> Some i
            | None \<Rightarrow>
                (case ii_byLower idx (ToLower name) of
                   Some i \<Rightarrow> Some i
                 | None \<Rightarrow> (case ii_bySuffix idx (ToLower (nameSuffix name)) of [i] \<Rightarrow> Some i | _ \<Rightarrow> None))))"

definition upsertInventoryPort :: "nat \<Rightarrow> InventoryPort \<Rightarrow> unit optical" where
  "upsertInventoryPort ifaceID p =
     dcase (First op_ID ot_ports (\<lambda>q. op_InterfaceID q = ifaceID)) (\<lambda>r. case r of
        Inl e \<Rightarrow> if e = RecordNotFound
                 then insertPort \<lparr>op_ID = 0, op_InterfaceID = ifaceID, op_Role = ip_Role p, op_FreqHz = ip_FreqHz p\<rparr>
                 else dfail e
      | Inr port \<Rightarrow> updatePorts (\<lambda>q. op_ID q = op_ID port)
          (\<lambda>q. q\<lparr>op_Role := ip_Role p, op_FreqHz := (if ip_FreqHz p \<noteq> 0 then ip_FreqHz p else op_FreqHz q)\<rparr>))"

definition orderInventoryXConnect :: "string \<Rightarrow> Interface \<Rightarrow> Interface \<Rightarrow> OpticalPort \<Rightarrow> OpticalPort \<Rightarrow> string + Interface \<times> Interface" where
  "orderInventoryXConnect kind a b pa pb =
     (if kind = XCTributary then
        if op_Role pa = PortTXPClient \<and> op_Role pb = PortTXPLine then Inr (a, b)
        else if op_Role pb = PortTXPClient \<and> op_Role pa = PortTXPLine then Inr (b, a)
        else Inl ''tributary requires txp_client and txp_line''
      else if kind = XCAddDrop then
        if op_Role pa = PortROADMAddDrop \<and> op_Role pb = PortROADMDegree then Inr (a, b)
        else if op_Role pb = PortROADMAddDrop \<and> op_Role pa = PortROADMDegree then Inr (b, a)
        else Inl ''add/drop requires roadm_adddrop and roadm_degree''
      else Inr (a, b))"

text \<open>
  Every error of \<open>applyInventoryXConnect\<close> is a reason to skip the entry; the value is the id of the row. Its second
  half finds the row of the cross-connect, or inserts one.
\<close>

definition saveInventoryXConnect :: "OpticalXConnect \<Rightarrow> nat optical" where
  "saveInventoryXConnect row =
     dcase (First xc_ID ot_xconnects (\<lambda>x. xc_DeviceID x = xc_DeviceID row \<and> xc_Kind x = xc_Kind row \<and> xc_FreqHz x = xc_FreqHz row \<and>
         (xc_InterfaceAID x = xc_InterfaceAID row \<and> xc_InterfaceBID x = xc_InterfaceBID row \<or>
          xc_InterfaceAID x = xc_InterfaceBID row \<and> xc_InterfaceBID x = xc_InterfaceAID row))) (\<lambda>found.
       case found of
         Inr existing \<Rightarrow>
           dbind (ValidateXConnect (row\<lparr>xc_ID := xc_ID existing\<rparr>)) (\<lambda>_.
           if xc_ID existing = 0 then dbind (insertXConnect row) (\<lambda>r. dret (xc_ID r))
           else
             dbind (if xc_Source existing \<noteq> [] \<and> xc_Source existing \<noteq> xc_Source row
                    then updateXConnect (xc_ID existing) (\<lambda>x. x\<lparr>xc_Source := xc_Source row\<rparr>) else dret ()) (\<lambda>_.
             dbind (if xc_InterfaceAID existing \<noteq> xc_InterfaceAID row \<or> xc_InterfaceBID existing \<noteq> xc_InterfaceBID row
                    then updateXConnect (xc_ID existing)
                      (\<lambda>x. x\<lparr>xc_InterfaceAID := xc_InterfaceAID row, xc_InterfaceBID := xc_InterfaceBID row\<rparr>)
                    else dret ()) (\<lambda>_.
             dret (xc_ID existing))))
       | Inl e \<Rightarrow>
           if e \<noteq> RecordNotFound then dfail e
           else dbind (ValidateXConnect row) (\<lambda>_. dbind (insertXConnect row) (\<lambda>r. dret (xc_ID r))))"

definition xconnectBody :: "nat \<Rightarrow> string \<Rightarrow> ifaceIndex \<Rightarrow> InventoryXConnect \<Rightarrow> nat optical" where
  "xconnectBody deviceID source idx xc =
     dbind (dguard (iv_Kind xc \<in> {XCAddDrop, XCExpress, XCTributary})
       (PlainErr (''kind '' @ iv_Kind xc @ '' is not applied from inventory''))) (\<lambda>_.
     (case (matchIface idx (iv_PortA xc), matchIface idx (iv_PortB xc)) of
        (Some a, Some b) \<Rightarrow>
          dbind (dguard (if_ID a \<noteq> if_ID b) (PlainErr ''same interface both ends'')) (\<lambda>_.
          dbind (portsByInterface [if_ID a, if_ID b]) (\<lambda>ports.
          dbind (dres (case orderInventoryXConnect (iv_Kind xc) a b (ports (if_ID a)) (ports (if_ID b)) of
              Inl s \<Rightarrow> Inl (PlainErr s) | Inr ab \<Rightarrow> Inr ab)) (\<lambda>(oa, ob).
          let pa = ports (if_ID oa); pb = ports (if_ID ob);
              freq = (if iv_FreqHz xc \<noteq> 0 then iv_FreqHz xc else if op_FreqHz pa \<noteq> 0 then op_FreqHz pa else op_FreqHz pb)
          in dbind (if iv_Kind xc = XCAddDrop \<and> op_FreqHz pa = 0 \<and> freq \<noteq> 0
                    then updatePorts (\<lambda>q. op_InterfaceID q = if_ID oa) (\<lambda>q. q\<lparr>op_FreqHz := freq\<rparr>) else dret ()) (\<lambda>_.
             saveInventoryXConnect \<lparr>xc_ID = 0, xc_DeviceID = deviceID, xc_Kind = iv_Kind xc, xc_InterfaceAID = if_ID oa,
               xc_InterfaceBID = if_ID ob, xc_FreqHz = freq, xc_Source = source\<rparr>))))
      | _ \<Rightarrow> dfail (PlainErr ''port not in factum'')))"

definition applyInventoryXConnect :: "nat \<Rightarrow> string \<Rightarrow> ifaceIndex \<Rightarrow> InventoryXConnect \<Rightarrow> (string + nat) optical" where
  "applyInventoryXConnect deviceID source idx xc = attempt (xconnectBody deviceID source idx xc)"

fun applyPorts :: "ifaceIndex \<Rightarrow> ApplyResult \<Rightarrow> InventoryPort list \<Rightarrow> ApplyResult optical" where
  "applyPorts idx res [] = dret res"
| "applyPorts idx res (p # ps) =
     (if ip_Role p = [] \<or> ip_Role p \<notin> set AllowedOpticalPortRoles then
        applyPorts idx (if ip_Name p \<noteq> [] then res\<lparr>ar_PortsSkipped := ar_PortsSkipped res @ [ip_Name p @ '': invalid role'']\<rparr> else res) ps
      else (case matchIface idx (ip_Name p) of
              None \<Rightarrow> applyPorts idx (res\<lparr>ar_PortsSkipped := ar_PortsSkipped res @ [ip_Name p @ '': no matching interface'']\<rparr>) ps
            | Some i \<Rightarrow> dbind (upsertInventoryPort (if_ID i) p) (\<lambda>_.
                applyPorts idx (res\<lparr>ar_PortsUpserted := ar_PortsUpserted res + 1\<rparr>) ps)))"

definition xcLabel :: "InventoryXConnect \<Rightarrow> string" where
  "xcLabel xc = (if iv_Name xc = [] then iv_PortA xc @ [CHR 0xE2, CHR 0x86, CHR 0x94] @ iv_PortB xc else iv_Name xc)"

fun applyXConnects :: "nat \<Rightarrow> string \<Rightarrow> ifaceIndex \<Rightarrow> ApplyResult \<Rightarrow> nat list \<Rightarrow> InventoryXConnect list \<Rightarrow> (ApplyResult \<times> nat list) optical" where
  "applyXConnects deviceID source idx res keep [] = dret (res, keep)"
| "applyXConnects deviceID source idx res keep (xc # xcs) =
     dbind (applyInventoryXConnect deviceID source idx xc) (\<lambda>r. case r of
        Inl skip \<Rightarrow>
          if skip = [] then applyXConnects deviceID source idx (res\<lparr>ar_XConnectsUpserted := ar_XConnectsUpserted res + 1\<rparr>) (0 # keep) xcs
          else applyXConnects deviceID source idx (res\<lparr>ar_XConnectsSkipped := ar_XConnectsSkipped res @ [xcLabel xc @ '': '' @ skip]\<rparr>) keep xcs
      | Inr i \<Rightarrow> applyXConnects deviceID source idx (res\<lparr>ar_XConnectsUpserted := ar_XConnectsUpserted res + 1\<rparr>) (i # keep) xcs)"

definition zeroApplyResult :: ApplyResult where
  "zeroApplyResult = \<lparr>ar_Kind = [], ar_PortsUpserted = 0, ar_PortsSkipped = [], ar_XConnectsUpserted = 0, ar_XConnectsDeleted = 0, ar_XConnectsSkipped = []\<rparr>"

definition applyInventoryTx :: "nat \<Rightarrow> string \<Rightarrow> Inventory \<Rightarrow> ApplyResult optical" where
  "applyInventoryTx deviceID source invt =
     dbind (First od_ID ot_devices (\<lambda>d. od_ID d = deviceID)) (\<lambda>dev.
     let kind = NormalizeOpticalKindCF (CfString (inv_Kind invt)); change = kind \<noteq> [] \<and> od_OpticalKind dev \<noteq> kind
     in dbind (if change then setDeviceKind deviceID kind else dret ()) (\<lambda>_.
     dbind (Find ot_interfaces (\<lambda>i. if_DeviceID i = deviceID)) (\<lambda>ifaces.
     dbind (applyPorts (indexInterfaces ifaces) (zeroApplyResult\<lparr>ar_Kind := (if change then kind else od_OpticalKind dev)\<rparr>) (inv_Ports invt)) (\<lambda>res.
     dbind (applyXConnects deviceID source (indexInterfaces ifaces) res [] (inv_XConnects invt)) (\<lambda>(res, keep).
     dbind (Find ot_xconnects (\<lambda>x. xc_DeviceID x = deviceID \<and> xc_Source x = source)) (\<lambda>existing.
     let gone = filter (\<lambda>x. xc_ID x \<notin> set keep) existing
     in dbind (dfor gone (\<lambda>x. deleteXConnect (xc_ID x))) (\<lambda>_.
        dret (res\<lparr>ar_XConnectsDeleted := length gone\<rparr>))))))))"

definition ApplyInventory :: "nat \<Rightarrow> Inventory \<Rightarrow> ApplyResult optical" where
  "ApplyInventory deviceID invt =
     (let source = (if inv_Source invt = [] then XCSourceOpenROADM else inv_Source invt)
      in dbind (transaction optical_rollback (applyInventoryTx deviceID source invt)) (\<lambda>res.
         dbind (ignore (MarkStaleByDevice deviceID)) (\<lambda>_.
         dbind (ignore RebuildStale) (\<lambda>_. dret res))))"

subsection \<open>No wavelength twice on a degree\<close>

text \<open>
  The degrees a cross-connect of a ROADM occupies with its wavelength, and when two cross-connects clash: the same
  wavelength on a degree of a device, or two tributaries of a client.
\<close>

definition usesDegrees :: "OpticalXConnect \<Rightarrow> nat set" where
  "usesDegrees x = (if xc_Kind x = XCAddDrop then {xc_InterfaceBID x}
     else if xc_Kind x = XCExpress then {xc_InterfaceAID x, xc_InterfaceBID x} else {})"

definition clash :: "OpticalXConnect \<Rightarrow> OpticalXConnect \<Rightarrow> bool" where
  "clash x y \<longleftrightarrow>
     xc_DeviceID x = xc_DeviceID y \<and> xc_FreqHz x = xc_FreqHz y \<and> usesDegrees x \<inter> usesDegrees y \<noteq> {} \<or>
     xc_Kind x = XCTributary \<and> xc_Kind y = XCTributary \<and> xc_InterfaceAID x = xc_InterfaceAID y"

definition xconnects_ok :: "optical_db \<Rightarrow> bool" where
  "xconnects_ok db \<longleftrightarrow> distinct (map xc_ID (ot_xconnects db)) \<and> 0 < oq_xconnects db \<and>
     (\<forall>x \<in> set (ot_xconnects db). 0 < xc_ID x \<and> xc_ID x < oq_xconnects db) \<and>
     (\<forall>x \<in> set (ot_xconnects db). \<forall>y \<in> set (ot_xconnects db). xc_ID x \<noteq> xc_ID y \<longrightarrow> \<not> clash x y)"

definition admits :: "optical_db \<Rightarrow> OpticalXConnect \<Rightarrow> bool" where
  "admits db row \<longleftrightarrow> (\<forall>x \<in> set (ot_xconnects db). xc_ID x \<noteq> xc_ID row \<longrightarrow> \<not> clash row x)"

lemma clash_sym: "clash x y = clash y x"
  by (auto simp: clash_def Int_commute)

lemma clash_cong:
  "xc_Kind x = xc_Kind x' \<Longrightarrow> xc_DeviceID x = xc_DeviceID x' \<Longrightarrow> xc_FreqHz x = xc_FreqHz x' \<Longrightarrow>
   xc_InterfaceAID x = xc_InterfaceAID x' \<Longrightarrow> xc_InterfaceBID x = xc_InterfaceBID x' \<Longrightarrow> clash x y = clash x' y"
  by (simp only: clash_def usesDegrees_def)

lemma xconnects_ok_frame:
  "xconnects_ok db \<Longrightarrow> ot_xconnects db' = ot_xconnects db \<Longrightarrow> oq_xconnects db' = oq_xconnects db \<Longrightarrow> xconnects_ok db'"
  unfolding xconnects_ok_def by simp

lemma admits_frame: "admits db row \<Longrightarrow> ot_xconnects db' = ot_xconnects db \<Longrightarrow> admits db' row"
  unfolding admits_def by simp

lemma xconnects_okI:
  assumes "ot_xconnects db = xs" "oq_xconnects db = n" "distinct (map xc_ID xs)" "0 < n"
    and "\<forall>x \<in> set xs. 0 < xc_ID x \<and> xc_ID x < n" and "\<forall>x \<in> set xs. \<forall>y \<in> set xs. xc_ID x \<noteq> xc_ID y \<longrightarrow> \<not> clash x y"
  shows "xconnects_ok db"
  using assms unfolding xconnects_ok_def by blast

lemma xconnects_ok_insert:
  assumes "xconnects_ok db" and "admits db row" and "xc_ID row = 0"
  shows "xconnects_ok (db\<lparr>ot_xconnects := ot_xconnects db @ [row\<lparr>xc_ID := oq_xconnects db\<rparr>], oq_xconnects := Suc (oq_xconnects db)\<rparr>)"
proof -
  have "\<not> clash (row\<lparr>xc_ID := oq_xconnects db\<rparr>) y" if "y \<in> set (ot_xconnects db)" for y
  proof -
    have "xc_ID y \<noteq> xc_ID row" using assms that by (auto simp: xconnects_ok_def)
    then have "\<not> clash row y" using assms(2) that unfolding admits_def by blast
    then show ?thesis using clash_cong[of "row\<lparr>xc_ID := oq_xconnects db\<rparr>" row y] by simp
  qed
  then show ?thesis using assms(1) clash_sym unfolding xconnects_ok_def
    by (auto simp: less_Suc_eq dest: less_irrefl_nat)
qed

lemma xconnects_ok_update:
  assumes ok: "xconnects_ok db" and ids: "\<And>x. xc_ID (f x) = xc_ID x"
    and free: "\<And>x y. x \<in> set (ot_xconnects db) \<Longrightarrow> xc_ID x = i \<Longrightarrow> y \<in> set (ot_xconnects db) \<Longrightarrow> xc_ID y \<noteq> i \<Longrightarrow> \<not> clash (f x) y"
  shows "xconnects_ok (db\<lparr>ot_xconnects := map (\<lambda>x. if xc_ID x = i then f x else x) (ot_xconnects db)\<rparr>)"
proof -
  let ?g = "\<lambda>x. if xc_ID x = i then f x else x"
  have ids': "xc_ID (?g x) = xc_ID x" for x using ids by simp
  have m: "map xc_ID (map ?g xs) = map xc_ID xs" for xs by (simp add: ids)
  have "\<not> clash (?g x) (?g y)"
    if "x \<in> set (ot_xconnects db)" "y \<in> set (ot_xconnects db)" "xc_ID x \<noteq> xc_ID y" for x y
    using that ok free[of x y] free[of y x] clash_sym[of x "f y"] unfolding xconnects_ok_def by auto
  then have "\<forall>x \<in> set (map ?g (ot_xconnects db)). \<forall>y \<in> set (map ?g (ot_xconnects db)). xc_ID x \<noteq> xc_ID y \<longrightarrow> \<not> clash x y"
    using ids' by (simp only: set_map ball_simps) blast
  moreover have "\<forall>x \<in> set (map ?g (ot_xconnects db)). 0 < xc_ID x \<and> xc_ID x < oq_xconnects db"
    using ok by (auto simp: xconnects_ok_def ids)
  moreover have "distinct (map xc_ID (map ?g (ot_xconnects db)))" using ok unfolding m xconnects_ok_def by blast
  moreover have "0 < oq_xconnects db" using ok by (simp add: xconnects_ok_def)
  ultimately show ?thesis by (intro xconnects_okI[where xs = "map ?g (ot_xconnects db)" and n = "oq_xconnects db"]) simp_all
qed

lemma xconnects_ok_delete: "xconnects_ok db \<Longrightarrow> xconnects_ok (db\<lparr>ot_xconnects := filter P (ot_xconnects db)\<rparr>)"
  unfolding xconnects_ok_def by (auto simp: distinct_map_filter)

lemma xconnects_ok_rollback: "xconnects_ok db \<Longrightarrow> xconnects_ok (optical_rollback db db')"
  unfolding xconnects_ok_def optical_rollback_def by (auto simp: less_max_iff_disj)

interpretation xcs: db_invariant xconnects_ok optical_rollback
  by unfold_locales (rule xconnects_ok_rollback)

lemma portsByInterface_readonly: "readonly (portsByInterface ids)"
  unfolding portsByInterface_def by (intro readonly_rules)

lemma dwrap_readonly: "readonly m \<Longrightarrow> readonly (dwrap text m)"
  unfolding dwrap_def by (rule readonly_case) (auto split: sum.splits intro: readonly_basic)

lemma degreeFreqFree_readonly: "readonly (degreeFreqFree d p f i)"
  unfolding degreeFreqFree_def by (intro readonly_rules)

lemma validateKind_readonly: "readonly (validateKind xc dev pa pb)"
  unfolding validateKind_def Let_def by (intro readonly_rules degreeFreqFree_readonly)

lemma checkLineAddDropMatch_readonly: "readonly (checkLineAddDropMatch a b)"
  unfolding checkLineAddDropMatch_def by (intro readonly_rules portsByInterface_readonly)

lemmas optical_readonly = portsByInterface_readonly dwrap_readonly degreeFreqFree_readonly validateKind_readonly
  checkLineAddDropMatch_readonly

lemma ValidateXConnect_readonly: "readonly (ValidateXConnect xc)"
  unfolding ValidateXConnect_def by (intro readonly_rules optical_readonly)

lemma LoadGraph_readonly: "readonly LoadGraph"
  unfolding LoadGraph_def Let_def by (intro readonly_rules) (auto intro!: readonly_rules split: prod.splits)

text \<open>What a successful check gives, for any facts \<open>P\<close> about the tables.\<close>

definition degreeFree :: "OpticalXConnect \<Rightarrow> nat \<Rightarrow> optical_db \<Rightarrow> bool" where
  "degreeFree row p db \<longleftrightarrow> (\<forall>x \<in> set (ot_xconnects db). xc_DeviceID x = xc_DeviceID row \<and> xc_FreqHz x = xc_FreqHz row \<and>
     xc_ID x \<noteq> xc_ID row \<longrightarrow> p \<noteq> xc_InterfaceAID x \<and> p \<noteq> xc_InterfaceBID x)"

lemma degreeFreqFree_triple:
  assumes "\<And>db. P db \<Longrightarrow> E db"
  shows "triple P (degreeFreqFree (xc_DeviceID row) p (xc_FreqHz row) (xc_ID row)) (\<lambda>_ db. P db \<and> degreeFree row p db) E"
  unfolding degreeFreqFree_def
  by (rule triple_bind[OF triple_Count[OF assms]]) (auto intro!: triple_guard assms simp: filter_empty_conv degreeFree_def)

lemma degreeFree_admits:
  assumes "\<And>p. p \<in> usesDegrees row \<Longrightarrow> degreeFree row p db" and "xc_Kind row \<noteq> XCTributary"
  shows "admits db row"
proof -
  have "usesDegrees x \<subseteq> {xc_InterfaceAID x, xc_InterfaceBID x}" for x by (auto simp: usesDegrees_def)
  then show ?thesis using assms unfolding admits_def clash_def degreeFree_def by (metis disjoint_iff insert_iff singletonD subsetD)
qed

lemma validateKind_triple:
  assumes PE: "\<And>db. P db \<Longrightarrow> E db"
  shows "triple P (validateKind xc dev pa pb) (\<lambda>_ db. P db \<and> admits db xc) E"
proof -
  consider (trib) "xc_Kind xc = XCTributary" | (ad) "xc_Kind xc = XCAddDrop" | (ex) "xc_Kind xc = XCExpress"
    | (pt) "xc_Kind xc = XCPassthrough" | (other) "xc_Kind xc \<notin> {XCTributary, XCAddDrop, XCExpress, XCPassthrough}" by auto
  then show ?thesis
  proof cases
    case trib
    show ?thesis unfolding validateKind_def Let_def if_P[OF trib]
    proof (rule guard_then[OF PE])
      show "triple P (dbind (Count ot_xconnects (\<lambda>x. xc_Kind x = XCTributary \<and> xc_InterfaceAID x = xc_InterfaceAID xc \<and> xc_ID x \<noteq> xc_ID xc))
         (\<lambda>n. dguard (\<not> 0 < n) (PlainErr ''client already has a tributary xconnect''))) (\<lambda>_ db. P db \<and> admits db xc) E"
        by (rule triple_bind[OF triple_Count[OF PE]])
          (auto intro!: triple_guard PE simp: admits_def clash_def usesDegrees_def trib xc_kind_defs filter_empty_conv)
    qed
  next
    case ad
    have k: "xc_Kind xc \<noteq> XCTributary" by (simp add: ad xc_kind_defs)
    have adm: "admits db xc" if "degreeFree xc (xc_InterfaceBID xc) db" for db
      using that k by (intro degreeFree_admits) (auto simp: usesDegrees_def ad)
    have "triple P (degreeFreqFree (xc_DeviceID xc) (xc_InterfaceBID xc) (xc_FreqHz xc) (xc_ID xc)) (\<lambda>_ db. P db \<and> admits db xc) E"
      by (rule triple_weaken[OF degreeFreqFree_triple[OF PE]]) (use adm in blast)+
    then show ?thesis unfolding validateKind_def Let_def if_not_P[OF k] if_P[OF ad] by (intro guard_then PE)
  next
    case ex
    have k: "xc_Kind xc \<noteq> XCTributary" "xc_Kind xc \<noteq> XCAddDrop" by (simp_all add: ex xc_kind_defs)
    have adm: "admits db xc" if "degreeFree xc (xc_InterfaceAID xc) db" "degreeFree xc (xc_InterfaceBID xc) db" for db
      using that k by (intro degreeFree_admits) (auto simp: usesDegrees_def ex)
    have "triple (\<lambda>db. P db \<and> degreeFree xc (xc_InterfaceAID xc) db)
        (degreeFreqFree (xc_DeviceID xc) (xc_InterfaceBID xc) (xc_FreqHz xc) (xc_ID xc)) (\<lambda>_ db. P db \<and> admits db xc) E"
      by (rule triple_weaken[OF degreeFreqFree_triple[where E = E and P = "\<lambda>db. P db \<and> degreeFree xc (xc_InterfaceAID xc) db"]])
        (use PE adm in blast)+
    then show ?thesis unfolding validateKind_def Let_def if_not_P[OF k(1)] if_not_P[OF k(2)] if_P[OF ex]
      by (intro guard_then PE triple_bind[OF degreeFreqFree_triple[OF PE]])
  next
    case pt
    then have "admits db xc" for db by (auto simp: admits_def clash_def usesDegrees_def xc_kind_defs)
    then show ?thesis
      using readonly_triple[OF validateKind_readonly[of xc dev pa pb] PE] by (auto intro: triple_weaken)
  next
    case other
    then show ?thesis by (auto simp: validateKind_def Let_def intro: triple_fail PE)
  qed
qed

lemma ValidateXConnect_triple:
  assumes PE: "\<And>db. P db \<Longrightarrow> E db"
  shows "triple P (ValidateXConnect xc) (\<lambda>_ db. P db \<and> admits db xc) E"
proof -
  have kind: "triple P (dbind (validateKind xc dev pa pb) (\<lambda>_. checkLineAddDropMatch a b)) (\<lambda>_ db. P db \<and> admits db xc) E" for dev pa pb a b
    by (rule triple_bind[OF validateKind_triple[OF PE]], assumption, rule readonly_triple[OF checkLineAddDropMatch_readonly])
      (use PE in blast)
  show ?thesis unfolding ValidateXConnect_def
    by (intro readonly_then[where P = P] readonly_rules optical_readonly kind PE)
qed

text \<open>The statements.\<close>

lemma insertXConnect_triple:
  assumes "xc_ID row = 0"
  shows "triple (\<lambda>db. xconnects_ok db \<and> admits db row) (insertXConnect row) (\<lambda>_. xconnects_ok) xconnects_ok"
  unfolding insertXConnect_def Let_def
  by (rule triple_stmt_total) (use xconnects_ok_insert[OF _ _ assms] in simp_all)

lemma deleteXConnect_keeps: "xcs.keeps (deleteXConnect i)"
  unfolding deleteXConnect_def by (rule xcs.keeps_stmt) (simp add: xconnects_ok_delete)

lemma createXConnect_keeps: "xcs.keeps (createXConnect xc)"
  unfolding xcs.keeps_def createXConnect_def Let_def
  by (rule triple_bind[OF ValidateXConnect_triple], assumption, rule insertXConnect_triple) simp

lemma other_tables_keeps:
  "xcs.keeps (updatePorts P f)" "xcs.keeps (updatePaths Q g)" "xcs.keeps (deletePaths sid)" "xcs.keeps (deleteHops sid)"
  "xcs.keeps (insertHop h)" "xcs.keeps (insertPort p)" "xcs.keeps (setDeviceKind i kind)"
  unfolding updatePorts_def updatePaths_def deletePaths_def deleteHops_def insertHop_def insertPort_def setDeviceKind_def
  by (rule xcs.keeps_stmt; auto elim: xconnects_ok_frame)+

lemma keeps_attempt: "xcs.keeps m \<Longrightarrow> xcs.keeps (attempt m)" "xcs.keeps m \<Longrightarrow> xcs.keeps (ignore m)"
  unfolding attempt_def ignore_def by (auto intro!: xcs.keeps_case xcs.keeps_ret split: sum.splits)

lemma keeps_tx: "xcs.keeps m \<Longrightarrow> xcs.keeps (transaction optical_rollback m)"
  by (rule xcs.keeps_transaction) (auto simp: xcs.keeps_def elim: triple_weaken)

lemma RebuildPath_keeps: "xcs.keeps (RebuildPath g sid)"
  unfolding RebuildPath_def Let_def
  by (auto intro!: xcs.keeps_bind xcs.keeps_rules keeps_tx other_tables_keeps)

lemma RebuildStale_keeps: "xcs.keeps RebuildStale"
  unfolding RebuildStale_def
  by (intro xcs.keeps_bind xcs.keeps_rules RebuildPath_keeps xcs.keeps_readonly[OF LoadGraph_readonly])

lemma MarkStale_keeps:
  "xcs.keeps (MarkStaleByDevice d)" "xcs.keeps (MarkStaleByInterface d)" "xcs.keeps (MarkStaleByConnection d)"
  unfolding MarkStaleByDevice_def MarkStaleByInterface_def MarkStaleByConnection_def by (rule other_tables_keeps)+

text \<open>A cross-connect of the inventory.\<close>

definition sameRow :: "OpticalXConnect \<Rightarrow> optical_db \<Rightarrow> bool" where
  "sameRow e db \<longleftrightarrow> (\<forall>x \<in> set (ot_xconnects db). xc_ID x = xc_ID e \<longrightarrow>
     xc_DeviceID x = xc_DeviceID e \<and> xc_Kind x = xc_Kind e \<and> xc_FreqHz x = xc_FreqHz e)"

lemma sameRow_member: "xconnects_ok db \<Longrightarrow> e \<in> set (ot_xconnects db) \<Longrightarrow> sameRow e db"
  unfolding xconnects_ok_def sameRow_def by (auto simp: distinct_map dest: inj_onD)

lemma updateSource_triple:
  "triple (\<lambda>db. xconnects_ok db \<and> admits db row \<and> sameRow e db) (updateXConnect i (\<lambda>x. x\<lparr>xc_Source := src\<rparr>))
     (\<lambda>_ db. xconnects_ok db \<and> admits db row \<and> sameRow e db) xconnects_ok"
proof -
  let ?f = "\<lambda>x. x\<lparr>xc_Source := src\<rparr>"
  have cl: "clash (?f x) y = clash x y" for x y by (rule clash_cong) simp_all
  have "xconnects_ok (db\<lparr>ot_xconnects := map (\<lambda>x. if xc_ID x = i then ?f x else x) (ot_xconnects db)\<rparr>)" if "xconnects_ok db" for db
    by (rule xconnects_ok_update[OF that]) (use that cl in \<open>auto simp: xconnects_ok_def\<close>)
  moreover have "admits (db\<lparr>ot_xconnects := map (\<lambda>x. if xc_ID x = i then ?f x else x) (ot_xconnects db)\<rparr>) row" if "admits db row" for db
    using that cl by (auto simp: admits_def clash_sym[of row])
  moreover have "sameRow e (db\<lparr>ot_xconnects := map (\<lambda>x. if xc_ID x = i then ?f x else x) (ot_xconnects db)\<rparr>)" if "sameRow e db" for db
    using that by (auto simp: sameRow_def)
  ultimately show ?thesis unfolding updateXConnect_def by (intro triple_stmt_total) blast+
qed

lemma updateEnds_triple:
  assumes "xc_ID row = xc_ID e" "xc_DeviceID row = xc_DeviceID e" "xc_Kind row = xc_Kind e" "xc_FreqHz row = xc_FreqHz e"
  shows "triple (\<lambda>db. xconnects_ok db \<and> admits db row \<and> sameRow e db)
     (updateXConnect (xc_ID e) (\<lambda>x. x\<lparr>xc_InterfaceAID := xc_InterfaceAID row, xc_InterfaceBID := xc_InterfaceBID row\<rparr>)) (\<lambda>_. xconnects_ok) xconnects_ok"
proof -
  let ?f = "\<lambda>x. x\<lparr>xc_InterfaceAID := xc_InterfaceAID row, xc_InterfaceBID := xc_InterfaceBID row\<rparr>"
  have "xconnects_ok (db\<lparr>ot_xconnects := map (\<lambda>x. if xc_ID x = xc_ID e then ?f x else x) (ot_xconnects db)\<rparr>)"
    if ok: "xconnects_ok db" and adm: "admits db row" and same: "sameRow e db" for db
  proof (rule xconnects_ok_update[OF ok])
    fix x y assume x: "x \<in> set (ot_xconnects db)" "xc_ID x = xc_ID e" and y: "y \<in> set (ot_xconnects db)" "xc_ID y \<noteq> xc_ID e"
    have "clash (?f x) y = clash row y" by (rule clash_cong) (use same x assms in \<open>auto simp: sameRow_def\<close>)
    then show "\<not> clash (?f x) y" using adm y assms(1) by (auto simp: admits_def)
  qed simp
  then show ?thesis unfolding updateXConnect_def by (intro triple_stmt_total) blast+
qed

text \<open>The two ways in which \<open>applyInventoryXConnect\<close> ends: the row is there, or it is inserted.\<close>

lemma existing_triple:
  assumes "xc_ID row = 0" "xc_DeviceID row = xc_DeviceID e" "xc_Kind row = xc_Kind e" "xc_FreqHz row = xc_FreqHz e"
  shows "triple (\<lambda>db. xconnects_ok db \<and> e \<in> set (ot_xconnects db))
     (dbind (ValidateXConnect (row\<lparr>xc_ID := xc_ID e\<rparr>)) (\<lambda>_.
        if xc_ID e = 0 then dbind (insertXConnect row) (\<lambda>r. dret (xc_ID r))
        else dbind (if c then updateXConnect (xc_ID e) (\<lambda>x. x\<lparr>xc_Source := src\<rparr>) else dret ()) (\<lambda>_.
             dbind (if d then updateXConnect (xc_ID e) (\<lambda>x. x\<lparr>xc_InterfaceAID := xc_InterfaceAID row, xc_InterfaceBID := xc_InterfaceBID row\<rparr>)
                    else dret ()) (\<lambda>_. dret (xc_ID e))))) (\<lambda>_. xconnects_ok) xconnects_ok"
proof (cases "xc_ID e = 0")
  case True
  then have "\<not> (xconnects_ok db \<and> e \<in> set (ot_xconnects db))" for db by (auto simp: xconnects_ok_def)
  then show ?thesis unfolding triple_def by blast
next
  case False
  let ?row = "row\<lparr>xc_ID := xc_ID e\<rparr>"
  let ?P = "\<lambda>db. xconnects_ok db \<and> admits db ?row \<and> sameRow e db"
  have v: "triple (\<lambda>db. xconnects_ok db \<and> e \<in> set (ot_xconnects db)) (ValidateXConnect ?row) (\<lambda>_. ?P) xconnects_ok"
    by (rule triple_weaken[OF ValidateXConnect_triple[where P = "\<lambda>db. xconnects_ok db \<and> sameRow e db" and E = xconnects_ok]])
      (auto intro: sameRow_member)
  have s: "triple ?P (if c then updateXConnect (xc_ID e) (\<lambda>x. x\<lparr>xc_Source := src\<rparr>) else dret ()) (\<lambda>_. ?P) xconnects_ok"
    using updateSource_triple by (auto intro: triple_ret)
  have u: "triple ?P (if d then updateXConnect (xc_ID e) (\<lambda>x. x\<lparr>xc_InterfaceAID := xc_InterfaceAID row, xc_InterfaceBID := xc_InterfaceBID row\<rparr>)
      else dret ()) (\<lambda>_. xconnects_ok) xconnects_ok"
    using updateEnds_triple[of ?row e] assms by (auto intro: triple_ret)
  show ?thesis unfolding if_not_P[OF False]
    by (rule triple_bind[OF v], rule triple_bind[OF s], rule triple_bind[OF u], rule triple_ret)
qed

lemma inserted_triple:
  "xc_ID row = 0 \<Longrightarrow>
   triple xconnects_ok (dbind (ValidateXConnect row) (\<lambda>_. dbind (insertXConnect row) (\<lambda>r. dret (xc_ID r)))) (\<lambda>_. xconnects_ok) xconnects_ok"
  by (rule triple_bind[OF ValidateXConnect_triple], assumption, rule triple_bind[OF insertXConnect_triple], assumption, rule triple_ret)

lemma saveInventoryXConnect_keeps:
  assumes "xc_ID row = 0"
  shows "xcs.keeps (saveInventoryXConnect row)"
  unfolding xcs.keeps_def saveInventoryXConnect_def
proof (rule triple_case[OF triple_First], assumption, goal_cases)
  case (1 e)
  show ?case
  proof (cases "xc_DeviceID row = xc_DeviceID e \<and> xc_Kind row = xc_Kind e \<and> xc_FreqHz row = xc_FreqHz e")
    case True
    then have same: "xc_DeviceID row = xc_DeviceID e" "xc_Kind row = xc_Kind e" "xc_FreqHz row = xc_FreqHz e" by blast+
    show ?thesis unfolding sum.case by (rule triple_weaken[OF existing_triple[OF assms same]]) blast+
  next
    case False
    then show ?thesis unfolding triple_def by auto
  qed
next
  case (2 err)
  show ?case unfolding sum.case
    by (cases "err \<noteq> RecordNotFound") (simp_all only: if_True if_False not_False_eq_True not_True_eq_False inserted_triple[OF assms] triple_fail)
qed

lemma xconnectBody_keeps: "xcs.keeps (xconnectBody deviceID source idx xc)"
  unfolding xconnectBody_def Let_def
  by (auto intro!: xcs.keeps_bind xcs.keeps_rules xcs.keeps_readonly[OF portsByInterface_readonly] other_tables_keeps
      saveInventoryXConnect_keeps split: option.splits prod.splits)

lemma upsertInventoryPort_keeps: "xcs.keeps (upsertInventoryPort i p)"
  unfolding upsertInventoryPort_def
  by (rule xcs.keeps_case[OF xcs.keeps_reads(3)]) (auto intro: xcs.keeps_fail other_tables_keeps split: sum.splits)

lemma applyPorts_keeps: "xcs.keeps (applyPorts idx res ps)"
  by (induction ps arbitrary: res)
    (auto intro!: xcs.keeps_ret xcs.keeps_bind upsertInventoryPort_keeps split: option.splits)

lemma applyXConnects_keeps: "xcs.keeps (applyXConnects deviceID source idx res keep xcs)"
  by (induction xcs arbitrary: res keep)
    (auto intro!: xcs.keeps_ret xcs.keeps_bind keeps_attempt xconnectBody_keeps simp: applyInventoryXConnect_def split: sum.splits)

lemma applyInventoryTx_keeps: "xcs.keeps (applyInventoryTx deviceID source invt)"
  unfolding applyInventoryTx_def Let_def
  by (auto intro!: xcs.keeps_bind xcs.keeps_rules other_tables_keeps applyPorts_keeps applyXConnects_keeps deleteXConnect_keeps split: prod.splits)

lemma ApplyInventory_keeps: "xcs.keeps (ApplyInventory deviceID invt)"
  unfolding ApplyInventory_def Let_def
  by (intro xcs.keeps_bind xcs.keeps_ret keeps_tx keeps_attempt applyInventoryTx_keeps MarkStale_keeps RebuildStale_keeps)

text \<open>A run of the optical operations, each with whatever happens to its statements; an error ends only its own request.\<close>

datatype optical_request =
    ReqCreateXConnect OpticalXConnect
  | ReqDeleteXConnect nat
  | ReqInventory nat Inventory
  | ReqInterfaceChanged nat
  | ReqDeviceChanged nat
  | ReqConnectionChanged nat
  | ReqRebuildStale
  | ReqDeletePath nat

primrec serveOptical :: "optical_request \<Rightarrow> unit optical" where
  "serveOptical (ReqCreateXConnect xc) = ignore (createXConnect xc)"
| "serveOptical (ReqDeleteXConnect i) = ignore (deleteXConnect i)"
| "serveOptical (ReqInventory d invt) = ignore (ApplyInventory d invt)"
| "serveOptical (ReqInterfaceChanged i) = ignore (MarkStaleByInterface i)"
| "serveOptical (ReqDeviceChanged i) = ignore (MarkStaleByDevice i)"
| "serveOptical (ReqConnectionChanged i) = ignore (MarkStaleByConnection i)"
| "serveOptical ReqRebuildStale = ignore RebuildStale"
| "serveOptical (ReqDeletePath sid) = ignore (DeletePathForService sid)"

lemma DeletePath_keeps: "xcs.keeps (DeletePathForService sid)"
  unfolding DeletePathForService_def by (intro xcs.keeps_bind other_tables_keeps)

lemma serveOptical_keeps: "xcs.keeps (serveOptical r)"
  by (cases r) (simp_all add: keeps_attempt createXConnect_keeps deleteXConnect_keeps ApplyInventory_keeps MarkStale_keeps
      RebuildStale_keeps DeletePath_keeps)

text \<open>
  C5: Whatever cross-connects are created, deleted and reported by inventories, in whatever order and whichever
  database statements fail on the way, no wavelength is used twice on a degree of a ROADM, no transponder client has
  two tributaries, and the ids of cross-connects stay unique.
\<close>

theorem wavelengths_exclusive:
  assumes "xconnects_ok db"
  shows "xconnects_ok (fst (snd (dfor reqs serveOptical (db, evs))))"
  using xcs.keepsD[OF xcs.keeps_for[OF serveOptical_keeps], of "(db, evs)" reqs] assms by simp

definition exampleRoadm :: optical_db where
  "exampleRoadm = \<lparr>ot_devices = [\<lparr>od_ID = 1, od_Name = ''r1'', od_Role = [], od_Status = [], od_OpticalKind = OpticalKindROADM, od_OpticalKindCF = []\<rparr>],
     ot_interfaces = [\<lparr>if_ID = 1, if_DeviceID = 1, if_Name = ''d1''\<rparr>, \<lparr>if_ID = 2, if_DeviceID = 1, if_Name = ''d2''\<rparr>, \<lparr>if_ID = 3, if_DeviceID = 1, if_Name = ''d3''\<rparr>],
     ot_connections = [], oq_connections = 1, ot_ports = [\<lparr>op_ID = 1, op_InterfaceID = 1, op_Role = PortROADMDegree, op_FreqHz = 0\<rparr>,
       \<lparr>op_ID = 2, op_InterfaceID = 2, op_Role = PortROADMDegree, op_FreqHz = 0\<rparr>, \<lparr>op_ID = 3, op_InterfaceID = 3, op_Role = PortROADMDegree, op_FreqHz = 0\<rparr>],
     oq_ports = 4, ot_xconnects = [], oq_xconnects = 1, ot_paths = [], ot_hops = [], ot_services = [], ot_customers = [], ot_endpoints = [],
     ot_kindmaps = [], ot_servicetypes = []\<rparr>"

definition expressRow :: "nat \<Rightarrow> nat \<Rightarrow> OpticalXConnect" where
  "expressRow a b = \<lparr>xc_ID = 0, xc_DeviceID = 1, xc_Kind = XCExpress, xc_InterfaceAID = a, xc_InterfaceBID = b, xc_FreqHz = 193, xc_Source = []\<rparr>"

lemma exampleRoadm_run:
  "map xc_ID (ot_xconnects (fst (snd (dfor [ReqCreateXConnect (expressRow 1 2), ReqCreateXConnect (expressRow 3 2)] serveOptical (exampleRoadm, []))))) = [1]"
  by code_simp

theorem wavelengths_exclusive_witness:
  "xconnects_ok exampleRoadm \<and>
   xconnects_ok (fst (snd (dfor [ReqCreateXConnect (expressRow 1 2), ReqCreateXConnect (expressRow 3 2)] serveOptical (exampleRoadm, [])))) \<and>
   length (ot_xconnects (fst (snd (dfor [ReqCreateXConnect (expressRow 1 2), ReqCreateXConnect (expressRow 3 2)] serveOptical (exampleRoadm, []))))) = 1"
proof -
  have ok: "xconnects_ok exampleRoadm" by (simp add: exampleRoadm_def xconnects_ok_def)
  show ?thesis
    using ok wavelengths_exclusive[OF ok, of "[ReqCreateXConnect (expressRow 1 2), ReqCreateXConnect (expressRow 3 2)]" "[]"]
      arg_cong[OF exampleRoadm_run, of length] by (simp only: length_map list.size) simp
qed

subsection \<open>Paths are retraced as a whole\<close>

definition walkOf :: "Graph \<Rightarrow> ServicePath \<Rightarrow> Result" where
  "walkOf g p = Walk g (sp_EndpointAInterfaceID p) (sp_EndpointZInterfaceID p) (sp_Mode p)"

definition hopsOf :: "nat \<Rightarrow> optical_db \<Rightarrow> ServiceHop list" where
  "hopsOf sid db = filter (\<lambda>h. sh_ServiceID h = sid) (ot_hops db)"

text \<open>The tables after the path \<open>p\<close> has been retraced; a conflict keeps the last hops.\<close>

definition retraced :: "Graph \<Rightarrow> ServicePath \<Rightarrow> optical_db \<Rightarrow> optical_db" where
  "retraced g p db = (let sid = sp_ServiceID p; res = walkOf g p
     in db\<lparr>ot_paths := map (\<lambda>q. if sp_ServiceID q = sid then pathUpdate res q else q) (ot_paths db),
           ot_hops := (if r_Status res = PathConflict then ot_hops db
                       else filter (\<lambda>h. sh_ServiceID h \<noteq> sid) (ot_hops db) @ hopRows sid (r_Hops res))\<rparr>)"

lemma insertHops_triple:
  "triple (\<lambda>db. db = db0) (dfor hs insertHop) (\<lambda>_ db. db = db0\<lparr>ot_hops := ot_hops db0 @ hs\<rparr>) (\<lambda>_. True)"
proof (induction hs arbitrary: db0)
  case Nil
  then show ?case by (auto intro: triple_ret)
next
  case (Cons h hs)
  have "triple (\<lambda>db. db = db0) (insertHop h) (\<lambda>_ db. db = db0\<lparr>ot_hops := ot_hops db0 @ [h]\<rparr>) (\<lambda>_. True)"
    unfolding insertHop_def by (rule triple_stmt_total) auto
  then show ?case unfolding dfor.simps
    by (rule triple_bind, intro triple_bind[OF Cons.IH] triple_ret) simp
qed

lemma RebuildPath_triple:
  "triple (\<lambda>db. db = db0) (RebuildPath g sid)
     (\<lambda>_ db. \<exists>p \<in> set (ot_paths db0). sp_ServiceID p = sid \<and> db = retraced g p db0)
     (\<lambda>db. ot_paths db = ot_paths db0 \<and> ot_hops db = ot_hops db0 \<or> (\<exists>p \<in> set (ot_paths db0). sp_ServiceID p = sid \<and> db = retraced g p db0))"
    (is "triple _ _ ?Q ?E")
  unfolding RebuildPath_def
proof (rule triple_bind[OF triple_First], blast, goal_cases)
  case (1 p)
  let ?upd = "updatePaths (\<lambda>_ q. sp_ServiceID q = sid) (pathUpdate (walkOf g p))"
  let ?db1 = "db0\<lparr>ot_paths := map (\<lambda>q. if sp_ServiceID q = sid then pathUpdate (walkOf g p) q else q) (ot_paths db0)\<rparr>"
  have upd: "triple (\<lambda>db. db = db0) ?upd (\<lambda>_ db. db = ?db1) (\<lambda>db. db = db0 \<or> db = ?db1)"
    unfolding updatePaths_def by (rule triple_stmt_total) auto
  show ?case
  proof (cases "p \<in> set (ot_paths db0) \<and> sp_ServiceID p = sid")
    case in_: True
    show ?thesis
    proof (cases "r_Status (walkOf g p) = PathConflict")
      case True
      then have "?db1 = retraced g p db0" using in_ by (simp add: retraced_def Let_def)
      then have "triple (\<lambda>db. db = db0) ?upd (\<lambda>_ db. db = retraced g p db0) (\<lambda>db. db = db0 \<or> db = retraced g p db0)"
        using upd by simp
      then show ?thesis unfolding Let_def if_P[OF True[unfolded walkOf_def]] unfolding walkOf_def[symmetric]
        by (rule triple_weaken) (use in_ in blast)+
    next
      case False
      let ?tx = "dbind ?upd (\<lambda>_. dbind (deleteHops sid) (\<lambda>_. dbind (dfor (hopRows sid (r_Hops (walkOf g p))) insertHop) (\<lambda>_. dret ())))"
      have del: "triple (\<lambda>db. db = ?db1) (deleteHops sid) (\<lambda>_ db. db = ?db1\<lparr>ot_hops := filter (\<lambda>h. sh_ServiceID h \<noteq> sid) (ot_hops ?db1)\<rparr>) (\<lambda>_. True)"
        unfolding deleteHops_def by (rule triple_stmt_total) auto
      have "triple (\<lambda>db. db = db0) ?tx (\<lambda>_ db. db = retraced g p db0) (\<lambda>_. True)"
        by (rule triple_bind[OF triple_weaken[OF upd]], assumption, assumption, simp,
            rule triple_bind[OF del], rule triple_bind[OF insertHops_triple], rule triple_ret)
          (use False in_ in \<open>simp add: retraced_def Let_def\<close>)
      then have "triple (\<lambda>db. db = db0) (transaction optical_rollback ?tx) (\<lambda>_ db. db = retraced g p db0) ?E"
        by (rule triple_transaction) (use in_ in \<open>auto simp: optical_rollback_def\<close>)
      then show ?thesis unfolding Let_def if_not_P[OF False[unfolded walkOf_def]] unfolding walkOf_def[symmetric]
        by (rule triple_weaken) (use in_ in blast)+
    qed
  next
    case False
    then show ?thesis unfolding triple_def by auto
  qed
qed

text \<open>
  Retracing the path of a service replaces its status and hops together, whichever statements fail: after an error
  both are the old ones, or both are exactly what the walk over the network found, with the hops numbered in order and
  the last hops kept on a conflict; after a success they are the latter. Paths and hops of other services stay.
\<close>

theorem RebuildPath_atomic:
  "case RebuildPath g sid (db, evs) of (r, (db', evs')) \<Rightarrow>
     (\<exists>p \<in> set (ot_paths db). sp_ServiceID p = sid \<and> db' = retraced g p db) \<or>
     isl r \<and> ot_paths db' = ot_paths db \<and> ot_hops db' = ot_hops db"
proof -
  have "outcome (\<lambda>_ db'. \<exists>p \<in> set (ot_paths db). sp_ServiceID p = sid \<and> db' = retraced g p db)
     (\<lambda>db'. ot_paths db' = ot_paths db \<and> ot_hops db' = ot_hops db \<or> (\<exists>p \<in> set (ot_paths db). sp_ServiceID p = sid \<and> db' = retraced g p db))
     (RebuildPath g sid (db, evs))"
    by (rule tripleD[OF RebuildPath_triple]) simp
  then show ?thesis by (auto simp: outcome_def split: prod.splits sum.splits)
qed

subsection \<open>Rebuilding the stale paths\<close>

lemma run_insertHops: "dfor hs insertHop (db, []) = (Inr (map (\<lambda>_. ()) hs), (db\<lparr>ot_hops := ot_hops db @ hs\<rparr>, []))"
  by (induction hs arbitrary: db) (simp_all add: db_run insertHop_def)

lemma run_RebuildPath:
  assumes "p \<in> set (ot_paths db)" "distinct (map sp_ServiceID (ot_paths db))"
  shows "RebuildPath g (sp_ServiceID p) (db, []) = (Inr (), (retraced g p db, []))"
proof -
  obtain q where q: "first_by sp_ServiceID (\<lambda>q. sp_ServiceID q = sp_ServiceID p) (ot_paths db) = Some q"
    using assms(1) first_by_None[of sp_ServiceID "\<lambda>q. sp_ServiceID q = sp_ServiceID p"] by fastforce
  have "q = p" using first_by_Some[OF q] assms by (auto simp: distinct_map dest: inj_onD)
  then show ?thesis
    using q by (simp add: RebuildPath_def db_run Let_def updatePaths_def deleteHops_def run_insertHops retraced_def walkOf_def)
qed

definition needsRebuild :: "ServicePath \<Rightarrow> bool" where
  "needsRebuild p \<longleftrightarrow> sp_Status p = PathStale \<or> sp_Status p = PathIncomplete"

text \<open>The tables after the paths of the services \<open>S\<close> have been retraced.\<close>

definition rebuilt :: "Graph \<Rightarrow> nat set \<Rightarrow> optical_db \<Rightarrow> optical_db \<Rightarrow> bool" where
  "rebuilt g S db db' \<longleftrightarrow>
     ot_paths db' = map (\<lambda>q. if sp_ServiceID q \<in> S then pathUpdate (walkOf g q) q else q) (ot_paths db) \<and>
     (\<forall>q \<in> set (ot_paths db). hopsOf (sp_ServiceID q) db' =
        (if sp_ServiceID q \<in> S \<and> r_Status (walkOf g q) \<noteq> PathConflict then hopRows (sp_ServiceID q) (r_Hops (walkOf g q))
         else hopsOf (sp_ServiceID q) db))"

lemma pathUpdate_keeps [simp]:
  "sp_ServiceID (pathUpdate res q) = sp_ServiceID q" "walkOf g (pathUpdate res q) = walkOf g q"
  by (simp_all add: pathUpdate_def walkOf_def)

lemma hopRows_sid: "filter (\<lambda>h. sh_ServiceID h = s) (hopRows sid hs) = (if s = sid then hopRows sid hs else [])"
  by (auto simp: hopRows_def hopRow_def filter_empty_conv intro!: filter_True)

lemma hopsOf_retraced:
  "hopsOf s (retraced g p db) =
     (if s = sp_ServiceID p \<and> r_Status (walkOf g p) \<noteq> PathConflict then hopRows s (r_Hops (walkOf g p)) else hopsOf s db)"
  by (auto simp: hopsOf_def retraced_def Let_def hopRows_sid filter_empty_conv intro!: filter_cong)

lemma rebuilt_step:
  assumes "p \<in> set (ot_paths db)" "distinct (map sp_ServiceID (ot_paths db))" "sp_ServiceID p \<notin> S"
    and "rebuilt g S (retraced g p db) db'"
  shows "rebuilt g (insert (sp_ServiceID p) S) db db'"
proof -
  have uniq: "q = p" if "q \<in> set (ot_paths db)" "sp_ServiceID q = sp_ServiceID p" for q
    using that assms(1,2) by (auto simp: distinct_map dest: inj_onD)
  have paths: "ot_paths (retraced g p db) = map (\<lambda>q. if sp_ServiceID q = sp_ServiceID p then pathUpdate (walkOf g p) q else q) (ot_paths db)"
    by (simp add: retraced_def Let_def)
  show ?thesis unfolding rebuilt_def
  proof (intro conjI ballI)
    show "ot_paths db' = map (\<lambda>q. if sp_ServiceID q \<in> insert (sp_ServiceID p) S then pathUpdate (walkOf g q) q else q) (ot_paths db)"
      using assms(3,4) uniq by (auto simp: rebuilt_def paths intro!: map_cong)
  next
    fix q assume q: "q \<in> set (ot_paths db)"
    let ?q = "if sp_ServiceID q = sp_ServiceID p then pathUpdate (walkOf g p) q else q"
    have "?q \<in> set (ot_paths (retraced g p db))" using q by (auto simp: paths)
    then have "hopsOf (sp_ServiceID ?q) db' = (if sp_ServiceID ?q \<in> S \<and> r_Status (walkOf g ?q) \<noteq> PathConflict
        then hopRows (sp_ServiceID ?q) (r_Hops (walkOf g ?q)) else hopsOf (sp_ServiceID ?q) (retraced g p db))"
      using assms(4) unfolding rebuilt_def by blast
    then show "hopsOf (sp_ServiceID q) db' = (if sp_ServiceID q \<in> insert (sp_ServiceID p) S \<and> r_Status (walkOf g q) \<noteq> PathConflict
        then hopRows (sp_ServiceID q) (r_Hops (walkOf g q)) else hopsOf (sp_ServiceID q) db)"
      using uniq[OF q] assms(3) by (auto simp: hopsOf_retraced split: if_splits)
  qed
qed

lemma run_rebuild:
  assumes "\<And>p. p \<in> set ps \<Longrightarrow> \<exists>q \<in> set (ot_paths db). sp_ServiceID q = sp_ServiceID p" "distinct (map sp_ServiceID (ot_paths db))" "distinct (map sp_ServiceID ps)"
  shows "\<exists>db' us. dfor ps (\<lambda>p. RebuildPath g (sp_ServiceID p)) (db, []) = (Inr us, (db', [])) \<and> rebuilt g (sp_ServiceID ` set ps) db db'"
  using assms
proof (induction ps arbitrary: db)
  case Nil
  then show ?case by (auto simp: db_run rebuilt_def)
next
  case (Cons p ps)
  obtain q where q: "q \<in> set (ot_paths db)" "sp_ServiceID q = sp_ServiceID p" using Cons.prems(1)[of p] by auto
  have paths: "map sp_ServiceID (ot_paths (retraced g q db)) = map sp_ServiceID (ot_paths db)"
    by (simp add: retraced_def Let_def)
  have "\<exists>q' \<in> set (ot_paths (retraced g q db)). sp_ServiceID q' = sp_ServiceID x" if "x \<in> set ps" for x
  proof -
    have "sp_ServiceID x \<in> set (map sp_ServiceID (ot_paths (retraced g q db)))"
      unfolding paths using Cons.prems(1)[of x] that by force
    then show ?thesis by force
  qed
  then obtain db' us where run: "dfor ps (\<lambda>p. RebuildPath g (sp_ServiceID p)) (retraced g q db, []) = (Inr us, (db', []))"
    and reb: "rebuilt g (sp_ServiceID ` set ps) (retraced g q db) db'"
    using Cons.IH[of "retraced g q db"] Cons.prems(2,3) paths by auto
  have "RebuildPath g (sp_ServiceID p) (db, []) = (Inr (), (retraced g q db, []))"
    using run_RebuildPath[OF q(1) Cons.prems(2), of g] q(2) by simp
  moreover have "rebuilt g (sp_ServiceID ` set (p # ps)) db db'"
    using rebuilt_step[OF q(1) Cons.prems(2) _ reb] q(2) Cons.prems(3) by simp
  ultimately show ?case using run by (simp add: db_run)
qed

lemma walkLoop_status: "r_Status (walkLoop g zID mode sk hops visited seen lam cur arr) \<noteq> PathStale"
proof (induction g zID mode sk hops visited seen lam cur arr rule: walkLoop.induct)
  case (1 g zID mode sk hops visited seen lam cur arr)
  have ifI: "r_Status (if c then x else y) \<noteq> PathStale"
    if "c \<Longrightarrow> r_Status x \<noteq> PathStale" "\<not> c \<Longrightarrow> r_Status y \<noteq> PathStale" for c x y using that by simp
  have st: "PathComplete \<noteq> PathStale" "PathIncomplete \<noteq> PathStale" "PathConflict \<noteq> PathStale"
    by (simp_all add: path_status_defs)
  show ?case unfolding walkLoop.simps[of g zID mode sk hops visited seen lam cur arr]
    unfolding Let_def
  proof (intro ifI, goal_cases)
    case 6
    then show ?case by - (rule "1.IH", (rule refl | assumption)+)
  qed (simp_all add: st)
qed

lemma Walk_status: "r_Status (Walk g s z mode) \<noteq> PathStale"
  by (simp add: Walk_def Let_def walkLoop_status) (simp add: path_status_defs)

definition graphOf :: "optical_db \<Rightarrow> Graph" where
  "graphOf db = projr (fst (LoadGraph (db, [])))"

lemma run_LoadGraph: "LoadGraph (db, []) = (Inr (graphOf db), (db, []))"
proof -
  have "\<exists>g. LoadGraph (db, []) = (Inr g, (db, []))"
    by (simp add: LoadGraph_def db_run Let_def split: prod.splits)
  then show ?thesis unfolding graphOf_def by auto
qed

lemma run_RebuildStale:
  assumes "distinct (map sp_ServiceID (ot_paths db))"
  shows "\<exists>db'. RebuildStale (db, []) = (Inr (), (db', [])) \<and> rebuilt (graphOf db) (sp_ServiceID ` {p \<in> set (ot_paths db). needsRebuild p}) db db'"
proof -
  have "distinct (map sp_ServiceID (filter needsRebuild (ot_paths db)))" using assms by (rule distinct_map_filter)
  then obtain db' us where "dfor (filter needsRebuild (ot_paths db)) (\<lambda>p. RebuildPath (graphOf db) (sp_ServiceID p)) (db, []) = (Inr us, (db', []))"
    "rebuilt (graphOf db) (sp_ServiceID ` set (filter needsRebuild (ot_paths db))) db db'"
    using run_rebuild[of "filter needsRebuild (ot_paths db)" db "graphOf db"] assms by auto
  then show ?thesis unfolding RebuildStale_def needsRebuild_def[symmetric] by (simp add: db_run run_LoadGraph)
qed

definition throughDevice :: "optical_db \<Rightarrow> nat \<Rightarrow> ServicePath \<Rightarrow> bool" where
  "throughDevice db d p \<longleftrightarrow> (\<exists>h \<in> set (hopsOf (sp_ServiceID p) db). sh_DeviceID h = Some d \<or>
     (\<exists>i \<in> set (ot_interfaces db). if_DeviceID i = d \<and> sh_InterfaceID h = Some (if_ID i)))"

lemma run_MarkStaleByDevice:
  "MarkStaleByDevice d (db, []) = (Inr (), (db\<lparr>ot_paths := map (\<lambda>p. if throughDevice db d p then markStale p else p) (ot_paths db)\<rparr>, []))"
  by (simp add: MarkStaleByDevice_def updatePaths_def db_run throughDevice_def hopsOf_def list_ex_iff Bex_def conj_assoc)

text \<open>A handler that does not look at what \<open>f\<close> changes.\<close>

definition unaffected :: "('db \<Rightarrow> 'db) \<Rightarrow> ('db, 'a) dbm \<Rightarrow> bool" where
  "unaffected f m \<longleftrightarrow> (\<forall>db evs. m (f db, evs) = (case m (db, evs) of (r, (db', evs')) \<Rightarrow> (r, (f db', evs'))))"

lemma unaffected_ret: "unaffected f (dret a)"
  by (simp add: unaffected_def dret_def)

lemma unaffected_Find: "(\<And>db. tbl (f db) = tbl db) \<Longrightarrow> unaffected f (Find tbl P)"
  by (auto simp: unaffected_def Find_def query_def stmt_def split: list.splits event.splits)

lemma unaffected_if: "unaffected f m \<Longrightarrow> unaffected f n \<Longrightarrow> unaffected f (if c then m else n)"
  by simp

lemma unaffected_bind: "unaffected f m \<Longrightarrow> (\<And>a. unaffected f (k a)) \<Longrightarrow> unaffected f (dbind m k)"
  by (simp add: unaffected_def run_bind split: prod.splits sum.splits)

lemma graphOf_paths: "graphOf (db\<lparr>ot_paths := ps\<rparr>) = graphOf db"
proof -
  have "unaffected (\<lambda>db. db\<lparr>ot_paths := ps\<rparr>) LoadGraph"
    unfolding LoadGraph_def Let_def case_prod_beta
    by (intro unaffected_bind unaffected_if unaffected_Find unaffected_ret) simp_all
  then show ?thesis unfolding unaffected_def graphOf_def by (simp split: prod.splits)
qed

lemma markStale_simps [simp]:
  "sp_ServiceID (markStale p) = sp_ServiceID p" "walkOf g (markStale p) = walkOf g p" "pathUpdate res (markStale p) = pathUpdate res p"
  "needsRebuild (markStale p)"
  by (simp_all add: markStale_def walkOf_def pathUpdate_def needsRebuild_def)

text \<open>
  C33: When a device has changed and the stale paths have been rebuilt, without database errors, no path is stale any
  more, and every path that had a hop on the device or on one of its interfaces, or was incomplete, has the status,
  wavelength and hops of the walk over the current network; on a conflict its last hops are kept.
\<close>

theorem device_change_retraced:
  assumes "distinct (map sp_ServiceID (ot_paths db))"
  shows "\<exists>db'. dbind (MarkStaleByDevice d) (\<lambda>_. RebuildStale) (db, []) = (Inr (), (db', [])) \<and>
    ot_paths db' = map (\<lambda>p. if throughDevice db d p \<or> needsRebuild p then pathUpdate (walkOf (graphOf db) p) p else p) (ot_paths db) \<and>
    (\<forall>p \<in> set (ot_paths db). hopsOf (sp_ServiceID p) db' =
      (if (throughDevice db d p \<or> needsRebuild p) \<and> r_Status (walkOf (graphOf db) p) \<noteq> PathConflict
       then hopRows (sp_ServiceID p) (r_Hops (walkOf (graphOf db) p)) else hopsOf (sp_ServiceID p) db)) \<and>
    (\<forall>p \<in> set (ot_paths db'). sp_Status p \<noteq> PathStale)"
proof -
  let ?m = "\<lambda>p. if throughDevice db d p then markStale p else p"
  let ?n = "\<lambda>p. throughDevice db d p \<or> needsRebuild p"
  define db1 where "db1 = db\<lparr>ot_paths := map ?m (ot_paths db)\<rparr>"
  let ?S = "sp_ServiceID ` {p \<in> set (ot_paths db1). needsRebuild p}"
  have sids: "map sp_ServiceID (ot_paths db1) = map sp_ServiceID (ot_paths db)" by (simp add: db1_def)
  have "graphOf db1 = graphOf db" unfolding db1_def by (rule graphOf_paths)
  then obtain db' where run: "RebuildStale (db1, []) = (Inr (), (db', []))" and reb: "rebuilt (graphOf db) ?S db1 db'"
    using run_RebuildStale[of db1] assms unfolding sids by metis
  have S: "sp_ServiceID p \<in> ?S \<longleftrightarrow> ?n p" if "p \<in> set (ot_paths db)" for p
  proof -
    have "q = p" if "q \<in> set (ot_paths db)" "sp_ServiceID q = sp_ServiceID p" for q
      using that assms \<open>p \<in> set (ot_paths db)\<close> by (auto simp: distinct_map dest: inj_onD)
    then have "sp_ServiceID p \<in> ?S \<longleftrightarrow> needsRebuild (?m p)"
      using that markStale_simps(1) unfolding db1_def by (auto simp: image_iff)
    then show ?thesis by simp
  qed
  have paths: "ot_paths db' = map (\<lambda>p. if ?n p then pathUpdate (walkOf (graphOf db) p) p else p) (ot_paths db)"
    using reb S by (auto simp: rebuilt_def db1_def intro!: map_cong)
  have hops: "hopsOf (sp_ServiceID p) db' = (if ?n p \<and> r_Status (walkOf (graphOf db) p) \<noteq> PathConflict
      then hopRows (sp_ServiceID p) (r_Hops (walkOf (graphOf db) p)) else hopsOf (sp_ServiceID p) db)" if p: "p \<in> set (ot_paths db)" for p
  proof -
    have "?m p \<in> set (ot_paths db1)" using p by (simp add: db1_def)
    then have "hopsOf (sp_ServiceID (?m p)) db' = (if sp_ServiceID (?m p) \<in> ?S \<and> r_Status (walkOf (graphOf db) (?m p)) \<noteq> PathConflict
        then hopRows (sp_ServiceID (?m p)) (r_Hops (walkOf (graphOf db) (?m p))) else hopsOf (sp_ServiceID (?m p)) db1)"
      using reb unfolding rebuilt_def by blast
    moreover have "sp_ServiceID (?m p) = sp_ServiceID p" "walkOf (graphOf db) (?m p) = walkOf (graphOf db) p" by simp_all
    moreover have "hopsOf s db1 = hopsOf s db" for s by (simp add: hopsOf_def db1_def)
    ultimately show ?thesis using S[OF p] by (simp only:)
  qed
  have "sp_Status p \<noteq> PathStale" if "p \<in> set (ot_paths db')" for p
    using that Walk_status by (auto simp: paths pathUpdate_def walkOf_def needsRebuild_def split: if_splits)
  moreover have "dbind (MarkStaleByDevice d) (\<lambda>_. RebuildStale) (db, []) = (Inr (), (db', []))"
    using run by (simp add: run_bind run_MarkStaleByDevice db1_def)
  ultimately show ?thesis using paths hops by blast
qed

definition exampleStale :: optical_db where
  "exampleStale = exampleRoadm\<lparr>ot_connections := [\<lparr>cn_ID = 1, cn_NetboxID = 0, cn_DeviceAID = 1, cn_InterfaceAID = 1, cn_DeviceBID = 1, cn_InterfaceBID = 2, cn_Label = []\<rparr>],
     ot_paths := [\<lparr>sp_ServiceID = 7, sp_Mode = TraceModeWDM, sp_Status = PathComplete, sp_EndpointAInterfaceID = 1, sp_EndpointZInterfaceID = 2,
       sp_StartKindA = [], sp_FreqHz = 0, sp_LastTraceError = []\<rparr>],
     ot_hops := [\<lparr>sh_ServiceID = 7, sh_Seq = 1, sh_Kind = HopInterface, sh_InterfaceID = Some 3, sh_ConnectionID = None, sh_XConnectID = None,
       sh_DeviceID = None, sh_FreqHz = 0, sh_Label = []\<rparr>]\<rparr>"

theorem device_change_retraced_witness:
  "distinct (map sp_ServiceID (ot_paths exampleStale)) \<and>
   (\<exists>db'. dbind (MarkStaleByDevice 1) (\<lambda>_. RebuildStale) (exampleStale, []) = (Inr (), (db', [])) \<and>
      (\<forall>p \<in> set (ot_paths db'). sp_Status p \<noteq> PathStale))"
proof -
  have d: "distinct (map sp_ServiceID (ot_paths exampleStale))" by (simp add: exampleStale_def)
  show ?thesis using d device_change_retraced[OF d, of 1] by blast
qed

end
