(* ===== verification/Optical_Impact.thy ===== *)
theory Optical_Impact
  imports Optical_Store
begin

text \<open>
  The services affected by an outage, \<open>internal/optical/impact.go\<close>.

  Lemmas: the services listed for a set of resources are exactly those the resources touch, each once.
\<close>

subsection \<open>Impact\<close>

record ImpactRow =
  im_ServiceID :: nat
  im_ServiceRef :: string
  im_Category :: string
  im_CustomerID :: nat
  im_Customer :: string
  im_Source :: string

definition isUpper :: "char \<Rightarrow> bool" where
  "isUpper c \<longleftrightarrow> 65 \<le> (of_char c :: nat) \<and> (of_char c :: nat) \<le> 90"

text \<open>The regular expression of two capital letters and five digits.\<close>

definition CategoryFromServiceID :: "string \<Rightarrow> string" where
  "CategoryFromServiceID s =
     (if length s = 7 \<and> list_all isUpper (take 2 s) \<and> list_all (\<lambda>c. digit_val c \<noteq> None) (drop 2 s) then take 2 s else [])"

definition OpticalServiceCategories :: "string list" where
  "OpticalServiceCategories = [''VL'', ''VI'', ''LF'', ''LI'']"

definition customerName :: "Service \<Rightarrow> string optical" where
  "customerName s =
     (if sv_CustomerID s = 0 then dret []
      else dcase (First cu_ID ot_customers (\<lambda>c. cu_ID c = sv_CustomerID s)) (\<lambda>r. dret (case r of Inr c \<Rightarrow> cu_Name c | Inl _ \<Rightarrow> [])))"

definition impactRow :: "Service \<Rightarrow> string \<Rightarrow> string \<Rightarrow> ImpactRow" where
  "impactRow s name source = \<lparr>im_ServiceID = sv_ID s, im_ServiceRef = sv_ServiceID s, im_Category = CategoryFromServiceID (sv_ServiceID s),
     im_CustomerID = sv_CustomerID s, im_Customer = name, im_Source = source\<rparr>"

text \<open>A failed count leaves 0.\<close>

fun impactRowsFromServices :: "string \<Rightarrow> Service list \<Rightarrow> ImpactRow list optical" where
  "impactRowsFromServices source [] = dret []"
| "impactRowsFromServices source (s # ss) =
     (let cat = CategoryFromServiceID (sv_ServiceID s); rest = impactRowsFromServices source ss;
          add = dbind (customerName s) (\<lambda>name. dbind rest (\<lambda>rows. dret (impactRow s name source # rows)))
      in if cat = ''CN'' \<or> cat = ''CI'' then rest
         else if cat \<noteq> [] \<and> cat \<notin> set OpticalServiceCategories then rest
         else if cat = [] then
           dcase (Count ot_paths (\<lambda>p. sp_ServiceID p = sv_ID s)) (\<lambda>r. case r of
             Inr n \<Rightarrow> if n = 0 then rest else add | Inl _ \<Rightarrow> rest)
         else add)"

definition serviceResourceImpact :: "nat \<Rightarrow> ImpactRow list optical" where
  "serviceResourceImpact sid =
     dcase (First sv_ID ot_services (\<lambda>s. sv_ID s = sid)) (\<lambda>r. case r of
        Inl _ \<Rightarrow> dret [] | Inr s \<Rightarrow> impactRowsFromServices ''service'' [s])"

definition hopsTouching :: "string \<Rightarrow> nat \<Rightarrow> ServiceHop \<Rightarrow> bool" where
  "hopsTouching rtype i h \<longleftrightarrow>
     (if rtype = ''connection'' then sh_ConnectionID h = Some i
      else if rtype = ''device'' then sh_Kind h = HopDevice \<and> sh_DeviceID h = Some i
      else if rtype = ''interface'' then sh_InterfaceID h = Some i else False)"

definition ResourceImpact :: "string \<Rightarrow> nat \<Rightarrow> ImpactRow list optical" where
  "ResourceImpact rtype i =
     (if rtype = ''wavelength'' \<or> rtype = ''fiber'' then serviceResourceImpact i
      else if rtype \<notin> {''connection'', ''device'', ''interface''} then dret []
      else dbind (Find ot_hops (hopsTouching rtype i)) (\<lambda>hops.
        if hops = [] then dret []
        else dbind (Find ot_services (\<lambda>s. sv_ID s \<in> sh_ServiceID ` set hops)) (impactRowsFromServices ''optical_hop'')))"

fun unionRows :: "nat list \<Rightarrow> ImpactRow list \<Rightarrow> nat list \<times> ImpactRow list" where
  "unionRows seen [] = (seen, [])"
| "unionRows seen (r # rs) =
     (if im_ServiceID r \<in> set seen then unionRows seen rs
      else (case unionRows (im_ServiceID r # seen) rs of (seen', out) \<Rightarrow> (seen', r # out)))"

fun resourcesLoop :: "nat list \<Rightarrow> (string \<times> nat) list \<Rightarrow> ImpactRow list optical" where
  "resourcesLoop seen [] = dret []"
| "resourcesLoop seen ((rtype, i) # rs) =
     dbind (ResourceImpact rtype i) (\<lambda>rows. case unionRows seen rows of (seen', out) \<Rightarrow>
       dbind (resourcesLoop seen' rs) (\<lambda>more_rows. dret (out @ more_rows)))"

definition ResourcesImpact :: "(string \<times> nat) list \<Rightarrow> ImpactRow list optical" where
  "ResourcesImpact resources = resourcesLoop [] resources"

record DeviceImpact =
  di_DeviceID :: nat
  di_Status :: string
  di_ServiceCount :: nat
  di_CustomerCount :: nat
  di_Services :: "ImpactRow list"

text \<open>\<open>add\<close> of \<open>DeviceDownImpact\<close> over a list of services with their sources, on the rows so far.\<close>

fun addImpacts :: "ImpactRow list \<Rightarrow> (Service \<times> string) list \<Rightarrow> ImpactRow list optical" where
  "addImpacts out [] = dret out"
| "addImpacts out ((s, source) # ss) =
     (let cat = CategoryFromServiceID (sv_ServiceID s)
      in if sv_ID s \<in> im_ServiceID ` set out then addImpacts out ss
         else if source = ''optical_hop'' \<and> (cat = ''CN'' \<or> cat = ''CI'') then addImpacts out ss
         else if source = ''optical_hop'' \<and> cat \<noteq> [] \<and> cat \<notin> set OpticalServiceCategories then addImpacts out ss
         else dbind (customerName s) (\<lambda>name. addImpacts (out @ [impactRow s name source]) ss))"

definition LookupServiceType :: "string \<Rightarrow> ServiceType optical" where
  "LookupServiceType name = dcase (First sy_ID ot_servicetypes (\<lambda>t. sy_Name t = name)) (\<lambda>r. case r of
     Inr t \<Rightarrow> dret t
   | Inl e \<Rightarrow> if e = RecordNotFound then dfail (StatusErr 400 (''unknown service type '' @ Quote name)) else dfail e)"

definition endpointSource :: "Service \<Rightarrow> (Service \<times> string) optical" where
  "endpointSource s =
     (if sv_ServiceType s = [] then dret (s, ''endpoint'')
      else dcase (LookupServiceType (sv_ServiceType s)) (\<lambda>r. dret (s, case r of
        Inr t \<Rightarrow> if sy_SyncSource t \<noteq> [] then sy_SyncSource t else ''endpoint'' | Inl _ \<Rightarrow> ''endpoint'')))"

text \<open>The source of an endpoint service is looked up right before it is added.\<close>

fun addEndpoints :: "ImpactRow list \<Rightarrow> Service list \<Rightarrow> ImpactRow list optical" where
  "addEndpoints out [] = dret out"
| "addEndpoints out (s # ss) =
     dbind (endpointSource s) (\<lambda>x. dbind (addImpacts out [x]) (\<lambda>out'. addEndpoints out' ss))"

definition DeviceDownImpact :: "nat \<Rightarrow> DeviceImpact optical" where
  "DeviceDownImpact deviceID =
     dbind (First od_ID ot_devices (\<lambda>d. od_ID d = deviceID)) (\<lambda>dev.
     dbind (Find ot_endpoints (\<lambda>e. se_DeviceID e = deviceID)) (\<lambda>eps.
     dbind (if eps = [] then dret []
            else dbind (Find ot_services (\<lambda>s. sv_ID s \<in> se_ServiceID ` set eps)) (addEndpoints [])) (\<lambda>out.
     dbind (Find ot_hops (\<lambda>h. sh_Kind h = HopDevice \<and> sh_DeviceID h = Some deviceID)) (\<lambda>hops.
     dbind (if hops = [] then dret out
            else dbind (Find ot_services (\<lambda>s. sv_ID s \<in> sh_ServiceID ` set hops)) (\<lambda>svcs.
              addImpacts out (map (\<lambda>s. (s, ''optical_hop'')) svcs))) (\<lambda>out.
     dret \<lparr>di_DeviceID = deviceID, di_Status = od_Status dev, di_ServiceCount = length out,
           di_CustomerCount = length (remdups (map im_CustomerID out)), di_Services = out\<rparr>)))))"

subsection \<open>The affected services\<close>

text \<open>Which services count, and which a resource touches.\<close>

definition counted :: "optical_db \<Rightarrow> Service \<Rightarrow> bool" where
  "counted db s \<longleftrightarrow> (let cat = CategoryFromServiceID (sv_ServiceID s)
     in cat \<in> set OpticalServiceCategories \<or> cat = [] \<and> (\<exists>p \<in> set (ot_paths db). sp_ServiceID p = sv_ID s))"

definition touches :: "optical_db \<Rightarrow> string \<times> nat \<Rightarrow> Service \<Rightarrow> bool" where
  "touches db r s \<longleftrightarrow> (case r of (rtype, i) \<Rightarrow>
     if rtype \<in> {''wavelength'', ''fiber''} then sv_ID s = i
     else \<exists>h \<in> set (ot_hops db). hopsTouching rtype i h \<and> sh_ServiceID h = sv_ID s)"

lemma run_customerName: "\<exists>name. customerName s (db, []) = (Inr name, (db, []))"
  by (auto simp: customerName_def db_run split: option.splits)

lemma counted_cases:
  assumes "cat = CategoryFromServiceID (sv_ServiceID s)"
  shows "cat = ''CN'' \<or> cat = ''CI'' \<Longrightarrow> \<not> counted db s" "cat \<noteq> [] \<and> cat \<notin> set OpticalServiceCategories \<Longrightarrow> \<not> counted db s"
    "cat = [] \<Longrightarrow> counted db s \<longleftrightarrow> filter (\<lambda>p. sp_ServiceID p = sv_ID s) (ot_paths db) \<noteq> []"
    "cat \<in> set OpticalServiceCategories \<Longrightarrow> counted db s"
  by (auto simp: counted_def Let_def assms[symmetric] OpticalServiceCategories_def filter_empty_conv)

lemma run_impactRows:
  "\<exists>rows. impactRowsFromServices src ss (db, []) = (Inr rows, (db, [])) \<and>
     map im_ServiceID rows = map sv_ID (filter (counted db) ss)"
proof (induction ss)
  case Nil
  then show ?case by (simp add: db_run)
next
  case (Cons s ss)
  then obtain rows where rows: "impactRowsFromServices src ss (db, []) = (Inr rows, (db, []))"
    "map im_ServiceID rows = map sv_ID (filter (counted db) ss)" by blast
  obtain name where name: "customerName s (db, []) = (Inr name, (db, []))" using run_customerName by blast
  define cat where "cat = CategoryFromServiceID (sv_ServiceID s)"
  note cc = counted_cases[OF cat_def]
  show ?case
    using rows name cc by (cases "cat = ''CN'' \<or> cat = ''CI''"; cases "cat = []"; cases "cat \<in> set OpticalServiceCategories"; cases "counted db s")
      (simp_all add: db_run Let_def cat_def[symmetric] impactRow_def)
qed

lemma run_ResourceImpact:
  assumes "distinct (map sv_ID (ot_services db))"
  shows "\<exists>rows. ResourceImpact rtype i (db, []) = (Inr rows, (db, [])) \<and>
     set (map im_ServiceID rows) = sv_ID ` {s \<in> set (ot_services db). counted db s \<and> touches db (rtype, i) s}"
proof (cases "rtype \<in> {''wavelength'', ''fiber''}")
  case True
  show ?thesis
  proof (cases "first_by sv_ID (\<lambda>s. sv_ID s = i) (ot_services db)")
    case None
    then have "sv_ID s \<noteq> i" if "s \<in> set (ot_services db)" for s using that by (simp add: first_by_None)
    then show ?thesis using True None by (auto simp: ResourceImpact_def serviceResourceImpact_def db_run touches_def)
  next
    case (Some s)
    have s: "s \<in> set (ot_services db)" "sv_ID s = i" using first_by_Some[OF Some] by auto
    have uniq: "s' = s" if "s' \<in> set (ot_services db)" "sv_ID s' = i" for s'
      using that s assms by (auto simp: distinct_map dest: inj_onD)
    have "touches db (rtype, i) s' \<longleftrightarrow> sv_ID s' = i" for s'
      unfolding touches_def prod.case if_P[OF True] ..
    then have "x \<in> set (ot_services db) \<and> counted db x \<and> touches db (rtype, i) x \<longleftrightarrow> x = s \<and> counted db s" for x
      using s uniq by metis
    then have sel: "{s \<in> set (ot_services db). counted db s \<and> touches db (rtype, i) s} = set (filter (counted db) [s])"
      by simp
    show ?thesis unfolding sel using True Some run_impactRows[of "''service''" "[s]" db]
      by (auto simp: ResourceImpact_def serviceResourceImpact_def db_run simp flip: set_map)
  qed
next
  case False
  let ?hops = "filter (hopsTouching rtype i) (ot_hops db)"
  have sel: "{s \<in> set (ot_services db). counted db s \<and> touches db (rtype, i) s} =
      set (filter (counted db) (filter (\<lambda>s. sv_ID s \<in> sh_ServiceID ` set ?hops) (ot_services db)))"
    using False by (auto simp: touches_def image_iff)
  show ?thesis
  proof (cases "rtype \<in> {''connection'', ''device'', ''interface''} \<and> ?hops \<noteq> []")
    case True
    let ?svcs = "filter (\<lambda>s. sv_ID s \<in> sh_ServiceID ` set ?hops) (ot_services db)"
    have "ResourceImpact rtype i (db, []) = impactRowsFromServices ''optical_hop'' ?svcs (db, [])"
      using True False by (simp add: ResourceImpact_def db_run)
    then show ?thesis unfolding sel
      using run_impactRows[of "''optical_hop''" ?svcs db] by (metis set_map)
  next
    case no: False
    then have "?hops = []" by (auto simp: hopsTouching_def filter_empty_conv)
    then show ?thesis unfolding sel using False by (auto simp: ResourceImpact_def db_run)
  qed
qed

lemma unionRows_spec:
  "unionRows seen rows = (seen', out) \<Longrightarrow> distinct (map im_ServiceID out) \<and> set (map im_ServiceID out) \<inter> set seen = {} \<and>
     set seen' = set seen \<union> set (map im_ServiceID rows) \<and> set seen' = set seen \<union> set (map im_ServiceID out)"
proof (induction rows arbitrary: seen seen' out)
  case (Cons r rows)
  show ?case
  proof (cases "im_ServiceID r \<in> set seen")
    case True
    then have "unionRows seen rows = (seen', out)" using Cons.prems by simp
    from Cons.IH[OF this] show ?thesis using True by auto
  next
    case False
    then obtain out' where u: "unionRows (im_ServiceID r # seen) rows = (seen', out')" "out = r # out'"
      using Cons.prems by (simp split: prod.splits)
    from Cons.IH[OF u(1)] show ?thesis using False u(2) by auto
  qed
qed simp

lemma union_diff:
  assumes "A = R \<union> B" "O' \<inter> S = {}" "S' = S \<union> R" "S' = S \<union> O'" "T = B - S'"
  shows "O' \<union> T = A - S"
  using assms by blast

lemma run_resourcesLoop:
  assumes "distinct (map sv_ID (ot_services db))"
  shows "\<exists>rows. resourcesLoop seen rs (db, []) = (Inr rows, (db, [])) \<and> distinct (map im_ServiceID rows) \<and>
     set (map im_ServiceID rows) = sv_ID ` {s \<in> set (ot_services db). counted db s \<and> (\<exists>r \<in> set rs. touches db r s)} - set seen"
proof (induction rs arbitrary: seen)
  case Nil
  then show ?case by (simp add: db_run)
next
  case (Cons r rs)
  obtain rtype i where r: "r = (rtype, i)" by (cases r)
  obtain rows where rows: "ResourceImpact rtype i (db, []) = (Inr rows, (db, []))"
    "set (map im_ServiceID rows) = sv_ID ` {s \<in> set (ot_services db). counted db s \<and> touches db (rtype, i) s}"
    using run_ResourceImpact[OF assms] by blast
  obtain seen' out where u: "unionRows seen rows = (seen', out)" by fastforce
  note us = unionRows_spec[OF u]
  obtain rest where rest: "resourcesLoop seen' rs (db, []) = (Inr rest, (db, []))" "distinct (map im_ServiceID rest)"
     "set (map im_ServiceID rest) = sv_ID ` {s \<in> set (ot_services db). counted db s \<and> (\<exists>r \<in> set rs. touches db r s)} - set seen'"
    using Cons.IH by blast
  have "resourcesLoop seen (r # rs) (db, []) = (Inr (out @ rest), (db, []))" by (simp add: r db_run rows u rest)
  moreover have "distinct (map im_ServiceID (out @ rest))" using us rest(2,3) by auto
  moreover have "set (map im_ServiceID (out @ rest)) =
      sv_ID ` {s \<in> set (ot_services db). counted db s \<and> (\<exists>r \<in> set (r # rs). touches db r s)} - set seen"
  proof -
    have "sv_ID ` {s \<in> set (ot_services db). counted db s \<and> (\<exists>r \<in> set (r # rs). touches db r s)} =
        set (map im_ServiceID rows) \<union> sv_ID ` {s \<in> set (ot_services db). counted db s \<and> (\<exists>r \<in> set rs. touches db r s)}"
      unfolding rows(2) r by auto
    from union_diff[OF this _ _ _ rest(3)] us show ?thesis unfolding map_append set_append by blast
  qed
  ultimately show ?case by blast
qed

text \<open>
  C34: The services reported for the resources of a maintenance window are exactly the services of optical category,
  and those with free-text names that have a path, that one of the resources touches: the wavelength or fiber service
  itself, or a hop of its path on the connection, chassis or interface. Each is reported once.
\<close>

theorem ResourcesImpact_exact:
  assumes "distinct (map sv_ID (ot_services db))"
  shows "\<exists>rows. ResourcesImpact resources (db, []) = (Inr rows, (db, [])) \<and> distinct (map im_ServiceID rows) \<and>
     im_ServiceID ` set rows = sv_ID ` {s \<in> set (ot_services db). counted db s \<and> (\<exists>r \<in> set resources. touches db r s)}"
  using run_resourcesLoop[OF assms, of "[]" resources] by (simp add: ResourcesImpact_def)

definition exampleOutage :: optical_db where
  "exampleOutage = exampleRoadm\<lparr>ot_services := [\<lparr>sv_ID = 7, sv_ServiceID = ''VL12345'', sv_CustomerID = 0, sv_ServiceType = []\<rparr>,
       \<lparr>sv_ID = 8, sv_ServiceID = ''CN12345'', sv_CustomerID = 0, sv_ServiceType = []\<rparr>],
     ot_hops := map (\<lambda>s. \<lparr>sh_ServiceID = s, sh_Seq = 1, sh_Kind = HopDevice, sh_InterfaceID = None, sh_ConnectionID = None, sh_XConnectID = None,
       sh_DeviceID = Some 1, sh_FreqHz = 0, sh_Label = []\<rparr>) [7, 8]\<rparr>"

lemma exampleOutage_run:
  "map_sum id (map im_ServiceID) (fst (ResourcesImpact [(''device'', 1), (''fiber'', 7)] (exampleOutage, []))) = Inr [7]"
  by code_simp

theorem ResourcesImpact_exact_witness:
  "distinct (map sv_ID (ot_services exampleOutage)) \<and>
   sv_ID ` {s \<in> set (ot_services exampleOutage). counted exampleOutage s \<and> (\<exists>r \<in> set [(''device'', 1), (''fiber'', 7)]. touches exampleOutage r s)} = {7}"
proof -
  have d: "distinct (map sv_ID (ot_services exampleOutage))" by (simp add: exampleOutage_def)
  obtain rows where "ResourcesImpact [(''device'', 1), (''fiber'', 7)] (exampleOutage, []) = (Inr rows, (exampleOutage, []))"
    "im_ServiceID ` set rows = sv_ID ` {s \<in> set (ot_services exampleOutage). counted exampleOutage s \<and>
       (\<exists>r \<in> set [(''device'', 1), (''fiber'', 7)]. touches exampleOutage r s)}"
    using ResourcesImpact_exact[OF d] by blast
  moreover from this(1) have "map im_ServiceID rows = [7]" using exampleOutage_run by (simp only: fst_conv map_sum.simps sum.inject)
  then have "set (map im_ServiceID rows) = {7}" by simp
  ultimately show ?thesis using d unfolding set_map by (simp only: simp_thms)
qed

end
