(* ===== verification/Dcim_Occupancy.thy ===== *)
theory Dcim_Occupancy
  imports Go_Db
begin

text \<open>
  Racks, device placements and floor plans, the data of \<open>models/dcim.go\<close>, and the occupancy of a rack,
  \<open>internal/dcim/occupancy.go\<close>. Go's \<open>int\<close> is 64 bits wide: sums and products are wrapped where they may leave
  that range. Conversions from and to fractional units are left out: they compute in floating point.

  Lemmas: the sweep of \<open>UtilizedTicks\<close> measures the union of the occupied intervals; \<open>ConflictsWith\<close> finds an
  overlap exactly when there is one.
\<close>

subsection \<open>Machine integers\<close>

definition wrap64 :: "int \<Rightarrow> int" where
  "wrap64 x = (x + 2 ^ 63) mod 2 ^ 64 - 2 ^ 63"

definition in64 :: "int \<Rightarrow> bool" where
  "in64 x \<longleftrightarrow> - (2 ^ 63) \<le> x \<and> x < 2 ^ 63"

lemma wrap64_in64 [simp]: "in64 (wrap64 x)"
proof -
  have "0 \<le> (x + 2 ^ 63) mod 2 ^ 64" "(x + 2 ^ 63) mod 2 ^ 64 < 2 ^ 64" by simp_all
  then show ?thesis unfolding in64_def wrap64_def by simp
qed

lemma wrap64_id: "in64 x \<Longrightarrow> wrap64 x = x"
  by (simp add: in64_def wrap64_def)

text \<open>Go's \<open>%\<close> takes the sign of the dividend.\<close>

definition go_mod :: "int \<Rightarrow> int \<Rightarrow> int" where
  "go_mod a b = (if a \<ge> 0 then a mod abs b else - ((- a) mod abs b))"

subsection \<open>Data\<close>

definition DCIMSourceFactum :: string where "DCIMSourceFactum = ''factum''"
definition DCIMSourceNetbox :: string where "DCIMSourceNetbox = ''netbox''"
definition RackNumberingAscending :: string where "RackNumberingAscending = ''ascending''"
definition RackNumberingDescending :: string where "RackNumberingDescending = ''descending''"
definition DeviceFaceFront :: string where "DeviceFaceFront = ''front''"
definition DeviceFaceRear :: string where "DeviceFaceRear = ''rear''"
definition FloorAnnotationLabel :: string where "FloorAnnotationLabel = ''label''"
definition FloorAnnotationAisle :: string where "FloorAnnotationAisle = ''aisle''"
definition FloorAnnotationZone :: string where "FloorAnnotationZone = ''zone''"

definition TicksPerU :: int where "TicksPerU = 2"

record Rack =
  rk_ID :: nat
  rk_SiteID :: nat
  rk_Name :: string
  rk_Source :: string
  rk_NetboxID :: nat
  rk_HeightU :: int
  rk_WidthMM :: int
  rk_DepthMM :: int
  rk_StartUnit :: int
  rk_Numbering :: string
  rk_Version :: int

definition rackBeforeCreate :: "Rack \<Rightarrow> Rack" where
  "rackBeforeCreate r = r\<lparr>rk_Source := (if rk_Source r = [] then DCIMSourceFactum else rk_Source r),
     rk_HeightU := (if rk_HeightU r = 0 then 42 else rk_HeightU r),
     rk_WidthMM := (if rk_WidthMM r = 0 then 600 else rk_WidthMM r),
     rk_DepthMM := (if rk_DepthMM r = 0 then 1000 else rk_DepthMM r),
     rk_StartUnit := (if rk_StartUnit r = 0 then 1 else rk_StartUnit r),
     rk_Numbering := (if rk_Numbering r = [] then RackNumberingAscending else rk_Numbering r),
     rk_Version := (if rk_Version r = 0 then 1 else rk_Version r)\<rparr>"

definition rackIsLocal :: "Rack \<Rightarrow> bool" where
  "rackIsLocal r \<longleftrightarrow> rk_Source r \<noteq> DCIMSourceNetbox"

definition rackHeightTicks :: "Rack \<Rightarrow> int" where
  "rackHeightTicks r = wrap64 (rk_HeightU r * TicksPerU)"

record DevicePlacement =
  dp_ID :: nat
  dp_DeviceID :: nat
  dp_RackID :: nat
  dp_OffsetTicks :: int
  dp_Face :: string
  dp_Source :: string
  dp_Version :: int
  dp_Conflict :: string

definition placementBeforeCreate :: "DevicePlacement \<Rightarrow> DevicePlacement" where
  "placementBeforeCreate p = p\<lparr>dp_Source := (if dp_Source p = [] then DCIMSourceFactum else dp_Source p),
     dp_Face := (if dp_Face p = [] then DeviceFaceFront else dp_Face p),
     dp_Version := (if dp_Version p = 0 then 1 else dp_Version p)\<rparr>"

definition placementIsLocal :: "DevicePlacement \<Rightarrow> bool" where
  "placementIsLocal p \<longleftrightarrow> dp_Source p \<noteq> DCIMSourceNetbox"

record DeviceType =
  ty_ID :: nat
  ty_ManufacturerID :: nat
  ty_Model :: string
  ty_Slug :: string
  ty_PlatformID :: nat
  ty_VM :: bool
  ty_HeightTicks :: "int option"
  ty_FullDepth :: "bool option"
  ty_FrontImage :: string
  ty_RearImage :: string

definition zeroDeviceType :: DeviceType where
  "zeroDeviceType = \<lparr>ty_ID = 0, ty_ManufacturerID = 0, ty_Model = [], ty_Slug = [], ty_PlatformID = 0, ty_VM = False,
     ty_HeightTicks = None, ty_FullDepth = None, ty_FrontImage = [], ty_RearImage = []\<rparr>"

subsection \<open>Occupancy\<close>

record Occupied =
  oc_DeviceID :: nat
  oc_Start :: int
  oc_End :: int
  oc_Front :: bool
  oc_Rear :: bool
  oc_FullDepth :: bool

definition DisplayUnit :: "int \<Rightarrow> int \<Rightarrow> int \<Rightarrow> string \<Rightarrow> int" where
  "DisplayUnit rackHeightU startUnit offsetU numbering =
     (let startUnit = (if startUnit \<le> 0 then 1 else startUnit)
      in if numbering = RackNumberingDescending then wrap64 (startUnit + rackHeightU - 1 - offsetU)
         else wrap64 (startUnit + offsetU))"

definition OccupiesFace :: "string \<Rightarrow> bool \<Rightarrow> string \<Rightarrow> bool" where
  "OccupiesFace face fullDepth queryFace \<longleftrightarrow> fullDepth \<or>
     (if face = [] then DeviceFaceFront else face) = (if queryFace = [] then DeviceFaceFront else queryFace)"

definition IntervalsOverlap :: "int \<Rightarrow> int \<Rightarrow> int \<Rightarrow> int \<Rightarrow> bool" where
  "IntervalsOverlap aStart aEnd bStart bEnd \<longleftrightarrow> aStart < bEnd \<and> bStart < aEnd"

definition PlacementInterval :: "int \<Rightarrow> int \<Rightarrow> int \<times> int" where
  "PlacementInterval offsetTicks heightTicks = (offsetTicks, wrap64 (offsetTicks + heightTicks))"

definition OutOfRack :: "int \<Rightarrow> int \<Rightarrow> int \<Rightarrow> bool" where
  "OutOfRack offsetTicks heightTicks rackTicks \<longleftrightarrow>
     (if offsetTicks < 0 \<or> heightTicks < 0 then True else wrap64 (offsetTicks + heightTicks) > rackTicks)"

definition occupiedOf :: "int \<Rightarrow> bool \<Rightarrow> DevicePlacement \<Rightarrow> Occupied" where
  "occupiedOf h full p = (let (start, stop) = PlacementInterval (dp_OffsetTicks p) h
     in \<lparr>oc_DeviceID = dp_DeviceID p, oc_Start = start, oc_End = stop,
         oc_Front = (full \<or> dp_Face p = DeviceFaceFront \<or> dp_Face p = []), oc_Rear = (full \<or> dp_Face p = DeviceFaceRear), oc_FullDepth = full\<rparr>)"

definition OccupancyFromPlacements :: "DevicePlacement list \<Rightarrow> (nat \<Rightarrow> int) \<Rightarrow> (nat \<Rightarrow> bool) \<Rightarrow> Occupied list" where
  "OccupancyFromPlacements placements heightFor fullDepthFor =
     map (\<lambda>p. occupiedOf (heightFor (dp_DeviceID p)) (fullDepthFor (dp_DeviceID p)) p)
       (filter (\<lambda>p. \<not> heightFor (dp_DeviceID p) \<le> 0) placements)"

fun ConflictsWith :: "Occupied list \<Rightarrow> nat \<Rightarrow> int \<Rightarrow> int \<Rightarrow> bool \<Rightarrow> bool \<Rightarrow> Occupied option" where
  "ConflictsWith [] deviceID start stop front rear = None"
| "ConflictsWith (o1 # os) deviceID start stop front rear =
     (if oc_DeviceID o1 = deviceID then ConflictsWith os deviceID start stop front rear
      else if \<not> IntervalsOverlap start stop (oc_Start o1) (oc_End o1) then ConflictsWith os deviceID start stop front rear
      else if front \<and> oc_Front o1 \<or> rear \<and> oc_Rear o1 then Some o1
      else ConflictsWith os deviceID start stop front rear)"

definition WholeUBoundary :: "int \<Rightarrow> int \<Rightarrow> bool" where
  "WholeUBoundary offsetTicks heightTicks \<longleftrightarrow> go_mod offsetTicks TicksPerU = 0 \<and> go_mod heightTicks TicksPerU = 0"

text \<open>The sweep of \<open>UtilizedTicks\<close>: marks where an interval starts (1) or ends (-1), sorted, and the covered length.\<close>

fun addMarks :: "int \<Rightarrow> Occupied list \<Rightarrow> (int \<times> int) list" where
  "addMarks rackTicks [] = []"
| "addMarks rackTicks (o1 # os) =
     (let start = (if oc_Start o1 < 0 then 0 else oc_Start o1); stop = (if oc_End o1 > rackTicks then rackTicks else oc_End o1)
      in if stop \<le> start then addMarks rackTicks os else (start, 1) # (stop, -1) # addMarks rackTicks os)"

definition markLess :: "int \<times> int \<Rightarrow> int \<times> int \<Rightarrow> bool" where
  "markLess a b \<longleftrightarrow> (if fst a = fst b then snd a < snd b else fst a < fst b)"

fun sweep :: "int \<Rightarrow> int \<Rightarrow> int \<Rightarrow> (int \<times> int) list \<Rightarrow> int" where
  "sweep cover depth prev [] = cover"
| "sweep cover depth prev ((at, d) # ms) = sweep (if depth > 0 then cover + (at - prev) else cover) (depth + d) at ms"

definition UtilizedTicks :: "Occupied list \<Rightarrow> int \<Rightarrow> int" where
  "UtilizedTicks occupied rackTicks =
     (if rackTicks \<le> 0 then 0 else sweep 0 0 0 (order_by markLess (addMarks rackTicks occupied)))"

subsection \<open>The union of the intervals\<close>

definition depthAt :: "(int \<times> int) list \<Rightarrow> int \<Rightarrow> int" where
  "depthAt ms t = (\<Sum>m \<leftarrow> ms. if fst m \<le> t then snd m else 0)"

lemma depthAt_simps [simp]:
  "depthAt [] t = 0" "depthAt (m # ms) t = (if fst m \<le> t then snd m else 0) + depthAt ms t"
  by (simp_all add: depthAt_def)

lemma depthAt_before: "\<forall>m \<in> set ms. t < fst m \<Longrightarrow> depthAt ms t = 0"
  by (induction ms) (auto simp: not_le)

lemma depthAt_insert: "depthAt (insert_by markLess m ms) t = depthAt (m # ms) t"
  by (induction ms) auto

lemma depthAt_order [simp]: "depthAt (order_by markLess ms) t = depthAt ms t"
  by (induction ms) (simp_all add: order_by_def depthAt_insert)

lemma sum_insert: "(\<Sum>m \<leftarrow> insert_by markLess m ms. snd m) = snd m + (\<Sum>m \<leftarrow> ms. snd m)"
  by (induction ms) auto

lemma sum_order [simp]: "(\<Sum>m \<leftarrow> order_by markLess ms. snd m) = (\<Sum>m \<leftarrow> ms. snd m)"
  by (induction ms) (simp_all add: order_by_def sum_insert)

lemma sorted_insert: "sorted (map fst ms) \<Longrightarrow> sorted (map fst (insert_by markLess m ms))"
  by (induction ms) (auto simp: markLess_def split: if_splits)

lemma sorted_order: "sorted (map fst (order_by markLess ms))"
  by (induction ms) (simp_all add: order_by_def sorted_insert)

lemma sweep_measures:
  assumes "sorted (map fst ms)" "\<And>m. m \<in> set ms \<Longrightarrow> prev \<le> fst m" "depth + (\<Sum>m \<leftarrow> ms. snd m) = 0"
  shows "finite {t. prev \<le> t \<and> 0 < depth + depthAt ms t} \<and>
    sweep cover depth prev ms = cover + int (card {t. prev \<le> t \<and> 0 < depth + depthAt ms t})"
  using assms
proof (induction cover depth prev ms rule: sweep.induct)
  case (1 cover depth prev)
  then show ?case by simp
next
  case (2 cover depth prev at d ms)
  let ?S = "{t. at \<le> t \<and> 0 < depth + d + depthAt ms t}"
  have later: "at \<le> fst m" if "m \<in> set ms" for m using 2(2) that by auto
  have IH: "finite ?S" "sweep (if 0 < depth then cover + (at - prev) else cover) (depth + d) at ms =
      (if 0 < depth then cover + (at - prev) else cover) + int (card ?S)"
    using 2 later by (auto simp: add.assoc)
  have le: "prev \<le> at" using 2(3)[of "(at, d)"] by simp
  have split: "{t. prev \<le> t \<and> 0 < depth + depthAt ((at, d) # ms) t} = (if 0 < depth then {prev..<at} else {}) \<union> ?S"
  proof (intro set_eqI)
    fix t
    have "depthAt ms t = 0" if "t < at" using later that by (intro depthAt_before) force
    then show "t \<in> {t. prev \<le> t \<and> 0 < depth + depthAt ((at, d) # ms) t} \<longleftrightarrow> t \<in> (if 0 < depth then {prev..<at} else {}) \<union> ?S"
      using le by (cases "t < at") (auto simp: add.assoc)
  qed
  have "(if 0 < depth then {prev..<at} else {}) \<inter> ?S = {}" by auto
  then have "card ((if 0 < depth then {prev..<at} else {}) \<union> ?S) = (if 0 < depth then nat (at - prev) else 0) + card ?S"
    using IH(1) by (subst card_Un_disjoint) auto
  then show ?case unfolding split using IH le by auto
qed

lemma depthAt_marks:
  "depthAt (addMarks rt os) t = int (length (filter (\<lambda>o1. oc_Start o1 \<le> t \<and> t < oc_End o1 \<and> 0 \<le> t \<and> t < rt) os))"
  by (induction os) (auto simp: Let_def)

lemma sum_marks: "(\<Sum>m \<leftarrow> addMarks rt os. snd m) = 0"
  by (induction os) (auto simp: Let_def)

lemma marks_nonneg: "m \<in> set (addMarks rt os) \<Longrightarrow> 0 \<le> fst m"
  by (induction os) (auto simp: Let_def split: if_splits)

text \<open>
  C35: The utilisation of a rack is the number of its ticks that some device occupies on either face: the sweep over
  sorted interval bounds measures the union of the intervals, cut to the rack, however they overlap or nest.
\<close>

theorem UtilizedTicks_union:
  "UtilizedTicks occ rackTicks = int (card {t. 0 \<le> t \<and> t < rackTicks \<and> (\<exists>o1 \<in> set occ. oc_Start o1 \<le> t \<and> t < oc_End o1)})"
proof (cases "rackTicks \<le> 0")
  case True
  then have "{t. 0 \<le> t \<and> t < rackTicks \<and> (\<exists>o1 \<in> set occ. oc_Start o1 \<le> t \<and> t < oc_End o1)} = {}" by auto
  then show ?thesis using True by (simp add: UtilizedTicks_def)
next
  case False
  let ?ms = "order_by markLess (addMarks rackTicks occ)"
  have "sweep 0 0 0 ?ms = 0 + int (card {t. 0 \<le> t \<and> 0 < 0 + depthAt ?ms t})"
    using sweep_measures[OF sorted_order, of "addMarks rackTicks occ" 0 0 0] marks_nonneg sum_marks by auto
  moreover have "{t. 0 \<le> t \<and> 0 < 0 + depthAt ?ms t} =
      {t. 0 \<le> t \<and> t < rackTicks \<and> (\<exists>o1 \<in> set occ. oc_Start o1 \<le> t \<and> t < oc_End o1)}"
    by (auto simp: depthAt_marks length_greater_0_conv filter_empty_conv)
  ultimately show ?thesis using False by (simp add: UtilizedTicks_def)
qed

lemma ConflictsWith_None:
  "ConflictsWith os d start stop front rear = None \<longleftrightarrow>
     (\<forall>o1 \<in> set os. oc_DeviceID o1 = d \<or> \<not> IntervalsOverlap start stop (oc_Start o1) (oc_End o1) \<or> \<not> (front \<and> oc_Front o1 \<or> rear \<and> oc_Rear o1))"
  by (induction os) auto

end
