(* ===== verification/Dcim_Rack.thy ===== *)
theory Dcim_Rack
  imports Dcim_Occupancy
begin

text \<open>
  Mounting devices in racks, \<open>internal/dcim/placement.go\<close>, the sites of a device, \<open>site.go\<close>, editing racks,
  \<open>rack.go\<close>, and the checked update of a device type, \<open>ApiDeviceTypeUpdateChecked\<close> in \<open>web/handle_dcim_racks.go\<close>.
  Row locks are left out: statements of other clients are not interleaved.

  Lemmas: no operation makes two devices overlap on a face of a rack or leaves a device outside its rack, whatever
  statements fail, as long as offsets and heights are not near the limits of a machine integer; at those limits a
  placement far outside the rack is accepted.
\<close>

subsection \<open>Tables\<close>

record DcDevice =
  dv_ID :: nat
  dv_SiteID :: nat
  dv_NetboxID :: nat
  dv_VM :: bool
  dv_DeviceTypeID :: nat

record Site =
  si_ID :: nat
  si_Name :: string
  si_NetboxKind :: string
  si_NetboxID :: nat

record FloorPlan =
  fl_ID :: nat
  fl_SiteID :: nat
  fl_Name :: string
  fl_WidthMM :: int
  fl_HeightMM :: int
  fl_GridMM :: int
  fl_Revision :: int

record FloorPlanRack =
  fr_ID :: nat
  fr_FloorPlanID :: nat
  fr_RackID :: nat
  fr_XMM :: int
  fr_YMM :: int
  fr_Rotation :: int

record FloorPlanAnnotation =
  fa_ID :: nat
  fa_FloorPlanID :: nat
  fa_Kind :: string
  fa_Text :: string
  fa_XMM :: int
  fa_YMM :: int
  fa_WidthMM :: int
  fa_HeightMM :: int
  fa_Rotation :: int

record dcim_db =
  dc_sites :: "Site list"
  dc_devices :: "DcDevice list"
  dc_types :: "DeviceType list"
  dc_racks :: "Rack list"
  dq_racks :: nat
  dc_placements :: "DevicePlacement list"
  dq_placements :: nat
  dc_plans :: "FloorPlan list"
  dq_plans :: nat
  dc_planracks :: "FloorPlanRack list"
  dq_planracks :: nat
  dc_annotations :: "FloorPlanAnnotation list"
  dq_annotations :: nat

type_synonym 'a dcim = "(dcim_db, 'a) dbm"

definition dcim_rollback :: "dcim_db \<Rightarrow> dcim_db \<Rightarrow> dcim_db" where
  "dcim_rollback db db' = db\<lparr>dq_racks := max (dq_racks db) (dq_racks db'), dq_placements := max (dq_placements db) (dq_placements db'),
     dq_plans := max (dq_plans db) (dq_plans db'), dq_planracks := max (dq_planracks db) (dq_planracks db'),
     dq_annotations := max (dq_annotations db) (dq_annotations db')\<rparr>"

text \<open>\<open>Take\<close> returns some matching row; here the first one of the table.\<close>

definition Take :: "('db \<Rightarrow> 'r list) \<Rightarrow> ('r \<Rightarrow> bool) \<Rightarrow> ('db, 'r) dbm" where
  "Take tbl P = stmt (\<lambda>db. (case find P (tbl db) of None \<Rightarrow> Inl RecordNotFound | Some r \<Rightarrow> Inr r, db))"

definition insertPlacement :: "DevicePlacement \<Rightarrow> DevicePlacement dcim" where
  "insertPlacement p = stmt (\<lambda>db. let p' = (placementBeforeCreate p)\<lparr>dp_ID := dq_placements db\<rparr> in
     if list_ex (\<lambda>q. dp_DeviceID q = dp_DeviceID p) (dc_placements db)
     then (Inl uniqueViolation, db\<lparr>dq_placements := Suc (dq_placements db)\<rparr>)
     else (Inr p', db\<lparr>dc_placements := dc_placements db @ [p'], dq_placements := Suc (dq_placements db)\<rparr>))"

definition savePlacement :: "DevicePlacement \<Rightarrow> unit dcim" where
  "savePlacement p = stmt (\<lambda>db. (Inr (), db\<lparr>dc_placements := map (\<lambda>q. if dp_ID q = dp_ID p then p else q) (dc_placements db)\<rparr>))"

definition deletePlacement :: "nat \<Rightarrow> unit dcim" where
  "deletePlacement i = stmt (\<lambda>db. (Inr (), db\<lparr>dc_placements := filter (\<lambda>q. dp_ID q \<noteq> i) (dc_placements db)\<rparr>))"

definition insertRack :: "Rack \<Rightarrow> Rack dcim" where
  "insertRack r = stmt (\<lambda>db. let r' = (rackBeforeCreate r)\<lparr>rk_ID := dq_racks db\<rparr> in
     (Inr r', db\<lparr>dc_racks := dc_racks db @ [r'], dq_racks := Suc (dq_racks db)\<rparr>))"

definition saveRack :: "Rack \<Rightarrow> unit dcim" where
  "saveRack r = stmt (\<lambda>db. (Inr (), db\<lparr>dc_racks := map (\<lambda>q. if rk_ID q = rk_ID r then r else q) (dc_racks db)\<rparr>))"

definition deleteRackRow :: "nat \<Rightarrow> unit dcim" where
  "deleteRackRow i = stmt (\<lambda>db. (Inr (), db\<lparr>dc_racks := filter (\<lambda>q. rk_ID q \<noteq> i) (dc_racks db)\<rparr>))"

definition deletePlanRacks :: "(FloorPlanRack \<Rightarrow> bool) \<Rightarrow> unit dcim" where
  "deletePlanRacks P = stmt (\<lambda>db. (Inr (), db\<lparr>dc_planracks := filter (\<lambda>q. \<not> P q) (dc_planracks db)\<rparr>))"

definition saveDeviceType :: "DeviceType \<Rightarrow> unit dcim" where
  "saveDeviceType t = stmt (\<lambda>db. (Inr (), db\<lparr>dc_types := map (\<lambda>q. if ty_ID q = ty_ID t then t else q) (dc_types db)\<rparr>))"

subsection \<open>Errors\<close>

definition ReasonOverlap :: string where "ReasonOverlap = ''overlap''"
definition ReasonOutOfBounds :: string where "ReasonOutOfBounds = ''out_of_bounds''"
definition ReasonImportedReadOnly :: string where "ReasonImportedReadOnly = ''imported_read_only''"
definition ReasonStaleVersion :: string where "ReasonStaleVersion = ''stale_version''"
definition ReasonUnknownDimensions :: string where "ReasonUnknownDimensions = ''unknown_dimensions''"
definition ReasonNotFound :: string where "ReasonNotFound = ''not_found''"
definition ReasonInvalid :: string where "ReasonInvalid = ''invalid''"
definition ReasonConflict :: string where "ReasonConflict = ''conflict''"

text \<open>A lookup whose missing row becomes a domain error, and one where any error does.\<close>

definition orNotFound :: "go_error \<Rightarrow> ('db, 'a) dbm \<Rightarrow> ('db, 'a) dbm" where
  "orNotFound err m = dcase m (\<lambda>r. case r of Inr a \<Rightarrow> dret a | Inl e \<Rightarrow> dfail (if e = RecordNotFound then err else e))"

definition orErr :: "go_error \<Rightarrow> ('db, 'a) dbm \<Rightarrow> ('db, 'a) dbm" where
  "orErr err m = dcase m (\<lambda>r. case r of Inr a \<Rightarrow> dret a | Inl e \<Rightarrow> dfail err)"

definition rackNotFound :: go_error where "rackNotFound = ReasonErr 404 ReasonNotFound ''rack not found''"

subsection \<open>Sites of a device\<close>

definition SiteNetboxKindSite :: string where "SiteNetboxKindSite = ''site''"

definition addID :: "nat \<Rightarrow> nat list \<Rightarrow> nat list" where
  "addID i ids = (if i = 0 \<or> i \<in> set ids then ids else ids @ [i])"

text \<open>A lookup whose error is ignored.\<close>

definition orElse :: "'b \<Rightarrow> ('a \<Rightarrow> 'b) \<Rightarrow> 'a dcim \<Rightarrow> 'b dcim" where
  "orElse d f m = dcase m (\<lambda>r. dret (case r of Inr a \<Rightarrow> f a | Inl _ \<Rightarrow> d))"

definition LocalSiteIDsForDevice :: "DcDevice \<Rightarrow> nat list dcim" where
  "LocalSiteIDsForDevice device =
     dbind (if dv_SiteID device \<noteq> 0 then
              dbind (orElse [] (\<lambda>s. addID (si_ID s) []) (First si_ID dc_sites (\<lambda>s. si_ID s = dv_SiteID device))) (\<lambda>ids.
              if dv_NetboxID device \<noteq> 0 then
                orElse ids (\<lambda>s. addID (si_ID s) ids)
                  (Take dc_sites (\<lambda>s. si_NetboxKind s = SiteNetboxKindSite \<and> si_NetboxID s = dv_SiteID device))
              else dret ids)
            else dret []) (\<lambda>ids.
     dcase (Take dc_placements (\<lambda>p. dp_DeviceID p = dv_ID device)) (\<lambda>r. case r of
         Inl _ \<Rightarrow> dret ids
       | Inr p \<Rightarrow> orElse ids (\<lambda>rack. addID (rk_SiteID rack) ids) (First rk_ID dc_racks (\<lambda>k. rk_ID k = dp_RackID p))))"

definition DeviceAtLocalSite :: "DcDevice \<Rightarrow> nat \<Rightarrow> bool dcim" where
  "DeviceAtLocalSite device siteID = dbind (LocalSiteIDsForDevice device) (\<lambda>ids. dret (siteID \<in> set ids))"

subsection \<open>Placements\<close>

record PlaceRequest =
  pr_DeviceID :: nat
  pr_RackID :: nat
  pr_OffsetTicks :: int
  pr_Face :: string
  pr_Version :: int

definition lockOrder :: "nat list \<Rightarrow> nat list" where
  "lockOrder ids = sort (remdups (filter (\<lambda>i. i \<noteq> 0) ids))"

definition lockRacks :: "nat list \<Rightarrow> unit dcim" where
  "lockRacks ids = dbind (dfor (lockOrder ids) (\<lambda>i. orNotFound rackNotFound (First rk_ID dc_racks (\<lambda>r. rk_ID r = i)))) (\<lambda>_. dret ())"

definition lockDevice :: "nat \<Rightarrow> DcDevice dcim" where
  "lockDevice i = orNotFound (ReasonErr 404 ReasonNotFound ''device not found'') (First dv_ID dc_devices (\<lambda>d. dv_ID d = i))"

definition loadType :: "nat \<Rightarrow> DeviceType dcim" where
  "loadType i = (if i = 0 then dret zeroDeviceType else First ty_ID dc_types (\<lambda>t. ty_ID t = i))"

text \<open>The height, the depth, and whether they are known.\<close>

definition heightAndDepth :: "DeviceType \<Rightarrow> int \<times> bool \<times> bool" where
  "heightAndDepth dt =
     (case ty_HeightTicks dt of
        None \<Rightarrow> (0, False, False)
      | Some h \<Rightarrow> (if h < 0 then 0 else h, case ty_FullDepth dt of Some full \<Rightarrow> full | None \<Rightarrow> False, True))"

definition existingPlacement :: "nat \<Rightarrow> DevicePlacement option dcim" where
  "existingPlacement deviceID = dcase (Take dc_placements (\<lambda>p. dp_DeviceID p = deviceID)) (\<lambda>r. case r of
     Inr p \<Rightarrow> dret (Some p) | Inl e \<Rightarrow> if e = RecordNotFound then dret None else dfail e)"

text \<open>Maps built by a loop over rows: a later row of a key replaces an earlier one.\<close>

definition mapBy :: "('r \<Rightarrow> 'k) \<Rightarrow> ('r \<Rightarrow> 'v) \<Rightarrow> 'r list \<Rightarrow> 'k \<Rightarrow> 'v option" where
  "mapBy k v rows = fold (\<lambda>r m. m(k r \<mapsto> v r)) rows Map.empty"

definition occupancyMaps :: "nat \<Rightarrow> (DevicePlacement list \<times> (nat \<Rightarrow> int option) \<times> (nat \<Rightarrow> bool option)) dcim" where
  "occupancyMaps rackID =
     dbind (Find dc_placements (\<lambda>p. dp_RackID p = rackID)) (\<lambda>placements.
     if placements = [] then dret (placements, Map.empty, Map.empty)
     else
       dbind (Find dc_devices (\<lambda>d. dv_ID d \<in> dp_DeviceID ` set placements)) (\<lambda>devices.
       let typeByDev = mapBy dv_ID dv_DeviceTypeID devices; typeIDs = filter (\<lambda>i. i \<noteq> 0) (map dv_DeviceTypeID devices)
       in dbind (if typeIDs \<noteq> [] then Find dc_types (\<lambda>t. ty_ID t \<in> set typeIDs) else dret []) (\<lambda>types.
       let typeByID = mapBy ty_ID (\<lambda>t. t) types;
           typeOf = (\<lambda>d. case typeByID (case typeByDev (dv_ID d) of Some i \<Rightarrow> i | None \<Rightarrow> 0) of Some t \<Rightarrow> t | None \<Rightarrow> zeroDeviceType);
           known = filter (\<lambda>d. snd (snd (heightAndDepth (typeOf d)))) devices
       in dret (placements, mapBy dv_ID (\<lambda>d. fst (heightAndDepth (typeOf d))) known,
                mapBy dv_ID (\<lambda>d. fst (snd (heightAndDepth (typeOf d)))) known))))"

definition validateSlot :: "Rack \<Rightarrow> int \<Rightarrow> int \<Rightarrow> bool \<Rightarrow> unit dcim" where
  "validateSlot rack offsetTicks heightTicks localEditor =
     dbind (dguard (\<not> heightTicks \<le> 0) (ReasonErr 400 ReasonUnknownDimensions ''device height is unknown or zero-U'')) (\<lambda>_.
     dbind (dguard (\<not> OutOfRack offsetTicks heightTicks (rackHeightTicks rack)) (ReasonErr 400 ReasonOutOfBounds ''placement is outside the rack'')) (\<lambda>_.
     dguard (\<not> (localEditor \<and> \<not> WholeUBoundary offsetTicks heightTicks)) (ReasonErr 400 ReasonInvalid ''local placements must sit on whole-U boundaries'')))"

definition getInt :: "(nat \<Rightarrow> int option) \<Rightarrow> nat \<Rightarrow> int" where
  "getInt m i = (case m i of Some h \<Rightarrow> h | None \<Rightarrow> 0)"

definition getBool :: "(nat \<Rightarrow> bool option) \<Rightarrow> nat \<Rightarrow> bool" where
  "getBool m i = (case m i of Some b \<Rightarrow> b | None \<Rightarrow> False)"

definition slotFree :: "Occupied list \<Rightarrow> nat \<Rightarrow> int \<Rightarrow> int \<Rightarrow> string \<Rightarrow> bool \<Rightarrow> bool" where
  "slotFree occ deviceID offsetTicks heightTicks face fullDepth \<longleftrightarrow>
     (case PlacementInterval offsetTicks heightTicks of (start, stop) \<Rightarrow>
        ConflictsWith occ deviceID start stop (OccupiesFace face fullDepth DeviceFaceFront) (OccupiesFace face fullDepth DeviceFaceRear) = None)"

definition checkOccupancy :: "Rack \<Rightarrow> nat \<Rightarrow> int \<Rightarrow> int \<Rightarrow> string \<Rightarrow> bool \<Rightarrow> unit dcim" where
  "checkOccupancy rack deviceID offsetTicks heightTicks face fullDepth =
     dbind (occupancyMaps (rk_ID rack)) (\<lambda>(placements, heights, depths).
     let occ = OccupancyFromPlacements placements (getInt heights) (getBool depths)
     in dguard (slotFree occ deviceID offsetTicks heightTicks face fullDepth) (ReasonErr 409 ReasonOverlap ''placement overlaps another device''))"

text \<open>The checks of \<open>Place\<close> up to the write: the placement to replace, if any.\<close>

definition placeChecks :: "PlaceRequest \<Rightarrow> DevicePlacement option dcim" where
  "placeChecks req =
     dbind (existingPlacement (pr_DeviceID req)) (\<lambda>cur.
     dbind (lockRacks [case cur of Some p \<Rightarrow> dp_RackID p | None \<Rightarrow> 0, pr_RackID req]) (\<lambda>_.
     dbind (lockDevice (pr_DeviceID req)) (\<lambda>device.
     dbind (dguard (\<not> dv_VM device) (ReasonErr 400 ReasonInvalid ''virtual machines cannot be racked'')) (\<lambda>_.
     dbind (existingPlacement (pr_DeviceID req)) (\<lambda>cur.
     dbind (dguard (case cur of Some p \<Rightarrow> placementIsLocal p | None \<Rightarrow> True)
       (ReasonErr 403 ReasonImportedReadOnly ''imported placements cannot be edited here'')) (\<lambda>_.
     dbind (dguard (case cur of Some p \<Rightarrow> \<not> (pr_Version req \<noteq> 0 \<and> dp_Version p \<noteq> pr_Version req) | None \<Rightarrow> True)
       (ReasonErr 409 ReasonStaleVersion ''placement was changed by another editor'')) (\<lambda>_.
     dbind (orNotFound rackNotFound (First rk_ID dc_racks (\<lambda>r. rk_ID r = pr_RackID req))) (\<lambda>rack.
     dbind (DeviceAtLocalSite device (rk_SiteID rack)) (\<lambda>ok.
     dbind (dguard (\<not> (\<not> ok \<and> dv_SiteID device \<noteq> 0)) (ReasonErr 400 ReasonInvalid ''device is not at this rack's site'')) (\<lambda>_.
     dbind (dcase (loadType (dv_DeviceTypeID device)) (\<lambda>r. case r of
         Inr dt \<Rightarrow> dret dt | Inl e \<Rightarrow> if e = RecordNotFound then dret zeroDeviceType else dfail e)) (\<lambda>dt.
     case heightAndDepth dt of (height, full, known) \<Rightarrow>
     dbind (dguard (\<not> (\<not> known \<or> height = 0)) (ReasonErr 400 ReasonUnknownDimensions ''device type height is unknown'')) (\<lambda>_.
     dbind (validateSlot rack (pr_OffsetTicks req) height True) (\<lambda>_.
     dbind (checkOccupancy rack (pr_DeviceID req) (pr_OffsetTicks req) height (pr_Face req) full) (\<lambda>_.
     dret cur))))))))))))))"

definition placeTx :: "PlaceRequest \<Rightarrow> DevicePlacement dcim" where
  "placeTx req =
     dbind (placeChecks req) (\<lambda>cur. case cur of
         None \<Rightarrow> insertPlacement \<lparr>dp_ID = 0, dp_DeviceID = pr_DeviceID req, dp_RackID = pr_RackID req, dp_OffsetTicks = pr_OffsetTicks req,
                   dp_Face = pr_Face req, dp_Source = DCIMSourceFactum, dp_Version = 1, dp_Conflict = []\<rparr>
       | Some p \<Rightarrow>
           let p' = p\<lparr>dp_RackID := pr_RackID req, dp_OffsetTicks := pr_OffsetTicks req, dp_Face := pr_Face req, dp_Version := wrap64 (dp_Version p + 1)\<rparr>
           in dbind (savePlacement p') (\<lambda>_. dret p'))"

definition Place :: "PlaceRequest \<Rightarrow> DevicePlacement dcim" where
  "Place req0 =
     (let req = req0\<lparr>pr_Face := (if pr_Face req0 = [] then DeviceFaceFront else pr_Face req0)\<rparr>
      in dbind (dguard (\<not> (pr_Face req \<noteq> DeviceFaceFront \<and> pr_Face req \<noteq> DeviceFaceRear)) (ReasonErr 400 ReasonInvalid ''face must be front or rear'')) (\<lambda>_.
         transaction dcim_rollback (placeTx req)))"

definition unmountTx :: "nat \<Rightarrow> int \<Rightarrow> unit dcim" where
  "unmountTx deviceID version =
     (let notPlaced = ReasonErr 404 ReasonNotFound ''device is not placed''
      in dbind (existingPlacement deviceID) (\<lambda>cur. case cur of None \<Rightarrow> dfail notPlaced | Some p \<Rightarrow>
         dbind (lockRacks [dp_RackID p]) (\<lambda>_.
         dbind (lockDevice deviceID) (\<lambda>_.
         dbind (existingPlacement deviceID) (\<lambda>cur. case cur of None \<Rightarrow> dfail notPlaced | Some p \<Rightarrow>
         dbind (dguard (placementIsLocal p) (ReasonErr 403 ReasonImportedReadOnly ''imported placements cannot be edited here'')) (\<lambda>_.
         dbind (dguard (\<not> (version \<noteq> 0 \<and> dp_Version p \<noteq> version)) (ReasonErr 409 ReasonStaleVersion ''placement was changed by another editor'')) (\<lambda>_.
         deletePlacement (dp_ID p))))))))"

definition Unmount :: "nat \<Rightarrow> int \<Rightarrow> unit dcim" where
  "Unmount deviceID version = transaction dcim_rollback (unmountTx deviceID version)"

subsection \<open>Resizing\<close>

definition ValidateRackHeight :: "Rack \<Rightarrow> int \<Rightarrow> unit dcim" where
  "ValidateRackHeight rack newHeightU =
     dbind (dguard (\<not> newHeightU \<le> 0) (ReasonErr 400 ReasonInvalid ''rack height must be at least 1U'')) (\<lambda>_.
     dbind (occupancyMaps (rk_ID rack)) (\<lambda>(placements, heights, _).
     dguard (\<not> list_ex (\<lambda>p. let h = getInt heights (dp_DeviceID p)
         in \<not> h \<le> 0 \<and> OutOfRack (dp_OffsetTicks p) h (wrap64 (newHeightU * TicksPerU))) placements)
       (ReasonErr 400 ReasonOutOfBounds ''existing placement would fall outside the shorter rack'')))"

text \<open>One rack of \<open>ValidateDeviceTypeResize\<close>: the placements of the type in it with their new size.\<close>

definition resizeRack :: "int \<Rightarrow> bool \<Rightarrow> DevicePlacement list \<Rightarrow> nat \<Rightarrow> unit dcim" where
  "resizeRack height full placements rackID =
     (let mine = filter (\<lambda>p. dp_RackID p = rackID) placements
      in dbind (First rk_ID dc_racks (\<lambda>r. rk_ID r = rackID)) (\<lambda>rack.
         dbind (occupancyMaps rackID) (\<lambda>(all, heights, depths).
         dbind (dfor mine (\<lambda>p. validateSlot rack (dp_OffsetTicks p) height (placementIsLocal p))) (\<lambda>_.
         let ids = dp_DeviceID ` set mine;
             occ = OccupancyFromPlacements all (\<lambda>i. if i \<in> ids then height else getInt heights i) (\<lambda>i. if i \<in> ids then full else getBool depths i)
         in dguard (list_all (\<lambda>p. slotFree occ (dp_DeviceID p) (dp_OffsetTicks p) height (dp_Face p) full) mine)
              (ReasonErr 409 ReasonOverlap ''new device type size overlaps another device'')))))"

text \<open>The racks are visited in map order in the source, which only decides which error is reported.\<close>

definition ValidateDeviceTypeResize :: "nat \<Rightarrow> int option \<Rightarrow> bool option \<Rightarrow> unit dcim" where
  "ValidateDeviceTypeResize typeID newHeight newFull =
     (if typeID = 0 then dret ()
      else
        dbind (Find dc_devices (\<lambda>d. dv_DeviceTypeID d = typeID)) (\<lambda>devices.
        if devices = [] then dret ()
        else
          dbind (Find dc_placements (\<lambda>p. dp_DeviceID p \<in> dv_ID ` set devices)) (\<lambda>placements.
          if placements = [] then dret ()
          else
            dbind (First ty_ID dc_types (\<lambda>t. ty_ID t = typeID)) (\<lambda>dt.
            case heightAndDepth dt of (height0, full0, known0) \<Rightarrow>
            let height = (case newHeight of Some h \<Rightarrow> h | None \<Rightarrow> height0); known = (newHeight \<noteq> None \<or> known0);
                full = (case newFull of Some f \<Rightarrow> f | None \<Rightarrow> full0)
            in if \<not> known then dret ()
               else if height = 0 then dfail (ReasonErr 400 ReasonUnknownDimensions ''placed devices cannot shrink to zero-U'')
               else dbind (dfor (remdups (map dp_RackID placements)) (resizeRack height full placements)) (\<lambda>_. dret ())))))"

record DeviceTypeDTO =
  td_ManufacturerID :: nat
  td_Model :: string
  td_Slug :: string
  td_PlatformID :: nat
  td_VM :: bool
  td_HeightTicks :: "int option"
  td_FullDepth :: "bool option"
  td_FrontImage :: string
  td_RearImage :: string

definition ApiDeviceTypeUpdateChecked :: "nat \<Rightarrow> DeviceTypeDTO \<Rightarrow> DeviceType dcim" where
  "ApiDeviceTypeUpdateChecked i dto =
     dbind (ValidateDeviceTypeResize i (td_HeightTicks dto) (td_FullDepth dto)) (\<lambda>_.
     dbind (orNotFound (StatusErr 404 ''Record not found'') (First ty_ID dc_types (\<lambda>t. ty_ID t = i))) (\<lambda>row.
     let row' = row\<lparr>ty_ManufacturerID := (if td_ManufacturerID dto \<noteq> 0 then td_ManufacturerID dto else ty_ManufacturerID row),
           ty_Model := (if TrimSpace (td_Model dto) \<noteq> [] then TrimSpace (td_Model dto) else ty_Model row),
           ty_Slug := td_Slug dto, ty_PlatformID := td_PlatformID dto, ty_VM := td_VM dto,
           ty_HeightTicks := td_HeightTicks dto, ty_FullDepth := td_FullDepth dto,
           ty_FrontImage := (if td_FrontImage dto \<noteq> [] then td_FrontImage dto else ty_FrontImage row),
           ty_RearImage := (if td_RearImage dto \<noteq> [] then td_RearImage dto else ty_RearImage row)\<rparr>
     in dbind (saveDeviceType row') (\<lambda>_. dret row')))"

subsection \<open>Racks\<close>

record RackWrite =
  rw_SiteID :: nat
  rw_Name :: string
  rw_HeightU :: int
  rw_WidthMM :: int
  rw_DepthMM :: int
  rw_StartUnit :: int
  rw_Numbering :: string
  rw_Version :: int

definition numberingOK :: "string \<Rightarrow> bool" where
  "numberingOK s \<longleftrightarrow> \<not> (s \<noteq> RackNumberingAscending \<and> s \<noteq> RackNumberingDescending)"

definition CreateRack :: "RackWrite \<Rightarrow> Rack dcim" where
  "CreateRack w =
     (let name = TrimSpace (rw_Name w); inval = ReasonErr 400 ReasonInvalid;
          numbering = (if rw_Numbering w = [] then RackNumberingAscending else rw_Numbering w)
      in dbind (dguard (name \<noteq> []) (inval ''name is required'')) (\<lambda>_.
         dbind (dguard (rw_SiteID w \<noteq> 0) (inval ''site_id is required'')) (\<lambda>_.
         dbind (orErr (inval ''site not found'') (First si_ID dc_sites (\<lambda>s. si_ID s = rw_SiteID w))) (\<lambda>_.
         dbind (dguard (numberingOK numbering) (inval ''numbering must be ascending or descending'')) (\<lambda>_.
         insertRack \<lparr>rk_ID = 0, rk_SiteID = rw_SiteID w, rk_Name = name, rk_Source = DCIMSourceFactum, rk_NetboxID = 0, rk_HeightU = rw_HeightU w,
           rk_WidthMM = rw_WidthMM w, rk_DepthMM = rw_DepthMM w, rk_StartUnit = rw_StartUnit w, rk_Numbering = numbering, rk_Version = 0\<rparr>)))))"

definition UpdateRack :: "nat \<Rightarrow> RackWrite \<Rightarrow> Rack dcim" where
  "UpdateRack i w =
     dbind (orNotFound rackNotFound (First rk_ID dc_racks (\<lambda>r. rk_ID r = i))) (\<lambda>r.
     let name = TrimSpace (rw_Name w); inval = ReasonErr 400 ReasonInvalid;
         height = (if rw_HeightU w = 0 then rk_HeightU r else rw_HeightU w);
         numbering = (if rw_Numbering w = [] then rk_Numbering r else rw_Numbering w)
     in dbind (dguard (rackIsLocal r) (ReasonErr 403 ReasonImportedReadOnly ''imported racks cannot be edited here'')) (\<lambda>_.
        dbind (dguard (\<not> (rw_Version w \<noteq> 0 \<and> rk_Version r \<noteq> rw_Version w)) (ReasonErr 409 ReasonStaleVersion ''rack was changed by another editor'')) (\<lambda>_.
        dbind (dguard (name \<noteq> []) (inval ''name is required'')) (\<lambda>_.
        dbind (dguard (\<not> (rw_SiteID w \<noteq> 0 \<and> rw_SiteID w \<noteq> rk_SiteID r)) (inval ''move the rack with an explicit inventory operation, not a rack edit'')) (\<lambda>_.
        dbind (ValidateRackHeight r height) (\<lambda>_.
        dbind (dguard (numberingOK numbering) (inval ''numbering must be ascending or descending'')) (\<lambda>_.
        let r' = r\<lparr>rk_Name := name, rk_HeightU := height, rk_WidthMM := (if rw_WidthMM w \<noteq> 0 then rw_WidthMM w else rk_WidthMM r),
              rk_DepthMM := (if rw_DepthMM w \<noteq> 0 then rw_DepthMM w else rk_DepthMM r),
              rk_StartUnit := (if rw_StartUnit w \<noteq> 0 then rw_StartUnit w else rk_StartUnit r),
              rk_Numbering := numbering, rk_Version := wrap64 (rk_Version r + 1)\<rparr>
        in dbind (saveRack r') (\<lambda>_. dret r'))))))))"

definition DeleteRack :: "nat \<Rightarrow> unit dcim" where
  "DeleteRack i =
     dbind (orNotFound rackNotFound (First rk_ID dc_racks (\<lambda>r. rk_ID r = i))) (\<lambda>r.
     dbind (dguard (rackIsLocal r) (ReasonErr 403 ReasonImportedReadOnly ''imported racks cannot be deleted here'')) (\<lambda>_.
     dbind (Count dc_placements (\<lambda>p. dp_RackID p = i)) (\<lambda>n.
     dbind (dguard (\<not> n > 0) (ReasonErr 400 ReasonConflict ''rack still has devices'')) (\<lambda>_.
     transaction dcim_rollback (dbind (deletePlanRacks (\<lambda>q. fr_RackID q = i)) (\<lambda>_. deleteRackRow (rk_ID r)))))))"

subsection \<open>No overlaps, nothing outside\<close>

text \<open>The size of a device, the ticks a placement takes on each face (true for the front), and the two kinds of defect.\<close>

definition typeOfDevice :: "dcim_db \<Rightarrow> DcDevice \<Rightarrow> DeviceType" where
  "typeOfDevice db v = (case find (\<lambda>t. ty_ID t = dv_DeviceTypeID v) (dc_types db) of Some t \<Rightarrow> t | None \<Rightarrow> zeroDeviceType)"

definition heightOf :: "dcim_db \<Rightarrow> nat \<Rightarrow> int" where
  "heightOf db d = (case find (\<lambda>v. dv_ID v = d) (dc_devices db) of Some v \<Rightarrow> fst (heightAndDepth (typeOfDevice db v)) | None \<Rightarrow> 0)"

definition fullOf :: "dcim_db \<Rightarrow> nat \<Rightarrow> bool" where
  "fullOf db d = (case find (\<lambda>v. dv_ID v = d) (dc_devices db) of Some v \<Rightarrow> fst (snd (heightAndDepth (typeOfDevice db v))) | None \<Rightarrow> False)"

definition cells :: "int \<Rightarrow> bool \<Rightarrow> DevicePlacement \<Rightarrow> (bool \<times> int) set" where
  "cells h full p = {(front, t). dp_OffsetTicks p \<le> t \<and> t < dp_OffsetTicks p + h \<and>
     OccupiesFace (dp_Face p) full (if front then DeviceFaceFront else DeviceFaceRear)}"

definition cellsOf :: "dcim_db \<Rightarrow> DevicePlacement \<Rightarrow> (bool \<times> int) set" where
  "cellsOf db p = cells (heightOf db (dp_DeviceID p)) (fullOf db (dp_DeviceID p)) p"

definition overlapping :: "dcim_db \<Rightarrow> (nat \<times> nat) set" where
  "overlapping db = {(dp_DeviceID p, dp_DeviceID q) | p q. p \<in> set (dc_placements db) \<and> q \<in> set (dc_placements db) \<and>
     dp_DeviceID p \<noteq> dp_DeviceID q \<and> dp_RackID p = dp_RackID q \<and> cellsOf db p \<inter> cellsOf db q \<noteq> {}}"

definition insideRack :: "dcim_db \<Rightarrow> DevicePlacement \<Rightarrow> bool" where
  "insideRack db p \<longleftrightarrow> (\<exists>r \<in> set (dc_racks db). rk_ID r = dp_RackID p \<and> 0 \<le> dp_OffsetTicks p \<and>
     dp_OffsetTicks p + heightOf db (dp_DeviceID p) \<le> rk_HeightU r * TicksPerU)"

definition outside :: "dcim_db \<Rightarrow> nat set" where
  "outside db = {dp_DeviceID p | p. p \<in> set (dc_placements db) \<and> 0 < heightOf db (dp_DeviceID p) \<and> \<not> insideRack db p}"

text \<open>Numbers so far from the limits of a machine integer that a sum of two does not wrap.\<close>

definition sane :: "int \<Rightarrow> bool" where
  "sane x \<longleftrightarrow> \<bar>x\<bar> < 2 ^ 62"

definition rows_ok :: "dcim_db \<Rightarrow> bool" where
  "rows_ok db \<longleftrightarrow> distinct (map dv_ID (dc_devices db)) \<and> distinct (map ty_ID (dc_types db)) \<and> distinct (map rk_ID (dc_racks db)) \<and>
     distinct (map dp_ID (dc_placements db)) \<and> distinct (map dp_DeviceID (dc_placements db)) \<and>
     (\<forall>t \<in> set (dc_types db). 0 < ty_ID t \<and> (\<forall>h. ty_HeightTicks t = Some h \<longrightarrow> sane h)) \<and>
     (\<forall>r \<in> set (dc_racks db). rk_ID r < dq_racks db \<and> sane (rk_HeightU r)) \<and>
     (\<forall>p \<in> set (dc_placements db). dp_ID p < dq_placements db \<and> sane (dp_OffsetTicks p))"

definition racks_ok :: "(nat \<times> nat) set \<Rightarrow> nat set \<Rightarrow> dcim_db \<Rightarrow> bool" where
  "racks_ok Ov Out db \<longleftrightarrow> rows_ok db \<and> overlapping db \<subseteq> Ov \<and> outside db \<subseteq> Out"

lemma sane_in64: "sane a \<Longrightarrow> sane b \<Longrightarrow> in64 (a + b)" "sane a \<Longrightarrow> in64 (a * TicksPerU)" "sane a \<Longrightarrow> in64 a"
  by (auto simp: sane_def in64_def TicksPerU_def)

lemma sane_0 [simp]: "sane 0"
  by (simp add: sane_def)

subsection \<open>Reading the occupancy\<close>

lemma find_mem: "find P xs = Some x \<Longrightarrow> x \<in> set xs \<and> P x"
  by (auto simp: find_Some_iff)

lemma mapBy_find: "distinct (map k rows) \<Longrightarrow> mapBy k v rows x = map_option v (find (\<lambda>r. k r = x) rows)"
proof -
  have "fold (\<lambda>r m. m(k r \<mapsto> v r)) rows m x = (case find (\<lambda>r. k r = x) rows of Some r \<Rightarrow> Some (v r) | None \<Rightarrow> m x)"
    if "distinct (map k rows)" for m
    using that
  proof (induction rows arbitrary: m)
    case (Cons r rows)
    then show ?case by (auto simp: find_None_iff image_iff split: option.splits dest!: find_mem)
  qed simp
  then show "distinct (map k rows) \<Longrightarrow> ?thesis" by (simp add: mapBy_def map_option_case)
qed

lemma find_filter: "(\<And>r. r \<in> set rows \<Longrightarrow> Q r \<Longrightarrow> P r) \<Longrightarrow> find Q (filter P rows) = find Q rows"
  by (induction rows) auto

lemma find_key: "distinct (map k rows) \<Longrightarrow> r \<in> set rows \<Longrightarrow> find (\<lambda>x. k x = k r) rows = Some r"
  by (induction rows) (auto simp: image_iff)

lemma find_filter_key:
  assumes "distinct (map k rows)"
  shows "find (\<lambda>x. k x = y) (filter P rows) = (case find (\<lambda>x. k x = y) rows of Some r \<Rightarrow> if P r then Some r else None | None \<Rightarrow> None)"
  using assms by (induction rows) (auto simp: find_None_iff image_iff split: option.splits dest!: find_mem)

lemma unknown_zero: "\<not> snd (snd (heightAndDepth t)) \<Longrightarrow> fst (heightAndDepth t) = 0 \<and> \<not> fst (snd (heightAndDepth t))"
  by (simp add: heightAndDepth_def split: option.splits)

lemma occupancy_maps:
  assumes ok: "rows_ok db" and p: "p \<in> set ps"
    and devices: "devices = filter (\<lambda>d. dv_ID d \<in> dp_DeviceID ` set ps) (dc_devices db)"
    and types: "types = filter (\<lambda>t. ty_ID t \<in> set (filter (\<lambda>i. i \<noteq> 0) (map dv_DeviceTypeID devices))) (dc_types db)"
    and typeOf: "\<And>d. typeOf d = (case mapBy ty_ID (\<lambda>t. t) types (case mapBy dv_ID dv_DeviceTypeID devices (dv_ID d) of Some i \<Rightarrow> i | None \<Rightarrow> 0) of
      Some t \<Rightarrow> t | None \<Rightarrow> zeroDeviceType)"
    and known: "known = filter (\<lambda>d. snd (snd (heightAndDepth (typeOf d)))) devices"
  shows "getInt (mapBy dv_ID (\<lambda>d. fst (heightAndDepth (typeOf d))) known) (dp_DeviceID p) = heightOf db (dp_DeviceID p)"
    and "getBool (mapBy dv_ID (\<lambda>d. fst (snd (heightAndDepth (typeOf d)))) known) (dp_DeviceID p) = fullOf db (dp_DeviceID p)"
proof -
  have dd: "distinct (map dv_ID devices)" "distinct (map ty_ID types)" "distinct (map dv_ID known)"
    using ok by (auto simp: devices types known rows_ok_def distinct_map_filter)
  have tp: "typeOf v = typeOfDevice db v" if v: "v \<in> set devices" for v
  proof -
    have "typeOf v = (case find (\<lambda>t. ty_ID t = dv_DeviceTypeID v) types of Some t \<Rightarrow> t | None \<Rightarrow> zeroDeviceType)"
      unfolding typeOf mapBy_find[OF dd(1)] mapBy_find[OF dd(2)] find_key[OF dd(1) v] by (simp add: option.map_ident)
    moreover have "find (\<lambda>t. ty_ID t = dv_DeviceTypeID v) types = find (\<lambda>t. ty_ID t = dv_DeviceTypeID v) (dc_types db)"
      unfolding types by (rule find_filter) (use v ok in \<open>auto simp: rows_ok_def\<close>)
    ultimately show ?thesis by (simp add: typeOfDevice_def)
  qed
  have fd: "find (\<lambda>v. dv_ID v = dp_DeviceID p) devices = find (\<lambda>v. dv_ID v = dp_DeviceID p) (dc_devices db)"
    unfolding devices by (rule find_filter) (use p in auto)
  have "find (\<lambda>v. dv_ID v = dp_DeviceID p) known = (case find (\<lambda>v. dv_ID v = dp_DeviceID p) (dc_devices db) of
      Some v \<Rightarrow> if snd (snd (heightAndDepth (typeOfDevice db v))) then Some v else None | None \<Rightarrow> None)"
    unfolding known find_filter_key[OF dd(1)] fd[symmetric] using tp by (auto split: option.splits dest: find_mem)
  moreover have "v \<in> set devices" if "find (\<lambda>v. dv_ID v = dp_DeviceID p) (dc_devices db) = Some v" for v
    using that fd find_mem by metis
  ultimately show "getInt (mapBy dv_ID (\<lambda>d. fst (heightAndDepth (typeOf d))) known) (dp_DeviceID p) = heightOf db (dp_DeviceID p)"
    and "getBool (mapBy dv_ID (\<lambda>d. fst (snd (heightAndDepth (typeOf d)))) known) (dp_DeviceID p) = fullOf db (dp_DeviceID p)"
    using tp unknown_zero by (auto simp: getInt_def getBool_def mapBy_find[OF dd(3)] heightOf_def fullOf_def split: option.splits)
qed

lemma occupancyMaps_readonly: "readonly (occupancyMaps rackID)"
  unfolding occupancyMaps_def Let_def by (intro readonly_rules)

lemma occupancyMaps_triple:
  assumes PE: "\<And>db. P db \<Longrightarrow> E db" and ok: "\<And>db. P db \<Longrightarrow> rows_ok db"
  shows "triple P (occupancyMaps rackID) (\<lambda>(ps, hs, ds) db. P db \<and> ps = filter (\<lambda>p. dp_RackID p = rackID) (dc_placements db) \<and>
     (\<forall>p \<in> set ps. getInt hs (dp_DeviceID p) = heightOf db (dp_DeviceID p) \<and> getBool ds (dp_DeviceID p) = fullOf db (dp_DeviceID p))) E"
proof -
  let ?ps = "\<lambda>db. filter (\<lambda>p. dp_RackID p = rackID) (dc_placements db)"
  let ?devs = "\<lambda>ps db. filter (\<lambda>d. dv_ID d \<in> dp_DeviceID ` set ps) (dc_devices db)"
  let ?tids = "\<lambda>devices. filter (\<lambda>i. i \<noteq> 0) (map dv_DeviceTypeID devices)"
  let ?types = "\<lambda>devices db. filter (\<lambda>t. ty_ID t \<in> set (?tids devices)) (dc_types db)"
  let ?R1 = "\<lambda>ps db. P db \<and> ps = ?ps db"
  let ?R2 = "\<lambda>ps devices db. ?R1 ps db \<and> devices = ?devs ps db"
  have f2: "triple (?R1 ps) (Find dc_devices (\<lambda>d. dv_ID d \<in> dp_DeviceID ` set ps)) (?R2 ps) E" for ps
    by (rule triple_weaken[OF triple_Find[where E = E]]) (auto intro: PE)
  have f3: "triple (?R2 ps devices) (if ?tids devices \<noteq> [] then Find dc_types (\<lambda>t. ty_ID t \<in> set (?tids devices)) else dret [])
      (\<lambda>types db. ?R2 ps devices db \<and> types = ?types devices db) E" for ps devices
  proof (cases "?tids devices = []")
    case True
    then have "?types devices db = []" for db by simp
    then show ?thesis using True by (auto intro: triple_ret)
  next
    case False
    show ?thesis unfolding if_P[OF False] by (rule triple_weaken[OF triple_Find[where E = E]]) (auto intro: PE)
  qed
  show ?thesis unfolding occupancyMaps_def Let_def
  proof (rule triple_bind[OF triple_Find], rule PE, assumption, goal_cases)
    case (1 ps)
    show ?case
    proof (cases "ps = []")
      case True
      then show ?thesis by (auto intro!: triple_ret)
    next
      case False
      show ?thesis unfolding if_not_P[OF False]
      proof (rule triple_bind[OF f2], rule triple_bind[OF f3], rule triple_ret, goal_cases)
        case (1 devices types db)
        then have P: "P db" and ps: "ps = ?ps db" and dv: "devices = ?devs ps db" and ty: "types = ?types devices db" by blast+
        show ?case unfolding prod.case using P ps occupancy_maps[OF ok[OF P] _ dv ty refl refl] by blast
      qed
    qed
  qed
qed

subsection \<open>A free slot\<close>

lemma heightOf_sane: "rows_ok db \<Longrightarrow> sane (heightOf db d)"
  unfolding rows_ok_def heightOf_def typeOfDevice_def
  by (auto simp: heightAndDepth_def zeroDeviceType_def split: option.splits dest!: find_mem)

lemma slotFree_disjoint:
  assumes "slotFree (OccupancyFromPlacements all hf df) d (dp_OffsetTicks p) h (dp_Face p) full" "q \<in> set all" "dp_DeviceID q \<noteq> d"
    and "sane h" "sane (dp_OffsetTicks p)" "sane (dp_OffsetTicks q)" "sane (hf (dp_DeviceID q))"
  shows "cells h full p \<inter> cells (hf (dp_DeviceID q)) (df (dp_DeviceID q)) q = {}"
proof (cases "hf (dp_DeviceID q) \<le> 0")
  case True
  then show ?thesis by (auto simp: cells_def)
next
  case False
  let ?o = "occupiedOf (hf (dp_DeviceID q)) (df (dp_DeviceID q)) q"
  have "?o \<in> set (OccupancyFromPlacements all hf df)" using assms(2) False by (auto simp: OccupancyFromPlacements_def)
  moreover have "wrap64 (dp_OffsetTicks p + h) = dp_OffsetTicks p + h" "wrap64 (dp_OffsetTicks q + hf (dp_DeviceID q)) = dp_OffsetTicks q + hf (dp_DeviceID q)"
    using assms(4-7) by (simp_all add: wrap64_id sane_in64)
  ultimately have "\<not> IntervalsOverlap (dp_OffsetTicks p) (dp_OffsetTicks p + h) (dp_OffsetTicks q) (dp_OffsetTicks q + hf (dp_DeviceID q)) \<or>
      \<not> (OccupiesFace (dp_Face p) full DeviceFaceFront \<and> oc_Front ?o \<or> OccupiesFace (dp_Face p) full DeviceFaceRear \<and> oc_Rear ?o)"
    using assms(1,3) by (auto simp: slotFree_def ConflictsWith_None PlacementInterval_def occupiedOf_def Let_def)
  moreover have "oc_Front ?o = OccupiesFace (dp_Face q) (df (dp_DeviceID q)) DeviceFaceFront" "oc_Rear ?o = OccupiesFace (dp_Face q) (df (dp_DeviceID q)) DeviceFaceRear"
    by (auto simp: occupiedOf_def OccupiesFace_def PlacementInterval_def DeviceFaceFront_def DeviceFaceRear_def)
  ultimately show ?thesis by (auto simp: cells_def IntervalsOverlap_def split: if_splits)
qed

definition fits :: "dcim_db \<Rightarrow> DevicePlacement \<Rightarrow> bool" where
  "fits db p \<longleftrightarrow> insideRack db p \<and> sane (dp_OffsetTicks p) \<and>
     (\<forall>q \<in> set (dc_placements db). dp_DeviceID q \<noteq> dp_DeviceID p \<longrightarrow> dp_RackID q = dp_RackID p \<longrightarrow> cellsOf db p \<inter> cellsOf db q = {})"

lemma checkOccupancy_triple:
  assumes PE: "\<And>db. P db \<Longrightarrow> E db" and ok: "\<And>db. P db \<Longrightarrow> rows_ok db" and p: "rk_ID rack = dp_RackID p"
    and dims: "\<And>db. P db \<Longrightarrow> h = heightOf db (dp_DeviceID p) \<and> full = fullOf db (dp_DeviceID p)" and off: "sane (dp_OffsetTicks p)"
  shows "triple P (checkOccupancy rack (dp_DeviceID p) (dp_OffsetTicks p) h (dp_Face p) full)
     (\<lambda>_ db. P db \<and> (\<forall>q \<in> set (dc_placements db). dp_DeviceID q \<noteq> dp_DeviceID p \<longrightarrow> dp_RackID q = dp_RackID p \<longrightarrow> cellsOf db p \<inter> cellsOf db q = {})) E"
  unfolding checkOccupancy_def Let_def
proof (rule triple_bind[OF occupancyMaps_triple[OF PE ok]], assumption, assumption, goal_cases)
  case (1 a)
  obtain ps hs ds where a: "a = (ps, hs, ds)" by (cases a) auto
  show ?case unfolding a prod.case
  proof (rule triple_guard, goal_cases)
    case (1 db)
    show ?case
    proof (cases "slotFree (OccupancyFromPlacements ps (getInt hs) (getBool ds)) (dp_DeviceID p) (dp_OffsetTicks p) h (dp_Face p) full")
      case True
      have "cellsOf db p \<inter> cellsOf db q = {}" if q: "q \<in> set (dc_placements db)" "dp_DeviceID q \<noteq> dp_DeviceID p" "dp_RackID q = dp_RackID p" for q
      proof -
        have "q \<in> set ps" using 1 q p by auto
        moreover from this have "getInt hs (dp_DeviceID q) = heightOf db (dp_DeviceID q)" "getBool ds (dp_DeviceID q) = fullOf db (dp_DeviceID q)"
          using 1 by auto
        moreover have "rows_ok db" using 1 ok by blast
        moreover from this have "sane (dp_OffsetTicks q)" using q(1) by (simp add: rows_ok_def)
        ultimately show ?thesis
          using slotFree_disjoint[OF True, of q] q(2) off heightOf_sane[of db] 1 dims[of db] unfolding cellsOf_def by simp
      qed
      then show ?thesis using True 1 by auto
    next
      case False
      then show ?thesis using 1 PE by auto
    qed
  qed
qed

lemma sizes_frame:
  assumes "dc_devices db' = dc_devices db" "dc_types db' = dc_types db"
  shows "heightOf db' = heightOf db" "fullOf db' = fullOf db" "cellsOf db' = cellsOf db"
    and "dc_racks db' = dc_racks db \<Longrightarrow> insideRack db' = insideRack db"
proof -
  have t: "typeOfDevice db' = typeOfDevice db" by (simp add: fun_eq_iff typeOfDevice_def assms)
  show h: "heightOf db' = heightOf db" by (rule ext) (simp only: heightOf_def assms t)
  show f: "fullOf db' = fullOf db" by (rule ext) (simp only: fullOf_def assms t)
  show "cellsOf db' = cellsOf db" by (rule ext) (simp only: cellsOf_def h f)
  show "dc_racks db' = dc_racks db \<Longrightarrow> insideRack db' = insideRack db" by (rule ext) (simp only: insideRack_def h)
qed

lemma racks_ok_frame:
  assumes "racks_ok Ov Out db" "dc_devices db' = dc_devices db" "dc_types db' = dc_types db" "dc_racks db' = dc_racks db"
    "dc_placements db' = dc_placements db" "dq_racks db \<le> dq_racks db'" "dq_placements db \<le> dq_placements db'"
  shows "racks_ok Ov Out db'"
proof -
  have "rows_ok db'" using assms by (fastforce simp: racks_ok_def rows_ok_def)
  moreover have "overlapping db' = overlapping db" unfolding overlapping_def sizes_frame(3)[OF assms(2,3)] assms(5) ..
  moreover have "outside db' = outside db" unfolding outside_def sizes_frame(1,4)[OF assms(2,3)] sizes_frame(4)[OF assms(2,3,4)] assms(5) ..
  ultimately show ?thesis using assms(1) by (simp add: racks_ok_def)
qed

lemma racks_ok_write:
  assumes ok: "racks_ok Ov Out db" and ps: "set ps \<subseteq> insert p {q \<in> set (dc_placements db). dp_DeviceID q \<noteq> dp_DeviceID p}"
    and "distinct (map dp_ID ps)" "distinct (map dp_DeviceID ps)" "\<And>q. q \<in> set ps \<Longrightarrow> dp_ID q < n" and fits: "fits db p"
  shows "racks_ok Ov Out (db\<lparr>dc_placements := ps, dq_placements := n\<rparr>)"
proof -
  let ?db = "db\<lparr>dc_placements := ps, dq_placements := n\<rparr>"
  have same: "heightOf ?db = heightOf db" "fullOf ?db = fullOf db" "cellsOf ?db = cellsOf db" "insideRack ?db = insideRack db"
    by (rule sizes_frame; simp)+
  have "rows_ok ?db" using ok ps assms(3-5) fits by (auto simp: racks_ok_def rows_ok_def fits_def)
  moreover have "overlapping ?db \<subseteq> overlapping db"
  proof (rule subsetI, clarify)
    fix a b assume "(a, b) \<in> overlapping ?db"
    then obtain x y where xy: "x \<in> set ps" "y \<in> set ps" "a = dp_DeviceID x" "b = dp_DeviceID y" "dp_DeviceID x \<noteq> dp_DeviceID y"
      "dp_RackID x = dp_RackID y" "cellsOf db x \<inter> cellsOf db y \<noteq> {}"
      by (auto simp: overlapping_def same)
    then have "x \<noteq> p" "y \<noteq> p" using ps fits unfolding fits_def by (metis (lifting) Int_commute insertE mem_Collect_eq subsetD)+
    then have "x \<in> set (dc_placements db)" "y \<in> set (dc_placements db)" using xy ps by auto
    then show "(a, b) \<in> overlapping db" using xy unfolding overlapping_def by blast
  qed
  moreover have "outside ?db \<subseteq> outside db"
    using ps fits by (auto simp: outside_def same fits_def)
  ultimately show ?thesis using ok unfolding racks_ok_def by blast
qed

lemma racks_ok_rollback: "racks_ok Ov Out db \<Longrightarrow> racks_ok Ov Out (dcim_rollback db db')"
  by (erule racks_ok_frame) (simp_all add: dcim_rollback_def)

interpretation rks: db_invariant "racks_ok Ov Out" dcim_rollback for Ov Out
  by unfold_locales (rule racks_ok_rollback)

subsection \<open>Placing\<close>

lemma readonly_Take: "readonly (Take tbl P)"
  by (auto simp: readonly_def Take_def stmt_def split: list.splits event.splits)

lemma orNotFound_readonly: "readonly m \<Longrightarrow> readonly (orNotFound e m)"
  unfolding orNotFound_def by (rule readonly_case) (auto intro: readonly_basic split: sum.splits)

lemma orErr_readonly: "readonly m \<Longrightarrow> readonly (orErr e m)"
  unfolding orErr_def by (rule readonly_case) (auto intro: readonly_basic split: sum.splits)

lemma orElse_readonly: "readonly m \<Longrightarrow> readonly (orElse d f m)"
  unfolding orElse_def by (intro readonly_rules)

lemmas dcim_readonly = readonly_Take orNotFound_readonly orErr_readonly orElse_readonly readonly_for occupancyMaps_readonly

lemma existingPlacement_readonly: "readonly (existingPlacement d)"
  unfolding existingPlacement_def by (rule readonly_case[OF readonly_Take]) (auto intro: readonly_basic split: sum.splits)

lemma DeviceAtLocalSite_readonly: "readonly (DeviceAtLocalSite d s)"
proof -
  have "readonly (LocalSiteIDsForDevice d)" unfolding LocalSiteIDsForDevice_def
    by (intro readonly_rules dcim_readonly) (auto intro!: readonly_rules dcim_readonly split: sum.splits)
  then show ?thesis unfolding DeviceAtLocalSite_def by (intro readonly_rules)
qed

lemma lockRacks_readonly: "readonly (lockRacks ids)" "readonly (lockDevice i)"
  unfolding lockRacks_def lockDevice_def by (intro readonly_rules dcim_readonly)+

lemma orNotFound_triple:
  assumes "triple P m Q E"
  shows "triple P (orNotFound e m) Q E"
  unfolding orNotFound_def
  by (rule triple_case[OF assms]) (auto intro: triple_ret triple_fail)

lemma First_or_zero:
  assumes "\<And>db. P db \<Longrightarrow> E db"
  shows "triple P (dcase (First key tbl R) (\<lambda>r. case r of Inr a \<Rightarrow> dret a | Inl e \<Rightarrow> if e = RecordNotFound then dret z else dfail e))
    (\<lambda>a db. P db \<and> (a = z \<and> (\<forall>r \<in> set (tbl db). \<not> R r) \<or> a \<in> set (tbl db) \<and> R a)) E"
  unfolding triple_def
proof (intro allI impI)
  fix s :: "'a dbst" assume P: "P (fst s)"
  obtain db evs where s: "s = (db, evs)" by (cases s)
  show "outcome (\<lambda>a db. P db \<and> (a = z \<and> (\<forall>r \<in> set (tbl db). \<not> R r) \<or> a \<in> set (tbl db) \<and> R a)) E
    (dcase (First key tbl R) (\<lambda>r. case r of Inr a \<Rightarrow> dret a | Inl e \<Rightarrow> if e = RecordNotFound then dret z else dfail e) s)"
    using P assms first_by_None[of key R "tbl db"] first_by_Some[of key R "tbl db"]
    by (auto simp: s dcase_def First_def stmt_def dret_def dfail_def split: list.splits event.splits option.splits)
qed

definition newPlacement :: "PlaceRequest \<Rightarrow> DevicePlacement" where
  "newPlacement req = \<lparr>dp_ID = 0, dp_DeviceID = pr_DeviceID req, dp_RackID = pr_RackID req, dp_OffsetTicks = pr_OffsetTicks req,
     dp_Face = pr_Face req, dp_Source = DCIMSourceFactum, dp_Version = 1, dp_Conflict = []\<rparr>"

lemma typeOfDevice_cases:
  assumes "rows_ok db" "dt = zeroDeviceType \<and> (\<forall>t \<in> set (dc_types db). ty_ID t \<noteq> dv_DeviceTypeID v) \<or> dt \<in> set (dc_types db) \<and> ty_ID dt = dv_DeviceTypeID v"
  shows "dt = typeOfDevice db v"
proof -
  have "find (\<lambda>t. ty_ID t = dv_DeviceTypeID v) (dc_types db) = (if dt \<in> set (dc_types db) \<and> ty_ID dt = dv_DeviceTypeID v then Some dt else None)"
    using assms find_key[of ty_ID "dc_types db" dt] by (auto simp: rows_ok_def find_None_iff)
  then show ?thesis using assms(2) by (auto simp: typeOfDevice_def)
qed

lemma loadType_triple:
  assumes "\<And>db. P db \<Longrightarrow> E db" "\<And>db. P db \<Longrightarrow> rows_ok db"
  shows "triple P (dcase (loadType (dv_DeviceTypeID v)) (\<lambda>r. case r of Inr dt \<Rightarrow> dret dt | Inl e \<Rightarrow> if e = RecordNotFound then dret zeroDeviceType else dfail e))
    (\<lambda>dt db. P db \<and> dt = typeOfDevice db v) E"
proof (cases "dv_DeviceTypeID v = 0")
  case True
  then have "dcase (loadType (dv_DeviceTypeID v)) (\<lambda>r. case r of Inr dt \<Rightarrow> dret dt | Inl e \<Rightarrow> if e = RecordNotFound then dret zeroDeviceType else dfail e) = dret zeroDeviceType"
    by (simp add: loadType_def dcase_def dret_def fun_eq_iff)
  moreover have "zeroDeviceType = typeOfDevice db v" if "P db" for db
    by (rule typeOfDevice_cases[OF assms(2)[OF that]]) (use True assms(2)[OF that] in \<open>auto simp: rows_ok_def\<close>)
  ultimately show ?thesis by (auto intro: triple_ret)
next
  case False
  show ?thesis unfolding loadType_def if_not_P[OF False]
    by (rule triple_weaken[OF First_or_zero[where P = P and E = E]]) (use assms typeOfDevice_cases in blast)+
qed

lemma validateSlot_then:
  assumes "\<And>db. P db \<Longrightarrow> E db" "0 < h \<Longrightarrow> \<not> OutOfRack off h (rackHeightTicks rack) \<Longrightarrow> triple P m Q E"
  shows "triple P (dbind (validateSlot rack off h l) (\<lambda>_. m)) Q E"
proof -
  have "validateSlot rack off h l s = (if 0 < h \<and> \<not> OutOfRack off h (rackHeightTicks rack) \<and> \<not> (l \<and> \<not> WholeUBoundary off h) then (Inr (), s)
      else (Inl (if h \<le> 0 then ReasonErr 400 ReasonUnknownDimensions ''device height is unknown or zero-U''
        else if OutOfRack off h (rackHeightTicks rack) then ReasonErr 400 ReasonOutOfBounds ''placement is outside the rack''
        else ReasonErr 400 ReasonInvalid ''local placements must sit on whole-U boundaries''), s))" for s
    by (simp add: validateSlot_def run_bind run_basic)
  then show ?thesis using assms by (auto simp: triple_def run_bind)
qed

lemma inside_slot:
  assumes "rows_ok db" "rack \<in> set (dc_racks db)" "rk_ID rack = dp_RackID p" "sane (dp_OffsetTicks p)"
    and "\<not> OutOfRack (dp_OffsetTicks p) (heightOf db (dp_DeviceID p)) (rackHeightTicks rack)"
  shows "insideRack db p"
proof -
  have "wrap64 (dp_OffsetTicks p + heightOf db (dp_DeviceID p)) = dp_OffsetTicks p + heightOf db (dp_DeviceID p)"
    using assms(1,4) heightOf_sane by (intro wrap64_id sane_in64) auto
  moreover have "rackHeightTicks rack = rk_HeightU rack * TicksPerU"
    using assms(1,2) unfolding rackHeightTicks_def rows_ok_def by (intro wrap64_id sane_in64) auto
  ultimately show ?thesis using assms(2,3,5) by (auto simp: insideRack_def OutOfRack_def split: if_splits)
qed

lemma existingPlacement_triple:
  assumes "\<And>db. P db \<Longrightarrow> E db"
  shows "triple P (existingPlacement d) (\<lambda>cur db. P db \<and> (\<forall>p. cur = Some p \<longrightarrow> p \<in> set (dc_placements db) \<and> dp_DeviceID p = d)) E"
proof -
  have "triple P (Take dc_placements (\<lambda>p. dp_DeviceID p = d)) (\<lambda>p db. P db \<and> p \<in> set (dc_placements db) \<and> dp_DeviceID p = d) (\<lambda>db. P db)"
    unfolding Take_def by (rule triple_stmt) (auto split: option.splits dest!: find_mem)
  then show ?thesis unfolding existingPlacement_def
    by (rule triple_case) (auto intro!: triple_ret triple_fail assms)
qed

lemma placeSlot_triple:
  assumes sn: "sane (pr_OffsetTicks req)"
    and P: "\<And>db. P db \<Longrightarrow> racks_ok Ov Out db \<and> device \<in> set (dc_devices db) \<and> dv_ID device = pr_DeviceID req \<and>
      rack \<in> set (dc_racks db) \<and> rk_ID rack = pr_RackID req"
  shows "triple P
    (dbind (dcase (loadType (dv_DeviceTypeID device)) (\<lambda>r. case r of
         Inr dt \<Rightarrow> dret dt | Inl e \<Rightarrow> if e = RecordNotFound then dret zeroDeviceType else dfail e)) (\<lambda>dt.
     case heightAndDepth dt of (height, full, known) \<Rightarrow>
     dbind (dguard (\<not> (\<not> known \<or> height = 0)) e1) (\<lambda>_.
     dbind (validateSlot rack (pr_OffsetTicks req) height True) (\<lambda>_.
     dbind (checkOccupancy rack (pr_DeviceID req) (pr_OffsetTicks req) height (pr_Face req) full) (\<lambda>_. dret cur)))))
    (\<lambda>c db. P db \<and> fits db (newPlacement req) \<and> c = cur) (racks_ok Ov Out)"
proof -
  let ?E = "racks_ok Ov Out"
  let ?p = "newPlacement req"
  have rok: "rows_ok db" if "P db" for db using P[OF that] by (simp add: racks_ok_def)
  have fd: "find (\<lambda>v. dv_ID v = pr_DeviceID req) (dc_devices db) = Some device" if "P db" for db
    using find_key[of dv_ID "dc_devices db" device] P[OF that] rok[OF that] by (auto simp: rows_ok_def)
  show ?thesis
  proof (rule triple_bind[OF loadType_triple], use P in blast, use rok in blast, goal_cases)
    case (1 dt)
    obtain h full known where hd: "heightAndDepth dt = (h, full, known)" by (cases "heightAndDepth dt") auto
    let ?P = "\<lambda>db. P db \<and> dt = typeOfDevice db device"
    have dims: "h = heightOf db (dp_DeviceID ?p) \<and> full = fullOf db (dp_DeviceID ?p)" if "?P db" for db
      using that fd[of db] hd by (simp add: heightOf_def fullOf_def newPlacement_def)
    show ?case unfolding hd prod.case
    proof (intro guard_then[where P = ?P] validateSlot_then[where P = ?P], goal_cases)
      case 3
      let ?Q = "\<lambda>db. P db \<and> dt = typeOfDevice db device \<and> \<not> OutOfRack (pr_OffsetTicks req) h (rackHeightTicks rack)"
      have dims': "h = heightOf db (dp_DeviceID ?p) \<and> full = fullOf db (dp_DeviceID ?p)" if "?Q db" for db using dims that by blast
      have "triple ?Q (checkOccupancy rack (dp_DeviceID ?p) (dp_OffsetTicks ?p) h (dp_Face ?p) full)
        (\<lambda>_ db. ?Q db \<and> (\<forall>q \<in> set (dc_placements db). dp_DeviceID q \<noteq> dp_DeviceID ?p \<longrightarrow> dp_RackID q = dp_RackID ?p \<longrightarrow> cellsOf db ?p \<inter> cellsOf db q = {})) ?E"
      proof (cases "rk_ID rack = dp_RackID ?p")
        case True
        show ?thesis by (rule checkOccupancy_triple[OF _ _ True dims']) (use P rok sn in \<open>auto simp: newPlacement_def\<close>)
      next
        case False
        then have "\<not> P db" for db using P[of db] by (auto simp: newPlacement_def)
        then show ?thesis by (simp add: triple_def)
      qed
      then have t: "triple ?P (checkOccupancy rack (pr_DeviceID req) (pr_OffsetTicks req) h (pr_Face req) full)
        (\<lambda>_ db. ?Q db \<and> (\<forall>q \<in> set (dc_placements db). dp_DeviceID q \<noteq> dp_DeviceID ?p \<longrightarrow> dp_RackID q = dp_RackID ?p \<longrightarrow> cellsOf db ?p \<inter> cellsOf db q = {})) ?E"
        using 3 by (auto simp: newPlacement_def)
      have fit: "fits db ?p" if "?Q db" "\<forall>q \<in> set (dc_placements db). dp_DeviceID q \<noteq> dp_DeviceID ?p \<longrightarrow> dp_RackID q = dp_RackID ?p \<longrightarrow> cellsOf db ?p \<inter> cellsOf db q = {}" for db
      proof -
        have "insideRack db ?p"
          by (rule inside_slot[of db rack]) (use that(1) P[of db] rok[of db] dims[of db] sn in \<open>auto simp: newPlacement_def\<close>)
        then show ?thesis using that(2) sn unfolding fits_def by (simp add: newPlacement_def)
      qed
      show ?case by (rule triple_bind[OF t], rule triple_ret) (use fit in blast)
    qed (use P in blast)+
  qed
qed

lemma placeChecks_triple:
  assumes sn: "sane (pr_OffsetTicks req)"
  shows "triple (racks_ok Ov Out) (placeChecks req) (\<lambda>cur db. racks_ok Ov Out db \<and> fits db (newPlacement req) \<and>
     (\<forall>p. cur = Some p \<longrightarrow> p \<in> set (dc_placements db) \<and> dp_DeviceID p = pr_DeviceID req)) (racks_ok Ov Out)"
proof -
  let ?I = "racks_ok Ov Out"
  let ?D = "\<lambda>d db. ?I db \<and> d \<in> set (dc_devices db) \<and> dv_ID d = pr_DeviceID req"
  let ?C = "\<lambda>d cur db. ?D d db \<and> (\<forall>p. cur = Some p \<longrightarrow> p \<in> set (dc_placements db) \<and> dp_DeviceID p = pr_DeviceID req)"
  let ?R = "\<lambda>d cur r db. ?C d cur db \<and> r \<in> set (dc_racks db) \<and> rk_ID r = pr_RackID req"
  have dev: "triple ?I (lockDevice (pr_DeviceID req)) ?D ?I"
    unfolding lockDevice_def by (rule orNotFound_triple[OF triple_First])
  have cur: "triple (?D d) (existingPlacement (pr_DeviceID req)) (?C d) ?I" for d
    by (rule existingPlacement_triple) blast
  have rack: "triple (?C d c) (orNotFound rackNotFound (First rk_ID dc_racks (\<lambda>r. rk_ID r = pr_RackID req))) (?R d c) ?I" for d c
    by (rule orNotFound_triple[OF triple_First]) blast
  show ?thesis unfolding placeChecks_def
    apply (rule readonly_then[OF existingPlacement_readonly], assumption)
    apply (rule readonly_then[OF lockRacks_readonly(1)], assumption)
    apply (rule triple_bind[OF dev])
    apply (rule guard_then, blast)
    apply (rule triple_bind[OF cur])
    apply (rule guard_then, blast)
    apply (rule guard_then, blast)
    apply (rule triple_bind[OF rack])
    apply (rule readonly_then[OF DeviceAtLocalSite_readonly], blast)
    apply (rule guard_then, blast)
    subgoal for _ _ d c r _
      by (rule triple_weaken[OF placeSlot_triple[OF sn, where P = "?R d c r" and Ov = Ov and Out = Out]]) blast+
    done
qed

lemma fits_fields:
  "dp_DeviceID p = dp_DeviceID q \<Longrightarrow> dp_RackID p = dp_RackID q \<Longrightarrow> dp_OffsetTicks p = dp_OffsetTicks q \<Longrightarrow>
   dp_Face p = dp_Face q \<Longrightarrow> fits db p = fits db q"
  by (simp only: fits_def insideRack_def cellsOf_def cells_def)

lemma insertPlacement_triple:
  assumes "dp_Face p \<noteq> []"
  shows "triple (\<lambda>db. racks_ok Ov Out db \<and> fits db p) (insertPlacement p) (\<lambda>_. racks_ok Ov Out) (racks_ok Ov Out)"
proof -
  let ?p = "\<lambda>db. (placementBeforeCreate p)\<lparr>dp_ID := dq_placements db\<rparr>"
  have ins: "racks_ok Ov Out (db\<lparr>dc_placements := dc_placements db @ [?p db], dq_placements := Suc (dq_placements db)\<rparr>)"
    if ok: "racks_ok Ov Out db \<and> fits db p" and new: "\<not> list_ex (\<lambda>q. dp_DeviceID q = dp_DeviceID p) (dc_placements db)" for db
  proof -
    have f: "fits db (?p db)" using ok assms fits_fields[of "?p db" p db] by (simp add: placementBeforeCreate_def)
    have d: "dp_DeviceID (?p db) = dp_DeviceID p" by (simp add: placementBeforeCreate_def)
    show ?thesis
      by (rule racks_ok_write[OF conjunct1[OF ok] _ _ _ _ f])
        (use ok new in \<open>auto simp: d list_ex_iff racks_ok_def rows_ok_def placementBeforeCreate_def less_Suc_eq\<close>)
  qed
  have seq: "racks_ok Ov Out (db\<lparr>dq_placements := Suc (dq_placements db)\<rparr>)" if "racks_ok Ov Out db" for db
    by (rule racks_ok_frame[OF that]) simp_all
  show ?thesis unfolding insertPlacement_def Let_def
    by (rule triple_stmt_if) (use ins seq in auto)
qed

lemma savePlacement_triple:
  assumes "dp_DeviceID p' = dp_DeviceID p" "dp_ID p' = dp_ID p"
  shows "triple (\<lambda>db. racks_ok Ov Out db \<and> fits db p' \<and> p \<in> set (dc_placements db)) (savePlacement p') (\<lambda>_. racks_ok Ov Out) (racks_ok Ov Out)"
proof -
  have "racks_ok Ov Out (db\<lparr>dc_placements := map (\<lambda>q. if dp_ID q = dp_ID p' then p' else q) (dc_placements db)\<rparr>)"
    if ok: "racks_ok Ov Out db" and f: "fits db p'" and p: "p \<in> set (dc_placements db)" for db
  proof -
    let ?g = "\<lambda>q. if dp_ID q = dp_ID p' then p' else q"
    have r: "distinct (map dp_ID (dc_placements db))" "distinct (map dp_DeviceID (dc_placements db))" "\<And>q. q \<in> set (dc_placements db) \<Longrightarrow> dp_ID q < dq_placements db"
      using ok by (auto simp: racks_ok_def rows_ok_def)
    have same: "q = p" if "q \<in> set (dc_placements db)" "dp_ID q = dp_ID p' \<or> dp_DeviceID q = dp_DeviceID p'" for q
      using that p assms r(1,2) by (auto simp: distinct_map dest: inj_onD)
    have ids: "map dp_ID (map ?g (dc_placements db)) = map dp_ID (dc_placements db)" by simp
    have devs: "map dp_DeviceID (map ?g (dc_placements db)) = map dp_DeviceID (dc_placements db)" using same assms by auto
    have "racks_ok Ov Out (db\<lparr>dc_placements := map ?g (dc_placements db), dq_placements := dq_placements db\<rparr>)"
    proof (rule racks_ok_write[OF ok _ _ _ _ f])
      show "set (map ?g (dc_placements db)) \<subseteq> insert p' {q \<in> set (dc_placements db). dp_DeviceID q \<noteq> dp_DeviceID p'}"
        using same assms by (auto split: if_splits)
      show "distinct (map dp_ID (map ?g (dc_placements db)))" unfolding ids by (rule r)
      show "distinct (map dp_DeviceID (map ?g (dc_placements db)))" unfolding devs by (rule r)
      show "dp_ID q < dq_placements db" if "q \<in> set (map ?g (dc_placements db))" for q
        using that r(3) p assms by (auto split: if_splits)
    qed
    then show ?thesis by simp
  qed
  then show ?thesis unfolding savePlacement_def by (intro triple_stmt_total) auto
qed

lemma placeTx_keeps:
  assumes "sane (pr_OffsetTicks req)" "pr_Face req \<noteq> []"
  shows "triple (racks_ok Ov Out) (placeTx req) (\<lambda>_. racks_ok Ov Out) (racks_ok Ov Out)"
  unfolding placeTx_def
proof (rule triple_bind[OF placeChecks_triple[OF assms(1)]], goal_cases)
  case (1 cur)
  show ?case
  proof (cases cur)
    case None
    show ?thesis unfolding None option.case newPlacement_def[symmetric]
      by (rule triple_weaken[OF insertPlacement_triple]) (use assms(2) in \<open>auto simp: newPlacement_def\<close>)
  next
    case (Some p)
    let ?p = "p\<lparr>dp_RackID := pr_RackID req, dp_OffsetTicks := pr_OffsetTicks req, dp_Face := pr_Face req, dp_Version := wrap64 (dp_Version p + 1)\<rparr>"
    have "fits db ?p = fits db (newPlacement req)" if "dp_DeviceID p = pr_DeviceID req" for db
      by (rule fits_fields) (simp_all add: newPlacement_def that)
    then have "triple (\<lambda>db. racks_ok Ov Out db \<and> fits db (newPlacement req) \<and> (\<forall>q. cur = Some q \<longrightarrow> q \<in> set (dc_placements db) \<and> dp_DeviceID q = pr_DeviceID req))
        (savePlacement ?p) (\<lambda>_. racks_ok Ov Out) (racks_ok Ov Out)"
      using Some by (intro triple_weaken[OF savePlacement_triple[of ?p p]]) auto
    then show ?thesis unfolding Some option.case Let_def by (rule triple_bind) (rule triple_ret)
  qed
qed

lemma Place_keeps: "sane (pr_OffsetTicks req) \<Longrightarrow> rks.keeps Ov Out (Place req)"
  unfolding Place_def Let_def
  by (intro rks.keeps_bind rks.keeps_guard rks.keeps_transaction triple_weaken[OF placeTx_keeps])
    (auto simp: DeviceFaceFront_def)

lemma racks_ok_fewer:
  assumes "racks_ok Ov Out db"
  shows "racks_ok Ov Out (db\<lparr>dc_placements := filter P (dc_placements db)\<rparr>)"
proof -
  let ?db = "db\<lparr>dc_placements := filter P (dc_placements db)\<rparr>"
  have s: "heightOf ?db = heightOf db" "cellsOf ?db = cellsOf db" "insideRack ?db = insideRack db" by (rule sizes_frame; simp)+
  have "rows_ok ?db" using assms by (auto simp: racks_ok_def rows_ok_def distinct_map_filter)
  moreover have "overlapping ?db \<subseteq> overlapping db" unfolding overlapping_def s by auto
  moreover have "outside ?db \<subseteq> outside db" unfolding outside_def s by auto
  ultimately show ?thesis using assms unfolding racks_ok_def by blast
qed

lemma Unmount_keeps: "rks.keeps Ov Out (Unmount d v)"
proof -
  have "rks.keeps Ov Out (deletePlacement i)" for i
    unfolding deletePlacement_def by (rule rks.keeps_stmt) (simp add: racks_ok_fewer)
  then have "rks.keeps Ov Out (unmountTx d v)" unfolding unmountTx_def Let_def
    by (auto intro!: rks.keeps_bind rks.keeps_rules rks.keeps_readonly[OF existingPlacement_readonly]
        rks.keeps_readonly[OF lockRacks_readonly(1)] rks.keeps_readonly[OF lockRacks_readonly(2)] split: option.splits)
  then show ?thesis unfolding Unmount_def by (intro rks.keeps_transaction) (auto simp: rks.keeps_def elim: triple_weaken)
qed

subsection \<open>Editing racks\<close>

lemma racks_ok_racks:
  assumes ok: "racks_ok Ov Out db" and "distinct (map rk_ID rs)" "\<And>r. r \<in> set rs \<Longrightarrow> rk_ID r < n \<and> sane (rk_HeightU r)"
    and ins: "\<And>p. p \<in> set (dc_placements db) \<Longrightarrow> 0 < heightOf db (dp_DeviceID p) \<Longrightarrow> insideRack db p \<Longrightarrow>
      \<exists>r \<in> set rs. rk_ID r = dp_RackID p \<and> 0 \<le> dp_OffsetTicks p \<and> dp_OffsetTicks p + heightOf db (dp_DeviceID p) \<le> rk_HeightU r * TicksPerU"
  shows "racks_ok Ov Out (db\<lparr>dc_racks := rs, dq_racks := n\<rparr>)"
proof -
  let ?db = "db\<lparr>dc_racks := rs, dq_racks := n\<rparr>"
  have s: "heightOf ?db = heightOf db" "cellsOf ?db = cellsOf db" by (rule sizes_frame; simp)+
  have "rows_ok ?db" using assms(1-3) by (simp add: racks_ok_def rows_ok_def)
  moreover have "overlapping ?db = overlapping db" unfolding overlapping_def s by simp
  moreover have "outside ?db \<subseteq> outside db" using ins unfolding outside_def by (auto simp: s) (auto simp: insideRack_def s)
  ultimately show ?thesis using ok unfolding racks_ok_def by blast
qed

lemma CreateRack_keeps:
  assumes "sane (rw_HeightU w)"
  shows "rks.keeps Ov Out (CreateRack w)"
proof -
  have "rks.keeps Ov Out (insertRack r)" if "sane (rk_HeightU r)" for r
    unfolding insertRack_def Let_def
  proof (rule rks.keeps_stmt, unfold snd_conv)
    fix db assume ok: "racks_ok Ov Out db"
    show "racks_ok Ov Out (db\<lparr>dc_racks := dc_racks db @ [(rackBeforeCreate r)\<lparr>rk_ID := dq_racks db\<rparr>], dq_racks := Suc (dq_racks db)\<rparr>)"
      by (rule racks_ok_racks[OF ok])
        (use ok that in \<open>auto simp: racks_ok_def rows_ok_def insideRack_def rackBeforeCreate_def less_Suc_eq sane_def\<close>)
  qed
  then show ?thesis unfolding CreateRack_def Let_def
    using assms by (intro rks.keeps_bind rks.keeps_guard rks.keeps_readonly[OF orErr_readonly[OF readonly_reads(3)]]) simp
qed

lemma ValidateRackHeight_triple:
  assumes PE: "\<And>db. P db \<Longrightarrow> E db" and ok: "\<And>db. P db \<Longrightarrow> rows_ok db"
  shows "triple P (ValidateRackHeight rack newH) (\<lambda>_ db. P db \<and> (\<forall>p \<in> set (dc_placements db). dp_RackID p = rk_ID rack \<longrightarrow>
     0 < heightOf db (dp_DeviceID p) \<longrightarrow> \<not> OutOfRack (dp_OffsetTicks p) (heightOf db (dp_DeviceID p)) (wrap64 (newH * TicksPerU)))) E"
  unfolding ValidateRackHeight_def Let_def
proof (rule guard_then, rule PE, assumption, rule triple_bind[OF occupancyMaps_triple[OF PE ok]], assumption, assumption, goal_cases)
  case (1 a)
  obtain ps hs ds where a: "a = (ps, hs, ds)" by (cases a) auto
  show ?case unfolding a prod.case by (rule triple_guard) (auto simp: list_ex_iff not_le intro: PE)
qed

lemma UpdateRack_keeps:
  assumes "sane (rw_HeightU w)"
  shows "rks.keeps Ov Out (UpdateRack i w)"
proof -
  let ?I = "racks_ok Ov Out"
  have save: "triple (\<lambda>db. ?I db \<and> r \<in> set (dc_racks db) \<and> (\<forall>p \<in> set (dc_placements db). dp_RackID p = rk_ID r \<longrightarrow>
       0 < heightOf db (dp_DeviceID p) \<longrightarrow> \<not> OutOfRack (dp_OffsetTicks p) (heightOf db (dp_DeviceID p)) (wrap64 (rk_HeightU r' * TicksPerU))))
     (saveRack r') (\<lambda>_. ?I) ?I"
    if r': "rk_ID r' = rk_ID r" "rk_HeightU r' = rk_HeightU r \<or> sane (rk_HeightU r')" for r r'
  proof -
    have "?I (db\<lparr>dc_racks := map (\<lambda>q. if rk_ID q = rk_ID r' then r' else q) (dc_racks db)\<rparr>)"
      if ok: "?I db" and r: "r \<in> set (dc_racks db)" and v: "\<forall>p \<in> set (dc_placements db). dp_RackID p = rk_ID r \<longrightarrow>
         0 < heightOf db (dp_DeviceID p) \<longrightarrow> \<not> OutOfRack (dp_OffsetTicks p) (heightOf db (dp_DeviceID p)) (wrap64 (rk_HeightU r' * TicksPerU))" for db
    proof -
      let ?g = "\<lambda>q. if rk_ID q = rk_ID r' then r' else q"
      have rows: "rows_ok db" using ok by (simp add: racks_ok_def)
      have ids: "map rk_ID (map ?g (dc_racks db)) = map rk_ID (dc_racks db)" by simp
      have sn: "sane (rk_HeightU r')" using r' rows r by (auto simp: rows_ok_def)
      have "?I (db\<lparr>dc_racks := map ?g (dc_racks db), dq_racks := dq_racks db\<rparr>)"
      proof (rule racks_ok_racks[OF ok])
        show "distinct (map rk_ID (map ?g (dc_racks db)))" unfolding ids using rows by (simp add: rows_ok_def)
        show "rk_ID x < dq_racks db \<and> sane (rk_HeightU x)" if "x \<in> set (map ?g (dc_racks db))" for x
          using that rows r r'(1) sn by (auto simp: rows_ok_def split: if_splits)
        fix p assume p: "p \<in> set (dc_placements db)" "0 < heightOf db (dp_DeviceID p)" "insideRack db p"
        show "\<exists>x \<in> set (map ?g (dc_racks db)). rk_ID x = dp_RackID p \<and> 0 \<le> dp_OffsetTicks p \<and>
            dp_OffsetTicks p + heightOf db (dp_DeviceID p) \<le> rk_HeightU x * TicksPerU"
        proof (cases "dp_RackID p = rk_ID r")
          case True
          have "wrap64 (dp_OffsetTicks p + heightOf db (dp_DeviceID p)) = dp_OffsetTicks p + heightOf db (dp_DeviceID p)"
            using rows p(1) heightOf_sane[OF rows] by (intro wrap64_id sane_in64) (auto simp: rows_ok_def)
          moreover have "wrap64 (rk_HeightU r' * TicksPerU) = rk_HeightU r' * TicksPerU" using sn by (intro wrap64_id sane_in64)
          ultimately show ?thesis using v p True r r'(1) by (force simp: OutOfRack_def split: if_splits)
        next
          case False
          then show ?thesis using p(3) r'(1) unfolding insideRack_def by force
        qed
      qed
      then show ?thesis by simp
    qed
    then show ?thesis unfolding saveRack_def by (intro triple_stmt_total) auto
  qed
  have saved: "triple (\<lambda>db. ?I db \<and> r \<in> set (dc_racks db) \<and> (\<forall>p \<in> set (dc_placements db). dp_RackID p = rk_ID r \<longrightarrow>
       0 < heightOf db (dp_DeviceID p) \<longrightarrow> \<not> OutOfRack (dp_OffsetTicks p) (heightOf db (dp_DeviceID p)) (wrap64 (h * TicksPerU))))
     (dbind (saveRack r') (\<lambda>_. dret r')) (\<lambda>_. ?I) ?I"
    if r': "rk_ID r' = rk_ID r" "rk_HeightU r' = h" "h = rk_HeightU r \<or> sane h" for r r' h
    using save[of r' r] r' by (intro triple_bind[OF _ triple_ret]) simp_all
  have val: "triple (\<lambda>db. ?I db \<and> r \<in> set (dc_racks db)) (ValidateRackHeight r h) (\<lambda>_ db. ?I db \<and> r \<in> set (dc_racks db) \<and>
     (\<forall>p \<in> set (dc_placements db). dp_RackID p = rk_ID r \<longrightarrow>
       0 < heightOf db (dp_DeviceID p) \<longrightarrow> \<not> OutOfRack (dp_OffsetTicks p) (heightOf db (dp_DeviceID p)) (wrap64 (h * TicksPerU)))) ?I" for r h
    by (rule triple_weaken[OF ValidateRackHeight_triple[where P = "\<lambda>db. ?I db \<and> r \<in> set (dc_racks db)" and E = ?I]]) (auto simp: racks_ok_def)
  have rack: "triple ?I (orNotFound rackNotFound (First rk_ID dc_racks (\<lambda>r. rk_ID r = i))) (\<lambda>r db. ?I db \<and> r \<in> set (dc_racks db)) ?I"
    by (rule orNotFound_triple[OF triple_weaken[OF triple_First[where P = ?I and E = ?I]]]) auto
  show ?thesis unfolding rks.keeps_def UpdateRack_def Let_def
    apply (rule triple_bind[OF rack])
    apply (rule guard_then, blast)+
    apply (rule triple_bind[OF val])
    apply (rule guard_then, blast)
    apply (rule saved)
      apply (use assms in simp_all)
    done
qed

lemma DeleteRack_keeps: "rks.keeps Ov Out (DeleteRack i)"
proof -
  let ?I = "racks_ok Ov Out"
  let ?N = "\<lambda>r db. ?I db \<and> rk_ID r = i \<and> (\<forall>p \<in> set (dc_placements db). dp_RackID p \<noteq> i)"
  have rack: "triple ?I (orNotFound rackNotFound (First rk_ID dc_racks (\<lambda>r. rk_ID r = i))) (\<lambda>r db. ?I db \<and> rk_ID r = i) ?I"
    by (rule orNotFound_triple[OF triple_weaken[OF triple_First[where P = ?I and E = ?I]]]) auto
  have plans: "triple (?N r) (deletePlanRacks Q) (\<lambda>_. ?N r) (\<lambda>_. True)" for r Q
    unfolding deletePlanRacks_def by (rule triple_stmt_total) (auto elim: racks_ok_frame)
  have del: "?I (db\<lparr>dc_racks := filter (\<lambda>q. rk_ID q \<noteq> rk_ID r) (dc_racks db)\<rparr>)" if "?N r db" for r db
  proof -
    have "?I (db\<lparr>dc_racks := filter (\<lambda>q. rk_ID q \<noteq> rk_ID r) (dc_racks db), dq_racks := dq_racks db\<rparr>)"
    proof (rule racks_ok_racks)
      fix p assume "p \<in> set (dc_placements db)" "insideRack db p"
      moreover from this have "dp_RackID p \<noteq> rk_ID r" using that by auto
      ultimately show "\<exists>x \<in> set (filter (\<lambda>q. rk_ID q \<noteq> rk_ID r) (dc_racks db)). rk_ID x = dp_RackID p \<and> 0 \<le> dp_OffsetTicks p \<and>
          dp_OffsetTicks p + heightOf db (dp_DeviceID p) \<le> rk_HeightU x * TicksPerU"
        unfolding insideRack_def by force
    qed (use that in \<open>auto simp: racks_ok_def rows_ok_def distinct_map_filter\<close>)
    then show ?thesis by simp
  qed
  have row: "triple (?N r) (deleteRackRow (rk_ID r)) (\<lambda>_. ?I) (\<lambda>_. True)" for r
    unfolding deleteRackRow_def by (rule triple_stmt_total) (auto simp del: simp_thms intro: del)
  have tx: "triple (?N r) (transaction dcim_rollback (dbind (deletePlanRacks Q) (\<lambda>_. deleteRackRow (rk_ID r)))) (\<lambda>_. ?I) ?I" for r Q
    by (rule triple_transaction[OF triple_bind[OF plans row]]) (auto intro: racks_ok_rollback)
  have cnt: "triple (\<lambda>db. ?I db \<and> rk_ID r = i) (Count dc_placements (\<lambda>p. dp_RackID p = i))
     (\<lambda>n db. (?I db \<and> rk_ID r = i) \<and> n = length (filter (\<lambda>p. dp_RackID p = i) (dc_placements db))) ?I" for r
    by (rule triple_Count) blast
  show ?thesis unfolding rks.keeps_def DeleteRack_def
    apply (rule triple_bind[OF rack])
    apply (rule guard_then, blast)
    apply (rule triple_bind[OF cnt])
    apply (rule guard_then, blast)
    apply (rule triple_weaken[OF tx])
      apply (auto simp: filter_empty_conv)
    done
qed

subsection \<open>Resizing a device type\<close>

text \<open>What the check of a rack gives: the placements of the type fit with the new size, beside all others.\<close>

definition resizeFits :: "int \<Rightarrow> bool \<Rightarrow> DevicePlacement list \<Rightarrow> dcim_db \<Rightarrow> DevicePlacement \<Rightarrow> bool" where
  "resizeFits h full ps db p \<longleftrightarrow> 0 < h \<and> (\<exists>r \<in> set (dc_racks db). rk_ID r = dp_RackID p \<and> \<not> OutOfRack (dp_OffsetTicks p) h (rackHeightTicks r)) \<and>
     (\<forall>q \<in> set (dc_placements db). dp_RackID q = dp_RackID p \<longrightarrow> dp_DeviceID q \<noteq> dp_DeviceID p \<longrightarrow>
        cells h full p \<inter> (if q \<in> set ps then cells h full q else cellsOf db q) = {})"

lemma resizeRack_readonly: "readonly (resizeRack h full ps rid)"
  unfolding resizeRack_def validateSlot_def Let_def case_prod_beta by (intro readonly_rules dcim_readonly readonly_for)

lemma validateSlots_triple:
  assumes "\<And>db. P db \<Longrightarrow> E db"
  shows "triple P (dfor ps (\<lambda>p. validateSlot rack (dp_OffsetTicks p) h (l p)))
     (\<lambda>_ db. P db \<and> (\<forall>p \<in> set ps. 0 < h \<and> \<not> OutOfRack (dp_OffsetTicks p) h (rackHeightTicks rack))) E"
proof (rule readonly_for_triple)
  show "readonly (validateSlot rack (dp_OffsetTicks p) h (l p))" for p unfolding validateSlot_def by (intro readonly_rules)
  show "triple P (validateSlot rack (dp_OffsetTicks p) h (l p)) (\<lambda>_ db. P db \<and> 0 < h \<and> \<not> OutOfRack (dp_OffsetTicks p) h (rackHeightTicks rack)) E" for p
    unfolding validateSlot_def by (intro guard_then assms triple_guard) (auto intro: assms)
qed (rule assms)

lemma resizeRack_triple:
  assumes PE: "\<And>db. P db \<Longrightarrow> E db" and ok: "\<And>db. P db \<Longrightarrow> rows_ok db" and h: "sane h"
    and ps: "\<And>db. P db \<Longrightarrow> set ps \<subseteq> set (dc_placements db)"
  shows "triple P (resizeRack h full ps rid) (\<lambda>_ db. P db \<and> (\<forall>p \<in> set ps. dp_RackID p = rid \<longrightarrow> resizeFits h full ps db p)) E"
proof -
  let ?mine = "filter (\<lambda>p. dp_RackID p = rid) ps"
  let ?ids = "dp_DeviceID ` set ?mine"
  let ?P1 = "\<lambda>rack db. P db \<and> rack \<in> set (dc_racks db) \<and> rk_ID rack = rid"
  let ?P2 = "\<lambda>rack all hs ds db. ?P1 rack db \<and> all = filter (\<lambda>p. dp_RackID p = rid) (dc_placements db) \<and>
     (\<forall>p \<in> set all. getInt hs (dp_DeviceID p) = heightOf db (dp_DeviceID p) \<and> getBool ds (dp_DeviceID p) = fullOf db (dp_DeviceID p))"
  let ?P3 = "\<lambda>rack all hs ds db. ?P2 rack all hs ds db \<and> (\<forall>p \<in> set ?mine. 0 < h \<and> \<not> OutOfRack (dp_OffsetTicks p) h (rackHeightTicks rack))"
  have t1: "triple P (First rk_ID dc_racks (\<lambda>r. rk_ID r = rid)) ?P1 E" by (rule triple_First[OF PE])
  have t2: "triple (?P1 rack) (occupancyMaps rid) (\<lambda>(all, hs, ds). ?P2 rack all hs ds) E" for rack
    by (rule triple_weaken[OF occupancyMaps_triple[where P = "?P1 rack" and E = E]]) (auto intro: PE ok)
  have t3: "triple (?P2 rack all hs ds) (dfor ?mine (\<lambda>p. validateSlot rack (dp_OffsetTicks p) h (placementIsLocal p))) (\<lambda>_. ?P3 rack all hs ds) E" for rack all hs ds
    by (rule validateSlots_triple) (auto intro: PE)
  have fin: "\<forall>p \<in> set ps. dp_RackID p = rid \<longrightarrow> resizeFits h full ps db p"
    if P3: "?P3 rack all hs ds db" and free: "list_all (\<lambda>p. slotFree (OccupancyFromPlacements all (\<lambda>i. if i \<in> ?ids then h else getInt hs i)
      (\<lambda>i. if i \<in> ?ids then full else getBool ds i)) (dp_DeviceID p) (dp_OffsetTicks p) h (dp_Face p) full) ?mine" for rack all hs ds db
  proof (intro ballI impI)
    fix p assume p: "p \<in> set ps" "dp_RackID p = rid"
    have rows: "rows_ok db" using P3 ok by blast
    have mem: "q \<in> set (dc_placements db)" if "q \<in> set ps" for q using that ps[of db] P3 by auto
    have mine: "dp_DeviceID q \<in> ?ids \<longleftrightarrow> q \<in> set ps" if q: "q \<in> set (dc_placements db)" "dp_RackID q = rid" for q
    proof -
      have "x = q" if "x \<in> set (dc_placements db)" "dp_DeviceID x = dp_DeviceID q" for x
        using that q(1) rows by (auto simp: rows_ok_def distinct_map dest: inj_onD)
      then show ?thesis using q(2) mem by fastforce
    qed
    have dis: "cells h full p \<inter> (if q \<in> set ps then cells h full q else cellsOf db q) = {}"
      if q: "q \<in> set (dc_placements db)" "dp_RackID q = dp_RackID p" "dp_DeviceID q \<noteq> dp_DeviceID p" for q
    proof -
      have qa: "q \<in> set all" using P3 q p by auto
      have sn: "sane (dp_OffsetTicks p)" "sane (dp_OffsetTicks q)" using rows mem[OF p(1)] q(1) by (auto simp: rows_ok_def)
      have g: "getInt hs (dp_DeviceID q) = heightOf db (dp_DeviceID q)" "getBool ds (dp_DeviceID q) = fullOf db (dp_DeviceID q)"
        using P3 qa by blast+
      have sf: "slotFree (OccupancyFromPlacements all (\<lambda>i. if i \<in> ?ids then h else getInt hs i) (\<lambda>i. if i \<in> ?ids then full else getBool ds i))
          (dp_DeviceID p) (dp_OffsetTicks p) h (dp_Face p) full"
        using free p by (simp add: list_all_iff)
      have "cells h full p \<inter> cells (if dp_DeviceID q \<in> ?ids then h else getInt hs (dp_DeviceID q))
          (if dp_DeviceID q \<in> ?ids then full else getBool ds (dp_DeviceID q)) q = {}"
        by (rule slotFree_disjoint[OF sf qa q(3) h sn]) (use h g heightOf_sane[OF rows] in auto)
      then show ?thesis using mine[of q] q p(2) g unfolding cellsOf_def by (simp split: if_splits)
    qed
    have "0 < h" "rack \<in> set (dc_racks db)" "rk_ID rack = rid" "\<not> OutOfRack (dp_OffsetTicks p) h (rackHeightTicks rack)"
      using P3 p by auto
    then show "resizeFits h full ps db p"
      using p(2) unfolding resizeFits_def by (intro conjI ballI impI dis bexI[of _ rack]) auto
  qed
  have t4: "triple (?P3 rack all hs ds) (dguard (list_all (\<lambda>p. slotFree (OccupancyFromPlacements all (\<lambda>i. if i \<in> ?ids then h else getInt hs i)
      (\<lambda>i. if i \<in> ?ids then full else getBool ds i)) (dp_DeviceID p) (dp_OffsetTicks p) h (dp_Face p) full) ?mine) err)
      (\<lambda>_ db. P db \<and> (\<forall>p \<in> set ps. dp_RackID p = rid \<longrightarrow> resizeFits h full ps db p)) E" for rack all hs ds err
  proof (rule triple_guard, goal_cases)
    case (1 db)
    let ?C = "list_all (\<lambda>p. slotFree (OccupancyFromPlacements all (\<lambda>i. if i \<in> ?ids then h else getInt hs i)
      (\<lambda>i. if i \<in> ?ids then full else getBool ds i)) (dp_DeviceID p) (dp_OffsetTicks p) h (dp_Face p) full) ?mine"
    show ?case
    proof (cases ?C)
      case True
      show ?thesis unfolding if_P[OF True] using fin[OF 1 True] 1 by blast
    next
      case False
      show ?thesis unfolding if_not_P[OF False] using 1 PE by blast
    qed
  qed
  show ?thesis unfolding resizeRack_def Let_def
    apply (rule triple_bind[OF t1])
    apply (rule triple_bind[OF t2])
    subgoal for rack a
      by (cases a) (simp only: prod.case, rule triple_bind[OF t3], rule t4)
    done
qed

definition typePlacements :: "dcim_db \<Rightarrow> nat \<Rightarrow> DevicePlacement list" where
  "typePlacements db i = filter (\<lambda>p. dp_DeviceID p \<in> dv_ID ` set (filter (\<lambda>d. dv_DeviceTypeID d = i) (dc_devices db))) (dc_placements db)"

definition resizeChecked :: "nat \<Rightarrow> int option \<Rightarrow> bool option \<Rightarrow> dcim_db \<Rightarrow> bool" where
  "resizeChecked i nh nf db \<longleftrightarrow> (\<forall>h. nh = Some h \<longrightarrow> (\<exists>f. (\<forall>b. nf = Some b \<longrightarrow> f = b) \<and>
     (\<forall>p \<in> set (typePlacements db i). resizeFits h f (typePlacements db i) db p)))"

lemma ValidateDeviceTypeResize_readonly: "readonly (ValidateDeviceTypeResize i nh nf)"
  unfolding ValidateDeviceTypeResize_def Let_def case_prod_beta by (intro readonly_rules readonly_for resizeRack_readonly)

lemma ValidateDeviceTypeResize_triple:
  assumes PE: "\<And>db. P db \<Longrightarrow> E db" and ok: "\<And>db. P db \<Longrightarrow> rows_ok db" and sn: "\<And>h. nh = Some h \<Longrightarrow> sane h"
  shows "triple P (ValidateDeviceTypeResize i nh nf) (\<lambda>_ db. P db \<and> (i \<noteq> 0 \<longrightarrow> resizeChecked i nh nf db)) E"
proof (cases "i = 0 \<or> nh = None")
  case True
  then have "i \<noteq> 0 \<longrightarrow> resizeChecked i nh nf db" for db by (auto simp: resizeChecked_def)
  then show ?thesis using readonly_triple[OF ValidateDeviceTypeResize_readonly PE] by (auto intro: triple_weaken)
next
  case False
  then obtain h where i: "i \<noteq> 0" and h: "nh = Some h" by auto
  let ?P1 = "\<lambda>devices db. P db \<and> devices = filter (\<lambda>d. dv_DeviceTypeID d = i) (dc_devices db)"
  let ?P2 = "\<lambda>devices ps db. ?P1 devices db \<and> ps = filter (\<lambda>p. dp_DeviceID p \<in> dv_ID ` set devices) (dc_placements db)"
  let ?Q = "\<lambda>_ db. P db \<and> (i \<noteq> 0 \<longrightarrow> resizeChecked i nh nf db)"
  have t1: "triple P (Find dc_devices (\<lambda>d. dv_DeviceTypeID d = i)) ?P1 E" by (rule triple_Find[OF PE])
  have t2: "triple (?P1 ds) (Find dc_placements (\<lambda>p. dp_DeviceID p \<in> dv_ID ` set ds)) (?P2 ds) E" for ds
    by (rule triple_Find) (blast intro: PE)
  have loop: "triple (?P2 ds ps) (dbind (dfor (remdups (map dp_RackID ps)) (resizeRack h full ps)) (\<lambda>_. dret ())) ?Q E"
    if hf: "\<forall>b. nf = Some b \<longrightarrow> full = b" for ds ps full
  proof -
    have t: "triple (?P2 ds ps) (dfor (remdups (map dp_RackID ps)) (resizeRack h full ps))
        (\<lambda>_ db. ?P2 ds ps db \<and> (\<forall>rid \<in> set (remdups (map dp_RackID ps)). \<forall>p \<in> set ps. dp_RackID p = rid \<longrightarrow> resizeFits h full ps db p)) E"
      by (intro readonly_for_triple resizeRack_readonly resizeRack_triple) (use PE ok sn[OF h] in auto)
    have chk: "resizeChecked i nh nf db"
      if P2: "?P2 ds ps db" and all: "\<forall>rid \<in> set (remdups (map dp_RackID ps)). \<forall>p \<in> set ps. dp_RackID p = rid \<longrightarrow> resizeFits h full ps db p" for db
    proof -
      have "typePlacements db i = ps" using P2 by (simp add: typePlacements_def)
      moreover have "\<forall>p \<in> set ps. resizeFits h full ps db p" using all by simp
      ultimately show ?thesis using hf h unfolding resizeChecked_def by auto
    qed
    show ?thesis by (rule triple_bind[OF t], rule triple_ret) (use chk in blast)
  qed
  have nil: "resizeChecked i nh nf db" if "typePlacements db i = []" for db
    using that by (cases nf) (auto simp: resizeChecked_def)
  have none: "triple (?P1 []) (dret ()) ?Q E" "triple (?P2 ds []) (dret ()) ?Q E" for ds
  proof -
    have n1: "typePlacements db i = []" if "?P1 [] db" for db
    proof -
      from that have "filter (\<lambda>d. dv_DeviceTypeID d = i) (dc_devices db) = []" by simp
      then show ?thesis unfolding typePlacements_def by (simp only: list.set image_empty empty_iff) simp
    qed
    have n2: "typePlacements db i = []" if "?P2 ds [] db" for db
    proof -
      from that have d: "ds = filter (\<lambda>d. dv_DeviceTypeID d = i) (dc_devices db)"
        and e: "[] = filter (\<lambda>p. dp_DeviceID p \<in> dv_ID ` set ds) (dc_placements db)" by blast+
      show ?thesis unfolding typePlacements_def d[symmetric] by (rule e[symmetric])
    qed
    show "triple (?P1 []) (dret ()) ?Q E" by (rule triple_ret) (use n1 nil in blast)
    show "triple (?P2 ds []) (dret ()) ?Q E" by (rule triple_ret) (use n2 nil in blast)
  qed
  have body: "triple (?P2 ds ps) (dbind (First ty_ID dc_types (\<lambda>t. ty_ID t = i)) (\<lambda>dt.
      case heightAndDepth dt of (height0, full0, known0) \<Rightarrow>
      let height = (case nh of Some h \<Rightarrow> h | None \<Rightarrow> height0); known = (nh \<noteq> None \<or> known0);
          full = (case nf of Some f \<Rightarrow> f | None \<Rightarrow> full0)
      in if \<not> known then dret () else if height = 0 then dfail err
         else dbind (dfor (remdups (map dp_RackID ps)) (resizeRack height full ps)) (\<lambda>_. dret ()))) ?Q E" for ds ps err
  proof (rule readonly_then[OF readonly_reads(3)], blast intro: PE, goal_cases)
    case (1 dt)
    have "triple (?P2 ds ps) (dfail err) ?Q E" by (rule triple_fail) (blast intro: PE)
    moreover have "\<forall>b. nf = Some b \<longrightarrow> (case nf of Some f \<Rightarrow> f | None \<Rightarrow> fst (snd (heightAndDepth dt))) = b" by simp
    note loop[OF this, of ds ps]
    ultimately show ?case
      by (simp only: h Let_def case_prod_beta option.case option.distinct simp_thms if_True if_False split: if_split) (intro conjI impI)
  qed
  show ?thesis unfolding ValidateDeviceTypeResize_def if_not_P[OF i]
  proof (rule triple_bind[OF t1], goal_cases)
    case (1 ds)
    show ?case
    proof (cases "ds = []")
      case True
      show ?thesis unfolding if_P[OF True] using none(1) unfolding True .
    next
      case False
      show ?thesis unfolding if_not_P[OF False]
      proof (rule triple_bind[OF t2], goal_cases)
        case (1 ps)
        show ?case
        proof (cases "ps = []")
          case True
          show ?thesis unfolding if_P[OF True] using none(2)[of ds] unfolding True .
        next
          case False
          show ?thesis unfolding if_not_P[OF False] by (rule body)
        qed
      qed
    qed
  qed
qed

lemma cells_mono: "(f \<Longrightarrow> f') \<Longrightarrow> cells h f p \<subseteq> cells h f' p"
  by (auto simp: cells_def OccupiesFace_def)

lemma cells_empty: "h \<le> 0 \<Longrightarrow> cells h f p = {}"
  by (auto simp: cells_def)

lemma racks_ok_resize:
  assumes ok: "racks_ok Ov Out db" and row: "row \<in> set (dc_types db)" and row': "ty_ID row' = ty_ID row"
    and sn: "\<And>h. ty_HeightTicks row' = Some h \<Longrightarrow> sane h" and chk: "resizeChecked (ty_ID row) (ty_HeightTicks row') (ty_FullDepth row') db"
  shows "racks_ok Ov Out (db\<lparr>dc_types := map (\<lambda>q. if ty_ID q = ty_ID row' then row' else q) (dc_types db)\<rparr>)"
proof -
  let ?g = "\<lambda>q. if ty_ID q = ty_ID row' then row' else q"
  let ?i = "ty_ID row"
  define db' where "db' = db\<lparr>dc_types := map ?g (dc_types db)\<rparr>"
  define h where "h = fst (heightAndDepth row')"
  define f where "f = fst (snd (heightAndDepth row'))"
  let ?tp = "typePlacements db ?i"
  have rows: "rows_ok db" using ok by (simp add: racks_ok_def)
  have ty: "typeOfDevice db' v = (if dv_DeviceTypeID v = ?i then row' else typeOfDevice db v)" for v
  proof -
    have "find (\<lambda>t. ty_ID t = j) (map ?g ts) = (case find (\<lambda>t. ty_ID t = j) ts of None \<Rightarrow> None | Some t \<Rightarrow> Some (?g t))" for j ts
      by (induction ts) (auto split: option.splits)
    moreover have "find (\<lambda>t. ty_ID t = ?i) (dc_types db) = Some row" using row rows by (intro find_key) (simp add: rows_ok_def)
    ultimately show ?thesis using row' by (auto simp: typeOfDevice_def db'_def split: option.splits dest: find_mem)
  qed
  have tp: "p \<in> set ?tp \<longleftrightarrow> p \<in> set (dc_placements db) \<and> (\<exists>v. find (\<lambda>v. dv_ID v = dp_DeviceID p) (dc_devices db) = Some v \<and> dv_DeviceTypeID v = ?i)" for p
  proof -
    have "find (\<lambda>v. dv_ID v = dv_ID x) (dc_devices db) = Some x" if "x \<in> set (dc_devices db)" for x
      using that rows by (intro find_key) (simp add: rows_ok_def)
    then show ?thesis by (auto simp: typePlacements_def image_iff) (metis (mono_tags, lifting) find_mem)
  qed
  have sizes: "heightOf db' (dp_DeviceID p) = (if p \<in> set ?tp then h else heightOf db (dp_DeviceID p))"
    "cellsOf db' p = (if p \<in> set ?tp then cells h f p else cellsOf db p)" if p: "p \<in> set (dc_placements db)" for p
  proof -
    have dv: "dc_devices db' = dc_devices db" by (simp add: db'_def)
    have "heightOf db' (dp_DeviceID p) = (if p \<in> set ?tp then h else heightOf db (dp_DeviceID p)) \<and>
        fullOf db' (dp_DeviceID p) = (if p \<in> set ?tp then f else fullOf db (dp_DeviceID p))"
    proof (cases "find (\<lambda>v. dv_ID v = dp_DeviceID p) (dc_devices db)")
      case None
      then show ?thesis using tp[of p] by (simp add: heightOf_def fullOf_def dv)
    next
      case (Some v)
      then show ?thesis using tp[of p] p by (simp add: heightOf_def fullOf_def dv ty h_def f_def)
    qed
    then show "heightOf db' (dp_DeviceID p) = (if p \<in> set ?tp then h else heightOf db (dp_DeviceID p))"
      "cellsOf db' p = (if p \<in> set ?tp then cells h f p else cellsOf db p)" by (simp_all add: cellsOf_def)
  qed
  have fit: "\<exists>f'. (f \<longrightarrow> f') \<and> sane h \<and> (\<forall>p \<in> set ?tp. resizeFits h f' ?tp db p)" if pos: "0 < h"
  proof -
    obtain x where x: "ty_HeightTicks row' = Some x" "h = x"
      using pos by (cases "ty_HeightTicks row'") (auto simp: h_def heightAndDepth_def split: if_splits)
    have "f \<longrightarrow> ty_FullDepth row' = Some True" using x by (auto simp: f_def heightAndDepth_def split: option.splits)
    then show ?thesis using chk x sn[OF x(1)] unfolding resizeChecked_def by metis
  qed
  have inside: "insideRack db' p = (if p \<in> set ?tp then \<exists>r \<in> set (dc_racks db). rk_ID r = dp_RackID p \<and> 0 \<le> dp_OffsetTicks p \<and>
      dp_OffsetTicks p + h \<le> rk_HeightU r * TicksPerU else insideRack db p)" if "p \<in> set (dc_placements db)" for p
    using sizes(1)[OF that] by (simp add: insideRack_def db'_def)
  have disj: "cellsOf db' p \<inter> cellsOf db' q = {}"
    if pq: "p \<in> set ?tp" "q \<in> set (dc_placements db)" "dp_RackID q = dp_RackID p" "dp_DeviceID q \<noteq> dp_DeviceID p" for p q
  proof (cases "0 < h")
    case True
    then obtain f' where f': "f \<longrightarrow> f'" "\<forall>p \<in> set ?tp. resizeFits h f' ?tp db p" using fit by blast
    have "cells h f' p \<inter> (if q \<in> set ?tp then cells h f' q else cellsOf db q) = {}" using f'(2) pq unfolding resizeFits_def by blast
    moreover have "cellsOf db' p \<subseteq> cells h f' p" using sizes(2)[of p] pq(1) tp[of p] cells_mono[of f f' h p] f'(1) by simp
    moreover have "cellsOf db' q \<subseteq> (if q \<in> set ?tp then cells h f' q else cellsOf db q)"
      using sizes(2)[OF pq(2)] cells_mono[of f f' h q] f'(1) by simp
    ultimately show ?thesis by blast
  next
    case False
    then show ?thesis using pq tp sizes(2)[of p] cells_empty[of h f p] by auto
  qed
  have "rows_ok db'"
  proof -
    have "map ty_ID (dc_types db') = map ty_ID (dc_types db)" by (simp add: db'_def)
    then have "distinct (map ty_ID (dc_types db'))" using rows by (simp only: rows_ok_def)
    moreover have "\<forall>t \<in> set (dc_types db'). 0 < ty_ID t \<and> (\<forall>h. ty_HeightTicks t = Some h \<longrightarrow> sane h)"
      using rows row row' sn by (auto simp: db'_def rows_ok_def)
    ultimately show ?thesis using rows by (simp add: rows_ok_def db'_def)
  qed
  moreover have "overlapping db' \<subseteq> overlapping db"
  proof (rule subsetI, clarify)
    fix a b assume "(a, b) \<in> overlapping db'"
    then obtain p q where pq: "p \<in> set (dc_placements db)" "q \<in> set (dc_placements db)" "a = dp_DeviceID p" "b = dp_DeviceID q"
      "dp_DeviceID p \<noteq> dp_DeviceID q" "dp_RackID p = dp_RackID q" "cellsOf db' p \<inter> cellsOf db' q \<noteq> {}"
      by (auto simp: overlapping_def db'_def)
    then have "p \<notin> set ?tp" "q \<notin> set ?tp" using disj[of p q] disj[of q p] by (auto simp: Int_commute)
    then have "cellsOf db p \<inter> cellsOf db q \<noteq> {}" using pq(7) sizes(2)[OF pq(1)] sizes(2)[OF pq(2)] by simp
    then show "(a, b) \<in> overlapping db" using pq unfolding overlapping_def by blast
  qed
  moreover have "outside db' \<subseteq> outside db"
  proof
    fix d assume "d \<in> outside db'"
    then obtain p where p: "p \<in> set (dc_placements db)" "d = dp_DeviceID p" "0 < heightOf db' d" "\<not> insideRack db' p"
      by (auto simp: outside_def db'_def)
    have "p \<notin> set ?tp"
    proof
      assume t: "p \<in> set ?tp"
      then have "0 < h" using p sizes(1)[of p] by simp
      then obtain r where r: "sane h" "r \<in> set (dc_racks db)" "rk_ID r = dp_RackID p" "\<not> OutOfRack (dp_OffsetTicks p) h (rackHeightTicks r)"
        using fit t unfolding resizeFits_def by blast
      have "sane (dp_OffsetTicks p)" "sane (rk_HeightU r)" using rows p(1) r(2) by (auto simp: rows_ok_def)
      then have "wrap64 (dp_OffsetTicks p + h) = dp_OffsetTicks p + h" "rackHeightTicks r = rk_HeightU r * TicksPerU"
        using r(1) by (simp_all add: rackHeightTicks_def wrap64_id sane_in64(1,2))
      then show False using p(1,4) t inside r by (auto simp: OutOfRack_def split: if_splits)
    qed
    then show "d \<in> outside db" using p sizes(1)[OF p(1)] inside[OF p(1)] by (auto simp: outside_def)
  qed
  ultimately show ?thesis using ok unfolding racks_ok_def db'_def by blast
qed

lemma ApiDeviceTypeUpdateChecked_keeps:
  assumes "\<And>h. td_HeightTicks dto = Some h \<Longrightarrow> sane h"
  shows "rks.keeps Ov Out (ApiDeviceTypeUpdateChecked i dto)"
proof -
  let ?I = "racks_ok Ov Out"
  let ?C = "\<lambda>db. ?I db \<and> (i \<noteq> 0 \<longrightarrow> resizeChecked i (td_HeightTicks dto) (td_FullDepth dto) db)"
  have val: "triple ?I (ValidateDeviceTypeResize i (td_HeightTicks dto) (td_FullDepth dto)) (\<lambda>_. ?C) ?I"
    by (rule ValidateDeviceTypeResize_triple) (auto simp: racks_ok_def assms)
  have row: "triple ?C (orNotFound e (First ty_ID dc_types (\<lambda>t. ty_ID t = i))) (\<lambda>row db. ?C db \<and> row \<in> set (dc_types db) \<and> ty_ID row = i) ?I" for e
    by (rule orNotFound_triple[OF triple_First]) blast
  have save: "triple (\<lambda>db. ?C db \<and> row \<in> set (dc_types db) \<and> ty_ID row = i) (dbind (saveDeviceType row') (\<lambda>_. dret row')) (\<lambda>_. ?I) ?I"
    if r: "ty_ID row' = ty_ID row" "ty_HeightTicks row' = td_HeightTicks dto" "ty_FullDepth row' = td_FullDepth dto" for row row'
  proof -
    have "?I (db\<lparr>dc_types := map (\<lambda>q. if ty_ID q = ty_ID row' then row' else q) (dc_types db)\<rparr>)"
      if "?C db" "row \<in> set (dc_types db)" "ty_ID row = i" for db
    proof (rule racks_ok_resize)
      have "i \<noteq> 0" using that by (auto simp: racks_ok_def rows_ok_def)
      then show "resizeChecked (ty_ID row) (ty_HeightTicks row') (ty_FullDepth row') db" using that r by simp
    qed (use that r assms in auto)
    then have "triple (\<lambda>db. ?C db \<and> row \<in> set (dc_types db) \<and> ty_ID row = i) (saveDeviceType row') (\<lambda>_. ?I) ?I"
      unfolding saveDeviceType_def by (intro triple_stmt_total) blast+
    then show ?thesis by (rule triple_bind) (rule triple_ret)
  qed
  show ?thesis unfolding rks.keeps_def ApiDeviceTypeUpdateChecked_def Let_def
    by (rule triple_bind[OF val], rule triple_bind[OF row], rule save) simp_all
qed

subsection \<open>Any sequence of requests\<close>

datatype dcim_request =
    ReqPlace PlaceRequest
  | ReqUnmount nat int
  | ReqCreateRack RackWrite
  | ReqUpdateRack nat RackWrite
  | ReqDeleteRack nat
  | ReqUpdateType nat DeviceTypeDTO

primrec saneRequest :: "dcim_request \<Rightarrow> bool" where
  "saneRequest (ReqPlace req) \<longleftrightarrow> sane (pr_OffsetTicks req)"
| "saneRequest (ReqUnmount d v) \<longleftrightarrow> True"
| "saneRequest (ReqCreateRack w) \<longleftrightarrow> sane (rw_HeightU w)"
| "saneRequest (ReqUpdateRack i w) \<longleftrightarrow> sane (rw_HeightU w)"
| "saneRequest (ReqDeleteRack i) \<longleftrightarrow> True"
| "saneRequest (ReqUpdateType i dto) \<longleftrightarrow> (case td_HeightTicks dto of Some h \<Rightarrow> sane h | None \<Rightarrow> True)"

definition forget :: "'a dcim \<Rightarrow> unit dcim" where
  "forget m = dcase m (\<lambda>_. dret ())"

primrec serveDcim :: "dcim_request \<Rightarrow> unit dcim" where
  "serveDcim (ReqPlace req) = forget (Place req)"
| "serveDcim (ReqUnmount d v) = forget (Unmount d v)"
| "serveDcim (ReqCreateRack w) = forget (CreateRack w)"
| "serveDcim (ReqUpdateRack i w) = forget (UpdateRack i w)"
| "serveDcim (ReqDeleteRack i) = forget (DeleteRack i)"
| "serveDcim (ReqUpdateType i dto) = forget (ApiDeviceTypeUpdateChecked i dto)"

lemma serveDcim_keeps: "saneRequest r \<Longrightarrow> rks.keeps Ov Out (serveDcim r)"
  by (cases r) (auto simp: forget_def split: option.splits intro!: rks.keeps_case rks.keeps_ret Place_keeps Unmount_keeps CreateRack_keeps UpdateRack_keeps
      DeleteRack_keeps ApiDeviceTypeUpdateChecked_keeps)

lemma keeps_for_set: "(\<And>x. x \<in> set xs \<Longrightarrow> rks.keeps Ov Out (f x)) \<Longrightarrow> rks.keeps Ov Out (dfor xs f)"
  by (induction xs) (auto intro!: rks.keeps_ret rks.keeps_bind)

text \<open>
  C6: Whatever devices are placed, moved and unmounted, racks created, resized and deleted, and device types resized,
  in whatever order and whichever database statements fail, no two devices come to overlap on a face of a rack and
  no device comes to lie outside its rack: the overlapping pairs and the devices outside are among those there were
  before, which imports may have brought. Offsets and heights must stay below 2 to the power 62.
\<close>

theorem racks_never_overlap:
  assumes "rows_ok db" and "\<forall>r \<in> set reqs. saneRequest r"
  shows "overlapping (fst (snd (dfor reqs serveDcim (db, evs)))) \<subseteq> overlapping db \<and>
    outside (fst (snd (dfor reqs serveDcim (db, evs)))) \<subseteq> outside db"
proof -
  have "racks_ok (overlapping db) (outside db) (fst (snd (dfor reqs serveDcim (db, evs))))"
    by (rule rks.keepsD[OF keeps_for_set[OF serveDcim_keeps]]) (use assms in \<open>auto simp: racks_ok_def\<close>)
  then show ?thesis by (simp add: racks_ok_def)
qed

definition exampleRoom :: dcim_db where
  "exampleRoom = \<lparr>dc_sites = [\<lparr>si_ID = 5, si_Name = ''north'', si_NetboxKind = [], si_NetboxID = 0\<rparr>,
       \<lparr>si_ID = 6, si_Name = ''south'', si_NetboxKind = SiteNetboxKindSite, si_NetboxID = 5\<rparr>],
     dc_devices = [\<lparr>dv_ID = 1, dv_SiteID = 5, dv_NetboxID = 0, dv_VM = False, dv_DeviceTypeID = 1\<rparr>,
       \<lparr>dv_ID = 2, dv_SiteID = 5, dv_NetboxID = 9, dv_VM = False, dv_DeviceTypeID = 2\<rparr>],
     dc_types = map (\<lambda>i. \<lparr>ty_ID = i, ty_ManufacturerID = 1, ty_Model = ''m'', ty_Slug = ''m'', ty_PlatformID = 0, ty_VM = False,
       ty_HeightTicks = Some 2, ty_FullDepth = None, ty_FrontImage = [], ty_RearImage = []\<rparr>) [1, 2],
     dc_racks = [\<lparr>rk_ID = 1, rk_SiteID = 5, rk_Name = ''r1'', rk_Source = DCIMSourceFactum, rk_NetboxID = 0, rk_HeightU = 42, rk_WidthMM = 600, rk_DepthMM = 1000,
       rk_StartUnit = 1, rk_Numbering = RackNumberingAscending, rk_Version = 1\<rparr>],
     dq_racks = 2, dc_placements = [], dq_placements = 1, dc_plans = [], dq_plans = 1, dc_planracks = [], dq_planracks = 1, dc_annotations = [], dq_annotations = 1\<rparr>"

definition mount :: "nat \<Rightarrow> int \<Rightarrow> PlaceRequest" where
  "mount d off = \<lparr>pr_DeviceID = d, pr_RackID = 1, pr_OffsetTicks = off, pr_Face = [], pr_Version = 0\<rparr>"

lemma exampleRoom_ok: "rows_ok exampleRoom" "overlapping exampleRoom = {}" "outside exampleRoom = {}"
  by (simp_all add: exampleRoom_def rows_ok_def overlapping_def outside_def sane_def)

lemma exampleRoom_run:
  "map dp_DeviceID (dc_placements (fst (snd (dfor [ReqPlace (mount 1 0), ReqPlace (mount 2 0), ReqPlace (mount 2 2)] serveDcim (exampleRoom, []))))) = [1, 2]"
  by code_simp

theorem racks_never_overlap_witness:
  "rows_ok exampleRoom \<and> list_all saneRequest [ReqPlace (mount 1 0), ReqPlace (mount 2 0), ReqPlace (mount 2 2)] \<and>
   overlapping (fst (snd (dfor [ReqPlace (mount 1 0), ReqPlace (mount 2 0), ReqPlace (mount 2 2)] serveDcim (exampleRoom, [])))) = {}"
proof -
  have s: "\<forall>r \<in> set [ReqPlace (mount 1 0), ReqPlace (mount 2 0), ReqPlace (mount 2 2)]. saneRequest r" by (simp add: mount_def sane_def)
  show ?thesis using s exampleRoom_ok racks_never_overlap[OF exampleRoom_ok(1) s, of "[]"] unfolding list_all_iff by blast
qed

subsection \<open>Where the code goes astray\<close>

text \<open>
  An offset at the end of the integer range passes \<open>OutOfRack\<close>, whose sum wraps: the device is stored outside its rack.
\<close>

lemma Place_wraps:
  "fst (Place (mount 1 (2 ^ 63 - 2)) (exampleRoom, [])) = Inr \<lparr>dp_ID = 1, dp_DeviceID = 1, dp_RackID = 1, dp_OffsetTicks = 2 ^ 63 - 2,
     dp_Face = DeviceFaceFront, dp_Source = DCIMSourceFactum, dp_Version = 1, dp_Conflict = []\<rparr>"
  by code_simp

text \<open>
  An update of a device type that leaves out the height passes the check with the old height and then drops it: the
  placed device no longer counts, and another one can be put in its place.
\<close>

definition noHeight :: DeviceTypeDTO where
  "noHeight = \<lparr>td_ManufacturerID = 0, td_Model = [], td_Slug = ''m'', td_PlatformID = 0, td_VM = False, td_HeightTicks = None, td_FullDepth = None,
     td_FrontImage = [], td_RearImage = []\<rparr>"

lemma type_update_frees_slot:
  "map (\<lambda>p. (dp_DeviceID p, dp_RackID p, dp_OffsetTicks p, dp_Face p)) (dc_placements (fst (snd
     (dfor [ReqPlace (mount 1 0), ReqUpdateType 1 noHeight, ReqPlace (mount 2 0)] serveDcim (exampleRoom, []))))) =
   [(1, 1, 0, DeviceFaceFront), (2, 1, 0, DeviceFaceFront)]"
  by code_simp

text \<open>
  An imported device with NetBox site 5, the local site 6, is taken to be at the local site 5 as well.
\<close>

lemma imported_at_wrong_site:
  "fst (LocalSiteIDsForDevice \<lparr>dv_ID = 2, dv_SiteID = 5, dv_NetboxID = 9, dv_VM = False, dv_DeviceTypeID = 2\<rparr> (exampleRoom, [])) = Inr [5, 6]"
  by code_simp

end
