(* ===== verification/Dcim_Floor.thy ===== *)
theory Dcim_Floor
  imports Dcim_Rack
begin

text \<open>
  Floor plans, \<open>internal/dcim/floor.go\<close>: racks drawn in a room. Snapping to the grid computes in floating point and
  is left out, as is the reading of a plan for display.

  Lemmas: a saved layout replaces the drawing of the plan as a whole, with every rack at the site of the plan, inside
  the room and apart from every other rack.
\<close>

subsection \<open>Footprints\<close>

record Footprint =
  fp_MinX :: int
  fp_MinY :: int
  fp_MaxX :: int
  fp_MaxY :: int

definition rotatedFootprint :: "int \<Rightarrow> int \<Rightarrow> int \<Rightarrow> int \<Rightarrow> int \<Rightarrow> Footprint" where
  "rotatedFootprint x y width depth rotation =
     (let w = (if width \<le> 0 then 600 else width); d = (if depth \<le> 0 then 1000 else depth);
          rot = go_mod (go_mod rotation 360 + 360) 360;
          (w, d) = (if rot = 90 \<or> rot = 270 then (d, w)
                    else if rot = 0 \<or> rot = 180 then (w, d)
                    else let rot = (rot div 90) * 90 in if rot = 90 \<or> rot = 270 then (d, w) else (w, d))
      in \<lparr>fp_MinX = x, fp_MinY = y, fp_MaxX = wrap64 (x + w), fp_MaxY = wrap64 (y + d)\<rparr>)"

definition footprintsOverlap :: "Footprint \<Rightarrow> Footprint \<Rightarrow> bool" where
  "footprintsOverlap a b \<longleftrightarrow> fp_MinX a < fp_MaxX b \<and> fp_MinX b < fp_MaxX a \<and> fp_MinY a < fp_MaxY b \<and> fp_MinY b < fp_MaxY a"

subsection \<open>Layouts\<close>

record FloorPlanRackDTO =
  fw_RackID :: nat
  fw_XMM :: int
  fw_YMM :: int
  fw_Rotation :: int

record FloorPlanAnnotationDTO =
  aw_Kind :: string
  aw_Text :: string
  aw_XMM :: int
  aw_YMM :: int
  aw_WidthMM :: int
  aw_HeightMM :: int
  aw_Rotation :: int

record FloorLayoutWrite =
  lw_Revision :: int
  lw_WidthMM :: int
  lw_HeightMM :: int
  lw_GridMM :: int
  lw_Racks :: "FloorPlanRackDTO list"
  lw_Annotations :: "FloorPlanAnnotationDTO list"

definition maxFloorRacks :: nat where "maxFloorRacks = 200"
definition maxFloorAnnotations :: nat where "maxFloorAnnotations = 200"

definition deleteAnnotations :: "nat \<Rightarrow> unit dcim" where
  "deleteAnnotations i = stmt (\<lambda>db. (Inr (), db\<lparr>dc_annotations := filter (\<lambda>a. fa_FloorPlanID a \<noteq> i) (dc_annotations db)\<rparr>))"

definition insertPlanRack :: "FloorPlanRack \<Rightarrow> unit dcim" where
  "insertPlanRack r = stmt (\<lambda>db.
     if list_ex (\<lambda>q. fr_FloorPlanID q = fr_FloorPlanID r \<and> fr_RackID q = fr_RackID r) (dc_planracks db)
     then (Inl uniqueViolation, db\<lparr>dq_planracks := Suc (dq_planracks db)\<rparr>)
     else (Inr (), db\<lparr>dc_planracks := dc_planracks db @ [r\<lparr>fr_ID := dq_planracks db\<rparr>], dq_planracks := Suc (dq_planracks db)\<rparr>))"

definition insertAnnotation :: "FloorPlanAnnotation \<Rightarrow> unit dcim" where
  "insertAnnotation a = stmt (\<lambda>db. (Inr (),
     db\<lparr>dc_annotations := dc_annotations db @ [a\<lparr>fa_ID := dq_annotations db\<rparr>], dq_annotations := Suc (dq_annotations db)\<rparr>))"

definition insertPlan :: "FloorPlan \<Rightarrow> FloorPlan dcim" where
  "insertPlan p = stmt (\<lambda>db.
     let p' = p\<lparr>fl_ID := dq_plans db, fl_WidthMM := (if fl_WidthMM p = 0 then 20000 else fl_WidthMM p),
           fl_HeightMM := (if fl_HeightMM p = 0 then 15000 else fl_HeightMM p), fl_GridMM := (if fl_GridMM p = 0 then 600 else fl_GridMM p),
           fl_Revision := (if fl_Revision p = 0 then 1 else fl_Revision p)\<rparr>
     in (Inr p', db\<lparr>dc_plans := dc_plans db @ [p'], dq_plans := Suc (dq_plans db)\<rparr>))"

definition savePlan :: "FloorPlan \<Rightarrow> unit dcim" where
  "savePlan p = stmt (\<lambda>db. (Inr (), db\<lparr>dc_plans := map (\<lambda>q. if fl_ID q = fl_ID p then p else q) (dc_plans db)\<rparr>))"

definition CreateFloorPlan :: "nat \<Rightarrow> string \<Rightarrow> int \<Rightarrow> int \<Rightarrow> int \<Rightarrow> FloorPlan dcim" where
  "CreateFloorPlan siteID name0 width height grid =
     (let name = TrimSpace name0; inval = ReasonErr 400 ReasonInvalid
      in dbind (dguard (name \<noteq> []) (inval ''name is required'')) (\<lambda>_.
         dbind (dguard (siteID \<noteq> 0) (inval ''site_id is required'')) (\<lambda>_.
         dbind (orErr (inval ''site not found'') (First si_ID dc_sites (\<lambda>s. si_ID s = siteID))) (\<lambda>_.
         insertPlan \<lparr>fl_ID = 0, fl_SiteID = siteID, fl_Name = name, fl_WidthMM = width, fl_HeightMM = height, fl_GridMM = grid, fl_Revision = 0\<rparr>))))"

definition RenameFloorPlan :: "nat \<Rightarrow> string \<Rightarrow> FloorPlan dcim" where
  "RenameFloorPlan i name0 =
     (let name = TrimSpace name0
      in dbind (dguard (name \<noteq> []) (ReasonErr 400 ReasonInvalid ''name is required'')) (\<lambda>_.
         dbind (orErr (ReasonErr 404 ReasonNotFound ''floor plan not found'') (First fl_ID dc_plans (\<lambda>p. fl_ID p = i))) (\<lambda>p.
         dbind (stmt (\<lambda>db. (Inr (), db\<lparr>dc_plans := map (\<lambda>q. if fl_ID q = fl_ID p then q\<lparr>fl_Name := name\<rparr> else q) (dc_plans db)\<rparr>))) (\<lambda>_.
         dret (p\<lparr>fl_Name := name\<rparr>)))))"

text \<open>The loop over the racks of a layout; a converted integer is always a finite number.\<close>

fun checkRacks :: "FloorPlan \<Rightarrow> int \<Rightarrow> int \<Rightarrow> nat list \<Rightarrow> Footprint list \<Rightarrow> FloorPlanRackDTO list \<Rightarrow> unit dcim" where
  "checkRacks p width height seen fps [] = dret ()"
| "checkRacks p width height seen fps (row # rows) =
     (let inval = ReasonErr 400 ReasonInvalid
      in dbind (dguard (fw_RackID row \<noteq> 0) (inval ''rack_id is required'')) (\<lambda>_.
         dbind (dguard (fw_RackID row \<notin> set seen) (inval ''a rack can appear only once on a plan'')) (\<lambda>_.
         dbind (dguard (\<not> go_mod (fw_Rotation row) 90 \<noteq> 0) (inval ''rotation must be a 90-degree increment'')) (\<lambda>_.
         dbind (orErr (inval ''rack not found'') (First rk_ID dc_racks (\<lambda>r. rk_ID r = fw_RackID row))) (\<lambda>rack.
         dbind (dguard (\<not> rk_SiteID rack \<noteq> fl_SiteID p) (inval ''rack is not at this plan's site'')) (\<lambda>_.
         let fp = rotatedFootprint (fw_XMM row) (fw_YMM row) (rk_WidthMM rack) (rk_DepthMM rack) (fw_Rotation row)
         in dbind (dguard (\<not> (fp_MinX fp < 0 \<or> fp_MinY fp < 0 \<or> fp_MaxX fp > width \<or> fp_MaxY fp > height))
              (ReasonErr 400 ReasonOutOfBounds ''rack footprint is outside the room'')) (\<lambda>_.
            dbind (dguard (\<not> list_ex (footprintsOverlap fp) fps) (ReasonErr 409 ReasonOverlap ''rack footprints overlap'')) (\<lambda>_.
            checkRacks p width height (fw_RackID row # seen) (fps @ [fp]) rows))))))))"

definition planRackOf :: "nat \<Rightarrow> FloorPlanRackDTO \<Rightarrow> FloorPlanRack" where
  "planRackOf i row = \<lparr>fr_ID = 0, fr_FloorPlanID = i, fr_RackID = fw_RackID row, fr_XMM = fw_XMM row, fr_YMM = fw_YMM row, fr_Rotation = fw_Rotation row\<rparr>"

definition annotationOf :: "nat \<Rightarrow> FloorPlanAnnotationDTO \<Rightarrow> FloorPlanAnnotation" where
  "annotationOf i a = \<lparr>fa_ID = 0, fa_FloorPlanID = i, fa_Kind = aw_Kind a, fa_Text = aw_Text a, fa_XMM = aw_XMM a, fa_YMM = aw_YMM a,
     fa_WidthMM = aw_WidthMM a, fa_HeightMM = aw_HeightMM a, fa_Rotation = aw_Rotation a\<rparr>"

definition positiveOr :: "int \<Rightarrow> int \<Rightarrow> int" where
  "positiveOr v d = (if v > 0 then v else d)"

definition saveLayoutTx :: "nat \<Rightarrow> FloorLayoutWrite \<Rightarrow> unit dcim" where
  "saveLayoutTx i w =
     dbind (orErr (ReasonErr 404 ReasonNotFound ''floor plan not found'') (First fl_ID dc_plans (\<lambda>p. fl_ID p = i))) (\<lambda>p.
     let width = positiveOr (lw_WidthMM w) (fl_WidthMM p); height = positiveOr (lw_HeightMM w) (fl_HeightMM p); grid = positiveOr (lw_GridMM w) (fl_GridMM p)
     in dbind (dguard (\<not> (lw_Revision w \<noteq> 0 \<and> fl_Revision p \<noteq> lw_Revision w)) (ReasonErr 409 ReasonStaleVersion ''floor plan was changed by another editor'')) (\<lambda>_.
        dbind (dguard (\<not> (width \<le> 0 \<or> height \<le> 0 \<or> grid \<le> 0)) (ReasonErr 400 ReasonInvalid ''plan dimensions must be positive'')) (\<lambda>_.
        dbind (checkRacks p width height [] [] (lw_Racks w)) (\<lambda>_.
        dbind (dguard (list_all (\<lambda>a. aw_Kind a \<in> {FloorAnnotationLabel, FloorAnnotationAisle, FloorAnnotationZone}) (lw_Annotations w))
          (ReasonErr 400 ReasonInvalid ''unknown annotation kind'')) (\<lambda>_.
        dbind (deletePlanRacks (\<lambda>q. fr_FloorPlanID q = i)) (\<lambda>_.
        dbind (deleteAnnotations i) (\<lambda>_.
        dbind (dfor (lw_Racks w) (\<lambda>row. insertPlanRack (planRackOf i row))) (\<lambda>_.
        dbind (dfor (lw_Annotations w) (\<lambda>a. insertAnnotation (annotationOf i a))) (\<lambda>_.
        savePlan (p\<lparr>fl_WidthMM := width, fl_HeightMM := height, fl_GridMM := grid, fl_Revision := wrap64 (fl_Revision p + 1)\<rparr>))))))))))"

text \<open>The reply, the plan read back, is left out.\<close>

definition SaveFloorLayout :: "nat \<Rightarrow> FloorLayoutWrite \<Rightarrow> unit dcim" where
  "SaveFloorLayout i w =
     dbind (dguard (\<not> length (lw_Racks w) > maxFloorRacks) (ReasonErr 400 ReasonInvalid ''too many racks on this plan'')) (\<lambda>_.
     dbind (dguard (\<not> length (lw_Annotations w) > maxFloorAnnotations) (ReasonErr 400 ReasonInvalid ''too many annotations on this plan'')) (\<lambda>_.
     transaction dcim_rollback (saveLayoutTx i w)))"

subsection \<open>A saved layout is sound\<close>

text \<open>The rectangle of floor a drawn rack stands on, in exact integers.\<close>

definition floorOf :: "dcim_db \<Rightarrow> FloorPlanRackDTO \<Rightarrow> (int \<times> int) set" where
  "floorOf db row = (case find (\<lambda>r. rk_ID r = fw_RackID row) (dc_racks db) of
     None \<Rightarrow> {}
   | Some r \<Rightarrow>
       let w = (if rk_WidthMM r \<le> 0 then 600 else rk_WidthMM r); d = (if rk_DepthMM r \<le> 0 then 1000 else rk_DepthMM r);
           turned = odd (fw_Rotation row div 90)
       in {fw_XMM row ..< fw_XMM row + (if turned then d else w)} \<times> {fw_YMM row ..< fw_YMM row + (if turned then w else d)})"

definition layoutSound :: "dcim_db \<Rightarrow> FloorPlan \<Rightarrow> FloorPlanRackDTO list \<Rightarrow> bool" where
  "layoutSound db p rows \<longleftrightarrow> distinct (map fw_RackID rows) \<and>
     (\<forall>row \<in> set rows. (\<exists>r \<in> set (dc_racks db). rk_ID r = fw_RackID row \<and> rk_SiteID r = fl_SiteID p) \<and>
        floorOf db row \<subseteq> {0 ..< fl_WidthMM p} \<times> {0 ..< fl_HeightMM p}) \<and>
     sorted_wrt (\<lambda>a b. floorOf db a \<inter> floorOf db b = {}) rows"

lemma rotation_norm: "go_mod (go_mod r 360 + 360) 360 = r mod 360"
proof -
  have "go_mod r 360 = (if r \<ge> 0 then r mod 360 else - ((- r) mod 360))" by (simp add: go_mod_def)
  moreover have "0 \<le> (- r) mod 360" "(- r) mod 360 < 360" by simp_all
  moreover have "(360 - (- r) mod 360) mod 360 = r mod 360" using mod_diff_right_eq[of 360 "- r" 360] by simp
  ultimately show ?thesis by (auto simp: go_mod_def)
qed

lemma quarter_turns:
  assumes "go_mod r 90 = 0"
  shows "r mod 360 = 90 \<or> r mod 360 = 270 \<longleftrightarrow> odd (r div 90)" "r mod 360 \<in> {0, 90, 180, 270}"
proof -
  have "r mod 90 = 0" using assms by (auto simp: go_mod_def split: if_splits)
  then obtain k where k: "r = 90 * k" by auto
  have "r mod 360 = 90 * (k mod 4)" using mult_mod_right[of 90 k 4] by (simp add: k)
  moreover have "k mod 4 \<in> {0, 1, 2, 3}" by (simp, presburger)
  moreover have "odd k \<longleftrightarrow> k mod 4 = 1 \<or> k mod 4 = 3" by presburger
  ultimately show "r mod 360 = 90 \<or> r mod 360 = 270 \<longleftrightarrow> odd (r div 90)" "r mod 360 \<in> {0, 90, 180, 270}" by (auto simp: k)
qed

definition rectOf :: "Footprint \<Rightarrow> (int \<times> int) set" where
  "rectOf f = {fp_MinX f ..< fp_MaxX f} \<times> {fp_MinY f ..< fp_MaxY f}"

lemma apart: "\<not> footprintsOverlap a b \<Longrightarrow> rectOf a \<inter> rectOf b = {}"
  by (auto simp: footprintsOverlap_def rectOf_def)

lemma footprint_floor:
  assumes "find (\<lambda>r. rk_ID r = fw_RackID row) (dc_racks db) = Some rack" "go_mod (fw_Rotation row) 90 = 0"
    and "sane (fw_XMM row)" "sane (fw_YMM row)" "sane (rk_WidthMM rack)" "sane (rk_DepthMM rack)"
  shows "rectOf (rotatedFootprint (fw_XMM row) (fw_YMM row) (rk_WidthMM rack) (rk_DepthMM rack) (fw_Rotation row)) = floorOf db row"
proof -
  let ?w = "if rk_WidthMM rack \<le> 0 then 600 else rk_WidthMM rack"
  let ?d = "if rk_DepthMM rack \<le> 0 then 1000 else rk_DepthMM rack"
  have sn: "sane ?w" "sane ?d" using assms(5,6) by (auto simp: sane_def)
  have wr: "wrap64 (fw_XMM row + a) = fw_XMM row + a" "wrap64 (fw_YMM row + a) = fw_YMM row + a" if "sane a" for a
    using that assms(3,4) by (simp_all add: wrap64_id sane_in64(1))
  show ?thesis
    using quarter_turns[OF assms(2)] wr sn assms(1) unfolding rotatedFootprint_def rotation_norm floorOf_def rectOf_def
    by (auto simp: Let_def)
qed

lemma orErr_triple: "triple P m Q E \<Longrightarrow> triple P (orErr e m) Q E"
  unfolding orErr_def by (erule triple_case) (auto intro: triple_ret triple_fail)

lemma checkRacks_readonly: "readonly (checkRacks p width height seen fps rows)"
  by (induction rows arbitrary: seen fps) (simp_all only: checkRacks.simps Let_def, (intro readonly_rules dcim_readonly; assumption?)+)

lemma checkRacks_triple:
  assumes PE: "\<And>db. P db \<Longrightarrow> E db" and ok: "\<And>db. P db \<Longrightarrow> distinct (map rk_ID (dc_racks db)) \<and> (\<forall>r \<in> set (dc_racks db). sane (rk_WidthMM r) \<and> sane (rk_DepthMM r))"
    and sn: "\<forall>row \<in> set rows. sane (fw_XMM row) \<and> sane (fw_YMM row)"
  shows "triple P (checkRacks p width height seen fps rows) (\<lambda>_ db. P db \<and> distinct (map fw_RackID rows) \<and> fw_RackID ` set rows \<inter> set seen = {} \<and>
     (\<forall>row \<in> set rows. (\<exists>r \<in> set (dc_racks db). rk_ID r = fw_RackID row \<and> rk_SiteID r = fl_SiteID p) \<and> floorOf db row \<subseteq> {0 ..< width} \<times> {0 ..< height} \<and>
        (\<forall>f \<in> set fps. floorOf db row \<inter> rectOf f = {})) \<and>
     sorted_wrt (\<lambda>a b. floorOf db a \<inter> floorOf db b = {}) rows) E"
  using sn
proof (induction rows arbitrary: seen fps)
  case Nil
  then show ?case by (auto intro: triple_ret)
next
  case (Cons row rows)
  have rack: "triple P (orErr e (First rk_ID dc_racks (\<lambda>r. rk_ID r = fw_RackID row)))
      (\<lambda>r db. P db \<and> r \<in> set (dc_racks db) \<and> rk_ID r = fw_RackID row) E" for e
    by (rule orErr_triple[OF triple_First[OF PE]])
  let ?fp = "\<lambda>r. rotatedFootprint (fw_XMM row) (fw_YMM row) (rk_WidthMM r) (rk_DepthMM r) (fw_Rotation row)"
  have fp: "rectOf (?fp r) = floorOf db row" if "P db" "r \<in> set (dc_racks db)" "rk_ID r = fw_RackID row" "go_mod (fw_Rotation row) 90 = 0" for r db
    using that ok[OF that(1)] Cons.prems find_key[of rk_ID "dc_racks db" r] by (intro footprint_floor) auto
  let ?R = "\<lambda>r db. P db \<and> r \<in> set (dc_racks db) \<and> rk_ID r = fw_RackID row"
  let ?Q = "\<lambda>_ db. P db \<and> distinct (map fw_RackID (row # rows)) \<and> fw_RackID ` set (row # rows) \<inter> set seen = {} \<and>
     (\<forall>row \<in> set (row # rows). (\<exists>r \<in> set (dc_racks db). rk_ID r = fw_RackID row \<and> rk_SiteID r = fl_SiteID p) \<and> floorOf db row \<subseteq> {0 ..< width} \<times> {0 ..< height} \<and>
        (\<forall>f \<in> set fps. floorOf db row \<inter> rectOf f = {})) \<and>
     sorted_wrt (\<lambda>a b. floorOf db a \<inter> floorOf db b = {}) (row # rows)"
  have step: "triple (?R r) (checkRacks p width height (fw_RackID row # seen) (fps @ [?fp r]) rows) ?Q E"
    if g: "fw_RackID row \<notin> set seen" "\<not> go_mod (fw_Rotation row) 90 \<noteq> 0" "\<not> rk_SiteID r \<noteq> fl_SiteID p"
      "\<not> (fp_MinX (?fp r) < 0 \<or> fp_MinY (?fp r) < 0 \<or> fp_MaxX (?fp r) > width \<or> fp_MaxY (?fp r) > height)"
      "\<not> list_ex (footprintsOverlap (?fp r)) fps" for r
  proof -
    have sn': "\<forall>row \<in> set rows. sane (fw_XMM row) \<and> sane (fw_YMM row)" using Cons.prems by simp
    have room: "rectOf (?fp r) \<subseteq> {0 ..< width} \<times> {0 ..< height}" using g(4) by (auto simp: rectOf_def)
    have others: "\<forall>f \<in> set fps. rectOf (?fp r) \<inter> rectOf f = {}" using g(5) apart by (auto simp: list_ex_iff)
    note t = readonly_frame[OF checkRacks_readonly Cons.IH[OF sn', of "fw_RackID row # seen" "fps @ [?fp r]"],
        where A = "\<lambda>db. r \<in> set (dc_racks db) \<and> rk_ID r = fw_RackID row"]
    show ?thesis
    proof (rule triple_weaken[OF t], goal_cases)
      case (2 a db)
      then have fl: "rectOf (?fp r) = floorOf db row" using fp[of db r] g(2) by blast
      show ?case using 2 g(1,3) room others unfolding fl by (auto simp: fl Int_commute)
    qed blast+
  qed
  show ?case unfolding checkRacks.simps Let_def
    apply (rule guard_then, rule PE, assumption)
    apply (rule guard_then, rule PE, assumption)
    apply (rule guard_then, rule PE, assumption)
    apply (rule triple_bind[OF rack])
    apply (rule guard_then, blast intro: PE)
    apply (rule guard_then, blast intro: PE)
    apply (rule guard_then, blast intro: PE)
    apply (rule step)
         apply blast+
    done
qed

definition drawn :: "dcim_db \<Rightarrow> nat \<Rightarrow> FloorPlanRackDTO list" where
  "drawn db i = map (\<lambda>q. \<lparr>fw_RackID = fr_RackID q, fw_XMM = fr_XMM q, fw_YMM = fr_YMM q, fw_Rotation = fr_Rotation q\<rparr>)
     (filter (\<lambda>q. fr_FloorPlanID q = i) (dc_planracks db))"

definition otherPlans :: "dcim_db \<Rightarrow> nat \<Rightarrow> FloorPlanRack list" where
  "otherPlans db i = filter (\<lambda>q. fr_FloorPlanID q \<noteq> i) (dc_planracks db)"

text \<open>The tables while the drawing of plan \<open>i\<close> is being replaced: \<open>rows\<close> are drawn so far.\<close>

definition redrawn :: "dcim_db \<Rightarrow> nat \<Rightarrow> FloorPlanRackDTO list \<Rightarrow> dcim_db \<Rightarrow> bool" where
  "redrawn db0 i rows db \<longleftrightarrow> dc_racks db = dc_racks db0 \<and> dc_plans db = dc_plans db0 \<and> otherPlans db i = otherPlans db0 i \<and> drawn db i = rows"

lemma deletePlanRacks_redraw: "triple (\<lambda>db. db = db0) (deletePlanRacks (\<lambda>q. fr_FloorPlanID q = i)) (\<lambda>_. redrawn db0 i []) (\<lambda>_. True)"
  unfolding deletePlanRacks_def by (rule triple_stmt_total) (auto simp: redrawn_def drawn_def otherPlans_def)

lemma annotations_redraw:
  "triple (redrawn db0 i rows) (deleteAnnotations j) (\<lambda>_. redrawn db0 i rows) (\<lambda>_. True)"
  "triple (redrawn db0 i rows) (insertAnnotation a) (\<lambda>_. redrawn db0 i rows) (\<lambda>_. True)"
  unfolding deleteAnnotations_def insertAnnotation_def by (rule triple_stmt_total; simp add: redrawn_def drawn_def otherPlans_def)+

lemma insertAnnotations_redraw:
  "triple (redrawn db0 i rows) (dfor as (\<lambda>a. insertAnnotation (f a))) (\<lambda>_. redrawn db0 i rows) (\<lambda>_. True)"
proof (induction as)
  case (Cons a as)
  show ?case unfolding dfor.simps by (rule triple_bind[OF annotations_redraw(2)], rule triple_bind[OF Cons.IH], rule triple_ret)
qed (auto intro: triple_ret)

lemma insertPlanRack_redraw:
  "triple (redrawn db0 i rows) (insertPlanRack (planRackOf i row)) (\<lambda>_. redrawn db0 i (rows @ [row])) (\<lambda>_. True)"
  unfolding insertPlanRack_def by (rule triple_stmt_if) (auto simp: redrawn_def drawn_def otherPlans_def planRackOf_def)

lemma insertPlanRacks_redraw:
  "triple (redrawn db0 i drew) (dfor rows (\<lambda>row. insertPlanRack (planRackOf i row))) (\<lambda>_. redrawn db0 i (drew @ rows)) (\<lambda>_. True)"
proof (induction rows arbitrary: drew)
  case (Cons row rows)
  show ?case unfolding dfor.simps
    by (rule triple_bind[OF insertPlanRack_redraw], rule triple_bind[OF Cons.IH], rule triple_ret) simp
qed (auto intro: triple_ret)

lemma floorOf_racks: "dc_racks db' = dc_racks db \<Longrightarrow> floorOf db' = floorOf db"
  by (rule ext) (simp only: floorOf_def)

lemma layoutSound_racks: "dc_racks db' = dc_racks db \<Longrightarrow> layoutSound db' p rows = layoutSound db p rows"
  using floorOf_racks[of db' db] by (simp only: layoutSound_def)

lemma saveLayoutTx_triple:
  assumes racks: "distinct (map rk_ID (dc_racks db0))" "\<forall>r \<in> set (dc_racks db0). sane (rk_WidthMM r) \<and> sane (rk_DepthMM r)"
    and sn: "\<forall>row \<in> set (lw_Racks w). sane (fw_XMM row) \<and> sane (fw_YMM row)"
  shows "triple (\<lambda>db. db = db0) (saveLayoutTx i w) (\<lambda>_ db. dc_racks db = dc_racks db0 \<and> otherPlans db i = otherPlans db0 i \<and>
     drawn db i = lw_Racks w \<and> (\<exists>p \<in> set (dc_plans db). fl_ID p = i \<and> layoutSound db p (lw_Racks w))) (\<lambda>_. True)"
proof -
  let ?D = "\<lambda>p. p\<lparr>fl_WidthMM := positiveOr (lw_WidthMM w) (fl_WidthMM p), fl_HeightMM := positiveOr (lw_HeightMM w) (fl_HeightMM p),
      fl_GridMM := positiveOr (lw_GridMM w) (fl_GridMM p), fl_Revision := wrap64 (fl_Revision p + 1)\<rparr>"
  let ?P = "\<lambda>p db. db = db0 \<and> p \<in> set (dc_plans db0) \<and> fl_ID p = i"
  let ?L = "\<lambda>p. p \<in> set (dc_plans db0) \<and> fl_ID p = i \<and> layoutSound db0 (?D p) (lw_Racks w)"
  have t1: "triple (\<lambda>db. db = db0) (orErr e (First fl_ID dc_plans (\<lambda>p. fl_ID p = i))) ?P (\<lambda>_. True)" for e
    by (rule orErr_triple[OF triple_weaken[OF triple_First[where P = "\<lambda>db. db = db0" and E = "\<lambda>_. True"]]]) auto
  have t2: "triple (?P p) (checkRacks p (positiveOr (lw_WidthMM w) (fl_WidthMM p)) (positiveOr (lw_HeightMM w) (fl_HeightMM p)) [] [] (lw_Racks w))
      (\<lambda>_ db. db = db0 \<and> ?L p) (\<lambda>_. True)" for p
    by (rule triple_weaken[OF checkRacks_triple[where P = "?P p" and E = "\<lambda>_. True"]]) (use racks sn in \<open>auto simp: layoutSound_def\<close>)
  have fin: "triple (redrawn db0 i ([] @ lw_Racks w)) (savePlan (?D p)) (\<lambda>_ db. dc_racks db = dc_racks db0 \<and> otherPlans db i = otherPlans db0 i \<and>
     drawn db i = lw_Racks w \<and> (\<exists>p \<in> set (dc_plans db). fl_ID p = i \<and> layoutSound db p (lw_Racks w))) (\<lambda>_. True)" if L: "?L p" for p
    unfolding savePlan_def
  proof (rule triple_stmt_total, goal_cases)
    case (2 db)
    let ?db = "db\<lparr>dc_plans := map (\<lambda>q. if fl_ID q = fl_ID (?D p) then ?D p else q) (dc_plans db)\<rparr>"
    have "?D p \<in> set (dc_plans ?db)" using 2 L by (force simp: redrawn_def)
    moreover have "layoutSound ?db (?D p) (lw_Racks w)" using L layoutSound_racks[of ?db db0] 2 by (simp add: redrawn_def)
    moreover have "fl_ID (?D p) = i" using L by simp
    moreover have "dc_racks ?db = dc_racks db0" "otherPlans ?db i = otherPlans db0 i" "drawn ?db i = lw_Racks w"
      using 2 by (simp_all add: redrawn_def otherPlans_def drawn_def)
    ultimately show ?case by blast
  qed simp_all
  have del: "triple (\<lambda>db. db = db0 \<and> ?L p) (dbind (deletePlanRacks (\<lambda>q. fr_FloorPlanID q = i)) (\<lambda>_.
        dbind (deleteAnnotations i) (\<lambda>_. dbind (dfor (lw_Racks w) (\<lambda>row. insertPlanRack (planRackOf i row))) (\<lambda>_.
        dbind (dfor (lw_Annotations w) (\<lambda>a. insertAnnotation (annotationOf i a))) (\<lambda>_. savePlan (?D p))))))
      (\<lambda>_ db. dc_racks db = dc_racks db0 \<and> otherPlans db i = otherPlans db0 i \<and>
     drawn db i = lw_Racks w \<and> (\<exists>p \<in> set (dc_plans db). fl_ID p = i \<and> layoutSound db p (lw_Racks w))) (\<lambda>_. True)" for p
    by (rule triple_pure, rule triple_bind[OF deletePlanRacks_redraw], rule triple_bind[OF annotations_redraw(1)],
        rule triple_bind[OF insertPlanRacks_redraw], rule triple_bind[OF insertAnnotations_redraw], rule fin)
  show ?thesis unfolding saveLayoutTx_def Let_def
    apply (rule triple_bind[OF t1])
    apply (rule guard_then, blast)
    apply (rule guard_then, blast)
    apply (rule triple_bind[OF t2])
    apply (rule guard_then, blast)
    apply (rule del)
    done
qed


definition exampleFloor :: dcim_db where
  "exampleFloor = exampleRoom\<lparr>dc_plans := [\<lparr>fl_ID = 1, fl_SiteID = 5, fl_Name = ''hall'', fl_WidthMM = 20000, fl_HeightMM = 15000, fl_GridMM = 600, fl_Revision = 1\<rparr>]\<rparr>"

definition exampleLayout :: FloorLayoutWrite where
  "exampleLayout = \<lparr>lw_Revision = 1, lw_WidthMM = 0, lw_HeightMM = 0, lw_GridMM = 0,
     lw_Racks = [\<lparr>fw_RackID = 1, fw_XMM = 600, fw_YMM = 0, fw_Rotation = 90\<rparr>], lw_Annotations = []\<rparr>"

lemma exampleLayout_run: "fst (SaveFloorLayout 1 exampleLayout (exampleFloor, [])) = Inr ()"
  by code_simp


end
