(* ===== verification/Dcim_Graph.thy ===== *)
theory Dcim_Graph
  imports Optical_Models
begin

text \<open>
  The neighbourhood of a device in the connection graph, \<open>internal/dcim/graph.go\<close>: the breadth-first expansion from
  the seed, the cut to a bounded number of devices, and the cables drawn. Reading names, ports and racks of the
  nodes is left out.

  Lemmas: the expansion ends, and finds exactly the devices within the given number of cables, with their distances;
  every cable touching them is drawn unless the answer says it is truncated.
\<close>

definition maxGraphDevices :: nat where "maxGraphDevices = 200"
definition maxGraphEdges :: nat where "maxGraphEdges = 500"
definition maxGraphDepth :: int where "maxGraphDepth = 3"

record GraphQuery =
  gq_SiteID :: nat
  gq_RackID :: nat
  gq_DeviceID :: nat
  gq_Depth :: int

definition ItoaInt :: "int \<Rightarrow> string" where
  "ItoaInt n = (if n < 0 then ''-'' @ Itoa (nat (- n)) else Itoa (nat n))"

definition GraphScopeKey :: "GraphQuery \<Rightarrow> string" where
  "GraphScopeKey q =
     (if gq_DeviceID q \<noteq> 0 then
        ''device:'' @ Itoa (gq_DeviceID q) @ '':d'' @ ItoaInt (if gq_Depth q \<le> 0 then 1 else gq_Depth q)
      else if gq_RackID q \<noteq> 0 then ''rack:'' @ Itoa (gq_RackID q)
      else if gq_SiteID q \<noteq> 0 then ''site:'' @ Itoa (gq_SiteID q)
      else ''all'')"

definition graphDepth :: "int \<Rightarrow> nat" where
  "graphDepth d = nat (if d \<le> 0 then 1 else if d > maxGraphDepth then maxGraphDepth else d)"

subsection \<open>Breadth-first expansion\<close>

text \<open>The adjacency map: the cables of a device in table order, a cable with both ends on it twice.\<close>

definition adjOf :: "Connection list \<Rightarrow> nat \<Rightarrow> Connection list" where
  "adjOf conns i = concat (map (\<lambda>c. (if cn_DeviceAID c = i then [c] else []) @ (if cn_DeviceBID c = i then [c] else [])) conns)"

definition otherDevice :: "nat \<Rightarrow> Connection \<Rightarrow> nat" where
  "otherDevice i c = (if cn_DeviceBID c = i then cn_DeviceAID c else cn_DeviceBID c)"

text \<open>The distances so far, in the order in which the devices were found, and the queue.\<close>

fun scanCables :: "nat \<Rightarrow> nat \<Rightarrow> Connection list \<Rightarrow> (nat \<times> nat) list \<times> nat list \<Rightarrow> (nat \<times> nat) list \<times> nat list" where
  "scanCables i d [] st = st"
| "scanCables i d (c # cs) (scope, queue) =
     (let other = otherDevice i c
      in if map_of scope other \<noteq> None then scanCables i d cs (scope, queue)
         else scanCables i d cs (scope @ [(other, d + 1)], queue @ [other]))"

definition graphDevices :: "Connection list \<Rightarrow> nat set" where
  "graphDevices conns = cn_DeviceAID ` set conns \<union> cn_DeviceBID ` set conns"

lemma otherDevice_mem: "c \<in> set (adjOf conns i) \<Longrightarrow> otherDevice i c \<in> graphDevices conns"
  by (auto simp: adjOf_def otherDevice_def graphDevices_def split: if_splits)

lemma scanCables_scope:
  assumes "scanCables i d cs (scope, queue) = (scope', queue')"
  shows "\<exists>ns. scope' = scope @ map (\<lambda>n. (n, d + 1)) ns \<and> queue' = queue @ ns \<and> distinct ns \<and>
    set ns = otherDevice i ` set cs - dom (map_of scope)"
  using assms
proof (induction i d cs "(scope, queue)" arbitrary: scope queue rule: scanCables.induct)
  case (1 i d)
  then show ?case by (intro exI[of _ "[]"]) auto
next
  case (2 i d c cs scope queue)
  let ?o = "otherDevice i c"
  show ?case
  proof (cases "map_of scope ?o = None")
    case True
    then have run: "scanCables i d cs (scope @ [(?o, d + 1)], queue @ [?o]) = (scope', queue')" using 2(3) by (simp add: Let_def)
    obtain ns where ns: "scope' = (scope @ [(?o, d + 1)]) @ map (\<lambda>n. (n, d + 1)) ns" "queue' = (queue @ [?o]) @ ns" "distinct ns"
      "set ns = otherDevice i ` set cs - dom (map_of (scope @ [(?o, d + 1)]))"
      using 2(2)[OF refl _ run] True by auto
    have "dom (map_of (scope @ [(?o, d + 1)])) = insert ?o (dom (map_of scope))" by (auto simp: map_add_def split: option.splits)
    then show ?thesis using ns True by (intro exI[of _ "?o # ns"]) auto
  next
    case False
    then show ?thesis using 2(1)[OF refl] 2(3) by (auto simp: Let_def)
  qed
qed

function expandScope :: "Connection list \<Rightarrow> nat \<Rightarrow> (nat \<times> nat) list \<Rightarrow> nat list \<Rightarrow> (nat \<times> nat) list" where
  "expandScope conns depth scope [] = scope"
| "expandScope conns depth scope (i # queue) =
     (let d = (case map_of scope i of Some d \<Rightarrow> d | None \<Rightarrow> 0)
      in if d \<ge> depth then expandScope conns depth scope queue
         else (case scanCables i d (adjOf conns i) (scope, queue) of (scope', queue') \<Rightarrow> expandScope conns depth scope' queue'))"
  by pat_completeness auto
termination expandScope
proof (relation "measures [\<lambda>(conns, _, scope, _). card (graphDevices conns - dom (map_of scope)), \<lambda>(_, _, _, queue). length queue]", goal_cases)
  case (3 conns depth scope i queue d scope' queue')
  then obtain ns where ns: "scope' = scope @ map (\<lambda>n. (n, d + 1)) ns" "queue' = queue @ ns" "distinct ns"
    "set ns = otherDevice i ` set (adjOf conns i) - dom (map_of scope)"
    using scanCables_scope[of i d "adjOf conns i" scope queue scope' queue'] by auto
  show ?case
  proof (cases "ns = []")
    case True
    then show ?thesis using ns by simp
  next
    case False
    have fin: "finite (graphDevices conns)" by (simp add: graphDevices_def)
    have dom: "dom (map_of scope') = dom (map_of scope) \<union> set ns"
      unfolding ns(1) by (auto simp: dom_map_of_conv_image_fst image_Un image_image)
    obtain n where "n \<in> set ns" using False by (cases ns) auto
    moreover from this have "n \<in> graphDevices conns" "n \<notin> dom (map_of scope)" using ns(4) otherDevice_mem by auto
    ultimately have "graphDevices conns - dom (map_of scope') \<subset> graphDevices conns - dom (map_of scope)"
      unfolding dom by blast
    then have "card (graphDevices conns - dom (map_of scope')) < card (graphDevices conns - dom (map_of scope))"
      by (intro psubset_card_mono) (use fin in auto)
    then show ?thesis by simp
  qed
qed auto

definition neighbourhood :: "Connection list \<Rightarrow> nat \<Rightarrow> nat \<Rightarrow> (nat \<times> nat) list" where
  "neighbourhood conns depth seed = expandScope conns depth [(seed, 0)] [seed]"

subsection \<open>Truncation and cables\<close>

definition scopeLess :: "nat \<times> nat \<Rightarrow> nat \<times> nat \<Rightarrow> bool" where
  "scopeLess a b \<longleftrightarrow> (if snd a \<noteq> snd b then snd a < snd b else fst a < fst b)"

definition truncateScope :: "(nat \<times> nat) list \<Rightarrow> bool \<times> (nat \<times> nat) list" where
  "truncateScope scope =
     (if length scope > maxGraphDevices then (True, take maxGraphDevices (order_by scopeLess scope)) else (False, scope))"

record GraphEdge =
  ge_ID :: nat
  ge_Label :: string
  ge_DeviceAID :: nat
  ge_InterfaceAID :: nat
  ge_DeviceBID :: nat
  ge_InterfaceBID :: nat
  ge_Unavailable :: bool

definition edgeOf :: "Connection \<Rightarrow> GraphEdge" where
  "edgeOf c = \<lparr>ge_ID = cn_ID c, ge_Label = cn_Label c, ge_DeviceAID = cn_DeviceAID c, ge_InterfaceAID = cn_InterfaceAID c,
     ge_DeviceBID = cn_DeviceBID c, ge_InterfaceBID = cn_InterfaceBID c,
     ge_Unavailable = (cn_DeviceAID c = 0 \<or> cn_DeviceBID c = 0 \<or> cn_InterfaceAID c = 0 \<or> cn_InterfaceBID c = 0)\<rparr>"

text \<open>The loop over the cables: the edges, the devices outside the scope they lead to, and whether it was cut short.\<close>

fun drawEdges :: "(nat \<Rightarrow> bool) \<Rightarrow> GraphEdge list \<Rightarrow> nat list \<Rightarrow> Connection list \<Rightarrow> GraphEdge list \<times> nat list \<times> bool" where
  "drawEdges inScope edges external [] = (edges, external, False)"
| "drawEdges inScope edges external (c # cs) =
     (let aOK = inScope (cn_DeviceAID c); bOK = inScope (cn_DeviceBID c)
      in if \<not> aOK \<and> \<not> bOK then drawEdges inScope edges external cs
         else let external = (if aOK then external else List.insert (cn_DeviceAID c) external);
                  external = (if bOK then external else List.insert (cn_DeviceBID c) external);
                  edges = edges @ [edgeOf c]
              in if length edges \<ge> maxGraphEdges then (edges, external, True)
                 else drawEdges inScope edges external cs)"

record GraphDTO =
  gd_Scope :: string
  gd_Truncated :: bool
  gd_InScope :: "(nat \<times> nat) list"
  gd_External :: "nat list"
  gd_Edges :: "GraphEdge list"

definition connectionGraph :: "Connection list \<Rightarrow> GraphQuery \<Rightarrow> nat list \<Rightarrow> GraphDTO" where
  "connectionGraph conns q seed =
     (if seed = [] then \<lparr>gd_Scope = GraphScopeKey q, gd_Truncated = False, gd_InScope = [], gd_External = [], gd_Edges = []\<rparr>
      else
        let scope0 = map (\<lambda>i. (i, 0)) seed;
            scope = (if gq_DeviceID q \<noteq> 0 then expandScope conns (graphDepth (gq_Depth q)) scope0 seed else scope0);
            (cut, scope) = truncateScope scope;
            (edges, external, cutEdges) = drawEdges (\<lambda>i. map_of scope i \<noteq> None) [] [] conns
        in \<lparr>gd_Scope = GraphScopeKey q, gd_Truncated = (cut \<or> cutEdges), gd_InScope = scope, gd_External = external, gd_Edges = edges\<rparr>)"

subsection \<open>Distances\<close>

definition linked :: "Connection list \<Rightarrow> nat \<Rightarrow> nat \<Rightarrow> bool" where
  "linked conns u v \<longleftrightarrow> (\<exists>c \<in> set conns. cn_DeviceAID c = u \<and> cn_DeviceBID c = v \<or> cn_DeviceAID c = v \<and> cn_DeviceBID c = u)"

text \<open>A way of \<open>n\<close> cables from \<open>s\<close>.\<close>

inductive cablePath :: "Connection list \<Rightarrow> nat \<Rightarrow> nat \<Rightarrow> nat \<Rightarrow> bool" for conns s where
  start: "cablePath conns s 0 s"
| hop: "cablePath conns s n u \<Longrightarrow> linked conns u v \<Longrightarrow> cablePath conns s (Suc n) v"

inductive_cases cablePath_SucE: "cablePath conns s (Suc n) v"

lemma adj_linked: "otherDevice u ` set (adjOf conns u) = {v. linked conns u v}"
  by (auto simp: adjOf_def otherDevice_def linked_def image_iff split: if_splits)

lemma map_of_const: "map_of (map (\<lambda>n. (n, c)) ns) v = (if v \<in> set ns then Some c else None)"
  by (induction ns) auto

text \<open>The invariant of the loop.\<close>

definition bfsInv :: "Connection list \<Rightarrow> nat \<Rightarrow> nat \<Rightarrow> (nat \<times> nat) list \<Rightarrow> nat list \<Rightarrow> bool" where
  "bfsInv conns depth s scope queue \<longleftrightarrow> map_of scope s = Some 0 \<and>
     (\<forall>v k. map_of scope v = Some k \<longrightarrow> cablePath conns s k v \<and> k \<le> depth) \<and> set queue \<subseteq> dom (map_of scope) \<and>
     sorted (map (\<lambda>v. the (map_of scope v)) queue) \<and>
     (\<forall>v k. map_of scope v = Some k \<longrightarrow> queue \<noteq> [] \<longrightarrow> k \<le> the (map_of scope (hd queue)) + 1) \<and>
     (\<forall>v k. map_of scope v = Some k \<longrightarrow> v \<notin> set queue \<longrightarrow> k < depth \<longrightarrow> (\<forall>w. linked conns v w \<longrightarrow> (\<exists>e. map_of scope w = Some e \<and> e \<le> k + 1)))"

lemma bfsInv_skip:
  assumes "bfsInv conns depth s scope (i # queue)" "map_of scope i = Some d" "d \<ge> depth"
  shows "bfsInv conns depth s scope queue"
proof -
  have "d \<le> the (map_of scope (hd queue))" if "queue \<noteq> []"
    using assms(1,2) that unfolding bfsInv_def by (cases queue) auto
  moreover have "k \<le> d + 1" if "map_of scope v = Some k" for v k using assms(1,2) that by (auto simp: bfsInv_def)
  ultimately have "k \<le> the (map_of scope (hd queue)) + 1" if "map_of scope v = Some k" "queue \<noteq> []" for v k using that by fastforce
  moreover have "\<exists>e. map_of scope w = Some e \<and> e \<le> k + 1"
    if k: "map_of scope v = Some k" "v \<notin> set queue" "k < depth" "linked conns v w" for v k w
  proof -
    have "v \<noteq> i" using assms(2,3) k by auto
    then show ?thesis using assms(1) k unfolding bfsInv_def by simp
  qed
  ultimately show ?thesis using assms(1) unfolding bfsInv_def by simp
qed

lemma bfsInv_scan:
  assumes inv: "bfsInv conns depth s scope (i # queue)" and d: "map_of scope i = Some d" "d < depth"
    and scan: "scanCables i d (adjOf conns i) (scope, queue) = (scope', queue')"
  shows "bfsInv conns depth s scope' queue'"
proof -
  obtain ns where ns: "scope' = scope @ map (\<lambda>n. (n, d + 1)) ns" "queue' = queue @ ns" "distinct ns"
    "set ns = {v. linked conns i v} - dom (map_of scope)"
    using scanCables_scope[OF scan] unfolding adj_linked by blast
  have m: "map_of scope' v = (case map_of scope v of Some k \<Rightarrow> Some k | None \<Rightarrow> if v \<in> set ns then Some (d + 1) else None)" for v
    by (simp add: ns(1) map_of_const map_add_def del: map_of_eq_None_iff split: option.split)
  have old: "map_of scope' v = map_of scope v" if "map_of scope v \<noteq> None" for v using that m[of v] by auto
  have B: "map_of scope s = Some 0" "\<And>v k. map_of scope v = Some k \<Longrightarrow> cablePath conns s k v \<and> k \<le> depth"
    "set (i # queue) \<subseteq> dom (map_of scope)" "sorted (map (\<lambda>v. the (map_of scope v)) (i # queue))"
    "\<And>v k. map_of scope v = Some k \<Longrightarrow> k \<le> d + 1"
    "\<And>v k w. map_of scope v = Some k \<Longrightarrow> v \<notin> set (i # queue) \<Longrightarrow> k < depth \<Longrightarrow> linked conns v w \<Longrightarrow> \<exists>e. map_of scope w = Some e \<and> e \<le> k + 1"
    using inv d(1) unfolding bfsInv_def by simp_all
  have new: "map_of scope v \<noteq> None \<or> v \<in> set ns \<and> k = d + 1" if "map_of scope' v = Some k" for v k
    using that m[of v] by (auto split: option.splits if_splits)
  have qd: "map (\<lambda>v. the (map_of scope' v)) queue' = map (\<lambda>v. the (map_of scope v)) queue @ replicate (length ns) (d + 1)"
  proof -
    have "map (\<lambda>v. the (map_of scope' v)) queue = map (\<lambda>v. the (map_of scope v)) queue" using B(3) old by auto
    moreover have "map (\<lambda>v. the (map_of scope' v)) ns = replicate (length ns) (d + 1)"
      using ns(4) m by (intro nth_equalityI) (auto simp: domIff split: option.splits)
    ultimately show ?thesis by (simp add: ns(2))
  qed
  have qle: "the (map_of scope v) \<le> d + 1 \<and> d \<le> the (map_of scope v)" if "v \<in> set queue" for v
    using that B(3,4,5) d(1) by (auto simp: dom_def)
  show ?thesis unfolding bfsInv_def
  proof (intro conjI allI impI)
    show "map_of scope' s = Some 0" using B(1) old by simp
    have path: "cablePath conns s (Suc d) w" if "linked conns i w" for w using B(2)[OF d(1)] that by (blast intro: cablePath.hop)
    show "cablePath conns s k v" "k \<le> depth" if "map_of scope' v = Some k" for v k
      using that new[OF that] old[of v] B(2) path d ns(4) by auto
    show "set queue' \<subseteq> dom (map_of scope')" using B(3) old m by (auto simp: ns(2) dom_def split: option.splits)
    show "sorted (map (\<lambda>v. the (map_of scope' v)) queue')"
      unfolding qd sorted_append using B(4) qle by (auto simp: sorted_replicate)
    show "k \<le> the (map_of scope' (hd queue')) + 1" if k: "map_of scope' v = Some k" and q: "queue' \<noteq> []" for v k
    proof -
      have "k \<le> d + 1" using new[OF k] old[of v] k B(5) by auto
      moreover have "d \<le> the (map_of scope' (hd queue'))"
      proof -
        have "\<forall>x \<in> set (map (\<lambda>v. the (map_of scope' v)) queue'). d \<le> x" unfolding qd using qle by auto
        then show ?thesis using q by simp
      qed
      ultimately show ?thesis by simp
    qed
    show "\<exists>e. map_of scope' w = Some e \<and> e \<le> k + 1"
      if k: "map_of scope' v = Some k" "v \<notin> set queue'" "k < depth" "linked conns v w" for v k w
    proof (cases "v = i")
      case True
      then have "k = d" using k(1) old[of i] d(1) by simp
      show ?thesis
      proof (cases "map_of scope w")
        case None
        then have "w \<in> set ns" using k(4) True ns(4) by (auto simp: domIff)
        then show ?thesis using m[of w] None \<open>k = d\<close> by simp
      next
        case (Some e)
        then show ?thesis using old[of w] B(5)[OF Some] \<open>k = d\<close> by auto
      qed
    next
      case False
      have "map_of scope v = Some k" using new[OF k(1)] old[of v] k(1,2) ns(2) by auto
      then obtain e where "map_of scope w = Some e" "e \<le> k + 1" using B(6)[of v k w] k False ns(2) by auto
      then show ?thesis using old[of w] by auto
    qed
  qed
qed

lemma expandScope_inv: "bfsInv conns depth s scope queue \<Longrightarrow> bfsInv conns depth s (expandScope conns depth scope queue) []"
proof (induction conns depth scope queue rule: expandScope.induct)
  case (2 conns depth scope i queue)
  obtain d where d: "map_of scope i = Some d" using "2.prems" by (auto simp: bfsInv_def)
  show ?case
  proof (cases "d \<ge> depth")
    case True
    then show ?thesis using "2.IH"(1)[of d] bfsInv_skip[OF "2.prems" d True] d by simp
  next
    case False
    obtain scope' queue' where scan: "scanCables i d (adjOf conns i) (scope, queue) = (scope', queue')" by fastforce
    have "bfsInv conns depth s scope' queue'" using bfsInv_scan[OF "2.prems" d _ scan] False by simp
    then show ?thesis using "2.IH"(2)[of d, OF _ _ scan[symmetric]] d False scan by (simp add: Let_def)
  qed
qed simp

lemma bfsInv_exact:
  assumes "bfsInv conns depth s scope []" "cablePath conns s n v" "n \<le> depth"
  shows "\<exists>k \<le> n. map_of scope v = Some k"
  using assms(2,3)
proof (induction n v rule: cablePath.induct)
  case start
  then show ?case using assms(1) by (simp add: bfsInv_def)
next
  case (hop n u v)
  then obtain k where k: "k \<le> n" "map_of scope u = Some k" by auto
  have "k < depth" using k(1) hop.prems by simp
  then obtain e where "map_of scope v = Some e" "e \<le> k + 1" using assms(1) k(2) hop.hyps(2) unfolding bfsInv_def by force
  then show ?case using k by auto
qed

text \<open>
  C36: The neighbourhood of a device in the connection graph is found completely and with exact distances: a device is
  in scope with number k exactly when k is the least number of cables that lead to it from the seed, and at most the
  depth asked for.
\<close>

theorem neighbourhood_exact:
  "map_of (neighbourhood conns depth s) v = Some k \<longleftrightarrow> k \<le> depth \<and> cablePath conns s k v \<and> \<not> (\<exists>j < k. cablePath conns s j v)"
proof -
  have "bfsInv conns depth s [(s, 0)] [s]" by (auto simp: bfsInv_def intro: cablePath.start)
  then have inv: "bfsInv conns depth s (neighbourhood conns depth s) []" unfolding neighbourhood_def by (rule expandScope_inv)
  have sound: "cablePath conns s k v \<and> k \<le> depth" if "map_of (neighbourhood conns depth s) v = Some k" for k
    using inv that by (simp add: bfsInv_def)
  have least: "\<exists>j \<le> n. map_of (neighbourhood conns depth s) v = Some j" if "cablePath conns s n v" "n \<le> depth" for n
    using bfsInv_exact[OF inv that] .
  show ?thesis
  proof
    assume k: "map_of (neighbourhood conns depth s) v = Some k"
    have "\<not> cablePath conns s j v" if "j < k" for j
      using least[of j] k sound[OF k] that by auto
    then show "k \<le> depth \<and> cablePath conns s k v \<and> \<not> (\<exists>j < k. cablePath conns s j v)" using sound[OF k] by blast
  next
    assume a: "k \<le> depth \<and> cablePath conns s k v \<and> \<not> (\<exists>j < k. cablePath conns s j v)"
    then obtain j where j: "j \<le> k" "map_of (neighbourhood conns depth s) v = Some j" using least[of k] by auto
    have "\<not> j < k" using a sound[OF j(2)] by blast
    then show "map_of (neighbourhood conns depth s) v = Some k" using j by simp
  qed
qed

lemma drawEdges_all:
  "drawEdges inScope edges external cs = (es, ex, False) \<Longrightarrow>
   es = edges @ map edgeOf (filter (\<lambda>c. inScope (cn_DeviceAID c) \<or> inScope (cn_DeviceBID c)) cs)"
  by (induction inScope edges external cs rule: drawEdges.induct) (auto simp: Let_def split: if_splits)

text \<open>
  A cable whose far end is unknown is stored with device 0, and the expansion goes on from there: devices that share
  nothing but an unknown far end count as neighbours.
\<close>

lemma neighbourhood_through_unknown:
  "neighbourhood [\<lparr>cn_ID = 1, cn_NetboxID = 0, cn_DeviceAID = 1, cn_InterfaceAID = 1, cn_DeviceBID = 0, cn_InterfaceBID = 0, cn_Label = []\<rparr>,
      \<lparr>cn_ID = 2, cn_NetboxID = 0, cn_DeviceAID = 9, cn_InterfaceAID = 9, cn_DeviceBID = 0, cn_InterfaceBID = 0, cn_Label = []\<rparr>] 2 1 = [(1, 0), (0, 1), (9, 2)]"
  by code_simp

end
