(* ===== verification/Dcim_Cables.thy ===== *)
theory Dcim_Cables
  imports Optical_Store Dcim_Rack
begin

text \<open>
  Cables between interfaces, \<open>internal/dcim/cables.go\<close>: creating, linking to a NetBox cable, editing and deleting, over
  the tables of the optical network, whose stored paths a removed cable makes stale. The page that shows two devices
  side by side is left out.

  Lemmas: no operation puts two different cables on an interface, and after a cable has been created it is the only
  one on both of its interfaces.
\<close>

subsection \<open>Statements\<close>

definition cableUniqueViolation :: "go_error \<Rightarrow> bool" where
  "cableUniqueViolation err = (let s = ToLower (errText err) in Contains s ''unique constraint'' \<or> Contains s ''duplicate key'')"

text \<open>The unique index on the NetBox id leaves out 0.\<close>

definition insertConnection :: "Connection \<Rightarrow> Connection optical" where
  "insertConnection c = stmt (\<lambda>db. let c' = c\<lparr>cn_ID := oq_connections db\<rparr> in
     if cn_NetboxID c \<noteq> 0 \<and> list_ex (\<lambda>d. cn_NetboxID d = cn_NetboxID c) (ot_connections db)
     then (Inl uniqueViolation, db\<lparr>oq_connections := Suc (oq_connections db)\<rparr>)
     else (Inr c', db\<lparr>ot_connections := ot_connections db @ [c'], oq_connections := Suc (oq_connections db)\<rparr>))"

definition saveConnection :: "Connection \<Rightarrow> unit optical" where
  "saveConnection c = stmt (\<lambda>db. (Inr (), db\<lparr>ot_connections := map (\<lambda>d. if cn_ID d = cn_ID c then c else d) (ot_connections db)\<rparr>))"

definition deleteConnection :: "nat \<Rightarrow> unit optical" where
  "deleteConnection i = stmt (\<lambda>db. (Inr (), db\<lparr>ot_connections := filter (\<lambda>d. cn_ID d \<noteq> i) (ot_connections db)\<rparr>))"

definition SetCableNetboxID :: "nat \<Rightarrow> nat \<Rightarrow> unit optical" where
  "SetCableNetboxID i netboxID = stmt (\<lambda>db.
     if netboxID \<noteq> 0 \<and> list_ex (\<lambda>d. cn_ID d = i) (ot_connections db) \<and> list_ex (\<lambda>d. cn_ID d \<noteq> i \<and> cn_NetboxID d = netboxID) (ot_connections db)
     then (Inl uniqueViolation, db)
     else (Inr (), db\<lparr>ot_connections := map (\<lambda>d. if cn_ID d = i then d\<lparr>cn_NetboxID := netboxID\<rparr> else d) (ot_connections db)\<rparr>))"

subsection \<open>Reading\<close>

definition CableSource :: "nat \<Rightarrow> string" where
  "CableSource netboxID = (if netboxID \<noteq> 0 then ''netbox'' else ''factum'')"

definition CableJoins :: "Connection \<Rightarrow> nat \<Rightarrow> nat \<Rightarrow> bool" where
  "CableJoins c a b \<longleftrightarrow> cn_InterfaceAID c = a \<and> cn_InterfaceBID c = b \<or> cn_InterfaceAID c = b \<and> cn_InterfaceBID c = a"

definition cableTouches :: "nat list \<Rightarrow> Connection \<Rightarrow> bool" where
  "cableTouches ids c \<longleftrightarrow> cn_InterfaceAID c \<in> set ids \<or> cn_InterfaceBID c \<in> set ids"

definition connectionsTouchingInterfaces :: "nat list \<Rightarrow> Connection list optical" where
  "connectionsTouchingInterfaces ids = (if ids = [] then dret [] else Find ot_connections (cableTouches ids))"

definition cableNotFound :: go_error where "cableNotFound = ReasonErr 404 ReasonNotFound ''cable not found''"

definition GetCable :: "nat \<Rightarrow> Connection optical" where
  "GetCable i = orNotFound cableNotFound (First cn_ID ot_connections (\<lambda>c. cn_ID c = i))"

definition GetCableByNetboxID :: "nat \<Rightarrow> Connection optical" where
  "GetCableByNetboxID netboxID =
     (if netboxID = 0 then dfail cableNotFound
      else orNotFound cableNotFound (First cn_ID ot_connections (\<lambda>c. cn_NetboxID c = netboxID)))"

definition loadCableEnds :: "nat \<Rightarrow> nat \<Rightarrow> (Interface \<times> Interface) optical" where
  "loadCableEnds a b =
     dbind (dguard (\<not> (a = 0 \<or> b = 0)) (ReasonErr 400 ReasonInvalid ''interface_a_id and interface_b_id are required'')) (\<lambda>_.
     dbind (dguard (a \<noteq> b) (ReasonErr 400 ReasonInvalid ''a cable cannot terminate on the same interface twice'')) (\<lambda>_.
     dbind (orNotFound (ReasonErr 404 ReasonNotFound ''interface a not found'') (First if_ID ot_interfaces (\<lambda>i. if_ID i = a))) (\<lambda>ia.
     dbind (orNotFound (ReasonErr 404 ReasonNotFound ''interface b not found'') (First if_ID ot_interfaces (\<lambda>i. if_ID i = b))) (\<lambda>ib.
     dret (ia, ib)))))"

definition deviceNamesByID :: "nat list \<Rightarrow> (nat \<Rightarrow> string) optical" where
  "deviceNamesByID ids =
     (if ids = [] then dret (\<lambda>_. [])
      else dbind (Find ot_devices (\<lambda>d. od_ID d \<in> set ids)) (\<lambda>rows.
        dret (\<lambda>i. case mapBy od_ID od_Name rows i of Some n \<Rightarrow> n | None \<Rightarrow> [])))"

definition interfaceRef :: "(nat \<Rightarrow> string) \<Rightarrow> (nat \<Rightarrow> Interface option) \<Rightarrow> nat \<Rightarrow> string" where
  "interfaceRef deviceNames ifaces i =
     (let (name, device) = (case ifaces i of
            Some f \<Rightarrow> (if if_Name f \<noteq> [] then if_Name f else ''interface'', deviceNames (if_DeviceID f))
          | None \<Rightarrow> (''interface'', []))
      in if device = [] then name @ '' (interface '' @ Itoa i @ '')''
         else device @ '' '' @ name @ '' (interface '' @ Itoa i @ '')'')"

definition describeBusyCable :: "nat \<Rightarrow> nat \<Rightarrow> Connection list \<Rightarrow> string optical" where
  "describeBusyCable wantA wantB conns =
     (let ids = filter (\<lambda>i. i \<noteq> 0) (wantA # wantB # connectionIfaceIDs conns)
      in dbind (Find ot_interfaces (\<lambda>i. if_ID i \<in> set ids)) (\<lambda>rows.
         dbind (deviceNamesByID (filter (\<lambda>i. i \<noteq> 0) (map if_DeviceID rows))) (\<lambda>names.
         let ref = interfaceRef names (mapBy if_ID (\<lambda>i. i) rows);
             occupied = map (\<lambda>c. ''cable '' @ Itoa (cn_ID c) @ '' is '' @ ref (cn_InterfaceAID c) @ '' to '' @ ref (cn_InterfaceBID c)) conns
         in dret (''one of the interfaces already has a cable: trying '' @ ref wantA @ '' to '' @ ref wantB @ ''; '' @ Join occupied ''; ''))))"

definition interfacesBusy :: "nat \<Rightarrow> nat \<Rightarrow> Connection list \<Rightarrow> 'a optical" where
  "interfacesBusy wantA wantB conns =
     dcase (describeBusyCable wantA wantB (order_by (\<lambda>c d. cn_ID c < cn_ID d) conns)) (\<lambda>r. case r of
         Inr msg \<Rightarrow> dfail (ReasonErr 409 ReasonConflict (if msg = [] then ''one of the interfaces already has a cable'' else msg))
       | Inl _ \<Rightarrow> dfail (ReasonErr 409 ReasonConflict ''one of the interfaces already has a cable''))"

definition assertInterfacesFree :: "nat \<Rightarrow> nat \<Rightarrow> nat \<Rightarrow> unit optical" where
  "assertInterfacesFree a b exceptID =
     dbind (Find ot_connections (\<lambda>c. cableTouches [a, b] c \<and> (exceptID \<noteq> 0 \<longrightarrow> cn_ID c \<noteq> exceptID))) (\<lambda>conns.
     if conns \<noteq> [] then interfacesBusy a b conns else dret ())"

subsection \<open>Creating\<close>

text \<open>Rows with a NetBox id come first, then by id.\<close>

definition keeperLess :: "Connection \<Rightarrow> Connection \<Rightarrow> bool" where
  "keeperLess c d \<longleftrightarrow> (if (cn_NetboxID c \<noteq> 0) \<noteq> (cn_NetboxID d \<noteq> 0) then cn_NetboxID c \<noteq> 0 else cn_ID c < cn_ID d)"

definition removeCable :: "nat \<Rightarrow> unit optical" where
  "removeCable i = dbind (ignore (MarkStaleByConnection i)) (\<lambda>_. deleteConnection i)"

definition keepOnePair :: "Connection list \<Rightarrow> Connection optical" where
  "keepOnePair same =
     (case order_by keeperLess same of
        [] \<Rightarrow> dfail (PlainErr ''index out of range'')
      | keeper # extras \<Rightarrow> dbind (dfor extras (\<lambda>c. removeCable (cn_ID c))) (\<lambda>_. dret keeper))"

definition ExistingPairCable :: "nat \<Rightarrow> nat \<Rightarrow> Connection option optical" where
  "ExistingPairCable a b =
     dbind (connectionsTouchingInterfaces [a, b]) (\<lambda>conns.
     if conns = [] then dret None
     else if \<not> list_all (\<lambda>c. CableJoins c a b) conns then interfacesBusy a b conns
     else dbind (keepOnePair conns) (\<lambda>c. dret (Some c)))"

text \<open>A unique violation: the row that holds the NetBox id wins if it joins the same interfaces.\<close>

definition yieldToWinner :: "nat \<Rightarrow> nat \<Rightarrow> nat \<Rightarrow> nat \<Rightarrow> go_error \<Rightarrow> Connection optical" where
  "yieldToWinner localID netboxID a b err =
     dcase (GetCableByNetboxID netboxID) (\<lambda>r. case r of
        Inl _ \<Rightarrow> dfail err
      | Inr winner \<Rightarrow>
          if \<not> CableJoins winner a b then dfail err
          else if cn_ID winner \<noteq> localID then dbind (removeCable localID) (\<lambda>_. dret winner) else dret winner)"

definition bindExistingPair :: "Connection \<Rightarrow> nat \<Rightarrow> nat \<Rightarrow> nat \<Rightarrow> Connection optical" where
  "bindExistingPair existing a b netboxID =
     (if netboxID = 0 \<or> cn_NetboxID existing = netboxID then dret existing
      else if cn_NetboxID existing \<noteq> 0 then interfacesBusy a b [existing]
      else dcase (SetCableNetboxID (cn_ID existing) netboxID) (\<lambda>r. case r of
             Inr _ \<Rightarrow> dret (existing\<lparr>cn_NetboxID := netboxID\<rparr>)
           | Inl err \<Rightarrow> if \<not> cableUniqueViolation err then dfail err else yieldToWinner (cn_ID existing) netboxID a b err))"

definition createCable :: "nat \<Rightarrow> nat \<Rightarrow> string \<Rightarrow> nat \<Rightarrow> Connection optical" where
  "createCable ifaceA ifaceB label netboxID =
     dbind (loadCableEnds ifaceA ifaceB) (\<lambda>(a, b).
     dbind (ExistingPairCable (if_ID a) (if_ID b)) (\<lambda>existing. case existing of
         Some c \<Rightarrow> bindExistingPair c (if_ID a) (if_ID b) netboxID
       | None \<Rightarrow>
           dcase (insertConnection \<lparr>cn_ID = 0, cn_NetboxID = netboxID, cn_DeviceAID = if_DeviceID a, cn_InterfaceAID = if_ID a,
               cn_DeviceBID = if_DeviceID b, cn_InterfaceBID = if_ID b, cn_Label = TrimSpace label\<rparr>) (\<lambda>r. case r of
             Inr conn \<Rightarrow> dret conn
           | Inl err \<Rightarrow>
               if netboxID \<noteq> 0 \<and> cableUniqueViolation err then
                 dcase (GetCableByNetboxID netboxID) (\<lambda>g. case g of
                   Inr row \<Rightarrow> if CableJoins row (if_ID a) (if_ID b) then dret row else dfail err
                 | Inl _ \<Rightarrow> dfail err)
               else dfail err)))"

definition CreateCable :: "nat \<Rightarrow> nat \<Rightarrow> string \<Rightarrow> Connection optical" where
  "CreateCable a b label = createCable a b label 0"

definition CreateLinkedCable :: "nat \<Rightarrow> nat \<Rightarrow> string \<Rightarrow> nat \<Rightarrow> Connection optical" where
  "CreateLinkedCable a b label netboxID = (if netboxID = 0 then CreateCable a b label else createCable a b label netboxID)"

subsection \<open>Editing\<close>

definition UpdateCable :: "nat \<Rightarrow> nat \<Rightarrow> nat \<Rightarrow> string \<Rightarrow> Connection optical" where
  "UpdateCable i ifaceA ifaceB label =
     dbind (orNotFound cableNotFound (First cn_ID ot_connections (\<lambda>c. cn_ID c = i))) (\<lambda>existing.
     dbind (loadCableEnds ifaceA ifaceB) (\<lambda>(a, b).
     dbind (assertInterfacesFree (if_ID a) (if_ID b) (cn_ID existing)) (\<lambda>_.
     let c = existing\<lparr>cn_DeviceAID := if_DeviceID a, cn_InterfaceAID := if_ID a, cn_DeviceBID := if_DeviceID b, cn_InterfaceBID := if_ID b,
           cn_Label := TrimSpace label\<rparr>
     in dbind (saveConnection c) (\<lambda>_. dret c))))"

definition DeleteCable :: "nat \<Rightarrow> unit optical" where
  "DeleteCable i = dbind (orNotFound cableNotFound (First cn_ID ot_connections (\<lambda>c. cn_ID c = i))) (\<lambda>c. deleteConnection (cn_ID c))"

definition StampCableNetboxID :: "nat \<Rightarrow> nat \<Rightarrow> nat \<Rightarrow> nat \<Rightarrow> nat optical" where
  "StampCableNetboxID localID netboxID a b =
     dcase (SetCableNetboxID localID netboxID) (\<lambda>r. case r of
        Inr _ \<Rightarrow> dret localID
      | Inl err \<Rightarrow> if \<not> cableUniqueViolation err then dfail err
                 else dbind (yieldToWinner localID netboxID a b err) (\<lambda>w. dret (cn_ID w)))"

subsection \<open>One cable on an interface\<close>

definition ends :: "Connection \<Rightarrow> nat set" where
  "ends c = {cn_InterfaceAID c, cn_InterfaceBID c}"

text \<open>Pairs of cables that share an interface and lead elsewhere.\<close>

definition busyPairs :: "optical_db \<Rightarrow> (nat \<times> nat) set" where
  "busyPairs db = {(cn_ID c, cn_ID d) | c d. c \<in> set (ot_connections db) \<and> d \<in> set (ot_connections db) \<and> cn_ID c \<noteq> cn_ID d \<and>
     ends c \<inter> ends d \<noteq> {} \<and> ends c \<noteq> ends d}"

definition cable_rows :: "optical_db \<Rightarrow> bool" where
  "cable_rows db \<longleftrightarrow> distinct (map cn_ID (ot_connections db)) \<and> 0 < oq_connections db \<and>
     (\<forall>c \<in> set (ot_connections db). 0 < cn_ID c \<and> cn_ID c < oq_connections db)"

definition cables_ok :: "(nat \<times> nat) set \<Rightarrow> optical_db \<Rightarrow> bool" where
  "cables_ok S db \<longleftrightarrow> cable_rows db \<and> busyPairs db \<subseteq> S"

text \<open>The cable \<open>c\<close> is the only one on the interfaces \<open>a\<close> and \<open>b\<close>, and joins them.\<close>

definition sole :: "nat \<Rightarrow> nat \<Rightarrow> Connection \<Rightarrow> optical_db \<Rightarrow> bool" where
  "sole a b c db \<longleftrightarrow> (\<exists>c' \<in> set (ot_connections db). cn_ID c' = cn_ID c \<and> CableJoins c' a b) \<and>
     (\<forall>d \<in> set (ot_connections db). cableTouches [a, b] d \<longrightarrow> cn_ID d = cn_ID c)"

definition free :: "nat \<Rightarrow> nat \<Rightarrow> nat \<Rightarrow> optical_db \<Rightarrow> bool" where
  "free a b i db \<longleftrightarrow> (\<forall>d \<in> set (ot_connections db). cn_ID d \<noteq> i \<longrightarrow> \<not> cableTouches [a, b] d)"

lemma joins_touches: "CableJoins c a b \<Longrightarrow> cableTouches [a, b] c"
  by (auto simp: CableJoins_def cableTouches_def)

lemma free_ends: "free a b i db \<Longrightarrow> d \<in> set (ot_connections db) \<Longrightarrow> cn_ID d \<noteq> i \<Longrightarrow> ends d \<inter> {a, b} = {}"
  by (auto simp: free_def cableTouches_def ends_def)

text \<open>Tables whose cables are there with the same ends before have no more clashes.\<close>

lemma busyPairs_mono:
  assumes "\<And>x. x \<in> set (ot_connections db') \<Longrightarrow> \<exists>y \<in> set (ot_connections db). cn_ID y = cn_ID x \<and> ends y = ends x"
  shows "busyPairs db' \<subseteq> busyPairs db"
proof (rule subsetI)
  fix p assume "p \<in> busyPairs db'"
  then obtain c d where p: "p = (cn_ID c, cn_ID d)" and cd: "c \<in> set (ot_connections db')" "d \<in> set (ot_connections db')"
    and ne: "cn_ID c \<noteq> cn_ID d" "ends c \<inter> ends d \<noteq> {}" "ends c \<noteq> ends d"
    unfolding busyPairs_def by blast
  obtain c' where "c' \<in> set (ot_connections db)" "cn_ID c' = cn_ID c" "ends c' = ends c" using assms[OF cd(1)] by blast
  moreover obtain d' where "d' \<in> set (ot_connections db)" "cn_ID d' = cn_ID d" "ends d' = ends d" using assms[OF cd(2)] by blast
  ultimately have "c' \<in> set (ot_connections db) \<and> d' \<in> set (ot_connections db) \<and> cn_ID c' \<noteq> cn_ID d' \<and> ends c' \<inter> ends d' \<noteq> {} \<and>
      ends c' \<noteq> ends d' \<and> p = (cn_ID c', cn_ID d')"
    using ne p by simp
  then show "p \<in> busyPairs db" unfolding busyPairs_def by blast
qed

lemma cable_rowsI:
  assumes "distinct (map cn_ID (ot_connections db))" "0 < oq_connections db"
    and "\<And>c. c \<in> set (ot_connections db) \<Longrightarrow> 0 < cn_ID c \<and> cn_ID c < oq_connections db"
  shows "cable_rows db"
  using assms by (simp add: cable_rows_def)

lemma cables_okD:
  assumes "cables_ok S db"
  shows "distinct (map cn_ID (ot_connections db))" "0 < oq_connections db" "c \<in> set (ot_connections db) \<Longrightarrow> 0 < cn_ID c"
    "c \<in> set (ot_connections db) \<Longrightarrow> cn_ID c < oq_connections db" "busyPairs db \<subseteq> S"
  using assms by (simp_all add: cables_ok_def cable_rows_def)

lemma cables_ok_same:
  assumes ok: "cables_ok S db" and ids: "distinct (map cn_ID (ot_connections db'))" and q: "oq_connections db \<le> oq_connections db'"
    and same: "\<And>x. x \<in> set (ot_connections db') \<Longrightarrow> \<exists>y \<in> set (ot_connections db). cn_ID y = cn_ID x \<and> ends y = ends x"
  shows "cables_ok S db'"
proof -
  have "cable_rows db'"
  proof (rule cable_rowsI[OF ids])
    show "0 < oq_connections db'" using cables_okD(2)[OF ok] q by simp
    fix c assume "c \<in> set (ot_connections db')"
    then obtain y where y: "y \<in> set (ot_connections db)" "cn_ID y = cn_ID c" using same by blast
    then show "0 < cn_ID c \<and> cn_ID c < oq_connections db'" using cables_okD(3,4)[OF ok y(1)] q by simp
  qed
  then show ?thesis unfolding cables_ok_def using busyPairs_mono[of db' db, OF same] cables_okD(5)[OF ok] by blast
qed

lemma cables_frame:
  assumes "ot_connections db' = ot_connections db" "oq_connections db \<le> oq_connections db'"
  shows "cables_ok S db \<Longrightarrow> cables_ok S db'" "sole a b c db' = sole a b c db" "free a b i db' = free a b i db"
  subgoal by (rule cables_ok_same) (use assms cables_okD(1) in auto)
  by (simp_all add: sole_def free_def assms)

lemma cables_rollback: "cables_ok S db \<Longrightarrow> cables_ok S (optical_rollback db db')"
  by (erule cables_frame(1)[rotated 2]) (simp_all add: optical_rollback_def)

interpretation cbl: db_invariant "cables_ok S" optical_rollback for S
  by unfold_locales (rule cables_rollback)

text \<open>Replacing a cable, or adding one with a new id, whose interfaces no other cable touches.\<close>

lemma cables_ok_write:
  assumes ok: "cables_ok S db" and rows: "\<And>d. d \<in> set cs \<Longrightarrow> d = c \<or> d \<in> set (ot_connections db) \<and> cn_ID d \<noteq> cn_ID c"
    and "distinct (map cn_ID cs)" "0 < n" "\<And>d. d \<in> set cs \<Longrightarrow> 0 < cn_ID d \<and> cn_ID d < n" and fr: "free a b (cn_ID c) db" and e: "ends c = {a, b}"
  shows "cables_ok S (db\<lparr>ot_connections := cs, oq_connections := n\<rparr>)"
proof -
  let ?db = "db\<lparr>ot_connections := cs, oq_connections := n\<rparr>"
  have alone: "ends x \<inter> ends c = {}" if "x \<in> set cs" "x \<noteq> c" for x
    using rows[OF that(1)] that(2) free_ends[OF fr] unfolding e by blast
  have "busyPairs ?db \<subseteq> busyPairs db"
  proof (rule subsetI)
    fix p assume "p \<in> busyPairs ?db"
    then obtain x y where xy: "x \<in> set cs" "y \<in> set cs" "cn_ID x \<noteq> cn_ID y" "ends x \<inter> ends y \<noteq> {}" "ends x \<noteq> ends y" and p: "p = (cn_ID x, cn_ID y)"
      unfolding busyPairs_def by auto
    have "x \<noteq> c" using alone[of y] xy by (metis Int_commute)
    moreover have "y \<noteq> c" using alone[of x] xy by metis
    ultimately have "x \<in> set (ot_connections db)" "y \<in> set (ot_connections db)" using rows xy(1,2) by blast+
    then show "p \<in> busyPairs db" unfolding busyPairs_def using xy p by blast
  qed
  moreover have "cable_rows ?db" using assms(3-5) by (simp add: cable_rows_def)
  ultimately show ?thesis using ok unfolding cables_ok_def by blast
qed

lemma insertConnection_triple:
  assumes e: "cn_InterfaceAID c = a" "cn_InterfaceBID c = b"
  shows "triple (\<lambda>db. cables_ok S db \<and> free a b 0 db) (insertConnection c) (\<lambda>c' db. cables_ok S db \<and> sole a b c' db)
     (\<lambda>db. cables_ok S db \<and> (free a b 0 db \<or> (\<exists>c'. sole a b c' db)))"
proof -
  let ?c = "\<lambda>db. c\<lparr>cn_ID := oq_connections db\<rparr>"
  let ?db = "\<lambda>db. db\<lparr>ot_connections := ot_connections db @ [?c db], oq_connections := Suc (oq_connections db)\<rparr>"
  have ins: "cables_ok S (?db db) \<and> sole a b (?c db) (?db db)" if ok: "cables_ok S db" and fr: "free a b 0 db" for db
  proof -
    have fr': "free a b (cn_ID (?c db)) db" using fr ok by (auto simp: free_def cables_ok_def cable_rows_def)
    have "cables_ok S (?db db)"
      by (rule cables_ok_write[OF ok _ _ _ _ fr']) (use ok e in \<open>auto simp: cables_ok_def cable_rows_def ends_def less_Suc_eq\<close>)
    moreover have "sole a b (?c db) (?db db)" using fr ok e
      by (auto simp: sole_def free_def CableJoins_def cables_ok_def cable_rows_def)
    ultimately show ?thesis by blast
  qed
  have seq: "cables_ok S (db\<lparr>oq_connections := Suc (oq_connections db)\<rparr>) \<and> free a b 0 (db\<lparr>oq_connections := Suc (oq_connections db)\<rparr>)"
    if "cables_ok S db" "free a b 0 db" for db
    using that cables_frame[of "db\<lparr>oq_connections := Suc (oq_connections db)\<rparr>" db] by simp
  show ?thesis unfolding insertConnection_def Let_def
    by (rule triple_stmt_if) (use ins seq in blast)+
qed

lemma replace_cable:
  assumes ok: "cables_ok S db" and fr: "free a b (cn_ID c) db" and e: "ends c = {a, b}" and c: "c0 \<in> set (ot_connections db)" "cn_ID c0 = cn_ID c"
  shows "cables_ok S (db\<lparr>ot_connections := map (\<lambda>d. if cn_ID d = cn_ID c then c else d) (ot_connections db)\<rparr>)"
proof -
  let ?g = "\<lambda>d. if cn_ID d = cn_ID c then c else d"
  have ids: "map cn_ID (map ?g (ot_connections db)) = map cn_ID (ot_connections db)" by simp
  have r: "distinct (map cn_ID (ot_connections db))" "0 < oq_connections db" "\<And>d. d \<in> set (ot_connections db) \<Longrightarrow> 0 < cn_ID d \<and> cn_ID d < oq_connections db"
    using ok by (auto simp: cables_ok_def cable_rows_def)
  have "cables_ok S (db\<lparr>ot_connections := map ?g (ot_connections db), oq_connections := oq_connections db\<rparr>)"
  proof (rule cables_ok_write[OF ok _ _ r(2) _ fr e])
    show "distinct (map cn_ID (map ?g (ot_connections db)))" unfolding ids by (rule r)
    show "d = c \<or> d \<in> set (ot_connections db) \<and> cn_ID d \<noteq> cn_ID c" if "d \<in> set (map ?g (ot_connections db))" for d using that by auto
    show "0 < cn_ID d \<and> cn_ID d < oq_connections db" if "d \<in> set (map ?g (ot_connections db))" for d
      using that r(3) r(3)[OF c(1)] c(2) by (auto split: if_splits)
  qed
  then show ?thesis by simp
qed

lemma cables_ok_fewer: "cables_ok S db \<Longrightarrow> cables_ok S (db\<lparr>ot_connections := filter P (ot_connections db)\<rparr>)"
  by (rule cables_ok_same) (auto intro: distinct_map_filter cables_okD(1))

lemma stamped_rows:
  fixes db i nb
  defines "db' \<equiv> db\<lparr>ot_connections := map (\<lambda>d. if cn_ID d = i then d\<lparr>cn_NetboxID := nb\<rparr> else d) (ot_connections db)\<rparr>"
  shows "cables_ok S db \<Longrightarrow> cables_ok S db'" "sole a b c db \<Longrightarrow> sole a b c db'"
proof -
  let ?g = "\<lambda>d. if cn_ID d = i then d\<lparr>cn_NetboxID := nb\<rparr> else d"
  have g: "cn_ID (?g d) = cn_ID d" "ends (?g d) = ends d" "CableJoins (?g d) x y = CableJoins d x y" "cableTouches l (?g d) = cableTouches l d" for d x y l
    by (simp_all add: ends_def CableJoins_def cableTouches_def)
  have ids: "map cn_ID (ot_connections db') = map cn_ID (ot_connections db)" by (simp add: db'_def)
  have set: "set (ot_connections db') = ?g ` set (ot_connections db)" by (simp add: db'_def)
  show "cables_ok S db'" if ok: "cables_ok S db"
  proof (rule cables_ok_same[OF ok])
    show "distinct (map cn_ID (ot_connections db'))" unfolding ids by (rule cables_okD(1)[OF ok])
    show "oq_connections db \<le> oq_connections db'" by (simp add: db'_def)
    show "\<exists>y \<in> set (ot_connections db). cn_ID y = cn_ID x \<and> ends y = ends x" if x: "x \<in> set (ot_connections db')" for x
    proof -
      obtain z where z: "z \<in> set (ot_connections db)" "x = ?g z" using x unfolding set by (auto simp only: image_iff)
      show ?thesis by (rule bexI[OF _ z(1)]) (simp only: z(2) g simp_thms)
    qed
  qed
  show "sole a b c db'" if "sole a b c db"
    using that unfolding sole_def set ball_simps(9) bex_simps(7) g .
qed

subsection \<open>The operations keep it\<close>

lemma describeBusyCable_readonly: "readonly (describeBusyCable a b conns)"
  unfolding describeBusyCable_def deviceNamesByID_def Let_def by (intro readonly_rules)

lemma busy_triple:
  assumes "\<And>db. P db \<Longrightarrow> E db"
  shows "triple P (interfacesBusy a b conns) Q E"
proof -
  note r = readonly_triple[OF describeBusyCable_readonly assms]
  show ?thesis unfolding interfacesBusy_def by (rule triple_case[OF r]) (auto intro!: triple_fail assms)
qed

lemma interfacesBusy_readonly: "readonly (interfacesBusy a b conns)"
  unfolding interfacesBusy_def by (rule readonly_case[OF describeBusyCable_readonly]) (auto intro: readonly_rules split: sum.splits)

lemma cable_reads:
  "readonly (loadCableEnds a b)" "readonly (GetCable i)" "readonly (GetCableByNetboxID n)" "readonly (connectionsTouchingInterfaces ids)"
  "readonly (assertInterfacesFree a b i)"
  unfolding loadCableEnds_def GetCable_def GetCableByNetboxID_def connectionsTouchingInterfaces_def assertInterfacesFree_def
  by (intro readonly_rules orNotFound_readonly interfacesBusy_readonly)+

text \<open>Marking paths does not touch the cables.\<close>

lemma MarkStale_triple:
  assumes "\<And>db f. P (db\<lparr>ot_paths := f\<rparr>) = P db"
  shows "triple P (ignore (MarkStaleByConnection i)) (\<lambda>_. P) P"
proof -
  have "triple P (MarkStaleByConnection i) (\<lambda>_. P) P"
    unfolding MarkStaleByConnection_def updatePaths_def by (rule triple_stmt_total) (simp_all add: assms)
  then show ?thesis unfolding ignore_def by (rule triple_case) (auto intro: triple_ret)
qed

lemma paths_frame [simp]:
  "cables_ok S (db\<lparr>ot_paths := f\<rparr>) = cables_ok S db" "sole a b c (db\<lparr>ot_paths := f\<rparr>) = sole a b c db" "free a b i (db\<lparr>ot_paths := f\<rparr>) = free a b i db"
  by (simp_all add: cables_ok_def cable_rows_def busyPairs_def sole_def free_def)

lemma SetCableNetboxID_triple:
  "triple (\<lambda>db. cables_ok S db \<and> A db) (SetCableNetboxID i nb) (\<lambda>_ db. cables_ok S db \<and> A db) (\<lambda>db. cables_ok S db \<and> A db)"
  if "A = (\<lambda>_. True) \<or> A = sole a b c"
  unfolding SetCableNetboxID_def by (rule triple_stmt_if) (use that stamped_rows in auto)

lemma removeCable_keeps: "cbl.keeps S (removeCable i)"
  unfolding removeCable_def deleteConnection_def
  by (intro cbl.keeps_bind cbl.keeps_stmt) (auto simp: cbl.keeps_def cables_ok_fewer intro: MarkStale_triple)

text \<open>Removing the spare cables of a pair, one by one.\<close>

definition onlyOr :: "(nat \<times> nat) set \<Rightarrow> nat \<Rightarrow> nat \<Rightarrow> Connection \<Rightarrow> Connection list \<Rightarrow> optical_db \<Rightarrow> bool" where
  "onlyOr S a b k extras db \<longleftrightarrow> cables_ok S db \<and> (\<exists>c' \<in> set (ot_connections db). cn_ID c' = cn_ID k \<and> CableJoins c' a b) \<and>
     (\<forall>d \<in> set (ot_connections db). cableTouches [a, b] d \<longrightarrow> cn_ID d = cn_ID k \<or> cn_ID d \<in> cn_ID ` set extras) \<and>
     cn_ID k \<notin> cn_ID ` set extras"

lemma onlyOr_remove:
  "onlyOr S a b k (x # xs) db \<Longrightarrow> onlyOr S a b k xs (db\<lparr>ot_connections := filter (\<lambda>d. cn_ID d \<noteq> cn_ID x) (ot_connections db)\<rparr>)"
  unfolding onlyOr_def by (auto simp: cables_ok_fewer)

lemma removeCable_onlyOr: "triple (onlyOr S a b k (x # xs)) (removeCable (cn_ID x)) (\<lambda>_. onlyOr S a b k xs) (cables_ok S)"
  unfolding removeCable_def
proof (rule triple_bind)
  show "triple (onlyOr S a b k (x # xs)) (ignore (MarkStaleByConnection (cn_ID x))) (\<lambda>_. onlyOr S a b k (x # xs)) (cables_ok S)"
    by (rule triple_weaken[OF MarkStale_triple[where P = "onlyOr S a b k (x # xs)"]]) (simp_all add: onlyOr_def)
  show "triple (onlyOr S a b k (x # xs)) (deleteConnection (cn_ID x)) (\<lambda>_. onlyOr S a b k xs) (cables_ok S)"
    unfolding deleteConnection_def
    by (rule triple_stmt_total) (auto dest: onlyOr_remove simp: onlyOr_def cables_ok_fewer)
qed

lemma keepOnePair_triple:
  assumes conns: "conns \<noteq> []" and joins: "list_all (\<lambda>c. CableJoins c a b) conns"
  shows "triple (\<lambda>db. cables_ok S db \<and> conns = filter (cableTouches [a, b]) (ot_connections db)) (keepOnePair conns)
    (\<lambda>c db. cables_ok S db \<and> sole a b c db) (cables_ok S)"
proof -
  obtain k extras where o: "order_by keeperLess conns = k # extras" using conns by (metis length_order_by list.exhaust list.size(3) length_0_conv)
  have set: "set conns = insert k (set extras)" using set_order_by[of keeperLess conns] o by simp
  have start: "onlyOr S a b k extras db" if "cables_ok S db \<and> conns = filter (cableTouches [a, b]) (ot_connections db)" for db
  proof -
    have "distinct (map cn_ID conns)" using that cables_okD(1) by (auto intro: distinct_map_filter)
    then have "cn_ID k \<notin> cn_ID ` set extras" using distinct_order_by[of cn_ID keeperLess conns] o by simp
    moreover have "k \<in> set (ot_connections db)" "CableJoins k a b" using that set joins by (auto simp: list_all_iff)
    moreover have "d \<in> set conns" if "d \<in> set (ot_connections db)" "cableTouches [a, b] d" for d
      using that \<open>cables_ok S db \<and> conns = filter (cableTouches [a, b]) (ot_connections db)\<close> by simp
    ultimately show ?thesis unfolding onlyOr_def using that set by (auto 0 3)
  qed
  have "triple (onlyOr S a b k extras) (dfor extras (\<lambda>c. removeCable (cn_ID c))) (\<lambda>_. onlyOr S a b k []) (cables_ok S)"
    by (rule triple_for_rest) (rule removeCable_onlyOr)
  then have "triple (onlyOr S a b k extras) (dbind (dfor extras (\<lambda>c. removeCable (cn_ID c))) (\<lambda>_. dret k)) (\<lambda>c db. cables_ok S db \<and> sole a b c db) (cables_ok S)"
    by (rule triple_bind) (auto intro!: triple_ret simp: onlyOr_def sole_def)
  then show ?thesis unfolding keepOnePair_def o list.case by (rule triple_weaken) (use start in auto)
qed

lemma ExistingPairCable_triple:
  "triple (cables_ok S) (ExistingPairCable a b)
     (\<lambda>r db. cables_ok S db \<and> (case r of None \<Rightarrow> free a b 0 db | Some c \<Rightarrow> sole a b c db)) (cables_ok S)"
proof -
  have "triple (cables_ok S) (connectionsTouchingInterfaces [a, b])
      (\<lambda>conns db. cables_ok S db \<and> conns = filter (cableTouches [a, b]) (ot_connections db)) (cables_ok S)"
    unfolding connectionsTouchingInterfaces_def by (simp add: triple_Find)
  then show ?thesis unfolding ExistingPairCable_def
  proof (rule triple_bind)
    fix conns
    let ?P = "\<lambda>db. cables_ok S db \<and> conns = filter (cableTouches [a, b]) (ot_connections db)"
    show "triple ?P (if conns = [] then dret None else if \<not> list_all (\<lambda>c. CableJoins c a b) conns then interfacesBusy a b conns
        else dbind (keepOnePair conns) (\<lambda>c. dret (Some c)))
      (\<lambda>r db. cables_ok S db \<and> (case r of None \<Rightarrow> free a b 0 db | Some c \<Rightarrow> sole a b c db)) (cables_ok S)" (is "triple _ ?m ?Q _")
    proof (cases "conns = []")
      case True
      then show ?thesis by (auto intro!: triple_ret simp: free_def filter_empty_conv eq_commute[of "[]"])
    next
      case False
      have "triple ?P (dbind (keepOnePair conns) (\<lambda>c. dret (Some c))) ?Q (cables_ok S)" if "list_all (\<lambda>c. CableJoins c a b) conns"
        by (rule triple_bind[OF keepOnePair_triple[OF False that]]) (auto intro: triple_ret)
      then show ?thesis using False by (auto intro: busy_triple)
    qed
  qed
qed

text \<open>The winner of a NetBox id is the sole cable itself.\<close>

lemma sole_only: "sole a b c db \<Longrightarrow> d \<in> set (ot_connections db) \<Longrightarrow> CableJoins d a b \<Longrightarrow> cn_ID d = cn_ID c"
  by (simp add: sole_def joins_touches)

lemma sole_id: "cn_ID c = cn_ID d \<Longrightarrow> sole a b c db = sole a b d db"
  by (simp add: sole_def)

lemma GetCableByNetboxID_triple:
  assumes "\<And>db. P db \<Longrightarrow> E db"
  shows "triple P (GetCableByNetboxID n) (\<lambda>c db. P db \<and> c \<in> set (ot_connections db)) E"
proof -
  have "triple P (First cn_ID ot_connections (\<lambda>c. cn_NetboxID c = n)) (\<lambda>c db. P db \<and> c \<in> set (ot_connections db)) E"
    by (rule triple_weaken[OF triple_First[where P = P, OF assms]]) auto
  then have "triple P (orNotFound cableNotFound (First cn_ID ot_connections (\<lambda>c. cn_NetboxID c = n))) (\<lambda>c db. P db \<and> c \<in> set (ot_connections db)) E"
    unfolding orNotFound_def by (rule triple_case) (auto intro: triple_ret triple_fail)
  then show ?thesis unfolding GetCableByNetboxID_def by (auto intro!: triple_fail assms)
qed

lemma yieldToWinner_sole:
  "triple (\<lambda>db. cables_ok S db \<and> sole a b c db) (yieldToWinner (cn_ID c) n a b e) (\<lambda>w db. cables_ok S db \<and> sole a b w db) (cables_ok S)"
  unfolding yieldToWinner_def
proof (rule triple_case[OF GetCableByNetboxID_triple[where E = "cables_ok S"]])
  fix w
  let ?P = "\<lambda>db. (cables_ok S db \<and> sole a b c db) \<and> w \<in> set (ot_connections db)"
  have nw: "triple ?P m Q (cables_ok S)" if "CableJoins w a b" "cn_ID w \<noteq> cn_ID c" for m and Q :: "Connection \<Rightarrow> optical_db \<Rightarrow> bool"
    using that sole_only unfolding triple_def by blast
  have w: "triple ?P (dret w) (\<lambda>w db. cables_ok S db \<and> sole a b w db) (cables_ok S)" if "cn_ID w = cn_ID c"
    using sole_id[OF that] by (auto intro: triple_ret)
  show "triple ?P (case Inr w of Inl _ \<Rightarrow> dfail e | Inr winner \<Rightarrow> if \<not> CableJoins winner a b then dfail e
      else if cn_ID winner \<noteq> cn_ID c then dbind (removeCable (cn_ID c)) (\<lambda>_. dret winner) else dret winner)
    (\<lambda>w db. cables_ok S db \<and> sole a b w db) (cables_ok S)"
    using nw w triple_fail[of ?P "cables_ok S" e] by (cases "cn_ID w = cn_ID c") auto
qed (auto intro: triple_fail)

lemma yieldToWinner_keeps: "cbl.keeps S (yieldToWinner i n a b e)"
  unfolding yieldToWinner_def
proof (rule cbl.keeps_case[OF cbl.keeps_readonly[OF cable_reads(3)]])
  fix r :: "go_error + Connection"
  show "cbl.keeps S (case r of Inl _ \<Rightarrow> dfail e | Inr winner \<Rightarrow> if \<not> CableJoins winner a b then dfail e
      else if cn_ID winner \<noteq> i then dbind (removeCable i) (\<lambda>_. dret winner) else dret winner)"
    by (cases r) (auto intro!: cbl.keeps_bind removeCable_keeps cbl.keeps_ret cbl.keeps_fail)
qed

lemma bindExistingPair_triple:
  "triple (\<lambda>db. cables_ok S db \<and> sole a b c db) (bindExistingPair c a b n) (\<lambda>w db. cables_ok S db \<and> sole a b w db) (cables_ok S)"
proof -
  let ?P = "\<lambda>db. cables_ok S db \<and> sole a b c db"
  have stamp: "triple ?P (dcase (SetCableNetboxID (cn_ID c) n) (\<lambda>r. case r of Inr _ \<Rightarrow> dret (c\<lparr>cn_NetboxID := n\<rparr>)
      | Inl err \<Rightarrow> if \<not> cableUniqueViolation err then dfail err else yieldToWinner (cn_ID c) n a b err))
    (\<lambda>w db. cables_ok S db \<and> sole a b w db) (cables_ok S)"
  proof (rule triple_case[OF SetCableNetboxID_triple[where A = "sole a b c", OF disjI2[OF refl]]])
    show "triple ?P (case Inr u of Inr _ \<Rightarrow> dret (c\<lparr>cn_NetboxID := n\<rparr>)
      | Inl err \<Rightarrow> if \<not> cableUniqueViolation err then dfail err else yieldToWinner (cn_ID c) n a b err)
      (\<lambda>w db. cables_ok S db \<and> sole a b w db) (cables_ok S)" for u :: unit
      using sole_id[of c "c\<lparr>cn_NetboxID := n\<rparr>"] by (auto intro: triple_ret)
    show "triple ?P (case Inl e of Inr (_ :: unit) \<Rightarrow> dret (c\<lparr>cn_NetboxID := n\<rparr>)
      | Inl err \<Rightarrow> if \<not> cableUniqueViolation err then dfail err else yieldToWinner (cn_ID c) n a b err)
      (\<lambda>w db. cables_ok S db \<and> sole a b w db) (cables_ok S)" for e
      using yieldToWinner_sole[of S a b c n e] by (auto intro: triple_fail)
  qed
  show ?thesis unfolding bindExistingPair_def using stamp by (auto intro: triple_ret busy_triple)
qed

lemma loadCableEnds_triple:
  assumes "\<And>db. P db \<Longrightarrow> E db"
  shows "triple P (loadCableEnds a b) (\<lambda>r db. P db \<and> if_ID (fst r) = a \<and> if_ID (snd r) = b) E"
proof -
  have first: "triple P (orNotFound e (First if_ID ot_interfaces (\<lambda>i. if_ID i = x))) (\<lambda>r db. P db \<and> if_ID r = x) E" for e x
    unfolding orNotFound_def
    by (rule triple_case[OF triple_First[where P = P, OF assms]]) (auto intro: triple_ret triple_fail)
  show ?thesis unfolding loadCableEnds_def
    apply (rule guard_then[OF assms], assumption)+
    apply (rule triple_bind[OF first])
    apply (rule triple_pure)
    apply (rule triple_bind[OF first])
    apply (rule triple_ret)
    apply simp
    done
qed

lemma createCable_triple:
  "triple (cables_ok S) (createCable a b label n) (\<lambda>c db. cables_ok S db \<and> sole a b c db) (cables_ok S)"
  unfolding createCable_def
proof (rule triple_bind[OF loadCableEnds_triple], assumption)
  fix ab :: "Interface \<times> Interface"
  let ?ok = "\<lambda>c db. cables_ok S db \<and> sole a b c db"
  obtain ia ib where ab: "ab = (ia, ib)" by (cases ab)
  have row: "triple (\<lambda>db. cables_ok S db \<and> (free a b 0 db \<or> (\<exists>c. sole a b c db))) (dcase (GetCableByNetboxID n) (\<lambda>g. case g of
      Inr row \<Rightarrow> if CableJoins row a b then dret row else dfail e | Inl _ \<Rightarrow> dfail e)) ?ok (cables_ok S)" (is "triple ?P _ _ _") for e
  proof (rule triple_case[OF GetCableByNetboxID_triple[where E = "cables_ok S"]])
    fix r
    have "sole a b r db" if P: "?P db" and r: "r \<in> set (ot_connections db)" "CableJoins r a b" for db
    proof -
      have "\<not> free a b 0 db" using P r cables_okD(3)[of S db r] joins_touches[OF r(2)] unfolding free_def by auto
      then obtain c where c: "sole a b c db" using P by blast
      show ?thesis using c sole_id[OF sole_only[OF c r]] by blast
    qed
    then show "triple (\<lambda>db. ?P db \<and> r \<in> set (ot_connections db)) (case Inr r of Inr row \<Rightarrow> if CableJoins row a b then dret row else dfail e | Inl _ \<Rightarrow> dfail e)
      ?ok (cables_ok S)"
      by (auto intro: triple_ret triple_fail)
  qed (auto intro: triple_fail)
  have new: "triple (\<lambda>db. cables_ok S db \<and> free a b 0 db) (dcase (insertConnection c) (\<lambda>r. case r of
      Inr conn \<Rightarrow> dret conn
    | Inl err \<Rightarrow> if n \<noteq> 0 \<and> cableUniqueViolation err then dcase (GetCableByNetboxID n) (\<lambda>g. case g of
        Inr row \<Rightarrow> if CableJoins row a b then dret row else dfail err | Inl _ \<Rightarrow> dfail err) else dfail err)) ?ok (cables_ok S)"
    if "cn_InterfaceAID c = a" "cn_InterfaceBID c = b" for c
    by (rule triple_case[OF insertConnection_triple[OF that]]) (auto intro: triple_ret triple_fail row)
  show "triple (\<lambda>db. cables_ok S db \<and> if_ID (fst ab) = a \<and> if_ID (snd ab) = b) (case ab of (ia, ib) \<Rightarrow>
     dbind (ExistingPairCable (if_ID ia) (if_ID ib)) (\<lambda>existing. case existing of
         Some c \<Rightarrow> bindExistingPair c (if_ID ia) (if_ID ib) n
       | None \<Rightarrow>
           dcase (insertConnection \<lparr>cn_ID = 0, cn_NetboxID = n, cn_DeviceAID = if_DeviceID ia, cn_InterfaceAID = if_ID ia,
               cn_DeviceBID = if_DeviceID ib, cn_InterfaceBID = if_ID ib, cn_Label = TrimSpace label\<rparr>) (\<lambda>r. case r of
             Inr conn \<Rightarrow> dret conn
           | Inl err \<Rightarrow>
               if n \<noteq> 0 \<and> cableUniqueViolation err then
                 dcase (GetCableByNetboxID n) (\<lambda>g. case g of
                   Inr row \<Rightarrow> if CableJoins row (if_ID ia) (if_ID ib) then dret row else dfail err
                 | Inl _ \<Rightarrow> dfail err)
               else dfail err))) ?ok (cables_ok S)"
    unfolding ab prod.case fst_conv snd_conv
  proof (rule triple_pure)
    assume id: "if_ID ia = a \<and> if_ID ib = b"
    show "triple (cables_ok S) (dbind (ExistingPairCable (if_ID ia) (if_ID ib)) (\<lambda>existing. case existing of
         Some c \<Rightarrow> bindExistingPair c (if_ID ia) (if_ID ib) n
       | None \<Rightarrow>
           dcase (insertConnection \<lparr>cn_ID = 0, cn_NetboxID = n, cn_DeviceAID = if_DeviceID ia, cn_InterfaceAID = if_ID ia,
               cn_DeviceBID = if_DeviceID ib, cn_InterfaceBID = if_ID ib, cn_Label = TrimSpace label\<rparr>) (\<lambda>r. case r of
             Inr conn \<Rightarrow> dret conn
           | Inl err \<Rightarrow>
               if n \<noteq> 0 \<and> cableUniqueViolation err then
                 dcase (GetCableByNetboxID n) (\<lambda>g. case g of
                   Inr row \<Rightarrow> if CableJoins row (if_ID ia) (if_ID ib) then dret row else dfail err
                 | Inl _ \<Rightarrow> dfail err)
               else dfail err))) ?ok (cables_ok S)"
      unfolding id[THEN conjunct1] id[THEN conjunct2]
      by (rule triple_bind[OF ExistingPairCable_triple]) (auto intro: bindExistingPair_triple new split: option.splits)
  qed
qed

lemma First_cable_triple:
  "triple (cables_ok S) (orNotFound e (First cn_ID ot_connections (\<lambda>c. cn_ID c = i)))
     (\<lambda>c db. cables_ok S db \<and> c \<in> set (ot_connections db) \<and> cn_ID c = i) (cables_ok S)"
  unfolding orNotFound_def by (rule triple_case[OF triple_First[where P = "cables_ok S" and E = "cables_ok S"]]) (auto intro: triple_ret triple_fail)

lemma assertInterfacesFree_triple:
  assumes "\<And>db. P db \<Longrightarrow> E db"
  shows "triple P (assertInterfacesFree a b i) (\<lambda>_ db. P db \<and> (i \<noteq> 0 \<longrightarrow> free a b i db)) E"
  unfolding assertInterfacesFree_def
proof (rule triple_bind[OF triple_Find[OF assms]], assumption)
  show "triple (\<lambda>db. P db \<and> conns = filter (\<lambda>c. cableTouches [a, b] c \<and> (i \<noteq> 0 \<longrightarrow> cn_ID c \<noteq> i)) (ot_connections db))
     (if conns \<noteq> [] then interfacesBusy a b conns else dret ()) (\<lambda>_ db. P db \<and> (i \<noteq> 0 \<longrightarrow> free a b i db)) E" for conns
    by (cases "conns = []") (auto intro!: triple_ret busy_triple simp: assms free_def filter_empty_conv eq_commute[of "[]"])
qed

lemma UpdateCable_keeps: "cbl.keeps S (UpdateCable i a b label)"
  unfolding UpdateCable_def cbl.keeps_def
proof (rule triple_bind[OF First_cable_triple])
  fix c0
  let ?P = "\<lambda>db. cables_ok S db \<and> c0 \<in> set (ot_connections db) \<and> cn_ID c0 = i"
  let ?row = "\<lambda>ia ib. c0\<lparr>cn_DeviceAID := if_DeviceID ia, cn_InterfaceAID := if_ID ia, cn_DeviceBID := if_DeviceID ib, cn_InterfaceBID := if_ID ib, cn_Label := TrimSpace label\<rparr>"
  have save: "triple (\<lambda>db. ?P db \<and> (cn_ID c0 \<noteq> 0 \<longrightarrow> free (if_ID ia) (if_ID ib) (cn_ID c0) db)) (dbind (saveConnection (?row ia ib)) (\<lambda>_. dret (?row ia ib)))
      (\<lambda>_. cables_ok S) (cables_ok S)" for ia ib
  proof -
    have "triple (\<lambda>db. ?P db \<and> (cn_ID c0 \<noteq> 0 \<longrightarrow> free (if_ID ia) (if_ID ib) (cn_ID c0) db)) (saveConnection (?row ia ib)) (\<lambda>_. cables_ok S) (cables_ok S)"
      (is "triple ?PF _ _ _")
    proof -
      have "cables_ok S (db\<lparr>ot_connections := map (\<lambda>d. if cn_ID d = cn_ID (?row ia ib) then ?row ia ib else d) (ot_connections db)\<rparr>)" if "?PF db" for db
        using that cables_okD(3)[of S db c0]
        by (intro replace_cable[of S db "if_ID ia" "if_ID ib" "?row ia ib" c0]) (auto simp: ends_def)
      then show ?thesis unfolding saveConnection_def by (intro triple_stmt_total) blast+
    qed
    then show ?thesis by (rule triple_bind) (auto intro: triple_ret)
  qed
  show "triple ?P (dbind (loadCableEnds a b) (\<lambda>(ia, ib). dbind (assertInterfacesFree (if_ID ia) (if_ID ib) (cn_ID c0)) (\<lambda>_.
      let c = ?row ia ib in dbind (saveConnection c) (\<lambda>_. dret c)))) (\<lambda>_. cables_ok S) (cables_ok S)"
    unfolding Let_def
    by (rule readonly_then[OF cable_reads(1)]) (auto intro!: triple_bind[OF assertInterfacesFree_triple] save)
qed

lemma DeleteCable_keeps: "cbl.keeps S (DeleteCable i)"
  unfolding DeleteCable_def deleteConnection_def
  by (intro cbl.keeps_bind cbl.keeps_stmt cbl.keeps_readonly[OF orNotFound_readonly[OF readonly_reads(3)]]) (simp add: cables_ok_fewer)

lemma StampCableNetboxID_keeps: "cbl.keeps S (StampCableNetboxID i n a b)"
  unfolding StampCableNetboxID_def
proof (rule cbl.keeps_case)
  show "cbl.keeps S (SetCableNetboxID i n)"
    unfolding cbl.keeps_def using SetCableNetboxID_triple[where A = "\<lambda>_. True"] by simp
  show "cbl.keeps S (case r of Inr _ \<Rightarrow> dret i | Inl err \<Rightarrow> if \<not> cableUniqueViolation err then dfail err
      else dbind (yieldToWinner i n a b err) (\<lambda>w. dret (cn_ID w)))" for r :: "go_error + unit"
    by (cases r) (auto intro!: cbl.keeps_bind yieldToWinner_keeps cbl.keeps_ret cbl.keeps_fail)
qed

lemma createCable_keeps: "cbl.keeps S (createCable a b label n)"
  unfolding cbl.keeps_def by (rule triple_weaken[OF createCable_triple]) auto

subsection \<open>Runs of requests\<close>

datatype cable_request =
    ReqCreateCable nat nat string
  | ReqLinkCable nat nat string nat
  | ReqUpdateCable nat nat nat string
  | ReqDeleteCable nat
  | ReqStampCable nat nat nat nat

fun serveCable :: "cable_request \<Rightarrow> unit optical" where
  "serveCable (ReqCreateCable a b label) = ignore (CreateCable a b label)"
| "serveCable (ReqLinkCable a b label n) = ignore (CreateLinkedCable a b label n)"
| "serveCable (ReqUpdateCable i a b label) = ignore (UpdateCable i a b label)"
| "serveCable (ReqDeleteCable i) = ignore (DeleteCable i)"
| "serveCable (ReqStampCable i n a b) = ignore (StampCableNetboxID i n a b)"

lemma ignore_keeps: "cbl.keeps S m \<Longrightarrow> cbl.keeps S (ignore m)"
  unfolding ignore_def by (rule cbl.keeps_case) (auto intro: cbl.keeps_ret)

lemma serveCable_keeps: "cbl.keeps S (serveCable r)"
  by (cases r) (simp_all add: ignore_keeps CreateCable_def CreateLinkedCable_def createCable_keeps UpdateCable_keeps DeleteCable_keeps StampCableNetboxID_keeps)


definition examplePatch :: optical_db where
  "examplePatch = exampleRoadm\<lparr>ot_connections := [\<lparr>cn_ID = 1, cn_NetboxID = 0, cn_DeviceAID = 1, cn_InterfaceAID = 1, cn_DeviceBID = 1, cn_InterfaceBID = 2, cn_Label = []\<rparr>,
     \<lparr>cn_ID = 2, cn_NetboxID = 7, cn_DeviceAID = 1, cn_InterfaceAID = 2, cn_DeviceBID = 1, cn_InterfaceBID = 1, cn_Label = []\<rparr>], oq_connections := 3\<rparr>"

lemma examplePatch_rows: "cable_rows examplePatch" "busyPairs examplePatch = {}"
  by (auto simp: examplePatch_def exampleRoadm_def cable_rows_def busyPairs_def ends_def)


text \<open>
  When creating a cable between two interfaces reports success, the returned row is stored, joins the two
  interfaces, and no other cable touches either of them: the same pair reported twice, and rows that a webhook
  stored first, end up as one. If it fails, no clash was added.
\<close>

theorem createCable_sole:
  assumes "cable_rows db"
  shows "case CreateLinkedCable a b label n (db, evs) of
      (Inr c, (db', _)) \<Rightarrow> (\<exists>c' \<in> set (ot_connections db'). cn_ID c' = cn_ID c \<and> CableJoins c' a b) \<and>
        (\<forall>d \<in> set (ot_connections db'). cableTouches [a, b] d \<longrightarrow> cn_ID d = cn_ID c)
    | (Inl _, (db', _)) \<Rightarrow> busyPairs db' \<subseteq> busyPairs db"
proof -
  have "cables_ok (busyPairs db) (fst (db, evs))" using assms by (simp add: cables_ok_def)
  moreover have "CreateLinkedCable a b label n = createCable a b label n" by (simp add: CreateLinkedCable_def CreateCable_def)
  ultimately show ?thesis using tripleD[OF createCable_triple[of "busyPairs db" a b label n], of "(db, evs)"]
    by (auto simp: outcome_def sole_def cables_ok_def split: prod.splits sum.splits)
qed

lemma examplePatch_link: "(case CreateLinkedCable 1 2 [] 7 (examplePatch, []) of (Inr c, _) \<Rightarrow> cn_ID c = 2 | _ \<Rightarrow> False)"
  by code_simp

theorem createCable_sole_witness:
  "case CreateLinkedCable 1 2 [] 7 (examplePatch, []) of
     (Inr c, (db', _)) \<Rightarrow> cn_ID c = 2 \<and> (\<forall>d \<in> set (ot_connections db'). cableTouches [1, 2] d \<longrightarrow> cn_ID d = 2) | _ \<Rightarrow> False"
  using createCable_sole[OF examplePatch_rows(1), of 1 2 "[]" 7 "[]"] examplePatch_link by (auto split: prod.splits sum.splits)

end
