(* ===== verification/Job_Scheduler.thy ===== *)
theory Job_Scheduler
  imports Go_Db
begin

text \<open>
  Scheduled jobs: the targets of a job and their order, \<open>internal/worker/sync_targets.go\<close>, and the scheduler that
  starts due jobs, \<open>internal/jobscheduler/scheduler.go\<close>. Times are integers. The cron library is a parameter: it
  parses an expression into a function from a time to the next activation, \<open>None\<close> for the zero time, or an error
  text. Starting a job is a parameter too: it may refuse, and each call is put into a log.

  Lemmas: a stored target is canonical and runs sources before destinations; a due schedule is started once and not
  again before its next activation, whatever database statements fail.
\<close>

subsection \<open>Targets\<close>

definition HousekeepingTarget :: string where "HousekeepingTarget = ''housekeeping''"
definition NetboxDeltaTarget :: string where "NetboxDeltaTarget = ''netbox-delta''"

definition commandForJobTarget :: "string \<Rightarrow> string list \<Rightarrow> (string \<times> string list) option" where
  "commandForJobTarget target roles =
     (if target = NetboxDeltaTarget then
        if ''netbox'' \<in> set roles then Some (''netbox'', [''--delta'']) else None
      else if target \<in> set roles then Some (target, [])
      else None)"

definition SyncTargets :: "string list" where
  "SyncTargets = [''becs'', ''netbox'', ''lime'', ''librenms'', ''icinga'', ''oxidized'', ''prometheus'', ''dns'', ''certs'', ''device-sync'']"

definition sourceSyncTargets :: "string list" where
  "sourceSyncTargets = [''becs'', ''netbox'', ''lime'', ''device-sync'']"

definition IsValidSyncTarget :: "string \<Rightarrow> bool" where
  "IsValidSyncTarget target \<longleftrightarrow> target \<in> set SyncTargets"

definition IsValidJobTarget :: "string \<Rightarrow> bool" where
  "IsValidJobTarget target \<longleftrightarrow> target = HousekeepingTarget \<or> target = NetboxDeltaTarget \<or> IsValidSyncTarget target"

definition SequencedSyncAllTargets :: "string list \<Rightarrow> string list" where
  "SequencedSyncAllTargets targets =
     filter (\<lambda>t. t \<in> set sourceSyncTargets) targets @ filter (\<lambda>t. t \<notin> set sourceSyncTargets) targets"

record Settings =
  st_ID :: nat
  st_BecsEnabled :: "bool option"
  st_NetboxEnabled :: "bool option"
  st_LimeEnabled :: "bool option"
  st_LibrenmsEnabled :: "bool option"
  st_IcingaEnabled :: "bool option"
  st_OxidizedEnabled :: "bool option"
  st_PrometheusEnabled :: "bool option"
  st_DnsEnabled :: "bool option"
  st_CertsEnabled :: "bool option"
  st_DeviceSyncEnabled :: "bool option"
  st_JobHistoryKeep :: int

definition zeroSettings :: "nat \<Rightarrow> Settings" where
  "zeroSettings i = \<lparr>st_ID = i, st_BecsEnabled = None, st_NetboxEnabled = None, st_LimeEnabled = None, st_LibrenmsEnabled = None,
     st_IcingaEnabled = None, st_OxidizedEnabled = None, st_PrometheusEnabled = None, st_DnsEnabled = None, st_CertsEnabled = None,
     st_DeviceSyncEnabled = None, st_JobHistoryKeep = 0\<rparr>"

definition EnabledSyncTargets :: "Settings \<Rightarrow> string list" where
  "EnabledSyncTargets s =
     (let enabled = map_of [(''becs'', st_BecsEnabled s), (''netbox'', st_NetboxEnabled s), (''lime'', st_LimeEnabled s),
            (''librenms'', st_LibrenmsEnabled s), (''icinga'', st_IcingaEnabled s), (''oxidized'', st_OxidizedEnabled s),
            (''prometheus'', st_PrometheusEnabled s), (''dns'', st_DnsEnabled s), (''certs'', st_CertsEnabled s),
            (''device-sync'', st_DeviceSyncEnabled s)]
      in filter (\<lambda>t. enabled t = Some (Some True)) SyncTargets)"

definition TargetAll :: string where "TargetAll = ''all''"

definition IsValidTarget :: "string \<Rightarrow> bool" where
  "IsValidTarget target \<longleftrightarrow> target = TargetAll \<or> IsValidJobTarget target"

definition splitTarget :: "string \<Rightarrow> go_error + string list" where
  "splitTarget raw0 =
     (let raw = TrimSpace raw0; chunks = map TrimSpace (Split raw (CHR '',''))
      in if raw = [] then Inl (PlainErr ''select at least one job'')
         else if [] \<in> set chunks then Inl (PlainErr ''unknown sync target'')
         else Inr chunks)"

definition orderTargets :: "string list \<Rightarrow> string list" where
  "orderTargets targets =
     (let selected = (\<lambda>t. t \<in> set targets);
          seq = concat (map (\<lambda>t. (if selected t then [t] else []) @
                  (if t = ''netbox'' \<and> selected NetboxDeltaTarget then [NetboxDeltaTarget] else [])) SyncTargets);
          seq = (if selected NetboxDeltaTarget \<and> NetboxDeltaTarget \<notin> set seq then seq @ [NetboxDeltaTarget] else seq)
      in SequencedSyncAllTargets seq @ (if selected HousekeepingTarget then [HousekeepingTarget] else []))"

text \<open>The loop that drops duplicates and checks names, from the parts kept so far.\<close>

fun uniqueTargets :: "string list \<Rightarrow> string list \<Rightarrow> go_error + string list" where
  "uniqueTargets unique [] = Inr unique"
| "uniqueTargets unique (part # parts) =
     (if part \<in> set unique then uniqueTargets unique parts
      else if \<not> IsValidTarget part then Inl (PlainErr ''unknown sync target'')
      else uniqueTargets (unique @ [part]) parts)"

definition CanonicalTarget :: "string \<Rightarrow> go_error + string" where
  "CanonicalTarget raw =
     (case splitTarget raw of Inl e \<Rightarrow> Inl e | Inr parts \<Rightarrow>
      (case uniqueTargets [] parts of Inl e \<Rightarrow> Inl e | Inr unique \<Rightarrow>
         if TargetAll \<in> set unique then
           if length unique > 1 then Inl (PlainErr ''all jobs cannot be combined with other jobs'') else Inr TargetAll
         else Inr (Join (orderTargets unique) '','')))"

subsection \<open>Schedules\<close>

record JobSchedule =
  js_ID :: nat
  js_Name :: string
  js_Enabled :: bool
  js_Target :: string
  js_Cron :: string
  js_LastRunAt :: "int option"
  js_NextRunAt :: "int option"
  js_LastError :: string
  js_CreatedBy :: string

text \<open>A call of \<open>StartJob\<close>, and the schedule it was made for.\<close>

record StartCall =
  sc_Schedule :: nat
  sc_JobType :: string
  sc_TriggeredBy :: string
  sc_Targets :: "string list"

record sched_db =
  jt_schedules :: "JobSchedule list"
  jq_schedules :: nat
  jt_settings :: "Settings list"
  jl_calls :: "StartCall list"

type_synonym 'a sched = "(sched_db, 'a) dbm"
type_synonym cron = "string \<Rightarrow> string + (int \<Rightarrow> int option)"
type_synonym starter = "StartCall list \<Rightarrow> StartCall \<Rightarrow> string option"

definition dropErr :: "('db, 'a) dbm \<Rightarrow> ('db, unit) dbm" where
  "dropErr m = dcase m (\<lambda>_. dret ())"

definition updateSchedules :: "(JobSchedule \<Rightarrow> bool) \<Rightarrow> (JobSchedule \<Rightarrow> JobSchedule) \<Rightarrow> nat sched" where
  "updateSchedules P f = stmt (\<lambda>db. (Inr (length (filter P (jt_schedules db))),
     db\<lparr>jt_schedules := map (\<lambda>s. if P s then f s else s) (jt_schedules db)\<rparr>))"

definition callStartJob :: "starter \<Rightarrow> StartCall \<Rightarrow> unit sched" where
  "callStartJob starts c s = (case s of (db, evs) \<Rightarrow>
     (case starts (jl_calls db) c of Some e \<Rightarrow> Inl (PlainErr e) | None \<Rightarrow> Inr (), (db\<lparr>jl_calls := jl_calls db @ [c]\<rparr>, evs)))"

text \<open>The settings are kept in a table of the state, given by how it is read and written.\<close>

definition GetOrCreateSettings :: "('db \<Rightarrow> Settings list) \<Rightarrow> ((Settings list \<Rightarrow> Settings list) \<Rightarrow> 'db \<Rightarrow> 'db) \<Rightarrow> ('db, Settings) dbm" where
  "GetOrCreateSettings get put = dcase (First st_ID get (\<lambda>s. st_ID s = 1)) (\<lambda>r. case r of
     Inr s \<Rightarrow> dret s
   | Inl e \<Rightarrow> if e \<noteq> RecordNotFound then dfail e
       else stmt (\<lambda>db. if list_ex (\<lambda>s. st_ID s = 1) (get db) then (Inl uniqueViolation, db)
              else (Inr (zeroSettings 1), put (\<lambda>rows. rows @ [zeroSettings 1]) db)))"

definition Validate :: "cron \<Rightarrow> string \<Rightarrow> string \<Rightarrow> string \<Rightarrow> go_error + string \<times> string \<times> string" where
  "Validate parse name0 target cronExpr0 =
     (let name = TrimSpace name0; cronExpr = TrimSpace cronExpr0
      in if name = [] then Inl (PlainErr ''name is required'')
         else case CanonicalTarget target of Inl e \<Rightarrow> Inl e | Inr canonical \<Rightarrow>
           (case parse cronExpr of
              Inl e \<Rightarrow> Inl (PlainErr (''invalid cron expression: '' @ e))
            | Inr _ \<Rightarrow> Inr (name, canonical, cronExpr)))"

definition NextRun :: "cron \<Rightarrow> string \<Rightarrow> int \<Rightarrow> go_error + int" where
  "NextRun parse expr after =
     (case parse (TrimSpace expr) of
        Inl e \<Rightarrow> Inl (PlainErr (''invalid cron expression: '' @ e))
      | Inr nextOf \<Rightarrow> (case nextOf after of None \<Rightarrow> Inl (PlainErr ''cron expression has no next run'') | Some t \<Rightarrow> Inr t))"

definition ResolveTargets :: "string \<Rightarrow> string list sched" where
  "ResolveTargets target =
     dbind (dres (CanonicalTarget target)) (\<lambda>canonical.
     if canonical \<noteq> TargetAll then dret (Split canonical (CHR '',''))
     else dbind (GetOrCreateSettings jt_settings jt_settings_update) (\<lambda>settings.
       let targets = SequencedSyncAllTargets (EnabledSyncTargets settings)
       in if targets = [] then dfail (PlainErr ''no sync targets are enabled'') else dret targets))"

definition recordError :: "nat \<Rightarrow> go_error \<Rightarrow> unit sched" where
  "recordError i err = dropErr (updateSchedules (\<lambda>s. js_ID s = i) (\<lambda>s. s\<lparr>js_LastError := errText err\<rparr>))"

definition isDue :: "int \<Rightarrow> JobSchedule \<Rightarrow> bool" where
  "isDue now s \<longleftrightarrow> js_Enabled s \<and> (case js_NextRunAt s of Some t \<Rightarrow> t \<le> now | None \<Rightarrow> False)"

definition callOf :: "JobSchedule \<Rightarrow> string list \<Rightarrow> StartCall" where
  "callOf sc targets = \<lparr>sc_Schedule = js_ID sc, sc_JobType = ''sync'', sc_TriggeredBy = ''schedule:'' @ js_Name sc, sc_Targets = targets\<rparr>"

definition claimed :: "int \<Rightarrow> int \<Rightarrow> JobSchedule \<Rightarrow> JobSchedule" where
  "claimed now nxt s = s\<lparr>js_NextRunAt := Some nxt, js_LastRunAt := Some now, js_LastError := []\<rparr>"

text \<open>What follows a claim.\<close>

definition launch :: "starter \<Rightarrow> JobSchedule \<Rightarrow> unit sched" where
  "launch starts sc =
     dcase (ResolveTargets (js_Target sc)) (\<lambda>t. case t of
        Inl err \<Rightarrow> recordError (js_ID sc) err
      | Inr targets \<Rightarrow> dcase (callStartJob starts (callOf sc targets)) (\<lambda>u. case u of
          Inl err \<Rightarrow> recordError (js_ID sc) err
        | Inr _ \<Rightarrow> dret ()))"

definition fire :: "cron \<Rightarrow> starter \<Rightarrow> int \<Rightarrow> JobSchedule \<Rightarrow> unit sched" where
  "fire parse starts now sc =
     (case NextRun parse (js_Cron sc) now of
        Inl err \<Rightarrow> dropErr (updateSchedules (\<lambda>s. js_ID s = js_ID sc) (\<lambda>s. s\<lparr>js_Enabled := False, js_LastError := errText err, js_NextRunAt := None\<rparr>))
      | Inr nxt \<Rightarrow>
          dcase (updateSchedules (\<lambda>s. js_ID s = js_ID sc \<and> isDue now s) (claimed now nxt)) (\<lambda>r. case r of
            Inl _ \<Rightarrow> dret ()
          | Inr n \<Rightarrow> if n = 0 then dret () else launch starts sc))"

definition Tick :: "cron \<Rightarrow> starter \<Rightarrow> int \<Rightarrow> unit sched" where
  "Tick parse starts now =
     dcase (Find jt_schedules (isDue now)) (\<lambda>r. case r of
       Inl _ \<Rightarrow> dret ()
     | Inr due \<Rightarrow> dbind (dfor (order_by (\<lambda>a b. js_ID a < js_ID b) due) (fire parse starts now)) (\<lambda>_. dret ()))"

subsection \<open>Editing\<close>

record JobScheduleDTO =
  jd_Name :: string
  jd_Enabled :: bool
  jd_Target :: string
  jd_Cron :: string

definition insertSchedule :: "JobSchedule \<Rightarrow> JobSchedule sched" where
  "insertSchedule s = stmt (\<lambda>db. let s' = s\<lparr>js_ID := jq_schedules db\<rparr>
     in (Inr s', db\<lparr>jt_schedules := jt_schedules db @ [s'], jq_schedules := Suc (jq_schedules db)\<rparr>))"

text \<open>The next activation of an edited schedule, \<open>None\<close> when it is disabled.\<close>

definition nextOf :: "cron \<Rightarrow> int \<Rightarrow> bool \<Rightarrow> string \<Rightarrow> int option sched" where
  "nextOf parse now enabled cronExpr =
     (if enabled then (case NextRun parse cronExpr now of Inl e \<Rightarrow> dfail (StatusErr 400 (errText e)) | Inr t \<Rightarrow> dret (Some t)) else dret None)"

definition validated :: "cron \<Rightarrow> JobScheduleDTO \<Rightarrow> (string \<times> string \<times> string) sched" where
  "validated parse dto = (case Validate parse (jd_Name dto) (jd_Target dto) (jd_Cron dto) of Inl e \<Rightarrow> dfail (StatusErr 400 (errText e)) | Inr v \<Rightarrow> dret v)"

definition ApiScheduleCreate :: "cron \<Rightarrow> int \<Rightarrow> string \<Rightarrow> JobScheduleDTO \<Rightarrow> JobSchedule sched" where
  "ApiScheduleCreate parse now user dto =
     dbind (validated parse dto) (\<lambda>(name, target, cronExpr).
     dbind (nextOf parse now (jd_Enabled dto) cronExpr) (\<lambda>nxt.
     insertSchedule \<lparr>js_ID = 0, js_Name = name, js_Enabled = jd_Enabled dto, js_Target = target, js_Cron = cronExpr,
       js_LastRunAt = None, js_NextRunAt = nxt, js_LastError = [], js_CreatedBy = user\<rparr>))"

definition scheduleByID :: "nat \<Rightarrow> JobSchedule sched" where
  "scheduleByID i = dcase (First js_ID jt_schedules (\<lambda>s. js_ID s = i)) (\<lambda>r. case r of
     Inr s \<Rightarrow> dret s | Inl e \<Rightarrow> dfail (if e = RecordNotFound then StatusErr 404 ''schedule not found'' else e))"

definition ApiScheduleGet :: "nat \<Rightarrow> JobSchedule sched" where
  "ApiScheduleGet i = scheduleByID i"

definition ApiScheduleUpdate :: "cron \<Rightarrow> int \<Rightarrow> nat \<Rightarrow> JobScheduleDTO \<Rightarrow> JobSchedule sched" where
  "ApiScheduleUpdate parse now i dto =
     dbind (scheduleByID i) (\<lambda>sc.
     dbind (validated parse dto) (\<lambda>(name, target, cronExpr).
     dbind (nextOf parse now (jd_Enabled dto) cronExpr) (\<lambda>nxt.
     dbind (updateSchedules (\<lambda>s. js_ID s = js_ID sc)
       (\<lambda>s. s\<lparr>js_Name := name, js_Enabled := jd_Enabled dto, js_Target := target, js_Cron := cronExpr, js_NextRunAt := nxt\<rparr>)) (\<lambda>_.
     First js_ID jt_schedules (\<lambda>s. js_ID s = js_ID sc)))))"

definition ApiScheduleDelete :: "nat \<Rightarrow> unit sched" where
  "ApiScheduleDelete i =
     dbind (scheduleByID i) (\<lambda>sc. stmt (\<lambda>db. (Inr (), db\<lparr>jt_schedules := filter (\<lambda>s. js_ID s \<noteq> js_ID sc) (jt_schedules db)\<rparr>)))"

subsection \<open>The order of targets\<close>

text \<open>What \<open>orderTargets\<close> amounts to: the selected targets in this order.\<close>

definition runOrder :: "string list" where
  "runOrder = [''becs'', ''netbox'', ''lime'', ''device-sync'', NetboxDeltaTarget, ''librenms'', ''icinga'', ''oxidized'', ''prometheus'', ''dns'', ''certs'', HousekeepingTarget]"

lemmas target_defs = NetboxDeltaTarget_def HousekeepingTarget_def SyncTargets_def sourceSyncTargets_def

definition withDelta :: "string list" where
  "withDelta = concat (map (\<lambda>t. [t] @ (if t = ''netbox'' then [NetboxDeltaTarget] else [])) SyncTargets)"

lemma concat_selected:
  "concat (map (\<lambda>t. (if sel t then [t] else []) @ (if t = n \<and> sel d then [d] else [])) ts) =
   filter sel (concat (map (\<lambda>t. [t] @ (if t = n then [d] else [])) ts))"
  by (induction ts) auto

lemma Sequenced_filter: "SequencedSyncAllTargets (filter P ts) = filter P (SequencedSyncAllTargets ts)"
  by (simp add: SequencedSyncAllTargets_def conj_commute)

lemma Sequenced_withDelta: "SequencedSyncAllTargets withDelta @ [HousekeepingTarget] = runOrder"
  by (simp add: SequencedSyncAllTargets_def withDelta_def runOrder_def target_defs)

lemma orderTargets_eq: "orderTargets ts = filter (\<lambda>t. t \<in> set ts) runOrder"
proof -
  let ?seq = "filter (\<lambda>t. t \<in> set ts) withDelta"
  have "NetboxDeltaTarget \<in> set withDelta" by (simp add: withDelta_def target_defs)
  then have "NetboxDeltaTarget \<in> set ts \<Longrightarrow> NetboxDeltaTarget \<in> set ?seq" by simp
  then have "orderTargets ts = SequencedSyncAllTargets ?seq @ (if HousekeepingTarget \<in> set ts then [HousekeepingTarget] else [])"
    unfolding orderTargets_def Let_def concat_selected withDelta_def[symmetric] by (auto split: if_splits)
  also have "\<dots> = filter (\<lambda>t. t \<in> set ts) (SequencedSyncAllTargets withDelta @ [HousekeepingTarget])" by (simp add: Sequenced_filter)
  finally show ?thesis unfolding Sequenced_withDelta .
qed

lemma runOrder_set: "set runOrder = {t. IsValidJobTarget t}"
  by (auto simp: runOrder_def IsValidJobTarget_def IsValidSyncTarget_def target_defs)

lemma runOrder_distinct: "distinct runOrder"
  by (simp add: runOrder_def target_defs)

lemma uniqueTargets_Inr:
  "uniqueTargets acc parts = Inr u \<Longrightarrow> distinct acc \<Longrightarrow>
   distinct u \<and> set u = set acc \<union> set parts \<and> (\<forall>t \<in> set parts - set acc. IsValidTarget t)"
proof (induction acc parts arbitrary: u rule: uniqueTargets.induct)
  case (2 acc part parts)
  show ?case
  proof (cases "part \<in> set acc")
    case True
    then show ?thesis using 2(1)[OF True] 2(3,4) by auto
  next
    case False
    then have "IsValidTarget part" "uniqueTargets (acc @ [part]) parts = Inr u" using 2(3) by (auto split: if_splits)
    then show ?thesis using 2(2)[OF False] 2(4) False by auto
  qed
qed simp

lemma uniqueTargets_ok:
  "distinct (acc @ parts) \<Longrightarrow> \<forall>t \<in> set parts. IsValidTarget t \<Longrightarrow> uniqueTargets acc parts = Inr (acc @ parts)"
  by (induction acc parts rule: uniqueTargets.induct) auto

lemma target_plain: "t \<in> set runOrder \<Longrightarrow> t \<noteq> [] \<and> CHR '','' \<notin> set t \<and> TrimSpace t = t"
  by (auto simp: runOrder_def target_defs TrimSpace_def TrimLeft_def is_space_def)

text \<open>A list of plain names is read back from its joined text.\<close>

lemma TrimSpace_Join:
  assumes "ps \<noteq> []" "\<forall>p \<in> set ps. p \<noteq> [] \<and> TrimSpace p = p"
  shows "TrimSpace (Join ps '','') = Join ps '','' \<and> Join ps '','' \<noteq> []"
proof -
  have ends: "\<not> is_space (hd p)" "\<not> is_space (last p)" if "p \<in> set ps" for p
    using assms(2) that TrimSpace_ends[of p] by auto
  have "Join ps '','' \<noteq> [] \<and> hd (Join ps '','') = hd (hd ps) \<and> last (Join ps '','') = last (last ps)"
    using assms by (induction ps "'',''" rule: Join.induct) auto
  then show ?thesis using ends[of "hd ps"] ends[of "last ps"] assms(1) by (auto intro: TrimSpace_id)
qed

lemma splitTarget_Join:
  assumes "ps \<noteq> []" "set ps \<subseteq> set runOrder"
  shows "splitTarget (Join ps '','') = Inr ps"
proof -
  have p: "p \<noteq> []" "CHR '','' \<notin> set p" "TrimSpace p = p" if "p \<in> set ps" for p using target_plain that assms(2) by auto
  have "Split (Join ps '','') (CHR '','') = ps" using Split_Join[OF assms(1), of "CHR '',''"] p by simp
  moreover have "map TrimSpace ps = ps" using p by (simp add: map_idI)
  ultimately show ?thesis using TrimSpace_Join[OF assms(1)] p unfolding splitTarget_def Let_def by auto
qed

lemma Canonical_parts:
  assumes "CanonicalTarget raw = Inr c"
  obtains parts where "splitTarget raw = Inr parts" "parts \<noteq> []" "\<forall>t \<in> set parts. IsValidTarget t"
    "c = (if TargetAll \<in> set parts then TargetAll else Join (orderTargets parts) '','')" "TargetAll \<in> set parts \<Longrightarrow> set parts = {TargetAll}"
proof -
  obtain parts where p: "splitTarget raw = Inr parts" using assms by (auto simp: CanonicalTarget_def split: sum.splits)
  obtain u where u: "uniqueTargets [] parts = Inr u" using assms p by (auto simp: CanonicalTarget_def split: sum.splits)
  have s: "distinct u" "set u = set parts" "\<forall>t \<in> set parts. IsValidTarget t" using uniqueTargets_Inr[OF u] by auto
  have ord: "orderTargets u = orderTargets parts" unfolding orderTargets_eq s(2) ..
  have ne: "parts \<noteq> []" using p by (auto simp: splitTarget_def Let_def split: if_splits)
  have c: "if TargetAll \<in> set parts then \<not> length u > 1 \<and> c = TargetAll else c = Join (orderTargets parts) '',''"
    using assms by (auto simp: CanonicalTarget_def p u s(2) ord split: if_splits)
  have "set parts = {TargetAll}" if all: "TargetAll \<in> set parts"
  proof -
    have "\<not> length u > 1" using c all by simp
    moreover have "u \<noteq> []" using s(2) all by auto
    ultimately have "length u = 1" by (cases u) auto
    then obtain x where x: "u = [x]" by (auto simp: length_Suc_conv)
    then have "x = TargetAll" using all unfolding s(2)[symmetric] by simp
    then show ?thesis unfolding s(2)[symmetric] x by simp
  qed
  moreover have "c = (if TargetAll \<in> set parts then TargetAll else Join (orderTargets parts) '','')" using c by (simp split: if_splits)
  ultimately show ?thesis using that[OF p ne s(3)] by blast
qed

lemma canonical_form:
  assumes "CanonicalTarget raw = Inr c"
  shows "CanonicalTarget c = Inr c \<and>
    (\<exists>parts. splitTarget raw = Inr parts \<and>
      (c = TargetAll \<and> set parts = {TargetAll} \<or>
       c \<noteq> TargetAll \<and> Split c (CHR '','') = filter (\<lambda>t. t \<in> set parts) runOrder \<and> set (Split c (CHR '','')) = set parts))"
proof -
  obtain parts where p: "splitTarget raw = Inr parts" "parts \<noteq> []" "\<forall>t \<in> set parts. IsValidTarget t"
    and c: "c = (if TargetAll \<in> set parts then TargetAll else Join (orderTargets parts) '','')"
    and all: "TargetAll \<in> set parts \<Longrightarrow> set parts = {TargetAll}"
    using Canonical_parts[OF assms] by blast
  show ?thesis
  proof (cases "TargetAll \<in> set parts")
    case True
    have "CanonicalTarget TargetAll = Inr TargetAll" by code_simp
    then show ?thesis using True all c p(1) by auto
  next
    case False
    define os where "os = orderTargets parts"
    have valid: "set parts \<subseteq> set runOrder" using p(3) False unfolding runOrder_set IsValidTarget_def by auto
    have os: "os = filter (\<lambda>t. t \<in> set parts) runOrder" "set os = set parts" "distinct os" "os \<noteq> []"
      using valid p(2) runOrder_distinct unfolding os_def orderTargets_eq by (auto simp: filter_empty_conv neq_Nil_conv)
    have no_comma: "\<forall>t \<in> set os. CHR '','' \<notin> set t" using os(2) valid target_plain by blast
    have cj: "c = Join os '',''" using c False by (simp add: os_def)
    have split: "Split c (CHR '','') = os" unfolding cj using Split_Join[OF os(4), of "CHR '',''"] no_comma by simp
    have "uniqueTargets [] os = Inr os" using uniqueTargets_ok[of "[]" os] os p(3) by auto
    moreover have "splitTarget c = Inr os" unfolding cj by (rule splitTarget_Join) (use os valid in auto)
    moreover have "orderTargets os = os" unfolding orderTargets_eq by (subst os(1)) (auto simp: os(2) intro: filter_cong)
    ultimately have canon: "CanonicalTarget c = Inr c" using False os(2) by (simp add: CanonicalTarget_def cj)
    have "c \<noteq> TargetAll"
    proof
      assume "c = TargetAll"
      then have "os = [TargetAll]" using split by (simp add: TargetAll_def)
      then show False using False os(2) by auto
    qed
    then show ?thesis using canon split os p(1) by auto
  qed
qed

lemma CanonicalTarget_stable: "CanonicalTarget raw = Inr c \<Longrightarrow> CanonicalTarget c = Inr c"
  by (simp add: canonical_form)

text \<open>
  C38: A target that the scheduler accepts is stored in a canonical form: reading the stored text gives itself, and it
  names the selected jobs, each once. The jobs run in the order of one fixed list, in which every source of the
  inventory comes before every destination and housekeeping comes last.
\<close>

theorem CanonicalTarget_canonical:
  assumes "CanonicalTarget raw = Inr c"
  shows "CanonicalTarget c = Inr c \<and>
    (\<exists>parts. splitTarget raw = Inr parts \<and>
      (c = TargetAll \<and> set parts = {TargetAll} \<or>
       c \<noteq> TargetAll \<and> Split c (CHR '','') = filter (\<lambda>t. t \<in> set parts) runOrder \<and> set (Split c (CHR '','')) = set parts))"
  by (rule canonical_form[OF assms])

theorem CanonicalTarget_canonical_witness:
  "CanonicalTarget '' dns , housekeeping,netbox,dns'' = Inr ''netbox,dns,housekeeping'' \<and>
   CanonicalTarget ''netbox,dns,housekeeping'' = Inr ''netbox,dns,housekeeping''"
proof -
  have c: "CanonicalTarget '' dns , housekeeping,netbox,dns'' = Inr ''netbox,dns,housekeeping''" by code_simp
  show ?thesis using c CanonicalTarget_canonical[OF c] by simp
qed

subsection \<open>Schedules stay armed\<close>

text \<open>Unique ids; an enabled schedule has a next activation, and stored targets are canonical.\<close>

definition sched_row_ok :: "nat \<Rightarrow> JobSchedule \<Rightarrow> bool" where
  "sched_row_ok q s \<longleftrightarrow> js_ID s < q \<and> (js_Enabled s \<longrightarrow> js_NextRunAt s \<noteq> None) \<and> CanonicalTarget (js_Target s) = Inr (js_Target s)"

definition scheds_ok :: "sched_db \<Rightarrow> bool" where
  "scheds_ok db \<longleftrightarrow> distinct (map js_ID (jt_schedules db)) \<and> (\<forall>s \<in> set (jt_schedules db). sched_row_ok (jq_schedules db) s)"

interpretation sch: db_invariant scheds_ok "\<lambda>db _. db"
  by unfold_locales

lemma scheds_ok_update:
  assumes ok: "scheds_ok db" and f: "\<And>s. js_ID (f s) = js_ID s" "\<And>q s. sched_row_ok q s \<Longrightarrow> sched_row_ok q (f s)"
  shows "scheds_ok (db\<lparr>jt_schedules := map (\<lambda>s. if P s then f s else s) (jt_schedules db)\<rparr>)"
proof -
  have "map js_ID (map (\<lambda>s. if P s then f s else s) (jt_schedules db)) = map js_ID (jt_schedules db)" using f(1) by simp
  moreover have "\<forall>s \<in> set (map (\<lambda>s. if P s then f s else s) (jt_schedules db)). sched_row_ok (jq_schedules db) s"
    using ok f(2) by (auto simp: scheds_ok_def)
  ultimately show ?thesis using ok unfolding scheds_ok_def by (simp del: map_map)
qed

lemma updateSchedules_keeps:
  assumes "\<And>s. js_ID (f s) = js_ID s" "\<And>q s. sched_row_ok q s \<Longrightarrow> sched_row_ok q (f s)"
  shows "sch.keeps (updateSchedules P f)"
  unfolding updateSchedules_def by (rule sch.keeps_stmt) (simp add: scheds_ok_update[OF _ assms])

lemma dropErr_keeps: "sch.keeps m \<Longrightarrow> sch.keeps (dropErr m)"
  unfolding dropErr_def by (rule sch.keeps_case) (auto intro: sch.keeps_ret)

lemma recordError_keeps: "sch.keeps (recordError i e)"
  unfolding recordError_def by (intro dropErr_keeps updateSchedules_keeps) (simp_all add: sched_row_ok_def)

lemma callStartJob_keeps: "sch.keeps (callStartJob starts c)"
  by (auto simp: sch.keeps_def triple_def outcome_def callStartJob_def scheds_ok_def split: sum.splits option.splits)

lemma GetOrCreateSettings_keeps: "sch.keeps (GetOrCreateSettings jt_settings jt_settings_update)"
  unfolding GetOrCreateSettings_def
  by (rule sch.keeps_case[OF sch.keeps_reads(3)]) (auto intro!: sch.keeps_rules sch.keeps_stmt simp: scheds_ok_def split: sum.splits)

lemma ResolveTargets_keeps: "sch.keeps (ResolveTargets t)"
  unfolding ResolveTargets_def Let_def
  by (intro sch.keeps_bind sch.keeps_res) (auto intro!: sch.keeps_bind GetOrCreateSettings_keeps sch.keeps_ret sch.keeps_fail)

lemma launch_keeps: "sch.keeps (launch starts sc)"
  unfolding launch_def
proof (rule sch.keeps_case[OF ResolveTargets_keeps])
  have start: "sch.keeps (dcase (callStartJob starts c) (\<lambda>u. case u of Inl err \<Rightarrow> recordError (js_ID sc) err | Inr _ \<Rightarrow> dret ()))" for c
    by (rule sch.keeps_case[OF callStartJob_keeps]) (auto intro: recordError_keeps sch.keeps_ret split: sum.splits)
  show "sch.keeps (case t of Inl err \<Rightarrow> recordError (js_ID sc) err
    | Inr targets \<Rightarrow> dcase (callStartJob starts (callOf sc targets)) (\<lambda>u. case u of Inl err \<Rightarrow> recordError (js_ID sc) err | Inr _ \<Rightarrow> dret ()))" for t
    by (cases t) (simp_all only: sum.case start recordError_keeps)
qed

lemma fire_keeps: "sch.keeps (fire parse starts now s)"
proof -
  have claim: "sch.keeps (updateSchedules P (claimed now nxt))" for P nxt
    by (rule updateSchedules_keeps) (simp_all add: claimed_def sched_row_ok_def)
  have disable: "sch.keeps (dropErr (updateSchedules P (\<lambda>s. s\<lparr>js_Enabled := False, js_LastError := e, js_NextRunAt := None\<rparr>)))" for P e
    by (intro dropErr_keeps updateSchedules_keeps) (simp_all add: sched_row_ok_def)
  show ?thesis unfolding fire_def
    by (cases "NextRun parse (js_Cron s) now") (auto intro!: disable sch.keeps_case[OF claim] launch_keeps sch.keeps_ret split: sum.splits)
qed

lemma Tick_keeps: "sch.keeps (Tick parse starts now)"
  unfolding Tick_def
  by (rule sch.keeps_case[OF sch.keeps_reads(1)]) (auto intro!: sch.keeps_ret sch.keeps_bind sch.keeps_for fire_keeps split: sum.splits)

lemma Validate_canonical: "Validate parse n t c = Inr (n', t', c') \<Longrightarrow> CanonicalTarget t' = Inr t'"
  using CanonicalTarget_stable by (auto simp: Validate_def Let_def split: if_splits sum.splits)

lemma scheduleByID_keeps: "sch.keeps (scheduleByID i)"
  unfolding scheduleByID_def by (rule sch.keeps_case[OF sch.keeps_reads(3)]) (auto intro: sch.keeps_ret sch.keeps_fail split: sum.splits)

lemma validated_triple: "triple scheds_ok (validated parse dto) (\<lambda>v db. scheds_ok db \<and> CanonicalTarget (fst (snd v)) = Inr (fst (snd v))) scheds_ok"
  unfolding validated_def
  by (cases "Validate parse (jd_Name dto) (jd_Target dto) (jd_Cron dto)") (auto intro!: triple_ret triple_fail dest: Validate_canonical)

lemma nextOf_triple: "triple P (nextOf parse now en c) (\<lambda>nxt db. P db \<and> (en \<longrightarrow> nxt \<noteq> None)) P"
  by (auto simp: nextOf_def intro!: triple_ret triple_fail split: sum.splits)

lemma insertSchedule_ok:
  assumes "scheds_ok db" "\<And>i. sched_row_ok (Suc i) (s\<lparr>js_ID := i\<rparr>)"
  shows "scheds_ok (db\<lparr>jt_schedules := jt_schedules db @ [s\<lparr>js_ID := jq_schedules db\<rparr>], jq_schedules := Suc (jq_schedules db)\<rparr>)"
  using assms by (fastforce simp: scheds_ok_def sched_row_ok_def)

lemma insertSchedule_keeps:
  assumes "\<And>i. sched_row_ok (Suc i) (s\<lparr>js_ID := i\<rparr>)"
  shows "sch.keeps (insertSchedule s)"
  unfolding insertSchedule_def Let_def by (rule sch.keeps_stmt) (simp only: snd_conv insertSchedule_ok[OF _ assms])

lemma ApiScheduleCreate_keeps: "sch.keeps (ApiScheduleCreate parse now user dto)"
  unfolding ApiScheduleCreate_def sch.keeps_def
proof (rule triple_bind[OF validated_triple], clarsimp, rule triple_pure)
  fix name target c
  let ?row = "\<lambda>nxt. \<lparr>js_ID = 0, js_Name = name, js_Enabled = jd_Enabled dto, js_Target = target, js_Cron = c, js_LastRunAt = None, js_NextRunAt = nxt, js_LastError = [], js_CreatedBy = user\<rparr>"
  assume t: "CanonicalTarget target = Inr target"
  have ins: "sch.keeps (insertSchedule (?row nxt))" if "jd_Enabled dto \<longrightarrow> nxt \<noteq> None" for nxt
    by (rule insertSchedule_keeps) (use that t in \<open>simp add: sched_row_ok_def\<close>)
  show "triple scheds_ok (dbind (nextOf parse now (jd_Enabled dto) c) (\<lambda>nxt. insertSchedule (?row nxt))) (\<lambda>_. scheds_ok) scheds_ok"
    by (rule triple_bind[OF nextOf_triple]) (rule triple_pure, rule ins[unfolded sch.keeps_def])
qed

lemma ApiScheduleUpdate_keeps: "sch.keeps (ApiScheduleUpdate parse now i dto)"
  unfolding ApiScheduleUpdate_def
proof (rule sch.keeps_bind[OF scheduleByID_keeps], unfold sch.keeps_def, rule triple_bind[OF validated_triple], clarsimp, rule triple_pure)
  fix sc name target c
  let ?f = "\<lambda>nxt s. s\<lparr>js_Name := name, js_Enabled := jd_Enabled dto, js_Target := target, js_Cron := c, js_NextRunAt := nxt\<rparr>"
  assume t: "CanonicalTarget target = Inr target"
  have upd: "sch.keeps (dbind (updateSchedules P (?f nxt)) (\<lambda>_. First js_ID jt_schedules (\<lambda>s. js_ID s = js_ID sc)))" if "jd_Enabled dto \<longrightarrow> nxt \<noteq> None" for P nxt
    by (intro sch.keeps_bind sch.keeps_reads updateSchedules_keeps) (use that t in \<open>simp_all add: sched_row_ok_def\<close>)
  show "triple scheds_ok (dbind (nextOf parse now (jd_Enabled dto) c) (\<lambda>nxt.
      dbind (updateSchedules (\<lambda>s. js_ID s = js_ID sc) (?f nxt)) (\<lambda>_. First js_ID jt_schedules (\<lambda>s. js_ID s = js_ID sc)))) (\<lambda>_. scheds_ok) scheds_ok"
    by (rule triple_bind[OF nextOf_triple]) (rule triple_pure, rule upd[unfolded sch.keeps_def])
qed

lemma ApiScheduleDelete_keeps: "sch.keeps (ApiScheduleDelete i)"
  unfolding ApiScheduleDelete_def
  by (intro sch.keeps_bind scheduleByID_keeps sch.keeps_stmt) (auto simp: scheds_ok_def distinct_map_filter)

datatype sched_request =
    ReqTick int
  | ReqCreateSchedule int string JobScheduleDTO
  | ReqUpdateSchedule int nat JobScheduleDTO
  | ReqDeleteSchedule nat

fun serveSched :: "cron \<Rightarrow> starter \<Rightarrow> sched_request \<Rightarrow> unit sched" where
  "serveSched parse starts (ReqTick now) = Tick parse starts now"
| "serveSched parse starts (ReqCreateSchedule now user dto) = dropErr (ApiScheduleCreate parse now user dto)"
| "serveSched parse starts (ReqUpdateSchedule now i dto) = dropErr (ApiScheduleUpdate parse now i dto)"
| "serveSched parse starts (ReqDeleteSchedule i) = dropErr (ApiScheduleDelete i)"

lemma serveSched_keeps: "sch.keeps (serveSched parse starts r)"
  by (cases r) (simp_all add: Tick_keeps dropErr_keeps ApiScheduleCreate_keeps ApiScheduleUpdate_keeps ApiScheduleDelete_keeps)

text \<open>
  C11: Whatever schedules are created, edited, deleted and run by the scheduler, in whatever order and whichever
  database statements fail on the way, the ids of schedules stay unique, every enabled schedule has a next activation,
  so that it cannot go to sleep for ever, and every stored target is canonical.
\<close>

theorem schedules_stay_armed:
  assumes "scheds_ok db"
  shows "scheds_ok (fst (snd (dfor reqs (serveSched parse starts) (db, evs))))"
  using sch.keepsD[OF sch.keeps_for[OF serveSched_keeps], of "(db, evs)"] assms by simp

definition hourly :: cron where
  "hourly expr = (if expr = ''@hourly'' then Inr (\<lambda>t. Some (3600 * (t div 3600 + 1))) else Inl ''bad'')"

definition nightly :: JobScheduleDTO where
  "nightly = \<lparr>jd_Name = ''n'', jd_Enabled = True, jd_Target = ''dns,netbox'', jd_Cron = ''@hourly''\<rparr>"

definition emptySched :: sched_db where
  "emptySched = \<lparr>jt_schedules = [], jq_schedules = 1, jt_settings = [], jl_calls = []\<rparr>"

lemma emptySched_run:
  "map (\<lambda>s. (js_Target s, js_NextRunAt s)) (jt_schedules (fst (snd (dfor [ReqCreateSchedule 7 ''admin'' nightly, ReqTick 3600] (serveSched hourly (\<lambda>_ _. None)) (emptySched, []))))) =
   [(''netbox,dns'', Some 7200)]"
  by code_simp

theorem schedules_stay_armed_witness:
  "scheds_ok emptySched \<and> scheds_ok (fst (snd (dfor [ReqCreateSchedule 7 ''admin'' nightly, ReqTick 3600] (serveSched hourly (\<lambda>_ _. None)) (emptySched, [])))) \<and>
   length (jt_schedules (fst (snd (dfor [ReqCreateSchedule 7 ''admin'' nightly, ReqTick 3600] (serveSched hourly (\<lambda>_ _. None)) (emptySched, []))))) = 1"
proof -
  have ok: "scheds_ok emptySched" by (simp add: scheds_ok_def emptySched_def)
  show ?thesis using ok schedules_stay_armed[OF ok, of "[ReqCreateSchedule 7 ''admin'' nightly, ReqTick 3600]" hourly "\<lambda>_ _. None" "[]"]
      arg_cong[OF emptySched_run, of length] by simp
qed

subsection \<open>A due schedule is started once\<close>

text \<open>What a tick is about: the next activations, and the calls made.\<close>

type_synonym sched_view = "(nat \<times> int option) list \<times> StartCall list"

definition view :: "sched_db \<Rightarrow> sched_view" where
  "view db = (map (\<lambda>s. (js_ID s, js_NextRunAt s)) (jt_schedules db), jl_calls db)"

interpretation sv: db_view view "\<lambda>db _. db"
  by unfold_locales simp

lemma record_same: "sv.same (recordError i e)"
  unfolding recordError_def dropErr_def updateSchedules_def
  by (intro sv.same_case sv.same_stmt sv.same_readonly readonly_basic) (auto simp: view_def)

lemma resolve_same: "sv.same (ResolveTargets t)"
proof -
  have settings: "sv.same (GetOrCreateSettings jt_settings jt_settings_update)" unfolding GetOrCreateSettings_def
    by (rule sv.same_case[OF sv.same_readonly[OF readonly_reads(3)]])
      (auto intro: sv.same_stmt sv.same_readonly[OF readonly_basic(1)] sv.same_readonly[OF readonly_basic(2)] simp: view_def split: sum.splits)
  show ?thesis unfolding ResolveTargets_def Let_def
    by (intro sv.same_bind[OF sv.same_readonly[OF readonly_basic(4)]]) (auto intro!: sv.same_bind[OF settings] intro: sv.same_readonly[OF readonly_basic(1)] sv.same_readonly[OF readonly_basic(2)])
qed

definition armed :: "int \<Rightarrow> int option \<Rightarrow> bool" where
  "armed now t \<longleftrightarrow> (case t of Some t' \<Rightarrow> now < t' | None \<Rightarrow> False)"

text \<open>The schedules \<open>xs\<close> of the due ones \<open>D\<close> are still to be fired; those started so far are armed.\<close>

definition calledOk :: "int \<Rightarrow> JobSchedule set \<Rightarrow> JobSchedule list \<Rightarrow> sched_view \<Rightarrow> StartCall \<Rightarrow> bool" where
  "calledOk now D xs v c \<longleftrightarrow> sc_Schedule c \<notin> js_ID ` set xs \<and> (\<exists>s \<in> D. \<exists>ts. c = callOf s ts) \<and>
     (\<forall>t. (sc_Schedule c, t) \<in> set (fst v) \<longrightarrow> armed now t)"

definition tickInv :: "int \<Rightarrow> JobSchedule set \<Rightarrow> StartCall list \<Rightarrow> JobSchedule list \<Rightarrow> sched_view \<Rightarrow> bool" where
  "tickInv now D calls0 xs v \<longleftrightarrow> distinct (map fst (fst v)) \<and> distinct (map js_ID xs) \<and> set xs \<subseteq> D \<and>
     (\<exists>new. snd v = calls0 @ new \<and> distinct (map sc_Schedule new) \<and> (\<forall>c \<in> set new. calledOk now D xs v c))"

lemma tickInvI:
  assumes "distinct (map fst (fst v))" "distinct (map js_ID xs)" "set xs \<subseteq> D" "snd v = calls0 @ new" "distinct (map sc_Schedule new)"
    "\<And>c. c \<in> set new \<Longrightarrow> calledOk now D xs v c"
  shows "tickInv now D calls0 xs v"
  using assms unfolding tickInv_def by blast

lemma tickInvE:
  assumes "tickInv now D calls0 xs v"
  obtains new where "distinct (map fst (fst v))" "distinct (map js_ID xs)" "set xs \<subseteq> D" "snd v = calls0 @ new" "distinct (map sc_Schedule new)"
    "\<And>c. c \<in> set new \<Longrightarrow> calledOk now D xs v c"
  using assms unfolding tickInv_def by blast

definition armedRow :: "int \<Rightarrow> nat \<Rightarrow> sched_view \<Rightarrow> bool" where
  "armedRow now i v \<longleftrightarrow> (\<forall>t. (i, t) \<in> set (fst v) \<longrightarrow> armed now t)"

text \<open>Updating the rows of the schedule to be fired does not disturb the others.\<close>

lemma tickInv_update:
  assumes inv: "tickInv now D calls0 (x # xs) (view db)" and f: "\<And>s. js_ID (f s) = js_ID s" and P: "\<And>s. P s \<Longrightarrow> js_ID s = js_ID x"
  shows "tickInv now D calls0 (x # xs) (view (db\<lparr>jt_schedules := map (\<lambda>s. if P s then f s else s) (jt_schedules db)\<rparr>))" (is "tickInv _ _ _ _ ?v")
  using inv
proof (rule tickInvE)
  fix new
  assume a: "distinct (map fst (fst (view db)))" "distinct (map js_ID (x # xs))" "set (x # xs) \<subseteq> D" "snd (view db) = calls0 @ new"
    "distinct (map sc_Schedule new)" and called: "\<And>c. c \<in> set new \<Longrightarrow> calledOk now D (x # xs) (view db) c"
  have ids: "map fst (fst ?v) = map fst (fst (view db))" using f by (auto simp: view_def)
  have other: "(i, t) \<in> set (fst (view db))" if "(i, t) \<in> set (fst ?v)" "i \<noteq> js_ID x" for i t
    using that f P by (auto simp: view_def split: if_splits)
  show ?thesis
  proof (rule tickInvI[OF _ a(2,3) _ a(5)])
    show "distinct (map fst (fst ?v))" unfolding ids by (rule a(1))
    show "snd ?v = calls0 @ new" using a(4) by (simp add: view_def)
    show "calledOk now D (x # xs) ?v c" if "c \<in> set new" for c
      using called[OF that] other[of "sc_Schedule c"] unfolding calledOk_def by auto
  qed
qed

lemma tickInv_skip: "tickInv now D calls0 (x # xs) v \<Longrightarrow> tickInv now D calls0 xs v"
  by (erule tickInvE, rule tickInvI) (auto simp: calledOk_def)

lemma tickInv_started:
  assumes inv: "tickInv now D calls0 (x # xs) (rows, calls)" and armed: "armedRow now (js_ID x) (rows, calls)"
  shows "tickInv now D calls0 xs (rows, calls @ [callOf x ts])" (is "tickInv _ _ _ _ ?v")
  using inv
proof (rule tickInvE)
  fix new
  assume a: "distinct (map fst (fst (rows, calls)))" "distinct (map js_ID (x # xs))" "set (x # xs) \<subseteq> D" "snd (rows, calls) = calls0 @ new"
    "distinct (map sc_Schedule new)" and called: "\<And>c. c \<in> set new \<Longrightarrow> calledOk now D (x # xs) (rows, calls) c"
  have id: "sc_Schedule (callOf x ts) = js_ID x" by (simp add: callOf_def)
  have "sc_Schedule c \<noteq> js_ID x" if "c \<in> set new" for c using called[OF that] by (simp add: calledOk_def)
  then have fresh: "js_ID x \<notin> sc_Schedule ` set new" by (metis imageE)
  show ?thesis
  proof (rule tickInvI[where new = "new @ [callOf x ts]"])
    show "distinct (map sc_Schedule (new @ [callOf x ts]))" using a(5) fresh by (simp add: id)
    have "calledOk now D xs ?v c" if "c \<in> set new" for c using called[OF that] by (auto simp: calledOk_def)
    moreover have "calledOk now D xs ?v (callOf x ts)" using a(2,3) armed by (auto simp: calledOk_def armedRow_def id)
    ultimately show "calledOk now D xs ?v c" if "c \<in> set (new @ [callOf x ts])" for c using that by auto
  qed (use a in auto)
qed

lemma launch_triple:
  "triple (\<lambda>db. tickInv now D calls0 (x # xs) (view db) \<and> armedRow now (js_ID x) (view db)) (launch starts x)
     (\<lambda>_ db. tickInv now D calls0 xs (view db)) (\<lambda>db. tickInv now D calls0 xs (view db))"
proof -
  let ?P = "\<lambda>v. tickInv now D calls0 (x # xs) v \<and> armedRow now (js_ID x) v" and ?Q = "\<lambda>db. tickInv now D calls0 xs (view db)"
  have rec: "triple (\<lambda>db. tickInv now D calls0 xs (view db)) (recordError i e) (\<lambda>_. ?Q) ?Q" for i e
    by (rule sv.same_triple[OF record_same])
  have rec': "triple (\<lambda>db. ?P (view db)) (recordError i e) (\<lambda>_. ?Q) ?Q" for i e
    by (rule triple_weaken[OF rec]) (auto dest: tickInv_skip)
  have start: "triple (\<lambda>db. ?P (view db)) (callStartJob starts (callOf x ts)) (\<lambda>_. ?Q) ?Q" for ts
    using tickInv_started by (auto simp: triple_def outcome_def callStartJob_def view_def split: option.splits)
  show ?thesis unfolding launch_def
  proof (rule triple_case[OF sv.same_triple[OF resolve_same, of ?P]])
    show "triple (\<lambda>db. ?P (view db)) (case Inr ts of Inl err \<Rightarrow> recordError (js_ID x) err
      | Inr targets \<Rightarrow> dcase (callStartJob starts (callOf x targets)) (\<lambda>u. case u of Inl err \<Rightarrow> recordError (js_ID x) err | Inr _ \<Rightarrow> dret ())) (\<lambda>_. ?Q) ?Q" for ts
      unfolding sum.case by (rule triple_case[OF start]) (simp_all only: sum.case rec triple_ret)
    show "triple (\<lambda>db. ?P (view db)) (case Inl e of Inl err \<Rightarrow> recordError (js_ID x) err
      | Inr targets \<Rightarrow> dcase (callStartJob starts (callOf x targets)) (\<lambda>u. case u of Inl err \<Rightarrow> recordError (js_ID x) err | Inr _ \<Rightarrow> dret ())) (\<lambda>_. ?Q) ?Q" for e
      unfolding sum.case by (rule rec')
  qed
qed

lemma claim_triple:
  assumes "now < nxt"
  shows "triple (\<lambda>db. tickInv now D calls0 (x # xs) (view db)) (updateSchedules (\<lambda>s. js_ID s = js_ID x \<and> isDue now s) (claimed now nxt))
    (\<lambda>n db. tickInv now D calls0 (x # xs) (view db) \<and> (n \<noteq> 0 \<longrightarrow> armedRow now (js_ID x) (view db))) (\<lambda>db. tickInv now D calls0 (x # xs) (view db))"
  unfolding updateSchedules_def
proof (rule triple_stmt_total)
  fix db :: sched_db
  let ?P = "\<lambda>s. js_ID s = js_ID x \<and> isDue now s"
  let ?db = "db\<lparr>jt_schedules := map (\<lambda>s. if ?P s then claimed now nxt s else s) (jt_schedules db)\<rparr>"
  assume inv: "tickInv now D calls0 (x # xs) (view db)"
  show up: "tickInv now D calls0 (x # xs) (view ?db)" by (rule tickInv_update[OF inv]) (simp_all add: claimed_def)
  have "armedRow now (js_ID x) (view ?db)" if some: "filter ?P (jt_schedules db) \<noteq> []"
  proof -
    obtain r where r: "r \<in> set (jt_schedules db)" "?P r" using some unfolding filter_empty_conv by blast
    have "inj_on js_ID (set (jt_schedules db))" using inv by (auto simp: tickInv_def view_def distinct_map comp_def)
    then have uniq: "s = r" if "s \<in> set (jt_schedules db)" "js_ID s = js_ID x" for s using that r by (metis inj_onD)
    show ?thesis unfolding armedRow_def
    proof (intro allI impI)
      fix t assume "(js_ID x, t) \<in> set (fst (view ?db))"
      then obtain s where s: "s \<in> set (jt_schedules db)" "js_ID x = js_ID (if ?P s then claimed now nxt s else s)"
        "t = js_NextRunAt (if ?P s then claimed now nxt s else s)" unfolding view_def by auto
      have "js_ID s = js_ID x" using s(2) by (simp add: claimed_def split: if_splits)
      then have "s = r" using uniq s(1) by blast
      then have "t = Some nxt" using s(3) r(2) by (simp add: claimed_def)
      then show "armed now t" using assms by (simp add: armed_def)
    qed
  qed
  then show "tickInv now D calls0 (x # xs) (view ?db) \<and> (length (filter ?P (jt_schedules db)) \<noteq> 0 \<longrightarrow> armedRow now (js_ID x) (view ?db))"
    using up by simp
qed

lemma fire_triple:
  assumes cron: "\<And>e f t t'. parse e = Inr f \<Longrightarrow> f t = Some t' \<Longrightarrow> t < t'"
  shows "triple (\<lambda>db. tickInv now D calls0 (x # xs) (view db)) (fire parse starts now x)
     (\<lambda>_ db. tickInv now D calls0 xs (view db)) (\<lambda>db. tickInv now D calls0 xs (view db))"
proof (cases "NextRun parse (js_Cron x) now")
  case (Inl err)
  let ?f = "\<lambda>s. s\<lparr>js_Enabled := False, js_LastError := errText err, js_NextRunAt := None\<rparr>"
  have "triple (\<lambda>db. tickInv now D calls0 (x # xs) (view db)) (updateSchedules (\<lambda>s. js_ID s = js_ID x) ?f)
      (\<lambda>_ db. tickInv now D calls0 xs (view db)) (\<lambda>db. tickInv now D calls0 xs (view db))"
    unfolding updateSchedules_def by (rule triple_stmt_total) (rule tickInv_skip, assumption, (rule tickInv_skip, rule tickInv_update, assumption, simp, simp)+)
  then show ?thesis unfolding fire_def Inl sum.case dropErr_def by (rule triple_case) (auto intro: triple_ret)
next
  case (Inr nxt)
  have lt: "now < nxt" using Inr cron by (auto simp: NextRun_def split: sum.splits option.splits)
  show ?thesis unfolding fire_def Inr sum.case
  proof (rule triple_case[OF claim_triple[OF lt]])
    fix n :: nat
    show "triple (\<lambda>db. tickInv now D calls0 (x # xs) (view db) \<and> (n \<noteq> 0 \<longrightarrow> armedRow now (js_ID x) (view db)))
      (case Inr n of Inl _ \<Rightarrow> dret () | Inr n \<Rightarrow> if n = 0 then dret () else launch starts x)
      (\<lambda>_ db. tickInv now D calls0 xs (view db)) (\<lambda>db. tickInv now D calls0 xs (view db))"
    proof (cases "n = 0")
      case True
      have "triple (\<lambda>db. tickInv now D calls0 (x # xs) (view db)) (dret ()) (\<lambda>_ db. tickInv now D calls0 xs (view db)) (\<lambda>db. tickInv now D calls0 xs (view db))"
        by (rule triple_ret) (rule tickInv_skip)
      then show ?thesis using True by simp
    next
      case False
      then show ?thesis using launch_triple by simp
    qed
  next
    show "triple (\<lambda>db. tickInv now D calls0 (x # xs) (view db)) (case Inl e of Inl _ \<Rightarrow> dret () | Inr n \<Rightarrow> if n = 0 then dret () else launch starts x)
      (\<lambda>_ db. tickInv now D calls0 xs (view db)) (\<lambda>db. tickInv now D calls0 xs (view db))" for e
      unfolding sum.case by (rule triple_ret) (rule tickInv_skip)
  qed
qed

text \<open>
  C10: Whatever database statements fail, a tick starts a job for a due schedule only, at most once, and only after its
  next activation has been stored: every schedule it started is due again at a later time only, so that neither a busy
  target nor a lost answer of the database makes it start twice. The cron library gives activations after the given
  time.
\<close>

theorem Tick_starts_once:
  assumes "distinct (map js_ID (jt_schedules db))" and "\<And>e f t t'. parse e = Inr f \<Longrightarrow> f t = Some t' \<Longrightarrow> t < t'"
  shows "\<exists>new. jl_calls (fst (snd (Tick parse starts now (db, evs)))) = jl_calls db @ new \<and> distinct (map sc_Schedule new) \<and>
    (\<forall>c \<in> set new. (\<exists>s \<in> set (jt_schedules db). isDue now s \<and> (\<exists>targets. c = callOf s targets)) \<and>
      (\<forall>s \<in> set (jt_schedules (fst (snd (Tick parse starts now (db, evs))))). js_ID s = sc_Schedule c \<longrightarrow> armed now (js_NextRunAt s)))"
proof -
  let ?D = "{s \<in> set (jt_schedules db). isDue now s}"
  let ?I = "\<lambda>db'. tickInv now ?D (jl_calls db) [] (view db')"
  have ids: "distinct (map fst (fst (view db)))" using assms(1) by (simp add: view_def comp_def)
  have start: "tickInv now ?D (jl_calls db) (order_by (\<lambda>a b. js_ID a < js_ID b) (filter (isDue now) (jt_schedules db))) (view db)"
    by (rule tickInvI[where new = "[]"]) (use ids assms(1) in \<open>auto simp: view_def distinct_order_by distinct_map_filter\<close>)
  have none: "?I db" by (rule tickInvI[where new = "[]"]) (use ids in \<open>auto simp: view_def\<close>)
  have loop: "triple (\<lambda>db'. tickInv now ?D (jl_calls db) xs (view db')) (dfor xs (fire parse starts now)) (\<lambda>_. ?I) (\<lambda>db'. \<exists>ys. tickInv now ?D (jl_calls db) ys (view db'))" for xs
    by (rule triple_for_rest[where P = "\<lambda>xs db'. tickInv now ?D (jl_calls db) xs (view db')"]) 
      (rule triple_weaken, rule fire_triple, erule assms(2), assumption, assumption, assumption, erule exI)
  have stop: "?I db'" if "tickInv now ?D (jl_calls db) ys (view db')" for ys db'
    using that by (induction ys) (auto dest: tickInv_skip)
  have run: "triple (\<lambda>db'. db' = db) (Tick parse starts now) (\<lambda>_. ?I) ?I"
    unfolding Tick_def
  proof (rule triple_case[OF triple_Find[where E = "\<lambda>db'. db' = db"]])
    fix due
    have "triple (\<lambda>db'. db' = db \<and> due = filter (isDue now) (jt_schedules db')) (dfor (order_by (\<lambda>a b. js_ID a < js_ID b) due) (fire parse starts now)) (\<lambda>_. ?I) ?I"
      by (rule triple_weaken[OF loop]) (use start stop in auto)
    then show "triple (\<lambda>db'. db' = db \<and> due = filter (isDue now) (jt_schedules db')) (case Inr due of Inl _ \<Rightarrow> dret ()
        | Inr due \<Rightarrow> dbind (dfor (order_by (\<lambda>a b. js_ID a < js_ID b) due) (fire parse starts now)) (\<lambda>_. dret ())) (\<lambda>_. ?I) ?I"
      unfolding sum.case by (rule triple_bind) (auto intro: triple_ret)
  qed (auto intro: triple_ret simp: none)
  have "?I (fst (snd (Tick parse starts now (db, evs))))"
    using tripleD[OF run, of "(db, evs)"] by (auto simp: outcome_def split: sum.splits)
  then show ?thesis
  proof (rule tickInvE)
    let ?db = "fst (snd (Tick parse starts now (db, evs)))"
    fix new
    assume new: "snd (view ?db) = jl_calls db @ new" "distinct (map sc_Schedule new)" and ok: "\<And>c. c \<in> set new \<Longrightarrow> calledOk now ?D [] (view ?db) c"
    have "(\<exists>s \<in> set (jt_schedules db). isDue now s \<and> (\<exists>targets. c = callOf s targets)) \<and>
        (\<forall>s \<in> set (jt_schedules ?db). js_ID s = sc_Schedule c \<longrightarrow> armed now (js_NextRunAt s))" if "c \<in> set new" for c
    proof (intro conjI ballI impI)
      show "\<exists>s \<in> set (jt_schedules db). isDue now s \<and> (\<exists>targets. c = callOf s targets)" using ok[OF that] unfolding calledOk_def by blast
      fix s assume s: "s \<in> set (jt_schedules ?db)" "js_ID s = sc_Schedule c"
      have "(js_ID s, js_NextRunAt s) \<in> set (fst (view ?db))" using s(1) by (simp add: view_def)
      then show "armed now (js_NextRunAt s)" using ok[OF that] s(2) unfolding calledOk_def by metis
    qed
    then show ?thesis using new by (intro exI[of _ new]) (simp add: view_def)
  qed
qed

definition twoDue :: sched_db where
  "twoDue = \<lparr>jt_schedules = [\<lparr>js_ID = 1, js_Name = ''n'', js_Enabled = True, js_Target = ''dns'', js_Cron = ''@hourly'', js_LastRunAt = None, js_NextRunAt = Some 5, js_LastError = [], js_CreatedBy = []\<rparr>,
     \<lparr>js_ID = 2, js_Name = ''m'', js_Enabled = True, js_Target = ''netbox,housekeeping'', js_Cron = ''@hourly'', js_LastRunAt = None, js_NextRunAt = Some 3600, js_LastError = [], js_CreatedBy = []\<rparr>],
     jq_schedules = 3, jt_settings = [], jl_calls = []\<rparr>"

text \<open>The answer to the claim of the second schedule is lost: the schedule is claimed, and not started.\<close>

lemma twoDue_run:
  "map sc_Schedule (jl_calls (fst (snd (Tick hourly (\<lambda>_ _. None) 3601 (twoDue, [Runs, Runs, Unacked ''timeout'']))))) = [1] \<and>
   map js_NextRunAt (jt_schedules (fst (snd (Tick hourly (\<lambda>_ _. None) 3601 (twoDue, [Runs, Runs, Unacked ''timeout'']))))) = [Some 7200, Some 7200]"
  by code_simp

lemma hourly_later: "hourly e = Inr f \<Longrightarrow> f t = Some t' \<Longrightarrow> t < t'"
proof -
  assume a: "hourly e = Inr f" "f t = Some t'"
  have "t' = 3600 * (t div 3600 + 1)" using a by (auto simp: hourly_def split: if_splits)
  then show ?thesis by presburger
qed

theorem Tick_starts_once_witness:
  "distinct (map js_ID (jt_schedules twoDue)) \<and>
   (\<exists>new. jl_calls (fst (snd (Tick hourly (\<lambda>_ _. None) 3601 (twoDue, [Runs, Runs, Unacked ''timeout''])))) = new \<and> map sc_Schedule new = [1] \<and> distinct (map sc_Schedule new))"
proof -
  have d: "distinct (map js_ID (jt_schedules twoDue))" by (simp add: twoDue_def)
  have "jl_calls twoDue = []" by (simp add: twoDue_def)
  then show ?thesis using d twoDue_run Tick_starts_once[OF d hourly_later, where starts = "\<lambda>_ _. None" and now = 3601 and evs = "[Runs, Runs, Unacked ''timeout'']"]
    by auto
qed

subsection \<open>Every due schedule is started\<close>

definition settingsOf :: "sched_db \<Rightarrow> Settings" where
  "settingsOf db = (case first_by st_ID (\<lambda>s. st_ID s = 1) (jt_settings db) of Some s \<Rightarrow> s | None \<Rightarrow> zeroSettings 1)"

definition targetsIn :: "Settings \<Rightarrow> string \<Rightarrow> string list option" where
  "targetsIn st t = (case CanonicalTarget t of
     Inl _ \<Rightarrow> None
   | Inr c \<Rightarrow> if c \<noteq> TargetAll then Some (Split c (CHR '',''))
       else let ts = SequencedSyncAllTargets (EnabledSyncTargets st) in if ts = [] then None else Some ts)"

text \<open>The calls a due schedule is worth: one, unless its cron expression or its target is void.\<close>

definition callsFor :: "cron \<Rightarrow> Settings \<Rightarrow> int \<Rightarrow> JobSchedule \<Rightarrow> StartCall list" where
  "callsFor parse st now s = (case NextRun parse (js_Cron s) now of Inl _ \<Rightarrow> []
     | Inr _ \<Rightarrow> (case targetsIn st (js_Target s) of None \<Rightarrow> [] | Some ts \<Rightarrow> [callOf s ts]))"

definition dueIDs :: "int \<Rightarrow> sched_db \<Rightarrow> nat set" where
  "dueIDs now db = js_ID ` {s \<in> set (jt_schedules db). isDue now s}"

text \<open>Nothing but the log of calls and the texts of errors differ.\<close>

definition alike :: "sched_db \<Rightarrow> sched_db \<Rightarrow> bool" where
  "alike db db' \<longleftrightarrow> map js_ID (jt_schedules db') = map js_ID (jt_schedules db) \<and> settingsOf db' = settingsOf db \<and> (\<forall>now. dueIDs now db' = dueIDs now db)"

lemma alike_refl [simp]: "alike db db"
  by (simp add: alike_def)

lemma alike_trans: "alike db db' \<Longrightarrow> alike db' db'' \<Longrightarrow> alike db db''"
  by (simp add: alike_def)

lemma first_by_append: "first_by key P rs = None \<Longrightarrow> P r \<Longrightarrow> first_by key P (rs @ [r]) = Some r"
  by (induction rs) (auto split: if_splits option.splits)

lemma run_GetOrCreateSettings:
  "\<exists>db'. GetOrCreateSettings jt_settings jt_settings_update (db, []) = (Inr (settingsOf db), (db', [])) \<and> alike db db' \<and> jl_calls db' = jl_calls db"
proof (cases "first_by st_ID (\<lambda>s. st_ID s = 1) (jt_settings db)")
  case None
  then have no: "\<not> list_ex (\<lambda>s. st_ID s = 1) (jt_settings db)" by (auto simp: first_by_None list_ex_iff)
  let ?db = "db\<lparr>jt_settings := jt_settings db @ [zeroSettings 1]\<rparr>"
  have "GetOrCreateSettings jt_settings jt_settings_update (db, []) = (Inr (settingsOf db), (?db, []))"
    using None no by (simp add: GetOrCreateSettings_def db_run settingsOf_def)
  moreover have "settingsOf ?db = settingsOf db" using None first_by_append[OF None, of "zeroSettings 1"] by (simp add: settingsOf_def zeroSettings_def)
  ultimately show ?thesis by (intro exI[of _ ?db]) (simp add: alike_def dueIDs_def)
next
  case (Some s)
  then show ?thesis by (simp add: GetOrCreateSettings_def db_run settingsOf_def)
qed

lemma run_ResolveTargets:
  "\<exists>e db'. ResolveTargets t (db, []) = (case targetsIn (settingsOf db) t of None \<Rightarrow> Inl e | Some ts \<Rightarrow> Inr ts, (db', [])) \<and> alike db db' \<and> jl_calls db' = jl_calls db"
proof (cases "CanonicalTarget t")
  case (Inl e)
  then show ?thesis by (auto simp: ResolveTargets_def targetsIn_def db_run)
next
  case (Inr c)
  obtain db' where run: "GetOrCreateSettings jt_settings jt_settings_update (db, []) = (Inr (settingsOf db), (db', []))" "alike db db'" "jl_calls db' = jl_calls db"
    using run_GetOrCreateSettings by blast
  show ?thesis
  proof (cases "c = TargetAll")
    case True
    show ?thesis
      by (intro exI[of _ "PlainErr ''no sync targets are enabled''"] exI[of _ db'])
        (simp add: ResolveTargets_def targetsIn_def Inr True Let_def db_run run)
  next
    case False
    then show ?thesis by (auto simp: ResolveTargets_def targetsIn_def Inr db_run)
  qed
qed

lemma dueIDs_map:
  assumes "\<And>s. js_ID (f s) = js_ID s" "\<And>s. isDue now (f s) \<longleftrightarrow> isDue now s \<and> js_ID s \<notin> K"
  shows "dueIDs now (db\<lparr>jt_schedules := map f (jt_schedules db)\<rparr>) = dueIDs now db - K"
proof -
  have "{s \<in> f ` set (jt_schedules db). isDue now s} = f ` {s \<in> set (jt_schedules db). isDue now s \<and> js_ID s \<notin> K}" using assms(2) by auto
  then show ?thesis unfolding dueIDs_def using assms(1) by (auto simp: image_image)
qed

lemma run_recordError: "\<exists>db'. recordError i e (db, []) = (Inr (), (db', [])) \<and> alike db db' \<and> jl_calls db' = jl_calls db"
proof -
  let ?f = "\<lambda>s. if js_ID s = i then s\<lparr>js_LastError := errText e\<rparr> else s"
  let ?db = "db\<lparr>jt_schedules := map ?f (jt_schedules db)\<rparr>"
  have "dueIDs now ?db = dueIDs now db - {}" for now by (rule dueIDs_map) (simp_all add: isDue_def)
  then have "alike db ?db" by (simp add: alike_def settingsOf_def)
  moreover have "recordError i e (db, []) = (Inr (), (?db, []))" by (simp add: recordError_def dropErr_def updateSchedules_def db_run)
  ultimately show ?thesis by (intro exI[of _ ?db]) simp
qed

lemma run_launch:
  "\<exists>db'. launch starts x (db, []) = (Inr (), (db', [])) \<and> alike db db' \<and>
     jl_calls db' = jl_calls db @ (case targetsIn (settingsOf db) (js_Target x) of None \<Rightarrow> [] | Some ts \<Rightarrow> [callOf x ts])"
proof -
  obtain e db1 where r: "ResolveTargets (js_Target x) (db, []) = (case targetsIn (settingsOf db) (js_Target x) of None \<Rightarrow> Inl e | Some ts \<Rightarrow> Inr ts, (db1, []))"
    "alike db db1" "jl_calls db1 = jl_calls db" using run_ResolveTargets by blast
  show ?thesis
  proof (cases "targetsIn (settingsOf db) (js_Target x)")
    case None
    then show ?thesis using r run_recordError[of "js_ID x" e db1] by (auto simp: launch_def db_run intro: alike_trans)
  next
    case (Some ts)
    let ?db = "db1\<lparr>jl_calls := jl_calls db1 @ [callOf x ts]\<rparr>"
    have like: "alike db1 ?db" by (simp add: alike_def settingsOf_def dueIDs_def)
    show ?thesis
    proof (cases "starts (jl_calls db1) (callOf x ts)")
      case None
      have "launch starts x (db, []) = (Inr (), (?db, []))" by (simp add: launch_def db_run r(1) Some callStartJob_def None)
      then show ?thesis using r(2,3) like Some by (intro exI[of _ ?db]) (auto intro: alike_trans)
    next
      case (Some msg)
      obtain db2 where d: "recordError (js_ID x) (PlainErr msg) (?db, []) = (Inr (), (db2, []))" "alike ?db db2" "jl_calls db2 = jl_calls ?db"
        using run_recordError by blast
      have "launch starts x (db, []) = (Inr (), (db2, []))"
        by (simp add: launch_def db_run r(1) \<open>targetsIn (settingsOf db) (js_Target x) = _\<close> callStartJob_def Some d(1))
      then show ?thesis using r(2,3) like d(2,3) \<open>targetsIn (settingsOf db) (js_Target x) = _\<close>
        by (intro exI[of _ db2]) (auto intro: alike_trans)
    qed
  qed
qed

lemma run_fire:
  assumes cron: "\<forall>e f t t'. parse e = Inr f \<longrightarrow> f t = Some t' \<longrightarrow> t < t'" and due: "js_ID x \<in> dueIDs now db" and ids: "distinct (map js_ID (jt_schedules db))"
  shows "\<exists>db'. fire parse starts now x (db, []) = (Inr (), (db', [])) \<and> map js_ID (jt_schedules db') = map js_ID (jt_schedules db) \<and>
    settingsOf db' = settingsOf db \<and> dueIDs now db' = dueIDs now db - {js_ID x} \<and> jl_calls db' = jl_calls db @ callsFor parse (settingsOf db) now x"
proof (cases "NextRun parse (js_Cron x) now")
  case (Inl err)
  let ?f = "\<lambda>s. if js_ID s = js_ID x then s\<lparr>js_Enabled := False, js_LastError := errText err, js_NextRunAt := None\<rparr> else s"
  let ?db = "db\<lparr>jt_schedules := map ?f (jt_schedules db)\<rparr>"
  have "dueIDs now ?db = dueIDs now db - {js_ID x}" by (rule dueIDs_map) (simp_all add: isDue_def)
  moreover have "fire parse starts now x (db, []) = (Inr (), (?db, []))" by (simp add: fire_def Inl dropErr_def updateSchedules_def db_run)
  ultimately show ?thesis by (intro exI[of _ ?db]) (simp add: settingsOf_def callsFor_def Inl)
next
  case (Inr nxt)
  have lt: "now < nxt" using Inr cron by (auto simp: NextRun_def split: sum.splits option.splits)
  let ?P = "\<lambda>s. js_ID s = js_ID x \<and> isDue now s"
  let ?f = "\<lambda>s. if ?P s then claimed now nxt s else s"
  let ?db = "db\<lparr>jt_schedules := map ?f (jt_schedules db)\<rparr>"
  have d: "dueIDs now ?db = dueIDs now db - {js_ID x}" by (rule dueIDs_map) (use lt in \<open>auto simp: claimed_def isDue_def\<close>)
  have i: "map js_ID (jt_schedules ?db) = map js_ID (jt_schedules db)" by (simp add: claimed_def)
  have "\<exists>s \<in> set (jt_schedules db). ?P s" using due by (auto simp: dueIDs_def)
  then have ne: "length (filter ?P (jt_schedules db)) \<noteq> 0" unfolding length_0_conv filter_empty_conv by blast
  have st: "settingsOf ?db = settingsOf db" by (simp add: settingsOf_def)
  obtain db' where l: "launch starts x (?db, []) = (Inr (), (db', []))" "alike ?db db'"
    "jl_calls db' = jl_calls ?db @ (case targetsIn (settingsOf ?db) (js_Target x) of None \<Rightarrow> [] | Some ts \<Rightarrow> [callOf x ts])"
    using run_launch by blast
  have "fire parse starts now x (db, []) = (Inr (), (db', []))"
    unfolding fire_def Inr sum.case by (simp add: updateSchedules_def db_run) (use ne l(1) in simp)
  then show ?thesis using l(2,3) d i st by (intro exI[of _ db']) (simp add: alike_def callsFor_def Inr)
qed

lemma run_fires:
  assumes cron: "\<forall>e f t t'. parse e = Inr f \<longrightarrow> f t = Some t' \<longrightarrow> t < t'"
  shows "js_ID ` set xs \<subseteq> dueIDs now db \<Longrightarrow> distinct (map js_ID xs) \<Longrightarrow> distinct (map js_ID (jt_schedules db)) \<Longrightarrow>
    \<exists>us db'. dfor xs (fire parse starts now) (db, []) = (Inr us, (db', [])) \<and> dueIDs now db' = dueIDs now db - js_ID ` set xs \<and>
      jl_calls db' = jl_calls db @ concat (map (callsFor parse (settingsOf db) now) xs)"
proof (induction xs arbitrary: db)
  case Nil
  then show ?case by (simp add: db_run)
next
  case (Cons x xs)
  obtain db1 where f: "fire parse starts now x (db, []) = (Inr (), (db1, []))" "map js_ID (jt_schedules db1) = map js_ID (jt_schedules db)"
    "settingsOf db1 = settingsOf db" "dueIDs now db1 = dueIDs now db - {js_ID x}" "jl_calls db1 = jl_calls db @ callsFor parse (settingsOf db) now x"
    using run_fire[OF cron, where x = x and now = now and db = db and starts = starts] Cons.prems by auto
  have "js_ID ` set xs \<subseteq> dueIDs now db1" using Cons.prems(1,2) f(4) by (simp add: subset_Diff_insert)
  then obtain us db' where "dfor xs (fire parse starts now) (db1, []) = (Inr us, (db', []))" "dueIDs now db' = dueIDs now db1 - js_ID ` set xs"
    "jl_calls db' = jl_calls db1 @ concat (map (callsFor parse (settingsOf db1) now) xs)"
    using Cons.IH[of db1] Cons.prems(2,3) f(2) by auto
  then show ?case using f by (intro exI[of _ "() # us"] exI[of _ db']) (auto simp: db_run)
qed

text \<open>
  C37: Without database errors a tick starts every due schedule, in the order of their ids, with the jobs its target
  stands for, except those whose cron expression or target is void, and afterwards none of them is due any more: a
  schedule that was due several times over while the server was down runs once.
\<close>

theorem Tick_starts_due:
  assumes "distinct (map js_ID (jt_schedules db))" and "\<And>e f t t'. parse e = Inr f \<Longrightarrow> f t = Some t' \<Longrightarrow> t < t'"
  shows "\<exists>db'. Tick parse starts now (db, []) = (Inr (), (db', [])) \<and>
    jl_calls db' = jl_calls db @ concat (map (callsFor parse (settingsOf db) now) (order_by (\<lambda>a b. js_ID a < js_ID b) (filter (isDue now) (jt_schedules db)))) \<and>
    filter (isDue now) (jt_schedules db') = []"
proof -
  let ?xs = "order_by (\<lambda>a b. js_ID a < js_ID b) (filter (isDue now) (jt_schedules db))"
  have cron: "\<forall>e f t t'. parse e = Inr f \<longrightarrow> f t = Some t' \<longrightarrow> t < t'" using assms(2) by blast
  have ids: "js_ID ` set ?xs = dueIDs now db" by (auto simp: dueIDs_def)
  have "distinct (map js_ID ?xs)" using assms(1) by (simp add: distinct_order_by distinct_map_filter)
  then obtain us db' where run: "dfor ?xs (fire parse starts now) (db, []) = (Inr us, (db', []))" and none: "dueIDs now db' = dueIDs now db - js_ID ` set ?xs"
    and calls: "jl_calls db' = jl_calls db @ concat (map (callsFor parse (settingsOf db) now) ?xs)"
    using run_fires[OF cron, where xs = ?xs and now = now and db = db and starts = starts] assms(1) ids by blast
  have "filter (isDue now) (jt_schedules db') = []" using none ids by (auto simp: dueIDs_def filter_empty_conv)
  moreover have "Tick parse starts now (db, []) = (Inr (), (db', []))" by (simp add: Tick_def db_run run)
  ultimately show ?thesis using calls by blast
qed

lemma twoDue_calls:
  "concat (map (callsFor hourly (settingsOf twoDue) 3601) (order_by (\<lambda>a b. js_ID a < js_ID b) (filter (isDue 3601) (jt_schedules twoDue)))) =
   [\<lparr>sc_Schedule = 1, sc_JobType = ''sync'', sc_TriggeredBy = ''schedule:n'', sc_Targets = [''dns'']\<rparr>,
    \<lparr>sc_Schedule = 2, sc_JobType = ''sync'', sc_TriggeredBy = ''schedule:m'', sc_Targets = [''netbox'', ''housekeeping'']\<rparr>]"
  by code_simp

theorem Tick_starts_due_witness:
  "distinct (map js_ID (jt_schedules twoDue)) \<and>
   (\<exists>db'. Tick hourly (\<lambda>_ _. None) 3601 (twoDue, []) = (Inr (), (db', [])) \<and> map sc_Targets (jl_calls db') = [[''dns''], [''netbox'', ''housekeeping'']])"
proof -
  have d: "distinct (map js_ID (jt_schedules twoDue))" by (simp add: twoDue_def)
  have "jl_calls twoDue = []" by (simp add: twoDue_def)
  then show ?thesis using d Tick_starts_due[OF d, where parse = hourly and starts = "\<lambda>_ _. None" and now = 3601] hourly_later unfolding twoDue_calls by auto
qed

end
