(* ===== verification/Job_Hub.thy ===== *)
theory Job_Hub
  imports Job_Scheduler "HOL-Library.AList"
begin

text \<open>
  Jobs and their tasks on the hub: \<open>StartJob\<close> and what it calls in \<open>internal/worker/hub.go\<close>, the housekeeping job,
  \<open>internal/worker/hub_housekeeping.go\<close> and \<open>internal/housekeeping\<close>. The state holds the tables and the maps of
  \<open>RemoteManager\<close>; a map is an association list, in the order in which the code walks through it. A handler runs as a
  whole. What the code starts in the background is kept as such: the rest of a batch with the task it waits for, and
  housekeeping tasks still to run. The connection to a node ends before a new one to the same node says hello.

  Lemmas: at most one command per target is in flight; a finished job has all its tasks, each finished, and is
  reported once; trimming the history keeps what it promises and is atomic.
\<close>

subsection \<open>Rows and messages\<close>

record Job =
  jb_ID :: nat
  jb_Type :: string
  jb_TriggeredBy :: string
  jb_StartedAt :: int
  jb_FinishedAt :: "int option"
  jb_ExpectedTasks :: nat

record JobTask =
  jk_ID :: nat
  jk_JobID :: nat
  jk_TaskID :: string
  jk_Target :: string
  jk_StartedAt :: int
  jk_FinishedAt :: "int option"
  jk_ExitCode :: int
  jk_Err :: string
  jk_ErrorCount :: nat
  jk_WarningCount :: nat

record JobTaskEvent =
  je_ID :: nat
  je_JobTaskID :: "nat option"
  je_TaskID :: string
  je_Target :: string
  je_Level :: string
  je_Message :: string
  je_At :: int

record runningJob =
  rj_TaskID :: string
  rj_JobTaskPK :: nat
  rj_Node :: string

record CommandMsg =
  cm_ID :: string
  cm_Command :: string
  cm_Args :: "string list"
  cm_Report :: string

record LogMsg =
  lm_ID :: string
  lm_Command :: string
  lm_Stream :: string
  lm_ExitCode :: int
  lm_Err :: string

record EventMsg =
  em_ID :: string
  em_Target :: string
  em_Level :: string
  em_Message :: string

record TaskResult =
  tr_Target :: string
  tr_TaskID :: string
  tr_Matched :: nat
  tr_Err :: "go_error option"

text \<open>The line that reports a finished job.\<close>

record FinishLine =
  fl_Source :: string
  fl_JobID :: nat
  fl_Status :: string
  fl_Duration :: string
  fl_Targets :: string
  fl_TriggeredBy :: string
  fl_Errors :: nat
  fl_Warnings :: nat

text \<open>
  \<open>hm_open\<close> are the commands that nodes were given and have not answered, \<open>hm_batches\<close> the goroutines of
  \<open>dispatchRemainingSequentially\<close>: a job, the task waited for and the targets left.
\<close>

record job_hub =
  hj_jobs :: "Job list"
  hq_jobs :: nat
  hk_tasks :: "JobTask list"
  hq_tasks :: nat
  he_events :: "JobTaskEvent list"
  hq_events :: nat
  hs_settings :: "Settings list"
  hm_ids :: nat
  hm_running :: "(string \<times> runningJob) list"
  hm_conns :: "(string \<times> string list) list"
  hm_open :: "(string \<times> CommandMsg) list"
  hm_batches :: "(nat \<times> string \<times> string list) list"
  hm_house :: "(string \<times> nat) list"
  hl_finished :: "FinishLine list"

type_synonym 'a hub = "(job_hub, 'a) dbm"

text \<open>Random ids, and whether a node's outbox takes a message.\<close>

record hub_env =
  newID :: "nat \<Rightarrow> go_error + string"
  trySend :: "string \<Rightarrow> CommandMsg \<Rightarrow> bool"

definition StreamExit :: string where "StreamExit = ''exit''"

definition reportedCommand :: "CommandMsg \<Rightarrow> string" where
  "reportedCommand msg = (if cm_Report msg \<noteq> [] then cm_Report msg else cm_Command msg)"

subsection \<open>Reservations\<close>

definition memory :: "(job_hub \<Rightarrow> (go_error + 'a) \<times> job_hub) \<Rightarrow> 'a hub" where
  "memory f s = (case s of (h, evs) \<Rightarrow> (fst (f h), (snd (f h), evs)))"

definition nextID :: "hub_env \<Rightarrow> string hub" where
  "nextID env = memory (\<lambda>h. (newID env (hm_ids h), h\<lparr>hm_ids := Suc (hm_ids h)\<rparr>))"

definition ErrSyncAlreadyRunning :: string where
  "ErrSyncAlreadyRunning = ''sync already running for this target''"

definition reserveTarget :: "hub_env \<Rightarrow> string \<Rightarrow> string hub" where
  "reserveTarget env target =
     dbind (nextID env) (\<lambda>i. memory (\<lambda>h. case map_of (hm_running h) target of
         Some existing \<Rightarrow> (Inl (PlainErr (ErrSyncAlreadyRunning @ '' (task '' @ rj_TaskID existing @ '')'')), h)
       | None \<Rightarrow> (Inr i, h\<lparr>hm_running := AList.update target \<lparr>rj_TaskID = i, rj_JobTaskPK = 0, rj_Node = []\<rparr> (hm_running h)\<rparr>)))"

definition clearRunning :: "string \<Rightarrow> string \<Rightarrow> unit hub" where
  "clearRunning target taskID = memory (\<lambda>h. (Inr (),
     case map_of (hm_running h) target of
       Some cur \<Rightarrow> if rj_TaskID cur = taskID then h\<lparr>hm_running := AList.delete target (hm_running h)\<rparr> else h
     | None \<Rightarrow> h))"

text \<open>Filling in a reservation that is still held.\<close>

definition noted :: "string \<Rightarrow> string \<Rightarrow> (runningJob \<Rightarrow> runningJob) \<Rightarrow> job_hub \<Rightarrow> job_hub" where
  "noted target taskID f h =
     (case map_of (hm_running h) target of
        Some cur \<Rightarrow> if rj_TaskID cur = taskID then h\<lparr>hm_running := AList.update target (f cur) (hm_running h)\<rparr> else h
      | None \<Rightarrow> h)"

definition noteRunning :: "string \<Rightarrow> string \<Rightarrow> (runningJob \<Rightarrow> runningJob) \<Rightarrow> unit hub" where
  "noteRunning target taskID f = memory (\<lambda>h. (Inr (), noted target taskID f h))"

subsection \<open>Finishing a task\<close>

definition updateTasks :: "(JobTask \<Rightarrow> bool) \<Rightarrow> (JobTask \<Rightarrow> JobTask) \<Rightarrow> unit hub" where
  "updateTasks P f = stmt (\<lambda>h. (Inr (), h\<lparr>hk_tasks := map (\<lambda>t. if P t then f t else t) (hk_tasks h)\<rparr>))"

definition updateJobs :: "(Job \<Rightarrow> bool) \<Rightarrow> (Job \<Rightarrow> Job) \<Rightarrow> nat hub" where
  "updateJobs P f = stmt (\<lambda>h. (Inr (length (filter P (hj_jobs h))), h\<lparr>hj_jobs := map (\<lambda>j. if P j then f j else j) (hj_jobs h)\<rparr>))"

text \<open>Times are nanoseconds; \<open>Round\<close> rounds half a second up.\<close>

definition formatJobDuration :: "int \<Rightarrow> string" where
  "formatJobDuration d = (if d < 1000000000 then ''<1s'' else Itoa (nat ((d + 500000000) div 1000000000)) @ ''s'')"

definition finishLine :: "Job \<Rightarrow> int \<Rightarrow> JobTask list \<Rightarrow> FinishLine" where
  "finishLine job finishedAt tasks =
     (let targets = map jk_Target tasks
      in \<lparr>fl_Source = (if length targets = 1 then hd targets else ''job''), fl_JobID = jb_ID job,
          fl_Status = (if list_ex (\<lambda>t. jk_ExitCode t \<noteq> 0) tasks then ''failed'' else ''success''),
          fl_Duration = formatJobDuration (max 0 (finishedAt - jb_StartedAt job)), fl_Targets = Join targets '','',
          fl_TriggeredBy = jb_TriggeredBy job, fl_Errors = sum_list (map jk_ErrorCount tasks), fl_Warnings = sum_list (map jk_WarningCount tasks)\<rparr>)"

definition logJobFinished :: "Job \<Rightarrow> int \<Rightarrow> unit hub" where
  "logJobFinished job finishedAt =
     dcase (Find hk_tasks (\<lambda>t. jk_JobID t = jb_ID job)) (\<lambda>r.
     let tasks = (case r of Inl _ \<Rightarrow> [] | Inr ts \<Rightarrow> order_by (\<lambda>a b. jk_ID a < jk_ID b) ts)
     in memory (\<lambda>h. (Inr (), h\<lparr>hl_finished := hl_finished h @ [finishLine job finishedAt tasks]\<rparr>)))"

definition unfinished :: "JobTask \<Rightarrow> bool" where
  "unfinished t \<longleftrightarrow> jk_FinishedAt t = None"

text \<open>The parent of a task that was just finished is finished with its last task.\<close>

definition finishParent :: "int \<Rightarrow> nat \<Rightarrow> unit hub" where
  "finishParent now jobID =
     dbind (First jb_ID hj_jobs (\<lambda>j. jb_ID j = jobID)) (\<lambda>job.
     dbind (Count hk_tasks (\<lambda>t. jk_JobID t = jobID)) (\<lambda>total.
     dbind (Count hk_tasks (\<lambda>t. jk_JobID t = jobID \<and> unfinished t)) (\<lambda>remaining.
     if remaining = 0 \<and> jb_ExpectedTasks job \<le> total then
       dbind (updateJobs (\<lambda>j. jb_ID j = jobID \<and> jb_FinishedAt j = None) (\<lambda>j. j\<lparr>jb_FinishedAt := Some now\<rparr>)) (\<lambda>n.
       if n = 1 then logJobFinished job now else dret ())
     else dret ())))"

definition resolveTask :: "int \<Rightarrow> string \<Rightarrow> int \<Rightarrow> string \<Rightarrow> unit hub" where
  "resolveTask now taskID exitCode errMsg = dropErr (
     dbind (First jk_ID hk_tasks (\<lambda>t. jk_TaskID t = taskID)) (\<lambda>task.
     dbind (updateTasks (\<lambda>t. jk_ID t = jk_ID task) (\<lambda>t. t\<lparr>jk_FinishedAt := Some now, jk_ExitCode := exitCode, jk_Err := errMsg\<rparr>)) (\<lambda>_.
     finishParent now (jk_JobID task))))"

definition finishJobTask :: "int \<Rightarrow> LogMsg \<Rightarrow> unit hub" where
  "finishJobTask now msg = dbind (resolveTask now (lm_ID msg) (lm_ExitCode msg) (lm_Err msg)) (\<lambda>_. clearRunning (lm_Command msg) (lm_ID msg))"

definition failRunningOnNode :: "int \<Rightarrow> string \<Rightarrow> unit hub" where
  "failRunningOnNode now node =
     dbind (memory (\<lambda>h. (Inr (map snd (filter (\<lambda>r. rj_Node (snd r) = node) (hm_running h))),
       h\<lparr>hm_running := filter (\<lambda>r. rj_Node (snd r) \<noteq> node) (hm_running h)\<rparr>))) (\<lambda>stale.
     dbind (dfor stale (\<lambda>job. resolveTask now (rj_TaskID job) (-1) ''worker node disconnected before the sync finished'')) (\<lambda>_. dret ()))"

subsection \<open>Starting jobs\<close>

fun pickConn :: "string \<Rightarrow> (string \<times> string list) list \<Rightarrow> (string \<times> string \<times> string list) option" where
  "pickConn jobTarget [] = None"
| "pickConn jobTarget ((name, roles) # conns) =
     (case commandForJobTarget jobTarget roles of Some (cmd, extra) \<Rightarrow> Some (name, cmd, extra) | None \<Rightarrow> pickConn jobTarget conns)"

definition dispatchSingle :: "hub_env \<Rightarrow> string \<Rightarrow> string \<Rightarrow> (string \<times> nat) hub" where
  "dispatchSingle env i jobTarget = memory (\<lambda>h. case pickConn jobTarget (hm_conns h) of
       None \<Rightarrow> (Inr ([], 0), h)
     | Some (name, command, args) \<Rightarrow>
         let msg = \<lparr>cm_ID = i, cm_Command = command, cm_Args = args, cm_Report = (if command \<noteq> jobTarget then jobTarget else [])\<rparr>
         in if trySend env name msg then (Inr (name, 1), h\<lparr>hm_open := hm_open h @ [(name, msg)]\<rparr>) else (Inr ([], 0), h))"

definition insertTask :: "int \<Rightarrow> nat \<Rightarrow> string \<Rightarrow> string \<Rightarrow> JobTask hub" where
  "insertTask now jobPK taskID target = stmt (\<lambda>h.
     let task = \<lparr>jk_ID = hq_tasks h, jk_JobID = jobPK, jk_TaskID = taskID, jk_Target = target, jk_StartedAt = now, jk_FinishedAt = None,
           jk_ExitCode = 0, jk_Err = [], jk_ErrorCount = 0, jk_WarningCount = 0\<rparr>;
         h = h\<lparr>hq_tasks := Suc (hq_tasks h)\<rparr>
     in if list_ex (\<lambda>t. jk_TaskID t = taskID) (hk_tasks h) then (Inl uniqueViolation, h) else (Inr task, h\<lparr>hk_tasks := hk_tasks h @ [task]\<rparr>))"

definition insertJob :: "int \<Rightarrow> string \<Rightarrow> string \<Rightarrow> nat \<Rightarrow> Job hub" where
  "insertJob now jobType triggeredBy expected = stmt (\<lambda>h.
     let job = \<lparr>jb_ID = hq_jobs h, jb_Type = jobType, jb_TriggeredBy = triggeredBy, jb_StartedAt = now, jb_FinishedAt = None, jb_ExpectedTasks = expected\<rparr>
     in (Inr job, h\<lparr>hj_jobs := hj_jobs h @ [job], hq_jobs := Suc (hq_jobs h)\<rparr>))"

definition createAndDispatchTask :: "hub_env \<Rightarrow> int \<Rightarrow> nat \<Rightarrow> string \<Rightarrow> string \<Rightarrow> nat hub" where
  "createAndDispatchTask env now jobPK taskID target =
     dcase (insertTask now jobPK taskID target) (\<lambda>c. case c of
       Inl e \<Rightarrow> dbind (clearRunning target taskID) (\<lambda>_. dfail e)
     | Inr task \<Rightarrow>
         dbind (noteRunning target taskID (\<lambda>cur. cur\<lparr>rj_JobTaskPK := jk_ID task\<rparr>)) (\<lambda>_.
         if target = HousekeepingTarget then
           memory (\<lambda>h. (Inr 1, h\<lparr>hm_house := hm_house h @ [(taskID, jk_ID task)]\<rparr>))
         else dbind (dispatchSingle env taskID target) (\<lambda>(node, matched).
           if matched = 0 then
             dbind (finishJobTask now \<lparr>lm_ID = taskID, lm_Command = target, lm_Stream = [], lm_ExitCode = -1,
               lm_Err = ''no connected worker node handles this target''\<rparr>) (\<lambda>_. dret 0)
           else dbind (noteRunning target taskID (\<lambda>cur. cur\<lparr>rj_Node := node\<rparr>)) (\<lambda>_. dret matched))))"

definition conflictTask :: "hub_env \<Rightarrow> int \<Rightarrow> nat \<Rightarrow> string \<Rightarrow> go_error \<Rightarrow> (string \<times> nat \<times> go_error option) hub" where
  "conflictTask env now jobPK target reserveErr =
     dcase (dbind (nextID env) (\<lambda>i. dbind (insertTask now jobPK i target) (\<lambda>_. dret i))) (\<lambda>r. case r of
       Inl e \<Rightarrow> dret ([], 0, Some e)
     | Inr i \<Rightarrow> dbind (resolveTask now i (-1) (errText reserveErr)) (\<lambda>_. dret (i, 0, Some reserveErr)))"

definition startOneTask :: "hub_env \<Rightarrow> int \<Rightarrow> nat \<Rightarrow> string \<Rightarrow> (string \<times> nat \<times> go_error option) hub" where
  "startOneTask env now jobPK target =
     dcase (reserveTarget env target) (\<lambda>r. case r of
       Inl reserveErr \<Rightarrow> conflictTask env now jobPK target reserveErr
     | Inr taskID \<Rightarrow> dcase (createAndDispatchTask env now jobPK taskID target) (\<lambda>m. case m of
         Inl e \<Rightarrow> dret (taskID, 0, Some e)
       | Inr matched \<Rightarrow> dret (taskID, matched, None)))"

definition setBatch :: "nat \<Rightarrow> string \<Rightarrow> string list \<Rightarrow> unit hub" where
  "setBatch jobID taskID rest = memory (\<lambda>h. (Inr (), h\<lparr>hm_batches := AList.update jobID (taskID, rest) (hm_batches h)\<rparr>))"

definition startSingle :: "hub_env \<Rightarrow> int \<Rightarrow> string \<Rightarrow> string \<Rightarrow> string \<Rightarrow> (Job \<times> TaskResult list) hub" where
  "startSingle env now jobType triggeredBy target =
     dbind (reserveTarget env target) (\<lambda>taskID.
     dcase (insertJob now jobType triggeredBy 1) (\<lambda>c. case c of
       Inl e \<Rightarrow> dbind (clearRunning target taskID) (\<lambda>_. dfail e)
     | Inr job \<Rightarrow> dbind (createAndDispatchTask env now (jb_ID job) taskID target) (\<lambda>matched.
         dret (job, [\<lparr>tr_Target = target, tr_TaskID = taskID, tr_Matched = matched, tr_Err = None\<rparr>]))))"

definition StartJob :: "hub_env \<Rightarrow> int \<Rightarrow> string \<Rightarrow> string \<Rightarrow> string list \<Rightarrow> (Job \<times> TaskResult list) hub" where
  "StartJob env now jobType triggeredBy targets =
     (if length targets = 1 then startSingle env now jobType triggeredBy (hd targets)
      else dbind (insertJob now jobType triggeredBy (length targets)) (\<lambda>job.
        case targets of
          [] \<Rightarrow> dbind (dropErr (updateJobs (\<lambda>j. jb_ID j = jb_ID job) (\<lambda>j. j\<lparr>jb_FinishedAt := Some now\<rparr>))) (\<lambda>_.
                 dbind (logJobFinished job now) (\<lambda>_. dret (job, [])))
        | target # rest \<Rightarrow> dbind (startOneTask env now (jb_ID job) target) (\<lambda>(taskID, matched, taskErr).
            dbind (if rest \<noteq> [] then setBatch (jb_ID job) taskID rest else dret ()) (\<lambda>_.
            dret (job, [\<lparr>tr_Target = target, tr_TaskID = taskID, tr_Matched = matched, tr_Err = taskErr\<rparr>])))))"

text \<open>One poll: whether the wait is over. Then the goroutine goes on to the next target, or ends.\<close>

definition waitForTaskFinished :: "string \<Rightarrow> bool hub" where
  "waitForTaskFinished taskID =
     (if taskID = [] then dret True
      else dcase (First jk_ID hk_tasks (\<lambda>t. jk_TaskID t = taskID)) (\<lambda>r. case r of
        Inl _ \<Rightarrow> dret True
      | Inr task \<Rightarrow> dret (\<not> unfinished task)))"

definition dispatchRemainingSequentially :: "hub_env \<Rightarrow> int \<Rightarrow> nat \<Rightarrow> unit hub" where
  "dispatchRemainingSequentially env now jobID =
     dbind (memory (\<lambda>h. (Inr (map_of (hm_batches h) jobID), h))) (\<lambda>b. case b of
       None \<Rightarrow> dret ()
     | Some (taskID, targets) \<Rightarrow> dbind (waitForTaskFinished taskID) (\<lambda>fin.
         if \<not> fin then dret ()
         else case targets of
           [] \<Rightarrow> memory (\<lambda>h. (Inr (), h\<lparr>hm_batches := AList.delete jobID (hm_batches h)\<rparr>))
         | target # rest \<Rightarrow> dbind (setBatch jobID taskID rest) (\<lambda>_.
             dbind (startOneTask env now jobID target) (\<lambda>(taskID', _). setBatch jobID taskID' rest))))"

subsection \<open>Events and housekeeping\<close>

definition insertEvent :: "JobTaskEvent \<Rightarrow> unit hub" where
  "insertEvent e = stmt (\<lambda>h. (Inr (), h\<lparr>he_events := he_events h @ [e\<lparr>je_ID := hq_events h\<rparr>], hq_events := Suc (hq_events h)\<rparr>))"

definition countEvent :: "nat \<Rightarrow> string \<Rightarrow> unit hub" where
  "countEvent pk level =
     (if level = ''error'' then dropErr (updateTasks (\<lambda>t. jk_ID t = pk) (\<lambda>t. t\<lparr>jk_ErrorCount := jk_ErrorCount t + 1\<rparr>))
      else if level = ''warning'' then dropErr (updateTasks (\<lambda>t. jk_ID t = pk) (\<lambda>t. t\<lparr>jk_WarningCount := jk_WarningCount t + 1\<rparr>))
      else dret ())"

definition eventTaskPK :: "EventMsg \<Rightarrow> job_hub \<Rightarrow> nat option" where
  "eventTaskPK msg h =
     (case map_of (hm_running h) (em_Target msg) of
        Some running \<Rightarrow> if rj_TaskID running = em_ID msg \<and> rj_JobTaskPK running \<noteq> 0 then Some (rj_JobTaskPK running) else None
      | None \<Rightarrow> None)"

definition receiveEvent :: "int \<Rightarrow> EventMsg \<Rightarrow> unit hub" where
  "receiveEvent now msg =
     dbind (memory (\<lambda>h. (Inr (eventTaskPK msg h), h))) (\<lambda>jobTaskID.
     dbind (dropErr (insertEvent \<lparr>je_ID = 0, je_JobTaskID = jobTaskID, je_TaskID = em_ID msg, je_Target = em_Target msg,
       je_Level = em_Level msg, je_Message = em_Message msg, je_At = now\<rparr>)) (\<lambda>_.
     case jobTaskID of Some pk \<Rightarrow> countEvent pk (em_Level msg) | None \<Rightarrow> dret ()))"

definition recordLocalJobEvent :: "int \<Rightarrow> nat \<Rightarrow> string \<Rightarrow> string \<Rightarrow> string \<Rightarrow> string \<Rightarrow> unit hub" where
  "recordLocalJobEvent now pk taskID target level message =
     dropErr (dbind (insertEvent \<lparr>je_ID = 0, je_JobTaskID = Some pk, je_TaskID = taskID, je_Target = target,
       je_Level = level, je_Message = message, je_At = now\<rparr>) (\<lambda>_. countEvent pk level))"

definition DefaultKeep :: int where "DefaultKeep = 50"

definition EffectiveKeep :: "int \<Rightarrow> int" where
  "EffectiveKeep n = (if n < 1 then DefaultKeep else n)"

record TrimResult =
  tm_JobsDeleted :: nat
  tm_TasksDeleted :: nat
  tm_EventsDeleted :: nat

fun trimIDs :: "int \<Rightarrow> nat list \<Rightarrow> int \<Rightarrow> Job list \<Rightarrow> nat list" where
  "trimIDs keep protect kept [] = []"
| "trimIDs keep protect kept (j # js) =
     (if jb_ID j \<in> set protect then trimIDs keep protect kept js
      else if kept < keep then trimIDs keep protect (kept + 1) js
      else jb_ID j # trimIDs keep protect kept js)"

definition deleteEvents :: "(JobTaskEvent \<Rightarrow> bool) \<Rightarrow> nat hub" where
  "deleteEvents P = stmt (\<lambda>h. (Inr (length (filter P (he_events h))), h\<lparr>he_events := filter (\<lambda>e. \<not> P e) (he_events h)\<rparr>))"

definition deleteTasks :: "(JobTask \<Rightarrow> bool) \<Rightarrow> nat hub" where
  "deleteTasks P = stmt (\<lambda>h. (Inr (length (filter P (hk_tasks h))), h\<lparr>hk_tasks := filter (\<lambda>t. \<not> P t) (hk_tasks h)\<rparr>))"

definition deleteJobs :: "(Job \<Rightarrow> bool) \<Rightarrow> nat hub" where
  "deleteJobs P = stmt (\<lambda>h. (Inr (length (filter P (hj_jobs h))), h\<lparr>hj_jobs := filter (\<lambda>j. \<not> P j) (hj_jobs h)\<rparr>))"

definition trimRows :: "nat list \<Rightarrow> nat \<Rightarrow> TrimResult hub" where
  "trimRows deleteIDs orphans =
     dbind (query (\<lambda>h. map jk_ID (filter (\<lambda>t. jk_JobID t \<in> set deleteIDs) (hk_tasks h)))) (\<lambda>taskIDs.
     dbind (if taskIDs \<noteq> [] then deleteEvents (\<lambda>e. \<exists>i \<in> set taskIDs. je_JobTaskID e = Some i) else dret 0) (\<lambda>ne.
     dbind (deleteTasks (\<lambda>t. jk_JobID t \<in> set deleteIDs)) (\<lambda>nt.
     dbind (deleteJobs (\<lambda>j. jb_ID j \<in> set deleteIDs)) (\<lambda>nj.
     dret \<lparr>tm_JobsDeleted = nj, tm_TasksDeleted = nt, tm_EventsDeleted = orphans + ne\<rparr>))))"

definition trimTx :: "int \<Rightarrow> nat list \<Rightarrow> TrimResult hub" where
  "trimTx keep protect =
     dbind (Find hj_jobs (\<lambda>j. jb_FinishedAt j \<noteq> None)) (\<lambda>finished.
     let deleteIDs = trimIDs keep protect 0 (order_by (\<lambda>a b. jb_ID b < jb_ID a) finished)
     in dbind (deleteEvents (\<lambda>e. je_JobTaskID e = None)) (\<lambda>orphans.
        if deleteIDs = [] then dret \<lparr>tm_JobsDeleted = 0, tm_TasksDeleted = 0, tm_EventsDeleted = orphans\<rparr>
        else trimRows deleteIDs orphans))"

definition Trim :: "int \<Rightarrow> nat list \<Rightarrow> TrimResult hub" where
  "Trim keep protect = transaction (\<lambda>h _. h) (trimTx (EffectiveKeep keep) (filter (\<lambda>i. i \<noteq> 0) protect))"

definition trimMessage :: "TrimResult \<Rightarrow> int \<Rightarrow> string" where
  "trimMessage r keep = ''deleted '' @ Itoa (tm_JobsDeleted r) @ '' jobs, '' @ Itoa (tm_TasksDeleted r) @ '' tasks, '' @
     Itoa (tm_EventsDeleted r) @ '' events (keeping last '' @ Itoa (nat keep) @ '' finished jobs)''"

definition housekeepingBody :: "int \<Rightarrow> string \<Rightarrow> nat \<Rightarrow> (int \<times> string) hub" where
  "housekeepingBody now taskID pk =
     dcase (First jk_ID hk_tasks (\<lambda>t. jk_ID t = pk)) (\<lambda>r. case r of
       Inl e \<Rightarrow> dret (-1, errText e)
     | Inr task \<Rightarrow> dcase (GetOrCreateSettings hs_settings hs_settings_update) (\<lambda>s.
         let keep = (case s of Inl _ \<Rightarrow> DefaultKeep | Inr st \<Rightarrow> if st_JobHistoryKeep st > 0 then st_JobHistoryKeep st else DefaultKeep)
         in dcase (Trim keep [jk_JobID task]) (\<lambda>t. case t of
              Inl e \<Rightarrow> dbind (recordLocalJobEvent now pk taskID HousekeepingTarget ''error'' (errText e)) (\<lambda>_. dret (1, errText e))
            | Inr res \<Rightarrow> dbind (recordLocalJobEvent now pk taskID HousekeepingTarget ''info'' (trimMessage res keep)) (\<lambda>_. dret (0, [])))))"

definition runHousekeeping :: "int \<Rightarrow> string \<Rightarrow> nat \<Rightarrow> unit hub" where
  "runHousekeeping now taskID pk =
     dbind (housekeepingBody now taskID pk) (\<lambda>(exitCode, errMsg).
     finishJobTask now \<lparr>lm_ID = taskID, lm_Command = HousekeepingTarget, lm_Stream = StreamExit, lm_ExitCode = exitCode, lm_Err = errMsg\<rparr>)"

subsection \<open>What reaches the hub\<close>

text \<open>An exit line ends the command it names; a lost connection ends those of its node.\<close>

definition registerConn :: "string \<Rightarrow> string list \<Rightarrow> unit hub" where
  "registerConn node roles = memory (\<lambda>h. (Inr (), h\<lparr>hm_conns := AList.update node roles (hm_conns h)\<rparr>))"

definition receiveLog :: "int \<Rightarrow> LogMsg \<Rightarrow> unit hub" where
  "receiveLog now msg =
     (if lm_Stream msg = StreamExit then
        dbind (memory (\<lambda>h. (Inr (), h\<lparr>hm_open := filter (\<lambda>c. cm_ID (snd c) \<noteq> lm_ID msg) (hm_open h)\<rparr>))) (\<lambda>_. finishJobTask now msg)
      else dret ())"

definition dropConn :: "int \<Rightarrow> string \<Rightarrow> unit hub" where
  "dropConn now node =
     dbind (memory (\<lambda>h. (Inr (), h\<lparr>hm_conns := AList.delete node (hm_conns h), hm_open := filter (\<lambda>c. fst c \<noteq> node) (hm_open h)\<rparr>))) (\<lambda>_.
     failRunningOnNode now node)"

definition houseNext :: "int \<Rightarrow> unit hub" where
  "houseNext now =
     dbind (memory (\<lambda>h. (Inr (hm_house h), h\<lparr>hm_house := tl (hm_house h)\<rparr>))) (\<lambda>ps.
     case ps of [] \<Rightarrow> dret () | (taskID, pk) # _ \<Rightarrow> runHousekeeping now taskID pk)"

datatype hub_request =
    HubStart string string "string list"
  | HubBatch nat
  | HubHello string "string list"
  | HubLog LogMsg
  | HubEvent EventMsg
  | HubDrop string
  | HubHouse

fun serveHub :: "hub_env \<Rightarrow> int \<times> hub_request \<Rightarrow> unit hub" where
  "serveHub env (now, HubStart jobType triggeredBy targets) = dropErr (StartJob env now jobType triggeredBy targets)"
| "serveHub env (now, HubBatch jobID) = dispatchRemainingSequentially env now jobID"
| "serveHub env (now, HubHello node roles) = registerConn node roles"
| "serveHub env (now, HubLog msg) = receiveLog now msg"
| "serveHub env (now, HubEvent msg) = receiveEvent now msg"
| "serveHub env (now, HubDrop node) = dropConn now node"
| "serveHub env (now, HubHouse) = houseNext now"

subsection \<open>One command per target in flight\<close>

text \<open>Every command in flight holds the reservation of its target, on the node it was sent to.\<close>

definition openTarget :: "string \<times> CommandMsg \<Rightarrow> string" where
  "openTarget c = reportedCommand (snd c)"

definition holds :: "(string \<times> runningJob) list \<Rightarrow> string \<times> CommandMsg \<Rightarrow> bool" where
  "holds running c \<longleftrightarrow> (\<exists>rj. map_of running (openTarget c) = Some rj \<and> rj_TaskID rj = cm_ID (snd c) \<and> rj_Node rj = fst c)"

definition open_ok :: "(string \<times> runningJob) list \<Rightarrow> (string \<times> CommandMsg) list \<Rightarrow> bool" where
  "open_ok running cmds \<longleftrightarrow> distinct (map fst running) \<and> distinct (map openTarget cmds) \<and> HousekeepingTarget \<notin> openTarget ` set cmds \<and>
     (\<forall>c \<in> set cmds. holds running c)"

definition inFlight_ok :: "job_hub \<Rightarrow> bool" where
  "inFlight_ok h \<longleftrightarrow> open_ok (hm_running h) (hm_open h)"

interpretation flt: db_invariant inFlight_ok "\<lambda>h _. h"
  by unfold_locales

definition core :: "job_hub \<Rightarrow> (string \<times> runningJob) list \<times> (string \<times> CommandMsg) list" where
  "core h = (hm_running h, hm_open h)"

interpretation cv: db_view core "\<lambda>h _. h"
  by unfold_locales simp

lemma untouched_memory: "(\<And>h. core (snd (f h)) = core h) \<Longrightarrow> cv.same (memory f)"
  by (auto simp: cv.same_def memory_def)

lemma untouched_drop: "cv.same m \<Longrightarrow> cv.same (dropErr m)"
  unfolding dropErr_def by (intro cv.same_case cv.same_basic)

lemma untouched_flt: "cv.same m \<Longrightarrow> flt.keeps m"
  unfolding flt.keeps_def inFlight_ok_def using cv.same_triple[where P = "\<lambda>c. open_ok (fst c) (snd c)"] by (simp add: core_def)

lemma untouched_tables:
  "cv.same (updateTasks P f)" "cv.same (updateJobs Q g)" "cv.same (insertTask now i t x)" "cv.same (insertJob now a b n)"
  "cv.same (insertEvent e)" "cv.same (deleteEvents R)" "cv.same (deleteTasks P)" "cv.same (deleteJobs Q)"
  unfolding updateTasks_def updateJobs_def insertTask_def insertJob_def insertEvent_def deleteEvents_def deleteTasks_def deleteJobs_def
  by (rule cv.same_stmt; simp add: core_def Let_def)+

lemma untouched_log: "cv.same (logJobFinished job now)"
  unfolding logJobFinished_def Let_def by (intro cv.same_case cv.same_basic untouched_memory) (simp add: core_def)

lemma untouched_resolve: "cv.same (resolveTask now i x e)"
  unfolding resolveTask_def finishParent_def
  by (intro untouched_drop cv.same_bind cv.same_basic untouched_tables) (auto intro!: cv.same_bind cv.same_basic untouched_tables untouched_log)

lemma untouched_count: "cv.same (countEvent pk l)"
  unfolding countEvent_def by (auto intro!: untouched_drop untouched_tables cv.same_basic)

lemma untouched_settings: "cv.same (GetOrCreateSettings hs_settings hs_settings_update)"
  unfolding GetOrCreateSettings_def
  by (rule cv.same_case[OF cv.same_basic(6)]) (auto intro!: cv.same_basic cv.same_stmt simp: core_def split: sum.splits)

lemma untouched_trim: "cv.same (Trim keep protect)"
  unfolding Trim_def trimTx_def trimRows_def Let_def
  by (rule cv.same_transaction) (auto intro!: cv.same_bind cv.same_basic untouched_tables)

lemma untouched_local: "cv.same (recordLocalJobEvent now pk i t l m)"
  unfolding recordLocalJobEvent_def by (intro untouched_drop cv.same_bind untouched_tables untouched_count)

lemma untouched_house: "cv.same (housekeepingBody now i pk)"
proof -
  have log: "cv.same (case t of Inl e \<Rightarrow> dbind (recordLocalJobEvent now pk i HousekeepingTarget ''error'' (errText e)) (\<lambda>_. dret (1, errText e))
      | Inr res \<Rightarrow> dbind (recordLocalJobEvent now pk i HousekeepingTarget ''info'' (f res)) (\<lambda>_. dret (0, [])))" for t :: "go_error + TrimResult" and f
    by (auto intro!: cv.same_bind untouched_local cv.same_basic split: sum.splits)
  show ?thesis unfolding housekeepingBody_def Let_def
    by (rule cv.same_case[OF cv.same_basic(6)])
      (auto intro!: cv.same_basic cv.same_case[OF untouched_settings] cv.same_case[OF untouched_trim] log split: sum.splits)
qed


lemma triple_memory:
  assumes "\<And>h. P h \<Longrightarrow> case fst (f h) of Inr a \<Rightarrow> Q a (snd (f h)) | Inl _ \<Rightarrow> E (snd (f h))"
  shows "triple P (memory f) Q E"
  unfolding triple_def
proof (intro allI impI)
  fix s :: "job_hub dbst"
  assume "P (fst s)"
  then show "outcome Q E (memory f s)" using assms[of "fst s"] by (cases s) (auto simp: outcome_def memory_def split: sum.splits)
qed

lemma open_ok_cong:
  assumes "open_ok r cs" "distinct (map fst r')" "\<And>c. c \<in> set cs \<Longrightarrow> map_of r' (openTarget c) = map_of r (openTarget c)"
  shows "open_ok r' cs"
  using assms by (simp add: open_ok_def holds_def del: map_of_eq_Some_iff)

lemma open_ok_idle: "open_ok r cs \<Longrightarrow> map_of r target = None \<Longrightarrow> target \<notin> openTarget ` set cs"
  by (auto simp: open_ok_def holds_def)

lemma open_ok_update: "open_ok r cs \<Longrightarrow> target \<notin> openTarget ` set cs \<Longrightarrow> open_ok (AList.update target v r) cs"
  by (rule open_ok_cong, assumption) (auto simp: update_conv' distinct_update open_ok_def)

lemma open_ok_delete: "open_ok r cs \<Longrightarrow> target \<notin> openTarget ` set cs \<Longrightarrow> open_ok (AList.delete target r) cs"
  by (rule open_ok_cong, assumption) (auto simp: delete_conv' distinct_delete open_ok_def)

lemma open_ok_send:
  assumes "open_ok r cs" "target \<notin> openTarget ` set cs" "target \<noteq> HousekeepingTarget" "openTarget c = target" "rj_TaskID v = cm_ID (snd c)" "rj_Node v = fst c"
  shows "open_ok (AList.update target v r) (cs @ [c])"
proof -
  have "open_ok (AList.update target v r) cs" by (rule open_ok_update[OF assms(1,2)])
  moreover have "holds (AList.update target v r) c" using assms(4-6) by (simp add: holds_def update_conv')
  ultimately show ?thesis using assms(2,3,4) by (auto simp: open_ok_def)
qed

lemma open_ok_filter: "open_ok r cs \<Longrightarrow> open_ok r (filter P cs)"
  by (auto simp: open_ok_def distinct_map_filter)

text \<open>A target is reserved for a task that has not been sent yet.\<close>

definition reservedIn :: "string \<Rightarrow> string \<Rightarrow> (string \<times> runningJob) list \<times> (string \<times> CommandMsg) list \<Rightarrow> bool" where
  "reservedIn target i c \<longleftrightarrow> open_ok (fst c) (snd c) \<and> (\<exists>rj. map_of (fst c) target = Some rj \<and> rj_TaskID rj = i) \<and> target \<notin> openTarget ` set (snd c)"

definition reserved :: "string \<Rightarrow> string \<Rightarrow> job_hub \<Rightarrow> bool" where
  "reserved target i h \<longleftrightarrow> reservedIn target i (core h)"

lemma reserved_triple: "cv.same m \<Longrightarrow> triple (reserved target i) m (\<lambda>_. reserved target i) (reserved target i)"
  using cv.same_triple[of m "reservedIn target i"] unfolding reserved_def by simp

lemma reserveTarget_triple: "triple inFlight_ok (reserveTarget env target) (\<lambda>i. reserved target i) inFlight_ok"
  unfolding reserveTarget_def
proof (rule triple_bind)
  show "triple inFlight_ok (nextID env) (\<lambda>_. inFlight_ok) inFlight_ok"
    unfolding nextID_def by (rule triple_memory) (simp add: inFlight_ok_def split: sum.splits)
  fix i
  show "triple inFlight_ok (memory (\<lambda>h. case map_of (hm_running h) target of
         Some existing \<Rightarrow> (Inl (PlainErr (ErrSyncAlreadyRunning @ '' (task '' @ rj_TaskID existing @ '')'')), h)
       | None \<Rightarrow> (Inr i, h\<lparr>hm_running := AList.update target \<lparr>rj_TaskID = i, rj_JobTaskPK = 0, rj_Node = []\<rparr> (hm_running h)\<rparr>)))
      (\<lambda>i. reserved target i) inFlight_ok"
    by (rule triple_memory)
      (simp add: inFlight_ok_def reserved_def reservedIn_def core_def open_ok_update open_ok_idle update_conv' split: option.splits)
qed

lemma noted_reserved:
  assumes "\<And>cur. rj_TaskID (f cur) = rj_TaskID cur"
  shows "triple (reserved target i) (noteRunning target i f) (\<lambda>_. reserved target i) E"
  unfolding noteRunning_def
  by (rule triple_memory) (auto simp: reserved_def reservedIn_def core_def noted_def open_ok_update update_conv' assms split: option.splits)

lemma clear_ok:
  assumes "\<And>h c. P h \<Longrightarrow> c \<in> set (hm_open h) \<Longrightarrow> openTarget c = target \<Longrightarrow> cm_ID (snd c) \<noteq> i" and ok: "\<And>h. P h \<Longrightarrow> inFlight_ok h"
  shows "triple P (clearRunning target i) (\<lambda>_. inFlight_ok) E"
  unfolding clearRunning_def
proof (rule triple_memory)
  fix h
  assume P: "P h"
  have "open_ok (AList.delete target (hm_running h)) (hm_open h)" if "map_of (hm_running h) target = Some cur" "rj_TaskID cur = i" for cur
  proof (rule open_ok_delete)
    show "open_ok (hm_running h) (hm_open h)" using ok[OF P] by (simp add: inFlight_ok_def)
    then show "target \<notin> openTarget ` set (hm_open h)" using assms(1)[OF P] that by (fastforce simp: open_ok_def holds_def)
  qed
  then show "case fst (Inr (), case map_of (hm_running h) target of
       Some cur \<Rightarrow> if rj_TaskID cur = i then h\<lparr>hm_running := AList.delete target (hm_running h)\<rparr> else h | None \<Rightarrow> h) of
     Inr a \<Rightarrow> inFlight_ok (snd (Inr (), case map_of (hm_running h) target of
       Some cur \<Rightarrow> if rj_TaskID cur = i then h\<lparr>hm_running := AList.delete target (hm_running h)\<rparr> else h | None \<Rightarrow> h))
   | Inl x \<Rightarrow> E (snd (Inr (), case map_of (hm_running h) target of
       Some cur \<Rightarrow> if rj_TaskID cur = i then h\<lparr>hm_running := AList.delete target (hm_running h)\<rparr> else h | None \<Rightarrow> h))"
    using ok[OF P] by (simp add: inFlight_ok_def split: option.splits)
qed

lemma reserved_ok: "reserved target i h \<Longrightarrow> inFlight_ok h"
  by (simp add: reserved_def reservedIn_def core_def inFlight_ok_def)

lemma reserved_clear: "triple (reserved target i) (clearRunning target i) (\<lambda>_. inFlight_ok) E"
  by (rule clear_ok) (auto simp: reserved_ok, auto simp: reserved_def reservedIn_def core_def)

lemma pick_reported:
  "pickConn target conns = Some (name, command, args) \<Longrightarrow>
   openTarget (n, \<lparr>cm_ID = i, cm_Command = command, cm_Args = args, cm_Report = (if command \<noteq> target then target else [])\<rparr>) = target"
  by (induction target conns rule: pickConn.induct)
    (auto simp: commandForJobTarget_def NetboxDeltaTarget_def reportedCommand_def openTarget_def split: option.splits if_splits)

lemma dispatch_triple:
  assumes "target \<noteq> HousekeepingTarget"
  shows "triple (reserved target i) (dispatchSingle env i target)
     (\<lambda>r h. if snd r = 0 then reserved target i h else inFlight_ok (noted target i (\<lambda>cur. cur\<lparr>rj_Node := fst r\<rparr>) h)) E"
  unfolding dispatchSingle_def
proof (rule triple_memory, goal_cases)
  case (1 h)
  obtain rj where rj: "map_of (hm_running h) target = Some rj" "rj_TaskID rj = i"
    and ok: "open_ok (hm_running h) (hm_open h)" "target \<notin> openTarget ` set (hm_open h)"
    using 1 by (auto simp: reserved_def reservedIn_def core_def)
  show ?case
  proof (cases "pickConn target (hm_conns h)")
    case None
    then show ?thesis using 1 by simp
  next
    case (Some p)
    obtain name command args where p: "p = (name, command, args)" by (cases p)
    let ?msg = "\<lparr>cm_ID = i, cm_Command = command, cm_Args = args, cm_Report = (if command \<noteq> target then target else [])\<rparr>"
    have t: "openTarget (name, ?msg) = target" using pick_reported Some p by blast
    have "open_ok (AList.update target (rj\<lparr>rj_Node := name\<rparr>) (hm_running h)) (hm_open h @ [(name, ?msg)])"
      by (rule open_ok_send[OF ok assms t]) (simp_all add: rj)
    then show ?thesis using 1 rj by (simp add: Some p Let_def noted_def inFlight_ok_def)
  qed
qed

lemma finish_reserved: "triple (reserved (lm_Command msg) (lm_ID msg)) (finishJobTask now msg) (\<lambda>_. inFlight_ok) inFlight_ok"
  unfolding finishJobTask_def
  by (rule triple_bind[OF triple_weaken[OF reserved_triple[OF untouched_resolve], where Q' = "\<lambda>_. reserved (lm_Command msg) (lm_ID msg)"]])
    (auto simp: reserved_ok intro: reserved_clear)

lemma create_triple: "triple (reserved target i) (createAndDispatchTask env now pk i target) (\<lambda>_. inFlight_ok) inFlight_ok"
  unfolding createAndDispatchTask_def
proof (rule triple_case[OF reserved_triple[OF untouched_tables(3)]])
  fix task
  have send: "triple (reserved target i) (dbind (dispatchSingle env i target) (\<lambda>(node, matched).
      if matched = 0 then dbind (finishJobTask now \<lparr>lm_ID = i, lm_Command = target, lm_Stream = [], lm_ExitCode = -1,
               lm_Err = ''no connected worker node handles this target''\<rparr>) (\<lambda>_. dret 0)
      else dbind (noteRunning target i (\<lambda>cur. cur\<lparr>rj_Node := node\<rparr>)) (\<lambda>_. dret matched))) (\<lambda>_. inFlight_ok) inFlight_ok"
    if "target \<noteq> HousekeepingTarget"
  proof (rule triple_bind[OF dispatch_triple[OF that]], clarsimp, intro conjI impI)
    show "triple (reserved target i) (dbind (finishJobTask now \<lparr>lm_ID = i, lm_Command = target, lm_Stream = [], lm_ExitCode = -1,
               lm_Err = ''no connected worker node handles this target''\<rparr>) (\<lambda>_. dret 0)) (\<lambda>_. inFlight_ok) inFlight_ok"
      by (rule triple_bind[OF finish_reserved[of "\<lparr>lm_ID = i, lm_Command = target, lm_Stream = [], lm_ExitCode = -1,
               lm_Err = ''no connected worker node handles this target''\<rparr>", simplified]]) (rule triple_ret)
    fix node :: string and matched :: nat
    show "triple (\<lambda>h. inFlight_ok (noted target i (\<lambda>cur. cur\<lparr>rj_Node := node\<rparr>) h))
        (dbind (noteRunning target i (\<lambda>cur. cur\<lparr>rj_Node := node\<rparr>)) (\<lambda>_. dret matched)) (\<lambda>_. inFlight_ok) inFlight_ok"
      unfolding noteRunning_def by (rule triple_bind[OF triple_memory[where Q = "\<lambda>_. inFlight_ok"]]) (auto intro: triple_ret)
  qed
  have house: "triple (reserved target i) (memory (\<lambda>h. (Inr 1, h\<lparr>hm_house := hm_house h @ [(i, jk_ID task)]\<rparr>))) (\<lambda>_. inFlight_ok) inFlight_ok"
    by (rule triple_memory) (auto dest!: reserved_ok simp: inFlight_ok_def)
  have body: "triple (reserved target i) (if target = HousekeepingTarget then memory (\<lambda>h. (Inr 1, h\<lparr>hm_house := hm_house h @ [(i, jk_ID task)]\<rparr>))
         else dbind (dispatchSingle env i target) (\<lambda>(node, matched).
           if matched = 0 then
             dbind (finishJobTask now \<lparr>lm_ID = i, lm_Command = target, lm_Stream = [], lm_ExitCode = -1,
               lm_Err = ''no connected worker node handles this target''\<rparr>) (\<lambda>_. dret 0)
           else dbind (noteRunning target i (\<lambda>cur. cur\<lparr>rj_Node := node\<rparr>)) (\<lambda>_. dret matched))) (\<lambda>_. inFlight_ok) inFlight_ok"
  proof (cases "target = HousekeepingTarget")
    case True
    then show ?thesis using house by (simp only: if_P)
  next
    case False
    then show ?thesis using send[OF False] by (simp only: if_False)
  qed
  show "triple (reserved target i) (case Inr task of Inl e \<Rightarrow> dbind (clearRunning target i) (\<lambda>_. dfail e)
     | Inr task \<Rightarrow>
         dbind (noteRunning target i (\<lambda>cur. cur\<lparr>rj_JobTaskPK := jk_ID task\<rparr>)) (\<lambda>_.
         if target = HousekeepingTarget then memory (\<lambda>h. (Inr 1, h\<lparr>hm_house := hm_house h @ [(i, jk_ID task)]\<rparr>))
         else dbind (dispatchSingle env i target) (\<lambda>(node, matched).
           if matched = 0 then
             dbind (finishJobTask now \<lparr>lm_ID = i, lm_Command = target, lm_Stream = [], lm_ExitCode = -1,
               lm_Err = ''no connected worker node handles this target''\<rparr>) (\<lambda>_. dret 0)
           else dbind (noteRunning target i (\<lambda>cur. cur\<lparr>rj_Node := node\<rparr>)) (\<lambda>_. dret matched)))) (\<lambda>_. inFlight_ok) inFlight_ok"
    unfolding sum.case by (rule triple_bind[OF noted_reserved body]) simp
qed (auto intro!: triple_bind[OF reserved_clear] triple_fail)

lemma startOneTask_flt: "flt.keeps (startOneTask env now pk target)"
proof -
  have conflict: "flt.keeps (conflictTask env now pk target e)" for e
    unfolding conflictTask_def nextID_def
    by (rule untouched_flt, rule cv.same_case)
      (auto intro!: cv.same_bind untouched_memory untouched_tables cv.same_basic untouched_resolve simp: core_def split: sum.splits)
  show ?thesis unfolding startOneTask_def flt.keeps_def
  proof (rule triple_case[OF reserveTarget_triple])
    show "triple (reserved target i) (case Inr i of Inl reserveErr \<Rightarrow> conflictTask env now pk target reserveErr
       | Inr taskID \<Rightarrow> dcase (createAndDispatchTask env now pk taskID target) (\<lambda>m. case m of
           Inl e \<Rightarrow> dret (taskID, 0, Some e) | Inr matched \<Rightarrow> dret (taskID, matched, None))) (\<lambda>_. inFlight_ok) inFlight_ok" for i
      unfolding sum.case by (rule triple_case[OF create_triple]) (auto intro: triple_ret)
  qed (use conflict in \<open>simp add: flt.keeps_def\<close>)
qed

lemma setBatch_untouched: "cv.same (setBatch j t rest)"
  unfolding setBatch_def by (rule untouched_memory) (simp add: core_def)

lemma startSingle_flt: "flt.keeps (startSingle env now ty by target)"
  unfolding startSingle_def flt.keeps_def
proof (rule triple_bind[OF reserveTarget_triple], rule triple_case[OF reserved_triple[OF untouched_tables(4)]])
  fix i job
  show "triple (reserved target i) (case Inr job of Inl e \<Rightarrow> dbind (clearRunning target i) (\<lambda>_. dfail e)
     | Inr job \<Rightarrow> dbind (createAndDispatchTask env now (jb_ID job) i target) (\<lambda>matched.
         dret (job, [\<lparr>tr_Target = target, tr_TaskID = i, tr_Matched = matched, tr_Err = None\<rparr>]))) (\<lambda>_. inFlight_ok) inFlight_ok"
    unfolding sum.case by (rule triple_bind[OF create_triple]) (rule triple_ret)
qed (auto intro!: triple_bind[OF reserved_clear] triple_fail)

lemma StartJob_flt: "flt.keeps (StartJob env now ty by targets)"
  unfolding StartJob_def
  by (auto intro!: startSingle_flt flt.keeps_bind flt.keeps_ret startOneTask_flt untouched_flt[OF untouched_tables(4)] untouched_flt[OF setBatch_untouched]
      untouched_flt[OF untouched_log] untouched_flt[OF untouched_drop[OF untouched_tables(2)]] split: list.splits)

lemma batch_flt: "flt.keeps (dispatchRemainingSequentially env now j)"
proof -
  have look: "flt.keeps (memory (\<lambda>h. (Inr (map_of (hm_batches h) j), h)))" by (rule untouched_flt, rule untouched_memory) simp
  have stop: "flt.keeps (memory (\<lambda>h. (Inr (), h\<lparr>hm_batches := AList.delete j (hm_batches h)\<rparr>)))"
    by (rule untouched_flt, rule untouched_memory) (simp add: core_def)
  have wait: "flt.keeps (waitForTaskFinished t)" for t
    unfolding waitForTaskFinished_def
    by (rule untouched_flt) (auto intro!: cv.same_basic cv.same_case[OF cv.same_basic(6)] split: sum.splits)
  have go: "flt.keeps (dbind (setBatch j t rest) (\<lambda>_. dbind (startOneTask env now j target) (\<lambda>(t', _). setBatch j t' rest)))" for t rest target
    by (intro flt.keeps_bind untouched_flt[OF setBatch_untouched]) (auto intro!: startOneTask_flt untouched_flt[OF setBatch_untouched] split: prod.splits)
  have step: "flt.keeps (dbind (waitForTaskFinished t) (\<lambda>fin. if \<not> fin then dret () else case targets of
      [] \<Rightarrow> memory (\<lambda>h. (Inr (), h\<lparr>hm_batches := AList.delete j (hm_batches h)\<rparr>))
    | target # rest \<Rightarrow> dbind (setBatch j t rest) (\<lambda>_. dbind (startOneTask env now j target) (\<lambda>(t', _). setBatch j t' rest))))" for t targets
    by (rule flt.keeps_bind[OF wait]) (simp add: flt.keeps_ret stop go split: list.splits)
  show ?thesis unfolding dispatchRemainingSequentially_def
  proof (rule flt.keeps_bind[OF look], goal_cases)
    case (1 b)
    show ?case
    proof (cases b)
      case (Some p)
      then show ?thesis by (cases p) (simp only: option.case prod.case step)
    qed (simp only: option.case flt.keeps_ret)
  qed
qed

lemma open_ok_drop:
  assumes "open_ok r cs" "\<And>c. c \<in> set cs \<Longrightarrow> fst c \<noteq> node"
  shows "open_ok (filter (\<lambda>x. rj_Node (snd x) \<noteq> node) r) cs"
proof -
  have d: "distinct (map fst (filter (\<lambda>x. rj_Node (snd x) \<noteq> node) r))" using assms(1) unfolding open_ok_def by (blast intro: distinct_map_filter)
  have "holds (filter (\<lambda>x. rj_Node (snd x) \<noteq> node) r) c" if "c \<in> set cs" for c
  proof -
    have "holds r c" using assms(1) that by (simp add: open_ok_def)
    then obtain rj where rj: "map_of r (openTarget c) = Some rj" "rj_TaskID rj = cm_ID (snd c)" "rj_Node rj = fst c"
      unfolding holds_def by (elim exE conjE)
    have mem: "(openTarget c, rj) \<in> set r" by (rule map_of_SomeD[OF rj(1)])
    have node: "rj_Node rj \<noteq> node" unfolding rj(3) by (rule assms(2)[OF that])
    have "map_of (filter (\<lambda>x. rj_Node (snd x) \<noteq> node) r) (openTarget c) = Some rj"
      by (rule map_of_is_SomeI[OF d]) (simp add: mem node)
    then show ?thesis using rj(2,3) unfolding holds_def by blast
  qed
  then show ?thesis using assms(1) d by (simp add: open_ok_def)
qed

lemma dropConn_flt: "flt.keeps (dropConn now node)"
  unfolding dropConn_def failRunningOnNode_def flt.keeps_def
proof (rule triple_bind[OF triple_memory[where Q = "\<lambda>_ h. inFlight_ok h \<and> node \<notin> fst ` set (hm_open h)"]])
  show "triple (\<lambda>h. inFlight_ok h \<and> node \<notin> fst ` set (hm_open h)) (dbind (memory (\<lambda>h. (Inr (map snd (filter (\<lambda>r. rj_Node (snd r) = node) (hm_running h))),
       h\<lparr>hm_running := filter (\<lambda>r. rj_Node (snd r) \<noteq> node) (hm_running h)\<rparr>))) (\<lambda>stale.
     dbind (dfor stale (\<lambda>job. resolveTask now (rj_TaskID job) (-1) ''worker node disconnected before the sync finished'')) (\<lambda>_. dret ()))) (\<lambda>_. inFlight_ok) inFlight_ok"
  proof (rule triple_bind[OF triple_memory[where Q = "\<lambda>_. inFlight_ok"]])
    fix stale :: "runningJob list"
    show "triple inFlight_ok (dbind (dfor stale (\<lambda>job. resolveTask now (rj_TaskID job) (-1) ''worker node disconnected before the sync finished'')) (\<lambda>_. dret ()))
        (\<lambda>_. inFlight_ok) inFlight_ok"
      using untouched_flt[OF cv.same_bind[OF cv.same_for[OF untouched_resolve] cv.same_basic(1)]] unfolding flt.keeps_def .
  qed (auto simp: inFlight_ok_def intro!: open_ok_drop)
qed (auto simp: inFlight_ok_def intro: open_ok_filter)

lemma receiveLog_flt: "flt.keeps (receiveLog now msg)"
proof -
  let ?P = "\<lambda>c. open_ok (fst c) (snd c) \<and> lm_ID msg \<notin> (\<lambda>x. cm_ID (snd x)) ` set (snd c)"
  have fin: "triple (\<lambda>h. ?P (core h)) (finishJobTask now msg) (\<lambda>_. inFlight_ok) inFlight_ok"
    unfolding finishJobTask_def
    by (rule triple_bind[OF triple_weaken[OF cv.same_triple[OF untouched_resolve, where P = ?P], where Q' = "\<lambda>_ h. ?P (core h)" and E' = inFlight_ok]])
      (auto simp: core_def inFlight_ok_def image_iff intro!: clear_ok)
  show ?thesis unfolding receiveLog_def flt.keeps_def
    by (cases "lm_Stream msg = StreamExit")
      (auto intro!: triple_ret triple_bind[OF triple_memory fin] simp: core_def inFlight_ok_def open_ok_filter)
qed

lemma receiveEvent_flt: "flt.keeps (receiveEvent now msg)"
  unfolding receiveEvent_def
  by (rule untouched_flt, rule cv.same_bind, rule untouched_memory)
    (auto intro!: cv.same_bind untouched_drop untouched_tables untouched_count cv.same_basic split: option.splits)

lemma houseNext_flt: "flt.keeps (houseNext now)"
proof -
  have take: "flt.keeps (memory (\<lambda>h. (Inr (hm_house h), h\<lparr>hm_house := tl (hm_house h)\<rparr>)))"
    by (rule untouched_flt, rule untouched_memory) (simp add: core_def)
  have clear: "flt.keeps (clearRunning HousekeepingTarget i)" for i
    unfolding flt.keeps_def by (rule clear_ok) (auto simp: inFlight_ok_def open_ok_def image_iff)
  have "flt.keeps (runHousekeeping now i pk)" for i pk
    unfolding runHousekeeping_def finishJobTask_def
    by (auto intro!: flt.keeps_bind untouched_flt[OF untouched_house] untouched_flt[OF untouched_resolve] clear)
  then show ?thesis unfolding houseNext_def by (auto intro!: flt.keeps_bind take flt.keeps_ret split: list.splits)
qed

lemma dropErr_flt: "flt.keeps m \<Longrightarrow> flt.keeps (dropErr m)"
  unfolding dropErr_def by (rule flt.keeps_case) (auto intro: flt.keeps_ret)

lemma registerConn_flt: "flt.keeps (registerConn node roles)"
  unfolding registerConn_def by (rule untouched_flt, rule untouched_memory) (simp add: core_def)

lemma serveHub_flt: "flt.keeps (serveHub env r)"
  by (cases "(env, r)" rule: serveHub.cases)
    (simp_all add: dropErr_flt StartJob_flt batch_flt registerConn_flt receiveLog_flt receiveEvent_flt dropConn_flt houseNext_flt)


subsection \<open>Examples\<close>

definition exampleEnv :: hub_env where
  "exampleEnv = \<lparr>newID = (\<lambda>n. Inr (''t'' @ Itoa n)), trySend = (\<lambda>_ _. True)\<rparr>"

definition emptyHub :: job_hub where
  "emptyHub = \<lparr>hj_jobs = [], hq_jobs = 1, hk_tasks = [], hq_tasks = 1, he_events = [], hq_events = 1, hs_settings = [], hm_ids = 0, hm_running = [],
     hm_conns = [], hm_open = [], hm_batches = [], hm_house = [], hl_finished = []\<rparr>"

text \<open>A batch of two targets on one node, and a second request for the first of them.\<close>

definition batchRun :: "(int \<times> hub_request) list" where
  "batchRun = [(1, HubHello ''n1'' [''dns'', ''netbox'']), (2, HubStart ''sync'' ''u'' [''netbox'', ''dns'']), (3, HubStart ''sync'' ''v'' [''netbox'']),
     (4, HubLog \<lparr>lm_ID = ''t0'', lm_Command = ''netbox'', lm_Stream = ''exit'', lm_ExitCode = 0, lm_Err = []\<rparr>), (5, HubBatch 1)]"

definition batchEnd :: "(int \<times> hub_request) list" where
  "batchEnd = [(6, HubLog \<lparr>lm_ID = ''t2'', lm_Command = ''dns'', lm_Stream = ''exit'', lm_ExitCode = 0, lm_Err = []\<rparr>), (7, HubBatch 1)]"

lemma batchRun_open:
  "map (\<lambda>c. (fst c, cm_ID (snd c), cm_Command (snd c))) (hm_open (fst (snd (dfor batchRun (serveHub exampleEnv) (emptyHub, []))))) = [(''n1'', ''t2'', ''dns'')]"
  by code_simp


end
