(* ===== verification/Job_History.thy ===== *)
theory Job_History
  imports Job_Hub
begin

text \<open>
  The rows of jobs and tasks that the hub of \<open>Job_Hub\<close> keeps: a job marked finished has all its tasks, each finished;
  the last task finishes its job; trimming the history, \<open>internal/housekeeping\<close>, deletes what it promises, as a whole.
\<close>

subsection \<open>Finished jobs are complete\<close>

definition taskCount :: "nat \<Rightarrow> job_hub \<Rightarrow> nat" where
  "taskCount i h = count_list (map jk_JobID (hk_tasks h)) i"

definition logged :: "job_hub \<Rightarrow> nat set" where
  "logged h = fl_JobID ` set (hl_finished h)"

text \<open>A finished job has as many tasks as expected, all finished; no job has more, and a reported job is finished or empty.\<close>

definition job_ok :: "job_hub \<Rightarrow> Job \<Rightarrow> bool" where
  "job_ok h j \<longleftrightarrow> jb_ID j < hq_jobs h \<and> taskCount (jb_ID j) h \<le> jb_ExpectedTasks j \<and>
     (jb_FinishedAt j \<noteq> None \<longrightarrow> taskCount (jb_ID j) h = jb_ExpectedTasks j \<and> (\<forall>t \<in> set (hk_tasks h). jk_JobID t = jb_ID j \<longrightarrow> \<not> unfinished t)) \<and>
     (jb_ID j \<in> logged h \<longrightarrow> jb_FinishedAt j \<noteq> None \<or> jb_ExpectedTasks j = 0)"

text \<open>The goroutine of a batch has at most as many targets left as its job lacks tasks.\<close>

definition batch_ok :: "job_hub \<Rightarrow> nat \<times> string \<times> string list \<Rightarrow> bool" where
  "batch_ok h b \<longleftrightarrow> fst b < hq_jobs h \<and>
     (\<forall>j \<in> set (hj_jobs h). jb_ID j = fst b \<longrightarrow> taskCount (fst b) h + length (snd (snd b)) \<le> jb_ExpectedTasks j)"

definition jobs_ok :: "job_hub \<Rightarrow> bool" where
  "jobs_ok h \<longleftrightarrow> distinct (map jb_ID (hj_jobs h)) \<and> (\<forall>j \<in> set (hj_jobs h). job_ok h j) \<and> (\<forall>t \<in> set (hk_tasks h). jk_JobID t < hq_jobs h) \<and>
     distinct (map fl_JobID (hl_finished h)) \<and> (\<forall>i \<in> logged h. i < hq_jobs h) \<and>
     distinct (map fst (hm_batches h)) \<and> (\<forall>b \<in> set (hm_batches h). batch_ok h b)"

interpretation jbs: db_invariant jobs_ok "\<lambda>h _. h"
  by unfold_locales

lemmas jobs_defs = jobs_ok_def job_ok_def batch_ok_def taskCount_def logged_def

definition frame :: "job_hub \<Rightarrow> nat list \<times> (nat \<times> nat) list \<times> (nat \<times> string \<times> string list) list \<times> nat" where
  "frame h = (map jk_JobID (hk_tasks h), map (\<lambda>j. (jb_ID j, jb_ExpectedTasks j)) (hj_jobs h), hm_batches h, hq_jobs h)"

interpretation fv: db_view frame "\<lambda>h _. h"
  by unfold_locales simp

definition quietIn :: "job_hub \<Rightarrow> Job list \<times> JobTask list \<times> nat \<times> FinishLine list \<times> (nat \<times> string \<times> string list) list" where
  "quietIn h = (hj_jobs h, hk_tasks h, hq_jobs h, hl_finished h, hm_batches h)"

lemma jobs_ok_quiet: "quietIn h' = quietIn h \<Longrightarrow> jobs_ok h' = jobs_ok h \<and> frame h' = frame h"
  by (simp add: quietIn_def frame_def jobs_defs)

lemma batch_ok_frame: "frame h' = frame h \<Longrightarrow> batch_ok h' b = batch_ok h b"
proof -
  have "batch_ok h b \<longleftrightarrow> fst b < snd (snd (snd (frame h))) \<and>
      (\<forall>p \<in> set (fst (snd (frame h))). fst p = fst b \<longrightarrow> count_list (fst (frame h)) (fst b) + length (snd (snd b)) \<le> snd p)" for h
    by (auto simp: batch_ok_def frame_def taskCount_def)
  then show "frame h' = frame h \<Longrightarrow> batch_ok h' b = batch_ok h b" by simp
qed

text \<open>Finishing, or counting an event of, tasks.\<close>

lemma jobs_ok_tasks:
  assumes ok: "jobs_ok h" and ids: "map jk_JobID ts = map jk_JobID (hk_tasks h)"
    and fin: "\<And>t. t \<in> set ts \<Longrightarrow> unfinished t \<Longrightarrow> \<exists>t' \<in> set (hk_tasks h). jk_JobID t' = jk_JobID t \<and> unfinished t'"
  shows "jobs_ok (h\<lparr>hk_tasks := ts\<rparr>)"
proof -
  have count: "taskCount i (h\<lparr>hk_tasks := ts\<rparr>) = taskCount i h" for i by (simp add: taskCount_def ids)
  have mem: "jk_JobID ` set ts = jk_JobID ` set (hk_tasks h)" using arg_cong[OF ids, of set] by simp
  have job: "job_ok (h\<lparr>hk_tasks := ts\<rparr>) j" if "j \<in> set (hj_jobs h)" for j
  proof -
    have j: "job_ok h j" using ok that by (simp add: jobs_ok_def)
    have "\<not> unfinished t" if "jb_FinishedAt j \<noteq> None" "t \<in> set ts" "jk_JobID t = jb_ID j" for t
      using fin[of t] j that unfolding job_ok_def by metis
    then show ?thesis using j unfolding job_ok_def count by (simp add: logged_def)
  qed
  have below: "\<forall>t \<in> set ts. jk_JobID t < hq_jobs h"
  proof
    fix t assume "t \<in> set ts"
    then have "jk_JobID t \<in> jk_JobID ` set (hk_tasks h)" unfolding mem[symmetric] by simp
    then show "jk_JobID t < hq_jobs h" using ok by (auto simp: jobs_ok_def)
  qed
  have batch: "batch_ok (h\<lparr>hk_tasks := ts\<rparr>) b = batch_ok h b" for b unfolding batch_ok_def count by simp
  show ?thesis using ok job below unfolding jobs_ok_def batch by (simp add: logged_def)
qed

lemma updateTasks_jobs:
  assumes "\<And>t. jk_JobID (f t) = jk_JobID t" "\<And>t. unfinished (f t) \<Longrightarrow> unfinished t"
  shows "jbs.keeps (updateTasks P f)" "fv.same (updateTasks P f)"
proof -
  show "jbs.keeps (updateTasks P f)" unfolding updateTasks_def
  proof (rule jbs.keeps_stmt, unfold snd_conv, rule jobs_ok_tasks)
    fix h t
    assume "t \<in> set (map (\<lambda>t. if P t then f t else t) (hk_tasks h))" "unfinished t"
    then obtain t' where "t' \<in> set (hk_tasks h)" "t = (if P t' then f t' else t')" by auto
    then show "\<exists>t' \<in> set (hk_tasks h). jk_JobID t' = jk_JobID t \<and> unfinished t'"
      using assms \<open>unfinished t\<close> by (intro bexI[of _ t']) (auto split: if_splits)
  qed (use assms(1) in auto)
  show "fv.same (updateTasks P f)" unfolding updateTasks_def by (rule fv.same_stmt) (simp add: frame_def assms(1) comp_def if_distrib cong: if_cong)
qed

lemma length_taskCount: "length (filter (\<lambda>t. jk_JobID t = i) (hk_tasks h)) = taskCount i h"
proof -
  have "length (filter (\<lambda>t. jk_JobID t = i) ts) = count_list (map jk_JobID ts) i" for ts by (induction ts) auto
  then show ?thesis by (simp add: taskCount_def)
qed

lemma jobs_ok_sole: "jobs_ok h \<Longrightarrow> j \<in> set (hj_jobs h) \<Longrightarrow> j' \<in> set (hj_jobs h) \<Longrightarrow> jb_ID j = jb_ID j' \<Longrightarrow> j = j'"
  unfolding jobs_ok_def by (metis distinct_map inj_onD)

lemma jobs_ok_finish:
  assumes ok: "jobs_ok h" and fin: "\<And>t. t \<in> set (hk_tasks h) \<Longrightarrow> jk_JobID t = i \<Longrightarrow> \<not> unfinished t"
    and all: "\<And>j. j \<in> set (hj_jobs h) \<Longrightarrow> jb_ID j = i \<Longrightarrow> jb_ExpectedTasks j \<le> taskCount i h"
    and P: "\<And>j. P j \<Longrightarrow> jb_ID j = i"
  shows "jobs_ok (h\<lparr>hj_jobs := map (\<lambda>j. if P j then j\<lparr>jb_FinishedAt := Some now\<rparr> else j) (hj_jobs h)\<rparr>)" (is "jobs_ok ?h")
proof -
  let ?f = "\<lambda>j. if P j then j\<lparr>jb_FinishedAt := Some now\<rparr> else j"
  have f: "jb_ID (?f j) = jb_ID j" "jb_ExpectedTasks (?f j) = jb_ExpectedTasks j" for j by simp_all
  have ids: "map jb_ID (hj_jobs ?h) = map jb_ID (hj_jobs h)" by simp
  have count: "taskCount k ?h = taskCount k h" for k by (simp add: taskCount_def)
  have job: "job_ok ?h (?f j)" if "j \<in> set (hj_jobs h)" for j
  proof -
    have j: "job_ok h j" using ok that by (simp add: jobs_ok_def)
    show ?thesis
    proof (cases "P j")
      case True
      have i: "jb_ID j = i" by (rule P[OF True])
      have "taskCount i h = jb_ExpectedTasks j" using all[OF that i] j i by (simp add: job_ok_def)
      then show ?thesis using j i fin unfolding job_ok_def count by (auto simp: True logged_def)
    next
      case False
      then show ?thesis using j unfolding job_ok_def count by (simp add: logged_def)
    qed
  qed
  have batch: "batch_ok ?h b = batch_ok h b" for b by (rule batch_ok_frame) (simp add: frame_def)
  have "\<forall>j \<in> set (hj_jobs ?h). job_ok ?h j"
  proof
    fix j assume "j \<in> set (hj_jobs ?h)"
    then obtain j' where "j' \<in> set (hj_jobs h)" "j = ?f j'" by (auto split: if_splits)
    then show "job_ok ?h j" using job[of j'] by simp
  qed
  then show ?thesis using ok unfolding jobs_ok_def ids batch by (simp add: logged_def)
qed

lemma jobs_ok_log:
  assumes "jobs_ok h" "fl_JobID l \<notin> logged h" "fl_JobID l < hq_jobs h"
    and "\<And>j. j \<in> set (hj_jobs h) \<Longrightarrow> jb_ID j = fl_JobID l \<Longrightarrow> jb_FinishedAt j \<noteq> None \<or> jb_ExpectedTasks j = 0"
  shows "jobs_ok (h\<lparr>hl_finished := hl_finished h @ [l]\<rparr>)"
  using assms by (auto simp: jobs_defs)

text \<open>A job that may be reported.\<close>

definition reportable :: "nat \<Rightarrow> job_hub \<Rightarrow> bool" where
  "reportable i h \<longleftrightarrow> jobs_ok h \<and> i \<notin> logged h \<and> i < hq_jobs h \<and> (\<forall>j \<in> set (hj_jobs h). jb_ID j = i \<longrightarrow> jb_FinishedAt j \<noteq> None \<or> jb_ExpectedTasks j = 0)"

lemma log_triple: "triple (reportable (jb_ID job)) (logJobFinished job now) (\<lambda>_. jobs_ok) jobs_ok"
  unfolding logJobFinished_def Let_def
proof (rule triple_case[where R = "\<lambda>_. reportable (jb_ID job)" and F = "reportable (jb_ID job)"])
  show "triple (reportable (jb_ID job)) (Find hk_tasks (\<lambda>t. jk_JobID t = jb_ID job)) (\<lambda>_. reportable (jb_ID job)) (reportable (jb_ID job))"
    by (rule triple_weaken[OF triple_Find]) auto
  have "triple (reportable (jb_ID job)) (memory (\<lambda>h. (Inr (), h\<lparr>hl_finished := hl_finished h @ [finishLine job now ts]\<rparr>))) (\<lambda>_. jobs_ok) jobs_ok" for ts
    by (rule triple_memory) (auto simp: reportable_def finishLine_def Let_def intro!: jobs_ok_log)
  note line = this
  show "triple (reportable (jb_ID job)) (memory (\<lambda>h. (Inr (), h\<lparr>hl_finished := hl_finished h @ [finishLine job now (case Inr ts of Inl _ \<Rightarrow> []
      | Inr ts \<Rightarrow> order_by (\<lambda>a b. jk_ID a < jk_ID b) ts)]\<rparr>))) (\<lambda>_. jobs_ok) jobs_ok" for ts :: "JobTask list" by (rule line)
  show "triple (reportable (jb_ID job)) (memory (\<lambda>h. (Inr (), h\<lparr>hl_finished := hl_finished h @ [finishLine job now (case Inl e of Inl _ \<Rightarrow> []
      | Inr ts \<Rightarrow> order_by (\<lambda>a b. jk_ID a < jk_ID b) ts)]\<rparr>))) (\<lambda>_. jobs_ok) jobs_ok" for e :: go_error by (rule line)
qed

definition complete :: "nat \<Rightarrow> job_hub \<Rightarrow> bool" where
  "complete i h \<longleftrightarrow> jobs_ok h \<and> 0 < taskCount i h \<and> (\<forall>t \<in> set (hk_tasks h). jk_JobID t = i \<longrightarrow> \<not> unfinished t) \<and>
     (\<exists>j \<in> set (hj_jobs h). jb_ID j = i \<and> jb_ExpectedTasks j \<le> taskCount i h)"

lemma finished_row:
  assumes "j \<in> set (map (\<lambda>j. if P j then j\<lparr>jb_FinishedAt := t\<rparr> else j) js)"
  obtains j' where "j' \<in> set js" "jb_ID j' = jb_ID j" "jb_ExpectedTasks j' = jb_ExpectedTasks j"
proof -
  obtain j' where "j' \<in> set js" "j = (if P j' then j'\<lparr>jb_FinishedAt := t\<rparr> else j')" using assms unfolding set_map by (rule imageE)
  then show thesis using that[of j'] by simp
qed

lemma finished_map:
  assumes "j \<in> set (map (\<lambda>j. if jb_ID j = i \<and> jb_FinishedAt j = None then j\<lparr>jb_FinishedAt := Some now\<rparr> else j) js)" and "jb_ID j = i"
  shows "jb_FinishedAt j \<noteq> None"
proof -
  obtain j' where j': "j = (if jb_ID j' = i \<and> jb_FinishedAt j' = None then j'\<lparr>jb_FinishedAt := Some now\<rparr> else j')"
    using assms(1) unfolding set_map by (rule imageE)
  show ?thesis
  proof (cases "jb_ID j' = i \<and> jb_FinishedAt j' = None")
    case True
    then show ?thesis using j' by simp
  next
    case False
    have "j = j'" using j' unfolding if_not_P[OF False] .
    then show ?thesis using False assms(2) by simp
  qed
qed

lemma finish_triple:
  "triple (complete i) (updateJobs (\<lambda>j. jb_ID j = i \<and> jb_FinishedAt j = None) (\<lambda>j. j\<lparr>jb_FinishedAt := Some now\<rparr>))
     (\<lambda>n h. jobs_ok h \<and> (n = 1 \<longrightarrow> reportable i h)) jobs_ok"
  unfolding updateJobs_def
proof (rule triple_stmt_total)
  let ?P = "\<lambda>j. jb_ID j = i \<and> jb_FinishedAt j = None"
  fix h
  assume c: "complete i h"
  then show ok: "jobs_ok h" by (simp add: complete_def)
  let ?h = "h\<lparr>hj_jobs := map (\<lambda>j. if ?P j then j\<lparr>jb_FinishedAt := Some now\<rparr> else j) (hj_jobs h)\<rparr>"
  obtain job where job: "job \<in> set (hj_jobs h)" "jb_ID job = i" "jb_ExpectedTasks job \<le> taskCount i h" using c by (auto simp: complete_def)
  have sole: "j = job" if "j \<in> set (hj_jobs h)" "jb_ID j = i" for j using jobs_ok_sole[OF ok that(1) job(1)] that(2) job(2) by simp
  show ok': "jobs_ok ?h"
  proof (rule jobs_ok_finish[OF ok, where i = i])
    show "jb_ExpectedTasks j \<le> taskCount i h" if "j \<in> set (hj_jobs h)" "jb_ID j = i" for j using sole[OF that] job(3) by simp
  qed (use c in \<open>auto simp: complete_def\<close>)
  have "reportable i ?h" if "length (filter ?P (hj_jobs h)) = 1"
  proof -
    have "filter ?P (hj_jobs h) \<noteq> []" using that by auto
    then obtain j where j: "j \<in> set (hj_jobs h)" "?P j" unfolding filter_empty_conv by blast
    have jo: "job_ok h j" using ok j(1) by (simp add: jobs_ok_def)
    have new: "i \<notin> logged h" "i < hq_jobs h" using jo j(2) c by (auto simp: job_ok_def complete_def)
    have same: "logged ?h = logged h" "hq_jobs ?h = hq_jobs h" by (simp_all add: logged_def)
    have fin: "jb_FinishedAt j \<noteq> None" if j: "j \<in> set (hj_jobs ?h)" "jb_ID j = i" for j
      by (rule finished_map[OF _ j(2), of now "hj_jobs h"]) (use j(1) in simp)
    show ?thesis unfolding reportable_def same using ok' new fin by blast
  qed
  then show "jobs_ok ?h \<and> (length (filter ?P (hj_jobs h)) = 1 \<longrightarrow> reportable i ?h)" using ok' by blast
qed

lemma finishLast_triple:
  assumes "jb_ID job = i"
  shows "triple (complete i) (dbind (updateJobs (\<lambda>j. jb_ID j = i \<and> jb_FinishedAt j = None) (\<lambda>j. j\<lparr>jb_FinishedAt := Some now\<rparr>)) (\<lambda>n.
       if n = 1 then logJobFinished job now else dret ())) (\<lambda>_. jobs_ok) jobs_ok"
proof (rule triple_bind[OF finish_triple])
  fix n :: nat
  show "triple (\<lambda>h. jobs_ok h \<and> (n = 1 \<longrightarrow> reportable i h)) (if n = 1 then logJobFinished job now else dret ()) (\<lambda>_. jobs_ok) jobs_ok"
  proof (cases "n = 1")
    case True
    have "triple (reportable i) (logJobFinished job now) (\<lambda>_. jobs_ok) jobs_ok" using log_triple[of job now] by (simp only: assms)
    then show ?thesis unfolding if_P[OF True] by (rule triple_weaken) (auto simp: True)
  qed (auto intro: triple_ret)
qed

lemma finishParent_triple: "triple (\<lambda>h. jobs_ok h \<and> 0 < taskCount i h) (finishParent now i) (\<lambda>_. jobs_ok) jobs_ok"
  unfolding finishParent_def
proof (rule triple_bind[OF triple_First[where E = jobs_ok]], simp)
  fix job :: Job
  let ?J = "\<lambda>h. (jobs_ok h \<and> 0 < taskCount i h) \<and> job \<in> set (hj_jobs h) \<and> jb_ID job = i"
  let ?last = "dbind (updateJobs (\<lambda>j. jb_ID j = i \<and> jb_FinishedAt j = None) (\<lambda>j. j\<lparr>jb_FinishedAt := Some now\<rparr>)) (\<lambda>n.
       if n = 1 then logJobFinished job now else dret ())"
  show "triple ?J (dbind (Count hk_tasks (\<lambda>t. jk_JobID t = i)) (\<lambda>total.
     dbind (Count hk_tasks (\<lambda>t. jk_JobID t = i \<and> unfinished t)) (\<lambda>remaining.
     if remaining = 0 \<and> jb_ExpectedTasks job \<le> total then ?last else dret ()))) (\<lambda>_. jobs_ok) jobs_ok"
  proof (rule triple_bind[OF triple_Count[where P = ?J]], simp, rule triple_bind[OF triple_Count], simp)
    fix total remaining
    let ?C = "\<lambda>h. (?J h \<and> total = length (filter (\<lambda>t. jk_JobID t = i) (hk_tasks h))) \<and> remaining = length (filter (\<lambda>t. jk_JobID t = i \<and> unfinished t) (hk_tasks h))"
    show "triple ?C (if remaining = 0 \<and> jb_ExpectedTasks job \<le> total then ?last else dret ()) (\<lambda>_. jobs_ok) jobs_ok"
    proof (cases "remaining = 0 \<and> jb_ExpectedTasks job \<le> total")
      case True
      have "triple (\<lambda>h. complete i h \<and> jb_ID job = i) ?last (\<lambda>_. jobs_ok) jobs_ok" by (rule triple_pure) (rule finishLast_triple)
      moreover have "complete i h \<and> jb_ID job = i" if c: "?C h" for h
      proof -
        have "filter (\<lambda>t. jk_JobID t = i \<and> unfinished t) (hk_tasks h) = []" using c True by simp
        then have "\<forall>t \<in> set (hk_tasks h). jk_JobID t = i \<longrightarrow> \<not> unfinished t" by (simp add: filter_empty_conv)
        moreover have "jb_ExpectedTasks job \<le> taskCount i h" using c True unfolding length_taskCount by simp
        ultimately show ?thesis using c unfolding complete_def by blast
      qed
      ultimately show ?thesis unfolding if_P[OF True] by (rule triple_weaken)
    qed (auto intro: triple_ret)
  qed
qed

lemma resolve_jobs: "jbs.keeps (resolveTask now i x e)"
  unfolding resolveTask_def dropErr_def jbs.keeps_def
proof (rule triple_case[where R = "\<lambda>_. jobs_ok" and F = jobs_ok])
  show "triple jobs_ok (dbind (First jk_ID hk_tasks (\<lambda>t. jk_TaskID t = i)) (\<lambda>task.
     dbind (updateTasks (\<lambda>t. jk_ID t = jk_ID task) (\<lambda>t. t\<lparr>jk_FinishedAt := Some now, jk_ExitCode := x, jk_Err := e\<rparr>)) (\<lambda>_.
     finishParent now (jk_JobID task)))) (\<lambda>_. jobs_ok) jobs_ok"
  proof (rule triple_bind[OF triple_First], simp)
    fix task :: JobTask
    let ?P = "\<lambda>h. jobs_ok h \<and> 0 < taskCount (jk_JobID task) h"
    have "triple ?P (updateTasks (\<lambda>t. jk_ID t = jk_ID task) (\<lambda>t. t\<lparr>jk_FinishedAt := Some now, jk_ExitCode := x, jk_Err := e\<rparr>)) (\<lambda>_. ?P) jobs_ok"
      unfolding updateTasks_def
      by (rule triple_stmt_total) (auto intro!: jobs_ok_tasks simp: taskCount_def comp_def if_distrib unfinished_def cong: if_cong split: if_splits)
    then have "triple ?P (dbind (updateTasks (\<lambda>t. jk_ID t = jk_ID task) (\<lambda>t. t\<lparr>jk_FinishedAt := Some now, jk_ExitCode := x, jk_Err := e\<rparr>)) (\<lambda>_.
        finishParent now (jk_JobID task))) (\<lambda>_. jobs_ok) jobs_ok"
      by (rule triple_bind) (rule finishParent_triple)
    then show "triple (\<lambda>h. jobs_ok h \<and> task \<in> set (hk_tasks h) \<and> jk_TaskID task = i)
        (dbind (updateTasks (\<lambda>t. jk_ID t = jk_ID task) (\<lambda>t. t\<lparr>jk_FinishedAt := Some now, jk_ExitCode := x, jk_Err := e\<rparr>)) (\<lambda>_.
        finishParent now (jk_JobID task))) (\<lambda>_. jobs_ok) jobs_ok"
    proof (rule triple_weaken)
      fix h assume h: "jobs_ok h \<and> task \<in> set (hk_tasks h) \<and> jk_TaskID task = i"
      then have "count_list (map jk_JobID (hk_tasks h)) (jk_JobID task) \<noteq> 0" unfolding count_list_0_iff by simp
      then show "?P h" using h by (simp add: taskCount_def)
    qed simp_all
  qed
qed (auto intro: triple_ret)

subsection \<open>The last task finishes its job\<close>

definition lastTask :: "JobTask \<Rightarrow> Job \<Rightarrow> job_hub \<Rightarrow> bool" where
  "lastTask task job h \<longleftrightarrow> list_all (\<lambda>t. jk_JobID t \<noteq> jk_JobID task \<or> jk_ID t = jk_ID task \<or> \<not> unfinished t) (hk_tasks h) \<and>
     jb_ExpectedTasks job \<le> taskCount (jk_JobID task) h"

lemma first_sole:
  assumes "distinct (map key rs)" "r \<in> set rs"
  shows "first_by key (\<lambda>x. key x = key r) rs = Some r"
proof -
  have "first_by key (\<lambda>x. key x = key r) rs \<noteq> None" using assms(2) unfolding first_by_None by blast
  then obtain r' where r': "first_by key (\<lambda>x. key x = key r) rs = Some r'" by blast
  have "r' = r" using first_by_Some[OF r'] assms by (auto dest: inj_onD[of key] simp: distinct_map)
  then show ?thesis using r' by simp
qed

lemma length_sole:
  assumes "distinct (map key rs)" "r \<in> set rs"
  shows "length (filter (\<lambda>x. key x = key r \<and> P x) rs) = (if P r then 1 else 0)"
proof -
  have "filter (\<lambda>x. key x = key r) rs = [r]"
    using assms by (induction rs) (auto simp: filter_empty_conv image_iff)
  then have "filter P (filter (\<lambda>x. key x = key r) rs) = (if P r then [r] else [])" by simp
  then show ?thesis by (simp add: conj_commute split: if_splits)
qed

text \<open>
  Without database errors, the answer to a task finishes that task, and finishes and reports its job exactly when
  every other task of the job is finished and no task is still to be started.
\<close>

theorem resolveTask_finishes:
  assumes "first_by jk_ID (\<lambda>t. jk_TaskID t = i) (hk_tasks h) = Some task" and "job \<in> set (hj_jobs h)" and "jb_ID job = jk_JobID task"
    and "distinct (map jb_ID (hj_jobs h))"
  shows "\<exists>h'. resolveTask now i x e (h, []) = (Inr (), (h', [])) \<and>
    hk_tasks h' = map (\<lambda>t. if jk_ID t = jk_ID task then t\<lparr>jk_FinishedAt := Some now, jk_ExitCode := x, jk_Err := e\<rparr> else t) (hk_tasks h) \<and>
    hj_jobs h' = map (\<lambda>j. if jb_ID j = jb_ID job \<and> jb_FinishedAt j = None \<and> lastTask task job h then j\<lparr>jb_FinishedAt := Some now\<rparr> else j) (hj_jobs h) \<and>
    map fl_JobID (hl_finished h') = map fl_JobID (hl_finished h) @ (if jb_FinishedAt job = None \<and> lastTask task job h then [jb_ID job] else [])"
proof -
  let ?f = "\<lambda>t. if jk_ID t = jk_ID task then t\<lparr>jk_FinishedAt := Some now, jk_ExitCode := x, jk_Err := e\<rparr> else t"
  let ?h = "h\<lparr>hk_tasks := map ?f (hk_tasks h)\<rparr>"
  let ?J = "jk_JobID task"
  have f: "jk_JobID (?f t) = jk_JobID t" "unfinished (?f t) = (jk_ID t \<noteq> jk_ID task \<and> unfinished t)" for t by (simp_all add: unfinished_def)
  have count: "length (filter (\<lambda>t. jk_JobID t = ?J) (map ?f (hk_tasks h))) = taskCount ?J h"
    unfolding length_taskCount[symmetric] filter_map comp_def f by simp
  have rest: "length (filter (\<lambda>t. jk_JobID t = ?J \<and> unfinished t) (map ?f (hk_tasks h))) = 0 \<longleftrightarrow>
      list_all (\<lambda>t. jk_JobID t \<noteq> ?J \<or> jk_ID t = jk_ID task \<or> \<not> unfinished t) (hk_tasks h)"
    unfolding filter_map comp_def f length_map length_0_conv filter_empty_conv list_all_iff by blast
  have first: "first_by jb_ID (\<lambda>j. jb_ID j = ?J) (hj_jobs h) = Some job" using first_sole[OF assms(4,2)] assms(3) by simp
  have n: "length (filter (\<lambda>j. jb_ID j = ?J \<and> jb_FinishedAt j = None) (hj_jobs h)) = (if jb_FinishedAt job = None then 1 else 0)"
    using length_sole[OF assms(4,2), of "\<lambda>j. jb_FinishedAt j = None"] assms(3) by simp
  let ?g = "?h\<lparr>hj_jobs := map (\<lambda>j. if jb_ID j = ?J \<and> jb_FinishedAt j = None then j\<lparr>jb_FinishedAt := Some now\<rparr> else j) (hj_jobs h)\<rparr>"
  obtain line where line: "logJobFinished job now (?g, []) = (Inr (), (?g\<lparr>hl_finished := hl_finished h @ [line]\<rparr>, []))" "fl_JobID line = jb_ID job"
    by (simp add: logJobFinished_def Let_def db_run memory_def finishLine_def)
  have parent: "finishParent now ?J (?h, []) = (if lastTask task job h then if jb_FinishedAt job = None then (Inr (), (?g\<lparr>hl_finished := hl_finished h @ [line]\<rparr>, []))
      else (Inr (), (?g, [])) else (Inr (), (?h, [])))"
    using line(1) first count rest n by (simp add: finishParent_def db_run lastTask_def updateJobs_def)
  have run: "resolveTask now i x e (h, []) = (Inr (), snd (finishParent now ?J (?h, [])))"
    using assms(1) parent by (simp add: resolveTask_def dropErr_def updateTasks_def db_run split: if_splits)
  show ?thesis
    unfolding run parent using assms(3) line(2) by auto
qed

definition exampleJob :: Job where
  "exampleJob = \<lparr>jb_ID = 1, jb_Type = ''sync'', jb_TriggeredBy = ''u'', jb_StartedAt = 2, jb_FinishedAt = None, jb_ExpectedTasks = 1\<rparr>"

definition exampleTask :: JobTask where
  "exampleTask = \<lparr>jk_ID = 1, jk_JobID = 1, jk_TaskID = ''t0'', jk_Target = ''dns'', jk_StartedAt = 2, jk_FinishedAt = None, jk_ExitCode = 0, jk_Err = [],
     jk_ErrorCount = 0, jk_WarningCount = 0\<rparr>"

definition oneTask :: job_hub where
  "oneTask = emptyHub\<lparr>hj_jobs := [exampleJob], hq_jobs := 2, hk_tasks := [exampleTask], hq_tasks := 2\<rparr>"

lemmas oneTask_simps = oneTask_def emptyHub_def exampleJob_def exampleTask_def lastTask_def taskCount_def

theorem resolveTask_finishes_witness:
  "first_by jk_ID (\<lambda>t. jk_TaskID t = ''t0'') (hk_tasks oneTask) = Some exampleTask \<and>
   (\<exists>h'. resolveTask 9 ''t0'' 0 [] (oneTask, []) = (Inr (), (h', [])) \<and> map jb_FinishedAt (hj_jobs h') = [Some 9] \<and> map fl_JobID (hl_finished h') = [1])"
proof -
  have a: "first_by jk_ID (\<lambda>t. jk_TaskID t = ''t0'') (hk_tasks oneTask) = Some exampleTask" by (simp add: oneTask_simps)
  have b: "exampleJob \<in> set (hj_jobs oneTask)" "jb_ID exampleJob = jk_JobID exampleTask" "distinct (map jb_ID (hj_jobs oneTask))" by (simp_all add: oneTask_simps)
  have "lastTask exampleTask exampleJob oneTask" "jb_FinishedAt exampleJob = None" "jb_ID exampleJob = 1" "hj_jobs oneTask = [exampleJob]" "hl_finished oneTask = []"
    by (simp_all add: oneTask_simps)
  then show ?thesis using a resolveTask_finishes[OF a b, of 9 0 "[]"] by auto
qed

subsection \<open>Room for the tasks to come\<close>

interpretation qv: db_view quietIn "\<lambda>h _. h"
  by unfold_locales simp

text \<open>A handler that adds no task or job and starts no batch.\<close>

definition steady :: "'a hub \<Rightarrow> bool" where
  "steady m \<longleftrightarrow> jbs.keeps m \<and> fv.same m"

lemma steady_case: "steady m \<Longrightarrow> (\<And>r. steady (f r)) \<Longrightarrow> steady (dcase m f)"
  unfolding steady_def by (blast intro: jbs.keeps_case fv.same_case)

lemma steady_bind: "steady m \<Longrightarrow> (\<And>a. steady (f a)) \<Longrightarrow> steady (dbind m f)"
  unfolding steady_def by (blast intro: jbs.keeps_bind fv.same_bind)

lemma steady_readonly: "readonly m \<Longrightarrow> steady m"
  unfolding steady_def by (blast intro: jbs.keeps_readonly fv.same_readonly)

lemmas steady_basic = steady_readonly[OF readonly_basic(1)] steady_readonly[OF readonly_basic(2)] steady_readonly[OF readonly_query]
  steady_readonly[OF readonly_reads(1)] steady_readonly[OF readonly_reads(2)] steady_readonly[OF readonly_reads(3)]

lemma steady_quiet: "qv.same m \<Longrightarrow> steady m"
proof -
  assume q: "qv.same m"
  have "jobs_ok (fst (snd (m s))) = jobs_ok (fst s) \<and> frame (fst (snd (m s))) = frame (fst s)" for s
    by (rule jobs_ok_quiet) (use q[unfolded qv.same_def] in blast)
  then show ?thesis unfolding steady_def jbs.keeps_def fv.same_def triple_def outcome_def by (simp split: sum.splits)
qed

lemma steady_memory: "(\<And>h. quietIn (snd (f h)) = quietIn h) \<Longrightarrow> steady (memory f)"
  by (rule steady_quiet) (auto simp: qv.same_def memory_def)

lemma steady_stmt: "(\<And>h. quietIn (snd (f h)) = quietIn h) \<Longrightarrow> steady (stmt f)"
  by (rule steady_quiet, rule qv.same_stmt)

lemma steady_drop: "steady m \<Longrightarrow> steady (dropErr m)"
  unfolding dropErr_def by (intro steady_case steady_basic)

lemma steady_if: "steady m \<Longrightarrow> steady n \<Longrightarrow> steady (if c then m else n)"
  by simp

lemma steady_for: "(\<And>x. steady (f x)) \<Longrightarrow> steady (dfor xs f)"
  unfolding steady_def by (blast intro: jbs.keeps_for fv.same_for)

lemma steady_reservations:
  "steady (nextID env)" "steady (reserveTarget env t)" "steady (clearRunning t i)" "steady (noteRunning t i f)" "steady (dispatchSingle env i t)"
  "steady (insertEvent e)" "steady (registerConn n roles)" "steady (GetOrCreateSettings hs_settings hs_settings_update)"
proof -
  show n: "steady (nextID env)" unfolding nextID_def by (rule steady_memory) (simp add: quietIn_def)
  show "steady (reserveTarget env t)" unfolding reserveTarget_def
    by (intro steady_bind n steady_memory) (simp add: quietIn_def split: option.splits)
  show "steady (clearRunning t i)" "steady (noteRunning t i f)" unfolding clearRunning_def noteRunning_def
    by (rule steady_memory; simp add: quietIn_def noted_def split: option.splits)+
  show "steady (dispatchSingle env i t)" unfolding dispatchSingle_def
    by (rule steady_memory) (simp add: quietIn_def Let_def split: option.splits)
  show "steady (insertEvent e)" unfolding insertEvent_def by (rule steady_stmt) (simp add: quietIn_def)
  show "steady (registerConn n roles)" unfolding registerConn_def by (rule steady_memory) (simp add: quietIn_def)
  show "steady (GetOrCreateSettings hs_settings hs_settings_update)" unfolding GetOrCreateSettings_def
    by (rule steady_case[OF steady_basic(6)]) (auto intro!: steady_basic steady_stmt simp: quietIn_def split: sum.splits)
qed

lemma steady_log_frame: "fv.same (logJobFinished job now)"
  unfolding logJobFinished_def Let_def by (rule fv.same_case[OF fv.same_basic(4)]) (simp add: fv.same_def memory_def frame_def split: prod.splits)

lemma steady_resolve: "steady (resolveTask now i x e)"
proof -
  have jobs: "fv.same (updateJobs P (\<lambda>j. j\<lparr>jb_FinishedAt := Some now\<rparr>))" for P
    unfolding updateJobs_def by (rule fv.same_stmt) (simp add: frame_def)
  have tasks: "fv.same (updateTasks P (\<lambda>t. t\<lparr>jk_FinishedAt := Some now, jk_ExitCode := x, jk_Err := e\<rparr>))" for P
    by (rule updateTasks_jobs) (simp_all add: unfinished_def)
  have "fv.same (finishParent now j)" for j
    unfolding finishParent_def
    by (intro fv.same_bind fv.same_basic) (auto intro!: fv.same_basic fv.same_bind[OF jobs] steady_log_frame)
  then have "fv.same (resolveTask now i x e)"
    unfolding resolveTask_def dropErr_def by (intro fv.same_case fv.same_bind fv.same_basic tasks)
  then show ?thesis unfolding steady_def using resolve_jobs by blast
qed

lemma steady_finish: "steady (finishJobTask now msg)"
  unfolding finishJobTask_def by (intro steady_bind steady_resolve steady_reservations)

text \<open>Job \<open>i\<close> lacks \<open>a\<close> tasks or more, and its batch has at most \<open>k\<close> targets left.\<close>

definition roomIn :: "nat \<Rightarrow> nat \<Rightarrow> nat \<Rightarrow> nat list \<times> (nat \<times> nat) list \<times> (nat \<times> string \<times> string list) list \<times> nat \<Rightarrow> bool" where
  "roomIn i a k v \<longleftrightarrow> (case v of (ts, js, bs, q) \<Rightarrow> i < q \<and> (\<forall>p \<in> set js. fst p = i \<longrightarrow> count_list ts i + a \<le> snd p) \<and>
     (\<forall>b \<in> set bs. fst b = i \<longrightarrow> length (snd (snd b)) \<le> k))"

definition room :: "nat \<Rightarrow> nat \<Rightarrow> nat \<Rightarrow> job_hub \<Rightarrow> bool" where
  "room i a k h \<longleftrightarrow> jobs_ok h \<and> roomIn i a k (frame h)"

lemma room_steady: "steady m \<Longrightarrow> triple (room i a k) m (\<lambda>_. room i a k) (room i a k)"
  unfolding steady_def jbs.keeps_def fv.same_def room_def triple_def outcome_def by (fastforce split: sum.splits)

lemma room_less: "room i a k h \<Longrightarrow> a' \<le> a \<Longrightarrow> k \<le> k' \<Longrightarrow> room i a' k' h"
  unfolding room_def roomIn_def by (fastforce split: prod.splits)

lemma jobs_ok_add:
  assumes r: "room i (Suc k) k h" and t: "jk_JobID t = i" "unfinished t"
  shows "room i k k (h\<lparr>hk_tasks := hk_tasks h @ [t]\<rparr>)" (is "room i k k ?h")
proof -
  have ok: "jobs_ok h" and i: "i < hq_jobs h"
    and lack: "\<And>j. j \<in> set (hj_jobs h) \<Longrightarrow> jb_ID j = i \<Longrightarrow> taskCount i h + Suc k \<le> jb_ExpectedTasks j"
    and rest: "\<And>b. b \<in> set (hm_batches h) \<Longrightarrow> fst b = i \<Longrightarrow> length (snd (snd b)) \<le> k"
    using r by (auto simp: room_def roomIn_def frame_def taskCount_def)
  have count: "taskCount j ?h = (if j = i then Suc (taskCount j h) else taskCount j h)" for j by (simp add: taskCount_def t)
  have "job_ok ?h j" if "j \<in> set (hj_jobs h)" for j
  proof (cases "jb_ID j = i")
    case True
    have j: "job_ok h j" using ok that by (simp add: jobs_ok_def)
    have "jb_FinishedAt j = None" using j lack[OF that True] True by (auto simp: job_ok_def)
    then show ?thesis using j lack[OF that True] True unfolding job_ok_def count by (simp add: logged_def)
  next
    case False
    have "job_ok h j" using ok that by (simp add: jobs_ok_def)
    then show ?thesis using False t unfolding job_ok_def count by (auto simp: logged_def)
  qed
  moreover have "batch_ok ?h b" if "b \<in> set (hm_batches h)" for b
  proof -
    have b: "batch_ok h b" using ok that by (simp add: jobs_ok_def)
    show ?thesis
    proof (cases "fst b = i")
      case True
      then show ?thesis using b lack rest[OF that] unfolding batch_ok_def count by fastforce
    next
      case False
      then show ?thesis using b unfolding batch_ok_def count by simp
    qed
  qed
  ultimately have "jobs_ok ?h" using ok i t by (auto simp: jobs_ok_def logged_def)
  then show ?thesis using i lack rest by (auto simp: room_def roomIn_def frame_def taskCount_def t)
qed

lemma room_quiet: "quietIn h' = quietIn h \<Longrightarrow> room i a k h' = room i a k h"
  using jobs_ok_quiet unfolding room_def by metis

lemma insertTask_room: "triple (room i (Suc k) k) (insertTask now i tid t) (\<lambda>_. room i k k) (room i k k)"
  unfolding insertTask_def Let_def
proof (rule triple_stmt_if)
  fix h
  assume r: "room i (Suc k) k h"
  then show "room i k k h" by (rule room_less) simp_all
  let ?h = "h\<lparr>hq_tasks := Suc (hq_tasks h)\<rparr>"
  have r': "room i (Suc k) k ?h" using r by (subst room_quiet[of _ h]) (simp_all add: quietIn_def)
  show "room i k k ?h" using r' by (rule room_less) simp_all
  let ?t = "\<lparr>jk_ID = hq_tasks h, jk_JobID = i, jk_TaskID = tid, jk_Target = t, jk_StartedAt = now, jk_FinishedAt = None,
           jk_ExitCode = 0, jk_Err = [], jk_ErrorCount = 0, jk_WarningCount = 0\<rparr>"
  have "room i k k (?h\<lparr>hk_tasks := hk_tasks ?h @ [?t]\<rparr>)" by (rule jobs_ok_add[OF r']) (simp_all add: unfinished_def)
  then show "room i k k (h\<lparr>hq_tasks := Suc (hq_tasks h), hk_tasks := hk_tasks (h\<lparr>hq_tasks := Suc (hq_tasks h)\<rparr>) @ [?t]\<rparr>)"
    "room i k k (h\<lparr>hq_tasks := Suc (hq_tasks h), hk_tasks := hk_tasks (h\<lparr>hq_tasks := Suc (hq_tasks h)\<rparr>) @ [?t]\<rparr>)" by simp_all
qed

lemma create_room: "triple (room i (Suc k) k) (createAndDispatchTask env now i tid t) (\<lambda>_. room i k k) (room i k k)"
proof -
  have house: "steady (memory (\<lambda>h. (Inr 1, h\<lparr>hm_house := hm_house h @ [x]\<rparr>)))" for x :: "string \<times> nat"
    by (rule steady_memory) (simp add: quietIn_def)
  have send: "steady (dbind (dispatchSingle env tid t) (\<lambda>(node, matched).
      if matched = 0 then dbind (finishJobTask now msg) (\<lambda>_. dret 0)
      else dbind (noteRunning t tid (\<lambda>cur. cur\<lparr>rj_Node := node\<rparr>)) (\<lambda>_. dret matched)))" for msg
    by (intro steady_bind steady_reservations) (auto intro!: steady_bind steady_finish steady_reservations steady_basic)
  have rest: "steady (case c of Inl e \<Rightarrow> dbind (clearRunning t tid) (\<lambda>_. dfail e)
     | Inr task \<Rightarrow>
         dbind (noteRunning t tid (\<lambda>cur. cur\<lparr>rj_JobTaskPK := jk_ID task\<rparr>)) (\<lambda>_.
         if t = HousekeepingTarget then memory (\<lambda>h. (Inr 1, h\<lparr>hm_house := hm_house h @ [(tid, jk_ID task)]\<rparr>))
         else dbind (dispatchSingle env tid t) (\<lambda>(node, matched).
           if matched = 0 then dbind (finishJobTask now msg) (\<lambda>_. dret 0)
           else dbind (noteRunning t tid (\<lambda>cur. cur\<lparr>rj_Node := node\<rparr>)) (\<lambda>_. dret matched))))" for c :: "go_error + JobTask" and msg
  proof (cases c)
    case (Inl e)
    then show ?thesis unfolding sum.case by (auto intro!: steady_bind steady_reservations steady_basic)
  next
    case (Inr task)
    have "steady (if t = HousekeepingTarget then memory (\<lambda>h. (Inr 1, h\<lparr>hm_house := hm_house h @ [(tid, jk_ID task)]\<rparr>))
         else dbind (dispatchSingle env tid t) (\<lambda>(node, matched).
           if matched = 0 then dbind (finishJobTask now msg) (\<lambda>_. dret 0)
           else dbind (noteRunning t tid (\<lambda>cur. cur\<lparr>rj_Node := node\<rparr>)) (\<lambda>_. dret matched)))"
      by (rule steady_if[OF house send])
    then show ?thesis unfolding Inr sum.case by (intro steady_bind steady_reservations)
  qed
  show ?thesis unfolding createAndDispatchTask_def by (rule triple_case[OF insertTask_room]; rule room_steady; rule rest)
qed

lemma startOneTask_room: "triple (room i (Suc k) k) (startOneTask env now i t) (\<lambda>_. room i k k) (room i k k)"
proof -
  have less: "room i k k h" if "room i (Suc k) k h" for h using that by (rule room_less) simp_all
  have conflict: "triple (room i (Suc k) k) (conflictTask env now i t e) (\<lambda>_. room i k k) (room i k k)" for e
    unfolding conflictTask_def
  proof (rule triple_case[where R = "\<lambda>_. room i k k" and F = "room i k k"])
    have "triple (room i (Suc k) k) (nextID env) (\<lambda>_. room i (Suc k) k) (room i k k)"
      by (rule triple_weaken[OF room_steady[OF steady_reservations(1), of i "Suc k" k]]) (auto intro: less)
    then show "triple (room i (Suc k) k) (dbind (nextID env) (\<lambda>tid. dbind (insertTask now i tid t) (\<lambda>_. dret tid))) (\<lambda>_. room i k k) (room i k k)"
      by (rule triple_bind) (auto intro!: triple_bind[OF insertTask_room] triple_ret)
  qed (auto intro!: room_steady steady_bind steady_resolve steady_basic)
  have start: "triple (room i (Suc k) k) (reserveTarget env t) (\<lambda>_. room i (Suc k) k) (room i (Suc k) k)"
    by (rule room_steady[OF steady_reservations(2)])
  show ?thesis unfolding startOneTask_def
  proof (rule triple_case[OF start])
    fix tid
    show "triple (room i (Suc k) k) (case Inr tid of Inl reserveErr \<Rightarrow> conflictTask env now i t reserveErr
       | Inr taskID \<Rightarrow> dcase (createAndDispatchTask env now i taskID t) (\<lambda>m. case m of
           Inl e \<Rightarrow> dret (taskID, 0, Some e) | Inr matched \<Rightarrow> dret (taskID, matched, None))) (\<lambda>_. room i k k) (room i k k)"
      unfolding sum.case by (rule triple_case[OF create_room]) (auto intro: triple_ret)
  qed (simp add: conflict)
qed

lemma batch_in:
  assumes "distinct (map fst bs)" "b \<in> set (AList.update i v bs)"
  shows "b = (i, v) \<or> b \<in> set bs \<and> fst b \<noteq> i"
proof -
  have "map_of (AList.update i v bs) (fst b) = Some (snd b)"
    by (rule map_of_is_SomeI) (use assms in \<open>simp_all add: distinct_update\<close>)
  then show ?thesis unfolding update_conv' by (cases "fst b = i") (auto dest: map_of_SomeD)
qed

lemma setBatch_room:
  assumes "length rest \<le> a"
  shows "triple (room i a k) (setBatch i tid rest) (\<lambda>_. room i a (length rest)) E"
  unfolding setBatch_def
proof (rule triple_memory, simp)
  fix h
  assume r: "room i a k h"
  let ?h = "h\<lparr>hm_batches := AList.update i (tid, rest) (hm_batches h)\<rparr>"
  have ok: "jobs_ok h" and i: "i < hq_jobs h" and lack: "\<And>j. j \<in> set (hj_jobs h) \<Longrightarrow> jb_ID j = i \<Longrightarrow> taskCount i h + a \<le> jb_ExpectedTasks j"
    using r by (auto simp: room_def roomIn_def frame_def taskCount_def)
  have d: "distinct (map fst (hm_batches h))" using ok by (simp add: jobs_ok_def)
  have job: "job_ok ?h j = job_ok h j" for j by (simp add: job_ok_def taskCount_def logged_def)
  have "batch_ok ?h b" if "b \<in> set (AList.update i (tid, rest) (hm_batches h))" for b
    using batch_in[OF d that]
  proof
    assume "b = (i, tid, rest)"
    then show ?thesis using i lack assms by (fastforce simp: batch_ok_def taskCount_def)
  next
    assume "b \<in> set (hm_batches h) \<and> fst b \<noteq> i"
    then show ?thesis using ok by (simp add: jobs_ok_def batch_ok_def taskCount_def)
  qed
  then have "jobs_ok ?h" using ok d unfolding jobs_ok_def job by (simp add: distinct_update logged_def)
  moreover have "length (snd (snd b)) \<le> length rest" if "b \<in> set (AList.update i (tid, rest) (hm_batches h))" "fst b = i" for b
    using batch_in[OF d that(1)] that(2) by auto
  ultimately show "room i a (length rest) ?h" using i lack by (auto simp: room_def roomIn_def frame_def taskCount_def)
qed

lemma insertJob_room:
  "triple jobs_ok (insertJob now ty by n) (\<lambda>job h. room (jb_ID job) n 0 h \<and> jb_ID job \<notin> logged h \<and> taskCount (jb_ID job) h = 0 \<and>
     (\<forall>j \<in> set (hj_jobs h). jb_ID j = jb_ID job \<longrightarrow> jb_ExpectedTasks j = n)) jobs_ok"
  unfolding insertJob_def Let_def
proof (rule triple_stmt_total)
  fix h
  assume ok: "jobs_ok h"
  let ?j = "\<lparr>jb_ID = hq_jobs h, jb_Type = ty, jb_TriggeredBy = by, jb_StartedAt = now, jb_FinishedAt = None, jb_ExpectedTasks = n\<rparr>"
  let ?h = "h\<lparr>hj_jobs := hj_jobs h @ [?j], hq_jobs := Suc (hq_jobs h)\<rparr>"
  have count: "taskCount i ?h = taskCount i h" for i by (simp add: taskCount_def)
  have none: "taskCount (hq_jobs h) h = 0" using ok by (auto simp: taskCount_def count_list_0_iff jobs_ok_def)
  have old: "jb_ID j < hq_jobs h" if "j \<in> set (hj_jobs h)" for j using ok that by (auto simp: jobs_ok_def job_ok_def)
  have log: "hq_jobs h \<notin> logged h" using ok by (auto simp: jobs_ok_def)
  have "job_ok ?h j" if "j \<in> set (hj_jobs h)" for j
  proof -
    have "job_ok h j" using ok that by (simp add: jobs_ok_def)
    then show ?thesis unfolding job_ok_def count by (simp add: logged_def)
  qed
  moreover have "job_ok ?h ?j" unfolding job_ok_def count using none log by (simp add: logged_def)
  moreover have "batch_ok ?h b" if "b \<in> set (hm_batches h)" for b
  proof -
    have "batch_ok h b" using ok that by (simp add: jobs_ok_def)
    then show ?thesis unfolding batch_ok_def count by auto
  qed
  ultimately show ok': "jobs_ok ?h" using ok old unfolding jobs_ok_def by (fastforce simp: logged_def)
  have "fst b < hq_jobs h" if "b \<in> set (hm_batches h)" for b using ok that by (auto simp: jobs_ok_def batch_ok_def)
  then have "room (hq_jobs h) n 0 ?h" using ok' none old by (fastforce simp: room_def roomIn_def frame_def taskCount_def)
  then show "room (jb_ID ?j) n 0 ?h \<and> jb_ID ?j \<notin> logged ?h \<and> taskCount (jb_ID ?j) ?h = 0 \<and>
     (\<forall>j \<in> set (hj_jobs ?h). jb_ID j = jb_ID ?j \<longrightarrow> jb_ExpectedTasks j = n)"
    using none log unfolding count by (auto simp: logged_def dest: old)
qed

lemma room_jobs: "room i a k h \<Longrightarrow> jobs_ok h"
  by (simp add: room_def)

lemma startSingle_jobs: "jbs.keeps (startSingle env now ty by target)"
proof -
  have reserve: "triple jobs_ok (reserveTarget env target) (\<lambda>_. jobs_ok) jobs_ok"
    using steady_reservations(2) unfolding steady_def jbs.keeps_def by blast
  have clear: "jbs.keeps (dbind (clearRunning target tid) (\<lambda>_. dfail e))" for tid and e :: go_error
    using steady_reservations(3) unfolding steady_def by (intro jbs.keeps_bind jbs.keeps_fail) blast
  show ?thesis unfolding startSingle_def jbs.keeps_def
  proof (rule triple_bind[OF reserve], rule triple_case[OF insertJob_room])
    fix tid job
    have "triple (room (jb_ID job) 1 0) (createAndDispatchTask env now (jb_ID job) tid target) (\<lambda>_. jobs_ok) jobs_ok"
      using create_room[of "jb_ID job" 0 env now tid target] by (rule triple_weaken) (auto dest: room_jobs)
    then have "triple (room (jb_ID job) 1 0) (dbind (createAndDispatchTask env now (jb_ID job) tid target) (\<lambda>matched.
        dret (job, [\<lparr>tr_Target = target, tr_TaskID = tid, tr_Matched = matched, tr_Err = None\<rparr>]))) (\<lambda>_. jobs_ok) jobs_ok"
      by (rule triple_bind) (rule triple_ret)
    then show "triple (\<lambda>h. room (jb_ID job) 1 0 h \<and> jb_ID job \<notin> logged h \<and> taskCount (jb_ID job) h = 0 \<and>
        (\<forall>j \<in> set (hj_jobs h). jb_ID j = jb_ID job \<longrightarrow> jb_ExpectedTasks j = 1)) (case Inr job of Inl e \<Rightarrow> dbind (clearRunning target tid) (\<lambda>_. dfail e)
      | Inr job \<Rightarrow> dbind (createAndDispatchTask env now (jb_ID job) tid target) (\<lambda>matched.
          dret (job, [\<lparr>tr_Target = target, tr_TaskID = tid, tr_Matched = matched, tr_Err = None\<rparr>]))) (\<lambda>_. jobs_ok) jobs_ok"
      unfolding sum.case by (rule triple_weaken) auto
  qed (use clear in \<open>simp add: jbs.keeps_def\<close>)
qed

definition empty_job :: "nat \<Rightarrow> job_hub \<Rightarrow> bool" where
  "empty_job i h \<longleftrightarrow> jobs_ok h \<and> i \<notin> logged h \<and> i < hq_jobs h \<and> taskCount i h = 0 \<and> (\<forall>j \<in> set (hj_jobs h). jb_ID j = i \<longrightarrow> jb_ExpectedTasks j = 0)"

lemma empty_job_finish:
  "triple (empty_job i) (dropErr (updateJobs (\<lambda>j. jb_ID j = i) (\<lambda>j. j\<lparr>jb_FinishedAt := Some now\<rparr>))) (\<lambda>_. empty_job i) jobs_ok"
proof -
  have "empty_job i (h\<lparr>hj_jobs := map (\<lambda>j. if jb_ID j = i then j\<lparr>jb_FinishedAt := Some now\<rparr> else j) (hj_jobs h)\<rparr>)" (is "empty_job i ?h") if "empty_job i h" for h
  proof -
    have e: "jobs_ok h" "taskCount i h = 0" "\<And>j. j \<in> set (hj_jobs h) \<Longrightarrow> jb_ID j = i \<Longrightarrow> jb_ExpectedTasks j = 0" using that by (auto simp: empty_job_def)
    have ok: "jobs_ok ?h" by (rule jobs_ok_finish[OF e(1)]) (use e(2,3) in \<open>auto simp: taskCount_def count_list_0_iff\<close>)
    have same: "taskCount i ?h = taskCount i h" "logged ?h = logged h" "hq_jobs ?h = hq_jobs h" by (simp_all add: taskCount_def logged_def)
    have none: "\<forall>j \<in> set (hj_jobs ?h). jb_ID j = i \<longrightarrow> jb_ExpectedTasks j = 0"
    proof (intro ballI impI)
      fix j assume j: "j \<in> set (hj_jobs ?h)" "jb_ID j = i"
      then have "j \<in> set (map (\<lambda>j. if jb_ID j = i then j\<lparr>jb_FinishedAt := Some now\<rparr> else j) (hj_jobs h))" by simp
      then obtain j' where "j' \<in> set (hj_jobs h)" "jb_ID j' = jb_ID j" "jb_ExpectedTasks j' = jb_ExpectedTasks j" by (rule finished_row)
      then show "jb_ExpectedTasks j = 0" using e(3)[of j'] j(2) by simp
    qed
    have "i \<notin> logged h" "i < hq_jobs h" using that by (simp_all add: empty_job_def)
    then show ?thesis unfolding empty_job_def same using ok e(2) none by blast
  qed
  then have "triple (empty_job i) (updateJobs (\<lambda>j. jb_ID j = i) (\<lambda>j. j\<lparr>jb_FinishedAt := Some now\<rparr>)) (\<lambda>_. empty_job i) (empty_job i)"
    unfolding updateJobs_def by (intro triple_stmt_total)
  then show ?thesis unfolding dropErr_def by (rule triple_case) (auto intro: triple_ret)
qed

lemma StartJob_jobs: "jbs.keeps (StartJob env now ty by targets)"
proof (cases "length targets = 1")
  case True
  then show ?thesis unfolding StartJob_def by (simp add: startSingle_jobs)
next
  case False
  show ?thesis unfolding StartJob_def if_not_P[OF False] jbs.keeps_def
  proof (rule triple_bind[OF insertJob_room])
    fix job :: Job
    let ?P = "\<lambda>h. room (jb_ID job) (length targets) 0 h \<and> jb_ID job \<notin> logged h \<and> taskCount (jb_ID job) h = 0 \<and>
      (\<forall>j \<in> set (hj_jobs h). jb_ID j = jb_ID job \<longrightarrow> jb_ExpectedTasks j = length targets)"
    show "triple ?P (case targets of
          [] \<Rightarrow> dbind (dropErr (updateJobs (\<lambda>j. jb_ID j = jb_ID job) (\<lambda>j. j\<lparr>jb_FinishedAt := Some now\<rparr>))) (\<lambda>_.
                 dbind (logJobFinished job now) (\<lambda>_. dret (job, [])))
        | target # rest \<Rightarrow> dbind (startOneTask env now (jb_ID job) target) (\<lambda>(taskID, matched, taskErr).
            dbind (if rest \<noteq> [] then setBatch (jb_ID job) taskID rest else dret ()) (\<lambda>_.
            dret (job, [\<lparr>tr_Target = target, tr_TaskID = taskID, tr_Matched = matched, tr_Err = taskErr\<rparr>])))) (\<lambda>_. jobs_ok) jobs_ok"
    proof (cases targets)
      case Nil
      have log: "triple (empty_job (jb_ID job)) (dbind (logJobFinished job now) (\<lambda>_. dret (job, []))) (\<lambda>_. jobs_ok) jobs_ok"
        by (rule triple_bind[OF triple_weaken[OF log_triple, where Q' = "\<lambda>_. jobs_ok"]]) (auto simp: empty_job_def reportable_def intro: triple_ret)
      have "triple (empty_job (jb_ID job)) (dbind (dropErr (updateJobs (\<lambda>j. jb_ID j = jb_ID job) (\<lambda>j. j\<lparr>jb_FinishedAt := Some now\<rparr>))) (\<lambda>_.
          dbind (logJobFinished job now) (\<lambda>_. dret (job, [])))) (\<lambda>_. jobs_ok) jobs_ok"
        by (rule triple_bind[OF empty_job_finish log])
      then show ?thesis unfolding Nil list.case
        by (rule triple_weaken) (auto simp: empty_job_def room_def roomIn_def frame_def)
    next
      case (Cons target rest)
      let ?k = "length rest"
      have batch: "triple (room (jb_ID job) ?k ?k) (if rest \<noteq> [] then setBatch (jb_ID job) tid rest else dret ()) (\<lambda>_. jobs_ok) jobs_ok" for tid
        by (cases "rest \<noteq> []") (auto intro!: triple_weaken[OF setBatch_room] triple_ret dest: room_jobs)
      have "triple (room (jb_ID job) (Suc ?k) ?k) (dbind (startOneTask env now (jb_ID job) target) (\<lambda>(taskID, matched, taskErr).
            dbind (if rest \<noteq> [] then setBatch (jb_ID job) taskID rest else dret ()) (\<lambda>_.
            dret (job, [\<lparr>tr_Target = target, tr_TaskID = taskID, tr_Matched = matched, tr_Err = taskErr\<rparr>])))) (\<lambda>_. jobs_ok) jobs_ok"
        by (rule triple_bind[OF triple_weaken[OF startOneTask_room, where Q' = "\<lambda>_. room (jb_ID job) ?k ?k"]])
          (auto intro!: triple_bind[OF batch] triple_ret dest: room_jobs)
      then show ?thesis unfolding Cons list.case
        by (rule triple_weaken) (auto intro: room_less)
    qed
  qed
qed

lemma steady_wait: "steady (waitForTaskFinished t)"
  unfolding waitForTaskFinished_def by (auto intro!: steady_basic steady_case[OF steady_basic(6)] split: sum.splits)

lemma jobs_ok_batches:
  assumes "jobs_ok h" "set bs \<subseteq> set (hm_batches h)" "distinct (map fst bs)"
  shows "jobs_ok (h\<lparr>hm_batches := bs\<rparr>)"
  using assms unfolding jobs_ok_def by (auto simp: job_ok_def batch_ok_def taskCount_def logged_def)

lemma batch_jobs: "jbs.keeps (dispatchRemainingSequentially env now i)"
  unfolding dispatchRemainingSequentially_def jbs.keeps_def
proof (rule triple_bind[OF triple_memory[where Q = "\<lambda>b h. jobs_ok h \<and> b = map_of (hm_batches h) i"]])
  fix b :: "(string \<times> string list) option"
  have stop: "jbs.keeps (memory (\<lambda>h. (Inr (), h\<lparr>hm_batches := AList.delete i (hm_batches h)\<rparr>)))"
    unfolding jbs.keeps_def
  proof (rule triple_memory, simp)
    fix h assume ok: "jobs_ok h"
    have "set (AList.delete i (hm_batches h)) \<subseteq> set (hm_batches h)" by (auto simp: AList.delete_eq)
    moreover have "distinct (map fst (AList.delete i (hm_batches h)))" using ok by (simp add: jobs_ok_def distinct_delete)
    ultimately show "jobs_ok (h\<lparr>hm_batches := AList.delete i (hm_batches h)\<rparr>)" by (rule jobs_ok_batches[OF ok])
  qed
  have go: "triple (room i (Suc (length rest)) (Suc (length rest))) (dbind (setBatch i tid rest) (\<lambda>_.
      dbind (startOneTask env now i target) (\<lambda>(tid', _). setBatch i tid' rest))) (\<lambda>_. jobs_ok) jobs_ok" for tid rest target
  proof (rule triple_bind[OF setBatch_room])
    have last: "triple (room i (length rest) (length rest)) (setBatch i tid' rest) (\<lambda>_. jobs_ok) jobs_ok" for tid'
      by (rule triple_weaken[OF setBatch_room]) (auto dest: room_jobs)
    show "triple (room i (Suc (length rest)) (length rest)) (dbind (startOneTask env now i target) (\<lambda>(tid', _). setBatch i tid' rest)) (\<lambda>_. jobs_ok) jobs_ok"
      by (rule triple_bind[OF triple_weaken[OF startOneTask_room, where Q' = "\<lambda>_. room i (length rest) (length rest)"]])
        (auto intro: last dest: room_jobs)
  qed simp
  show "triple (\<lambda>h. jobs_ok h \<and> b = map_of (hm_batches h) i) (case b of None \<Rightarrow> dret ()
     | Some (tid, targets) \<Rightarrow> dbind (waitForTaskFinished tid) (\<lambda>fin.
         if \<not> fin then dret ()
         else case targets of
           [] \<Rightarrow> memory (\<lambda>h. (Inr (), h\<lparr>hm_batches := AList.delete i (hm_batches h)\<rparr>))
         | target # rest \<Rightarrow> dbind (setBatch i tid rest) (\<lambda>_.
             dbind (startOneTask env now i target) (\<lambda>(tid', _). setBatch i tid' rest)))) (\<lambda>_. jobs_ok) jobs_ok"
  proof (cases b)
    case (Some p)
    obtain tid targets where p: "p = (tid, targets)" by (cases p)
    let ?n = "length targets"
    have room: "room i ?n ?n h" if h: "jobs_ok h \<and> b = map_of (hm_batches h) i" for h
    proof -
      have "map_of (hm_batches h) i = Some (tid, targets)" using h Some p by simp
      then have mem: "(i, tid, targets) \<in> set (hm_batches h)" by (rule map_of_SomeD)
      have d: "distinct (map fst (hm_batches h))" using h by (simp add: jobs_ok_def)
      have only: "x = (i, tid, targets)" if "x \<in> set (hm_batches h)" "fst x = i" for x
        using map_of_is_SomeI[OF d, of i "snd x"] map_of_is_SomeI[OF d mem] that by (cases x) auto
      have "batch_ok h (i, tid, targets)" using h mem by (simp add: jobs_ok_def)
      then show ?thesis using h only by (auto simp: room_def roomIn_def frame_def batch_ok_def taskCount_def)
    qed
    have step: "triple (room i ?n ?n) (if \<not> fin then dret () else case targets of
           [] \<Rightarrow> memory (\<lambda>h. (Inr (), h\<lparr>hm_batches := AList.delete i (hm_batches h)\<rparr>))
         | target # rest \<Rightarrow> dbind (setBatch i tid rest) (\<lambda>_.
             dbind (startOneTask env now i target) (\<lambda>(tid', _). setBatch i tid' rest))) (\<lambda>_. jobs_ok) jobs_ok" for fin
      by (cases targets; cases fin)
        (simp_all add: go triple_ret room_jobs triple_weaken[OF stop[unfolded jbs.keeps_def] room_jobs])
    have "triple (room i ?n ?n) (dbind (waitForTaskFinished tid) (\<lambda>fin. if \<not> fin then dret () else case targets of
           [] \<Rightarrow> memory (\<lambda>h. (Inr (), h\<lparr>hm_batches := AList.delete i (hm_batches h)\<rparr>))
         | target # rest \<Rightarrow> dbind (setBatch i tid rest) (\<lambda>_.
             dbind (startOneTask env now i target) (\<lambda>(tid', _). setBatch i tid' rest)))) (\<lambda>_. jobs_ok) jobs_ok"
      by (rule triple_bind[OF triple_weaken[OF room_steady[OF steady_wait], where Q' = "\<lambda>_. room i ?n ?n"] step]) (auto dest: room_jobs)
    then show ?thesis unfolding Some p option.case prod.case
      by (rule triple_weaken) (use room Some p in auto)
  qed (auto intro: triple_ret)
qed simp

subsection \<open>Trimming the history\<close>

text \<open>The jobs that are no longer kept: of the finished ones that are not protected all but the newest.\<close>

definition expired :: "int \<Rightarrow> nat list \<Rightarrow> job_hub \<Rightarrow> nat list" where
  "expired keep protect h = map jb_ID (drop (nat keep)
     (filter (\<lambda>j. jb_ID j \<notin> set protect) (order_by (\<lambda>a b. jb_ID b < jb_ID a) (filter (\<lambda>j. jb_FinishedAt j \<noteq> None) (hj_jobs h)))))"

definition trimmed :: "nat list \<Rightarrow> job_hub \<Rightarrow> job_hub" where
  "trimmed ids h = h\<lparr>
     hj_jobs := filter (\<lambda>j. jb_ID j \<notin> set ids) (hj_jobs h),
     hk_tasks := filter (\<lambda>t. jk_JobID t \<notin> set ids) (hk_tasks h),
     he_events := filter (\<lambda>e. case je_JobTaskID e of None \<Rightarrow> False
        | Some pk \<Rightarrow> \<not> list_ex (\<lambda>t. jk_ID t = pk \<and> jk_JobID t \<in> set ids) (hk_tasks h)) (he_events h)\<rparr>"

lemma trimIDs_drop: "kept \<le> keep \<Longrightarrow> trimIDs keep protect kept js = map jb_ID (drop (nat (keep - kept)) (filter (\<lambda>j. jb_ID j \<notin> set protect) js))"
proof (induction js arbitrary: kept)
  case (Cons j js)
  show ?case
  proof (cases "jb_ID j \<in> set protect \<or> keep \<le> kept")
    case True
    then show ?thesis using Cons.prems Cons.IH[OF Cons.prems] by auto
  next
    case False
    then have "nat (keep - kept) = Suc (nat (keep - (kept + 1)))" by arith
    then show ?thesis using False Cons.IH[of "kept + 1"] by simp
  qed
qed simp

lemma delete_triples:
  "triple (\<lambda>h. h = g) (deleteEvents P) (\<lambda>n h. n = length (filter P (he_events g)) \<and> h = g\<lparr>he_events := filter (\<lambda>e. \<not> P e) (he_events g)\<rparr>) (\<lambda>_. True)"
  "triple (\<lambda>h. h = g) (deleteTasks Q) (\<lambda>n h. n = length (filter Q (hk_tasks g)) \<and> h = g\<lparr>hk_tasks := filter (\<lambda>t. \<not> Q t) (hk_tasks g)\<rparr>) (\<lambda>_. True)"
  "triple (\<lambda>h. h = g) (deleteJobs R) (\<lambda>n h. n = length (filter R (hj_jobs g)) \<and> h = g\<lparr>hj_jobs := filter (\<lambda>j. \<not> R j) (hj_jobs g)\<rparr>) (\<lambda>_. True)"
  unfolding deleteEvents_def deleteTasks_def deleteJobs_def by (rule triple_stmt_total; simp)+

lemma triple_eqI: "(\<And>a. Q a = (\<lambda>h. c a \<and> h = g a)) \<Longrightarrow> (\<And>a. c a \<Longrightarrow> triple (\<lambda>h. h = g a) (f a) R E) \<Longrightarrow> triple P m Q E \<Longrightarrow> triple P (dbind m f) R E"
  by (rule triple_bind, assumption) (auto simp: triple_def)

definition eventsOf :: "nat list \<Rightarrow> job_hub \<Rightarrow> JobTaskEvent list" where
  "eventsOf ids h = filter (\<lambda>e. \<not> (\<exists>i \<in> jk_ID ` {t \<in> set (hk_tasks h). jk_JobID t \<in> set ids}. je_JobTaskID e = Some i)) (he_events h)"

lemma trimRows_exact:
  "triple (\<lambda>h. h = g) (trimRows ids n) (\<lambda>r h. h = g\<lparr>hj_jobs := filter (\<lambda>j. jb_ID j \<notin> set ids) (hj_jobs g),
      hk_tasks := filter (\<lambda>t. jk_JobID t \<notin> set ids) (hk_tasks g), he_events := eventsOf ids g\<rparr> \<and>
    tm_JobsDeleted r = length (filter (\<lambda>j. jb_ID j \<in> set ids) (hj_jobs g)) \<and> tm_TasksDeleted r = length (filter (\<lambda>t. jk_JobID t \<in> set ids) (hk_tasks g)) \<and>
    tm_EventsDeleted r + length (eventsOf ids g) = n + length (he_events g)) (\<lambda>_. True)"
proof -
  let ?ids = "map jk_ID (filter (\<lambda>t. jk_JobID t \<in> set ids) (hk_tasks g))"
  let ?P = "\<lambda>e. \<exists>i \<in> set ?ids. je_JobTaskID e = Some i"
  let ?g1 = "g\<lparr>he_events := eventsOf ids g\<rparr>"
  have ev: "eventsOf ids g = filter (\<lambda>e. \<not> ?P e) (he_events g)" unfolding eventsOf_def by (rule filter_cong) auto
  have len: "length (filter ?P (he_events g)) + length (eventsOf ids g) = length (he_events g)" unfolding ev by (rule sum_length_filter_compl)
  have pluck: "triple (\<lambda>h. h = g) (query (\<lambda>h. map jk_ID (filter (\<lambda>t. jk_JobID t \<in> set ids) (hk_tasks h)))) (\<lambda>taskIDs h. taskIDs = ?ids \<and> h = g) (\<lambda>_. True)"
    by (rule triple_query) auto
  have events: "triple (\<lambda>h. h = g) (if ?ids \<noteq> [] then deleteEvents ?P else dret 0)
      (\<lambda>n h. n = length (filter ?P (he_events g)) \<and> h = ?g1) (\<lambda>_. True)"
  proof (cases "?ids = []")
    case True
    then show ?thesis using ev by (auto intro: triple_ret)
  next
    case False
    then show ?thesis using delete_triples(1)[of g ?P] unfolding ev by simp
  qed
  show ?thesis unfolding trimRows_def
  proof (rule triple_eqI[OF refl _ pluck])
    fix taskIDs
    assume ids: "taskIDs = ?ids"
    show "triple (\<lambda>h. h = g) (dbind (if taskIDs \<noteq> [] then deleteEvents (\<lambda>e. \<exists>i \<in> set taskIDs. je_JobTaskID e = Some i) else dret 0) (\<lambda>ne.
      dbind (deleteTasks (\<lambda>t. jk_JobID t \<in> set ids)) (\<lambda>nt. dbind (deleteJobs (\<lambda>j. jb_ID j \<in> set ids)) (\<lambda>nj.
      dret \<lparr>tm_JobsDeleted = nj, tm_TasksDeleted = nt, tm_EventsDeleted = n + ne\<rparr>))))
     (\<lambda>r h. h = g\<lparr>hj_jobs := filter (\<lambda>j. jb_ID j \<notin> set ids) (hj_jobs g),
        hk_tasks := filter (\<lambda>t. jk_JobID t \<notin> set ids) (hk_tasks g), he_events := eventsOf ids g\<rparr> \<and>
      tm_JobsDeleted r = length (filter (\<lambda>j. jb_ID j \<in> set ids) (hj_jobs g)) \<and> tm_TasksDeleted r = length (filter (\<lambda>t. jk_JobID t \<in> set ids) (hk_tasks g)) \<and>
      tm_EventsDeleted r + length (eventsOf ids g) = n + length (he_events g)) (\<lambda>_. True)"
      unfolding ids
    proof (rule triple_eqI[OF refl _ events], rule triple_eqI[OF refl _ delete_triples(2)], rule triple_eqI[OF refl _ delete_triples(3)], rule triple_ret)
    qed (use len in simp_all)
  qed
qed

lemma eventsOf_trimmed:
  "eventsOf ids (h\<lparr>he_events := filter (\<lambda>e. je_JobTaskID e \<noteq> None) (he_events h)\<rparr>) = he_events (trimmed ids h)"
  unfolding eventsOf_def trimmed_def by (auto simp: list_ex_iff intro!: filter_cong split: option.splits)

lemma trimTx_exact:
  assumes keep: "0 \<le> keep"
  shows "triple (\<lambda>h'. h' = h) (trimTx keep protect) (\<lambda>r h'. h' = trimmed (expired keep protect h) h \<and>
    tm_JobsDeleted r + length (hj_jobs h') = length (hj_jobs h) \<and> tm_TasksDeleted r + length (hk_tasks h') = length (hk_tasks h) \<and>
    tm_EventsDeleted r + length (he_events h') = length (he_events h)) (\<lambda>_. True)"
proof -
  let ?fin = "filter (\<lambda>j. jb_FinishedAt j \<noteq> None) (hj_jobs h)"
  let ?ids = "expired keep protect h"
  let ?g = "h\<lparr>he_events := filter (\<lambda>e. je_JobTaskID e \<noteq> None) (he_events h)\<rparr>"
  have ids: "trimIDs keep protect 0 (order_by (\<lambda>a b. jb_ID b < jb_ID a) ?fin) = ?ids"
    using trimIDs_drop[OF keep] by (simp add: expired_def)
  have find: "triple (\<lambda>h'. h' = h) (Find hj_jobs (\<lambda>j. jb_FinishedAt j \<noteq> None)) (\<lambda>rows h'. rows = ?fin \<and> h' = h) (\<lambda>_. True)"
    by (rule triple_weaken[OF triple_Find]) auto
  have len: "length (filter P xs) + length (filter (\<lambda>x. \<not> P x) xs) = length xs" for P and xs :: "'x list" by (rule sum_length_filter_compl)
  have rows: "g\<lparr>hj_jobs := filter (\<lambda>j. jb_ID j \<notin> set ids) (hj_jobs g), hk_tasks := filter (\<lambda>t. jk_JobID t \<notin> set ids) (hk_tasks g), he_events := eventsOf ids g\<rparr> = trimmed ids h"
    if "g = ?g" for ids g using that eventsOf_trimmed[of ids h] by (simp add: trimmed_def)
  have none: "?g = trimmed [] h" by (simp add: trimmed_def split: option.splits cong: filter_cong) (rule arg_cong[where f = "\<lambda>es. h\<lparr>he_events := es\<rparr>"], auto simp: list_ex_iff intro!: filter_cong split: option.splits)
  show ?thesis unfolding trimTx_def Let_def
  proof (rule triple_eqI[OF refl _ find])
    fix rows
    assume "rows = ?fin"
    then have del: "trimIDs keep protect 0 (order_by (\<lambda>a b. jb_ID b < jb_ID a) rows) = ?ids" using ids by simp
    show "triple (\<lambda>h'. h' = h) (dbind (deleteEvents (\<lambda>e. je_JobTaskID e = None)) (\<lambda>orphans.
        if trimIDs keep protect 0 (order_by (\<lambda>a b. jb_ID b < jb_ID a) rows) = [] then dret \<lparr>tm_JobsDeleted = 0, tm_TasksDeleted = 0, tm_EventsDeleted = orphans\<rparr>
        else trimRows (trimIDs keep protect 0 (order_by (\<lambda>a b. jb_ID b < jb_ID a) rows)) orphans))
      (\<lambda>r h'. h' = trimmed ?ids h \<and> tm_JobsDeleted r + length (hj_jobs h') = length (hj_jobs h) \<and>
        tm_TasksDeleted r + length (hk_tasks h') = length (hk_tasks h) \<and> tm_EventsDeleted r + length (he_events h') = length (he_events h)) (\<lambda>_. True)"
      unfolding del
    proof (rule triple_eqI[OF refl _ delete_triples(1)])
      fix n
      assume n: "n = length (filter (\<lambda>e. je_JobTaskID e = None) (he_events h))"
      then have orphans: "n + length (he_events ?g) = length (he_events h)" using len[of "\<lambda>e. je_JobTaskID e = None" "he_events h"] by simp
      show "triple (\<lambda>h'. h' = ?g) (if ?ids = [] then dret \<lparr>tm_JobsDeleted = 0, tm_TasksDeleted = 0, tm_EventsDeleted = n\<rparr> else trimRows ?ids n)
       (\<lambda>r h'. h' = trimmed ?ids h \<and> tm_JobsDeleted r + length (hj_jobs h') = length (hj_jobs h) \<and>
        tm_TasksDeleted r + length (hk_tasks h') = length (hk_tasks h) \<and> tm_EventsDeleted r + length (he_events h') = length (he_events h)) (\<lambda>_. True)"
      proof (cases "?ids = []")
        case True
        show ?thesis unfolding if_P[OF True] by (rule triple_ret) (use orphans in \<open>simp add: True none[symmetric]\<close>)
      next
        case False
        have t: "length (filter (\<lambda>j. jb_ID j \<in> set ?ids) (hj_jobs h)) + length (hj_jobs (trimmed ?ids h)) = length (hj_jobs h)"
          "length (filter (\<lambda>t. jk_JobID t \<in> set ?ids) (hk_tasks h)) + length (hk_tasks (trimmed ?ids h)) = length (hk_tasks h)"
          unfolding trimmed_def by (simp_all add: sum_length_filter_compl)
        show ?thesis unfolding if_not_P[OF False]
          by (rule triple_weaken[OF trimRows_exact]) (use orphans rows[OF refl, of ?ids] eventsOf_trimmed[of ?ids h] t in \<open>auto simp: sum_length_filter_compl\<close>)
      qed
    qed
  qed
qed

definition trimCounts :: "job_hub \<Rightarrow> job_hub \<Rightarrow> TrimResult \<Rightarrow> bool" where
  "trimCounts h h' r \<longleftrightarrow> tm_JobsDeleted r + length (hj_jobs h') = length (hj_jobs h) \<and> tm_TasksDeleted r + length (hk_tasks h') = length (hk_tasks h) \<and>
     tm_EventsDeleted r + length (he_events h') = length (he_events h)"

lemma Trim_triple:
  fixes keep :: int and protect
  defines "ids h \<equiv> expired (EffectiveKeep keep) (filter (\<lambda>i. i \<noteq> 0) protect) h"
  shows "triple (\<lambda>h'. h' = h) (Trim keep protect) (\<lambda>r h'. h' = trimmed (ids h) h \<and> trimCounts h h' r) (\<lambda>h'. h' = h \<or> h' = trimmed (ids h) h)"
proof -
  have "0 \<le> EffectiveKeep keep" by (simp add: EffectiveKeep_def DefaultKeep_def)
  note tx = trimTx_exact[OF this, of h "filter (\<lambda>i. i \<noteq> 0) protect", folded ids_def trimCounts_def]
  show ?thesis unfolding Trim_def by (rule triple_transaction[OF tx]) auto
qed

text \<open>
  C14: Trimming the job history deletes exactly the finished jobs that are not protected, except the newest ones up to
  the number to keep, with their tasks and the events of those tasks, and the events without a task; an unfinished job
  is never deleted. The counts returned are those of the rows gone. Whichever database statements fail, either all of
  this happens or nothing.
\<close>

theorem Trim_exact:
  "case Trim keep protect (h, evs) of (res, h', _) \<Rightarrow>
     let gone = expired (EffectiveKeep keep) (filter (\<lambda>i. i \<noteq> 0) protect) h in
     (case res of Inr r \<Rightarrow> h' = trimmed gone h \<and> trimCounts h h' r | Inl _ \<Rightarrow> h' = h \<or> h' = trimmed gone h) \<and>
     list_all (\<lambda>i. list_ex (\<lambda>j. jb_ID j = i \<and> jb_FinishedAt j \<noteq> None) (hj_jobs h)) gone"
proof -
  let ?gone = "expired (EffectiveKeep keep) (filter (\<lambda>i. i \<noteq> 0) protect) h"
  obtain res h' evs' where run: "Trim keep protect (h, evs) = (res, h', evs')" by (cases "Trim keep protect (h, evs)") auto
  have "case res of Inr r \<Rightarrow> h' = trimmed ?gone h \<and> trimCounts h h' r | Inl _ \<Rightarrow> h' = h \<or> h' = trimmed ?gone h"
    using tripleD[OF Trim_triple[of h keep protect], of "(h, evs)"] unfolding run outcome_def fst_conv snd_conv by (cases res) auto
  moreover have "list_ex (\<lambda>j. jb_ID j = i \<and> jb_FinishedAt j \<noteq> None) (hj_jobs h)" if "i \<in> set ?gone" for i
    using that by (auto simp: expired_def list_ex_iff dest!: in_set_dropD)
  ultimately show ?thesis unfolding run prod.case Let_def list_all_iff by blast
qed

lemma jobs_ok_trimmed:
  assumes ok: "jobs_ok h"
  shows "jobs_ok (trimmed ids h)"
proof -
  have count: "taskCount i (trimmed ids h) = (if i \<in> set ids then 0 else taskCount i h)" for i
  proof -
    have "count_list (map jk_JobID (filter (\<lambda>t. jk_JobID t \<notin> set ids) ts)) i = (if i \<in> set ids then 0 else count_list (map jk_JobID ts) i)" for ts
      by (induction ts) auto
    note this[of "hk_tasks h"]
    then show ?thesis unfolding taskCount_def trimmed_def by simp
  qed
  have "job_ok (trimmed ids h) j" if "j \<in> set (hj_jobs h)" "jb_ID j \<notin> set ids" for j
  proof -
    have "job_ok h j" using ok that(1) by (simp add: jobs_ok_def)
    then show ?thesis using that(2) unfolding job_ok_def count by (simp add: trimmed_def logged_def)
  qed
  moreover have "batch_ok (trimmed ids h) b" if "b \<in> set (hm_batches h)" for b
  proof -
    have "batch_ok h b" using ok that by (simp add: jobs_ok_def)
    then show ?thesis unfolding batch_ok_def count by (auto simp: trimmed_def)
  qed
  moreover have "distinct (map jb_ID (filter (\<lambda>j. jb_ID j \<notin> set ids) (hj_jobs h)))" using ok by (simp add: jobs_ok_def distinct_map_filter)
  ultimately show ?thesis using ok unfolding jobs_ok_def by (simp add: trimmed_def logged_def)
qed

lemma Trim_jobs: "jbs.keeps (Trim keep protect)"
proof -
  have "jobs_ok (fst (snd (Trim keep protect s)))" if "jobs_ok (fst s)" for s
    using tripleD[OF Trim_triple[of "fst s" keep protect], of s] jobs_ok_trimmed[OF that] that by (auto simp: outcome_def split: sum.splits)
  then show ?thesis unfolding jbs.keeps_def triple_def outcome_def by (simp split: sum.splits)
qed

lemma steady_jobs: "steady m \<Longrightarrow> jbs.keeps m"
  by (simp add: steady_def)

lemma steady_count: "steady (countEvent pk l)"
  unfolding countEvent_def
  by (intro steady_if steady_drop steady_basic) (auto simp: steady_def unfinished_def intro!: updateTasks_jobs)

lemma steady_local: "steady (recordLocalJobEvent now pk i t l m)"
  unfolding recordLocalJobEvent_def by (intro steady_drop steady_bind steady_reservations steady_count)

lemma house_jobs: "jbs.keeps (houseNext now)"
proof -
  have log: "jbs.keeps (case t of Inl e \<Rightarrow> dbind (recordLocalJobEvent now pk i HousekeepingTarget ''error'' (errText e)) (\<lambda>_. dret (1, errText e))
      | Inr res \<Rightarrow> dbind (recordLocalJobEvent now pk i HousekeepingTarget ''info'' (f res)) (\<lambda>_. dret (0, [])))" for t :: "go_error + TrimResult" and f i pk
    by (auto intro!: jbs.keeps_bind steady_jobs[OF steady_local] jbs.keeps_ret split: sum.splits)
  have body: "jbs.keeps (housekeepingBody now i pk)" for i pk
    unfolding housekeepingBody_def Let_def
    by (rule jbs.keeps_case[OF jbs.keeps_reads(3)])
      (auto intro!: jbs.keeps_ret jbs.keeps_case[OF steady_jobs[OF steady_reservations(8)]] jbs.keeps_case[OF Trim_jobs] log split: sum.splits)
  have take: "jbs.keeps (memory (\<lambda>h. (Inr (hm_house h), h\<lparr>hm_house := tl (hm_house h)\<rparr>)))"
    by (rule steady_jobs, rule steady_memory) (simp add: quietIn_def)
  have "jbs.keeps (runHousekeeping now i pk)" for i pk
    unfolding runHousekeeping_def by (rule jbs.keeps_bind[OF body]) (auto intro!: steady_jobs[OF steady_finish])
  then show ?thesis unfolding houseNext_def by (auto intro!: jbs.keeps_bind take jbs.keeps_ret split: list.splits)
qed

lemma receive_jobs: "jbs.keeps (receiveLog now msg)" "jbs.keeps (receiveEvent now em)" "jbs.keeps (dropConn now node)"
proof -
  show "jbs.keeps (receiveLog now msg)" unfolding receiveLog_def
    by (rule steady_jobs) (auto intro!: steady_bind steady_memory steady_finish steady_basic simp: quietIn_def)
  show "jbs.keeps (receiveEvent now em)" unfolding receiveEvent_def
    by (rule steady_jobs) (auto intro!: steady_bind steady_memory steady_drop steady_reservations steady_count steady_basic split: option.splits)
  show "jbs.keeps (dropConn now node)" unfolding dropConn_def failRunningOnNode_def
    by (rule steady_jobs) (auto intro!: steady_bind steady_memory steady_for steady_resolve steady_basic simp: quietIn_def)
qed

lemma dropErr_jobs: "jbs.keeps m \<Longrightarrow> jbs.keeps (dropErr m)"
  unfolding dropErr_def by (rule jbs.keeps_case) (auto intro: jbs.keeps_ret)

lemma serveHub_jobs: "jbs.keeps (serveHub env r)"
  by (cases "(env, r)" rule: serveHub.cases)
    (simp_all add: dropErr_jobs StartJob_jobs batch_jobs steady_jobs[OF steady_reservations(7)] receive_jobs house_jobs)

text \<open>
  C13: Whatever jobs are started, answered, cut off and trimmed, and whichever database statements fail: a job that is
  marked finished has exactly as many tasks as it was started for, and each of them is finished; the end of a job is
  reported at most once.
\<close>

theorem finished_jobs_complete:
  assumes "jobs_ok h"
  shows "(case snd (dfor reqs (serveHub env) (h, evs)) of (h', _) \<Rightarrow>
    list_all (\<lambda>j. jb_FinishedAt j = None \<or> (length (filter (\<lambda>t. jk_JobID t = jb_ID j) (hk_tasks h')) = jb_ExpectedTasks j \<and>
      list_all (\<lambda>t. jk_JobID t \<noteq> jb_ID j \<or> jk_FinishedAt t \<noteq> None) (hk_tasks h'))) (hj_jobs h') \<and>
    distinct (map fl_JobID (hl_finished h')) \<and> jobs_ok h')"
proof -
  obtain r h' evs' where run: "dfor reqs (serveHub env) (h, evs) = (r, h', evs')" by (cases "dfor reqs (serveHub env) (h, evs)") auto
  have ok: "jobs_ok h'" using jbs.keepsD[OF jbs.keeps_for[where f = "serveHub env" and xs = reqs, OF serveHub_jobs], of "(h, evs)"] assms by (simp add: run)
  have "jb_FinishedAt j = None \<or> (length (filter (\<lambda>t. jk_JobID t = jb_ID j) (hk_tasks h')) = jb_ExpectedTasks j \<and>
      list_all (\<lambda>t. jk_JobID t \<noteq> jb_ID j \<or> jk_FinishedAt t \<noteq> None) (hk_tasks h'))" if "j \<in> set (hj_jobs h')" for j
  proof -
    have "job_ok h' j" using ok that by (simp add: jobs_ok_def)
    then show ?thesis unfolding length_taskCount list_all_iff job_ok_def unfinished_def by blast
  qed
  then show ?thesis using ok unfolding run list_all_iff by (simp add: jobs_ok_def)
qed

lemma batchRun_jobs:
  "map (\<lambda>j. (jb_ID j, jb_FinishedAt j)) (hj_jobs (fst (snd (dfor (batchRun @ batchEnd) (serveHub exampleEnv) (emptyHub, []))))) = [(1, Some 6)]"
  by code_simp

theorem finished_jobs_complete_witness:
  "jobs_ok emptyHub \<and> jobs_ok (fst (snd (dfor (batchRun @ batchEnd) (serveHub exampleEnv) (emptyHub, [])))) \<and>
   map (\<lambda>j. (jb_ID j, jb_FinishedAt j)) (hj_jobs (fst (snd (dfor (batchRun @ batchEnd) (serveHub exampleEnv) (emptyHub, []))))) = [(1, Some 6)]"
proof -
  have ok: "jobs_ok emptyHub" by (simp add: jobs_ok_def emptyHub_def logged_def)
  show ?thesis using ok finished_jobs_complete[OF ok, of "batchRun @ batchEnd" exampleEnv "[]"] batchRun_jobs by (auto split: prod.splits)
qed

text \<open>When the row of its task cannot be written, a job stays behind that nothing will ever finish.\<close>

lemma lost_task_row:
  "(case StartJob exampleEnv 2 ''sync'' ''u'' [''dns''] (emptyHub, [Runs, Lost ''timeout'']) of (res, h, _) \<Rightarrow>
     (res, map jb_FinishedAt (hj_jobs h), hk_tasks h, hm_running h)) = (Inl (DbErr ''timeout''), [None], [], [])"
  by code_simp

end
