(* ===== verification/Cfg_Scope.thy ===== *)
theory Cfg_Scope
  imports Go_Db Netip_Text
begin

text \<open>
  The tree of configuration scopes, \<open>internal/cfgmgmt/scope.go\<close>, \<open>resolve.go\<close> and \<open>resource.go\<close>: creating, editing
  and moving scopes, attaching devices and detaching them. A pointer field is an option. The regular expressions of
  the library are a parameter: what it says of a pattern it does not compile. Of the payload of a scope the free
  fields are left out, of a row the checksum of seeded objects, of devices, interfaces, assignments and features what
  these operations do not read. Columns with a default that the code leaves at their
  zero value get the default. The unique indexes of the table are those of the migrations; nothing there ties a
  parent to its children.

  Lemmas are in \<open>Cfg_Tree\<close> and \<open>Cfg_Moves\<close>.
\<close>

subsection \<open>Rows\<close>

definition ConfigScopeKindFolder :: string where "ConfigScopeKindFolder = ''folder''"
definition ConfigScopeKindRegion :: string where "ConfigScopeKindRegion = ''region''"
definition ConfigScopeKindSite :: string where "ConfigScopeKindSite = ''site''"
definition ConfigScopeKindLocation :: string where "ConfigScopeKindLocation = ''location''"
definition ConfigScopeKindDevice :: string where "ConfigScopeKindDevice = ''device''"
definition ConfigScopeKindInterface :: string where "ConfigScopeKindInterface = ''interface''"
definition ConfigScopeKindParameter :: string where "ConfigScopeKindParameter = ''parameter''"
definition ConfigScopeKindCLI :: string where "ConfigScopeKindCLI = ''cli''"
definition ConfigScopeKindService :: string where "ConfigScopeKindService = ''service''"
definition ConfigScopeKindServiceEndpoint :: string where "ConfigScopeKindServiceEndpoint = ''service_endpoint''"
definition ConfigScopeKindResource :: string where "ConfigScopeKindResource = ''resource''"
definition ConfigRootName :: string where "ConfigRootName = ''global''"
definition ConfigCatalogName :: string where "ConfigCatalogName = ''_catalog''"
definition ConfigServicesFolderName :: string where "ConfigServicesFolderName = ''_services''"
definition ConfigParametersChildName :: string where "ConfigParametersChildName = ''parameters''"

record CLIContext =
  cx_Pattern :: string
  cx_Enter :: string
  cx_Exit :: string
  cx_Captures :: "(string \<times> string) list"

record ConfigScopePayload =
  pl_Description :: string
  pl_Platforms :: "string list"
  pl_Context :: "CLIContext option"
  pl_Role :: string
  pl_CIDRs :: "string list"

record ConfigScope =
  cs_ID :: nat
  cs_ParentID :: "nat option"
  cs_Name :: string
  cs_Kind :: string
  cs_SiteID :: "nat option"
  cs_DeviceID :: "nat option"
  cs_InterfaceID :: "nat option"
  cs_ServiceID :: "nat option"
  cs_ServiceTypeID :: "nat option"
  cs_Platform :: string
  cs_PayloadKind :: string
  cs_Enabled :: bool
  cs_SortOrder :: int
  cs_Payload :: ConfigScopePayload
  cs_NetboxKind :: string
  cs_NetboxID :: nat

definition zeroPayload :: ConfigScopePayload where
  "zeroPayload = \<lparr>pl_Description = [], pl_Platforms = [], pl_Context = None, pl_Role = [], pl_CIDRs = []\<rparr>"

definition zeroScope :: ConfigScope where
  "zeroScope = \<lparr>cs_ID = 0, cs_ParentID = None, cs_Name = [], cs_Kind = [], cs_SiteID = None, cs_DeviceID = None, cs_InterfaceID = None, cs_ServiceID = None,
     cs_ServiceTypeID = None, cs_Platform = [], cs_PayloadKind = [], cs_Enabled = False, cs_SortOrder = 0, cs_Payload = zeroPayload, cs_NetboxKind = [], cs_NetboxID = 0\<rparr>"

record ConfigScopeDTO =
  cd_ParentID :: "nat option"
  cd_Name :: "string option"
  cd_Kind :: "string option"
  cd_SiteID :: "nat option"
  cd_DeviceID :: "nat option"
  cd_InterfaceID :: "nat option"
  cd_ServiceID :: "nat option"
  cd_ServiceTypeID :: "nat option"
  cd_Platform :: "string option"
  cd_PayloadKind :: "string option"
  cd_Enabled :: "bool option"
  cd_SortOrder :: "int option"
  cd_Payload :: "ConfigScopePayload option"

record CfgDevice =
  dv_ID :: nat
  dv_Name :: string
  dv_SiteID :: nat

record CfgInterface =
  if_ID :: nat
  if_DeviceID :: nat
  if_Name :: string

record ConfigAssignment =
  ca_ID :: nat
  ca_VariableDefID :: nat
  ca_ScopeID :: nat

record ConfigCLIFeature =
  cf_ID :: nat
  cf_ScopeID :: nat

record cfg_db =
  ct_scopes :: "ConfigScope list"
  cq_scopes :: nat
  ct_devices :: "CfgDevice list"
  ct_interfaces :: "CfgInterface list"
  ct_assignments :: "ConfigAssignment list"
  ct_features :: "ConfigCLIFeature list"

type_synonym 'a cfg = "(cfg_db, 'a) dbm"
type_synonym regexps = "string \<Rightarrow> string option"

text \<open>Two rows that a unique index keeps apart.\<close>

definition scopesClash :: "ConfigScope \<Rightarrow> ConfigScope \<Rightarrow> bool" where
  "scopesClash a b \<longleftrightarrow> cs_Kind a = cs_Kind b \<and>
     (cs_Kind a = ConfigScopeKindCLI \<and> cs_ServiceTypeID a \<noteq> None \<and> cs_ServiceTypeID a = cs_ServiceTypeID b \<and> cs_Platform a = cs_Platform b \<or>
      cs_Kind a = ConfigScopeKindDevice \<and> cs_DeviceID a \<noteq> None \<and> cs_DeviceID a = cs_DeviceID b \<or>
      cs_Kind a = ConfigScopeKindInterface \<and> cs_InterfaceID a \<noteq> None \<and> cs_InterfaceID a = cs_InterfaceID b \<or>
      cs_Kind a = ConfigScopeKindService \<and> cs_ServiceID a \<noteq> None \<and> cs_ServiceID a = cs_ServiceID b) \<or>
     cs_NetboxID a \<noteq> 0 \<and> cs_NetboxID a = cs_NetboxID b \<and> cs_NetboxKind a = cs_NetboxKind b"

definition insertScope :: "ConfigScope \<Rightarrow> ConfigScope cfg" where
  "insertScope s = stmt (\<lambda>db.
     let s' = s\<lparr>cs_ID := cq_scopes db, cs_Enabled := True\<rparr>; db = db\<lparr>cq_scopes := Suc (cq_scopes db)\<rparr>
     in if list_ex (scopesClash s') (ct_scopes db) then (Inl uniqueViolation, db) else (Inr s', db\<lparr>ct_scopes := ct_scopes db @ [s']\<rparr>))"

definition saveScope :: "ConfigScope \<Rightarrow> unit cfg" where
  "saveScope s = stmt (\<lambda>db.
     if list_ex (\<lambda>r. cs_ID r \<noteq> cs_ID s \<and> scopesClash s r) (ct_scopes db) then (Inl uniqueViolation, db)
     else (Inr (), db\<lparr>ct_scopes := map (\<lambda>r. if cs_ID r = cs_ID s then s else r) (ct_scopes db)\<rparr>))"

definition setSortOrder :: "nat \<Rightarrow> int \<Rightarrow> unit cfg" where
  "setSortOrder i order = stmt (\<lambda>db. (Inr (), db\<lparr>ct_scopes := map (\<lambda>r. if cs_ID r = i then r\<lparr>cs_SortOrder := order\<rparr> else r) (ct_scopes db)\<rparr>))"

definition scopeOrder :: "ConfigScope \<Rightarrow> ConfigScope \<Rightarrow> bool" where
  "scopeOrder a b \<longleftrightarrow> cs_SortOrder a < cs_SortOrder b \<or> cs_SortOrder a = cs_SortOrder b \<and> str_less (cs_Name a) (cs_Name b)"

definition uniqueConflict :: "go_error \<Rightarrow> string \<Rightarrow> go_error" where
  "uniqueConflict err msg =
     (let s = errText err
      in if Contains s ''UNIQUE constraint failed'' \<or> Contains s ''duplicate key'' \<or> Contains s ''UNIQUE constraint'' then StatusErr 409 msg else err)"

definition orConflict :: "'a cfg \<Rightarrow> 'a cfg" where
  "orConflict m = dcase m (\<lambda>r. case r of Inl e \<Rightarrow> dfail (uniqueConflict e ''scope already exists'') | Inr a \<Rightarrow> dret a)"

subsection \<open>Walking the tree\<close>

definition GetScope :: "nat \<Rightarrow> ConfigScope cfg" where
  "GetScope i = dcase (First cs_ID ct_scopes (\<lambda>s. cs_ID s = i)) (\<lambda>r. case r of
     Inr s \<Rightarrow> dret s | Inl e \<Rightarrow> dfail (if e = RecordNotFound then StatusErr 404 ''scope not found'' else e))"

definition ListScopes :: "ConfigScope list cfg" where
  "ListScopes = dbind (Find ct_scopes (\<lambda>_. True)) (\<lambda>rows. dret (order_by scopeOrder rows))"

definition RootScope :: "ConfigScope cfg" where
  "RootScope = dcase (First cs_ID ct_scopes (\<lambda>s. cs_ParentID s = None \<and> cs_Name s = ConfigRootName)) (\<lambda>r. case r of
     Inr s \<Rightarrow> dret s | Inl e \<Rightarrow> dfail (if e = RecordNotFound then StatusErr 500 ''global config scope is missing'' else e))"

definition maxScopeDepth :: nat where "maxScopeDepth = 64"

text \<open>The loop of \<open>WalkParents\<close>; the first argument is how many scopes the chain may still take.\<close>

primrec walkFrom :: "nat \<Rightarrow> ConfigScope \<Rightarrow> ConfigScope list \<Rightarrow> ConfigScope list cfg" where
  "walkFrom 0 cur chain =
     (if cs_ID cur \<in> cs_ID ` set chain then dfail (StatusErr 400 ''scope parent cycle'') else dfail (StatusErr 400 ''scope parent chain too deep''))"
| "walkFrom (Suc n) cur chain =
     (if cs_ID cur \<in> cs_ID ` set chain then dfail (StatusErr 400 ''scope parent cycle'')
      else case cs_ParentID cur of
        None \<Rightarrow> dret (chain @ [cur])
      | Some p \<Rightarrow> dcase (First cs_ID ct_scopes (\<lambda>s. cs_ID s = p)) (\<lambda>r. case r of
          Inl e \<Rightarrow> dfail (if e = RecordNotFound then StatusErr 400 (''scope '' @ Itoa (cs_ID cur) @ '' parent '' @ Itoa p @ '' not found'') else e)
        | Inr nxt \<Rightarrow> walkFrom n nxt (chain @ [cur])))"

definition WalkParents :: "ConfigScope \<Rightarrow> ConfigScope list cfg" where
  "WalkParents start = walkFrom maxScopeDepth start []"

definition WouldCycle :: "nat \<Rightarrow> nat \<Rightarrow> bool cfg" where
  "WouldCycle nodeID newParentID =
     (if newParentID = 0 then dret False
      else if newParentID = nodeID then dret True
      else dcase (First cs_ID ct_scopes (\<lambda>s. cs_ID s = newParentID)) (\<lambda>r. case r of
        Inl e \<Rightarrow> dfail (if e = RecordNotFound then StatusErr 400 ''parent scope not found'' else e)
      | Inr parent \<Rightarrow> dbind (WalkParents parent) (\<lambda>chain. dret (list_ex (\<lambda>s. cs_ID s = nodeID) chain))))"

definition optFirst :: "(ConfigScope \<Rightarrow> bool) \<Rightarrow> ConfigScope option cfg" where
  "optFirst P = dcase (First cs_ID ct_scopes P) (\<lambda>r. case r of
     Inr s \<Rightarrow> dret (Some s) | Inl e \<Rightarrow> if e = RecordNotFound then dret None else dfail e)"

definition scopeByInterfaceID :: "nat \<Rightarrow> ConfigScope option cfg" where
  "scopeByInterfaceID i = optFirst (\<lambda>s. cs_Kind s = ConfigScopeKindInterface \<and> cs_InterfaceID s = Some i)"

definition scopeByDeviceID :: "nat \<Rightarrow> ConfigScope option cfg" where
  "scopeByDeviceID i = optFirst (\<lambda>s. cs_Kind s = ConfigScopeKindDevice \<and> cs_DeviceID s = Some i)"

text \<open>The recursive walk of \<open>DescendantScopes\<close> with the scopes still to be visited as a stack.\<close>

function descend :: "ConfigScope list \<Rightarrow> nat list \<Rightarrow> ConfigScope list \<Rightarrow> ConfigScope list" where
  "descend rows seen [] = []"
| "descend rows seen (s # stack) =
     (if cs_ID s \<in> set seen then descend rows seen stack
      else s # descend rows (cs_ID s # seen) (filter (\<lambda>c. cs_ParentID c = Some (cs_ID s)) rows @ stack))"
  by pat_completeness auto

definition waiting :: "ConfigScope list \<Rightarrow> nat list \<Rightarrow> nat" where
  "waiting rows seen = length (filter (\<lambda>r. case cs_ParentID r of None \<Rightarrow> False | Some p \<Rightarrow> p \<notin> set seen) rows)"

lemma waiting_seen:
  assumes "i \<notin> set seen"
  shows "waiting rows seen = waiting rows (i # seen) + length (filter (\<lambda>c. cs_ParentID c = Some i) rows)"
  using assms unfolding waiting_def by (induction rows) (auto split: option.splits)

termination descend
  by (relation "measure (\<lambda>(rows, seen, stack). waiting rows seen + length stack)") (auto simp: waiting_seen)

definition DescendantScopes :: "nat \<Rightarrow> ConfigScope list cfg" where
  "DescendantScopes rootID = dbind ListScopes (\<lambda>rows.
     case filter (\<lambda>s. cs_ID s = rootID) rows of
       [] \<Rightarrow> dfail (StatusErr 404 ''scope not found'')
     | starts \<Rightarrow> dret (descend rows [] [last starts]))"

subsection \<open>Checks\<close>

definition ValidScopeKind :: "string \<Rightarrow> bool" where
  "ValidScopeKind k \<longleftrightarrow> k \<in> {ConfigScopeKindFolder, ConfigScopeKindRegion, ConfigScopeKindSite, ConfigScopeKindLocation, ConfigScopeKindDevice,
     ConfigScopeKindInterface, ConfigScopeKindParameter, ConfigScopeKindCLI, ConfigScopeKindService, ConfigScopeKindServiceEndpoint, ConfigScopeKindResource}"

definition parentChanged :: "ConfigScope \<Rightarrow> nat option \<Rightarrow> bool" where
  "parentChanged existing newParent \<longleftrightarrow> (case newParent of None \<Rightarrow> False | Some p \<Rightarrow> cs_ParentID existing \<noteq> Some p)"

definition isReservedFolder :: "ConfigScope \<Rightarrow> nat \<Rightarrow> bool" where
  "isReservedFolder s rootID \<longleftrightarrow> cs_Kind s = ConfigScopeKindFolder \<and>
     (case cs_ParentID s of
        None \<Rightarrow> cs_Name s = ConfigRootName
      | Some p \<Rightarrow> p = rootID \<and> (cs_Name s = ConfigCatalogName \<or> cs_Name s = ConfigServicesFolderName))"

definition organizationalParentKind :: "string \<Rightarrow> bool" where
  "organizationalParentKind k \<longleftrightarrow> k \<in> {ConfigScopeKindFolder, ConfigScopeKindRegion, ConfigScopeKindSite, ConfigScopeKindLocation}"

definition assertParentKind :: "ConfigScope \<Rightarrow> ConfigScope \<Rightarrow> go_error + unit" where
  "assertParentKind child parent =
     (let k = cs_Kind child; pk = cs_Kind parent; bad = (\<lambda>msg. Inl (StatusErr 400 msg))
      in if organizationalParentKind k then if organizationalParentKind pk then Inr () else bad (k @ '' cannot be under '' @ pk)
         else if k = ConfigScopeKindDevice then if organizationalParentKind pk then Inr () else bad (''device cannot be under '' @ pk)
         else if k = ConfigScopeKindInterface then
           if pk \<noteq> ConfigScopeKindDevice then bad ''interface must be under its device''
           else if cs_DeviceID child = None \<or> cs_DeviceID parent = None \<or> cs_DeviceID child \<noteq> cs_DeviceID parent then bad ''interface must be under its device''
           else Inr ()
         else if k = ConfigScopeKindParameter then
           if organizationalParentKind pk \<or> pk \<in> {ConfigScopeKindDevice, ConfigScopeKindInterface, ConfigScopeKindService} then Inr ()
           else bad (''parameter cannot be under '' @ pk)
         else if k = ConfigScopeKindCLI then
           if organizationalParentKind pk \<or> pk \<in> {ConfigScopeKindDevice, ConfigScopeKindInterface} then Inr () else bad (''cli cannot be under '' @ pk)
         else if k = ConfigScopeKindResource then
           if organizationalParentKind pk \<or> pk \<in> {ConfigScopeKindDevice, ConfigScopeKindInterface} then Inr () else bad (''resource cannot be under '' @ pk)
         else if k = ConfigScopeKindService then
           if organizationalParentKind pk \<or> pk = ConfigScopeKindDevice then Inr () else bad (''service cannot be under '' @ pk)
         else if k = ConfigScopeKindServiceEndpoint then
           if pk \<noteq> ConfigScopeKindService then bad ''service_endpoint must be under its service''
           else if cs_ServiceID child \<noteq> None \<and> cs_ServiceID parent \<noteq> None \<and> cs_ServiceID child \<noteq> cs_ServiceID parent then bad ''service_endpoint must be under its service''
           else Inr ()
         else bad ''invalid kind'')"

definition assertCurrentParentKind :: "ConfigScope \<Rightarrow> unit cfg" where
  "assertCurrentParentKind child = (case cs_ParentID child of
     None \<Rightarrow> dret () | Some p \<Rightarrow> dbind (GetScope p) (\<lambda>parent. dres (assertParentKind child parent)))"

definition idMissing :: "nat option \<Rightarrow> bool" where
  "idMissing i \<longleftrightarrow> i = None \<or> i = Some 0"

definition assertScopeKindIDs :: "ConfigScope \<Rightarrow> go_error + unit" where
  "assertScopeKindIDs s =
     (if cs_Kind s = ConfigScopeKindDevice \<and> idMissing (cs_DeviceID s) then Inl (StatusErr 400 ''device scope requires device_id'')
      else if cs_Kind s = ConfigScopeKindInterface \<and> idMissing (cs_InterfaceID s) then Inl (StatusErr 400 ''interface scope requires interface_id'')
      else if cs_Kind s = ConfigScopeKindService \<and> idMissing (cs_ServiceID s) then Inl (StatusErr 400 ''service scope requires service_id'')
      else Inr ())"

text \<open>One of the counting queries: no other row than the excluded one may match.\<close>

definition noneBut :: "nat \<Rightarrow> (ConfigScope \<Rightarrow> bool) \<Rightarrow> go_error \<Rightarrow> unit cfg" where
  "noneBut excludeID P e = dbind (Count ct_scopes (\<lambda>r. P r \<and> (excludeID \<noteq> 0 \<longrightarrow> cs_ID r \<noteq> excludeID))) (\<lambda>n. dguard (n = 0) e)"

definition assertScopeUnique :: "ConfigScope \<Rightarrow> nat \<Rightarrow> unit cfg" where
  "assertScopeUnique s excludeID =
     dbind (if cs_Kind s = ConfigScopeKindDevice \<and> cs_DeviceID s \<noteq> None then
       noneBut excludeID (\<lambda>r. cs_Kind r = ConfigScopeKindDevice \<and> cs_DeviceID r = cs_DeviceID s) (StatusErr 409 ''a device scope already exists for this device'')
       else dret ()) (\<lambda>_.
     dbind (if cs_Kind s = ConfigScopeKindInterface \<and> cs_InterfaceID s \<noteq> None then
       noneBut excludeID (\<lambda>r. cs_Kind r = ConfigScopeKindInterface \<and> cs_InterfaceID r = cs_InterfaceID s) (StatusErr 409 ''an interface scope already exists for this interface'')
       else dret ()) (\<lambda>_.
     dbind (if cs_Kind s = ConfigScopeKindService \<and> cs_ServiceID s \<noteq> None then
       noneBut excludeID (\<lambda>r. cs_Kind r = ConfigScopeKindService \<and> cs_ServiceID r = cs_ServiceID s) (StatusErr 409 ''a service scope already exists for this service'')
       else dret ()) (\<lambda>_.
     if cs_Kind s \<noteq> ConfigScopeKindResource then dret ()
     else if cs_ParentID s = None then dfail (StatusErr 400 ''resource requires a parent'')
     else noneBut excludeID (\<lambda>r. cs_ParentID r = cs_ParentID s \<and> cs_Kind r = ConfigScopeKindResource \<and> cs_Name r = cs_Name s)
       (StatusErr 409 (''a resource named '' @ Quote (cs_Name s) @ '' already exists under this parent'')))))"

definition NormalizePlatform :: "string \<Rightarrow> string" where
  "NormalizePlatform p = ToLower (TrimSpace p)"

definition ValidPayloadKind :: "string \<Rightarrow> bool" where
  "ValidPayloadKind k \<longleftrightarrow> k \<in> {[], ''cli'', ''netconf'', ''restconf''}"

definition isTranslationCLI :: "ConfigScope \<Rightarrow> bool" where
  "isTranslationCLI s \<longleftrightarrow> \<not> idMissing (cs_ServiceTypeID s)"

definition identStart :: "char \<Rightarrow> bool" where
  "identStart c \<longleftrightarrow> (let n = of_char c :: nat in 65 \<le> n \<and> n \<le> 90 \<or> 97 \<le> n \<and> n \<le> 122 \<or> c = CHR ''_'')"

definition parseCaptureToken :: "string \<Rightarrow> string option" where
  "parseCaptureToken tok =
     (if length tok < 3 \<or> hd tok \<noteq> CHR ''<'' \<or> last tok \<noteq> CHR ''>'' then None
      else let ident = butlast (tl tok)
        in if identStart (hd ident) \<and> list_all (\<lambda>c. identStart c \<or> 48 \<le> (of_char c :: nat) \<and> (of_char c :: nat) \<le> 57) ident then Some ident else None)"

definition QuoteMeta :: "string \<Rightarrow> string" where
  "QuoteMeta s = concat (map (\<lambda>c. if c \<in> set (CHR 0x5C # ''.+*?()|[]{}^$'') then [CHR 0x5C, c] else [c]) s)"

fun contextTokens :: "bool \<Rightarrow> string list \<Rightarrow> go_error + string" where
  "contextTokens first [] = Inr ''$''"
| "contextTokens first (tok # toks) =
     (let sep = (if first then [] else [CHR 0x5C] @ ''s+'')
      in if HasPrefix tok ''<'' then
           (case parseCaptureToken tok of
              None \<Rightarrow> Inl (StatusErr 400 (''invalid context capture '' @ Quote tok))
            | Some ident \<Rightarrow> (case contextTokens False toks of Inl e \<Rightarrow> Inl e | Inr r \<Rightarrow> Inr (sep @ ''(?P<'' @ ident @ ''>'' @ [CHR 0x5C] @ ''S+)'' @ r)))
         else (case contextTokens False toks of Inl e \<Rightarrow> Inl e | Inr r \<Rightarrow> Inr (sep @ QuoteMeta tok @ r)))"

definition CompileContextPattern :: "regexps \<Rightarrow> string \<Rightarrow> go_error + unit" where
  "CompileContextPattern compile pattern =
     (let p = TrimSpace pattern; tokens = Fields p
      in if p = [] \<or> EqualFold p ''global'' \<or> tokens = [] then Inr ()
         else case contextTokens True tokens of Inl e \<Rightarrow> Inl e | Inr re \<Rightarrow>
           (case compile (''^'' @ re) of None \<Rightarrow> Inr () | Some msg \<Rightarrow> Inl (StatusErr 400 (''invalid context pattern: '' @ msg))))"

definition normalizeCLIScope :: "regexps \<Rightarrow> ConfigScope \<Rightarrow> go_error + ConfigScope" where
  "normalizeCLIScope compile s =
     (if cs_Kind s \<noteq> ConfigScopeKindCLI then Inr s
      else let s = s\<lparr>cs_Platform := NormalizePlatform (cs_Platform s), cs_PayloadKind := (if cs_PayloadKind s = [] then ''cli'' else cs_PayloadKind s)\<rparr>
        in if \<not> ValidPayloadKind (cs_PayloadKind s) then Inl (StatusErr 400 (''invalid payload kind '' @ Quote (cs_PayloadKind s)))
           else if isTranslationCLI s \<and> cs_Platform s = [] then Inl (StatusErr 400 ''cli translation object requires platform'')
           else case pl_Context (cs_Payload s) of None \<Rightarrow> Inr s | Some cx \<Rightarrow>
             (case CompileContextPattern compile (cx_Pattern cx) of Inl e \<Rightarrow> Inl e | Inr _ \<Rightarrow> Inr s))"

definition assertCLIUnique :: "ConfigScope \<Rightarrow> nat \<Rightarrow> unit cfg" where
  "assertCLIUnique s excludeID =
     (if \<not> isTranslationCLI s then dret ()
      else noneBut excludeID (\<lambda>r. cs_Kind r = ConfigScopeKindCLI \<and> cs_ServiceTypeID r = cs_ServiceTypeID s \<and> cs_Platform r = cs_Platform s)
        (StatusErr 409 ''a CLI object already exists for this service type and platform''))"

definition maxResourceCIDRs :: nat where "maxResourceCIDRs = 256"

fun canonicalCIDRs :: "nat \<Rightarrow> string list \<Rightarrow> string list \<Rightarrow> go_error + string list" where
  "canonicalCIDRs i out [] = Inr out"
| "canonicalCIDRs i out (raw # rest) =
     (let s = TrimSpace raw
      in if s = [] then Inl (StatusErr 400 (''cidrs['' @ Itoa i @ ''] must not be empty''))
         else case netipParsePrefix s of
           None \<Rightarrow> Inl (StatusErr 400 (''cidrs['' @ Itoa i @ ''] is not a valid prefix''))
         | Some p \<Rightarrow> let canon = pfx_string (Masked p)
             in if canon \<in> set out then Inl (StatusErr 400 (''duplicate CIDR '' @ canon)) else canonicalCIDRs (Suc i) (out @ [canon]) rest)"

definition canonicalizeResourceCIDRs :: "string list \<Rightarrow> go_error + string list" where
  "canonicalizeResourceCIDRs ins =
     (if length ins > maxResourceCIDRs then Inl (StatusErr 400 (''resource may have at most '' @ Itoa maxResourceCIDRs @ '' CIDRs''))
      else canonicalCIDRs 0 [] ins)"

definition normalizeResourceScope :: "ConfigScope \<Rightarrow> go_error + ConfigScope" where
  "normalizeResourceScope s =
     (if cs_Kind s \<noteq> ConfigScopeKindResource then Inr s
      else case canonicalizeResourceCIDRs (pl_CIDRs (cs_Payload s)) of
        Inl e \<Rightarrow> Inl e | Inr cidrs \<Rightarrow> Inr (s\<lparr>cs_Payload := (cs_Payload s)\<lparr>pl_CIDRs := cidrs\<rparr>\<rparr>))"

text \<open>What \<open>CreateScope\<close> and \<open>UpdateScope\<close> check and normalise before they write.\<close>

definition prepared :: "regexps \<Rightarrow> ConfigScope \<Rightarrow> nat \<Rightarrow> ConfigScope cfg" where
  "prepared compile s excludeID =
     dbind (dres (assertScopeKindIDs s)) (\<lambda>_.
     dbind (assertScopeUnique s excludeID) (\<lambda>_.
     dbind (dres (normalizeCLIScope compile s)) (\<lambda>s.
     dbind (dres (normalizeResourceScope s)) (\<lambda>s.
     dbind (assertCLIUnique s excludeID) (\<lambda>_. dret s)))))"

subsection \<open>Operations\<close>

definition CreateScope :: "regexps \<Rightarrow> ConfigScope \<Rightarrow> ConfigScope cfg" where
  "CreateScope compile s =
     dbind (dguard (cs_Name s \<noteq> []) (StatusErr 400 ''name is required'')) (\<lambda>_.
     dbind (dguard (ValidScopeKind (cs_Kind s)) (StatusErr 400 ''invalid kind'')) (\<lambda>_.
     dbind (case cs_ParentID s of Some p \<Rightarrow> GetScope p | None \<Rightarrow> RootScope) (\<lambda>parent.
     let s = s\<lparr>cs_ParentID := (case cs_ParentID s of Some p \<Rightarrow> Some p | None \<Rightarrow> Some (cs_ID parent))\<rparr>
     in dbind (dres (assertParentKind s parent)) (\<lambda>_.
        dbind (prepared compile s 0) (\<lambda>s.
        orConflict (insertScope (s\<lparr>cs_Enabled := True\<rparr>)))))))"

fun placeWrites :: "int \<Rightarrow> nat \<Rightarrow> int \<Rightarrow> nat list \<Rightarrow> (nat \<times> int) list" where
  "placeWrites pos node i [] = (if pos \<ge> i then [(node, i)] else [])"
| "placeWrites pos node i (s # ss) =
     (if i = pos then (node, i) # (s, i + 1) # placeWrites pos node (i + 2) ss else (s, i) # placeWrites pos node (i + 1) ss)"

definition placeAmongSiblings :: "nat \<Rightarrow> nat \<Rightarrow> int option \<Rightarrow> unit cfg" where
  "placeAmongSiblings nodeID parentID want =
     dbind (Find ct_scopes (\<lambda>s. cs_ParentID s = Some parentID \<and> cs_ID s \<noteq> nodeID)) (\<lambda>rows.
     let siblings = map cs_ID (order_by scopeOrder rows); n = int (length siblings);
         pos = (case want of None \<Rightarrow> n | Some w \<Rightarrow> min n (max 0 w))
     in dbind (dfor (placeWrites pos nodeID 0 siblings) (\<lambda>(i, order). setSortOrder i order)) (\<lambda>_. dret ()))"

definition compactSiblings :: "nat \<Rightarrow> unit cfg" where
  "compactSiblings parentID =
     dbind (Find ct_scopes (\<lambda>s. cs_ParentID s = Some parentID)) (\<lambda>rows.
     let siblings = order_by scopeOrder rows
     in dbind (dfor (zip siblings [0..<length siblings]) (\<lambda>(s, i). if cs_SortOrder s = int i then dret () else setSortOrder (cs_ID s) (int i))) (\<lambda>_. dret ()))"

definition ensureInterfaceChild :: "ConfigScope \<Rightarrow> nat \<Rightarrow> CfgInterface \<times> nat \<Rightarrow> unit cfg" where
  "ensureInterfaceChild deviceNode deviceID x = (case x of (iface, i) \<Rightarrow>
     dbind (scopeByInterfaceID (if_ID iface)) (\<lambda>found. case found of
       Some _ \<Rightarrow> dret ()
     | None \<Rightarrow> dbind (insertScope (zeroScope\<lparr>cs_ParentID := Some (cs_ID deviceNode), cs_Name := if_Name iface, cs_Kind := ConfigScopeKindInterface,
         cs_DeviceID := Some deviceID, cs_InterfaceID := Some (if_ID iface), cs_SortOrder := int i\<rparr>)) (\<lambda>_. dret ())))"

definition ensureInterfaceChildren :: "ConfigScope \<Rightarrow> nat \<Rightarrow> unit cfg" where
  "ensureInterfaceChildren deviceNode deviceID =
     dbind (Find ct_interfaces (\<lambda>f. if_DeviceID f = deviceID)) (\<lambda>rows.
     let ifaces = order_by (\<lambda>a b. str_less (if_Name a) (if_Name b)) rows
     in dbind (dfor (zip ifaces [0..<length ifaces]) (ensureInterfaceChild deviceNode deviceID)) (\<lambda>_. dret ()))"

definition attachNode :: "nat \<Rightarrow> CfgDevice \<Rightarrow> ConfigScope option \<Rightarrow> ConfigScope cfg" where
  "attachNode parentID device existing = (case existing of
     Some node \<Rightarrow>
       dbind (dguard (parentID \<noteq> cs_ID node) (StatusErr 400 ''scope cannot be its own parent'')) (\<lambda>_.
       dbind (WouldCycle (cs_ID node) parentID) (\<lambda>cycle.
       dbind (dguard (\<not> cycle) (StatusErr 400 ''scope parent cycle'')) (\<lambda>_.
       let node = node\<lparr>cs_ParentID := Some parentID, cs_Name := dv_Name device, cs_Kind := ConfigScopeKindDevice\<rparr>
       in dbind (saveScope node) (\<lambda>_. dret node))))
   | None \<Rightarrow> insertScope (zeroScope\<lparr>cs_ParentID := Some parentID, cs_Name := dv_Name device, cs_Kind := ConfigScopeKindDevice, cs_DeviceID := Some (dv_ID device),
       cs_SiteID := (if dv_SiteID device \<noteq> 0 then Some (dv_SiteID device) else None)\<rparr>))"

definition AttachDevice :: "nat \<Rightarrow> nat \<Rightarrow> ConfigScope cfg" where
  "AttachDevice parentID deviceID =
     dbind (GetScope parentID) (\<lambda>parent.
     dbind (dres (assertParentKind (zeroScope\<lparr>cs_Kind := ConfigScopeKindDevice, cs_DeviceID := Some deviceID\<rparr>) parent)) (\<lambda>_.
     dbind (dcase (First dv_ID ct_devices (\<lambda>d. dv_ID d = deviceID)) (\<lambda>r. case r of
       Inr d \<Rightarrow> dret d | Inl e \<Rightarrow> dfail (if e = RecordNotFound then StatusErr 404 ''device not found'' else e))) (\<lambda>device.
     dbind (scopeByDeviceID deviceID) (\<lambda>existing.
     dbind (attachNode parentID device existing) (\<lambda>node.
     dbind (ensureInterfaceChildren node deviceID) (\<lambda>_. dret node))))))"

definition moveChecks :: "ConfigScope \<Rightarrow> ConfigScope \<Rightarrow> nat \<Rightarrow> bool cfg" where
  "moveChecks root existing parentID =
     dbind (dguard (cs_ID existing \<noteq> cs_ID root) (StatusErr 400 ''cannot reparent the global root'')) (\<lambda>_.
     dbind (dguard (cs_Kind existing \<noteq> ConfigScopeKindInterface) (StatusErr 409 ''managed by device'')) (\<lambda>_.
     dbind (GetScope parentID) (\<lambda>parent.
     let changed = parentChanged existing (Some parentID)
     in dbind (dguard (\<not> (changed \<and> isReservedFolder existing (cs_ID root))) (StatusErr 400 ''cannot reparent reserved folder'')) (\<lambda>_.
        dbind (dguard (\<not> (cs_Kind existing = ConfigScopeKindServiceEndpoint \<and> changed)) (StatusErr 409 ''service_endpoint parent cannot change'')) (\<lambda>_.
        if \<not> changed then dret False
        else dbind (dguard (parentID \<noteq> cs_ID existing) (StatusErr 400 ''scope cannot be its own parent'')) (\<lambda>_.
          dbind (WouldCycle (cs_ID existing) parentID) (\<lambda>cycle.
          dbind (dguard (\<not> cycle) (StatusErr 400 ''scope parent cycle'')) (\<lambda>_.
          dbind (dres (assertParentKind existing parent)) (\<lambda>_. dret True)))))))))"

definition moveNode :: "ConfigScope \<Rightarrow> nat \<Rightarrow> ConfigScope cfg" where
  "moveNode existing parentID =
     (if cs_Kind existing = ConfigScopeKindDevice then
        (case cs_DeviceID existing of
           None \<Rightarrow> dfail (StatusErr 400 ''device scope requires device_id'')
         | Some d \<Rightarrow> if d = 0 then dfail (StatusErr 400 ''device scope requires device_id'') else AttachDevice parentID d)
      else let node = existing\<lparr>cs_ParentID := Some parentID\<rparr>
        in dbind (assertScopeUnique node (cs_ID node)) (\<lambda>_. dbind (orConflict (saveScope node)) (\<lambda>_. dret node)))"

definition moveScopeTx :: "ConfigScope \<Rightarrow> nat \<Rightarrow> int option \<Rightarrow> ConfigScope cfg" where
  "moveScopeTx existing parentID sortOrder =
     dbind RootScope (\<lambda>root.
     dbind (moveChecks root existing parentID) (\<lambda>changed.
     dbind (if changed then moveNode existing parentID else dret existing) (\<lambda>node.
     dbind (placeAmongSiblings (cs_ID node) parentID sortOrder) (\<lambda>_.
     dbind (case cs_ParentID existing of
         Some old \<Rightarrow> if changed \<and> old \<noteq> parentID then compactSiblings old else dret ()
       | None \<Rightarrow> dret ()) (\<lambda>_.
     GetScope (cs_ID node))))))"

text \<open>What a rolled back transaction leaves: only the id sequence has moved on.\<close>

definition cfg_rollback :: "cfg_db \<Rightarrow> cfg_db \<Rightarrow> cfg_db" where
  "cfg_rollback db db' = db\<lparr>cq_scopes := max (cq_scopes db) (cq_scopes db')\<rparr>"

definition MoveScope :: "nat \<Rightarrow> nat \<Rightarrow> int option \<Rightarrow> ConfigScope cfg" where
  "MoveScope i parentID sortOrder = transaction cfg_rollback
     (dbind (GetScope i) (\<lambda>existing. moveScopeTx existing parentID sortOrder))"

text \<open>A text field of a patch that is given and not empty.\<close>

definition given :: "string option \<Rightarrow> string option" where
  "given x = (if x = Some [] then None else x)"

definition rootGuards :: "ConfigScope \<Rightarrow> ConfigScope \<Rightarrow> ConfigScopeDTO \<Rightarrow> unit cfg" where
  "rootGuards root existing patch =
     (if cs_ID existing \<noteq> cs_ID root then dret ()
      else dbind (dguard (\<not> parentChanged existing (cd_ParentID patch)) (StatusErr 400 ''cannot reparent the global root'')) (\<lambda>_.
        dbind (dguard (given (cd_Name patch) \<in> {None, Some (cs_Name existing)}) (StatusErr 400 ''cannot rename the global root'')) (\<lambda>_.
        dguard (given (cd_Kind patch) \<in> {None, Some (cs_Kind existing)}) (StatusErr 400 ''cannot change the kind of the global root''))))"

text \<open>Moving and ordering a scope before its other fields are patched: the row it goes on with.\<close>

definition patchPlace :: "nat \<Rightarrow> ConfigScope \<Rightarrow> bool \<Rightarrow> ConfigScopeDTO \<Rightarrow> ConfigScope cfg" where
  "patchPlace i existing kindChanged patch =
     (let rekind = (\<lambda>s. if kindChanged then s\<lparr>cs_Kind := cs_Kind existing\<rparr> else s)
      in case if parentChanged existing (cd_ParentID patch) then cd_ParentID patch else None of
        Some p \<Rightarrow> dbind (moveScopeTx existing p (cd_SortOrder patch)) (\<lambda>moved. dret (rekind moved))
      | None \<Rightarrow> dbind (if kindChanged then assertCurrentParentKind existing else dret ()) (\<lambda>_.
          case if cd_SortOrder patch = None then None else cs_ParentID existing of
            Some p \<Rightarrow> dbind (placeAmongSiblings (cs_ID existing) p (cd_SortOrder patch)) (\<lambda>_. dbind (GetScope i) (\<lambda>s. dret (rekind s)))
          | None \<Rightarrow> dret existing))"

definition orKeep :: "'a option \<Rightarrow> 'a \<Rightarrow> 'a" where
  "orKeep x old = (case x of None \<Rightarrow> old | Some v \<Rightarrow> v)"

definition orKeepPtr :: "'a option \<Rightarrow> 'a option \<Rightarrow> 'a option" where
  "orKeepPtr x old = (case x of None \<Rightarrow> old | Some v \<Rightarrow> Some v)"

definition patchFields :: "ConfigScopeDTO \<Rightarrow> ConfigScope \<Rightarrow> ConfigScope" where
  "patchFields patch s = s\<lparr>
     cs_Name := orKeep (given (cd_Name patch)) (cs_Name s),
     cs_Kind := orKeep (given (cd_Kind patch)) (cs_Kind s),
     cs_SiteID := orKeepPtr (cd_SiteID patch) (cs_SiteID s),
     cs_DeviceID := orKeepPtr (cd_DeviceID patch) (cs_DeviceID s),
     cs_InterfaceID := orKeepPtr (cd_InterfaceID patch) (cs_InterfaceID s),
     cs_ServiceID := orKeepPtr (cd_ServiceID patch) (cs_ServiceID s),
     cs_ServiceTypeID := (if cd_ServiceTypeID patch = Some 0 then None else orKeepPtr (cd_ServiceTypeID patch) (cs_ServiceTypeID s)),
     cs_Platform := orKeep (cd_Platform patch) (cs_Platform s),
     cs_PayloadKind := orKeep (cd_PayloadKind patch) (cs_PayloadKind s),
     cs_Payload := orKeep (cd_Payload patch) (cs_Payload s)\<rparr>"

definition patchEnabled :: "ConfigScopeDTO \<Rightarrow> ConfigScope \<Rightarrow> go_error + ConfigScope" where
  "patchEnabled patch s = (case cd_Enabled patch of
     None \<Rightarrow> Inr s
   | Some on \<Rightarrow>
       if cs_Kind s \<in> {ConfigScopeKindParameter, ConfigScopeKindCLI, ConfigScopeKindResource} then Inr (s\<lparr>cs_Enabled := on\<rparr>)
       else if \<not> on then Inl (StatusErr 400 ''enabled is only valid for parameter, cli, and resource'')
       else Inr s)"

definition updateScopeTx :: "regexps \<Rightarrow> nat \<Rightarrow> ConfigScopeDTO \<Rightarrow> ConfigScope cfg" where
  "updateScopeTx compile i patch =
     dbind (GetScope i) (\<lambda>existing.
     dbind RootScope (\<lambda>root.
     dbind (rootGuards root existing patch) (\<lambda>_.
     dbind (dguard (case given (cd_Kind patch) of None \<Rightarrow> True | Some k \<Rightarrow> ValidScopeKind k) (StatusErr 400 ''invalid kind'')) (\<lambda>_.
     let kindChanged = (given (cd_Kind patch) \<notin> {None, Some (cs_Kind existing)})
     in dbind (patchPlace i (existing\<lparr>cs_Kind := orKeep (given (cd_Kind patch)) (cs_Kind existing)\<rparr>) kindChanged patch) (\<lambda>s.
        dbind (dres (patchEnabled patch (patchFields patch s))) (\<lambda>s.
        dbind (prepared compile s (cs_ID s)) (\<lambda>s.
        dbind (orConflict (saveScope s)) (\<lambda>_. dret s))))))))"

definition UpdateScope :: "regexps \<Rightarrow> nat \<Rightarrow> ConfigScopeDTO \<Rightarrow> ConfigScope cfg" where
  "UpdateScope compile i patch = transaction cfg_rollback (updateScopeTx compile i patch)"

subsection \<open>Detaching devices\<close>

definition ensureChildFolder :: "nat \<Rightarrow> string \<Rightarrow> ConfigScope cfg" where
  "ensureChildFolder parentID name =
     dcase (First cs_ID ct_scopes (\<lambda>s. cs_ParentID s = Some parentID \<and> cs_Name s = name)) (\<lambda>r. case r of
       Inr s \<Rightarrow> dret s
     | Inl e \<Rightarrow> if e \<noteq> RecordNotFound then dfail e
         else insertScope (zeroScope\<lparr>cs_ParentID := Some parentID, cs_Name := name, cs_Kind := ConfigScopeKindFolder\<rparr>))"

definition servicesFolder :: "ConfigScope cfg" where
  "servicesFolder = dbind RootScope (\<lambda>root. ensureChildFolder (cs_ID root) ConfigServicesFolderName)"

definition hasStatus :: "nat \<Rightarrow> go_error \<Rightarrow> bool" where
  "hasStatus n e = (case e of StatusErr k _ \<Rightarrow> k = n | _ \<Rightarrow> False)"

definition detachDestParent :: "ConfigScope \<Rightarrow> nat cfg" where
  "detachDestParent device =
     (let fallback = dbind servicesFolder (\<lambda>sf. dret (cs_ID sf))
      in case cs_ParentID device of
        None \<Rightarrow> fallback
      | Some p \<Rightarrow> dcase (GetScope p) (\<lambda>r. case r of
          Inr _ \<Rightarrow> dret p | Inl e \<Rightarrow> if hasStatus 404 e then fallback else dfail e))"

definition isOrganizationalScope :: "ConfigScope \<Rightarrow> bool" where
  "isOrganizationalScope s \<longleftrightarrow> organizationalParentKind (cs_Kind s) \<or> cs_Kind s \<in> {ConfigScopeKindDevice, ConfigScopeKindInterface}"

definition reservedParametersParent :: "ConfigScope \<Rightarrow> ConfigScope option cfg" where
  "reservedParametersParent s =
     (case cs_ParentID s of
        None \<Rightarrow> dret None
      | Some p \<Rightarrow> if cs_Kind s \<noteq> ConfigScopeKindParameter \<or> cs_Name s \<noteq> ConfigParametersChildName then dret None
          else dcase (GetScope p) (\<lambda>r. case r of
            Inl e \<Rightarrow> if hasStatus 404 e then dret None else dfail e
          | Inr parent \<Rightarrow> dret (if isOrganizationalScope parent then Some parent else None)))"

definition deleteAssignments :: "(ConfigAssignment \<Rightarrow> bool) \<Rightarrow> unit cfg" where
  "deleteAssignments P = stmt (\<lambda>db. (Inr (), db\<lparr>ct_assignments := filter (\<lambda>a. \<not> P a) (ct_assignments db)\<rparr>))"

definition deleteFeatures :: "nat \<Rightarrow> unit cfg" where
  "deleteFeatures i = stmt (\<lambda>db. (Inr (), db\<lparr>ct_features := filter (\<lambda>f. cf_ScopeID f \<noteq> i) (ct_features db)\<rparr>))"

definition deleteScopeRow :: "nat \<Rightarrow> unit cfg" where
  "deleteScopeRow i = stmt (\<lambda>db. (Inr (), db\<lparr>ct_scopes := filter (\<lambda>s. cs_ID s \<noteq> i) (ct_scopes db)\<rparr>))"

definition deleteParameterAssignments :: "ConfigScope \<Rightarrow> unit cfg" where
  "deleteParameterAssignments scope =
     dbind (reservedParametersParent scope) (\<lambda>parent.
     dbind (Find ct_assignments (\<lambda>a. ca_ScopeID a = cs_ID scope)) (\<lambda>childRows.
     dbind (deleteAssignments (\<lambda>a. ca_ScopeID a = cs_ID scope)) (\<lambda>_.
     case parent of
       None \<Rightarrow> dret ()
     | Some p \<Rightarrow> dbind (dfor childRows (\<lambda>a. deleteAssignments (\<lambda>b. ca_VariableDefID b = ca_VariableDefID a \<and> ca_ScopeID b = cs_ID p))) (\<lambda>_. dret ()))))"

definition deleteOneScope :: "ConfigScope \<Rightarrow> unit cfg" where
  "deleteOneScope s =
     dbind (if cs_Kind s = ConfigScopeKindParameter then deleteParameterAssignments s else dret ()) (\<lambda>_.
     dbind (deleteAssignments (\<lambda>a. ca_ScopeID a = cs_ID s)) (\<lambda>_.
     dbind (deleteFeatures (cs_ID s)) (\<lambda>_.
     deleteScopeRow (cs_ID s))))"

definition deleteScopeSubtree :: "ConfigScope list \<Rightarrow> unit cfg" where
  "deleteScopeSubtree scopes = dbind (dfor (rev scopes) deleteOneScope) (\<lambda>_. dret ())"

definition descendantIDs :: "nat \<Rightarrow> nat list cfg" where
  "descendantIDs rootID = dbind (DescendantScopes rootID) (\<lambda>rows. dret (map cs_ID rows))"

definition moveKid :: "nat \<Rightarrow> ConfigScope \<Rightarrow> nat list cfg" where
  "moveKid dest kid =
     dbind (descendantIDs (cs_ID kid)) (\<lambda>ids.
     dbind (saveScope (kid\<lparr>cs_ParentID := Some dest\<rparr>)) (\<lambda>_. dret ids))"

definition detachTx :: "ConfigScope \<Rightarrow> unit cfg" where
  "detachTx existing =
     dbind (detachDestParent existing) (\<lambda>dest.
     dbind (Find ct_scopes (\<lambda>s. cs_ParentID s = Some (cs_ID existing) \<and> cs_Kind s = ConfigScopeKindService)) (\<lambda>serviceKids.
     dbind (dfor serviceKids (moveKid dest)) (\<lambda>keep.
     dbind (DescendantScopes (cs_ID existing)) (\<lambda>desc.
     deleteScopeSubtree (filter (\<lambda>s. cs_ID s \<notin> set (concat keep)) desc)))))"

definition DetachDevice :: "nat \<Rightarrow> unit cfg" where
  "DetachDevice i =
     dbind (GetScope i) (\<lambda>existing.
     dbind (dguard (cs_Kind existing = ConfigScopeKindDevice) (StatusErr 400 ''detach is only for device scopes'')) (\<lambda>_.
     transaction cfg_rollback (detachTx existing)))"

end
