(* ===== verification/Cfg_Tree.thy ===== *)
theory Cfg_Tree
  imports Cfg_Scope
begin

text \<open>
  The tree invariant of the configuration scopes. Ids are distinct and from the sequence, one row has no parent, it is
  the folder \<open>global\<close>, and from every row the parent links lead to it. Nothing in the database enforces this: every
  operation of \<open>Cfg_Scope\<close> keeps it, whatever becomes of its statements.
\<close>

subsection \<open>The invariant\<close>

type_synonym link = "nat \<times> nat option"

definition link :: "ConfigScope \<Rightarrow> link" where
  "link s = (cs_ID s, cs_ParentID s)"

definition links :: "ConfigScope list \<Rightarrow> link set" where
  "links rows = link ` set rows"

inductive rooted :: "link set \<Rightarrow> nat \<Rightarrow> bool" for L where
  top: "(i, None) \<in> L \<Longrightarrow> rooted L i"
| sub: "(i, Some p) \<in> L \<Longrightarrow> rooted L p \<Longrightarrow> rooted L i"

definition isGlobal :: "ConfigScope \<Rightarrow> bool" where
  "isGlobal s \<longleftrightarrow> cs_Name s = ConfigRootName \<and> cs_Kind s = ConfigScopeKindFolder"

definition scopes_ok :: "ConfigScope list \<Rightarrow> bool" where
  "scopes_ok rows \<longleftrightarrow> distinct (map cs_ID rows) \<and> (\<forall>s \<in> set rows. rooted (links rows) (cs_ID s)) \<and>
     (\<exists>i. (i, None) \<in> links rows) \<and> (\<forall>i j. (i, None) \<in> links rows \<longrightarrow> (j, None) \<in> links rows \<longrightarrow> i = j) \<and>
     (\<forall>s \<in> set rows. cs_ParentID s = None \<longrightarrow> isGlobal s)"

definition tree_ok :: "cfg_db \<Rightarrow> bool" where
  "tree_ok db \<longleftrightarrow> scopes_ok (ct_scopes db) \<and> (\<forall>s \<in> set (ct_scopes db). 0 < cs_ID s \<and> cs_ID s < cq_scopes db) \<and> 0 < cq_scopes db"

lemma link_simps [simp]: "fst (link s) = cs_ID s" "snd (link s) = cs_ParentID s" "link s = (i, p) \<longleftrightarrow> cs_ID s = i \<and> cs_ParentID s = p"
  by (auto simp: link_def)

lemma linksI: "s \<in> set rows \<Longrightarrow> (cs_ID s, cs_ParentID s) \<in> links rows"
  by (force simp: links_def link_def)

lemma linksE: "(i, p) \<in> links rows \<Longrightarrow> \<exists>s \<in> set rows. cs_ID s = i \<and> cs_ParentID s = p"
  by (auto simp: links_def link_def)

lemma rooted_mono: "rooted L i \<Longrightarrow> L \<subseteq> M \<Longrightarrow> rooted M i"
  by (induction rule: rooted.induct) (auto intro: rooted.intros)

lemma distinct_row: "distinct (map cs_ID rows) \<Longrightarrow> s \<in> set rows \<Longrightarrow> t \<in> set rows \<Longrightarrow> cs_ID s = cs_ID t \<Longrightarrow> s = t"
  by (meson distinct_map inj_onD)

lemma distinct_link: "distinct (map cs_ID rows) \<Longrightarrow> (i, p) \<in> links rows \<Longrightarrow> (i, q) \<in> links rows \<Longrightarrow> p = q"
  using distinct_row by (force simp: links_def link_def)

lemma single_links: "distinct (map cs_ID rows) \<Longrightarrow> single_valued (links rows)"
  using distinct_link unfolding single_valued_def by blast

lemma rooted_id: "rooted (links rows) i \<Longrightarrow> i \<in> cs_ID ` set rows"
  by (cases rule: rooted.cases) (auto simp: links_def link_def)

lemma scopes_okI:
  assumes "distinct (map cs_ID rows)" and "\<And>s. s \<in> set rows \<Longrightarrow> rooted (links rows) (cs_ID s)" and "(t, None) \<in> links rows"
    and "\<And>i. (i, None) \<in> links rows \<Longrightarrow> i = t" and "\<And>s. s \<in> set rows \<Longrightarrow> cs_ParentID s = None \<Longrightarrow> isGlobal s"
  shows "scopes_ok rows"
  using assms unfolding scopes_ok_def by blast

lemma scopes_okD:
  assumes "scopes_ok rows"
  shows "distinct (map cs_ID rows)" and "s \<in> set rows \<Longrightarrow> rooted (links rows) (cs_ID s)" and "\<exists>t. (t, None) \<in> links rows"
    and "(i, None) \<in> links rows \<Longrightarrow> (j, None) \<in> links rows \<Longrightarrow> i = j" and "s \<in> set rows \<Longrightarrow> cs_ParentID s = None \<Longrightarrow> isGlobal s"
  using assms unfolding scopes_ok_def by blast+

lemma scopes_ok_parent:
  assumes "scopes_ok rows" and "s \<in> set rows" and "cs_ParentID s = Some p"
  shows "p \<in> cs_ID ` set rows"
proof -
  have "rooted (links rows) (cs_ID s)" using assms by (simp add: scopes_ok_def)
  then show ?thesis
  proof cases
    case top
    then show ?thesis using assms distinct_link[of rows "cs_ID s" None "Some p"] linksI[OF assms(2)] by (auto simp: scopes_ok_def)
  next
    case (sub q)
    then have "q = p" using assms distinct_link[of rows "cs_ID s" "Some q" "Some p"] linksI[OF assms(2)] by (auto simp: scopes_ok_def)
    then show ?thesis using sub rooted_id by simp
  qed
qed

text \<open>In a rooted tree no row is its own ancestor: a set of rows that holds the parent of each of its members is empty.\<close>

lemma rooted_no_cycle:
  assumes "rooted L i" and "single_valued L" and "\<And>j. j \<in> C \<Longrightarrow> \<exists>p \<in> C. (j, Some p) \<in> L"
  shows "i \<notin> C"
  using assms(1)
proof (induction rule: rooted.induct)
  case (top i)
  then show ?case using assms(3) single_valuedD[OF assms(2)] by blast
next
  case (sub i p)
  then show ?case using assms(3) single_valuedD[OF assms(2)] by blast
qed

subsection \<open>Changes to the rows\<close>

definition putRow :: "ConfigScope \<Rightarrow> ConfigScope list \<Rightarrow> ConfigScope list" where
  "putRow s rows = map (\<lambda>r. if cs_ID r = cs_ID s then s else r) rows"

lemma putRow_ids [simp]: "map cs_ID (putRow s rows) = map cs_ID rows"
  by (simp add: putRow_def)

lemma putRow_set: "r \<in> set (putRow s rows) \<Longrightarrow> r = s \<and> cs_ID s \<in> cs_ID ` set rows \<or> r \<in> set rows \<and> cs_ID r \<noteq> cs_ID s"
  unfolding putRow_def by (auto split: if_splits) (metis imageI)+

lemma putRow_links:
  assumes "cs_ID s \<in> cs_ID ` set rows"
  shows "links (putRow s rows) = insert (link s) {x \<in> links rows. fst x \<noteq> cs_ID s}"
proof (intro equalityI subsetI)
  fix x assume "x \<in> links (putRow s rows)"
  then show "x \<in> insert (link s) {x \<in> links rows. fst x \<noteq> cs_ID s}" by (auto simp: links_def dest!: putRow_set)
next
  fix x assume x: "x \<in> insert (link s) {x \<in> links rows. fst x \<noteq> cs_ID s}"
  have "s \<in> set (putRow s rows)" using assms unfolding putRow_def by force
  moreover have "r \<in> set (putRow s rows)" if "r \<in> set rows" "cs_ID r \<noteq> cs_ID s" for r using that unfolding putRow_def by force
  ultimately show "x \<in> links (putRow s rows)" using x unfolding links_def by fastforce
qed

text \<open>Putting a row that keeps the parentless rows what they are, into a list of rows all of which stay rooted.\<close>

lemma scopes_ok_putI:
  assumes ok: "scopes_ok rows" and mem: "cs_ID s \<in> cs_ID ` set rows"
    and tops: "\<And>i. (i, None) \<in> links (putRow s rows) \<longleftrightarrow> (i, None) \<in> links rows"
    and up: "\<And>i. rooted (links rows) i \<Longrightarrow> rooted (links (putRow s rows)) i" and top: "cs_ParentID s = None \<Longrightarrow> isGlobal s"
  shows "scopes_ok (putRow s rows)"
proof -
  obtain t where t: "(t, None) \<in> links rows" using scopes_okD(3)[OF ok] by blast
  show ?thesis
  proof (rule scopes_okI[of _ t])
    show "distinct (map cs_ID (putRow s rows))" using scopes_okD(1)[OF ok] by simp
    show "(t, None) \<in> links (putRow s rows)" by (simp only: tops t)
    show "i = t" if "(i, None) \<in> links (putRow s rows)" for i using that scopes_okD(4)[OF ok _ t] by (simp only: tops)
    show "rooted (links (putRow s rows)) (cs_ID r)" if "r \<in> set (putRow s rows)" for r
      by (rule up) (use putRow_set[OF that] mem scopes_okD(2)[OF ok] in auto)
    show "isGlobal r" if "r \<in> set (putRow s rows)" "cs_ParentID r = None" for r
      using putRow_set[OF that(1)] that(2) top scopes_okD(5)[OF ok] by blast
  qed
qed

lemma scopes_ok_insert:
  assumes ok: "scopes_ok rows" and new: "cs_ID s \<notin> cs_ID ` set rows" and p: "cs_ParentID s = Some p" "p \<in> cs_ID ` set rows"
  shows "scopes_ok (rows @ [s])"
proof -
  have L: "links (rows @ [s]) = insert (cs_ID s, Some p) (links rows)" using p by (auto simp: links_def link_def)
  have old: "rooted (links (rows @ [s])) (cs_ID r)" if "r \<in> set rows" for r
    by (rule rooted_mono[OF scopes_okD(2)[OF ok that]]) (auto simp: L)
  obtain q where "q \<in> set rows" "cs_ID q = p" using p(2) by auto
  then have low: "rooted (links (rows @ [s])) (cs_ID s)" using old[of q] by (auto simp: L intro: rooted.sub[of _ p])
  obtain t where t: "(t, None) \<in> links rows" using scopes_okD(3)[OF ok] by blast
  show ?thesis
  proof (rule scopes_okI[of _ t])
    show "distinct (map cs_ID (rows @ [s]))" using scopes_okD(1)[OF ok] new by simp
    show "i = t" if "(i, None) \<in> links (rows @ [s])" for i using that scopes_okD(4)[OF ok _ t] by (simp add: L)
    show "isGlobal r" if "r \<in> set (rows @ [s])" "cs_ParentID r = None" for r using that p(1) scopes_okD(5)[OF ok] by auto
    show "(t, None) \<in> links (rows @ [s])" using t by (simp add: L)
    show "rooted (links (rows @ [s])) (cs_ID r)" if "r \<in> set (rows @ [s])" for r using that old low by (cases "r = s") simp_all
  qed
qed

lemma scopes_ok_put:
  assumes ok: "scopes_ok rows" and here: "link s \<in> links rows" and top: "cs_ParentID s = None \<Longrightarrow> isGlobal s"
  shows "scopes_ok (putRow s rows)" and "links (putRow s rows) = links rows"
proof -
  have mem: "cs_ID s \<in> cs_ID ` set rows" using here by (auto simp: links_def link_def)
  have "x = link s" if "x \<in> links rows" "fst x = cs_ID s" for x
    using here that distinct_link[OF scopes_okD(1)[OF ok], of "cs_ID s" "snd x" "cs_ParentID s"] by (cases x) (auto simp: link_def)
  then show L: "links (putRow s rows) = links rows" unfolding putRow_links[OF mem] using here by blast
  show "scopes_ok (putRow s rows)" by (rule scopes_ok_putI[OF ok mem]) (use top in \<open>simp_all add: L\<close>)
qed

lemma rooted_reparent:
  assumes "rooted L i" and "(n, Some p) \<in> M" and "{x \<in> L. fst x \<noteq> n} \<subseteq> M" and "rooted M p"
  shows "rooted M i"
  using assms(1)
proof (induction rule: rooted.induct)
  case (top i)
  then show ?case using assms by (cases "i = n") (auto intro: rooted.intros)
next
  case (sub i q)
  then show ?case using assms by (cases "i = n") (auto intro: rooted.intros)
qed

lemma scopes_ok_reparent:
  assumes ok: "scopes_ok rows" and mem: "cs_ID s \<in> cs_ID ` set rows" and low: "(cs_ID s, None) \<notin> links rows"
    and p: "cs_ParentID s = Some p" "rooted {x \<in> links rows. fst x \<noteq> cs_ID s} p"
  shows "scopes_ok (putRow s rows)"
proof -
  let ?M = "links (putRow s rows)"
  have M: "?M = insert (cs_ID s, Some p) {x \<in> links rows. fst x \<noteq> cs_ID s}" using p(1) by (simp add: putRow_links[OF mem] link_def)
  have "rooted ?M p" by (rule rooted_mono[OF p(2)]) (auto simp: M)
  then have up: "rooted ?M i" if "rooted (links rows) i" for i by (rule rooted_reparent[OF that, rotated 2]) (auto simp: M)
  have tops: "(i, None) \<in> ?M \<longleftrightarrow> (i, None) \<in> links rows" for i using low by (auto simp: M)
  show ?thesis by (rule scopes_ok_putI[OF ok mem tops up]) (simp_all add: p(1))
qed

lemma scopes_ok_delete:
  assumes ok: "scopes_ok rows" and closed: "\<And>i p. (i, Some p) \<in> links rows \<Longrightarrow> p \<in> D \<Longrightarrow> i \<in> D"
    and keep: "\<And>i. (i, None) \<in> links rows \<Longrightarrow> i \<notin> D"
  shows "scopes_ok (filter (\<lambda>s. cs_ID s \<notin> D) rows)"
proof -
  let ?rows = "filter (\<lambda>s. cs_ID s \<notin> D) rows"
  have M: "links ?rows = {x \<in> links rows. fst x \<notin> D}" by (auto simp: links_def)
  have "i \<notin> D \<longrightarrow> rooted (links ?rows) i" if "rooted (links rows) i" for i
    using that
  proof (induction rule: rooted.induct)
    case (top i)
    then show ?case using keep by (auto simp: M intro: rooted.top)
  next
    case (sub i p)
    then show ?case using closed by (auto simp: M intro!: rooted.sub[of i p])
  qed
  then have up: "rooted (links ?rows) (cs_ID s)" if "s \<in> set ?rows" for s using that scopes_okD(2)[OF ok] by auto
  obtain t where t: "(t, None) \<in> links rows" using scopes_okD(3)[OF ok] by blast
  show ?thesis
  proof (rule scopes_okI[of _ t])
    show "distinct (map cs_ID ?rows)" using scopes_okD(1)[OF ok] by (rule distinct_map_filter)
    show "(t, None) \<in> links ?rows" using t keep by (simp add: M)
    show "i = t" if "(i, None) \<in> links ?rows" for i using that scopes_okD(4)[OF ok _ t] by (simp add: M)
  qed (use up scopes_okD(5)[OF ok] in auto)
qed

lemma scopes_ok_map:
  assumes ok: "scopes_ok rows" and f: "\<And>s. link (f s) = link s" "\<And>s. cs_Name (f s) = cs_Name s" "\<And>s. cs_Kind (f s) = cs_Kind s"
  shows "scopes_ok (map f rows)" and "links (map f rows) = links rows"
proof -
  have id: "cs_ID (f s) = cs_ID s" "cs_ParentID (f s) = cs_ParentID s" for s using f(1)[of s] by (auto simp: link_def)
  show L: "links (map f rows) = links rows" by (simp add: links_def image_image f(1))
  show "scopes_ok (map f rows)" using ok unfolding scopes_ok_def L by (simp add: id f isGlobal_def o_def)
qed

subsection \<open>Reading handlers\<close>

abbreviation rowsOf :: "cfg_db \<Rightarrow> ConfigScope set" where
  "rowsOf db \<equiv> set (ct_scopes db)"

abbreviation linksOf :: "cfg_db \<Rightarrow> link set" where
  "linksOf db \<equiv> links (ct_scopes db)"

lemma readonly_GetScope: "readonly (GetScope i)"
  unfolding GetScope_def by (auto intro!: readonly_rules split: sum.splits)

lemma readonly_RootScope: "readonly RootScope"
  unfolding RootScope_def by (auto intro!: readonly_rules split: sum.splits)

lemma readonly_walkFrom: "readonly (walkFrom n cur chain)"
  by (induction n arbitrary: cur chain) (auto intro!: readonly_rules split: sum.splits option.splits)

lemma readonly_WouldCycle: "readonly (WouldCycle n p)"
  unfolding WouldCycle_def WalkParents_def by (auto intro!: readonly_rules readonly_walkFrom split: sum.splits)

lemma readonly_optFirst: "readonly (optFirst P)"
  unfolding optFirst_def by (auto intro!: readonly_rules split: sum.splits)

lemma readonly_noneBut: "readonly (noneBut x P e)"
  unfolding noneBut_def by (intro readonly_rules)

lemma readonly_assertScopeUnique: "readonly (assertScopeUnique s x)"
  unfolding assertScopeUnique_def by (intro readonly_rules readonly_noneBut)

lemma readonly_assertCLIUnique: "readonly (assertCLIUnique s x)"
  unfolding assertCLIUnique_def by (intro readonly_rules readonly_noneBut)

lemma readonly_prepared: "readonly (prepared compile s x)"
  unfolding prepared_def by (intro readonly_rules readonly_assertScopeUnique readonly_assertCLIUnique)

lemma readonly_ListScopes: "readonly ListScopes"
  unfolding ListScopes_def by (intro readonly_rules)

lemma readonly_DescendantScopes: "readonly (DescendantScopes i)"
  unfolding DescendantScopes_def by (auto intro!: readonly_rules readonly_ListScopes split: list.splits)

lemma readonly_assertCurrentParentKind: "readonly (assertCurrentParentKind s)"
  unfolding assertCurrentParentKind_def by (auto intro!: readonly_rules readonly_GetScope split: option.splits)

lemmas readonly_cfg = readonly_rules readonly_GetScope readonly_RootScope readonly_walkFrom readonly_WouldCycle readonly_optFirst
  readonly_assertScopeUnique readonly_assertCLIUnique readonly_prepared readonly_ListScopes readonly_DescendantScopes readonly_assertCurrentParentKind

lemma GetScope_row: "triple P (GetScope i) (\<lambda>s db. P db \<and> s \<in> rowsOf db \<and> cs_ID s = i) P"
  unfolding GetScope_def
  by (rule triple_case[OF triple_First[where P = P and E = P]]) (auto intro!: triple_ret triple_fail)

lemma RootScope_row: "triple P RootScope (\<lambda>s db. P db \<and> s \<in> rowsOf db \<and> cs_ParentID s = None) P"
  unfolding RootScope_def
  by (rule triple_case[OF triple_First[where P = P and E = P]]) (auto intro!: triple_ret triple_fail)

lemma GetScope_then:
  assumes "\<And>s. cs_ID s = i \<Longrightarrow> triple (\<lambda>db. P db \<and> s \<in> rowsOf db) (f s) Q E" and "\<And>db. P db \<Longrightarrow> E db"
  shows "triple P (dbind (GetScope i) f) Q E"
proof (rule triple_bind)
  show "triple P (GetScope i) (\<lambda>s db. (P db \<and> s \<in> rowsOf db) \<and> cs_ID s = i) E" by (rule triple_weaken[OF GetScope_row]) (use assms(2) in \<open>blast+\<close>)
qed (rule triple_pure, use assms(1) in auto)

lemma RootScope_then:
  assumes "\<And>s. cs_ParentID s = None \<Longrightarrow> triple (\<lambda>db. P db \<and> s \<in> rowsOf db) (f s) Q E" and "\<And>db. P db \<Longrightarrow> E db"
  shows "triple P (dbind RootScope f) Q E"
proof (rule triple_bind)
  show "triple P RootScope (\<lambda>s db. (P db \<and> s \<in> rowsOf db) \<and> cs_ParentID s = None) E" by (rule triple_weaken[OF RootScope_row]) (use assms(2) in \<open>blast+\<close>)
qed (rule triple_pure, use assms(1) in auto)

lemma optFirst_row: "triple P (optFirst R) (\<lambda>x db. P db \<and> (case x of None \<Rightarrow> True | Some s \<Rightarrow> s \<in> rowsOf db \<and> R s)) P"
  unfolding optFirst_def
  by (rule triple_case[OF triple_First[where P = P and E = P]]) (auto intro!: triple_ret triple_fail)

text \<open>The chain of a scope that does not pass through \<open>n\<close> leads to the root by links of other rows.\<close>

lemma walkFrom_avoids:
  "triple (\<lambda>db. P db \<and> cur \<in> rowsOf db) (walkFrom k cur chain)
     (\<lambda>c db. P db \<and> set chain \<subseteq> set c \<and> (n \<notin> cs_ID ` set c \<longrightarrow> rooted {x \<in> linksOf db. fst x \<noteq> n} (cs_ID cur))) P"
proof (induction k arbitrary: cur chain P)
  case 0
  then show ?case by (auto intro!: triple_fail)
next
  case (Suc k)
  have step: "triple (\<lambda>db. P db \<and> cur \<in> rowsOf db \<and> nxt \<in> rowsOf db \<and> cs_ID nxt = p) (walkFrom k nxt (chain @ [cur]))
     (\<lambda>c db. P db \<and> set chain \<subseteq> set c \<and> (n \<notin> cs_ID ` set c \<longrightarrow> rooted {x \<in> linksOf db. fst x \<noteq> n} (cs_ID cur))) P"
    if "cs_ParentID cur = Some p" for nxt p
    by (rule triple_weaken[OF Suc.IH[where P = "\<lambda>db. P db \<and> cur \<in> rowsOf db \<and> cs_ID nxt = p"]])
      (use that in \<open>auto intro!: rooted.sub[of "cs_ID cur" p] dest: linksI\<close>)
  show ?case
  proof (cases "cs_ID cur \<in> cs_ID ` set chain")
    case True
    then show ?thesis by (auto intro!: triple_fail)
  next
    case False
    show ?thesis
    proof (cases "cs_ParentID cur")
      case None
      then show ?thesis using False by (auto intro!: triple_ret rooted.top dest: linksI)
    next
      case (Some p)
      have "triple (\<lambda>db. P db \<and> cur \<in> rowsOf db) (walkFrom (Suc k) cur chain)
         (\<lambda>c db. P db \<and> set chain \<subseteq> set c \<and> (n \<notin> cs_ID ` set c \<longrightarrow> rooted {x \<in> linksOf db. fst x \<noteq> n} (cs_ID cur))) P"
        unfolding walkFrom.simps if_not_P[OF False] Some option.case
        by (rule triple_case[OF triple_First[where P = "\<lambda>db. P db \<and> cur \<in> rowsOf db" and E = P]])
          (auto intro!: triple_fail step[OF Some])
      then show ?thesis .
    qed
  qed
qed

lemma WouldCycle_avoids:
  "triple P (WouldCycle n p) (\<lambda>c db. P db \<and> (\<not> c \<longrightarrow> p = 0 \<or> rooted {x \<in> linksOf db. fst x \<noteq> n} p)) P"
proof -
  have chain: "triple (\<lambda>db. P db \<and> parent \<in> rowsOf db \<and> cs_ID parent = p)
      (dbind (WalkParents parent) (\<lambda>chain. dret (list_ex (\<lambda>s. cs_ID s = n) chain)))
      (\<lambda>c db. P db \<and> (\<not> c \<longrightarrow> rooted {x \<in> linksOf db. fst x \<noteq> n} p)) P" for parent
  proof (rule triple_bind)
    show "triple (\<lambda>db. P db \<and> parent \<in> rowsOf db \<and> cs_ID parent = p) (WalkParents parent)
        (\<lambda>c db. P db \<and> (n \<notin> cs_ID ` set c \<longrightarrow> rooted {x \<in> linksOf db. fst x \<noteq> n} p)) P"
      unfolding WalkParents_def by (rule triple_weaken[OF walkFrom_avoids[where P = "\<lambda>db. P db \<and> cs_ID parent = p" and n = n]]) auto
  qed (auto intro!: triple_ret simp: list_ex_iff)
  show ?thesis unfolding WouldCycle_def
    by (auto intro!: triple_ret triple_case[OF triple_First[where P = P and E = P]] triple_fail chain)
qed

lemma WouldCycle_then:
  assumes "\<And>db. P db \<Longrightarrow> E db" and "triple (\<lambda>db. P db \<and> (p = 0 \<or> rooted {x \<in> linksOf db. fst x \<noteq> n} p)) m Q E"
  shows "triple P (dbind (WouldCycle n p) (\<lambda>c. dbind (dguard (\<not> c) e) (\<lambda>_. m))) Q E"
proof (rule triple_bind)
  show "triple P (WouldCycle n p) (\<lambda>c db. P db \<and> (\<not> c \<longrightarrow> p = 0 \<or> rooted {x \<in> linksOf db. fst x \<noteq> n} p)) E"
    by (rule triple_weaken[OF WouldCycle_avoids]) (use assms(1) in \<open>blast+\<close>)
  show "triple (\<lambda>db. P db \<and> (\<not> c \<longrightarrow> p = 0 \<or> rooted {x \<in> linksOf db. fst x \<noteq> n} p)) (dbind (dguard (\<not> c) e) (\<lambda>_. m)) Q E" for c
    by (rule guard_then) (use assms in auto)
qed

subsection \<open>Writing handlers\<close>

lemma tree_ok_rollback: "tree_ok db \<Longrightarrow> tree_ok (cfg_rollback db db')"
  by (auto simp: tree_ok_def cfg_rollback_def less_max_iff_disj)

interpretation cft: db_invariant tree_ok cfg_rollback
  by unfold_locales (rule tree_ok_rollback)

interpretation cfv: db_view "\<lambda>db. (ct_scopes db, cq_scopes db)" cfg_rollback
  by unfold_locales (simp add: cfg_rollback_def)

lemma normalizeCLIScope_same:
  "normalizeCLIScope compile s = Inr s' \<Longrightarrow> link s' = link s \<and> cs_Name s' = cs_Name s \<and> cs_Kind s' = cs_Kind s"
  by (auto simp: normalizeCLIScope_def Let_def link_def split: if_splits option.splits sum.splits)

lemma normalizeResourceScope_same:
  "normalizeResourceScope s = Inr s' \<Longrightarrow> link s' = link s \<and> cs_Name s' = cs_Name s \<and> cs_Kind s' = cs_Kind s"
  by (auto simp: normalizeResourceScope_def link_def split: if_splits sum.splits)

lemma triple_res_same: "(\<And>a. r = Inr a \<Longrightarrow> C a) \<Longrightarrow> triple P (dres r) (\<lambda>a db. P db \<and> C a) P"
  by (rule triple_res) (auto split: sum.splits)

lemma prepared_same:
  "triple P (prepared compile s x) (\<lambda>s' db. P db \<and> link s' = link s \<and> cs_Name s' = cs_Name s \<and> cs_Kind s' = cs_Kind s) P"
proof -
  let ?C = "\<lambda>s'. link s' = link s \<and> cs_Name s' = cs_Name s \<and> cs_Kind s' = cs_Kind s"
  have r: "triple (\<lambda>db. P db \<and> ?C s') (dres (normalizeResourceScope s')) (\<lambda>s'' db. (P db \<and> ?C s') \<and> ?C s'') P" for s'
    by (rule triple_weaken[OF triple_res_same[where P = "\<lambda>db. P db \<and> ?C s'" and C = "\<lambda>s''. link s'' = link s' \<and> cs_Name s'' = cs_Name s' \<and> cs_Kind s'' = cs_Kind s'"]])
      (auto dest: normalizeResourceScope_same)
  have c: "triple P (dres (normalizeCLIScope compile s)) (\<lambda>s' db. P db \<and> ?C s') P"
    by (rule triple_res_same) (rule normalizeCLIScope_same)
  show ?thesis unfolding prepared_def
    by (rule readonly_then[OF readonly_basic(4)], assumption, rule readonly_then[OF readonly_assertScopeUnique], assumption,
        rule triple_bind[OF c], rule triple_bind[OF r], rule readonly_then[OF readonly_assertCLIUnique])
      (auto intro!: triple_ret)
qed

lemma prepared_then:
  assumes "\<And>s'. link s' = link s \<Longrightarrow> cs_Name s' = cs_Name s \<Longrightarrow> cs_Kind s' = cs_Kind s \<Longrightarrow> triple P (f s') Q E" and "\<And>db. P db \<Longrightarrow> E db"
  shows "triple P (dbind (prepared compile s x) f) Q E"
proof (rule triple_bind)
  show "triple P (prepared compile s x) (\<lambda>s' db. P db \<and> (link s' = link s \<and> cs_Name s' = cs_Name s \<and> cs_Kind s' = cs_Kind s)) E"
    by (rule triple_weaken[OF prepared_same]) (use assms(2) in \<open>blast+\<close>)
qed (rule triple_pure, use assms(1) in auto)

lemma orConflict_triple: "triple P m Q E \<Longrightarrow> triple P (orConflict m) Q E"
  unfolding orConflict_def by (erule triple_case) (auto intro!: triple_ret triple_fail)

lemma insertScope_triple:
  assumes "cs_ParentID s = Some p"
  shows "triple (\<lambda>db. tree_ok db \<and> p \<in> cs_ID ` rowsOf db \<and> K \<subseteq> linksOf db) (insertScope s)
     (\<lambda>r db. tree_ok db \<and> link r \<in> linksOf db \<and> cs_ParentID r = Some p \<and> K \<subseteq> linksOf db) tree_ok"
proof -
  have bump: "tree_ok (db\<lparr>cq_scopes := Suc (cq_scopes db)\<rparr>)" if "tree_ok db" for db using that by (auto simp: tree_ok_def)
  have add: "tree_ok (db\<lparr>cq_scopes := Suc (cq_scopes db), ct_scopes := ct_scopes db @ [s\<lparr>cs_ID := cq_scopes db, cs_Enabled := True\<rparr>]\<rparr>)"
    if ok: "tree_ok db" "p \<in> cs_ID ` rowsOf db" for db
  proof -
    have "scopes_ok (ct_scopes db @ [s\<lparr>cs_ID := cq_scopes db, cs_Enabled := True\<rparr>])"
      by (rule scopes_ok_insert[where p = p]) (use ok assms in \<open>auto simp: tree_ok_def\<close>)
    then show ?thesis using ok(1) by (auto simp: tree_ok_def less_Suc_eq)
  qed
  show ?thesis unfolding insertScope_def Let_def
    by (rule triple_stmt) (use assms bump add in \<open>auto simp: links_def\<close>)
qed

lemma saveScope_triple:
  "triple (\<lambda>db. tree_ok db \<and> scopes_ok (putRow s (ct_scopes db)) \<and> cs_ID s \<in> cs_ID ` rowsOf db) (saveScope s)
     (\<lambda>_ db. tree_ok db \<and> link s \<in> linksOf db) tree_ok"
proof -
  have put: "tree_ok (db\<lparr>ct_scopes := putRow s (ct_scopes db)\<rparr>)" "link s \<in> links (putRow s (ct_scopes db))"
    if ok: "tree_ok db" "scopes_ok (putRow s (ct_scopes db))" "cs_ID s \<in> cs_ID ` rowsOf db" for db
    using ok by (auto simp: tree_ok_def putRow_links dest!: putRow_set)
  show ?thesis unfolding saveScope_def putRow_def[symmetric]
    by (rule triple_stmt_if) (use put in auto)
qed

lemma saveScope_then:
  assumes "\<And>db. P db \<Longrightarrow> tree_ok db \<and> scopes_ok (putRow s (ct_scopes db)) \<and> cs_ID s \<in> cs_ID ` rowsOf db"
    and "triple (\<lambda>db. tree_ok db \<and> link s \<in> linksOf db) m Q tree_ok"
  shows "triple P (dbind (saveScope s) (\<lambda>_. m)) Q tree_ok" and "triple P (dbind (orConflict (saveScope s)) (\<lambda>_. m)) Q tree_ok"
proof -
  have "triple P (saveScope s) (\<lambda>_ db. tree_ok db \<and> link s \<in> linksOf db) tree_ok"
    by (rule triple_weaken[OF saveScope_triple]) (use assms(1) in \<open>blast+\<close>)
  then show "triple P (dbind (saveScope s) (\<lambda>_. m)) Q tree_ok" and "triple P (dbind (orConflict (saveScope s)) (\<lambda>_. m)) Q tree_ok"
    by (auto intro!: triple_bind assms(2) orConflict_triple)
qed

lemma setSortOrder_ok: "triple (\<lambda>db. tree_ok db \<and> Q (linksOf db)) (setSortOrder i n) (\<lambda>_ db. tree_ok db \<and> Q (linksOf db)) (\<lambda>db. tree_ok db \<and> Q (linksOf db))"
proof -
  let ?f = "\<lambda>r. if cs_ID r = i then r\<lparr>cs_SortOrder := n\<rparr> else r"
  have "scopes_ok (map ?f rows) \<and> links (map ?f rows) = links rows" if "scopes_ok rows" for rows
    using scopes_ok_map[OF that, of ?f] by (simp add: link_def)
  then show ?thesis unfolding setSortOrder_def by (intro triple_stmt_total) (auto simp: tree_ok_def)
qed

lemma orders_ok:
  "triple (\<lambda>db. tree_ok db \<and> Q (linksOf db)) (placeAmongSiblings n p w) (\<lambda>_ db. tree_ok db \<and> Q (linksOf db)) (\<lambda>db. tree_ok db \<and> Q (linksOf db))"
  "triple (\<lambda>db. tree_ok db \<and> Q (linksOf db)) (compactSiblings p) (\<lambda>_ db. tree_ok db \<and> Q (linksOf db)) (\<lambda>db. tree_ok db \<and> Q (linksOf db))"
proof -
  let ?P = "\<lambda>db. tree_ok db \<and> Q (linksOf db)"
  have all: "triple ?P (dfor xs f) (\<lambda>_. ?P) ?P" if "\<And>x. triple ?P (f x) (\<lambda>_. ?P) ?P" for xs :: "'x list" and f :: "'x \<Rightarrow> unit cfg"
    by (rule triple_for_rest[where P = "\<lambda>_. ?P"]) (rule that)
  show "triple ?P (placeAmongSiblings n p w) (\<lambda>_. ?P) ?P" unfolding placeAmongSiblings_def Let_def
    by (rule readonly_then[OF readonly_reads(1)], assumption, rule triple_bind[OF all])
      (auto intro: setSortOrder_ok intro!: triple_ret)
  show "triple ?P (compactSiblings p) (\<lambda>_. ?P) ?P" unfolding compactSiblings_def Let_def
    by (rule readonly_then[OF readonly_reads(1)], assumption, rule triple_bind[OF all])
      (auto intro: setSortOrder_ok intro!: triple_ret)
qed

lemma CreateScope_ok: "triple tree_ok (CreateScope compile s) (\<lambda>_. tree_ok) tree_ok"
proof -
  have put: "triple (\<lambda>db. tree_ok db \<and> q \<in> rowsOf db)
      (dbind (dres r) (\<lambda>_. dbind (prepared compile t 0) (\<lambda>s. orConflict (insertScope (s\<lparr>cs_Enabled := True\<rparr>))))) (\<lambda>_. tree_ok) tree_ok"
    if t: "cs_ParentID t = Some (cs_ID q)" for q t and r :: "go_error + unit"
    by (rule readonly_then[OF readonly_basic(4)], simp, rule prepared_then,
        rule orConflict_triple, rule triple_weaken[OF insertScope_triple[where p = "cs_ID q" and K = "{}"]]) (auto simp: t link_def)
  show ?thesis
  proof (cases "cs_ParentID s")
    case None
    show ?thesis unfolding CreateScope_def Let_def None option.case
      by (rule guard_then, assumption, rule guard_then, assumption, rule RootScope_then) (auto intro!: put)
  next
    case (Some p)
    show ?thesis unfolding CreateScope_def Let_def Some option.case
      by (rule guard_then, assumption, rule guard_then, assumption, rule GetScope_then) (auto intro!: put simp: Some)
  qed
qed

lemma ensureInterfaceChildren_ok:
  "triple (\<lambda>db. tree_ok db \<and> link node \<in> linksOf db) (ensureInterfaceChildren node d) (\<lambda>_ db. tree_ok db \<and> link node \<in> linksOf db) tree_ok"
proof -
  let ?P = "\<lambda>db. tree_ok db \<and> link node \<in> linksOf db"
  have here: "cs_ID node \<in> cs_ID ` rowsOf db" if "link node \<in> linksOf db" for db using that by (auto simp: links_def link_def)
  have add: "triple ?P (insertScope s) (\<lambda>_. ?P) tree_ok" if "cs_ParentID s = Some (cs_ID node)" for s
    by (rule triple_weaken[OF insertScope_triple[OF that, where K = "{link node}"]]) (use here in auto)
  have "triple ?P (ensureInterfaceChild node d x) (\<lambda>_. ?P) tree_ok" for x
    unfolding ensureInterfaceChild_def scopeByInterfaceID_def
    by (cases x, simp, rule readonly_then[OF readonly_optFirst]) (auto split: option.splits intro!: triple_ret triple_bind[OF add])
  then show ?thesis unfolding ensureInterfaceChildren_def Let_def
    by (intro readonly_then[OF readonly_reads(1)] triple_bind[OF triple_for_rest[where P = "\<lambda>_. ?P"]] triple_ret) auto
qed

text \<open>A device row is not the root, so it can be put under any parent whose chain avoids it.\<close>

lemma reparent_ok:
  assumes "tree_ok db" and "cs_ParentID s = Some p" and "rooted {x \<in> linksOf db. fst x \<noteq> cs_ID s} p"
    and "r \<in> rowsOf db" and "cs_ID r = cs_ID s" and "(cs_ID r, None) \<notin> linksOf db"
  shows "scopes_ok (putRow s (ct_scopes db))"
proof (rule scopes_ok_reparent)
  show "cs_ID s \<in> cs_ID ` rowsOf db" using assms(4) unfolding assms(5)[symmetric] by (rule imageI)
qed (use assms in \<open>simp_all add: tree_ok_def\<close>)

lemma notTop:
  assumes "tree_ok db" and "r \<in> rowsOf db" and "\<not> isGlobal r"
  shows "(cs_ID r, None) \<notin> linksOf db"
  using assms distinct_link[of "ct_scopes db" "cs_ID r" None "cs_ParentID r"] linksI[OF assms(2)] scopes_okD[of "ct_scopes db"]
  by (auto simp: tree_ok_def)

lemma attachNode_ok:
  "triple (\<lambda>db. tree_ok db \<and> p \<in> cs_ID ` rowsOf db \<and> (case existing of None \<Rightarrow> True | Some r \<Rightarrow> r \<in> rowsOf db \<and> cs_Kind r = ConfigScopeKindDevice))
     (attachNode p d existing) (\<lambda>node db. tree_ok db \<and> link node \<in> linksOf db \<and> cs_ParentID node = Some p) tree_ok"
proof (cases existing)
  case None
  then show ?thesis unfolding attachNode_def by (auto intro!: triple_weaken[OF insertScope_triple[where p = p and K = "{}"]])
next
  case (Some r)
  let ?P = "\<lambda>db. tree_ok db \<and> p \<in> cs_ID ` rowsOf db \<and> r \<in> rowsOf db \<and> cs_Kind r = ConfigScopeKindDevice"
  let ?r = "r\<lparr>cs_ParentID := Some p, cs_Name := dv_Name d, cs_Kind := ConfigScopeKindDevice\<rparr>"
  have device: "\<not> isGlobal r" if "cs_Kind r = ConfigScopeKindDevice"
    using that by (simp add: isGlobal_def ConfigScopeKindDevice_def ConfigScopeKindFolder_def)
  have save: "triple (\<lambda>db. ?P db \<and> (p = 0 \<or> rooted {x \<in> linksOf db. fst x \<noteq> cs_ID r} p)) (dbind (saveScope ?r) (\<lambda>_. dret ?r))
      (\<lambda>node db. tree_ok db \<and> link node \<in> linksOf db \<and> cs_ParentID node = Some p) tree_ok"
  proof (rule saveScope_then(1))
    fix db assume a: "?P db \<and> (p = 0 \<or> rooted {x \<in> linksOf db. fst x \<noteq> cs_ID r} p)"
    then have "p \<noteq> 0" by (auto simp: tree_ok_def)
    then have "scopes_ok (putRow ?r (ct_scopes db))"
      using a device notTop[of db r] by (intro reparent_ok[of db ?r p r]) simp_all
    then show "tree_ok db \<and> scopes_ok (putRow ?r (ct_scopes db)) \<and> cs_ID ?r \<in> cs_ID ` rowsOf db" using a by simp
  qed (auto intro!: triple_ret simp: link_def)
  show ?thesis unfolding attachNode_def Some option.case Let_def
    by (rule guard_then, simp, rule WouldCycle_then[OF _ save]) simp
qed

lemma AttachDevice_ok:
  "triple tree_ok (AttachDevice p d) (\<lambda>node db. tree_ok db \<and> link node \<in> linksOf db \<and> cs_ParentID node = Some p) tree_ok"
proof -
  let ?P = "\<lambda>db. tree_ok db \<and> p \<in> cs_ID ` rowsOf db"
  have kids: "triple (\<lambda>db. tree_ok db \<and> link node \<in> linksOf db \<and> cs_ParentID node = Some p)
      (dbind (ensureInterfaceChildren node d) (\<lambda>_. dret node)) (\<lambda>node db. tree_ok db \<and> link node \<in> linksOf db \<and> cs_ParentID node = Some p) tree_ok" for node
  proof (cases "cs_ParentID node = Some p")
    case True
    have "triple (\<lambda>db. tree_ok db \<and> link node \<in> linksOf db) (dbind (ensureInterfaceChildren node d) (\<lambda>_. dret node))
        (\<lambda>node db. tree_ok db \<and> link node \<in> linksOf db \<and> cs_ParentID node = Some p) tree_ok"
      by (rule triple_bind[OF ensureInterfaceChildren_ok]) (auto intro!: triple_ret simp: True)
    then show ?thesis by (simp add: True)
  qed (simp add: triple_def)
  have node: "triple ?P (dbind (scopeByDeviceID d) (\<lambda>existing. dbind (attachNode p device existing) (\<lambda>node. dbind (ensureInterfaceChildren node d) (\<lambda>_. dret node))))
      (\<lambda>node db. tree_ok db \<and> link node \<in> linksOf db \<and> cs_ParentID node = Some p) tree_ok" for device
  proof (rule triple_bind)
    show "triple ?P (scopeByDeviceID d) (\<lambda>x db. tree_ok db \<and> p \<in> cs_ID ` rowsOf db \<and>
        (case x of None \<Rightarrow> True | Some r \<Rightarrow> r \<in> rowsOf db \<and> cs_Kind r = ConfigScopeKindDevice)) tree_ok"
      unfolding scopeByDeviceID_def by (rule triple_weaken[OF optFirst_row[where P = ?P]]) (auto split: option.splits)
  qed (rule triple_bind[OF attachNode_ok kids])
  have dev: "readonly (dcase (First dv_ID ct_devices R) (\<lambda>r. case r of Inr d \<Rightarrow> dret d | Inl e \<Rightarrow> dfail (f e)))" for R f
    by (auto intro!: readonly_rules split: sum.splits)
  show ?thesis unfolding AttachDevice_def
    by (rule GetScope_then, rule readonly_then[OF readonly_basic(4)], simp, rule readonly_then[OF dev], simp, rule triple_weaken[OF node]) auto
qed

text \<open>What \<open>MoveScope\<close> and \<open>UpdateScope\<close> hold in memory: a row whose kind may already be the new one, not that of the root.\<close>

lemma moveNode_ok:
  "triple (\<lambda>db. tree_ok db \<and> link s \<in> linksOf db \<and> (cs_ID s, None) \<notin> linksOf db \<and> p \<noteq> 0 \<and> rooted {x \<in> linksOf db. fst x \<noteq> cs_ID s} p)
     (moveNode s p) (\<lambda>node db. tree_ok db \<and> link node \<in> linksOf db \<and> cs_ParentID node = Some p) tree_ok"
proof (cases "cs_Kind s = ConfigScopeKindDevice")
  case True
  show ?thesis
  proof (cases "cs_DeviceID s")
    case None
    then show ?thesis unfolding moveNode_def using True by (auto intro!: triple_fail)
  next
    case (Some d)
    then show ?thesis unfolding moveNode_def using True
      by (auto intro!: triple_fail triple_weaken[OF AttachDevice_ok])
  qed
next
  case False
  let ?s = "s\<lparr>cs_ParentID := Some p\<rparr>"
  let ?P = "\<lambda>db. tree_ok db \<and> link s \<in> linksOf db \<and> (cs_ID s, None) \<notin> linksOf db \<and> p \<noteq> 0 \<and> rooted {x \<in> linksOf db. fst x \<noteq> cs_ID s} p"
  have "triple ?P (dbind (orConflict (saveScope ?s)) (\<lambda>_. dret ?s)) (\<lambda>node db. tree_ok db \<and> link node \<in> linksOf db \<and> cs_ParentID node = Some p) tree_ok"
  proof (rule saveScope_then(2))
    fix db assume a: "?P db"
    then obtain r where r: "r \<in> rowsOf db" "cs_ID r = cs_ID s" by (auto simp: links_def link_def)
    have "scopes_ok (putRow ?s (ct_scopes db))" using a r by (intro reparent_ok[of db ?s p r]) simp_all
    then show "tree_ok db \<and> scopes_ok (putRow ?s (ct_scopes db)) \<and> cs_ID ?s \<in> cs_ID ` rowsOf db" using a r imageI[OF r(1), of cs_ID] by simp
  qed (auto intro!: triple_ret simp: link_def)
  then show ?thesis unfolding moveNode_def Let_def if_not_P[OF False]
    by (intro readonly_then[OF readonly_assertScopeUnique]) simp_all
qed

lemma moveChecks_ok:
  assumes "cs_ParentID root = None"
  shows "triple (\<lambda>db. (tree_ok db \<and> link s \<in> linksOf db) \<and> root \<in> rowsOf db) (moveChecks root s p)
     (\<lambda>changed db. tree_ok db \<and> link s \<in> linksOf db \<and>
       (if changed then (cs_ID s, None) \<notin> linksOf db \<and> p \<noteq> 0 \<and> rooted {x \<in> linksOf db. fst x \<noteq> cs_ID s} p else cs_ParentID s = Some p)) tree_ok"
proof -
  let ?P = "\<lambda>db. (tree_ok db \<and> link s \<in> linksOf db) \<and> root \<in> rowsOf db"
  have low: "(cs_ID s, None) \<notin> linksOf db" if "?P db" "cs_ID s \<noteq> cs_ID root" for db
    using that assms linksI[of root "ct_scopes db"] scopes_okD(4)[of "ct_scopes db" "cs_ID s" "cs_ID root"] by (auto simp: tree_ok_def)
  have same: "cs_ParentID s = Some p" if "\<not> parentChanged s (Some p)" using that by (simp add: parentChanged_def)
  show ?thesis unfolding moveChecks_def Let_def
    apply (rule guard_then, simp)
    apply (rule guard_then, simp)
    apply (rule GetScope_then[rotated], simp)
    apply (rule guard_then, simp)
    apply (rule guard_then, simp)
    apply (cases "parentChanged s (Some p)")
     apply (simp only: if_True not_True_eq_False if_False)
     apply (rule guard_then, simp)
     apply (rule WouldCycle_then, simp)
     apply (rule readonly_then[OF readonly_basic(4)], simp)
     apply (rule triple_ret)
     apply (use low in \<open>auto simp: tree_ok_def\<close>)[1]
    apply (use same in \<open>auto intro!: triple_ret\<close>)
    done
qed

lemma reload_ok:
  assumes "cs_ParentID node = Some p"
  shows "triple (\<lambda>db. tree_ok db \<and> link node \<in> linksOf db) (GetScope (cs_ID node)) (\<lambda>r db. tree_ok db \<and> link r \<in> linksOf db \<and> cs_ParentID r = Some p) tree_ok"
proof (rule triple_weaken[OF GetScope_row])
  fix r db assume a: "(tree_ok db \<and> link node \<in> linksOf db) \<and> r \<in> rowsOf db \<and> cs_ID r = cs_ID node"
  then have "(cs_ID r, cs_ParentID r) \<in> linksOf db" "(cs_ID r, Some p) \<in> linksOf db" using linksI[of r] assms by (auto simp: link_def)
  then show "tree_ok db \<and> link r \<in> linksOf db \<and> cs_ParentID r = Some p"
    using a distinct_link[of "ct_scopes db" "cs_ID r" "cs_ParentID r" "Some p"] scopes_okD(1)[of "ct_scopes db"] by (auto simp: tree_ok_def link_def)
qed auto

lemma moveScopeTx_ok:
  "triple (\<lambda>db. tree_ok db \<and> link s \<in> linksOf db) (moveScopeTx s p w) (\<lambda>r db. tree_ok db \<and> link r \<in> linksOf db \<and> cs_ParentID r = Some p) tree_ok"
proof -
  let ?N = "\<lambda>node db. tree_ok db \<and> link node \<in> linksOf db \<and> cs_ParentID node = Some p"
  have place: "triple (\<lambda>db. tree_ok db \<and> link node \<in> linksOf db) (placeAmongSiblings (cs_ID node) p w) (\<lambda>_ db. tree_ok db \<and> link node \<in> linksOf db) tree_ok" for node
    by (rule triple_weaken[OF orders_ok(1)[where Q = "\<lambda>L. link node \<in> L"]]) auto
  have compact: "triple (\<lambda>db. tree_ok db \<and> link node \<in> linksOf db) (case cs_ParentID s of Some old \<Rightarrow> if c \<and> old \<noteq> p then compactSiblings old else dret () | None \<Rightarrow> dret ())
      (\<lambda>_ db. tree_ok db \<and> link node \<in> linksOf db) tree_ok" for node c
    by (auto split: option.splits intro!: triple_ret triple_weaken[OF orders_ok(2)[where Q = "\<lambda>L. link node \<in> L"]])
  have tail: "triple (?N node) (dbind (placeAmongSiblings (cs_ID node) p w) (\<lambda>_.
      dbind (case cs_ParentID s of Some old \<Rightarrow> if c \<and> old \<noteq> p then compactSiblings old else dret () | None \<Rightarrow> dret ()) (\<lambda>_. GetScope (cs_ID node)))) ?N tree_ok" for node c
  proof (cases "cs_ParentID node = Some p")
    case True
    have "triple (\<lambda>db. tree_ok db \<and> link node \<in> linksOf db) (dbind (placeAmongSiblings (cs_ID node) p w) (\<lambda>_.
      dbind (case cs_ParentID s of Some old \<Rightarrow> if c \<and> old \<noteq> p then compactSiblings old else dret () | None \<Rightarrow> dret ()) (\<lambda>_. GetScope (cs_ID node)))) ?N tree_ok"
      by (rule triple_bind[OF place triple_bind[OF compact reload_ok[OF True]]])
    then show ?thesis by (simp add: True)
  qed (simp add: triple_def)
  have node: "triple (\<lambda>db. tree_ok db \<and> link s \<in> linksOf db \<and>
       (if c then (cs_ID s, None) \<notin> linksOf db \<and> p \<noteq> 0 \<and> rooted {x \<in> linksOf db. fst x \<noteq> cs_ID s} p else cs_ParentID s = Some p))
      (if c then moveNode s p else dret s) ?N tree_ok" for c
    using moveNode_ok[of s p] by (cases c) (auto intro!: triple_ret)
  show ?thesis unfolding moveScopeTx_def
    by (rule RootScope_then, rule triple_bind[OF moveChecks_ok triple_bind[OF node tail]], assumption, simp)
qed

lemma MoveScope_ok: "triple tree_ok (MoveScope i p w) (\<lambda>_. tree_ok) tree_ok"
proof -
  have "triple tree_ok (dbind (GetScope i) (\<lambda>existing. moveScopeTx existing p w)) (\<lambda>_. tree_ok) tree_ok"
    by (rule GetScope_then) (auto intro!: triple_weaken[OF moveScopeTx_ok] dest: linksI simp: link_def)
  then show ?thesis unfolding MoveScope_def by (rule triple_transaction) (auto intro: tree_ok_rollback)
qed

text \<open>A patch that leaves the name and the kind of the root as they are.\<close>

definition rootPatch :: "ConfigScopeDTO \<Rightarrow> bool" where
  "rootPatch patch \<longleftrightarrow> given (cd_Name patch) \<in> {None, Some ConfigRootName} \<and> given (cd_Kind patch) \<in> {None, Some ConfigScopeKindFolder}"

lemma patchPlace_ok:
  assumes "cs_ID s = i" and "cs_ParentID s = None \<Longrightarrow> isGlobal s \<and> rootPatch patch"
  shows "triple (\<lambda>db. tree_ok db \<and> link s \<in> linksOf db) (patchPlace i s k patch)
     (\<lambda>r db. tree_ok db \<and> link r \<in> linksOf db \<and> (cs_ParentID r = None \<longrightarrow> isGlobal r \<and> rootPatch patch)) tree_ok"
proof -
  let ?P = "\<lambda>db. tree_ok db \<and> link s \<in> linksOf db"
  let ?Q = "\<lambda>r db. tree_ok db \<and> link r \<in> linksOf db \<and> (cs_ParentID r = None \<longrightarrow> isGlobal r \<and> rootPatch patch)"
  let ?rekind = "\<lambda>r. if k then r\<lparr>cs_Kind := cs_Kind s\<rparr> else r"
  have again: "triple (\<lambda>db. tree_ok db \<and> link r \<in> linksOf db \<and> cs_ParentID r = Some p) (dret (?rekind r)) ?Q tree_ok" for r p
    by (rule triple_ret) (auto simp: link_def)
  have keep: "triple ?P (dret s) ?Q tree_ok" by (rule triple_ret) (use assms(2) in auto)
  have place: "triple ?P (dbind (placeAmongSiblings (cs_ID s) p w) (\<lambda>_. dbind (GetScope i) (\<lambda>r. dret (?rekind r)))) ?Q tree_ok"
    if "cs_ParentID s = Some p" for p w
    unfolding assms(1)[symmetric]
    by (rule triple_bind[OF triple_weaken[OF orders_ok(1)[where Q = "\<lambda>L. link s \<in> L"]] triple_bind[OF reload_ok[OF that] again]]) auto
  have check: "readonly (if k then assertCurrentParentKind s else dret ())" by (intro readonly_if readonly_assertCurrentParentKind readonly_basic)
  show ?thesis
  proof (cases "if parentChanged s (cd_ParentID patch) then cd_ParentID patch else None")
    case None
    show ?thesis unfolding patchPlace_def Let_def None option.case
      by (rule readonly_then[OF check]) (auto intro!: place keep split: option.splits)
  next
    case (Some p)
    show ?thesis unfolding patchPlace_def Let_def Some option.case by (rule triple_bind[OF moveScopeTx_ok again])
  qed
qed

lemma triple_some: "(\<And>db. P db \<Longrightarrow> triple P m Q E) \<Longrightarrow> triple P m Q E"
  unfolding triple_def by blast

lemma rootGuards_then:
  assumes "(cs_ID existing = cs_ID root \<Longrightarrow> given (cd_Name patch) \<in> {None, Some (cs_Name existing)} \<and> given (cd_Kind patch) \<in> {None, Some (cs_Kind existing)}) \<Longrightarrow> triple P m Q E"
    and "\<And>db. P db \<Longrightarrow> E db"
  shows "triple P (dbind (rootGuards root existing patch) (\<lambda>_. m)) Q E"
  using assms unfolding rootGuards_def by (auto simp: triple_def run_bind run_basic)

lemma patchEnabled_same:
  "patchEnabled patch s = Inr s' \<Longrightarrow> link s' = link s \<and> cs_Name s' = cs_Name s \<and> cs_Kind s' = cs_Kind s"
  by (auto simp: patchEnabled_def link_def split: if_splits option.splits)

lemma patchFields_root:
  "link (patchFields patch s) = link s" "isGlobal s \<Longrightarrow> rootPatch patch \<Longrightarrow> isGlobal (patchFields patch s)"
  by (auto simp: patchFields_def link_def isGlobal_def rootPatch_def orKeep_def)

lemma patched_ok:
  "triple (\<lambda>db. tree_ok db \<and> link s \<in> linksOf db \<and> (cs_ParentID s = None \<longrightarrow> isGlobal s \<and> rootPatch patch))
     (dbind (dres (patchEnabled patch (patchFields patch s))) (\<lambda>s. dbind (prepared compile s (cs_ID s)) (\<lambda>s. dbind (orConflict (saveScope s)) (\<lambda>_. dret s))))
     (\<lambda>_. tree_ok) tree_ok"
proof -
  let ?P = "\<lambda>db. tree_ok db \<and> link s \<in> linksOf db \<and> (cs_ParentID s = None \<longrightarrow> isGlobal s \<and> rootPatch patch)"
  let ?C = "\<lambda>t. link t = link s \<and> (cs_ParentID s = None \<longrightarrow> isGlobal s \<longrightarrow> rootPatch patch \<longrightarrow> isGlobal t)"
  have save: "triple ?P (dbind (orConflict (saveScope t)) (\<lambda>_. dret t)) (\<lambda>_. tree_ok) tree_ok" if "?C t" for t
  proof (rule saveScope_then(2))
    fix db assume a: "?P db"
    have "cs_ID t \<in> cs_ID ` rowsOf db" using a that by (auto simp: links_def link_def)
    then show "tree_ok db \<and> scopes_ok (putRow t (ct_scopes db)) \<and> cs_ID t \<in> cs_ID ` rowsOf db"
      using a that scopes_ok_put(1)[of "ct_scopes db" t] by (auto simp: tree_ok_def link_def)
  qed (auto intro!: triple_ret)
  have patched: "?C t" if "patchEnabled patch (patchFields patch s) = Inr t" for t
    using patchEnabled_same[OF that] patchFields_root(1)[of patch s] patchFields_root(2)[of s patch] by (simp add: isGlobal_def)
  have "triple ?P (dbind (prepared compile t (cs_ID t)) (\<lambda>s. dbind (orConflict (saveScope s)) (\<lambda>_. dret s))) (\<lambda>_. tree_ok) tree_ok" if "?C t" for t
    by (rule prepared_then, rule save) (use that in \<open>auto simp: isGlobal_def\<close>)
  then show ?thesis using patched
    by (cases "patchEnabled patch (patchFields patch s)") (auto simp: triple_def run_bind run_basic)
qed

lemma updateScopeTx_ok: "triple tree_ok (updateScopeTx compile i patch) (\<lambda>_. tree_ok) tree_ok"
proof -
  let ?P = "\<lambda>e r db. (tree_ok db \<and> e \<in> rowsOf db) \<and> r \<in> rowsOf db"
  let ?e = "\<lambda>e. e\<lparr>cs_Kind := orKeep (given (cd_Kind patch)) (cs_Kind e)\<rparr>"
  have place: "triple (?P e r) (dbind (patchPlace i (?e e) k patch) (\<lambda>s. dbind (dres (patchEnabled patch (patchFields patch s))) (\<lambda>s.
        dbind (prepared compile s (cs_ID s)) (\<lambda>s. dbind (orConflict (saveScope s)) (\<lambda>_. dret s))))) (\<lambda>_. tree_ok) tree_ok"
    if i: "cs_ID e = i" and r: "cs_ParentID r = None"
      and g: "cs_ID e = cs_ID r \<Longrightarrow> given (cd_Name patch) \<in> {None, Some (cs_Name e)} \<and> given (cd_Kind patch) \<in> {None, Some (cs_Kind e)}" for e r k
  proof (rule triple_some)
    fix db assume P: "?P e r db"
    have root: "isGlobal (?e e) \<and> rootPatch patch" if top: "cs_ParentID (?e e) = None"
    proof -
      have "cs_ID e = cs_ID r"
        using P r top linksI[of e "ct_scopes db"] linksI[of r "ct_scopes db"] scopes_okD(4)[of "ct_scopes db" "cs_ID e" "cs_ID r"] by (auto simp: tree_ok_def)
      then show ?thesis using g P top scopes_okD(5)[of "ct_scopes db" e] by (auto simp: tree_ok_def isGlobal_def rootPatch_def orKeep_def)
    qed
    show "triple (?P e r) (dbind (patchPlace i (?e e) k patch) (\<lambda>s. dbind (dres (patchEnabled patch (patchFields patch s))) (\<lambda>s.
        dbind (prepared compile s (cs_ID s)) (\<lambda>s. dbind (orConflict (saveScope s)) (\<lambda>_. dret s))))) (\<lambda>_. tree_ok) tree_ok"
      by (rule triple_weaken[OF triple_bind[OF patchPlace_ok patched_ok]]) (use i root linksI in \<open>auto simp: link_def\<close>)
  qed
  show ?thesis unfolding updateScopeTx_def Let_def
    by (rule GetScope_then, rule RootScope_then, rule rootGuards_then, rule guard_then, simp, rule place) auto
qed

lemma UpdateScope_ok: "triple tree_ok (UpdateScope compile i patch) (\<lambda>_. tree_ok) tree_ok"
  unfolding UpdateScope_def by (rule triple_transaction[OF updateScopeTx_ok]) (auto intro: tree_ok_rollback)

subsection \<open>Depths\<close>

inductive depth :: "link set \<Rightarrow> nat \<Rightarrow> nat \<Rightarrow> bool" for L where
  top: "(i, None) \<in> L \<Longrightarrow> depth L i 0"
| sub: "(i, Some p) \<in> L \<Longrightarrow> depth L p k \<Longrightarrow> depth L i (Suc k)"

lemma rooted_depth: "rooted L i \<Longrightarrow> \<exists>k. depth L i k"
  by (induction rule: rooted.induct) (auto intro: depth.intros)

lemma depth_unique:
  assumes "single_valued L"
  shows "depth L i k \<Longrightarrow> depth L i m \<Longrightarrow> k = m"
proof (induction arbitrary: m rule: depth.induct)
  case (top i)
  from top(2,1) show ?case by cases (auto dest: single_valuedD[OF assms])
next
  case (sub i p k)
  from sub(4) show ?case
  proof cases
    case top
    then show ?thesis using single_valuedD[OF assms sub(1)] by blast
  next
    case (sub q n)
    then show ?thesis using single_valuedD[OF assms \<open>(i, Some p) \<in> L\<close>, of "Some q"] \<open>\<And>m. depth L p m \<Longrightarrow> k = m\<close> by blast
  qed
qed

lemma depth_avoids:
  assumes single: "single_valued L" and n: "depth L n m"
  shows "depth L i k \<Longrightarrow> k < m \<Longrightarrow> rooted {x \<in> L. fst x \<noteq> n} i"
proof (induction rule: depth.induct)
  case (top i)
  then have "i \<noteq> n" using depth_unique[OF single depth.top n] by auto
  then show ?case using top by (auto intro: rooted.top)
next
  case (sub i p k)
  then have "i \<noteq> n" using depth_unique[OF single depth.sub n] by auto
  then show ?case using sub by (auto intro: rooted.sub[of i p])
qed

subsection \<open>Subtrees\<close>

text \<open>The rows at and below \<open>i\<close>: with a row its children, and with a row other than that of \<open>i\<close> its parent.\<close>

definition isSubtree :: "ConfigScope list \<Rightarrow> nat \<Rightarrow> ConfigScope list \<Rightarrow> bool" where
  "isSubtree rows i out \<longleftrightarrow> set out \<subseteq> set rows \<and> i \<in> cs_ID ` set out \<and> distinct (map cs_ID out) \<and>
     (\<forall>c \<in> set rows. \<forall>x \<in> set out. cs_ParentID c = Some (cs_ID x) \<longrightarrow> cs_ID c \<in> cs_ID ` set out) \<and>
     (\<forall>x \<in> set out. cs_ID x = i \<or> (\<exists>p \<in> cs_ID ` set out. cs_ParentID x = Some p))"

lemma descend_from: "x \<in> set (descend rows seen stack) \<Longrightarrow> x \<in> set stack \<or> x \<in> set rows"
  by (induction rows seen stack rule: descend.induct) (auto split: if_splits)

lemma descend_stack: "t \<in> set stack \<Longrightarrow> cs_ID t \<in> cs_ID ` set (descend rows seen stack) \<union> set seen"
  by (induction rows seen stack rule: descend.induct) auto

lemma descend_unseen: "distinct (map cs_ID (descend rows seen stack)) \<and> cs_ID ` set (descend rows seen stack) \<inter> set seen = {}"
  by (induction rows seen stack rule: descend.induct) auto

lemma descend_closed:
  "x \<in> set (descend rows seen stack) \<Longrightarrow> c \<in> set rows \<Longrightarrow> cs_ParentID c = Some (cs_ID x) \<Longrightarrow>
   cs_ID c \<in> cs_ID ` set (descend rows seen stack) \<union> set seen"
proof (induction rows seen stack rule: descend.induct)
  case (2 rows seen s stack)
  show ?case
  proof (cases "cs_ID s \<in> set seen")
    case True
    then show ?thesis using 2 by simp
  next
    case False
    let ?more = "descend rows (cs_ID s # seen) (filter (\<lambda>c. cs_ParentID c = Some (cs_ID s)) rows @ stack)"
    have "cs_ID c \<in> cs_ID ` set ?more \<union> set (cs_ID s # seen)"
    proof (cases "x = s")
      case True
      then show ?thesis using 2(4,5) by (intro descend_stack) auto
    next
      case other: False
      then show ?thesis using 2(2)[OF False _ 2(4,5)] 2(3) False by simp
    qed
    then show ?thesis using False by auto
  qed
qed simp

lemma descend_parent:
  "x \<in> set (descend rows seen stack) \<Longrightarrow> x \<in> set stack \<or> (\<exists>p \<in> cs_ID ` set (descend rows seen stack). cs_ParentID x = Some p)"
proof (induction rows seen stack rule: descend.induct)
  case (2 rows seen s stack)
  then show ?case by (cases "cs_ID s \<in> set seen") (auto split: if_splits)
qed simp

lemma descend_subtree:
  assumes "set rows = set rows'" and "s \<in> set rows"
  shows "isSubtree rows (cs_ID s) (descend rows' [] [s])"
  unfolding isSubtree_def
proof (intro conjI ballI impI)
  let ?out = "descend rows' [] [s]"
  show "set ?out \<subseteq> set rows" using descend_from[of _ rows' "[]" "[s]"] assms by auto
  show "cs_ID s \<in> cs_ID ` set ?out" using descend_stack[of s "[s]" rows' "[]"] by simp
  show "distinct (map cs_ID ?out)" using descend_unseen[of rows' "[]" "[s]"] by simp
  show "cs_ID c \<in> cs_ID ` set ?out" if "c \<in> set rows" "x \<in> set ?out" "cs_ParentID c = Some (cs_ID x)" for c x
    using descend_closed[OF that(2) _ that(3)] that(1) assms(1) by simp
  show "cs_ID x = cs_ID s \<or> (\<exists>p \<in> cs_ID ` set ?out. cs_ParentID x = Some p)" if "x \<in> set ?out" for x
    using descend_parent[OF that] by auto
qed

lemma DescendantScopes_subtree:
  "triple P (DescendantScopes i) (\<lambda>out db. P db \<and> isSubtree (ct_scopes db) i out) P"
proof -
  have "triple (\<lambda>db. P db \<and> rows = order_by scopeOrder (ct_scopes db))
      (case filter (\<lambda>s. cs_ID s = i) rows of [] \<Rightarrow> dfail (StatusErr 404 ''scope not found'') | starts \<Rightarrow> dret (descend rows [] [last starts]))
      (\<lambda>out db. P db \<and> isSubtree (ct_scopes db) i out) P" for rows
  proof (cases "filter (\<lambda>s. cs_ID s = i) rows")
    case Nil
    then show ?thesis by (auto intro!: triple_fail)
  next
    case (Cons a as)
    have "last (a # as) \<in> set (filter (\<lambda>s. cs_ID s = i) rows)" unfolding Cons by (rule last_in_set) simp
    then have "isSubtree (ct_scopes db) i (descend rows [] [last (a # as)])" if "rows = order_by scopeOrder (ct_scopes db)" for db
      using descend_subtree[of "ct_scopes db" rows "last (a # as)"] that by auto
    then show ?thesis unfolding Cons list.case by (intro triple_ret) blast
  qed
  moreover have "triple P ListScopes (\<lambda>rows db. P db \<and> rows = order_by scopeOrder (ct_scopes db)) P"
    unfolding ListScopes_def by (rule triple_bind[OF triple_Find]) (auto intro!: triple_ret)
  ultimately show ?thesis unfolding DescendantScopes_def by (rule triple_bind[rotated])
qed

subsection \<open>Detaching\<close>

text \<open>A loop that collects its results: \<open>P ys xs\<close> holds when \<open>ys\<close> has been collected and \<open>xs\<close> is still to be done.\<close>

lemma triple_for_acc:
  assumes "\<And>ys x xs. triple (P ys (x # xs)) (f x) (\<lambda>y. P (ys @ [y]) xs) E"
  shows "triple (P ys xs) (dfor xs f) (\<lambda>zs. P (ys @ zs) []) E"
proof (induction xs arbitrary: ys)
  case Nil
  then show ?case by (auto intro: triple_ret)
next
  case (Cons x xs)
  have "triple (P (ys @ [y]) xs) (dbind (dfor xs f) (\<lambda>zs. dret (y # zs))) (\<lambda>zs. P (ys @ zs) []) E" for y
    by (rule triple_bind[OF Cons.IH], rule triple_ret) simp
  then show ?case unfolding dfor.simps by (rule triple_bind[OF assms])
qed

lemma deleteScopeSubtree_rows:
  "triple (\<lambda>db. ct_scopes db = rows \<and> cq_scopes db = q) (deleteScopeSubtree xs)
     (\<lambda>_ db. ct_scopes db = filter (\<lambda>s. cs_ID s \<notin> cs_ID ` set xs) rows \<and> cq_scopes db = q) (\<lambda>_. True)"
proof -
  let ?P = "\<lambda>todo db. filter (\<lambda>s. cs_ID s \<notin> cs_ID ` set todo) (ct_scopes db) = filter (\<lambda>s. cs_ID s \<notin> cs_ID ` set xs) rows \<and> cq_scopes db = q"
  have other: "cfv.same (deleteAssignments R)" "cfv.same (deleteFeatures i)" for R i
    unfolding deleteAssignments_def deleteFeatures_def by (rule cfv.same_stmt; simp)+
  have param: "cfv.same (deleteParameterAssignments s)" for s
    unfolding deleteParameterAssignments_def reservedParametersParent_def
    by (auto intro!: cfv.same_bind cfv.same_for other cfv.same_readonly[OF readonly_GetScope] cfv.same_case cfv.same_basic split: option.splits sum.splits)
  have step: "triple (?P (x # todo)) (deleteOneScope x) (\<lambda>_. ?P todo) (\<lambda>_. True)" for x todo
  proof -
    have row: "triple (?P (x # todo)) (deleteScopeRow (cs_ID x)) (\<lambda>_. ?P todo) (\<lambda>_. True)"
      unfolding deleteScopeRow_def by (rule triple_stmt) (auto simp: filter_filter conj_commute)
    have pre: "triple (?P (x # todo)) m (\<lambda>_. ?P (x # todo)) (\<lambda>_. True)" if "cfv.same m" for m :: "unit cfg"
      using cfv.same_triple[OF that, of "\<lambda>(r, n). filter (\<lambda>s. cs_ID s \<notin> cs_ID ` set (x # todo)) r = filter (\<lambda>s. cs_ID s \<notin> cs_ID ` set xs) rows \<and> n = q"]
      by (simp add: triple_weaken)
    show ?thesis unfolding deleteOneScope_def
      by (rule triple_bind[OF pre], simp add: param cfv.same_basic, rule triple_bind[OF pre[OF other(1)]], rule triple_bind[OF pre[OF other(2)]], rule row)
  qed
  show ?thesis unfolding deleteScopeSubtree_def
    by (rule triple_weaken[OF triple_bind[OF triple_for_rest[where P = ?P, OF step]]], rule triple_ret) auto
qed

lemma GetScope_found:
  assumes "p \<in> cs_ID ` rowsOf (fst st)" and "fst (GetScope p st) = Inl e"
  shows "\<not> hasStatus 404 e"
proof -
  obtain db evs where st: "st = (db, evs)" by (cases st)
  have "first_by cs_ID (\<lambda>s. cs_ID s = p) (ct_scopes db) \<noteq> None" using assms(1) by (auto simp: first_by_None st)
  then show ?thesis using assms(2)
    by (auto simp: st GetScope_def dcase_def First_def stmt_def dret_def dfail_def hasStatus_def split: list.splits event.splits option.splits if_splits)
qed

lemma device_parent:
  assumes "tree_ok db" and "e \<in> rowsOf db" and "cs_Kind e = ConfigScopeKindDevice"
  shows "\<exists>p \<in> cs_ID ` rowsOf db. cs_ParentID e = Some p"
proof (cases "cs_ParentID e")
  case None
  then show ?thesis using assms scopes_okD(5)[of "ct_scopes db" e] by (auto simp: tree_ok_def isGlobal_def ConfigScopeKindDevice_def ConfigScopeKindFolder_def)
next
  case (Some p)
  then show ?thesis using assms scopes_ok_parent[of "ct_scopes db" e p] by (auto simp: tree_ok_def)
qed

text \<open>In a tree the services of a device go to the parent of the device: the folder for orphans is not needed.\<close>

lemma detachDestParent_ok:
  "triple (\<lambda>db. tree_ok db \<and> e \<in> rowsOf db \<and> cs_Kind e = ConfigScopeKindDevice) (detachDestParent e)
     (\<lambda>dest db. tree_ok db \<and> e \<in> rowsOf db \<and> cs_ParentID e = Some dest) (\<lambda>_. True)"
  unfolding triple_def
proof (intro allI impI)
  fix st :: "cfg_db dbst"
  assume a: "tree_ok (fst st) \<and> e \<in> rowsOf (fst st) \<and> cs_Kind e = ConfigScopeKindDevice"
  then obtain p where p: "p \<in> cs_ID ` rowsOf (fst st)" "cs_ParentID e = Some p" using device_parent by blast
  have ro: "fst (snd (GetScope p st)) = fst st" using readonly_GetScope unfolding readonly_def by blast
  show "outcome (\<lambda>dest db. tree_ok db \<and> e \<in> rowsOf db \<and> cs_ParentID e = Some dest) (\<lambda>_. True) (detachDestParent e st)"
    using a p ro GetScope_found[OF p(1)] by (cases "GetScope p st") (auto simp: detachDestParent_def Let_def run_basic split: sum.splits)
qed

text \<open>Ids whose parents are again among them or are \<open>dest\<close>.\<close>

definition upTo :: "nat \<Rightarrow> link set \<Rightarrow> nat set \<Rightarrow> bool" where
  "upTo dest L K \<longleftrightarrow> (\<forall>i q. (i, q) \<in> L \<longrightarrow> i \<in> K \<longrightarrow> q = Some dest \<or> (\<exists>p \<in> K. q = Some p))"

lemma upTo_subtree:
  assumes ok: "scopes_ok rows" and sub: "isSubtree rows (cs_ID k) out" and up: "upTo dest (links rows) K" and mem: "cs_ID k \<in> cs_ID ` set rows"
  shows "upTo dest (links (putRow (k\<lparr>cs_ParentID := Some dest\<rparr>) rows)) (K \<union> cs_ID ` set out)"
proof -
  have L: "links (putRow (k\<lparr>cs_ParentID := Some dest\<rparr>) rows) = insert (cs_ID k, Some dest) {x \<in> links rows. fst x \<noteq> cs_ID k}"
    using putRow_links[of "k\<lparr>cs_ParentID := Some dest\<rparr>" rows] mem by (simp add: link_def)
  have "\<exists>p \<in> cs_ID ` set out. q = Some p" if i: "(i, q) \<in> links rows" "i \<noteq> cs_ID k" "i \<in> cs_ID ` set out" for i q
  proof -
    obtain x where x: "x \<in> set out" "cs_ID x = i" using i(3) by auto
    then have "x \<in> set rows" using sub by (auto simp: isSubtree_def)
    then have "q = cs_ParentID x" using distinct_link[OF scopes_okD(1)[OF ok] i(1)] linksI[of x rows] x(2) by simp
    then show ?thesis using sub x i(2) by (auto simp: isSubtree_def)
  qed
  then show ?thesis using up unfolding upTo_def L by simp blast
qed

text \<open>A child of \<open>e\<close> can be put under the parent of \<open>e\<close>.\<close>

lemma kid_up:
  assumes ok: "scopes_ok rows" and e: "(i, Some dest) \<in> links rows" and k: "(j, Some i) \<in> links rows"
  shows "rooted {x \<in> links rows. fst x \<noteq> j} dest" and "j \<noteq> i" and "(j, None) \<notin> links rows"
proof -
  note single = single_links[OF scopes_okD(1)[OF ok]]
  obtain s where "s \<in> set rows" "cs_ID s = i" using e by (auto simp: links_def link_def)
  then obtain m where i: "depth (links rows) i m" using scopes_okD(2)[OF ok] rooted_depth by blast
  then obtain d where d: "depth (links rows) dest d" "m = Suc d"
    by cases (use e single_valuedD[OF single] in \<open>blast+\<close>)
  have j: "depth (links rows) j (Suc m)" using k i by (rule depth.sub)
  show "rooted {x \<in> links rows. fst x \<noteq> j} dest" by (rule depth_avoids[OF single j d(1)]) (simp add: d(2))
  show "j \<noteq> i" using depth_unique[OF single i, of "Suc m"] j by auto
  show "(j, None) \<notin> links rows" using k single_valuedD[OF single] by blast
qed

definition detaching :: "ConfigScope \<Rightarrow> nat \<Rightarrow> nat list list \<Rightarrow> ConfigScope list \<Rightarrow> cfg_db \<Rightarrow> bool" where
  "detaching e dest keep kids db \<longleftrightarrow> tree_ok db \<and> (cs_ID e, Some dest) \<in> linksOf db \<and> distinct (map cs_ID kids) \<and>
     (\<forall>k \<in> set kids. (cs_ID k, Some (cs_ID e)) \<in> linksOf db) \<and> upTo dest (linksOf db) (set (concat keep))"

lemma detaching_step:
  assumes d: "detaching e dest keep (k # kids) db" and sub: "isSubtree (ct_scopes db) (cs_ID k) out"
  shows "detaching e dest (keep @ [map cs_ID out]) kids (db\<lparr>ct_scopes := putRow (k\<lparr>cs_ParentID := Some dest\<rparr>) (ct_scopes db)\<rparr>)"
proof -
  let ?k = "k\<lparr>cs_ParentID := Some dest\<rparr>"
  have ok: "scopes_ok (ct_scopes db)" and e: "(cs_ID e, Some dest) \<in> linksOf db" and k: "(cs_ID k, Some (cs_ID e)) \<in> linksOf db"
    using d by (auto simp: detaching_def tree_ok_def)
  note up = kid_up[OF ok e k]
  have mem: "cs_ID k \<in> cs_ID ` rowsOf db" using k by (auto simp: links_def link_def)
  have L: "links (putRow ?k (ct_scopes db)) = insert (cs_ID k, Some dest) {x \<in> linksOf db. fst x \<noteq> cs_ID k}"
    using putRow_links[of ?k "ct_scopes db"] mem by (simp add: link_def)
  have "scopes_ok (putRow ?k (ct_scopes db))" by (rule scopes_ok_reparent[OF ok]) (use mem up in simp_all)
  then have "tree_ok (db\<lparr>ct_scopes := putRow ?k (ct_scopes db)\<rparr>)" using d mem by (auto simp: detaching_def tree_ok_def dest!: putRow_set)
  moreover have "upTo dest (links (putRow ?k (ct_scopes db))) (set (concat (keep @ [map cs_ID out])))"
    using upTo_subtree[OF ok sub _ mem, of dest "set (concat keep)"] d by (simp add: detaching_def)
  moreover have "cs_ID x \<noteq> cs_ID k" if "x \<in> set kids" for x using d imageI[OF that, of cs_ID] by (auto simp: detaching_def)
  ultimately show ?thesis using d up(2) unfolding detaching_def by (auto simp: L)
qed

lemma dbind_ret: "dbind (dbind m (\<lambda>x. dret (f x))) g = dbind m (\<lambda>x. g (f x))"
  by (rule ext) (simp add: run_bind run_basic split: prod.splits sum.splits)

lemma DescendantScopes_then:
  assumes "\<And>out. triple (\<lambda>db. P db \<and> isSubtree (ct_scopes db) i out) (f out) Q E" and "\<And>db. P db \<Longrightarrow> E db"
  shows "triple P (dbind (DescendantScopes i) f) Q E"
proof (rule triple_bind)
  show "triple P (DescendantScopes i) (\<lambda>out db. P db \<and> isSubtree (ct_scopes db) i out) E"
    by (rule triple_weaken[OF DescendantScopes_subtree]) (use assms(2) in \<open>blast+\<close>)
qed (rule assms(1))

lemma moveKid_ok:
  "triple (detaching e dest keep (k # kids)) (moveKid dest k) (\<lambda>ids. detaching e dest (keep @ [ids]) kids) (\<lambda>_. True)"
proof -
  have save: "triple (\<lambda>db. detaching e dest keep (k # kids) db \<and> isSubtree (ct_scopes db) (cs_ID k) out) (saveScope (k\<lparr>cs_ParentID := Some dest\<rparr>))
      (\<lambda>_. detaching e dest (keep @ [map cs_ID out]) kids) (\<lambda>_. True)" for out
    unfolding saveScope_def putRow_def[symmetric] by (rule triple_stmt_if) (auto dest: detaching_step)
  show ?thesis unfolding moveKid_def descendantIDs_def dbind_ret
    by (rule DescendantScopes_then, rule triple_bind[OF save], rule triple_ret) simp_all
qed

lemma detached_ok:
  assumes d: "detaching e dest keep [] db" and sub: "isSubtree (ct_scopes db) (cs_ID e) out"
  shows "scopes_ok (filter (\<lambda>s. cs_ID s \<notin> cs_ID ` set (filter (\<lambda>s. cs_ID s \<notin> set (concat keep)) out)) (ct_scopes db))"
proof (rule scopes_ok_delete)
  let ?D = "cs_ID ` set (filter (\<lambda>s. cs_ID s \<notin> set (concat keep)) out)"
  show ok: "scopes_ok (ct_scopes db)" using d by (simp add: detaching_def tree_ok_def)
  note single = single_links[OF scopes_okD(1)[OF ok]]
  have e: "(cs_ID e, Some dest) \<in> linksOf db" using d by (simp add: detaching_def)
  have parent: "\<exists>p. (j, Some p) \<in> linksOf db \<and> (p = dest \<or> p \<in> cs_ID ` set out)" if "j \<in> cs_ID ` set out" for j
  proof (cases "j = cs_ID e")
    case False
    obtain x where x: "x \<in> set out" "cs_ID x = j" using \<open>j \<in> cs_ID ` set out\<close> by auto
    then have "(j, cs_ParentID x) \<in> linksOf db" using sub linksI[of x "ct_scopes db"] by (auto simp: isSubtree_def)
    moreover obtain p where "p \<in> cs_ID ` set out" "cs_ParentID x = Some p" using sub x False unfolding isSubtree_def by blast
    ultimately show ?thesis by auto
  qed (use e in blast)
  have dest: "dest \<notin> cs_ID ` set out"
  proof
    assume in_out: "dest \<in> cs_ID ` set out"
    then have "dest \<in> cs_ID ` rowsOf db" using sub by (auto simp: isSubtree_def)
    then have "rooted (linksOf db) dest" using scopes_okD(2)[OF ok] by auto
    then show False using rooted_no_cycle[OF _ single, of dest "cs_ID ` set out"] parent in_out by blast
  qed
  show "i \<notin> ?D" if "(i, None) \<in> linksOf db" for i
  proof
    assume "i \<in> ?D"
    then have "i \<in> cs_ID ` set out" by auto
    then show False using parent that single_valuedD[OF single] by blast
  qed
  show "i \<in> ?D" if ip: "(i, Some p) \<in> linksOf db" "p \<in> ?D" for i p
  proof -
    have p: "p \<in> cs_ID ` set out" "p \<notin> set (concat keep)" using ip(2) by auto
    obtain c where c: "c \<in> rowsOf db" "cs_ID c = i" "cs_ParentID c = Some p" using linksE[OF ip(1)] by blast
    obtain x where "x \<in> set out" "p = cs_ID x" using p(1) by auto
    then have "i \<in> cs_ID ` set out" using sub c unfolding isSubtree_def by blast
    moreover have "i \<notin> set (concat keep)"
      using d ip(1) p dest unfolding detaching_def upTo_def by blast
    ultimately show ?thesis by auto
  qed
qed

lemma triple_from: "(\<And>db. P db \<Longrightarrow> triple (\<lambda>d. d = db) m Q E) \<Longrightarrow> triple P m Q E"
  unfolding triple_def by blast

lemma DetachDevice_ok: "triple tree_ok (DetachDevice i) (\<lambda>_. tree_ok) tree_ok"
proof -
  have start: "detaching e dest [] (filter (\<lambda>s. cs_ParentID s = Some (cs_ID e) \<and> cs_Kind s = ConfigScopeKindService) (ct_scopes db)) db"
    if "tree_ok db" "e \<in> rowsOf db" "cs_ParentID e = Some dest" for e dest db
    using that linksI[of _ "ct_scopes db"] scopes_okD(1)[of "ct_scopes db"]
    by (force simp: detaching_def upTo_def tree_ok_def distinct_map_filter)
  have del: "triple (\<lambda>db. detaching e dest keep [] db \<and> isSubtree (ct_scopes db) (cs_ID e) out)
      (deleteScopeSubtree (filter (\<lambda>s. cs_ID s \<notin> set (concat keep)) out)) (\<lambda>_. tree_ok) (\<lambda>_. True)" for e dest keep out
  proof (rule triple_from)
    fix db assume a: "detaching e dest keep [] db \<and> isSubtree (ct_scopes db) (cs_ID e) out"
    show "triple (\<lambda>d. d = db) (deleteScopeSubtree (filter (\<lambda>s. cs_ID s \<notin> set (concat keep)) out)) (\<lambda>_. tree_ok) (\<lambda>_. True)"
      by (rule triple_weaken[OF deleteScopeSubtree_rows[of "ct_scopes db" "cq_scopes db"]])
        (use a detached_ok[of e dest keep db out] in \<open>auto simp: tree_ok_def detaching_def\<close>)
  qed
  have kids: "triple (\<lambda>db. (tree_ok db \<and> e \<in> rowsOf db \<and> cs_ParentID e = Some dest) \<and>
        kids = filter (\<lambda>s. cs_ParentID s = Some (cs_ID e) \<and> cs_Kind s = ConfigScopeKindService) (ct_scopes db))
      (dfor kids (moveKid dest)) (\<lambda>keep. detaching e dest keep []) (\<lambda>_. True)" for e dest kids
    by (rule triple_weaken[OF triple_for_acc[where P = "detaching e dest" and ys = "[]", OF moveKid_ok]]) (auto intro: start)
  have tx: "triple (\<lambda>db. tree_ok db \<and> e \<in> rowsOf db \<and> cs_Kind e = ConfigScopeKindDevice) (detachTx e) (\<lambda>_. tree_ok) (\<lambda>_. True)" for e
    unfolding detachTx_def
    by (rule triple_bind[OF detachDestParent_ok], rule triple_bind[OF triple_Find], simp, rule triple_bind[OF kids], rule DescendantScopes_then[OF del]) simp
  have whole: "triple (\<lambda>db. tree_ok db \<and> e \<in> rowsOf db \<and> cs_Kind e = ConfigScopeKindDevice) (transaction cfg_rollback (detachTx e)) (\<lambda>_. tree_ok) tree_ok" for e
    by (rule triple_transaction[OF tx]) (auto intro: tree_ok_rollback)
  have "triple (\<lambda>db. tree_ok db \<and> e \<in> rowsOf db) (transaction cfg_rollback (detachTx e)) (\<lambda>_. tree_ok) tree_ok"
    if "cs_Kind e = ConfigScopeKindDevice" for e
    using whole[of e] that by simp
  then show ?thesis unfolding DetachDevice_def
    by (intro GetScope_then guard_then) auto
qed

end
