(* ===== verification/Cfg_Moves.thy ===== *)
theory Cfg_Moves
  imports Cfg_Tree "HOL-Library.Multiset"
begin

text \<open>
  What the operations on configuration scopes do when no statement is lost: the chain that \<open>WalkParents\<close> returns, where
  \<open>placeAmongSiblings\<close> puts a scope, what \<open>DescendantScopes\<close> returns, and two edits of \<open>UpdateScope\<close> that do not do what
  they mean to.
\<close>

subsection \<open>Chains\<close>

definition isChain :: "ConfigScope list \<Rightarrow> ConfigScope list \<Rightarrow> bool" where
  "isChain rows ch \<longleftrightarrow> ch \<noteq> [] \<and> set ch \<subseteq> set rows \<and> successively (\<lambda>a b. cs_ParentID a = Some (cs_ID b)) ch \<and> cs_ParentID (last ch) = None"

lemma first_by_row:
  assumes "distinct (map cs_ID rows)" and "s \<in> set rows"
  shows "first_by cs_ID (\<lambda>r. cs_ID r = cs_ID s) rows = Some s"
proof (cases "first_by cs_ID (\<lambda>r. cs_ID r = cs_ID s) rows")
  case None
  then show ?thesis using assms(2) by (auto simp: first_by_None)
next
  case (Some r)
  then show ?thesis using first_by_Some[OF Some] distinct_row[OF assms(1) _ assms(2), of r] by simp
qed

lemma walkFrom_chain:
  assumes ok: "scopes_ok (ct_scopes db)"
  shows "cur \<in> rowsOf db \<Longrightarrow> depth (linksOf db) (cs_ID cur) k \<Longrightarrow>
    \<exists>ch. isChain (ct_scopes db) ch \<and> hd ch = cur \<and> length ch = Suc k \<and>
      (\<forall>n chain. (\<forall>c \<in> set chain. \<exists>m > k. depth (linksOf db) (cs_ID c) m) \<longrightarrow>
        walkFrom n cur chain (db, []) = (if length ch \<le> n then Inr (chain @ ch) else Inl (StatusErr 400 ''scope parent chain too deep''), (db, [])))"
proof (induction k arbitrary: cur)
  case 0
  have fresh: "cs_ID cur \<notin> cs_ID ` set chain" if "\<forall>c \<in> set chain. \<exists>m > 0. depth (linksOf db) (cs_ID c) m" for chain
    using that 0(2) depth_unique[OF single_links[OF scopes_okD(1)[OF ok]]] by fastforce
  have top: "cs_ParentID cur = None"
    using 0(2) by cases (use linksI[OF 0(1)] distinct_link[OF scopes_okD(1)[OF ok]] in auto)
  have "walkFrom n cur chain (db, []) = (if length [cur] \<le> n then Inr (chain @ [cur]) else Inl (StatusErr 400 ''scope parent chain too deep''), (db, []))"
    if "\<forall>c \<in> set chain. \<exists>m > 0. depth (linksOf db) (cs_ID c) m" for n chain
    using fresh[OF that] top by (cases n) (simp_all add: run_basic)
  then show ?case using 0(1) top by (intro exI[of _ "[cur]"]) (simp add: isChain_def)
next
  case (Suc k)
  note single = single_links[OF scopes_okD(1)[OF ok]]
  obtain p where p: "cs_ParentID cur = Some p" "depth (linksOf db) p k"
    using Suc(3) by cases (use linksI[OF Suc(2)] distinct_link[OF scopes_okD(1)[OF ok]] in auto)
  obtain nxt where nxt: "nxt \<in> rowsOf db" "cs_ID nxt = p" using scopes_ok_parent[OF ok Suc(2) p(1)] by auto
  obtain ch where ch: "isChain (ct_scopes db) ch" "hd ch = nxt" "length ch = Suc k"
    and walk: "\<And>n chain. \<forall>c \<in> set chain. \<exists>m > k. depth (linksOf db) (cs_ID c) m \<Longrightarrow>
        walkFrom n nxt chain (db, []) = (if length ch \<le> n then Inr (chain @ ch) else Inl (StatusErr 400 ''scope parent chain too deep''), (db, []))"
    using Suc(1)[OF nxt(1)] p(2) nxt(2) by blast
  have found: "first_by cs_ID (\<lambda>s. cs_ID s = p) (ct_scopes db) = Some nxt"
    using first_by_row[OF scopes_okD(1)[OF ok] nxt(1)] nxt(2) by simp
  have fresh: "cs_ID cur \<notin> cs_ID ` set chain" if "\<forall>c \<in> set chain. \<exists>m > Suc k. depth (linksOf db) (cs_ID c) m" for chain
    using that Suc(3) depth_unique[OF single] by fastforce
  have "walkFrom n cur chain (db, []) = (if length (cur # ch) \<le> n then Inr (chain @ cur # ch) else Inl (StatusErr 400 ''scope parent chain too deep''), (db, []))"
    if deep: "\<forall>c \<in> set chain. \<exists>m > Suc k. depth (linksOf db) (cs_ID c) m" for n chain
  proof (cases n)
    case 0
    then show ?thesis using fresh[OF deep] by (simp add: run_basic)
  next
    case (Suc n')
    have "\<forall>c \<in> set (chain @ [cur]). \<exists>m > k. depth (linksOf db) (cs_ID c) m" using deep \<open>depth (linksOf db) (cs_ID cur) (Suc k)\<close> by (auto dest: Suc_lessD)
    then show ?thesis using walk[of "chain @ [cur]" n'] fresh[OF deep] p(1) found Suc by (simp add: run_basic run_reads)
  qed
  moreover have "isChain (ct_scopes db) (cur # ch)"
    using ch p nxt Suc(2) by (cases ch) (auto simp: isChain_def)
  ultimately show ?case using ch(3) by (intro exI[of _ "cur # ch"]) simp
qed

text \<open>
  C39: In a tree of scopes \<open>WalkParents\<close> returns the chain of rows from the scope up to the root, or, exactly when that chain
  has more than 64 rows, the error that it is too deep.
\<close>

theorem WalkParents_chain:
  assumes "tree_ok db" and "start \<in> set (ct_scopes db)"
  shows "\<exists>ch. isChain (ct_scopes db) ch \<and> hd ch = start \<and>
    WalkParents start (db, []) = (if length ch \<le> maxScopeDepth then Inr ch else Inl (StatusErr 400 ''scope parent chain too deep''), (db, []))"
proof -
  have ok: "scopes_ok (ct_scopes db)" using assms(1) by (simp add: tree_ok_def)
  obtain k where "depth (linksOf db) (cs_ID start) k" using rooted_depth scopes_okD(2)[OF ok assms(2)] by blast
  then obtain ch where "isChain (ct_scopes db) ch" "hd ch = start"
    "\<forall>n chain. (\<forall>c \<in> set chain. \<exists>m > k. depth (linksOf db) (cs_ID c) m) \<longrightarrow>
        walkFrom n start chain (db, []) = (if length ch \<le> n then Inr (chain @ ch) else Inl (StatusErr 400 ''scope parent chain too deep''), (db, []))"
    using walkFrom_chain[OF ok assms(2)] by blast
  then show ?thesis unfolding WalkParents_def by (intro exI[of _ ch]) auto
qed

subsection \<open>Places\<close>

lemma mset_insert_by [simp]: "mset (insert_by lt x ys) = add_mset x (mset ys)"
  by (induction ys) auto

lemma mset_order_by [simp]: "mset (order_by lt xs) = mset xs"
  by (induction xs) (simp_all add: order_by_def)

lemma insert_by_remove1:
  assumes asym: "\<And>a b. lt a b \<Longrightarrow> \<not> lt b a"
  shows "sorted_wrt lt ys \<Longrightarrow> x \<in> set ys \<Longrightarrow> insert_by lt x (remove1 x ys) = ys"
proof (induction ys)
  case (Cons y ys)
  show ?case
  proof (cases "x = y")
    case True
    then show ?thesis using Cons.prems asym by (cases ys) auto
  next
    case False
    then show ?thesis using Cons by auto
  qed
qed simp

lemma sorted_remove1: "sorted_wrt lt ys \<Longrightarrow> sorted_wrt lt (remove1 x ys)"
  by (induction ys) (auto dest: set_remove1_subset[THEN subsetD])

text \<open>A list of rows in strict order is the one answer of \<open>ORDER BY\<close>.\<close>

lemma order_by_unique:
  assumes asym: "\<And>a b. lt a b \<Longrightarrow> \<not> lt b a"
  shows "mset xs = mset ys \<Longrightarrow> sorted_wrt lt ys \<Longrightarrow> order_by lt xs = ys"
proof (induction xs arbitrary: ys)
  case (Cons x xs)
  have x: "x \<in> set ys" using Cons.prems(1) by (metis list.set_intros(1) set_mset_mset)
  have "mset xs = mset (remove1 x ys)" using Cons.prems(1) by (simp flip: Cons.prems(1))
  moreover have "sorted_wrt lt (remove1 x ys)" using Cons.prems(2) by (rule sorted_remove1)
  ultimately have "order_by lt xs = remove1 x ys" by (rule Cons.IH)
  then show ?case using insert_by_remove1[OF asym Cons.prems(2) x] by (simp add: order_by_def)
qed (simp add: order_by_def)

fun numbered :: "int \<Rightarrow> nat list \<Rightarrow> (nat \<times> int) list" where
  "numbered i [] = []"
| "numbered i (x # xs) = (x, i) # numbered (i + 1) xs"

lemma placeWrites_past: "pos < i \<Longrightarrow> placeWrites pos n i ss = numbered i ss"
  by (induction ss arbitrary: i) auto

lemma placeWrites_numbered:
  "k \<le> length ss \<Longrightarrow> placeWrites (i + int k) n i ss = numbered i (take k ss @ n # drop k ss)"
proof (induction ss arbitrary: i k)
  case (Cons s ss)
  show ?case
  proof (cases k)
    case 0
    then show ?thesis by (simp add: placeWrites_past add.commute)
  next
    case (Suc j)
    then show ?thesis using Cons.IH[of j "i + 1"] Cons.prems by (simp add: algebra_simps)
  qed
qed simp

definition orderAt :: "(nat \<times> int) list \<Rightarrow> ConfigScope \<Rightarrow> ConfigScope" where
  "orderAt ws r = (case map_of ws (cs_ID r) of None \<Rightarrow> r | Some n \<Rightarrow> r\<lparr>cs_SortOrder := n\<rparr>)"

lemma orderAt_same [simp]: "cs_ID (orderAt ws r) = cs_ID r" "cs_ParentID (orderAt ws r) = cs_ParentID r"
  by (simp_all add: orderAt_def split: option.splits)

lemma run_orders:
  "distinct (map fst ws) \<Longrightarrow> \<exists>us. dfor ws (\<lambda>(i, order). setSortOrder i order) (db, []) = (Inr us, (db\<lparr>ct_scopes := map (orderAt ws) (ct_scopes db)\<rparr>, []))"
proof (induction ws arbitrary: db)
  case Nil
  then show ?case by (simp add: run_basic orderAt_def)
next
  case (Cons w ws)
  obtain i n where w: "w = (i, n)" by (cases w)
  have "orderAt ws (if cs_ID r = i then r\<lparr>cs_SortOrder := n\<rparr> else r) = orderAt (w # ws) r" for r
    using Cons.prems by (auto simp: orderAt_def w map_of_eq_None_iff[symmetric] split: option.splits)
  then have "map (orderAt ws) (map (\<lambda>r. if cs_ID r = i then r\<lparr>cs_SortOrder := n\<rparr> else r) (ct_scopes db)) = map (orderAt (w # ws)) (ct_scopes db)"
    by simp
  moreover obtain us where "dfor ws (\<lambda>(i, order). setSortOrder i order) (db\<lparr>ct_scopes := map (\<lambda>r. if cs_ID r = i then r\<lparr>cs_SortOrder := n\<rparr> else r) (ct_scopes db)\<rparr>, []) =
      (Inr us, (db\<lparr>ct_scopes := map (orderAt ws) (map (\<lambda>r. if cs_ID r = i then r\<lparr>cs_SortOrder := n\<rparr> else r) (ct_scopes db))\<rparr>, []))"
    using Cons.IH[of "db\<lparr>ct_scopes := map (\<lambda>r. if cs_ID r = i then r\<lparr>cs_SortOrder := n\<rparr> else r) (ct_scopes db)\<rparr>"] Cons.prems by auto
  ultimately show ?case by (simp add: w setSortOrder_def run_bind run_stmt run_basic)
qed

lemma fst_numbered [simp]: "map fst (numbered i xs) = xs"
  by (induction xs arbitrary: i) auto

lemma orders_numbered:
  "distinct (map cs_ID zs) \<Longrightarrow> map cs_SortOrder (map (orderAt (numbered i (map cs_ID zs))) zs) = map (\<lambda>k. i + int k) [0..<length zs]"
proof (induction zs arbitrary: i)
  case (Cons z zs)
  have "map cs_SortOrder (map (orderAt (numbered i (map cs_ID (z # zs)))) zs) = map cs_SortOrder (map (orderAt (numbered (i + 1) (map cs_ID zs))) zs)"
    using Cons.prems by (auto simp: orderAt_def image_iff)
  also have "\<dots> = map (\<lambda>k. i + 1 + int k) [0..<length zs]" using Cons by simp
  finally have "map cs_SortOrder (map (orderAt (numbered i (map cs_ID (z # zs)))) zs) = map (\<lambda>k. i + int (Suc k)) [0..<length zs]" by (simp add: algebra_simps)
  moreover have "cs_SortOrder (orderAt (numbered i (map cs_ID (z # zs))) z) = i" by (simp add: orderAt_def)
  moreover have "map (\<lambda>k. i + int k) [0..<length (z # zs)] = i # map (\<lambda>k. i + int (Suc k)) [0..<length zs]"
    by (simp add: upt_conv_Cons map_Suc_upt[symmetric] o_def del: upt_Suc)
  ultimately show ?case by simp
qed simp

lemma str_less_asym: "str_less a b \<Longrightarrow> \<not> str_less b a"
  by (induction a b rule: str_less.induct) (auto split: if_splits)

lemma scopeOrder_asym: "scopeOrder a b \<Longrightarrow> \<not> scopeOrder b a"
  using str_less_asym by (auto simp: scopeOrder_def)

lemma filter_key: "distinct (map f xs) \<Longrightarrow> x \<in> set xs \<Longrightarrow> filter (\<lambda>s. f s = f x) xs = [x]"
proof (induction xs)
  case (Cons y xs)
  show ?case
  proof (cases "x = y")
    case True
    then have "filter (\<lambda>s. f s = f x) xs = []" using Cons.prems(1) by (auto simp: filter_empty_conv) (metis imageI)
    then show ?thesis using True by simp
  qed (use Cons in auto)
qed simp

lemma mset_without:
  assumes "distinct (map f xs)" and "x \<in> set xs" and "P x"
  shows "mset (filter P xs) = add_mset x (mset (filter (\<lambda>s. P s \<and> f s \<noteq> f x) xs))"
proof -
  have "filter (\<lambda>s. f s = f x) (filter P xs) = [x]" by (rule filter_key) (use assms in \<open>simp_all add: distinct_map_filter\<close>)
  moreover have "mset (filter P xs) = mset (filter (\<lambda>s. f s = f x) (filter P xs)) + mset (filter (\<lambda>s. f s \<noteq> f x) (filter P xs))"
    by (metis mset_filter multiset_partition)
  ultimately show ?thesis by (simp add: filter_filter conj_commute)
qed

text \<open>
  C40: Where a scope goes among its siblings. After \<open>placeAmongSiblings\<close> the children of the parent are, in the order in
  which they are listed, the other children in their former order with the scope at the wanted position, cut to the
  positions there are, or at the end when no position is given, and their sort orders are 0, 1, 2 and so on.
\<close>

theorem placeAmongSiblings_places:
  assumes "tree_ok db" and "node \<in> set (ct_scopes db)" and "cs_ParentID node = Some p"
  shows "\<exists>db'. placeAmongSiblings (cs_ID node) p want (db, []) = (Inr (), (db', [])) \<and>
    (let others = map cs_ID (order_by scopeOrder (filter (\<lambda>s. cs_ParentID s = Some p \<and> cs_ID s \<noteq> cs_ID node) (ct_scopes db)));
         pos = (case want of None \<Rightarrow> length others | Some w \<Rightarrow> min (length others) (nat w));
         children = order_by scopeOrder (filter (\<lambda>s. cs_ParentID s = Some p) (ct_scopes db'))
     in map cs_ID children = take pos others @ cs_ID node # drop pos others \<and> map cs_SortOrder children = map int [0..<length children])"
proof -
  let ?rest = "order_by scopeOrder (filter (\<lambda>s. cs_ParentID s = Some p \<and> cs_ID s \<noteq> cs_ID node) (ct_scopes db))"
  let ?n = "length ?rest"
  define pos where "pos = (case want of None \<Rightarrow> ?n | Some w \<Rightarrow> min ?n (nat w))"
  define zs where "zs = take pos ?rest @ node # drop pos ?rest"
  let ?ws = "numbered 0 (map cs_ID zs)"
  let ?db = "db\<lparr>ct_scopes := map (orderAt ?ws) (ct_scopes db)\<rparr>"
  have dist: "distinct (map cs_ID (ct_scopes db))" using assms(1) scopes_okD(1) by (simp add: tree_ok_def)
  have mset: "mset zs = mset (filter (\<lambda>s. cs_ParentID s = Some p) (ct_scopes db))"
    unfolding mset_without[where P = "\<lambda>s. cs_ParentID s = Some p", OF dist assms(2,3)]
    using mset_order_by[of scopeOrder "filter (\<lambda>s. cs_ParentID s = Some p \<and> cs_ID s \<noteq> cs_ID node) (ct_scopes db)"]
      mset_append[of "take pos ?rest" "drop pos ?rest"] by (simp add: zs_def)
  have distz: "distinct (map cs_ID zs)"
    by (metis dist distinct_map_filter mset mset_map mset_eq_imp_distinct_iff)
  have writes: "placeWrites (int pos) (cs_ID node) 0 (map cs_ID ?rest) = ?ws"
    using placeWrites_numbered[of pos "map cs_ID ?rest" 0 "cs_ID node"]
    by (simp add: pos_def zs_def take_map drop_map split: option.splits)
  have clamp: "(case want of None \<Rightarrow> int (length (map cs_ID ?rest)) | Some w \<Rightarrow> min (int (length (map cs_ID ?rest))) (max 0 w)) = int pos"
    by (auto simp: pos_def split: option.splits)
  obtain us where "dfor ?ws (\<lambda>(i, order). setSortOrder i order) (db, []) = (Inr us, (?db, []))"
    using run_orders[of ?ws db] distz by auto
  then have run: "placeAmongSiblings (cs_ID node) p want (db, []) = (Inr (), (?db, []))"
    using writes clamp by (simp add: placeAmongSiblings_def Let_def run_bind run_reads run_basic)
  have orders: "map cs_SortOrder (map (orderAt ?ws) zs) = map int [0..<length zs]" using orders_numbered[OF distz, of 0] by simp
  have "sorted_wrt (<) (map cs_SortOrder (map (orderAt ?ws) zs))" unfolding orders by (simp add: sorted_wrt_map)
  then have sorted: "sorted_wrt scopeOrder (map (orderAt ?ws) zs)"
    unfolding sorted_wrt_map by (rule sorted_wrt_mono_rel[rotated]) (simp add: scopeOrder_def)
  have "mset (filter (\<lambda>s. cs_ParentID s = Some p) (ct_scopes ?db)) = mset (map (orderAt ?ws) zs)"
    by (simp add: filter_map o_def mset)
  then have kids: "order_by scopeOrder (filter (\<lambda>s. cs_ParentID s = Some p) (ct_scopes ?db)) = map (orderAt ?ws) zs"
    by (rule order_by_unique[rotated]) (rule sorted, erule scopeOrder_asym)
  show ?thesis
    using run kids orders by (intro exI[of _ ?db]) (simp add: Let_def zs_def pos_def o_def take_map drop_map split: option.splits)
qed

subsection \<open>The tree\<close>

text \<open>
  C15: The configuration scopes stay a tree: whatever becomes of their statements, creating, moving, editing, attaching and
  detaching leave distinct ids, one row without a parent, the folder \<open>global\<close>, and parent links that lead there from every row.
\<close>

theorem scope_tree_kept:
  assumes "tree_ok (fst s)"
  shows "tree_ok (fst (snd (CreateScope compile scope s))) \<and> tree_ok (fst (snd (MoveScope i parent order s))) \<and>
    tree_ok (fst (snd (UpdateScope compile i patch s))) \<and> tree_ok (fst (snd (AttachDevice parent device s))) \<and>
    tree_ok (fst (snd (DetachDevice i s)))"
proof (intro conjI)
  show "tree_ok (fst (snd (CreateScope compile scope s)))" by (rule cft.keepsD[OF _ assms]) (unfold cft.keeps_def, rule CreateScope_ok)
  show "tree_ok (fst (snd (MoveScope i parent order s)))" by (rule cft.keepsD[OF _ assms]) (unfold cft.keeps_def, rule MoveScope_ok)
  show "tree_ok (fst (snd (UpdateScope compile i patch s)))" by (rule cft.keepsD[OF _ assms]) (unfold cft.keeps_def, rule UpdateScope_ok)
  show "tree_ok (fst (snd (DetachDevice i s)))" by (rule cft.keepsD[OF _ assms]) (unfold cft.keeps_def, rule DetachDevice_ok)
  have "triple tree_ok (AttachDevice parent device) (\<lambda>_. tree_ok) tree_ok" by (rule triple_weaken[OF AttachDevice_ok]) auto
  then show "tree_ok (fst (snd (AttachDevice parent device s)))" by (intro cft.keepsD[OF _ assms]) (unfold cft.keeps_def)
qed

subsection \<open>A small tree\<close>

definition folderRow :: "nat \<Rightarrow> nat option \<Rightarrow> string \<Rightarrow> ConfigScope" where
  "folderRow i parent name = zeroScope\<lparr>cs_ID := i, cs_ParentID := parent, cs_Name := name, cs_Kind := ConfigScopeKindFolder, cs_Enabled := True\<rparr>"

definition demoScopes :: cfg_db where
  "demoScopes = \<lparr>ct_scopes = [folderRow 1 None ConfigRootName, (folderRow 2 (Some 1) ''core'')\<lparr>cs_DeviceID := Some 7\<rparr>, folderRow 3 (Some 1) ''edge'', folderRow 4 (Some 2) ''lab''],
     cq_scopes = 5, ct_devices = [\<lparr>dv_ID = 7, dv_Name = ''r1'', dv_SiteID = 0\<rparr>], ct_interfaces = [], ct_assignments = [], ct_features = []\<rparr>"

definition noPatch :: ConfigScopeDTO where
  "noPatch = \<lparr>cd_ParentID = None, cd_Name = None, cd_Kind = None, cd_SiteID = None, cd_DeviceID = None, cd_InterfaceID = None, cd_ServiceID = None,
     cd_ServiceTypeID = None, cd_Platform = None, cd_PayloadKind = None, cd_Enabled = None, cd_SortOrder = None, cd_Payload = None\<rparr>"

lemma demo_tree: "tree_ok demoScopes"
proof -
  let ?L = "{(1, None), (2, Some 1), (3, Some 1), (4, Some 2)} :: link set"
  have L: "linksOf demoScopes = ?L" by (auto simp: links_def demoScopes_def folderRow_def link_def zeroScope_def)
  have r1: "rooted ?L 1" by (rule rooted.top) simp
  have r2: "rooted ?L 2" by (rule rooted.sub[OF _ r1]) simp
  have r3: "rooted ?L 3" by (rule rooted.sub[OF _ r1]) simp
  have r4: "rooted ?L 4" by (rule rooted.sub[OF _ r2]) simp
  have "scopes_ok (ct_scopes demoScopes)"
    by (rule scopes_okI[of _ 1]; (unfold L)?)
      (auto simp: demoScopes_def folderRow_def zeroScope_def isGlobal_def r1 r2 r3 r4 simp del: One_nat_def)
  then show ?thesis by (auto simp: tree_ok_def demoScopes_def folderRow_def zeroScope_def)
qed

theorem scope_tree_kept_witness:
  "tree_ok (fst (snd (MoveScope 4 3 (Some 0) (demoScopes, [Runs, Runs, Lost ''gone'']))))"
  using scope_tree_kept[of "(demoScopes, [Runs, Runs, Lost ''gone''])" _ _ 4 3 "Some 0"] demo_tree by simp

theorem WalkParents_chain_witness:
  "\<exists>ch. isChain (ct_scopes demoScopes) ch \<and> hd ch = folderRow 4 (Some 2) ''lab'' \<and>
    WalkParents (folderRow 4 (Some 2) ''lab'') (demoScopes, []) =
      (if length ch \<le> maxScopeDepth then Inr ch else Inl (StatusErr 400 ''scope parent chain too deep''), (demoScopes, []))"
  by (rule WalkParents_chain[OF demo_tree]) (simp add: demoScopes_def)

theorem placeAmongSiblings_places_witness:
  "\<exists>db'. placeAmongSiblings (cs_ID (folderRow 3 (Some 1) ''edge'')) 1 (Some 0) (demoScopes, []) = (Inr (), (db', [])) \<and>
    (let others = map cs_ID (order_by scopeOrder (filter (\<lambda>s. cs_ParentID s = Some 1 \<and> cs_ID s \<noteq> cs_ID (folderRow 3 (Some 1) ''edge'')) (ct_scopes demoScopes)));
         pos = (case Some (0 :: int) of None \<Rightarrow> length others | Some w \<Rightarrow> min (length others) (nat w));
         children = order_by scopeOrder (filter (\<lambda>s. cs_ParentID s = Some 1) (ct_scopes db'))
     in map cs_ID children = take pos others @ cs_ID (folderRow 3 (Some 1) ''edge'') # drop pos others \<and> map cs_SortOrder children = map int [0..<length children])"
  by (rule placeAmongSiblings_places[OF demo_tree]) (simp_all add: demoScopes_def folderRow_def)

subsection \<open>Edits that change the kind\<close>

text \<open>
  A folder that has a child is made a parameter object: \<open>UpdateScope\<close> checks the new kind against the parent of the
  scope, not against its children, and a folder is left under a parameter object, where it may not be created or moved.
\<close>

theorem kind_change_keeps_children:
  "(case UpdateScope (\<lambda>_. None) 2 (noPatch\<lparr>cd_Kind := Some ConfigScopeKindParameter\<rparr>) (demoScopes, []) of
      (Inr r, (db, _)) \<Rightarrow> map (\<lambda>s. (cs_ID s, cs_ParentID s, cs_Kind s)) (ct_scopes db) | _ \<Rightarrow> []) =
    [(1, None, ConfigScopeKindFolder), (2, Some 1, ConfigScopeKindParameter), (3, Some 1, ConfigScopeKindFolder), (4, Some 2, ConfigScopeKindFolder)] \<and>
   assertParentKind (folderRow 4 (Some 2) ''lab'') ((folderRow 2 (Some 1) ''core'')\<lparr>cs_Kind := ConfigScopeKindParameter\<rparr>) =
     Inl (StatusErr 400 ''folder cannot be under parameter'')"
  by code_simp

text \<open>
  A folder with a device id is moved and made a device scope in one edit: \<open>moveScopeTx\<close> looks for the device scope of the
  device in the table, where the edited row still is a folder, and creates a second scope. The edited scope stays as it
  was and the answer is another scope.
\<close>

theorem kind_change_moves_other:
  "(case UpdateScope (\<lambda>_. None) 2 (noPatch\<lparr>cd_Kind := Some ConfigScopeKindDevice, cd_ParentID := Some 3\<rparr>) (demoScopes, []) of
      (Inr r, (db, _)) \<Rightarrow> (cs_ID r, map (\<lambda>s. (cs_ID s, cs_ParentID s, cs_Kind s)) (ct_scopes db)) | _ \<Rightarrow> (0, [])) =
    (5, [(1, None, ConfigScopeKindFolder), (2, Some 1, ConfigScopeKindFolder), (3, Some 1, ConfigScopeKindFolder),
         (4, Some 2, ConfigScopeKindFolder), (5, Some 3, ConfigScopeKindDevice)])"
  by code_simp

end
